(* ===== verification/Tern_Prelude.thy ===== *)
theory Tern_Prelude
  imports Main "HOL-Library.Word" "HOL-Library.Sublist" "HOL-Library.Monad_Syntax" "HOL-Library.Multiset"
begin

text \<open>
  The prelude of the development: the vocabulary of Go that every component uses.
  It holds the type synonyms of the model (a Go string is a list of bytes, here HOL's
  \<open>string\<close>; a Go \<open>int\<close> that the code only counts or indexes with is \<open>int\<close> or \<open>nat\<close>, one
  that the code sums is a 64-bit word), the functions of Go's packages \<open>strings\<close>,
  \<open>strconv\<close> and \<open>unicode/utf8\<close> that the sources call, Go maps as association lists, and
  the generic lemmas on lists, options and results that the component proofs share.
\<close>

named_theorems go_str \<open>unfolding rules of the string library\<close>
named_theorems result_iff \<open>characterisations of successful results\<close>

type_synonym go_int = "64 word"
type_synonym go_float = "64 word"
type_synonym go_time = int

section \<open>Results\<close>

text \<open>A fallible Go function returns \<open>Inl\<close> its error or \<open>Inr\<close> its value.\<close>

type_synonym ('e, 'a) result = "'e + 'a"

fun bind_res :: "('e, 'a) result \<Rightarrow> ('a \<Rightarrow> ('e, 'b) result) \<Rightarrow> ('e, 'b) result" where
  "bind_res (Inl e) f = Inl e"
| "bind_res (Inr x) f = f x"

lemma bind_res_Inr_iff [result_iff]:
  "bind_res m f = Inr y \<longleftrightarrow> (\<exists>x. m = Inr x \<and> f x = Inr y)"
  by (cases m) auto

lemma bind_res_cong [fundef_cong]:
  assumes "m = m'" and "\<And>x. m' = Inr x \<Longrightarrow> f x = f' x"
  shows "bind_res m f = bind_res m' f'"
  using assms by (cases m') auto

section \<open>Go maps as association lists\<close>

text \<open>
  A Go map is modelled by an association list with distinct keys, so that its size is
  computable and its iteration order, which Go leaves open, is the order of the list.
  \<open>massign\<close> is \<open>m[k] = v\<close> and \<open>mdelete\<close> is \<open>delete(m, k)\<close>; \<open>map_of\<close> is \<open>m[k]\<close> with its
  \<open>ok\<close> flag as the option.
\<close>

fun massign :: "'k \<Rightarrow> 'v \<Rightarrow> ('k \<times> 'v) list \<Rightarrow> ('k \<times> 'v) list" where
  "massign k v [] = [(k, v)]"
| "massign k v ((k', v') # m) = (if k = k' then (k, v) # m else (k', v') # massign k v m)"

fun mdelete :: "'k \<Rightarrow> ('k \<times> 'v) list \<Rightarrow> ('k \<times> 'v) list" where
  "mdelete k [] = []"
| "mdelete k ((k', v') # m) = (if k = k' then m else (k', v') # mdelete k m)"

abbreviation mkeys :: "('k \<times> 'v) list \<Rightarrow> 'k set" where
  "mkeys m \<equiv> fst ` set m"

definition is_go_map :: "('k \<times> 'v) list \<Rightarrow> bool" where
  "is_go_map m \<longleftrightarrow> distinct (map fst m)"

lemma is_go_map_Nil [simp]: "is_go_map []"
  by (simp add: is_go_map_def)

lemma is_go_map_Cons [simp]: "is_go_map ((k, v) # m) \<longleftrightarrow> k \<notin> mkeys m \<and> is_go_map m"
  by (simp add: is_go_map_def)

lemma map_of_massign [simp]: "map_of (massign k v m) = (map_of m)(k \<mapsto> v)"
  by (induction k v m rule: massign.induct) auto

lemma mkeys_massign [simp]: "mkeys (massign k v m) = insert k (mkeys m)"
  by (induction k v m rule: massign.induct) auto

lemma is_go_map_massign [simp]: "is_go_map m \<Longrightarrow> is_go_map (massign k v m)"
  by (induction k v m rule: massign.induct) (auto simp del: image_insert)

lemma mkeys_mdelete [simp]: "is_go_map m \<Longrightarrow> mkeys (mdelete k m) = mkeys m - {k}"
  by (induction k m rule: mdelete.induct) auto

lemma map_of_mdelete [simp]: "is_go_map m \<Longrightarrow> map_of (mdelete k m) = (map_of m)(k := None)"
proof (induction k m rule: mdelete.induct)
  case (2 k k' v' m)
  then show ?case by (auto simp: fun_eq_iff map_of_eq_None_iff)
qed auto

lemma is_go_map_mdelete [simp]: "is_go_map m \<Longrightarrow> is_go_map (mdelete k m)"
  by (induction k m rule: mdelete.induct) auto

lemma length_massign: "length (massign k v m) = (if k \<in> mkeys m then length m else Suc (length m))"
  by (induction k v m rule: massign.induct) auto

lemma length_mdelete:
  "length (mdelete k m) = (if k \<in> mkeys m then length m - 1 else length m)"
proof (induction k m rule: mdelete.induct)
  case (2 k k' v' m)
  then show ?case by (cases m) auto
qed simp

lemma mkeys_map_of: "k \<in> mkeys m \<longleftrightarrow> map_of m k \<noteq> None"
  by (simp add: map_of_eq_None_iff)

lemma is_go_map_length: "is_go_map m \<Longrightarrow> length m = card (mkeys m)"
  by (metis distinct_card is_go_map_def length_map list.set_map)

section \<open>Package strings\<close>

text \<open>Prefixes, suffixes and substring search; the indices are byte offsets.\<close>

fun HasPrefix :: "string \<Rightarrow> string \<Rightarrow> bool" where
  "HasPrefix s [] = True"
| "HasPrefix [] (p # ps) = False"
| "HasPrefix (c # s) (p # ps) = (c = p \<and> HasPrefix s ps)"

definition HasSuffix :: "string \<Rightarrow> string \<Rightarrow> bool" where
  "HasSuffix s p = HasPrefix (rev s) (rev p)"

definition TrimPrefix :: "string \<Rightarrow> string \<Rightarrow> string" where
  "TrimPrefix s p = (if HasPrefix s p then drop (length p) s else s)"

definition TrimSuffix :: "string \<Rightarrow> string \<Rightarrow> string" where
  "TrimSuffix s p = (if HasSuffix s p then take (length s - length p) s else s)"

fun strIndex :: "string \<Rightarrow> string \<Rightarrow> nat option" where
  "strIndex [] sub = (if sub = [] then Some 0 else None)"
| "strIndex (c # s) sub = (if HasPrefix (c # s) sub then Some 0 else map_option Suc (strIndex s sub))"

definition Contains :: "string \<Rightarrow> string \<Rightarrow> bool" where
  "Contains s sub = (strIndex s sub \<noteq> None)"

definition strLastIndex :: "string \<Rightarrow> string \<Rightarrow> nat option" where
  "strLastIndex s sub =
     map_option (\<lambda>i. length s - length sub - i) (strIndex (rev s) (rev sub))"

lemma HasPrefix_iff: "HasPrefix s p \<longleftrightarrow> prefix p s"
  by (induction s p rule: HasPrefix.induct) auto

lemma HasPrefix_append [simp]: "HasPrefix (p @ s) p"
  by (simp add: HasPrefix_iff)

lemma HasSuffix_iff: "HasSuffix s p \<longleftrightarrow> suffix p s"
  by (simp add: HasSuffix_def HasPrefix_iff suffix_to_prefix)

lemma TrimPrefix_append [simp]: "TrimPrefix (p @ s) p = s"
  by (simp add: TrimPrefix_def)

lemma strIndex_Some:
  "strIndex s sub = Some i \<Longrightarrow> i + length sub \<le> length s \<and> take (length sub) (drop i s) = sub"
proof (induction s sub arbitrary: i rule: strIndex.induct)
  case (2 c s sub)
  show ?case
  proof (cases "HasPrefix (c # s) sub")
    case True
    with "2.prems" have "i = 0" by simp
    moreover from True obtain t where "c # s = sub @ t"
      by (auto simp: HasPrefix_iff prefix_def)
    ultimately show ?thesis by (metis add_0 append_eq_conv_conj drop0 length_append le_add1)
  next
    case False
    with "2.prems" obtain j where "strIndex s sub = Some j" "i = Suc j" by auto
    with "2.IH" False show ?thesis by auto
  qed
qed (auto split: if_splits)

lemma strIndex_None_iff: "strIndex s sub = None \<longleftrightarrow> (\<nexists>a b. s = a @ sub @ b)"
proof (induction s sub rule: strIndex.induct)
  case (2 c s sub)
  show ?case
  proof (cases "HasPrefix (c # s) sub")
    case True
    then obtain t where "c # s = sub @ t" by (auto simp: HasPrefix_iff prefix_def)
    then have "c # s = [] @ sub @ t" by simp
    then have "\<exists>a b. c # s = a @ sub @ b" by blast
    moreover from True have "strIndex (c # s) sub = Some 0" by simp
    ultimately show ?thesis by simp
  next
    case False
    then have "(\<exists>a b. c # s = a @ sub @ b) \<longleftrightarrow> (\<exists>a b. s = a @ sub @ b)"
      by (auto simp: HasPrefix_iff prefix_def Cons_eq_append_conv)
    with False 2 show ?thesis by simp
  qed
qed auto

lemma Contains_iff: "Contains s sub \<longleftrightarrow> (\<exists>a b. s = a @ sub @ b)"
  using strIndex_None_iff [of s sub] by (auto simp: Contains_def)

text \<open>
  \<open>strings.ToLower\<close> and \<open>strings.ToUpper\<close>: the ASCII letters, and the two non-ASCII runes
  each whose image is an ASCII letter (U+0130 and U+212A, U+0131 and U+017F). Other runes
  keep their bytes: the sources only compare the result with ASCII text, which no image of
  such a rune contains.
\<close>

definition byte :: "char \<Rightarrow> nat" where
  "byte c = of_char c"

definition lower_char :: "char \<Rightarrow> char" where
  "lower_char c = (if 65 \<le> byte c \<and> byte c \<le> 90 then char_of (byte c + 32) else c)"

definition upper_char :: "char \<Rightarrow> char" where
  "upper_char c = (if 97 \<le> byte c \<and> byte c \<le> 122 then char_of (byte c - 32) else c)"

fun ToLower :: "string \<Rightarrow> string" where
  "ToLower [] = []"
| "ToLower (c # s) =
     (if byte c = 0xC4 \<and> HasPrefix s [CHR 0xB0] then CHR ''i'' # ToLower (tl s)
      else if byte c = 0xE2 \<and> HasPrefix s [CHR 0x84, CHR 0xAA] then CHR ''k'' # ToLower (tl (tl s))
      else lower_char c # ToLower s)"

fun ToUpper :: "string \<Rightarrow> string" where
  "ToUpper [] = []"
| "ToUpper (c # s) =
     (if byte c = 0xC4 \<and> HasPrefix s [CHR 0xB1] then CHR ''I'' # ToUpper (tl s)
      else if byte c = 0xC5 \<and> HasPrefix s [CHR 0xBF] then CHR ''S'' # ToUpper (tl s)
      else upper_char c # ToUpper s)"

text \<open>
  \<open>strings.TrimSpace\<close> removes leading and trailing runes of \<open>unicode.IsSpace\<close>; they are
  listed by their UTF-8 encodings.
\<close>

definition space_runes :: "string list" where
  "space_runes =
     [[CHR 0x09], [CHR 0x0A], [CHR 0x0B], [CHR 0x0C], [CHR 0x0D], [CHR 0x20],
      [CHR 0xC2, CHR 0x85], [CHR 0xC2, CHR 0xA0], [CHR 0xE1, CHR 0x9A, CHR 0x80],
      [CHR 0xE2, CHR 0x80, CHR 0x80], [CHR 0xE2, CHR 0x80, CHR 0x81], [CHR 0xE2, CHR 0x80, CHR 0x82],
      [CHR 0xE2, CHR 0x80, CHR 0x83], [CHR 0xE2, CHR 0x80, CHR 0x84], [CHR 0xE2, CHR 0x80, CHR 0x85],
      [CHR 0xE2, CHR 0x80, CHR 0x86], [CHR 0xE2, CHR 0x80, CHR 0x87], [CHR 0xE2, CHR 0x80, CHR 0x88],
      [CHR 0xE2, CHR 0x80, CHR 0x89], [CHR 0xE2, CHR 0x80, CHR 0x8A], [CHR 0xE2, CHR 0x80, CHR 0xA8],
      [CHR 0xE2, CHR 0x80, CHR 0xA9], [CHR 0xE2, CHR 0x80, CHR 0xAF], [CHR 0xE2, CHR 0x81, CHR 0x9F],
      [CHR 0xE3, CHR 0x80, CHR 0x80]]"

fun strip_runes :: "string list \<Rightarrow> nat \<Rightarrow> string \<Rightarrow> string" where
  "strip_runes rs 0 s = s"
| "strip_runes rs (Suc n) s =
     (case find (HasPrefix s) rs of
        None \<Rightarrow> s
      | Some r \<Rightarrow> strip_runes rs n (drop (length r) s))"

definition TrimLeftSpace :: "string \<Rightarrow> string" where
  "TrimLeftSpace s = strip_runes space_runes (length s) s"

definition TrimRightSpace :: "string \<Rightarrow> string" where
  "TrimRightSpace s = rev (strip_runes (map rev space_runes) (length s) (rev s))"

definition TrimSpace :: "string \<Rightarrow> string" where
  "TrimSpace s = TrimRightSpace (TrimLeftSpace s)"

text \<open>\<open>strings.Split\<close> with a one-byte separator, and \<open>strings.Join\<close>.\<close>

fun SplitByte :: "char \<Rightarrow> string \<Rightarrow> string list" where
  "SplitByte c [] = [[]]"
| "SplitByte c (x # s) =
     (if x = c then [] # SplitByte c s
      else (case SplitByte c s of [] \<Rightarrow> [[x]] | w # ws \<Rightarrow> (x # w) # ws))"

fun Join :: "string list \<Rightarrow> string \<Rightarrow> string" where
  "Join [] sep = []"
| "Join [x] sep = x"
| "Join (x # y # xs) sep = x @ sep @ Join (y # xs) sep"

lemma SplitByte_nonempty [simp]: "SplitByte c s \<noteq> []"
  by (induction s) (auto split: list.splits)

lemma Join_SplitByte: "Join (SplitByte c s) [c] = s"
proof (induction s)
  case (Cons x s)
  then show ?case by (cases "SplitByte c s"; cases "tl (SplitByte c s)") auto
qed simp

lemma SplitByte_append: "SplitByte c (a @ c # b) = SplitByte c a @ SplitByte c b"
  by (induction a) (auto split: list.splits)

lemma SplitByte_none: "c \<notin> set s \<Longrightarrow> SplitByte c s = [s]"
  by (induction s) auto

lemma SplitByte_sublist: "w \<in> set (SplitByte c s) \<Longrightarrow> sublist w s"
proof (induction s arbitrary: w)
  case (Cons x s)
  obtain v vs where split: "SplitByte c s = v # vs" by (cases "SplitByte c s") auto
  have "prefix v s"
    using split Join_SplitByte [of c s] by (cases vs) auto
  with Cons split show ?case
    by (auto split: if_splits intro: sublist_Cons_right prefix_imp_sublist
        simp: sublist_Cons_right)
qed simp

lemma strip_runes_suffix: "suffix (strip_runes rs n s) s"
proof (induction rs n s rule: strip_runes.induct)
  case (2 rs n s)
  then show ?case
    by (auto split: option.split intro: suffix_order.trans [OF _ suffix_drop])
qed simp

lemma TrimSpace_sublist: "sublist (TrimSpace s) s"
proof -
  have "prefix (TrimRightSpace t) t" for t
    using strip_runes_suffix [of "map rev space_runes" "length t" "rev t"]
    by (simp add: TrimRightSpace_def suffix_to_prefix)
  moreover have "suffix (TrimLeftSpace s) s"
    by (simp add: TrimLeftSpace_def strip_runes_suffix)
  ultimately show ?thesis
    unfolding TrimSpace_def by (meson prefix_imp_sublist sublist_order.order_trans suffix_imp_sublist)
qed

text \<open>Text of printable ASCII characters is not changed by \<open>TrimSpace\<close>.\<close>

definition graph_char :: "char \<Rightarrow> bool" where
  "graph_char c \<longleftrightarrow> 0x21 \<le> byte c \<and> byte c \<le> 0x7E"

lemma space_runes_heads:
  "r \<in> set space_runes \<Longrightarrow> r \<noteq> [] \<and> \<not> graph_char (hd r) \<and> \<not> graph_char (last r)"
  by (auto simp: space_runes_def graph_char_def byte_def)

lemma strip_runes_id:
  assumes "\<And>r. r \<in> set rs \<Longrightarrow> r \<noteq> [] \<and> \<not> graph_char (hd r)" and "s = [] \<or> graph_char (hd s)"
  shows "strip_runes rs n s = s"
proof (cases n)
  case (Suc m)
  have "\<not> HasPrefix s r" if "r \<in> set rs" for r
    using assms(1) [OF that] assms(2) by (cases s; cases r) auto
  then have "find (HasPrefix s) rs = None" by (simp add: find_None_iff)
  with Suc show ?thesis by simp
qed simp

lemma TrimSpace_id:
  assumes "s = [] \<or> graph_char (hd s) \<and> graph_char (last s)"
  shows "TrimSpace s = s"
proof -
  have left: "TrimLeftSpace s = s"
    unfolding TrimLeftSpace_def
    by (rule strip_runes_id) (use space_runes_heads assms in auto)
  have "strip_runes (map rev space_runes) (length s) (rev s) = rev s"
    by (rule strip_runes_id) (use space_runes_heads assms in \<open>auto simp: hd_rev\<close>)
  then have "TrimRightSpace s = s" by (simp only: TrimRightSpace_def rev_rev_ident)
  with left show ?thesis by (simp only: TrimSpace_def)
qed

lemma TrimSpace_graph:
  assumes "list_all graph_char s"
  shows "TrimSpace s = s"
proof (rule TrimSpace_id)
  show "s = [] \<or> graph_char (hd s) \<and> graph_char (last s)"
    using assms by (cases "s = []") (simp_all add: list_all_iff)
qed

section \<open>Package strconv\<close>

text \<open>\<open>strconv.Itoa\<close> and \<open>%x\<close>: the digits of a number in base \<open>b\<close>, most significant first.\<close>

fun digits_base :: "nat \<Rightarrow> nat \<Rightarrow> nat list" where
  "digits_base b n = (if b < 2 \<or> n < b then [n] else digits_base b (n div b) @ [n mod b])"

declare digits_base.simps [simp del]

definition digit_char :: "nat \<Rightarrow> char" where
  "digit_char d = (if d < 10 then char_of (48 + d) else char_of (87 + d))"

definition format_nat :: "nat \<Rightarrow> nat \<Rightarrow> string" where
  "format_nat b n = map digit_char (digits_base b n)"

definition Itoa :: "int \<Rightarrow> string" where
  "Itoa i = (if i < 0 then CHR ''-'' # format_nat 10 (nat (- i)) else format_nat 10 (nat i))"

lemma digits_base_bound: "2 \<le> b \<Longrightarrow> d \<in> set (digits_base b n) \<Longrightarrow> d < b"
proof (induction b n rule: digits_base.induct)
  case (1 b n)
  show ?case
  proof (cases "n < b")
    case True
    with 1 show ?thesis by (simp add: digits_base.simps [of b n])
  next
    case False
    with 1 show ?thesis by (auto simp: digits_base.simps [of b n])
  qed
qed

lemma digits_base_nonempty [simp]: "digits_base b n \<noteq> []"
  by (subst digits_base.simps) simp

lemma length_digits_base:
  "2 \<le> b \<Longrightarrow> 0 < k \<Longrightarrow> n < b ^ k \<Longrightarrow> length (digits_base b n) \<le> k"
proof (induction k arbitrary: n)
  case (Suc k)
  show ?case
  proof (cases "n < b")
    case True
    then show ?thesis by (simp add: digits_base.simps [of b n])
  next
    case False
    with Suc.prems have "k \<noteq> 0" by (cases k) auto
    moreover from Suc.prems have "n div b < b ^ k"
      by (simp add: less_mult_imp_div_less mult.commute)
    ultimately have "length (digits_base b (n div b)) \<le> k"
      using Suc by simp
    with False Suc.prems(1) show ?thesis by (simp add: digits_base.simps [of b n])
  qed
qed simp

text \<open>The value of a digit list, and that it inverts \<open>digits_base\<close>.\<close>

definition digits_value :: "nat \<Rightarrow> nat list \<Rightarrow> nat" where
  "digits_value b ds = foldl (\<lambda>a d. a * b + d) 0 ds"

lemma digits_value_digits_base: "digits_value b (digits_base b n) = n"
proof (induction b n rule: digits_base.induct)
  case (1 b n)
  then show ?case
    by (subst digits_base.simps) (auto simp: digits_value_def)
qed

lemma format_nat_bound:
  assumes "2 \<le> b" and "0 < k" and "n < b ^ k"
  shows "length (format_nat b n) \<le> k"
  using length_digits_base [OF assms] by (simp add: format_nat_def)

lemma format_nat_nonempty [simp]: "format_nat b n \<noteq> []"
  by (simp add: format_nat_def)

lemma digit_char_value: "d < 16 \<Longrightarrow> of_char (digit_char d) = (if d < 10 then 48 + d else 87 + d)"
  by (simp add: digit_char_def)

lemma digit_char_inj: "inj_on digit_char {..<16}"
proof (rule inj_onI)
  fix x y
  assume "x \<in> {..<16}" "y \<in> {..<16}" and eq: "digit_char x = digit_char y"
  then have "(if x < 10 then 48 + x else 87 + x) = (if y < 10 then 48 + y else 87 + y)"
    by (metis digit_char_value lessThan_iff)
  with \<open>x \<in> {..<16}\<close> \<open>y \<in> {..<16}\<close> show "x = y" by (simp split: if_splits)
qed

lemma format_nat_inj:
  assumes "2 \<le> b" "b \<le> 16" and "format_nat b n = format_nat b m"
  shows "n = m"
proof -
  have "set (digits_base b n) \<union> set (digits_base b m) \<subseteq> {..<16}"
    using digits_base_bound assms(1,2) by fastforce
  then have "digits_base b n = digits_base b m"
    using assms(3) map_inj_on [of digit_char "digits_base b n" "digits_base b m"]
      inj_on_subset [OF digit_char_inj] by (simp add: format_nat_def)
  then show ?thesis by (metis digits_value_digits_base)
qed

lemma Itoa_nat_inj: "Itoa (int n) = Itoa (int m) \<longleftrightarrow> n = m"
  using format_nat_inj [of 10 n m] by (auto simp: Itoa_def)

section \<open>Package unicode/utf8\<close>

text \<open>
  \<open>rune_size s\<close> is the width of the valid rune at the head of \<open>s\<close>, and 0 where
  \<open>utf8.DecodeRuneInString\<close> reports \<open>RuneError\<close> (an invalid or truncated encoding, of which it
  consumes one byte).
\<close>

definition in_range :: "nat \<Rightarrow> nat \<Rightarrow> char \<Rightarrow> bool" where
  "in_range lo hi c = (lo \<le> byte c \<and> byte c \<le> hi)"

abbreviation is_cont :: "char \<Rightarrow> bool" where
  "is_cont \<equiv> in_range 0x80 0xBF"

definition second_ok :: "char \<Rightarrow> char \<Rightarrow> bool" where
  "second_ok c d =
     (if byte c = 0xE0 then in_range 0xA0 0xBF d
      else if byte c = 0xED then in_range 0x80 0x9F d
      else if byte c = 0xF0 then in_range 0x90 0xBF d
      else if byte c = 0xF4 then in_range 0x80 0x8F d
      else is_cont d)"

definition rune_width :: "char \<Rightarrow> nat" where
  "rune_width c =
     (if byte c < 0x80 then 1
      else if in_range 0xC2 0xDF c then 2
      else if in_range 0xE0 0xEF c then 3
      else if in_range 0xF0 0xF4 c then 4 else 0)"

fun rune_size :: "string \<Rightarrow> nat" where
  "rune_size [] = 0"
| "rune_size (c # s) =
     (let w = rune_width c in
      if w \<le> 1 then w
      else (case s of
              [] \<Rightarrow> 0
            | d # t \<Rightarrow>
                if second_ok c d \<and> w - 2 \<le> length t \<and> list_all is_cont (take (w - 2) t)
                then w else 0))"

lemma rune_width_le: "rune_width c \<le> 4"
  by (simp add: rune_width_def)

lemma rune_size_le: "rune_size s \<le> 4 \<and> rune_size s \<le> length s"
proof (cases s)
  case (Cons c t)
  then show ?thesis
    using rune_width_le [of c] by (cases t) (auto simp: Let_def)
qed simp

text \<open>\<open>utf8.RuneCountInString\<close> and the conversion \<open>[]rune(s)\<close>: the runes of \<open>s\<close>, an invalid byte
  counting as one.\<close>

function to_runes :: "string \<Rightarrow> string list" where
  "to_runes [] = []"
| "to_runes (c # s) =
     (let n = max 1 (rune_size (c # s)) in take n (c # s) # to_runes (drop n (c # s)))"
  by pat_completeness auto
termination
  by (relation "measure length") auto

lemma concat_to_runes: "concat (to_runes s) = s"
proof (induction s rule: to_runes.induct)
  case (2 c s)
  then show ?case by (simp only: to_runes.simps Let_def concat.simps append_take_drop_id)
qed simp

text \<open>\<open>string(runes)\<close> and \<open>encoding/json\<close> replace every invalid byte by U+FFFD.\<close>

definition show_rune :: "string \<Rightarrow> string" where
  "show_rune r = (if rune_size r = 0 then [CHR 0xEF, CHR 0xBF, CHR 0xBD] else r)"

definition valid_text :: "string \<Rightarrow> string" where
  "valid_text s = concat (map show_rune (to_runes s))"

lemma valid_text_Nil [simp]: "valid_text [] = []"
  by (simp add: valid_text_def)

lemma valid_text_ascii: "list_all (\<lambda>c. byte c < 0x80) s \<Longrightarrow> valid_text s = s"
proof (induction s)
  case (Cons c s)
  have r: "rune_size (c # t) = 1" for t using Cons.prems by (simp add: rune_width_def Let_def)
  have "to_runes (c # s) = [c] # to_runes s" by (simp only: to_runes.simps Let_def r) simp
  moreover have "show_rune [c] = [c]" by (simp only: show_rune_def r) simp
  ultimately show ?case using Cons by (simp add: valid_text_def)
qed simp

section \<open>Bounded search\<close>

lemma first_from_Suc:
  assumes "P m" "\<not> Q m"
  shows "(\<exists>n \<ge> m. Q n \<and> (\<forall>i. m \<le> i \<and> i < n \<longrightarrow> P i))
    \<longleftrightarrow> (\<exists>n \<ge> Suc m. Q n \<and> (\<forall>i. Suc m \<le> i \<and> i < n \<longrightarrow> P i))" (is "?l \<longleftrightarrow> ?r")
proof
  assume ?l
  then obtain n where n: "m \<le> n" "Q n" "\<forall>i. m \<le> i \<and> i < n \<longrightarrow> P i" by blast
  with assms(2) have "n \<noteq> m" by auto
  with n show ?r by (intro exI [of _ n]) simp
next
  assume ?r
  then obtain n where n: "Suc m \<le> n" "Q n" "\<forall>i. Suc m \<le> i \<and> i < n \<longrightarrow> P i" by blast
  with assms(1) have "P i" if "m \<le> i" "i < n" for i
    using that by (cases "i = m") simp_all
  with n show ?l by (intro exI [of _ n]) simp
qed

lemma first_from_stuck:
  fixes P :: "nat \<Rightarrow> bool"
  assumes "\<not> P m"
  shows "(\<exists>n \<ge> m. Q n \<and> (\<forall>i. m \<le> i \<and> i < n \<longrightarrow> P i)) \<longleftrightarrow> Q m"
proof
  assume "\<exists>n \<ge> m. Q n \<and> (\<forall>i. m \<le> i \<and> i < n \<longrightarrow> P i)"
  then obtain n where n: "m \<le> n" "Q n" "\<forall>i. m \<le> i \<and> i < n \<longrightarrow> P i" by blast
  with assms have "\<not> m < n" by (metis order_refl)
  with n show "Q m" by simp
qed auto

section \<open>Filters\<close>

lemma length_filter_mono:
  "(\<And>x. x \<in> set xs \<Longrightarrow> P x \<Longrightarrow> Q x) \<Longrightarrow> length (filter P xs) \<le> length (filter Q xs)"
  by (induction xs) (simp_all add: le_SucI)

lemma length_filter_split:
  "length (filter (\<lambda>x. \<not> Q x \<and> P x) xs) + length (filter (\<lambda>x. Q x \<and> P x) xs) = length (filter P xs)"
  by (induction xs) simp_all

section \<open>Signed words\<close>

lemma sint_of_int_id:
  assumes "- (2 ^ 63) \<le> i" "i < 2 ^ 63"
  shows "sint (word_of_int i :: go_int) = i"
  using assms by (simp add: sint_sbintrunc' signed_take_bit_int_eq_self)

lemma funpow_double: "((\<lambda>d. d * 2) ^^ n) (x :: go_int) = x * 2 ^ n"
  by (induction n) (simp_all add: mult.assoc mult.commute [of 2])

section \<open>Invariants\<close>

text \<open>
  A component as a transition system. An invariant that the start states have and every step keeps
  holds in every reachable state; the components instantiate the locale with their own operations.
\<close>

locale state_machine =
  fixes init :: "'s \<Rightarrow> bool" and step :: "'s \<Rightarrow> 's \<Rightarrow> bool" and inv :: "'s \<Rightarrow> bool"
  assumes init_inv: "init s \<Longrightarrow> inv s"
    and step_inv: "inv s \<Longrightarrow> step s t \<Longrightarrow> inv t"
begin

lemma steps_inv:
  assumes "inv s" "step\<^sup>*\<^sup>* s t"
  shows "inv t"
  using assms(2,1) by (induction rule: rtranclp_induct) (blast intro: step_inv)+

lemma reachable_inv:
  assumes "init s" "step\<^sup>*\<^sup>* s t"
  shows "inv t"
  using steps_inv [OF init_inv [OF assms(1)] assms(2)] .

end

section \<open>Refinement of a map\<close>

text \<open>
  A keyed store whose operations, where they are legal, act on its contents as on a map: any legal
  sequence of them does, and keeps the store well formed.
\<close>

locale map_refinement =
  fixes step :: "'s \<Rightarrow> 'o \<Rightarrow> 's" and legal :: "'s \<Rightarrow> 'o list \<Rightarrow> bool" and inv :: "'s \<Rightarrow> bool"
    and contents :: "'s \<Rightarrow> 'k \<rightharpoonup> 'v" and effect :: "('k \<rightharpoonup> 'v) \<Rightarrow> 'o \<Rightarrow> 'k \<rightharpoonup> 'v"
  assumes step_refines: "inv s \<Longrightarrow> legal s (x # xs) \<Longrightarrow>
    inv (step s x) \<and> legal (step s x) xs \<and> contents (step s x) = effect (contents s) x"
begin

lemma run_refines:
  "inv s \<Longrightarrow> legal s xs \<Longrightarrow> inv (foldl step s xs) \<and> contents (foldl step s xs) = foldl effect (contents s) xs"
proof (induction xs arbitrary: s)
  case (Cons x xs)
  with step_refines [of s x xs] Cons.IH [of "step s x"] show ?case by simp
qed simp

end

end
