(* ===== verification/Go_Json.thy ===== *)
theory Go_Json
  imports Tern_Prelude
begin

text \<open>
  The part of package \<open>encoding/json\<close> that the sources call: the values an \<open>any\<close> can hold and
  \<open>json.Marshal\<close>. Numbers are kept as their rendered text (Go decodes them to \<open>float64\<close>, whose
  arithmetic no modelled code uses); a value that \<open>Marshal\<close> refuses (a NaN, a channel, a
  function) is \<open>JUnsupported\<close>, so that the error path of every caller is a branch of the model.
  The lemmas bound the size of the output, which is what the wire limits depend on.
\<close>

datatype json =
    JNull
  | JBool bool
  | JNum string
  | JStr string
  | JArr "json list"
  | JObj "(string \<times> json) list"
  | JUnsupported

section \<open>String literals\<close>

text \<open>
  Strings are quoted with HTML escaping on, as \<open>json.Marshal\<close> does: the quote, the backslash
  and the control bytes are escaped, \<open><\<close>, \<open>>\<close> and \<open>&\<close> become \<open>u00XX\<close> escapes, the line
  separators U+2028 and U+2029 are escaped, and every byte that does not start a valid UTF-8
  encoding is replaced by the escape of U+FFFD.
\<close>

abbreviation backslash :: char where
  "backslash \<equiv> CHR 0x5C"

definition hex2 :: "nat \<Rightarrow> string" where
  "hex2 n = [digit_char (n div 16), digit_char (n mod 16)]"

definition u_escape :: "string \<Rightarrow> string" where
  "u_escape h = backslash # CHR ''u'' # h"

definition esc_ascii :: "char \<Rightarrow> string" where
  "esc_ascii c =
     (if byte c = 0x22 \<or> byte c = 0x5C then [backslash, c]
      else if byte c = 0x08 then [backslash, CHR ''b'']
      else if byte c = 0x0C then [backslash, CHR ''f'']
      else if byte c = 0x0A then [backslash, CHR ''n'']
      else if byte c = 0x0D then [backslash, CHR ''r'']
      else if byte c = 0x09 then [backslash, CHR ''t'']
      else if byte c < 0x20 \<or> byte c = 0x3C \<or> byte c = 0x3E \<or> byte c = 0x26
      then u_escape (''00'' @ hex2 (byte c))
      else [c])"

text \<open>One step: the text emitted for the head of the string, and how many bytes it covers.\<close>

definition esc_step :: "string \<Rightarrow> string \<times> nat" where
  "esc_step s =
     (if byte (hd s) < 0x80 then (esc_ascii (hd s), 1)
      else if rune_size s = 0 then (u_escape ''fffd'', 1)
      else if take 3 s = [CHR 0xE2, CHR 0x80, CHR 0xA8] then (u_escape ''2028'', 3)
      else if take 3 s = [CHR 0xE2, CHR 0x80, CHR 0xA9] then (u_escape ''2029'', 3)
      else (take (rune_size s) s, rune_size s))"

lemma esc_step_consumes: "s \<noteq> [] \<Longrightarrow> 0 < snd (esc_step s)"
  by (auto simp: esc_step_def)

function json_escape :: "string \<Rightarrow> string" where
  "json_escape [] = []"
| "json_escape (c # s) =
     fst (esc_step (c # s)) @ json_escape (drop (snd (esc_step (c # s))) (c # s))"
  by pat_completeness auto
termination
  using esc_step_consumes by (relation "measure length") auto

declare json_escape.simps(2) [simp del]

definition json_quote :: "string \<Rightarrow> string" where
  "json_quote s = [CHR 0x22] @ json_escape s @ [CHR 0x22]"

text \<open>No byte of the input takes more than six bytes of output.\<close>

lemma length_esc_ascii: "length (esc_ascii c) \<le> 6"
  by (simp add: esc_ascii_def u_escape_def hex2_def)

lemma esc_step_size:
  assumes "s \<noteq> []"
  shows "length (fst (esc_step s)) \<le> 6 * snd (esc_step s) \<and> snd (esc_step s) \<le> length s"
proof -
  have "take 3 s = [a, b, c] \<Longrightarrow> 3 \<le> length s" for a b c
    by (metis length_take list.size(3,4) min.absorb_iff2 min_def nat_le_linear numeral_3_eq_3
        One_nat_def add.commute plus_1_eq_Suc)
  then show ?thesis
    using assms length_esc_ascii [of "hd s"] rune_size_le [of s]
    by (cases s) (auto simp: esc_step_def u_escape_def)
qed

lemma length_json_escape: "length (json_escape s) \<le> 6 * length s"
proof (induction s rule: json_escape.induct)
  case (2 c s)
  let ?n = "snd (esc_step (c # s))"
  have "length (json_escape (drop ?n (c # s))) \<le> 6 * (length (c # s) - ?n)"
    using 2 by simp
  moreover have "length (fst (esc_step (c # s))) \<le> 6 * ?n" and "?n \<le> length (c # s)"
    using esc_step_size [of "c # s"] by auto
  ultimately show ?case by (simp add: json_escape.simps(2))
qed simp

lemma length_json_quote: "length (json_quote s) \<le> 6 * length s + 2"
  using length_json_escape [of s] by (simp add: json_quote_def)

text \<open>Printable ASCII outside the escaped set is emitted unchanged.\<close>

definition plain_char :: "char \<Rightarrow> bool" where
  "plain_char c = (0x20 \<le> byte c \<and> byte c < 0x80 \<and> byte c \<notin> {0x22, 0x5C, 0x3C, 0x3E, 0x26})"

lemma json_escape_plain_Cons: "plain_char c \<Longrightarrow> json_escape (c # s) = c # json_escape s"
  by (simp add: json_escape.simps(2) esc_step_def esc_ascii_def plain_char_def)

lemma json_escape_plain: "list_all plain_char s \<Longrightarrow> json_escape s = s"
  by (induction s) (auto simp: json_escape_plain_Cons)

section \<open>Marshal\<close>

text \<open>
  \<open>None\<close> is the error of an unsupported value. The members of an object are given in the order
  in which Go emits them: declaration order for a struct, sorted keys for a map.
\<close>

fun commas :: "string list \<Rightarrow> string" where
  "commas xs = Join xs [CHR '','']"

fun opt_all :: "'a option list \<Rightarrow> 'a list option" where
  "opt_all [] = Some []"
| "opt_all (None # xs) = None"
| "opt_all (Some x # xs) = map_option (Cons x) (opt_all xs)"

fun Marshal :: "json \<Rightarrow> string option" where
  "Marshal JNull = Some ''null''"
| "Marshal (JBool b) = Some (if b then ''true'' else ''false'')"
| "Marshal (JNum n) = Some n"
| "Marshal (JStr s) = Some (json_quote s)"
| "Marshal (JArr xs) = map_option (\<lambda>ys. ''['' @ commas ys @ '']'') (opt_all (map Marshal xs))"
| "Marshal (JObj kvs) =
     map_option (\<lambda>ys. ''{'' @ commas ys @ ''}'')
       (opt_all (map (\<lambda>(k, v). map_option (\<lambda>t. json_quote k @ '':'' @ t) (Marshal v)) kvs))"
| "Marshal JUnsupported = None"

lemma opt_all_map_Some: "opt_all (map (\<lambda>x. Some (f x)) xs) = Some (map f xs)"
  by (induction xs) auto

text \<open>The size of a comma-separated list.\<close>

lemma length_commas: "length (commas xs) \<le> sum_list (map length xs) + length xs"
proof (induction xs rule: induct_list012)
  case (3 x y zs)
  then show ?case by simp
qed auto

end
