(* ===== verification/Stream_Events.thy ===== *)
theory Stream_Events
  imports Go_Json
begin

text \<open>
  The data that crosses every component boundary: \<open>StreamEvent\<close> and its \<open>EventType\<close>
  (\<open>codingagent/event.go\<close>), \<open>TokenUsage\<close> with its source and confidence identifiers
  (\<open>codingagent/usage.go\<close>), and the JSON text of an event, field by field with \<open>omitempty\<close>.
  The unexported-to-JSON fields \<open>Error\<close> and \<open>Retryable\<close> of the struct are kept; \<open>Error\<close> is the
  error's message, or \<open>None\<close> for \<open>nil\<close>.
\<close>

section \<open>Token usage\<close>

abbreviation UsageSourceClaudeResult :: string where
  "UsageSourceClaudeResult \<equiv> ''claude_result''"
abbreviation UsageSourceClaudeAssistant :: string where
  "UsageSourceClaudeAssistant \<equiv> ''claude_assistant''"
abbreviation UsageSourceCodexTurnCompleted :: string where
  "UsageSourceCodexTurnCompleted \<equiv> ''codex_turn_completed''"
abbreviation UsageSourceCodexTokenCount :: string where
  "UsageSourceCodexTokenCount \<equiv> ''codex_token_count''"
abbreviation UsageSourceLLMGateway :: string where
  "UsageSourceLLMGateway \<equiv> ''llmgateway''"
abbreviation UsageSourceDerivedSessionSum :: string where
  "UsageSourceDerivedSessionSum \<equiv> ''derived_session_sum''"
abbreviation UsageConfidenceHigh :: string where
  "UsageConfidenceHigh \<equiv> ''high''"
abbreviation UsageConfidenceLow :: string where
  "UsageConfidenceLow \<equiv> ''low''"
abbreviation ModelSourceAgent :: string where
  "ModelSourceAgent \<equiv> ''agent''"
abbreviation ModelSourceTernSession :: string where
  "ModelSourceTernSession \<equiv> ''tern_session''"

record TokenUsage =
  InputTokens :: go_int
  OutputTokens :: go_int
  CachedInputTokens :: go_int
  CacheCreationInputTokens :: go_int
  ReasoningOutputTokens :: go_int
  TotalTokens :: go_int
  TotalCostUSD :: "go_float option"
  u_Model :: string
  ModelSource :: string
  u_Source :: string
  Confidence :: string
  u_TurnID :: string
  CallID :: string
  Partial :: bool
  CallsSumMismatch :: bool

definition zero_usage :: TokenUsage where
  "zero_usage = \<lparr>InputTokens = 0, OutputTokens = 0, CachedInputTokens = 0,
     CacheCreationInputTokens = 0, ReasoningOutputTokens = 0, TotalTokens = 0,
     TotalCostUSD = None, u_Model = [], ModelSource = [], u_Source = [], Confidence = [],
     u_TurnID = [], CallID = [], Partial = False, CallsSumMismatch = False\<rparr>"

section \<open>Stream events\<close>

abbreviation EventText :: string where "EventText \<equiv> ''text''"
abbreviation EventToolUse :: string where "EventToolUse \<equiv> ''tool_use''"
abbreviation EventToolResult :: string where "EventToolResult \<equiv> ''tool_result''"
abbreviation EventToolResultPart :: string where "EventToolResultPart \<equiv> ''tool_result_part''"
abbreviation EventResult :: string where "EventResult \<equiv> ''result''"
abbreviation EventError :: string where "EventError \<equiv> ''error''"
abbreviation EventSystem :: string where "EventSystem \<equiv> ''system''"
abbreviation EventNodeStart :: string where "EventNodeStart \<equiv> ''node_start''"
abbreviation EventNodeComplete :: string where "EventNodeComplete \<equiv> ''node_complete''"
abbreviation EventNodeFailed :: string where "EventNodeFailed \<equiv> ''node_failed''"
abbreviation EventProgress :: string where "EventProgress \<equiv> ''progress''"
abbreviation EventUserInputRequired :: string where
  "EventUserInputRequired \<equiv> ''user_input_required''"

record StreamEvent =
  se_Type :: string
  se_Content :: string
  se_PromptID :: string
  se_Choices :: "string list"
  se_ToolName :: string
  se_ToolInput :: "(string \<times> json) list"
  se_ToolCallID :: string
  se_SessionID :: string
  se_TurnID :: string
  se_CorrelationID :: string
  se_ChunkID :: string
  se_ChunkIndex :: int
  se_ChunkTotal :: int
  se_Usage :: "TokenUsage option"
  se_Error :: "string option"
  se_Retryable :: bool

text \<open>The zero value of the struct with a type: \<open>StreamEvent{Type: t}\<close>.\<close>

definition stream_event :: "string \<Rightarrow> StreamEvent" where
  "stream_event t = \<lparr>se_Type = t, se_Content = [], se_PromptID = [], se_Choices = [],
     se_ToolName = [], se_ToolInput = [], se_ToolCallID = [], se_SessionID = [], se_TurnID = [],
     se_CorrelationID = [], se_ChunkID = [], se_ChunkIndex = 0, se_ChunkTotal = 0,
     se_Usage = None, se_Error = None, se_Retryable = False\<rparr>"

section \<open>JSON text of an event\<close>

text \<open>
  The struct tags, in declaration order. \<open>ff\<close> renders a \<open>float64\<close> (or refuses it, for NaN and the
  infinities); nothing below depends on how.
\<close>

definition omit_str :: "string \<Rightarrow> string \<Rightarrow> (string \<times> json) list" where
  "omit_str k s = (if s = [] then [] else [(k, JStr s)])"

definition omit_int :: "string \<Rightarrow> int \<Rightarrow> (string \<times> json) list" where
  "omit_int k i = (if i = 0 then [] else [(k, JNum (Itoa i))])"

definition omit_bool :: "string \<Rightarrow> bool \<Rightarrow> (string \<times> json) list" where
  "omit_bool k b = (if b then [(k, JBool True)] else [])"

definition usage_json :: "(go_float \<Rightarrow> json) \<Rightarrow> TokenUsage \<Rightarrow> json" where
  "usage_json ff u = JObj (
     [(''input_tokens'', JNum (Itoa (sint (InputTokens u)))),
      (''output_tokens'', JNum (Itoa (sint (OutputTokens u))))] @
     omit_int ''cached_input_tokens'' (sint (CachedInputTokens u)) @
     omit_int ''cache_creation_input_tokens'' (sint (CacheCreationInputTokens u)) @
     omit_int ''reasoning_output_tokens'' (sint (ReasoningOutputTokens u)) @
     omit_int ''total_tokens'' (sint (TotalTokens u)) @
     (case TotalCostUSD u of None \<Rightarrow> [] | Some f \<Rightarrow> [(''total_cost_usd'', ff f)]) @
     omit_str ''model'' (u_Model u) @
     omit_str ''model_source'' (ModelSource u) @
     [(''source'', JStr (u_Source u)), (''confidence'', JStr (Confidence u))] @
     omit_str ''turn_id'' (u_TurnID u) @
     omit_str ''call_id'' (CallID u) @
     omit_bool ''partial'' (Partial u) @
     omit_bool ''calls_sum_mismatch'' (CallsSumMismatch u))"

definition event_json :: "(go_float \<Rightarrow> json) \<Rightarrow> StreamEvent \<Rightarrow> json" where
  "event_json ff ev = JObj (
     [(''type'', JStr (se_Type ev))] @
     omit_str ''content'' (se_Content ev) @
     omit_str ''prompt_id'' (se_PromptID ev) @
     (if se_Choices ev = [] then [] else [(''choices'', JArr (map JStr (se_Choices ev)))]) @
     omit_str ''tool_name'' (se_ToolName ev) @
     (if se_ToolInput ev = [] then [] else [(''tool_input'', JObj (se_ToolInput ev))]) @
     omit_str ''tool_call_id'' (se_ToolCallID ev) @
     omit_str ''session_id'' (se_SessionID ev) @
     omit_str ''turn_id'' (se_TurnID ev) @
     omit_str ''correlation_id'' (se_CorrelationID ev) @
     omit_str ''chunk_id'' (se_ChunkID ev) @
     omit_int ''index'' (se_ChunkIndex ev) @
     omit_int ''total'' (se_ChunkTotal ev) @
     (case se_Usage ev of None \<Rightarrow> [] | Some u \<Rightarrow> [(''usage'', usage_json ff u)]))"

definition marshal_event :: "(go_float \<Rightarrow> json) \<Rightarrow> StreamEvent \<Rightarrow> string option" where
  "marshal_event ff ev = Marshal (event_json ff ev)"

text \<open>
  The members of a flat object: every member that \<open>chunk\<close> events carry is a string or a number,
  so such an object always marshals and its size is bounded member by member.
\<close>

fun flat_text :: "json \<Rightarrow> string" where
  "flat_text (JStr s) = json_quote s"
| "flat_text (JNum n) = n"
| "flat_text _ = []"

definition is_flat :: "json \<Rightarrow> bool" where
  "is_flat j = (case j of JStr _ \<Rightarrow> True | JNum _ \<Rightarrow> True | _ \<Rightarrow> False)"

definition member_text :: "string \<times> json \<Rightarrow> string" where
  "member_text kv = json_quote (fst kv) @ '':'' @ flat_text (snd kv)"

lemma Marshal_flat: "is_flat j \<Longrightarrow> Marshal j = Some (flat_text j)"
  by (cases j) (auto simp: is_flat_def)

lemma Marshal_flat_object:
  assumes "\<forall>kv \<in> set kvs. is_flat (snd kv)"
  shows "Marshal (JObj kvs) = Some (''{'' @ commas (map member_text kvs) @ ''}'')"
proof -
  have "map (\<lambda>(k, v). map_option (\<lambda>t. json_quote k @ '':'' @ t) (Marshal v)) kvs
      = map (\<lambda>kv. Some (member_text kv)) kvs"
    using assms by (auto simp: Marshal_flat member_text_def)
  then show ?thesis by (simp only: Marshal.simps opt_all_map_Some option.map)
qed

lemma length_flat_object:
  assumes flat: "\<forall>kv \<in> set kvs. is_flat (snd kv)" and w: "Marshal (JObj kvs) = Some w"
  shows "length w \<le> 2 + sum_list (map (\<lambda>kv. Suc (length (member_text kv))) kvs)"
proof -
  from w have "w = ''{'' @ commas (map member_text kvs) @ ''}''"
    unfolding Marshal_flat_object [OF flat] by simp
  then show ?thesis
    using length_commas [of "map member_text kvs"]
    by (simp add: comp_def sum_list_Suc del: commas.simps)
qed

end
