(* ===== verification/SSE_Chunk.thy ===== *)
theory SSE_Chunk
  imports Stream_Events
begin

text \<open>
  The chunk protocol for large tool results: the server's \<open>SplitStreamEventForSSE\<close> and
  \<open>ReassembleToolResultParts\<close> (\<open>codingagent/sse_chunk.go\<close>), \<open>TruncateToolResult\<close>
  (\<open>codingagent/stream_io.go\<close>), the server's wire writer (\<open>agentservice/handler.go\<close>), the
  client's \<open>Assembler\<close> (\<open>client/internal/ssechunk/assembler.go\<close>) and the client's event loop
  (\<open>client/v1/stream.go\<close>). The interface between the two sides is the locale \<open>reassembler\<close>:
  what a consumer of a complete chunk group returns, whatever the order of arrival.

  Parameters: \<open>ff\<close> renders a \<open>float64\<close>; \<open>uuid k\<close> is the identifier that \<open>uuid.New\<close> returns in the
  attempt with chunk size \<open>k\<close>; \<open>unm\<close> is \<open>json.Unmarshal\<close> into the client's raw struct.
\<close>

datatype chunk_error =
    MarshalError
  | CannotSplit int
  | NoChunkEvents
  | ExpectedPart string
  | ChunkIDMismatch
  | ChunkTotalMismatch
  | DuplicateIndex int
  | MissingIndex int
  | MissingChunkID
  | UnknownChunkID string
  | IncompleteChunks

definition DefaultMaxSSEDataLineBytes :: int where
  "DefaultMaxSSEDataLineBytes = 64 * 1024"

definition DefaultSSEChunkContentBytes :: nat where
  "DefaultSSEChunkContentBytes = 48 * 1024"

definition DefaultMaxToolResultBytes :: int where
  "DefaultMaxToolResultBytes = 256 * 1024"

section \<open>Splitting on the server\<close>

definition chunk_total :: "nat \<Rightarrow> nat \<Rightarrow> nat" where
  "chunk_total len chunkSize =
     (let t = (len + chunkSize - 1) div chunkSize in if t = 0 then 1 else t)"

definition chunk_slice :: "string \<Rightarrow> nat \<Rightarrow> nat \<Rightarrow> string" where
  "chunk_slice content chunkSize i =
     (let start = i * chunkSize; end = min (start + chunkSize) (length content)
      in take (end - start) (drop start content))"

definition chunk_part :: "StreamEvent \<Rightarrow> string \<Rightarrow> nat \<Rightarrow> nat \<Rightarrow> StreamEvent" where
  "chunk_part ev chunkID chunkSize i =
     (stream_event EventToolResultPart)
       \<lparr>se_Content := chunk_slice (se_Content ev) chunkSize i,
        se_ToolName := se_ToolName ev,
        se_ChunkID := chunkID,
        se_ChunkIndex := int i,
        se_ChunkTotal := int (chunk_total (length (se_Content ev)) chunkSize)\<rparr>"

definition chunk_done :: "StreamEvent \<Rightarrow> string \<Rightarrow> StreamEvent" where
  "chunk_done ev chunkID =
     (stream_event EventToolResult)\<lparr>se_ToolName := se_ToolName ev, se_ChunkID := chunkID\<rparr>"

definition chunk_events :: "StreamEvent \<Rightarrow> string \<Rightarrow> nat \<Rightarrow> StreamEvent list" where
  "chunk_events ev chunkID chunkSize =
     map (chunk_part ev chunkID chunkSize) [0..<chunk_total (length (se_Content ev)) chunkSize]
     @ [chunk_done ev chunkID]"

text \<open>The final loop of \<open>buildChunkedToolResult\<close>: every event must marshal to less than \<open>limit\<close>.\<close>

fun wires_fit ::
  "(go_float \<Rightarrow> json) \<Rightarrow> int \<Rightarrow> StreamEvent list \<Rightarrow> (chunk_error, bool) result" where
  "wires_fit ff limit [] = Inr True"
| "wires_fit ff limit (ev # evs) =
     (case marshal_event ff ev of
        None \<Rightarrow> Inl MarshalError
      | Some data \<Rightarrow> if limit \<le> int (length data) then Inr False else wires_fit ff limit evs)"

text \<open>\<open>Inr None\<close> is the result \<open>(nil, false, nil)\<close>: this chunk size does not fit.\<close>

definition buildChunkedToolResult ::
  "(go_float \<Rightarrow> json) \<Rightarrow> string \<Rightarrow> StreamEvent \<Rightarrow> nat \<Rightarrow> int
   \<Rightarrow> (chunk_error, StreamEvent list option) result" where
  "buildChunkedToolResult ff chunkID ev chunkSize limit =
     (let out = chunk_events ev chunkID chunkSize in
      bind_res (wires_fit ff limit out) (\<lambda>ok. Inr (if ok then Some out else None)))"

fun split_loop ::
  "(go_float \<Rightarrow> json) \<Rightarrow> (nat \<Rightarrow> string) \<Rightarrow> StreamEvent \<Rightarrow> int \<Rightarrow> nat
   \<Rightarrow> (chunk_error, StreamEvent list) result" where
  "split_loop ff uuid ev limit chunkSize =
     (if chunkSize < 4096 then Inl (CannotSplit limit)
      else case buildChunkedToolResult ff (uuid chunkSize) ev chunkSize limit of
             Inl e \<Rightarrow> Inl e
           | Inr (Some out) \<Rightarrow> Inr out
           | Inr None \<Rightarrow> split_loop ff uuid ev limit (chunkSize div 2))"

declare split_loop.simps [simp del]

definition SplitStreamEventForSSE ::
  "(go_float \<Rightarrow> json) \<Rightarrow> (nat \<Rightarrow> string) \<Rightarrow> StreamEvent \<Rightarrow> int
   \<Rightarrow> (chunk_error, StreamEvent list) result" where
  "SplitStreamEventForSSE ff uuid ev maxLineBytes =
     (if se_Type ev \<noteq> EventToolResult then Inr [ev]
      else let limit = (if maxLineBytes \<le> 0 then DefaultMaxSSEDataLineBytes else maxLineBytes) in
        case marshal_event ff ev of
          None \<Rightarrow> Inl MarshalError
        | Some wire \<Rightarrow>
            if int (length wire) < limit then Inr [ev]
            else split_loop ff uuid ev limit DefaultSSEChunkContentBytes)"

text \<open>
  \<open>writeSSEWireEventsID\<close>: the lines put on the wire for one event, without their line ends
  (each data line is followed by an empty line).
\<close>

definition id_line :: "int \<Rightarrow> string" where
  "id_line i = ''id: '' @ Itoa i"

definition data_line :: "string \<Rightarrow> string" where
  "data_line d = ''data: '' @ d"

definition wire_lines :: "(go_float \<Rightarrow> json) \<Rightarrow> int option \<Rightarrow> StreamEvent \<Rightarrow> string list" where
  "wire_lines ff logicalID ev =
     (case logicalID of None \<Rightarrow> [] | Some i \<Rightarrow> [id_line i])
     @ [data_line (case marshal_event ff ev of None \<Rightarrow> [] | Some d \<Rightarrow> d), []]"

definition writeSSEWireEventsID ::
  "(go_float \<Rightarrow> json) \<Rightarrow> (nat \<Rightarrow> string) \<Rightarrow> StreamEvent \<Rightarrow> int option
   \<Rightarrow> (chunk_error, string list) result" where
  "writeSSEWireEventsID ff uuid ev logicalID =
     bind_res (SplitStreamEventForSSE ff uuid ev DefaultMaxSSEDataLineBytes)
       (\<lambda>wireEvents. Inr (concat (map (wire_lines ff logicalID) wireEvents)))"

section \<open>Truncation before the relay\<close>

definition truncation_marker :: "nat \<Rightarrow> string" where
  "truncation_marker n = CHR 0x0A # ''... [truncated, '' @ Itoa (int n) @ '' bytes total]''"

definition TruncateToolResult :: "string \<Rightarrow> int \<Rightarrow> string" where
  "TruncateToolResult content maxBytes =
     (let limit = nat (if maxBytes \<le> 0 then DefaultMaxToolResultBytes else maxBytes) in
      if length content \<le> limit then content
      else let marker = truncation_marker (length content) in
        if limit \<le> length marker then take limit content
        else take (limit - length marker) content @ marker)"

section \<open>Reassembly\<close>

fun join_parts :: "(int \<times> string) list \<Rightarrow> int list \<Rightarrow> string \<Rightarrow> (chunk_error, string) result" where
  "join_parts parts [] assembled = Inr assembled"
| "join_parts parts (i # is) assembled =
     (case map_of parts i of
        None \<Rightarrow> Inl (MissingIndex i)
      | Some part \<Rightarrow> join_parts parts is (assembled @ part))"

abbreviation indices :: "int \<Rightarrow> int list" where
  "indices tot \<equiv> map int [0..<nat tot]"

fun collect_parts ::
  "string \<Rightarrow> int \<Rightarrow> (int \<times> string) list \<Rightarrow> StreamEvent list
   \<Rightarrow> (chunk_error, (int \<times> string) list) result" where
  "collect_parts chunkID tot parts [] = Inr parts"
| "collect_parts chunkID tot parts (ev # evs) =
     (if se_Type ev \<noteq> EventToolResultPart then Inl (ExpectedPart (se_Type ev))
      else if se_ChunkID ev \<noteq> chunkID then Inl ChunkIDMismatch
      else if se_ChunkTotal ev \<noteq> tot then Inl ChunkTotalMismatch
      else if map_of parts (se_ChunkIndex ev) \<noteq> None then Inl (DuplicateIndex (se_ChunkIndex ev))
      else collect_parts chunkID tot (massign (se_ChunkIndex ev) (se_Content ev) parts) evs)"

definition ReassembleToolResultParts :: "StreamEvent list \<Rightarrow> (chunk_error, string) result" where
  "ReassembleToolResultParts events =
     (case events of
        [] \<Rightarrow> Inl NoChunkEvents
      | e # _ \<Rightarrow>
          bind_res (collect_parts (se_ChunkID e) (se_ChunkTotal e) [] events)
            (\<lambda>parts. join_parts parts (indices (se_ChunkTotal e)) []))"

subsection \<open>The client's assembler\<close>

record chunkBuffer =
  cb_parts :: "(int \<times> string) list"
  cb_total :: int

type_synonym Assembler = "(string \<times> chunkBuffer) list"

definition NewAssembler :: Assembler where
  "NewAssembler = []"

record Part =
  p_ChunkID :: string
  p_ChunkIndex :: int
  p_ChunkTotal :: int
  p_Content :: string

definition AddPart :: "Assembler \<Rightarrow> Part \<Rightarrow> Assembler \<times> chunk_error option" where
  "AddPart a p =
     (if p_ChunkID p = [] then (a, Some MissingChunkID)
      else
        let buf = (case map_of a (p_ChunkID p) of
                     Some b \<Rightarrow> b
                   | None \<Rightarrow> \<lparr>cb_parts = [], cb_total = p_ChunkTotal p\<rparr>);
            a = massign (p_ChunkID p) buf a in
        if cb_total buf \<noteq> p_ChunkTotal p then (a, Some ChunkTotalMismatch)
        else if map_of (cb_parts buf) (p_ChunkIndex p) \<noteq> None
        then (a, Some (DuplicateIndex (p_ChunkIndex p)))
        else
          (massign (p_ChunkID p)
             (buf\<lparr>cb_parts := massign (p_ChunkIndex p) (p_Content p) (cb_parts buf)\<rparr>) a, None))"

definition Complete :: "Assembler \<Rightarrow> string \<Rightarrow> Assembler \<times> (chunk_error, string) result" where
  "Complete a chunkID =
     (case map_of a chunkID of
        None \<Rightarrow> (a, Inl (UnknownChunkID chunkID))
      | Some buf \<Rightarrow>
          if int (length (cb_parts buf)) \<noteq> cb_total buf then (a, Inl IncompleteChunks)
          else case join_parts (cb_parts buf) (indices (cb_total buf)) [] of
                 Inl e \<Rightarrow> (a, Inl e)
               | Inr s \<Rightarrow> (mdelete chunkID a, Inr s))"

definition FlushIncomplete :: "Assembler \<Rightarrow> chunk_error option" where
  "FlushIncomplete a = (if 0 < length a then Some IncompleteChunks else None)"


section \<open>The client's event loop\<close>

record UserInputRequiredEvent =
  ui_Content :: string
  ui_PromptID :: string
  ui_Choices :: "string list"

record client_event =
  ce_Type :: string
  ce_Text :: string
  ce_ToolName :: string
  ce_ToolInput :: "(string \<times> json) list"
  ce_TurnID :: string
  ce_CorrelationID :: string
  ce_Error :: string
  ce_UserInputRequired :: UserInputRequiredEvent
  ce_ID :: string
  ce_Usage :: "TokenUsage option"

definition client_event_of :: "string \<Rightarrow> client_event" where
  "client_event_of t = \<lparr>ce_Type = t, ce_Text = [], ce_ToolName = [], ce_ToolInput = [],
     ce_TurnID = [], ce_CorrelationID = [], ce_Error = [],
     ce_UserInputRequired = \<lparr>ui_Content = [], ui_PromptID = [], ui_Choices = []\<rparr>,
     ce_ID = [], ce_Usage = None\<rparr>"

definition chunk_error_text :: "chunk_error \<Rightarrow> string" where
  "chunk_error_text e =
     (case e of
        MissingChunkID \<Rightarrow> ''tool_result_part missing chunk_id''
      | ChunkTotalMismatch \<Rightarrow> ''tool_result_part total mismatch''
      | DuplicateIndex i \<Rightarrow> ''duplicate chunk index '' @ Itoa i
      | MissingIndex i \<Rightarrow> ''missing chunk index '' @ Itoa i
      | UnknownChunkID c \<Rightarrow> ''unknown chunk_id '' @ [CHR 0x22] @ c @ [CHR 0x22]
      | _ \<Rightarrow> ''incomplete tool_result chunks'')"

definition error_event :: "string \<Rightarrow> client_event" where
  "error_event msg = (client_event_of EventError)\<lparr>ce_Error := msg\<rparr>"

text \<open>
  The state of the loop: the assembler, \<open>pendingID\<close>, and the \<open>turnID\<close> and \<open>lastID\<close> fields of the
  \<open>Stream\<close>. The events sent on the channel are the output.
\<close>

record client_state =
  cs_assembler :: Assembler
  cs_pendingID :: string
  cs_turnID :: string
  cs_lastID :: string

definition adoptID :: "client_state \<Rightarrow> client_event \<Rightarrow> client_state \<times> client_event" where
  "adoptID st ev =
     (if cs_pendingID st = [] then (st, ev)
      else (st\<lparr>cs_lastID := cs_pendingID st\<rparr>, ev\<lparr>ce_ID := cs_pendingID st\<rparr>))"

text \<open>One decoded message; the flag is \<open>False\<close> where the goroutine returns.\<close>

definition handle_raw ::
  "client_state \<Rightarrow> StreamEvent \<Rightarrow> client_state \<times> client_event list \<times> bool" where
  "handle_raw st raw =
     (if se_Type raw = EventToolResultPart then
        (case AddPart (cs_assembler st)
                \<lparr>p_ChunkID = se_ChunkID raw, p_ChunkIndex = se_ChunkIndex raw,
                 p_ChunkTotal = se_ChunkTotal raw, p_Content = se_Content raw\<rparr> of
           (a, Some e) \<Rightarrow> (st\<lparr>cs_assembler := a\<rparr>, [error_event (chunk_error_text e)], False)
         | (a, None) \<Rightarrow> (st\<lparr>cs_assembler := a\<rparr>, [], True))
      else if se_Type raw = EventToolResult then
        (let ev = (client_event_of EventToolResult)
                    \<lparr>ce_Text := se_Content raw, ce_ToolName := se_ToolName raw\<rparr> in
         if se_Content raw = [] \<and> se_ChunkID raw \<noteq> [] then
           (case Complete (cs_assembler st) (se_ChunkID raw) of
              (a, Inl e) \<Rightarrow> (st\<lparr>cs_assembler := a\<rparr>, [error_event (chunk_error_text e)], False)
            | (a, Inr content) \<Rightarrow>
                let (st', ev') = adoptID (st\<lparr>cs_assembler := a\<rparr>) (ev\<lparr>ce_Text := content\<rparr>)
                in (st', [ev'], True))
         else let (st', ev') = adoptID st ev in (st', [ev'], True))
      else
        (let ev = (client_event_of (se_Type raw))
               \<lparr>ce_Text := se_Content raw, ce_ToolName := se_ToolName raw,
                ce_ToolInput := se_ToolInput raw, ce_TurnID := se_TurnID raw,
                ce_CorrelationID := se_CorrelationID raw, ce_Usage := se_Usage raw\<rparr>;
             st = (if cs_turnID st = [] \<and> se_TurnID raw \<noteq> []
                   then st\<lparr>cs_turnID := se_TurnID raw\<rparr> else st);
             ev = (if ce_Type ev = EventError then ev\<lparr>ce_Error := se_Content raw\<rparr> else ev);
             ev = (if ce_Type ev = EventUserInputRequired
                   then ev\<lparr>ce_UserInputRequired :=
                      \<lparr>ui_Content = se_Content raw, ui_PromptID = se_PromptID raw,
                       ui_Choices = se_Choices raw\<rparr>\<rparr> else ev);
             (st', ev') = adoptID st ev
         in (st', [ev'], True)))"

text \<open>
  The scan loop over the tokens of the scanner, and what follows it. \<open>scanErr rest\<close> is
  \<open>scanner.Err()\<close> (its message) at the moment when the tokens \<open>rest\<close> are still unread.
\<close>

definition after_scan :: "string option \<Rightarrow> bool \<Rightarrow> client_state \<Rightarrow> client_event list" where
  "after_scan err receivedDone st =
     (if FlushIncomplete (cs_assembler st) \<noteq> None
      then [error_event ''incomplete tool_result chunks'']
      else case err of
             Some m \<Rightarrow> [error_event (''stream read error: '' @ m)]
           | None \<Rightarrow>
               if receivedDone then []
               else [error_event ''stream terminated unexpectedly without completion marker''])"

fun client_events ::
  "(string \<Rightarrow> StreamEvent option) \<Rightarrow> (string list \<Rightarrow> string option) \<Rightarrow> client_state \<Rightarrow> string list
   \<Rightarrow> client_state \<times> client_event list" where
  "client_events unm scanErr st [] = (st, after_scan (scanErr []) False st)"
| "client_events unm scanErr st (line # lines) =
     (if HasPrefix line ''id: '' then
        client_events unm scanErr (st\<lparr>cs_pendingID := TrimSpace (TrimPrefix line ''id: '')\<rparr>) lines
      else if \<not> HasPrefix line ''data: '' then client_events unm scanErr st lines
      else let data = TrimPrefix line ''data: '' in
        if data = ''[DONE]'' then
          (st, after_scan (scanErr lines) True st)
        else case unm data of
               None \<Rightarrow> client_events unm scanErr st lines
             | Some raw \<Rightarrow>
                 (case handle_raw st raw of
                    (st', evs, False) \<Rightarrow> (st', evs)
                  | (st', evs, True) \<Rightarrow>
                      (case client_events unm scanErr st' lines of
                         (st'', rest) \<Rightarrow> (st'', evs @ rest))))"

section \<open>Chunk groups\<close>

text \<open>
  A complete chunk group: the events, in any order, are the parts \<open>0, ..., n - 1\<close> of one
  chunk id, the \<open>i\<close>-th carrying \<open>f i\<close>.
\<close>

definition chunk_group :: "string \<Rightarrow> nat \<Rightarrow> (nat \<Rightarrow> string) \<Rightarrow> StreamEvent list \<Rightarrow> bool" where
  "chunk_group cid n f evs \<longleftrightarrow>
     cid \<noteq> [] \<and> 0 < n \<and> distinct (map se_ChunkIndex evs) \<and>
     set (map se_ChunkIndex evs) = int ` {..<n} \<and>
     (\<forall>ev \<in> set evs. se_Type ev = EventToolResultPart \<and> se_ChunkID ev = cid \<and>
        se_ChunkTotal ev = int n \<and> se_Content ev = f (nat (se_ChunkIndex ev)))"

lemma chunk_group_nonempty: "chunk_group cid n f evs \<Longrightarrow> evs \<noteq> []"
  by (auto simp: chunk_group_def)

lemma chunk_group_length: "chunk_group cid n f evs \<Longrightarrow> length evs = n"
  unfolding chunk_group_def
  by (metis card_image card_lessThan distinct_card inj_on_of_nat length_map)

lemma chunk_group_permute:
  assumes "chunk_group cid n f evs" and "mset evs' = mset evs"
  shows "chunk_group cid n f evs'"
proof -
  from assms(2) have "set evs' = set evs" and "distinct (map se_ChunkIndex evs') = distinct (map se_ChunkIndex evs)"
    by (metis set_mset_mset) (metis assms(2) mset_map mset_eq_imp_distinct_iff)
  with assms(1) show ?thesis by (simp add: chunk_group_def)
qed

text \<open>The part buffer after a group was recorded, and what joining it gives.\<close>

definition parts_of :: "StreamEvent list \<Rightarrow> (int \<times> string) list" where
  "parts_of evs = map (\<lambda>ev. (se_ChunkIndex ev, se_Content ev)) evs"

lemma join_parts_Some:
  assumes "\<And>i. i \<in> set is \<Longrightarrow> map_of parts (int i) = Some (f i)"
  shows "join_parts parts (map int is) acc = Inr (acc @ concat (map f is))"
  using assms by (induction "is" arbitrary: acc) auto

lemma map_of_parts_of:
  assumes "chunk_group cid n f evs" and "i < n"
  shows "map_of (parts_of evs) (int i) = Some (f i)"
proof -
  have "int i \<in> set (map se_ChunkIndex evs)"
    using assms by (simp add: chunk_group_def)
  then obtain ev where "ev \<in> set evs" "se_ChunkIndex ev = int i" by auto
  moreover from this assms have "se_Content ev = f i" by (auto simp: chunk_group_def)
  ultimately have "(int i, f i) \<in> set (parts_of evs)" by (force simp: parts_of_def)
  moreover have "distinct (map fst (parts_of evs))"
    using assms by (simp add: chunk_group_def parts_of_def comp_def)
  ultimately show ?thesis by (rule map_of_is_SomeI [rotated])
qed

lemma join_group:
  assumes "chunk_group cid n f evs" and "map_of parts = map_of (parts_of evs)"
  shows "join_parts parts (indices (int n)) [] = Inr (concat (map f [0..<n]))"
  using join_parts_Some [of "[0..<n]" parts f "[]"] map_of_parts_of [OF assms(1)] assms(2)
  by simp

lemma massign_fresh: "k \<notin> mkeys m \<Longrightarrow> massign k v m = m @ [(k, v)]"
  by (induction k v m rule: massign.induct) auto

text \<open>The server-side collector records every part of a group.\<close>

lemma collect_parts_group:
  assumes "\<forall>ev \<in> set evs. se_Type ev = EventToolResultPart \<and> se_ChunkID ev = cid \<and> se_ChunkTotal ev = t"
    and "distinct (map fst parts @ map se_ChunkIndex evs)"
  shows "collect_parts cid t parts evs = Inr (parts @ parts_of evs)"
  using assms
proof (induction evs arbitrary: parts)
  case (Cons ev evs)
  then have "se_ChunkIndex ev \<notin> mkeys parts" by auto
  moreover from this have "map_of parts (se_ChunkIndex ev) = None"
    by (simp add: map_of_eq_None_iff)
  ultimately show ?case
    using Cons by (simp add: massign_fresh parts_of_def)
qed (simp add: parts_of_def)

theorem ReassembleToolResultParts_group:
  assumes "chunk_group cid n f evs"
  shows "ReassembleToolResultParts evs = Inr (concat (map f [0..<n]))"
proof -
  obtain e es where evs: "evs = e # es"
    using chunk_group_nonempty [OF assms] by (cases evs) auto
  have e: "se_ChunkID e = cid" "se_ChunkTotal e = int n"
    using assms by (auto simp: chunk_group_def evs)
  have "collect_parts cid (int n) [] evs = Inr ([] @ parts_of evs)"
    by (rule collect_parts_group) (use assms in \<open>auto simp: chunk_group_def\<close>)
  then show ?thesis
    using join_group [OF assms, of "parts_of evs"] e
    by (simp add: ReassembleToolResultParts_def evs)
qed

text \<open>The parts of an event as the client passes them to \<open>AddPart\<close>, and a run of such calls.\<close>

definition part_of :: "StreamEvent \<Rightarrow> Part" where
  "part_of raw = \<lparr>p_ChunkID = se_ChunkID raw, p_ChunkIndex = se_ChunkIndex raw,
     p_ChunkTotal = se_ChunkTotal raw, p_Content = se_Content raw\<rparr>"

fun add_parts :: "Assembler \<Rightarrow> StreamEvent list \<Rightarrow> Assembler \<times> chunk_error option" where
  "add_parts a [] = (a, None)"
| "add_parts a (ev # evs) =
     (case AddPart a (part_of ev) of
        (a', Some e) \<Rightarrow> (a', Some e)
      | (a', None) \<Rightarrow> add_parts a' evs)"

definition client_reassemble :: "StreamEvent list \<Rightarrow> (chunk_error, string) result" where
  "client_reassemble evs =
     (case evs of
        [] \<Rightarrow> Inl NoChunkEvents
      | e # _ \<Rightarrow>
          (case add_parts NewAssembler evs of
             (a, Some err) \<Rightarrow> Inl err
           | (a, None) \<Rightarrow> snd (Complete a (se_ChunkID e))))"

lemma massign_twice [simp]: "massign k v (massign k w m) = massign k v m"
  by (induction k v m rule: massign.induct) auto

lemma AddPart_buffered:
  assumes "map_of a cid = Some buf" and "cid \<noteq> []" and "se_ChunkID ev = cid"
    and "cb_total buf = se_ChunkTotal ev" and "se_ChunkIndex ev \<notin> mkeys (cb_parts buf)"
  shows "AddPart a (part_of ev) =
    (massign cid (buf\<lparr>cb_parts := cb_parts buf @ [(se_ChunkIndex ev, se_Content ev)]\<rparr>) a, None)"
proof -
  from assms(5) have "map_of (cb_parts buf) (se_ChunkIndex ev) = None"
    by (simp add: map_of_eq_None_iff)
  with assms show ?thesis
    by (simp add: AddPart_def part_of_def massign_fresh)
qed

lemma AddPart_first:
  assumes "map_of a cid = None" and "cid \<noteq> []" and "se_ChunkID ev = cid"
  shows "AddPart a (part_of ev) =
    (massign cid \<lparr>cb_parts = [(se_ChunkIndex ev, se_Content ev)], cb_total = se_ChunkTotal ev\<rparr> a, None)"
  using assms by (simp add: AddPart_def part_of_def)

lemma add_parts_buffered:
  assumes "map_of a cid = Some buf" and "cid \<noteq> []"
    and "\<forall>ev \<in> set evs. se_ChunkID ev = cid \<and> se_ChunkTotal ev = cb_total buf"
    and "distinct (map fst (cb_parts buf) @ map se_ChunkIndex evs)"
  shows "\<exists>a'. add_parts a evs = (a', None) \<and>
    map_of a' = (map_of a)(cid \<mapsto> buf\<lparr>cb_parts := cb_parts buf @ parts_of evs\<rparr>) \<and>
    (is_go_map a \<longrightarrow> is_go_map a')"
  using assms
proof (induction evs arbitrary: a buf)
  case (Cons ev evs)
  let ?buf = "buf\<lparr>cb_parts := cb_parts buf @ [(se_ChunkIndex ev, se_Content ev)]\<rparr>"
  have "se_ChunkIndex ev \<notin> mkeys (cb_parts buf)" using Cons.prems(4) by auto
  then have add: "AddPart a (part_of ev) = (massign cid ?buf a, None)"
    using AddPart_buffered [OF Cons.prems(1,2), of ev] Cons.prems(3) by simp
  have "\<exists>a'. add_parts (massign cid ?buf a) evs = (a', None) \<and>
    map_of a' = (map_of (massign cid ?buf a))(cid \<mapsto> ?buf\<lparr>cb_parts := cb_parts ?buf @ parts_of evs\<rparr>) \<and>
    (is_go_map (massign cid ?buf a) \<longrightarrow> is_go_map a')"
    by (rule Cons.IH) (use Cons.prems in auto)
  with add show ?case by (auto simp: parts_of_def)
qed (auto simp: parts_of_def)

text \<open>
  A complete group fed to an assembler that holds other groups: every part is accepted, the
  completion marker yields the content, and the other groups are as before.
\<close>

lemma Assembler_group:
  assumes "chunk_group cid n f evs" and "map_of a cid = None" and "is_go_map a"
  obtains a' a'' where "add_parts a evs = (a', None)"
    and "Complete a' cid = (a'', Inr (concat (map f [0..<n])))"
    and "map_of a'' = map_of a" and "is_go_map a''"
proof -
  obtain e es where evs: "evs = e # es"
    using chunk_group_nonempty [OF assms(1)] by (cases evs) auto
  let ?buf = "\<lparr>cb_parts = [(se_ChunkIndex e, se_Content e)], cb_total = int n\<rparr>"
  have cid: "cid \<noteq> []" and e: "se_ChunkID e = cid" "se_ChunkTotal e = int n"
    using assms(1) by (auto simp: chunk_group_def evs)
  have first: "AddPart a (part_of e) = (massign cid ?buf a, None)"
    using AddPart_first [OF assms(2) cid e(1)] e(2) by simp
  have "\<exists>a'. add_parts (massign cid ?buf a) es = (a', None) \<and>
      map_of a' = (map_of (massign cid ?buf a))(cid \<mapsto> ?buf\<lparr>cb_parts := cb_parts ?buf @ parts_of es\<rparr>) \<and>
      (is_go_map (massign cid ?buf a) \<longrightarrow> is_go_map a')"
    by (rule add_parts_buffered) (use assms(1) cid in \<open>auto simp: chunk_group_def evs\<close>)
  then obtain a' where a': "add_parts a evs = (a', None)" "is_go_map a'"
      "map_of a' = (map_of a)(cid \<mapsto> ?buf\<lparr>cb_parts := parts_of evs\<rparr>)"
    using first assms(3) by (auto simp: evs parts_of_def)
  have "length (parts_of evs) = n"
    using chunk_group_length [OF assms(1)] by (simp add: parts_of_def)
  then have "Complete a' cid = (mdelete cid a', Inr (concat (map f [0..<n])))"
    using join_group [OF assms(1), of "parts_of evs"] by (simp add: Complete_def a'(3))
  moreover have "map_of (mdelete cid a') = map_of a"
    using a' assms(2) by (auto simp: fun_eq_iff)
  ultimately show ?thesis using that a' by auto
qed

lemma client_reassemble_group:
  assumes "chunk_group cid n f evs"
  shows "client_reassemble evs = Inr (concat (map f [0..<n]))"
proof -
  obtain e es where evs: "evs = e # es" and e: "se_ChunkID e = cid"
    using chunk_group_nonempty [OF assms] assms by (cases evs) (auto simp: chunk_group_def)
  obtain a' a'' where "add_parts NewAssembler evs = (a', None)"
      "Complete a' cid = (a'', Inr (concat (map f [0..<n])))"
    by (rule Assembler_group [OF assms, of NewAssembler]) (auto simp: NewAssembler_def)
  then show ?thesis by (simp add: client_reassemble_def evs e)
qed

section \<open>The interface of the two sides\<close>

text \<open>
  A consumer of a chunk group returns the concatenation of the parts in index order. The
  server's helper and the client's assembler both implement it.
\<close>

locale reassembler =
  fixes reassemble :: "StreamEvent list \<Rightarrow> (chunk_error, string) result"
  assumes reassemble_group:
    "chunk_group cid n f evs \<Longrightarrow> reassemble evs = Inr (concat (map f [0..<n]))"
begin

text \<open>The order in which the parts of a group arrive does not matter.\<close>

lemma any_order:
  assumes "chunk_group cid n f evs" and "mset evs' = mset evs"
  shows "reassemble evs' = reassemble evs"
  using reassemble_group [OF assms(1)] reassemble_group [OF chunk_group_permute [OF assms]] by simp

end

interpretation server_side: reassembler ReassembleToolResultParts
  by unfold_locales (rule ReassembleToolResultParts_group)

interpretation client_side: reassembler client_reassemble
  by unfold_locales (rule client_reassemble_group)

section \<open>The split of an event\<close>

lemma chunk_total_pos [simp]: "0 < chunk_total len k"
  by (simp add: chunk_total_def Let_def)

lemma chunk_total_covers: "0 < k \<Longrightarrow> len \<le> chunk_total len k * k"
proof -
  assume k: "0 < k"
  have "len \<le> (len + k - 1) div k * k"
    using k div_mult_mod_eq [of "len + k - 1" k] mod_less_divisor [OF k, of "len + k - 1"] by linarith
  then show ?thesis by (auto simp: chunk_total_def Let_def)
qed

lemma chunk_total_le: "0 < k \<Longrightarrow> chunk_total len k \<le> Suc len"
proof (cases len)
  case (Suc a)
  assume "0 < k"
  then obtain b where k: "k = Suc b" by (cases k) auto
  have "len + k - 1 \<le> len * k" by (simp add: Suc k)
  then have "(len + k - 1) div k \<le> len"
    by (metis div_le_mono div_mult_self_is_m k zero_less_Suc)
  then show ?thesis by (simp add: chunk_total_def Let_def)
qed (simp add: chunk_total_def)

lemma chunk_slice_eq: "chunk_slice s k i = take k (drop (i * k) s)"
  by (auto simp: chunk_slice_def Let_def min_def)

lemma concat_slices: "concat (map (chunk_slice s k) [0..<n]) = take (n * k) s"
proof (induction n)
  case (Suc n)
  have "Suc n * k = n * k + k" by simp
  with Suc show ?case by (simp add: chunk_slice_eq take_add del: mult_Suc)
qed simp

lemma chunk_slices_content:
  "0 < k \<Longrightarrow> concat (map (chunk_slice s k) [0..<chunk_total (length s) k]) = s"
  using chunk_total_covers [of k "length s"] by (simp add: concat_slices)

lemma chunk_parts_group:
  assumes "0 < k" and "cid \<noteq> []"
  shows "chunk_group cid (chunk_total (length (se_Content ev)) k) (chunk_slice (se_Content ev) k)
    (map (chunk_part ev cid k) [0..<chunk_total (length (se_Content ev)) k])"
  using assms
  by (auto simp: chunk_group_def chunk_part_def stream_event_def comp_def distinct_map inj_on_def)

text \<open>Inversion of the splitter: it returns the event itself or the chunk events of one size.\<close>

lemma wires_fit_True_iff [result_iff]:
  "wires_fit ff limit evs = Inr True \<longleftrightarrow>
     (\<forall>ev \<in> set evs. \<exists>d. marshal_event ff ev = Some d \<and> int (length d) < limit)"
  by (induction evs) (auto split: option.splits)

lemma build_Some_iff [result_iff]:
  "buildChunkedToolResult ff cid ev k limit = Inr (Some out) \<longleftrightarrow>
     out = chunk_events ev cid k \<and> wires_fit ff limit out = Inr True"
  by (auto simp: buildChunkedToolResult_def Let_def bind_res_Inr_iff split: if_splits)

lemma split_loop_cases:
  assumes "split_loop ff uuid ev limit k = Inr out"
  shows "\<exists>k'. 4096 \<le> k' \<and> out = chunk_events ev (uuid k') k' \<and> wires_fit ff limit out = Inr True"
  using assms
proof (induction ff uuid ev limit k rule: split_loop.induct)
  case (1 ff uuid ev limit k)
  show ?case
  proof (cases "k < 4096")
    case True
    with "1.prems" show ?thesis by (simp add: split_loop.simps [of _ _ _ _ k])
  next
    case False
    with "1.prems" consider
        "buildChunkedToolResult ff (uuid k) ev k limit = Inr (Some out)"
      | "buildChunkedToolResult ff (uuid k) ev k limit = Inr None"
        "split_loop ff uuid ev limit (k div 2) = Inr out"
      by (auto simp: split_loop.simps [of _ _ _ _ k] split: sum.splits option.splits)
    then show ?thesis
      using "1.IH" [OF False] False by cases (auto simp: build_Some_iff not_less)
  qed
qed

lemma Split_cases:
  assumes "SplitStreamEventForSSE ff uuid ev m = Inr out" and "se_Type ev = EventToolResult"
  obtains "out = [ev]"
  | k where "4096 \<le> k" and "out = chunk_events ev (uuid k) k"
  using assms split_loop_cases [of ff uuid ev _ _ out]
  by (fastforce simp: SplitStreamEventForSSE_def Let_def split: if_splits option.splits)

subsection \<open>Wire sizes\<close>

lemma length_Itoa_nat:
  assumes "n < 10 ^ d" and "0 < d"
  shows "length (Itoa (int n)) \<le> d"
  using format_nat_bound [of 10 d n] assms by (simp add: Itoa_def)

text \<open>The members of a part and of the completion marker.\<close>

lemma event_json_part:
  "event_json ff (chunk_part ev cid k i) = JObj (
     [(''type'', JStr EventToolResultPart)] @
     omit_str ''content'' (chunk_slice (se_Content ev) k i) @
     omit_str ''tool_name'' (se_ToolName ev) @
     omit_str ''chunk_id'' cid @
     omit_int ''index'' (int i) @
     omit_int ''total'' (int (chunk_total (length (se_Content ev)) k)))"
  by (simp add: event_json_def chunk_part_def stream_event_def omit_str_def)

lemma event_json_done:
  "event_json ff (chunk_done ev cid) = JObj (
     [(''type'', JStr EventToolResult)] @
     omit_str ''tool_name'' (se_ToolName ev) @
     omit_str ''chunk_id'' cid)"
  by (simp add: event_json_def chunk_done_def stream_event_def omit_str_def omit_int_def)

lemma is_flat_simps [simp]: "is_flat (JStr s)" "is_flat (JNum n)"
  by (simp_all add: is_flat_def)

lemma omit_flat [simp]:
  "\<forall>kv \<in> set (omit_str k s). is_flat (snd kv)" "\<forall>kv \<in> set (omit_int k i). is_flat (snd kv)"
  by (simp_all add: omit_str_def omit_int_def)

definition members_size :: "(string \<times> json) list \<Rightarrow> nat" where
  "members_size kvs = sum_list (map (\<lambda>kv. Suc (length (member_text kv))) kvs)"

lemma members_size_append [simp]: "members_size (xs @ ys) = members_size xs + members_size ys"
  by (simp add: members_size_def)

lemma members_size_omit_escape:
  "members_size (omit_str k s) \<le> 6 * length k + length (json_escape s) + 6"
  using length_json_quote [of k]
  by (simp add: members_size_def omit_str_def member_text_def json_quote_def [of s])

lemma members_size_omit_str: "members_size (omit_str k s) \<le> 6 * length k + 6 * length s + 6"
  using members_size_omit_escape [of k s] length_json_escape [of s] by simp

lemma members_size_omit_int:
  "members_size (omit_int k i) \<le> 6 * length k + length (Itoa i) + 4"
  using length_json_quote [of k] by (simp add: members_size_def omit_int_def member_text_def)

lemma members_size_type: "members_size [(''type'', JStr t)] \<le> 6 * length t + 30"
  using length_json_quote [of "''type''"] length_json_quote [of t]
  by (simp add: members_size_def member_text_def)

text \<open>
  Every chunk event marshals, and its text is at most its escaped content, the six-fold of its
  tool name and chunk id, and a constant.
\<close>

lemma marshal_part:
  assumes "i < 10 ^ 19" and "chunk_total (length (se_Content ev)) k < 10 ^ 19"
  shows "\<exists>d. marshal_event ff (chunk_part ev cid k i) = Some d \<and>
    length d \<le> length (json_escape (chunk_slice (se_Content ev) k i))
      + 6 * (length (se_ToolName ev) + length cid) + 412"
proof -
  let ?kvs = "[(''type'', JStr EventToolResultPart)] @
     omit_str ''content'' (chunk_slice (se_Content ev) k i) @
     omit_str ''tool_name'' (se_ToolName ev) @ omit_str ''chunk_id'' cid @
     omit_int ''index'' (int i) @
     omit_int ''total'' (int (chunk_total (length (se_Content ev)) k))"
  have flat: "\<forall>kv \<in> set ?kvs. is_flat (snd kv)"
    by (simp only: set_append ball_Un omit_flat) simp
  have ints: "length (Itoa (int i)) \<le> 19"
      "length (Itoa (int (chunk_total (length (se_Content ev)) k))) \<le> 19"
    using length_Itoa_nat assms by auto
  obtain d where d: "Marshal (JObj ?kvs) = Some d"
    using Marshal_flat_object [OF flat] by auto
  have "length d \<le> 2 + members_size ?kvs"
    using length_flat_object [OF flat d] by (simp only: members_size_def)
  also have "\<dots> \<le> length (json_escape (chunk_slice (se_Content ev) k i))
      + 6 * (length (se_ToolName ev) + length cid) + 412"
    using ints members_size_type [of EventToolResultPart]
      members_size_omit_escape [of "''content''" "chunk_slice (se_Content ev) k i"]
      members_size_omit_str [of "''tool_name''" "se_ToolName ev"]
      members_size_omit_str [of "''chunk_id''" cid]
      members_size_omit_int [of "''index''" "int i"]
      members_size_omit_int [of "''total''" "int (chunk_total (length (se_Content ev)) k)"]
    by (simp only: members_size_append) simp
  finally have "length d \<le> length (json_escape (chunk_slice (se_Content ev) k i))
      + 6 * (length (se_ToolName ev) + length cid) + 412" .
  with d show ?thesis by (simp only: marshal_event_def event_json_part) blast
qed

lemma marshal_done:
  "\<exists>d. marshal_event ff (chunk_done ev cid) = Some d \<and>
    length d \<le> 6 * (length (se_ToolName ev) + length cid) + 412"
proof -
  let ?kvs = "[(''type'', JStr EventToolResult)] @
     omit_str ''tool_name'' (se_ToolName ev) @ omit_str ''chunk_id'' cid"
  have flat: "\<forall>kv \<in> set ?kvs. is_flat (snd kv)"
    by (simp only: set_append ball_Un omit_flat) simp
  obtain d where d: "Marshal (JObj ?kvs) = Some d"
    using Marshal_flat_object [OF flat] by auto
  have "length d \<le> 2 + members_size ?kvs"
    using length_flat_object [OF flat d] by (simp only: members_size_def)
  also have "\<dots> \<le> 6 * (length (se_ToolName ev) + length cid) + 412"
    using members_size_type [of EventToolResult]
      members_size_omit_str [of "''tool_name''" "se_ToolName ev"]
      members_size_omit_str [of "''chunk_id''" cid]
    by (simp only: members_size_append) simp
  finally have "length d \<le> 6 * (length (se_ToolName ev) + length cid) + 412" .
  with d show ?thesis by (simp only: marshal_event_def event_json_done) blast
qed

lemma chunk_events_fit_escape:
  assumes "0 < k" and "length (se_Content ev) < 2 ^ 63"
    and slices: "\<And>i. i < chunk_total (length (se_Content ev)) k \<Longrightarrow>
      length (json_escape (chunk_slice (se_Content ev) k i)) \<le> n"
    and "n + 6 * (length (se_ToolName ev) + length cid) + 412 < limit"
  shows "wires_fit ff (int limit) (chunk_events ev cid k) = Inr True"
proof -
  have tot: "chunk_total (length (se_Content ev)) k < 10 ^ 19"
    using chunk_total_le [OF assms(1), of "length (se_Content ev)"] assms(2) by simp
  have part: "\<exists>d. marshal_event ff (chunk_part ev cid k i) = Some d \<and> int (length d) < int limit"
    if "i < chunk_total (length (se_Content ev)) k" for i
    using marshal_part [of i ev k ff cid] that tot slices [OF that] assms(4) by force
  have "\<exists>d. marshal_event ff (chunk_done ev cid) = Some d \<and> int (length d) < int limit"
    using marshal_done [of ff ev cid] assms(4) by force
  with part show ?thesis by (auto simp: wires_fit_True_iff chunk_events_def)
qed

lemma chunk_events_fit:
  assumes "0 < k" and "length (se_Content ev) < 2 ^ 63"
    and "6 * (k + length (se_ToolName ev) + length cid) + 412 < limit"
  shows "wires_fit ff (int limit) (chunk_events ev cid k) = Inr True"
proof (rule chunk_events_fit_escape [OF assms(1,2)])
  show "length (json_escape (chunk_slice (se_Content ev) k i)) \<le> 6 * k" for i
    using length_json_escape [of "chunk_slice (se_Content ev) k i"] by (simp add: chunk_slice_eq)
  show "6 * k + 6 * (length (se_ToolName ev) + length cid) + 412 < limit" using assms(3) by simp
qed

lemma wires_fit_marshals:
  "(\<And>e. e \<in> set es \<Longrightarrow> marshal_event ff e \<noteq> None) \<Longrightarrow> \<exists>b. wires_fit ff limit es = Inr b"
  by (induction es) (auto split: option.splits)

lemma wires_fit_no_error:
  assumes "0 < k" and "length (se_Content ev) < 2 ^ 63"
  shows "\<exists>b. wires_fit ff limit (chunk_events ev cid k) = Inr b"
proof -
  have tot: "chunk_total (length (se_Content ev)) k < 10 ^ 19"
    using chunk_total_le [OF assms(1), of "length (se_Content ev)"] assms(2) by simp
  have part: "marshal_event ff (chunk_part ev cid k i) \<noteq> None"
    if "i < chunk_total (length (se_Content ev)) k" for i
    using marshal_part [of i ev k ff cid] that tot by force
  have "marshal_event ff e \<noteq> None" if "e \<in> set (chunk_events ev cid k)" for e
    using that part marshal_done [of ff ev cid] by (auto simp: chunk_events_def)
  then show ?thesis by (rule wires_fit_marshals)
qed

lemma build_no_error:
  assumes "0 < k" and "length (se_Content ev) < 2 ^ 63"
  shows "\<exists>r. buildChunkedToolResult ff cid ev k limit = Inr r"
  using wires_fit_no_error [OF assms, of ff limit cid]
  by (auto simp: buildChunkedToolResult_def Let_def)

text \<open>The loop tries 49152, 24576, 12288 and 6144 bytes; the last always fits the default limit.\<close>

lemma split_loop_succeeds:
  assumes "length (se_Content ev) < 2 ^ 63" and "length (se_ToolName ev) \<le> 4000"
    and "length (uuid 6144) = 36"
  shows "\<exists>out. split_loop ff uuid ev DefaultMaxSSEDataLineBytes DefaultSSEChunkContentBytes = Inr out"
proof -
  let ?L = "DefaultMaxSSEDataLineBytes"
  have step: "\<exists>out. split_loop ff uuid ev ?L k = Inr out"
    if "4096 \<le> k" and "\<exists>out. split_loop ff uuid ev ?L (k div 2) = Inr out" for k
    using that build_no_error [of k ev ff "uuid k" ?L] assms(1)
    by (subst split_loop.simps) (auto split: sum.splits option.splits)
  have "wires_fit ff (int 65536) (chunk_events ev (uuid 6144) 6144) = Inr True"
    by (rule chunk_events_fit) (use assms in auto)
  then have "buildChunkedToolResult ff (uuid 6144) ev 6144 ?L = Inr (Some (chunk_events ev (uuid 6144) 6144))"
    by (simp add: build_Some_iff DefaultMaxSSEDataLineBytes_def)
  then have "\<exists>out. split_loop ff uuid ev ?L 6144 = Inr out"
    by (subst split_loop.simps) simp
  then have "\<exists>out. split_loop ff uuid ev ?L 49152 = Inr out"
    using step [of 12288] step [of 24576] step [of 49152] by simp
  then show ?thesis by (simp add: DefaultSSEChunkContentBytes_def)
qed

section \<open>The client on a chunk group\<close>

lemma handle_raw_part:
  assumes "se_Type raw = EventToolResultPart" and "AddPart (cs_assembler st) (part_of raw) = (a, None)"
  shows "handle_raw st raw = (st\<lparr>cs_assembler := a\<rparr>, [], True)"
  using assms by (simp add: handle_raw_def part_of_def)

lemma Marshal_object_brace: "Marshal (JObj kvs) = Some d \<Longrightarrow> hd d = CHR ''{'' \<and> d \<noteq> []"
  by (auto simp del: commas.simps)

lemma marshal_event_not_done: "marshal_event ff ev = Some d \<Longrightarrow> d \<noteq> ''[DONE]''"
  using Marshal_object_brace by (auto simp: marshal_event_def event_json_def)

text \<open>What the client does with the lines of one wire event.\<close>

definition with_id :: "int option \<Rightarrow> client_state \<Rightarrow> client_state" where
  "with_id lid st = (case lid of None \<Rightarrow> st | Some i \<Rightarrow> st\<lparr>cs_pendingID := TrimSpace (Itoa i)\<rparr>)"

lemma with_id_assembler [simp]: "cs_assembler (with_id lid st) = cs_assembler st"
  by (simp add: with_id_def split: option.splits)

lemma client_events_wire:
  assumes "marshal_event ff ev = Some d" and "unm d = Some ev"
  shows "client_events unm scanErr st (wire_lines ff lid ev @ rest) =
    (case handle_raw (with_id lid st) ev of
       (st', evs, False) \<Rightarrow> (st', evs)
     | (st', evs, True) \<Rightarrow>
         (case client_events unm scanErr st' rest of (st'', out) \<Rightarrow> (st'', evs @ out)))"
proof -
  have data: "client_events unm scanErr st0 (data_line d # [] # rest) =
    (case handle_raw st0 ev of
       (st', evs, False) \<Rightarrow> (st', evs)
     | (st', evs, True) \<Rightarrow>
         (case client_events unm scanErr st' rest of (st'', out) \<Rightarrow> (st'', evs @ out)))" for st0
    using assms(2) marshal_event_not_done [OF assms(1)]
    by (simp add: data_line_def TrimPrefix_def split: prod.splits bool.splits)
  show ?thesis
    using assms(1) data
    by (cases lid) (simp_all add: wire_lines_def with_id_def id_line_def TrimPrefix_def)
qed

lemma client_events_parts:
  assumes "\<forall>ev \<in> set evs. se_Type ev = EventToolResultPart \<and>
      (\<exists>d. marshal_event ff ev = Some d \<and> unm d = Some ev)"
    and "add_parts (cs_assembler st) evs = (a, None)"
  shows "\<exists>st'. client_events unm scanErr st (concat (map (wire_lines ff lid) evs) @ rest) =
    client_events unm scanErr st' rest \<and> cs_assembler st' = a"
  using assms
proof (induction evs arbitrary: st)
  case (Cons ev evs)
  from Cons.prems(2) obtain a1 where a1: "AddPart (cs_assembler st) (part_of ev) = (a1, None)"
      "add_parts a1 evs = (a, None)"
    by (auto split: prod.splits option.splits)
  let ?st = "(with_id lid st)\<lparr>cs_assembler := a1\<rparr>"
  from Cons.prems(1) obtain d where d: "marshal_event ff ev = Some d" "unm d = Some ev"
      "se_Type ev = EventToolResultPart" by auto
  have "handle_raw (with_id lid st) ev = (?st, [], True)"
    using handle_raw_part [OF d(3), of "with_id lid st"] a1(1) by simp
  then have "client_events unm scanErr st (concat (map (wire_lines ff lid) (ev # evs)) @ rest) =
      client_events unm scanErr ?st (concat (map (wire_lines ff lid) evs) @ rest)"
    using client_events_wire [where unm = unm, OF d(1,2), of scanErr st lid] by (simp split: prod.splits)
  moreover have "\<exists>st'. client_events unm scanErr ?st (concat (map (wire_lines ff lid) evs) @ rest) =
      client_events unm scanErr st' rest \<and> cs_assembler st' = a"
    by (rule Cons.IH) (use Cons.prems(1) a1(2) in auto)
  ultimately show ?case by simp
qed auto

text \<open>The lines of a whole tool result, split or not, followed by the completion marker.\<close>

definition tool_result_of :: "StreamEvent \<Rightarrow> client_event \<Rightarrow> bool" where
  "tool_result_of ev ce \<longleftrightarrow>
     ce_Type ce = EventToolResult \<and> ce_Text ce = se_Content ev \<and> ce_ToolName ce = se_ToolName ev"

lemma handle_raw_whole:
  assumes "se_Type ev = EventToolResult" and "se_ChunkID ev = []"
  shows "\<exists>st' ce. handle_raw st ev = (st', [ce], True) \<and> tool_result_of ev ce \<and>
    cs_assembler st' = cs_assembler st"
  using assms
  by (auto simp: handle_raw_def adoptID_def tool_result_of_def client_event_of_def Let_def)

lemma handle_raw_done:
  assumes "Complete (cs_assembler st) cid = (a, Inr (se_Content ev))" and "cid \<noteq> []"
  shows "\<exists>st' ce. handle_raw st (chunk_done ev cid) = (st', [ce], True) \<and> tool_result_of ev ce \<and>
    cs_assembler st' = a"
  using assms
  by (auto simp: handle_raw_def chunk_done_def stream_event_def adoptID_def tool_result_of_def
      client_event_of_def Let_def)

lemma client_events_done:
  assumes "FlushIncomplete (cs_assembler st) = None" and "scanErr [] = None"
  shows "client_events unm scanErr st [data_line ''[DONE]''] = (st, [])"
  using assms by (simp add: data_line_def TrimPrefix_def after_scan_def)

lemma client_events_chunked:
  assumes k: "0 < k" and cid: "cid \<noteq> []" and err: "scanErr [] = None"
    and dec: "\<forall>e \<in> set (chunk_events ev cid k). \<exists>d. marshal_event ff e = Some d \<and> unm d = Some e"
    and st: "cs_assembler st = NewAssembler"
  shows "\<exists>st' ce. client_events unm scanErr st
    (concat (map (wire_lines ff lid) (chunk_events ev cid k)) @ [data_line ''[DONE]'']) = (st', [ce]) \<and>
    tool_result_of ev ce"
proof -
  let ?parts = "map (chunk_part ev cid k) [0..<chunk_total (length (se_Content ev)) k]"
  note group = chunk_parts_group [OF k cid, of ev]
  obtain a' a'' where a': "add_parts (cs_assembler st) ?parts = (a', None)"
      "Complete a' cid = (a'', Inr (se_Content ev))" "map_of a'' = map_of NewAssembler"
    by (rule Assembler_group [OF group, of NewAssembler])
      (auto simp: NewAssembler_def st chunk_slices_content [OF k])
  then have empty: "a'' = []"
    by (metis NewAssembler_def map_of_eq_empty_iff)
  have parts: "\<forall>e \<in> set ?parts. se_Type e = EventToolResultPart \<and>
      (\<exists>d. marshal_event ff e = Some d \<and> unm d = Some e)"
    using dec by (auto simp: chunk_events_def chunk_part_def stream_event_def)
  let ?rest = "wire_lines ff lid (chunk_done ev cid) @ [data_line ''[DONE]'']"
  obtain st1 where run: "client_events unm scanErr st (concat (map (wire_lines ff lid) ?parts) @ ?rest) =
      client_events unm scanErr st1 ?rest" and st1: "cs_assembler st1 = a'"
    using client_events_parts [OF parts a'(1)] by blast
  obtain d where d: "marshal_event ff (chunk_done ev cid) = Some d" "unm d = Some (chunk_done ev cid)"
    using dec by (auto simp: chunk_events_def)
  have "Complete (cs_assembler (with_id lid st1)) cid = (a'', Inr (se_Content ev))"
    using a'(2) st1 by simp
  from handle_raw_done [OF this cid] obtain st' ce where
      fin: "handle_raw (with_id lid st1) (chunk_done ev cid) = (st', [ce], True)" "tool_result_of ev ce"
      "cs_assembler st' = a''" by blast
  have "client_events unm scanErr st1 ?rest = (st', [ce])"
    using client_events_wire [where unm = unm, OF d, of scanErr st1 lid "[data_line ''[DONE]'']"] fin
      client_events_done [of st' scanErr unm] err empty
    by (simp add: FlushIncomplete_def)
  with run fin(2) show ?thesis by (auto simp: chunk_events_def)
qed

section \<open>Exact texts of plain events\<close>

text \<open>An event that carries a type, a content, a tool name and a chunk id only.\<close>

definition tool_result :: "string \<Rightarrow> string \<Rightarrow> StreamEvent" where
  "tool_result name content =
     (stream_event EventToolResult)\<lparr>se_Content := content, se_ToolName := name\<rparr>"

lemma tool_result_simps [simp]:
  "se_Type (tool_result t c) = EventToolResult" "se_Content (tool_result t c) = c"
  "se_ToolName (tool_result t c) = t" "se_ChunkID (tool_result t c) = []"
  by (simp_all add: tool_result_def stream_event_def)

lemma json_escape_plain_append:
  "list_all plain_char s \<Longrightarrow> json_escape (s @ t) = s @ json_escape t"
  by (induction s) (auto simp: json_escape_plain_Cons)

lemma quote_keys [simp]:
  "json_quote ''type'' = [CHR 0x22] @ ''type'' @ [CHR 0x22]"
  "json_quote ''content'' = [CHR 0x22] @ ''content'' @ [CHR 0x22]"
  "json_quote ''tool_result'' = [CHR 0x22] @ ''tool_result'' @ [CHR 0x22]"
  by (simp_all add: json_quote_def json_escape_plain plain_char_def byte_def)

lemma marshal_tool_result:
  assumes "c \<noteq> []"
  shows "marshal_event ff (tool_result [] c) =
    Some (''{'' @ json_quote ''type'' @ '':'' @ json_quote EventToolResult @ '','' @
          json_quote ''content'' @ '':'' @ json_quote c @ ''}'')"
proof -
  have "event_json ff (tool_result [] c) = JObj [(''type'', JStr EventToolResult), (''content'', JStr c)]"
    using assms by (simp add: event_json_def tool_result_def stream_event_def omit_str_def omit_int_def)
  then show ?thesis
    by (simp add: marshal_event_def)
qed

lemma marshal_tool_result_length:
  assumes "c \<noteq> []"
  shows "\<exists>d. marshal_event ff (tool_result [] c) = Some d \<and> length d = length (json_escape c) + 35"
  using marshal_tool_result [OF assms, of ff] by (simp add: json_quote_def [of c])

lemma plain_a [simp]: "plain_char CHR ''a''"
  by (simp add: plain_char_def byte_def)

lemma json_escape_replicate [simp]: "json_escape (replicate n CHR ''a'') = replicate n CHR ''a''"
  by (rule json_escape_plain) (simp add: list_all_iff)

text \<open>A tool result of 70000 bytes, which does not fit one line.\<close>

abbreviation big_result :: StreamEvent where
  "big_result \<equiv> tool_result [] (replicate 70000 CHR ''a'')"

abbreviation no_float :: "go_float \<Rightarrow> json" where
  "no_float \<equiv> \<lambda>_. JUnsupported"

abbreviation some_uuid :: "nat \<Rightarrow> string" where
  "some_uuid \<equiv> \<lambda>_. ''550e8400-e29b-41d4-a716-446655440000''"

lemma big_result_oversized:
  "\<exists>d. marshal_event ff big_result = Some d \<and> length d = 70035"
proof -
  have "replicate 70000 CHR ''a'' \<noteq> []" by simp
  from marshal_tool_result_length [OF this, of ff] show ?thesis by simp
qed

lemma big_result_split:
  "\<exists>out. SplitStreamEventForSSE ff some_uuid big_result 0 = Inr out \<and> out \<noteq> [big_result]"
proof -
  obtain d where d: "marshal_event ff big_result = Some d" "length d = 70035"
    using big_result_oversized by blast
  obtain out where out: "split_loop ff some_uuid big_result DefaultMaxSSEDataLineBytes
      DefaultSSEChunkContentBytes = Inr out"
    using split_loop_succeeds [where uuid = some_uuid and ev = big_result and ff = ff] by auto
  moreover have "out \<noteq> [big_result]"
    using split_loop_cases [OF out] d
    by (auto simp: wires_fit_True_iff DefaultMaxSSEDataLineBytes_def)
  ultimately show ?thesis
    using d by (simp add: SplitStreamEventForSSE_def DefaultMaxSSEDataLineBytes_def)
qed

section \<open>Properties\<close>

text \<open>
  Round trip. When the server splits a tool result, the parts it puts on the wire followed by
  the completion marker reassemble to the original content: by the server's own helper in the
  order of emission, and by the client's assembler in any order of arrival.
\<close>

theorem split_reassembles:
  assumes "SplitStreamEventForSSE ff uuid ev m = Inr out" and "se_Type ev = EventToolResult"
    and "\<And>k. uuid k \<noteq> []"
  shows "out = [ev] \<or>
    (\<exists>parts fin. out = parts @ [fin] \<and> se_Type fin = EventToolResult \<and> se_Content fin = [] \<and>
       ReassembleToolResultParts parts = Inr (se_Content ev) \<and>
       (\<forall>parts'. mset parts' = mset parts \<longrightarrow> client_reassemble parts' = Inr (se_Content ev)))"
  using assms(1,2)
proof (cases rule: Split_cases)
  case (2 k)
  let ?parts = "map (chunk_part ev (uuid k) k) [0..<chunk_total (length (se_Content ev)) k]"
  have k: "0 < k" using 2(1) by simp
  note group = chunk_parts_group [OF k assms(3) [of k], of ev]
  have "ReassembleToolResultParts ?parts = Inr (se_Content ev)"
    using server_side.reassemble_group [OF group] by (simp add: chunk_slices_content [OF k])
  moreover have "client_reassemble parts' = Inr (se_Content ev)" if "mset parts' = mset ?parts" for parts'
    using client_side.any_order [OF group that] client_side.reassemble_group [OF group]
    by (simp add: chunk_slices_content [OF k])
  moreover have "out = ?parts @ [chunk_done ev (uuid k)]" using 2(2) by (simp add: chunk_events_def)
  moreover have "se_Type (chunk_done ev (uuid k)) = EventToolResult"
      "se_Content (chunk_done ev (uuid k)) = []"
    by (simp_all add: chunk_done_def stream_event_def)
  ultimately show ?thesis by blast
qed simp

theorem split_reassembles_witness:
  "\<exists>parts fin. SplitStreamEventForSSE no_float some_uuid big_result 0 = Inr (parts @ [fin]) \<and>
     ReassembleToolResultParts parts = Inr (se_Content big_result) \<and>
     client_reassemble (rev parts) = Inr (se_Content big_result)"
proof -
  obtain out where out: "SplitStreamEventForSSE no_float some_uuid big_result 0 = Inr out"
      "out \<noteq> [big_result]"
    using big_result_split by blast
  have "mset (rev parts) = mset parts" for parts :: "StreamEvent list" by simp
  with split_reassembles [OF out(1)] out show ?thesis by (simp, blast)
qed

text \<open>
  Every event that the splitter returns for a tool result marshals to strictly fewer bytes
  than the limit in force.
\<close>

theorem split_within_limit:
  assumes "SplitStreamEventForSSE ff uuid ev m = Inr out" and "se_Type ev = EventToolResult"
    and "e \<in> set out"
  shows "\<exists>d. marshal_event ff e = Some d \<and>
    int (length d) < (if m \<le> 0 then DefaultMaxSSEDataLineBytes else m)"
  using assms split_loop_cases [of ff uuid ev _ _ out]
  by (fastforce simp: SplitStreamEventForSSE_def Let_def wires_fit_True_iff split: if_splits option.splits)

theorem split_within_limit_witness:
  "\<exists>out. SplitStreamEventForSSE no_float some_uuid big_result 0 = Inr out \<and>
     (\<exists>d. marshal_event no_float (last out) = Some d \<and> int (length d) < DefaultMaxSSEDataLineBytes)"
proof -
  obtain out where out: "SplitStreamEventForSSE no_float some_uuid big_result 0 = Inr out"
    using big_result_split by blast
  then have "out \<noteq> []"
    using Split_cases [OF out] by (auto simp: chunk_events_def)
  then have "last out \<in> set out" by simp
  from split_within_limit [OF out _ this] out show ?thesis by simp
qed

text \<open>
  C33. The split never fails under the default limit: a tool result that marshals at all, with a
  tool name of at most 4000 bytes, is either small enough or is split by one of the four chunk
  sizes the loop tries, whatever its bytes are (each takes at most six on the wire).
\<close>

theorem split_total:
  assumes "length (se_Content ev) < 2 ^ 63" and "length (se_ToolName ev) \<le> 4000"
    and "length (uuid 6144) = 36" and "marshal_event ff ev \<noteq> None" and "m \<le> 0"
  shows "\<exists>out. SplitStreamEventForSSE ff uuid ev m = Inr out"
  using split_loop_succeeds [where uuid = uuid, OF assms(1-3), of ff] assms(4,5)
  by (auto simp: SplitStreamEventForSSE_def Let_def split: option.splits)

theorem split_total_witness:
  "marshal_event no_float big_result \<noteq> None \<and>
   (\<exists>out. SplitStreamEventForSSE no_float some_uuid big_result 0 = Inr out)"
proof -
  have "marshal_event no_float big_result \<noteq> None"
    using big_result_oversized [of no_float] by auto
  with split_total [of big_result some_uuid no_float 0] show ?thesis by simp
qed


definition echo_unm :: "StreamEvent \<Rightarrow> string \<Rightarrow> StreamEvent option" where
  "echo_unm e d = (if marshal_event no_float e = Some d then Some e else None)"


text \<open>
  The limit is on the JSON text, but the client's scanner limits the line, which also holds
  the six bytes of the \<open>data: \<close> prefix: there is a tool result that the server sends unsplit on a
  line of 65541 bytes, and no line of 65536 bytes or more fits a default \<open>bufio.Scanner\<close>
  (\<open>MaxScanTokenSize\<close> is 65536, line end included).
\<close>

theorem wire_line_over_scanner_limit:
  "\<exists>ev d. se_Type ev = EventToolResult \<and>
     SplitStreamEventForSSE ff uuid ev DefaultMaxSSEDataLineBytes = Inr [ev] \<and>
     marshal_event ff ev = Some d \<and> 65536 \<le> length (data_line d)"
proof -
  let ?ev = "tool_result [] (replicate 65500 CHR ''a'')"
  have "replicate 65500 CHR ''a'' \<noteq> []" by simp
  from marshal_tool_result_length [OF this, of ff] obtain d
    where d: "marshal_event ff ?ev = Some d" "length d = 65535" by auto
  then have "SplitStreamEventForSSE ff uuid ?ev DefaultMaxSSEDataLineBytes = Inr [?ev]"
    by (simp add: SplitStreamEventForSSE_def DefaultMaxSSEDataLineBytes_def)
  moreover have "65536 \<le> length (data_line d)" by (simp add: data_line_def d)
  ultimately show ?thesis using d tool_result_simps(1) by blast
qed

text \<open>
  \<open>TruncateToolResult\<close> never exceeds its limit, leaves a content within the limit unchanged,
  and fills the limit exactly with a longer one: a prefix of it, followed by the marker with the
  original size where the limit leaves room for the marker.
\<close>

theorem TruncateToolResult_spec:
  fixes content :: string and maxBytes :: int
  defines "limit \<equiv> nat (if maxBytes \<le> 0 then DefaultMaxToolResultBytes else maxBytes)"
  shows "length (TruncateToolResult content maxBytes) \<le> limit \<and>
    (length content \<le> limit \<longrightarrow> TruncateToolResult content maxBytes = content) \<and>
    (limit < length content \<longrightarrow>
      length (TruncateToolResult content maxBytes) = limit \<and>
      (length (truncation_marker (length content)) < limit \<longrightarrow>
        (\<exists>n. TruncateToolResult content maxBytes = take n content @ truncation_marker (length content))))"
  unfolding limit_def by (auto simp: TruncateToolResult_def Let_def not_le)

theorem TruncateToolResult_spec_witness:
  "length (TruncateToolResult (replicate 100 CHR ''a'') 50) \<le> 50 \<and>
   TruncateToolResult (replicate 100 CHR ''a'') 100 = replicate 100 CHR ''a''"
  using TruncateToolResult_spec [of "replicate 100 CHR ''a''" 50]
    TruncateToolResult_spec [of "replicate 100 CHR ''a''" 100] by simp

subsection \<open>Chunk boundaries inside a rune\<close>

text \<open>
  Contents that differ in one rune only: 49151 bytes, a two-byte rune, 20000 bytes. The first
  chunk boundary (49152) falls inside the rune.
\<close>

definition straddling :: "char \<Rightarrow> StreamEvent" where
  "straddling x = tool_result [] (replicate 49151 CHR ''a'' @ [CHR 0xC3, x] @ replicate 20000 CHR ''a'')"

lemma straddling_slices:
  "chunk_total (length (se_Content (straddling x))) 49152 = 2"
  "chunk_slice (se_Content (straddling x)) 49152 0 = replicate 49151 CHR ''a'' @ [CHR 0xC3]"
  "chunk_slice (se_Content (straddling x)) 49152 1 = x # replicate 20000 CHR ''a''"
  by (simp_all add: straddling_def chunk_total_def chunk_slice_eq)

lemma escape_torn_lead: "json_escape [CHR 0xC3] = u_escape ''fffd''"
  by (simp add: json_escape.simps(2) esc_step_def byte_def rune_width_def in_range_def)

lemma escape_torn_cont:
  "is_cont x \<Longrightarrow> json_escape (x # s) = u_escape ''fffd'' @ json_escape s"
  by (simp add: json_escape.simps(2) esc_step_def rune_width_def in_range_def)

lemma escape_rune:
  "is_cont x \<Longrightarrow> json_escape (CHR 0xC3 # x # s) = [CHR 0xC3, x] @ json_escape s"
  by (simp add: json_escape.simps(2) esc_step_def rune_width_def second_ok_def in_range_def byte_def)

lemma all_plain_a: "list_all plain_char (replicate n CHR ''a'')"
  by (simp add: list_all_iff)

lemma straddling_escapes:
  assumes "is_cont x"
  shows "json_escape (chunk_slice (se_Content (straddling x)) 49152 0)
      = replicate 49151 CHR ''a'' @ u_escape ''fffd''"
    and "json_escape (chunk_slice (se_Content (straddling x)) 49152 1)
      = u_escape ''fffd'' @ replicate 20000 CHR ''a''"
  using assms
  by (simp_all only: straddling_slices json_escape_plain_append [OF all_plain_a] escape_torn_lead
      escape_torn_cont json_escape_replicate)

lemma straddling_split:
  assumes "is_cont x"
  shows "SplitStreamEventForSSE ff some_uuid (straddling x) DefaultMaxSSEDataLineBytes
    = Inr (chunk_events (straddling x) (some_uuid 0) 49152)"
proof -
  let ?c = "se_Content (straddling x)"
  have "?c \<noteq> []" by (simp add: straddling_def)
  moreover have "length (json_escape ?c) = 69153"
    by (simp add: straddling_def json_escape_plain_append [OF all_plain_a] escape_rune [OF assms])
  ultimately obtain d where d: "marshal_event ff (straddling x) = Some d" "length d = 69188"
    using marshal_tool_result_length [of ?c ff] by (auto simp: straddling_def)
  have "wires_fit ff (int 65536) (chunk_events (straddling x) (some_uuid 0) 49152) = Inr True"
  proof (rule chunk_events_fit_escape [where n = 49157])
    show "length (json_escape (chunk_slice ?c 49152 i)) \<le> 49157"
      if "i < chunk_total (length ?c) 49152" for i
    proof -
      from that have "i = 0 \<or> i = 1" by (auto simp: straddling_slices)
      then show ?thesis
        by (elim disjE) (simp_all only: straddling_escapes [OF assms], simp_all add: u_escape_def)
    qed
  qed (simp_all add: straddling_def)
  then have "buildChunkedToolResult ff (some_uuid 0) (straddling x) 49152 DefaultMaxSSEDataLineBytes
      = Inr (Some (chunk_events (straddling x) (some_uuid 0) 49152))"
    by (simp add: build_Some_iff DefaultMaxSSEDataLineBytes_def)
  with d show ?thesis
    by (simp add: SplitStreamEventForSSE_def DefaultMaxSSEDataLineBytes_def
        DefaultSSEChunkContentBytes_def split_loop.simps [of _ _ _ _ 49152] straddling_def)
qed

lemma straddling_same_text:
  assumes "is_cont x" and "is_cont y" and "i < 2"
  shows "marshal_event ff (chunk_part (straddling x) cid 49152 i)
       = marshal_event ff (chunk_part (straddling y) cid 49152 i)"
proof -
  have flat: "\<forall>kv \<in> set ([(''type'', JStr t)] @ omit_str k1 a @ omit_str k2 b @ omit_str k3 c @
     omit_int k4 j @ omit_int k5 l). is_flat (snd kv)" for t k1 k2 k3 k4 k5 a b c j l
    by (simp only: set_append ball_Un omit_flat) simp
  have "i = 0 \<or> i = 1" using assms(3) by auto
  then have quote: "json_quote (chunk_slice (se_Content (straddling x)) 49152 i)
      = json_quote (chunk_slice (se_Content (straddling y)) 49152 i)"
    by (elim disjE) (simp_all only: json_quote_def straddling_escapes [OF assms(1)]
        straddling_escapes [OF assms(2)])
  have ne: "chunk_slice (se_Content (straddling z)) 49152 i \<noteq> []" for z
    using \<open>i = 0 \<or> i = 1\<close> by (elim disjE) (simp_all only: straddling_slices, simp_all)
  have "se_ToolName (straddling z) = []" for z by (simp add: straddling_def)
  then show ?thesis
    unfolding marshal_event_def event_json_part Marshal_flat_object [OF flat] straddling_slices(1)
    by (simp add: omit_str_def ne member_text_def quote del: commas.simps)
qed

text \<open>
  A chunk boundary inside a rune loses the rune: the texts on the wire for two tool results
  that differ in one rune are the same, so no client can recover the content. Each half of the
  rune is invalid UTF-8 and \<open>json.Marshal\<close> replaces it by U+FFFD.
\<close>

theorem split_loses_straddling_rune:
  "\<exists>ev ev' out out'. se_Content ev \<noteq> se_Content ev' \<and>
     SplitStreamEventForSSE ff some_uuid ev DefaultMaxSSEDataLineBytes = Inr out \<and>
     SplitStreamEventForSSE ff some_uuid ev' DefaultMaxSSEDataLineBytes = Inr out' \<and>
     map (marshal_event ff) out = map (marshal_event ff) out'"
proof -
  let ?x = "CHR 0xA9" and ?y = "CHR 0xA8"
  have cont: "is_cont ?x" "is_cont ?y" by (simp_all add: in_range_def byte_def)
  have "se_Content (straddling ?x) \<noteq> se_Content (straddling ?y)"
    by (simp add: straddling_def)
  moreover have "chunk_done (straddling ?x) cid = chunk_done (straddling ?y) cid" for cid
    by (simp add: chunk_done_def straddling_def)
  then have "map (marshal_event ff) (chunk_events (straddling ?x) (some_uuid 0) 49152)
      = map (marshal_event ff) (chunk_events (straddling ?y) (some_uuid 0) 49152)"
    using straddling_same_text [OF cont, of _ ff "some_uuid 0"]
    by (simp add: chunk_events_def straddling_slices(1))
  ultimately show ?thesis
    using straddling_split [OF cont(1), of ff] straddling_split [OF cont(2), of ff] by blast
qed

end
