(* ===== verification/Token_Usage.thy ===== *)
theory Token_Usage
  imports Stream_Events
begin

text \<open>
  Token accounting. \<open>codingagent/usage.go\<close> and \<open>usage_model.go\<close>: adding usages, session sums, the
  turn filter, model attribution. \<open>agentservice/usage_aggregator.go\<close>: the per-turn aggregator.
  \<open>agentservice/usage_store.go\<close>: the persisted report, with the session directory as explicit
  state. \<open>agentservice/handler_usage.go\<close>: the side effects of one stream event.
  \<open>llmgateway/usage_meter.go\<close> and \<open>codingagent/metering_meta.go\<close>: the gateway's meter and the
  metadata that correlates its calls with turns.

  Token counts are 64-bit words, as Go's \<open>int\<close>: sums wrap. A time is an integer instant, \<open>None\<close>
  the zero \<open>time.Time\<close>. \<open>fadd\<close> is the addition of \<open>float64\<close>; no property depends on what it
  computes.
\<close>

section \<open>Adding usages\<close>

record TurnUsageRecord =
  tr_TurnID :: string
  tr_EndedAt :: "go_time option"
  tr_Usage :: TokenUsage
  tr_Calls :: "TokenUsage list"

record SessionUsageReport =
  rep_SessionID :: string
  rep_Usage :: TokenUsage
  rep_Turns :: "TurnUsageRecord list"

record UsageQuery =
  q_LastN :: int
  q_AfterTurnID :: string
  q_FromTurnID :: string
  q_ToTurnID :: string
  q_Since :: "go_time option"
  q_Until :: "go_time option"

type_synonym fadd = "go_float \<Rightarrow> go_float \<Rightarrow> go_float"

definition UsageQuery_Empty :: "UsageQuery \<Rightarrow> bool" where
  "UsageQuery_Empty q \<longleftrightarrow>
     q_LastN q \<le> 0 \<and> q_AfterTurnID q = [] \<and> q_FromTurnID q = [] \<and> q_ToTurnID q = [] \<and>
     q_Since q = None \<and> q_Until q = None"

definition AddUsage :: "fadd \<Rightarrow> TokenUsage \<Rightarrow> TokenUsage \<Rightarrow> TokenUsage" where
  "AddUsage fadd dst src = dst
     \<lparr>InputTokens := InputTokens dst + InputTokens src,
      OutputTokens := OutputTokens dst + OutputTokens src,
      CachedInputTokens := CachedInputTokens dst + CachedInputTokens src,
      CacheCreationInputTokens := CacheCreationInputTokens dst + CacheCreationInputTokens src,
      ReasoningOutputTokens := ReasoningOutputTokens dst + ReasoningOutputTokens src,
      TotalTokens := (if 0 <s TotalTokens src then TotalTokens dst + TotalTokens src else TotalTokens dst),
      TotalCostUSD :=
        (case TotalCostUSD src of
           None \<Rightarrow> TotalCostUSD dst
         | Some c \<Rightarrow> (case TotalCostUSD dst of None \<Rightarrow> Some c | Some d \<Rightarrow> Some (fadd d c)))\<rparr>"

definition SumTurnUsage :: "fadd \<Rightarrow> TurnUsageRecord list \<Rightarrow> TokenUsage" where
  "SumTurnUsage fadd turns =
     foldl (\<lambda>sum tr. AddUsage fadd sum (tr_Usage tr))
       (zero_usage\<lparr>u_Source := UsageSourceDerivedSessionSum, Confidence := UsageConfidenceHigh\<rparr>) turns"

fun indexOfTurn :: "TurnUsageRecord list \<Rightarrow> string \<Rightarrow> nat option" where
  "indexOfTurn [] i = None"
| "indexOfTurn (tr # trs) i = (if tr_TurnID tr = i then Some 0 else map_option Suc (indexOfTurn trs i))"

definition filterTurnIDRange ::
  "TurnUsageRecord list \<Rightarrow> string \<Rightarrow> string \<Rightarrow> TurnUsageRecord list" where
  "filterTurnIDRange turns fromID toID =
     (if fromID = [] \<and> toID = [] then turns
      else case (if fromID \<noteq> [] then indexOfTurn turns fromID else Some 0) of
        None \<Rightarrow> []
      | Some start \<Rightarrow>
          (case (if toID \<noteq> [] then map_option int (indexOfTurn turns toID)
                 else Some (int (length turns) - 1)) of
             None \<Rightarrow> []
           | Some end \<Rightarrow>
               if end < int start then []
               else take (nat end + 1 - start) (drop start turns)))"

definition in_window :: "go_time option \<Rightarrow> go_time option \<Rightarrow> TurnUsageRecord \<Rightarrow> bool" where
  "in_window since until tr =
     (case tr_EndedAt tr of
        None \<Rightarrow> False
      | Some t \<Rightarrow>
          (case since of None \<Rightarrow> True | Some s \<Rightarrow> \<not> t < s) \<and>
          (case until of None \<Rightarrow> True | Some u \<Rightarrow> \<not> u < t))"

definition FilterTurnUsage :: "TurnUsageRecord list \<Rightarrow> UsageQuery \<Rightarrow> TurnUsageRecord list" where
  "FilterTurnUsage turns q =
     (if UsageQuery_Empty q \<or> length turns = 0 then turns
      else
        let out = turns;
            out = (if q_AfterTurnID q \<noteq> []
                   then (case indexOfTurn out (q_AfterTurnID q) of
                           None \<Rightarrow> [] | Some idx \<Rightarrow> drop (idx + 1) out)
                   else out);
            out = (if q_FromTurnID q \<noteq> [] \<or> q_ToTurnID q \<noteq> []
                   then filterTurnIDRange out (q_FromTurnID q) (q_ToTurnID q) else out);
            out = (if q_Since q \<noteq> None \<or> q_Until q \<noteq> None
                   then filter (in_window (q_Since q) (q_Until q)) out else out)
        in if 0 < q_LastN q \<and> q_LastN q < int (length out)
           then drop (length out - nat (q_LastN q)) out else out)"

definition ApplyModelAttribution :: "TokenUsage \<Rightarrow> string \<Rightarrow> TokenUsage" where
  "ApplyModelAttribution u sessionModel =
     (if u_Model u \<noteq> []
      then (if ModelSource u = [] then u\<lparr>ModelSource := ModelSourceAgent\<rparr> else u)
      else if sessionModel \<noteq> []
      then u\<lparr>u_Model := sessionModel, ModelSource := ModelSourceTernSession\<rparr> else u)"

section \<open>The per-turn aggregator\<close>

record turnUsageAggregator =
  ag_turnID :: string
  ag_calls :: "TokenUsage list"
  ag_seenCall :: "string set"
  ag_turn :: "TokenUsage option"
  ag_finalized :: bool
  ag_finalRec :: "TurnUsageRecord option"

definition newTurnUsageAggregator :: "string \<Rightarrow> turnUsageAggregator" where
  "newTurnUsageAggregator turnID =
     \<lparr>ag_turnID = turnID, ag_calls = [], ag_seenCall = {}, ag_turn = None,
      ag_finalized = False, ag_finalRec = None\<rparr>"

text \<open>\<open>finalRec\<close> with \<open>finalOK = false\<close> is \<open>None\<close>.\<close>

definition Observe :: "turnUsageAggregator \<Rightarrow> StreamEvent \<Rightarrow> turnUsageAggregator" where
  "Observe a ev =
     (case se_Usage ev of
        None \<Rightarrow> a
      | Some u \<Rightarrow>
          if CallID u \<noteq> [] then
            (if CallID u \<in> ag_seenCall a then a
             else a\<lparr>ag_seenCall := insert (CallID u) (ag_seenCall a), ag_calls := ag_calls a @ [u]\<rparr>)
          else if se_Type ev \<noteq> EventResult \<and> u_Source u \<noteq> UsageSourceCodexTokenCount then a
          else if se_Type ev = EventResult then
            (if u_Source u = UsageSourceClaudeResult \<or> u_Source u = UsageSourceCodexTurnCompleted
             then a\<lparr>ag_turn := Some u\<rparr>
             else if ag_turn a = None then a\<lparr>ag_turn := Some u\<rparr> else a)
          else if ag_turn a = None \<and> u_Source u = UsageSourceCodexTokenCount
          then a\<lparr>ag_turn := Some u\<rparr> else a)"

text \<open>\<open>i\<close> is the loop index of the range over \<open>extra\<close>.\<close>

fun merge_calls :: "nat \<Rightarrow> TokenUsage list \<Rightarrow> turnUsageAggregator \<Rightarrow> turnUsageAggregator" where
  "merge_calls i [] a = a"
| "merge_calls i (u # us) a =
     (let cid = (if CallID u = [] then ''gw-'' @ Itoa (int (length (ag_calls a) + i)) else CallID u) in
      if cid \<in> ag_seenCall a then merge_calls (Suc i) us a
      else merge_calls (Suc i) us
             (a\<lparr>ag_seenCall := insert cid (ag_seenCall a),
                ag_calls := ag_calls a @ [u\<lparr>CallID := cid\<rparr>]\<rparr>))"

definition MergeCalls :: "turnUsageAggregator \<Rightarrow> TokenUsage list \<Rightarrow> turnUsageAggregator" where
  "MergeCalls a extra = merge_calls 0 extra a"

definition sum_calls :: "fadd \<Rightarrow> TokenUsage \<Rightarrow> TokenUsage list \<Rightarrow> TokenUsage" where
  "sum_calls fadd u calls = foldl (AddUsage fadd) u calls"

definition Finalize ::
  "fadd \<Rightarrow> turnUsageAggregator \<Rightarrow> turnUsageAggregator \<times> TurnUsageRecord option" where
  "Finalize fadd a =
     (if ag_finalized a then (a, ag_finalRec a)
      else
        let a = a\<lparr>ag_finalized := True\<rparr>;
            turn = (case ag_turn a of
                      Some t \<Rightarrow> Some t
                    | None \<Rightarrow>
                        if ag_calls a \<noteq> []
                        then Some (sum_calls fadd
                               (zero_usage\<lparr>u_Source := UsageSourceLLMGateway,
                                  Confidence := UsageConfidenceLow, Partial := True\<rparr>) (ag_calls a))
                        else None)
        in case turn of
             None \<Rightarrow> (a\<lparr>ag_finalRec := None\<rparr>, None)
           | Some turn \<Rightarrow>
               (let turn = turn\<lparr>u_TurnID := ag_turnID a\<rparr>;
                    callSum = sum_calls fadd zero_usage (ag_calls a);
                    turn = (if ag_calls a \<noteq> [] \<and>
                              (InputTokens callSum \<noteq> InputTokens turn \<or>
                               OutputTokens callSum \<noteq> OutputTokens turn)
                            then turn\<lparr>CallsSumMismatch := True\<rparr> else turn);
                    rec = \<lparr>tr_TurnID = ag_turnID a, tr_EndedAt = None, tr_Usage = turn,
                           tr_Calls = ag_calls a\<rparr>
                in (a\<lparr>ag_finalRec := Some rec\<rparr>, Some rec)))"

section \<open>The persisted report\<close>

text \<open>
  The session directory: \<open>usage.json\<close> and the temporary file beside it. A file is absent,
  unreadable, holds text that is no report, or holds the text of a report.
\<close>

datatype usage_file = Absent | Unreadable | BadJson | Report SessionUsageReport

record usage_dir =
  ud_file :: usage_file
  ud_tmp :: usage_file

datatype usage_error = EmptySessionDir | ReadFailed | ParseFailed | SaveFailed

text \<open>Where a write fails: at the directory, the encoding, the temporary file or the rename.\<close>

datatype save_fault = NoFault | MkdirFault | MarshalFault | WriteFault | RenameFault

definition loadUsageReport ::
  "usage_dir \<Rightarrow> string \<Rightarrow> (usage_error, SessionUsageReport) result" where
  "loadUsageReport d sessionID =
     (case ud_file d of
        Absent \<Rightarrow>
          Inr \<lparr>rep_SessionID = sessionID,
               rep_Usage = zero_usage\<lparr>u_Source := UsageSourceDerivedSessionSum,
                 Confidence := UsageConfidenceHigh\<rparr>,
               rep_Turns = []\<rparr>
      | Unreadable \<Rightarrow> Inl ReadFailed
      | BadJson \<Rightarrow> Inl ParseFailed
      | Report rep \<Rightarrow>
          Inr (if rep_SessionID rep = [] then rep\<lparr>rep_SessionID := sessionID\<rparr> else rep))"

definition saveUsageReport ::
  "save_fault \<Rightarrow> usage_dir \<Rightarrow> SessionUsageReport \<Rightarrow> usage_dir \<times> usage_error option" where
  "saveUsageReport fault d rep =
     (case fault of
        NoFault \<Rightarrow> (d\<lparr>ud_file := Report rep, ud_tmp := Absent\<rparr>, None)
      | RenameFault \<Rightarrow> (d\<lparr>ud_tmp := Report rep\<rparr>, Some SaveFailed)
      | WriteFault \<Rightarrow> (d\<lparr>ud_tmp := BadJson\<rparr>, Some SaveFailed)
      | _ \<Rightarrow> (d, Some SaveFailed))"

fun replace_turn :: "TurnUsageRecord \<Rightarrow> TurnUsageRecord list \<Rightarrow> TurnUsageRecord list option" where
  "replace_turn t [] = None"
| "replace_turn t (x # xs) =
     (if tr_TurnID x = tr_TurnID t then Some (t # xs) else map_option (Cons x) (replace_turn t xs))"

definition stamp_turns ::
  "go_time \<Rightarrow> TurnUsageRecord \<Rightarrow> TurnUsageRecord list \<Rightarrow> TurnUsageRecord list" where
  "stamp_turns now t turns =
     map (\<lambda>x. if tr_TurnID x = tr_TurnID t \<and> tr_EndedAt x = None
              then x\<lparr>tr_EndedAt := Some now\<rparr> else x) turns"

definition upsert_turn ::
  "go_time \<Rightarrow> TurnUsageRecord \<Rightarrow> TurnUsageRecord list \<Rightarrow> TurnUsageRecord list" where
  "upsert_turn now t turns =
     (let turns = (case replace_turn t turns of Some ts \<Rightarrow> ts | None \<Rightarrow> turns @ [t])
      in if tr_EndedAt t = None then stamp_turns now t turns else turns)"

definition appendTurnUsage ::
  "fadd \<Rightarrow> go_time \<Rightarrow> save_fault \<Rightarrow> string \<Rightarrow> usage_dir \<Rightarrow> string \<Rightarrow> TurnUsageRecord
   \<Rightarrow> usage_dir \<times> (usage_error, TokenUsage) result" where
  "appendTurnUsage fadd now fault sessionDir d sessionID turn =
     (if sessionDir = [] then (d, Inl EmptySessionDir)
      else case loadUsageReport d sessionID of
        Inl e \<Rightarrow> (d, Inl e)
      | Inr rep \<Rightarrow>
          (let turns = upsert_turn now turn (rep_Turns rep);
               agg = SumTurnUsage fadd turns;
               rep = rep\<lparr>rep_Turns := turns, rep_Usage := agg, rep_SessionID := sessionID\<rparr>
           in case saveUsageReport fault d rep of
                (d', Some e) \<Rightarrow> (d', Inl e)
              | (d', None) \<Rightarrow> (d', Inr agg)))"

section \<open>The gateway's meter\<close>

type_synonym UsageMeter = "(string \<times> TokenUsage list) list"

definition meterKey :: "string \<Rightarrow> string \<Rightarrow> string" where
  "meterKey ternSession turn = ternSession @ ''|'' @ turn"

definition Record :: "UsageMeter \<Rightarrow> string \<Rightarrow> string \<Rightarrow> TokenUsage \<Rightarrow> UsageMeter" where
  "Record m ternSession turn u =
     (if ternSession = [] \<or> turn = [] then m
      else
        let u = (if u_Source u = [] then u\<lparr>u_Source := UsageSourceLLMGateway\<rparr> else u);
            u = (if Confidence u = [] then u\<lparr>Confidence := UsageConfidenceLow\<rparr> else u);
            k = meterKey ternSession turn
        in massign k ((case map_of m k of None \<Rightarrow> [] | Some us \<Rightarrow> us) @ [u]) m)"

definition Take :: "UsageMeter \<Rightarrow> string \<Rightarrow> string \<Rightarrow> UsageMeter \<times> TokenUsage list" where
  "Take m ternSession turn =
     (let k = meterKey ternSession turn
      in (mdelete k m, case map_of m k of None \<Rightarrow> [] | Some us \<Rightarrow> us))"

fun first_meta :: "string \<Rightarrow> string list \<Rightarrow> string" where
  "first_meta pre [] = []"
| "first_meta pre (part # parts) =
     (let part = TrimSpace part;
          part = (if HasPrefix part ''Bearer '' then TrimSpace (TrimPrefix part ''Bearer '') else part)
      in if HasPrefix part pre then TrimPrefix part pre else first_meta pre parts)"

definition ExtractMetaValue :: "string \<Rightarrow> string \<Rightarrow> string" where
  "ExtractMetaValue authHeader key = first_meta (key @ ''='') (SplitByte (CHR '';'') authHeader)"

definition ExtractTernSessionID :: "string \<Rightarrow> string" where
  "ExtractTernSessionID authHeader = ExtractMetaValue authHeader ''tern_sid''"

definition ExtractTurnID :: "string \<Rightarrow> string" where
  "ExtractTurnID authHeader = ExtractMetaValue authHeader ''tid''"

definition MeteringMetaSuffix :: "string \<Rightarrow> string \<Rightarrow> string" where
  "MeteringMetaSuffix ternSessionID turnID =
     (if ternSessionID \<noteq> [] then '';tern_sid='' @ ternSessionID else [])
     @ (if turnID \<noteq> [] then '';tid='' @ turnID else [])"

section \<open>The side effects of a stream event\<close>

text \<open>
  The part of the server that the usage handler reads and writes: the session records (their
  directory and cached usage), the usage directories, and the gateway's meter if there is one.
\<close>

record session_usage =
  su_SessionDir :: string
  su_Usage :: "TokenUsage option"

record usage_server =
  us_sessions :: "(string \<times> session_usage) list"
  us_dirs :: "string \<Rightarrow> usage_dir"
  us_meter :: "UsageMeter option"

text \<open>\<open>upd\<close> tells whether the session store accepts the update (its error is only logged).\<close>

definition persistTurnUsage ::
  "fadd \<Rightarrow> go_time \<Rightarrow> save_fault \<Rightarrow> bool \<Rightarrow> usage_server \<Rightarrow> string \<Rightarrow> TurnUsageRecord \<Rightarrow> usage_server" where
  "persistTurnUsage fadd now fault upd s sessionID rec =
     (case map_of (us_sessions s) sessionID of
        None \<Rightarrow> s
      | Some record \<Rightarrow>
          (let rec = (if tr_EndedAt rec = None then rec\<lparr>tr_EndedAt := Some now\<rparr> else rec);
               dir = su_SessionDir record
           in case appendTurnUsage fadd now fault dir (us_dirs s dir) sessionID rec of
                (d, Inl e) \<Rightarrow> s\<lparr>us_dirs := (us_dirs s)(dir := d)\<rparr>
              | (d, Inr agg) \<Rightarrow>
                  (let s = s\<lparr>us_dirs := (us_dirs s)(dir := d)\<rparr>
                   in if upd then s\<lparr>us_sessions :=
                          massign sessionID (record\<lparr>su_Usage := Some agg\<rparr>) (us_sessions s)\<rparr> else s)))"

definition terminal_event :: "StreamEvent \<Rightarrow> bool" where
  "terminal_event ev \<longleftrightarrow> se_Type ev = EventResult \<or> (se_Type ev = EventError \<and> \<not> se_Retryable ev)"

definition applyUsageSideEffects ::
  "fadd \<Rightarrow> go_time \<Rightarrow> save_fault \<Rightarrow> bool \<Rightarrow> usage_server \<Rightarrow> string \<Rightarrow> string \<Rightarrow> string
   \<Rightarrow> turnUsageAggregator option \<Rightarrow> StreamEvent
   \<Rightarrow> usage_server \<times> turnUsageAggregator \<times> StreamEvent" where
  "applyUsageSideEffects fadd now fault upd s sessionID turnID sessionModel usageAgg ev =
     (let agg = (case usageAgg of None \<Rightarrow> newTurnUsageAggregator turnID | Some a \<Rightarrow> a);
          agg = Observe agg ev
      in if \<not> terminal_event ev then (s, agg, ev)
         else
           let (s, agg) =
                 (case us_meter s of
                    None \<Rightarrow> (s, agg)
                  | Some m \<Rightarrow>
                      let (m', us) = Take m sessionID turnID
                      in (s\<lparr>us_meter := Some m'\<rparr>, MergeCalls agg us));
               (agg, fin) = Finalize fadd agg
           in case fin of
                None \<Rightarrow> (s, agg, ev)
              | Some rec \<Rightarrow>
                  (let rec = rec\<lparr>tr_Usage := ApplyModelAttribution (tr_Usage rec) sessionModel,
                                 tr_Calls := map (\<lambda>c. ApplyModelAttribution c sessionModel) (tr_Calls rec)\<rparr>;
                       ev = (if se_Type ev = EventResult then ev\<lparr>se_Usage := Some (tr_Usage rec)\<rparr> else ev)
                   in (persistTurnUsage fadd now fault upd s sessionID rec, agg, ev)))"

section \<open>Counters\<close>

text \<open>
  Each token counter of a usage is a homomorphism from \<open>AddUsage\<close> to word addition. The laws of
  sums are proved once for any such counter.
\<close>

locale usage_counter =
  fixes add :: "'u \<Rightarrow> 'u \<Rightarrow> 'u" and count :: "'u \<Rightarrow> go_int"
  assumes count_add: "count (add dst src) = count dst + count src"
begin

lemma count_foldl: "count (foldl add u us) = count u + sum_list (map count us)"
  by (induction us arbitrary: u) (simp_all add: count_add add.assoc)

lemma count_any_order:
  assumes "mset us = mset vs"
  shows "count (foldl add u us) = count (foldl add u vs)"
proof -
  have "mset (map count us) = mset (map count vs)" using assms by (simp add: mset_map)
  then have "sum_list (map count us) = sum_list (map count vs)"
    by (metis sum_mset_sum_list)
  then show ?thesis by (simp add: count_foldl)
qed

end

interpretation input_counter: usage_counter "AddUsage fadd" InputTokens for fadd
  by unfold_locales (simp add: AddUsage_def)

interpretation output_counter: usage_counter "AddUsage fadd" OutputTokens for fadd
  by unfold_locales (simp add: AddUsage_def)

interpretation cached_counter: usage_counter "AddUsage fadd" CachedInputTokens for fadd
  by unfold_locales (simp add: AddUsage_def)

interpretation creation_counter: usage_counter "AddUsage fadd" CacheCreationInputTokens for fadd
  by unfold_locales (simp add: AddUsage_def)

interpretation reasoning_counter: usage_counter "AddUsage fadd" ReasoningOutputTokens for fadd
  by unfold_locales (simp add: AddUsage_def)

lemma AddUsage_identity [simp]:
  "u_Source (AddUsage fadd d s) = u_Source d" "Confidence (AddUsage fadd d s) = Confidence d"
  "Partial (AddUsage fadd d s) = Partial d" "u_TurnID (AddUsage fadd d s) = u_TurnID d"
  "CallsSumMismatch (AddUsage fadd d s) = CallsSumMismatch d" "CallID (AddUsage fadd d s) = CallID d"
  by (simp_all add: AddUsage_def)

lemma sum_calls_identity [simp]:
  "u_Source (sum_calls fadd u cs) = u_Source u" "Confidence (sum_calls fadd u cs) = Confidence u"
  "Partial (sum_calls fadd u cs) = Partial u" "CallsSumMismatch (sum_calls fadd u cs) = CallsSumMismatch u"
  by (induction cs arbitrary: u) (simp_all add: sum_calls_def)

lemma sum_calls_tokens:
  "InputTokens (sum_calls fadd u cs) = InputTokens u + sum_list (map InputTokens cs)"
  "OutputTokens (sum_calls fadd u cs) = OutputTokens u + sum_list (map OutputTokens cs)"
  by (simp_all add: sum_calls_def input_counter.count_foldl output_counter.count_foldl)

lemma SumTurnUsage_foldl:
  "SumTurnUsage fadd turns = foldl (AddUsage fadd)
     (zero_usage\<lparr>u_Source := UsageSourceDerivedSessionSum, Confidence := UsageConfidenceHigh\<rparr>)
     (map tr_Usage turns)"
  by (simp add: SumTurnUsage_def foldl_map)

section \<open>Properties of sums and filters\<close>

text \<open>
  The session aggregate: every token counter of \<open>SumTurnUsage\<close> is the sum of the turns'
  counters (modulo \<open>2 ^ 64\<close>, as the machine adds), in whatever order the turns are listed, and the
  aggregate is marked as derived.
\<close>

theorem SumTurnUsage_counters:
  "InputTokens (SumTurnUsage fadd turns) = sum_list (map (InputTokens \<circ> tr_Usage) turns) \<and>
   OutputTokens (SumTurnUsage fadd turns) = sum_list (map (OutputTokens \<circ> tr_Usage) turns) \<and>
   CachedInputTokens (SumTurnUsage fadd turns) = sum_list (map (CachedInputTokens \<circ> tr_Usage) turns) \<and>
   CacheCreationInputTokens (SumTurnUsage fadd turns)
     = sum_list (map (CacheCreationInputTokens \<circ> tr_Usage) turns) \<and>
   ReasoningOutputTokens (SumTurnUsage fadd turns)
     = sum_list (map (ReasoningOutputTokens \<circ> tr_Usage) turns)"
  by (simp add: SumTurnUsage_foldl zero_usage_def input_counter.count_foldl output_counter.count_foldl
      cached_counter.count_foldl creation_counter.count_foldl reasoning_counter.count_foldl comp_def)

lemma subseq_drop: "subseq (drop n xs) xs"
  by (metis append_take_drop_id subseq_drop_many subseq_order.refl)

lemma subseq_take: "subseq (take n xs) xs"
  by (metis append_take_drop_id subseq_rev_drop_many subseq_order.refl)

lemma subseq_filterTurnIDRange: "subseq (filterTurnIDRange turns f t) turns"
  by (auto simp: filterTurnIDRange_def split: option.splits
      intro: subseq_order.trans [OF subseq_take subseq_drop])

text \<open>
  The filter of the usage endpoint returns a subsequence of the turns (append order kept,
  nothing invented), at most \<open>LastN\<close> of them when that is set, only turns inside the time window
  when one is given, and everything when the query is empty.
\<close>

theorem FilterTurnUsage_sound:
  "subseq (FilterTurnUsage turns q) turns \<and>
   (0 < q_LastN q \<longrightarrow> int (length (FilterTurnUsage turns q)) \<le> q_LastN q) \<and>
   (q_Since q \<noteq> None \<or> q_Until q \<noteq> None \<longrightarrow>
      list_all (in_window (q_Since q) (q_Until q)) (FilterTurnUsage turns q)) \<and>
   (UsageQuery_Empty q \<longrightarrow> FilterTurnUsage turns q = turns)"
proof -
  define after where "after = (if q_AfterTurnID q \<noteq> []
    then (case indexOfTurn turns (q_AfterTurnID q) of None \<Rightarrow> [] | Some idx \<Rightarrow> drop (idx + 1) turns)
    else turns)"
  define ranged where "ranged = (if q_FromTurnID q \<noteq> [] \<or> q_ToTurnID q \<noteq> []
    then filterTurnIDRange after (q_FromTurnID q) (q_ToTurnID q) else after)"
  define timed where "timed = (if q_Since q \<noteq> None \<or> q_Until q \<noteq> None
    then filter (in_window (q_Since q) (q_Until q)) ranged else ranged)"
  have out: "FilterTurnUsage turns q = (if UsageQuery_Empty q \<or> length turns = 0 then turns
      else if 0 < q_LastN q \<and> q_LastN q < int (length timed)
      then drop (length timed - nat (q_LastN q)) timed else timed)"
    by (simp only: FilterTurnUsage_def Let_def after_def ranged_def timed_def)
  have "subseq after turns" by (auto simp: after_def subseq_drop split: option.splits)
  moreover have "subseq ranged after" by (auto simp: ranged_def subseq_filterTurnIDRange)
  moreover have "subseq timed ranged" by (auto simp: timed_def subseq_filter_left)
  ultimately have "subseq timed turns" by (blast intro: subseq_order.trans)
  then have sub: "subseq (FilterTurnUsage turns q) turns"
    unfolding out by (auto intro: subseq_order.trans [OF subseq_drop])
  have "list_all (in_window (q_Since q) (q_Until q)) timed" if "q_Since q \<noteq> None \<or> q_Until q \<noteq> None"
    using that by (simp add: timed_def list_all_iff)
  then have win: "q_Since q \<noteq> None \<or> q_Until q \<noteq> None \<longrightarrow>
      list_all (in_window (q_Since q) (q_Until q)) (FilterTurnUsage turns q)"
    unfolding out by (auto simp: UsageQuery_Empty_def list_all_iff dest: in_set_dropD)
  have "0 < q_LastN q \<longrightarrow> int (length (FilterTurnUsage turns q)) \<le> q_LastN q"
    unfolding out by (auto simp: UsageQuery_Empty_def)
  with sub win show ?thesis unfolding out by simp
qed

theorem FilterTurnUsage_sound_witness:
  "let t = (\<lambda>i n. \<lparr>tr_TurnID = i, tr_EndedAt = Some n, tr_Usage = zero_usage, tr_Calls = []\<rparr>);
       q = \<lparr>q_LastN = 1, q_AfterTurnID = [], q_FromTurnID = [], q_ToTurnID = [],
            q_Since = Some 2, q_Until = None\<rparr>
   in length (FilterTurnUsage [t ''a'' 1, t ''b'' 2, t ''c'' 3] q) \<le> 1"
  using FilterTurnUsage_sound
    [of "[\<lparr>tr_TurnID = ''a'', tr_EndedAt = Some 1, tr_Usage = zero_usage, tr_Calls = []\<rparr>,
          \<lparr>tr_TurnID = ''b'', tr_EndedAt = Some 2, tr_Usage = zero_usage, tr_Calls = []\<rparr>,
          \<lparr>tr_TurnID = ''c'', tr_EndedAt = Some 3, tr_Usage = zero_usage, tr_Calls = []\<rparr>]"
        "\<lparr>q_LastN = 1, q_AfterTurnID = [], q_FromTurnID = [], q_ToTurnID = [],
          q_Since = Some 2, q_Until = None\<rparr>"]
  by (simp add: Let_def)

section \<open>What the aggregator selects\<close>

text \<open>
  The reference: the per-call usages of a turn are the first usage of every call id, in the order
  they arrive. The turn's own usage is the last authoritative one, or else the first fallback.
\<close>

definition usages :: "StreamEvent list \<Rightarrow> (string \<times> TokenUsage) list" where
  "usages evs = List.map_filter (\<lambda>ev. map_option (Pair (se_Type ev)) (se_Usage ev)) evs"

fun first_by_id :: "string set \<Rightarrow> TokenUsage list \<Rightarrow> TokenUsage list" where
  "first_by_id seen [] = []"
| "first_by_id seen (u # us) =
     (if CallID u \<in> seen then first_by_id seen us
      else u # first_by_id (insert (CallID u) seen) us)"

definition authoritative :: "string \<times> TokenUsage \<Rightarrow> bool" where
  "authoritative tu \<longleftrightarrow> CallID (snd tu) = [] \<and> fst tu = EventResult \<and>
     (u_Source (snd tu) = UsageSourceClaudeResult \<or> u_Source (snd tu) = UsageSourceCodexTurnCompleted)"

definition fallback :: "string \<times> TokenUsage \<Rightarrow> bool" where
  "fallback tu \<longleftrightarrow> CallID (snd tu) = [] \<and> \<not> authoritative tu \<and>
     (fst tu = EventResult \<or> u_Source (snd tu) = UsageSourceCodexTokenCount)"

definition select_turn ::
  "TokenUsage option \<Rightarrow> (string \<times> TokenUsage) list \<Rightarrow> TokenUsage option" where
  "select_turn cur tus =
     (if filter authoritative tus \<noteq> [] then Some (snd (last (filter authoritative tus)))
      else if cur \<noteq> None then cur
      else map_option snd (find fallback tus))"

lemma usages_Cons [simp]:
  "usages (ev # evs) = (case se_Usage ev of None \<Rightarrow> usages evs | Some u \<Rightarrow> (se_Type ev, u) # usages evs)"
  by (simp add: usages_def map_filter_simps split: option.split)

lemma usages_Nil [simp]: "usages [] = []"
  by (simp add: usages_def map_filter_simps)

lemma Observe_turn: "ag_turn (Observe a ev) = select_turn (ag_turn a) (usages [ev])"
proof (cases "se_Usage ev")
  case (Some u)
  have "EventResult \<noteq> [] \<and> UsageSourceClaudeResult \<noteq> UsageSourceCodexTokenCount
    \<and> UsageSourceCodexTurnCompleted \<noteq> UsageSourceCodexTokenCount"
    by simp
  with Some show ?thesis
    by (cases "ag_turn a") (auto simp: Observe_def select_turn_def authoritative_def fallback_def)
qed (simp add: Observe_def select_turn_def)

lemma select_turn_step: "select_turn (select_turn cur [x]) xs = select_turn cur (x # xs)"
  by (cases x) (auto simp: select_turn_def fallback_def)

lemma foldl_Observe_turn: "ag_turn (foldl Observe a evs) = select_turn (ag_turn a) (usages evs)"
proof (induction evs arbitrary: a)
  case (Cons ev evs)
  then show ?case
    by (cases "se_Usage ev")
      (simp_all add: Observe_turn select_turn_step, simp add: select_turn_def)
qed (simp add: select_turn_def)

abbreviation call_usages :: "StreamEvent list \<Rightarrow> TokenUsage list" where
  "call_usages evs \<equiv> filter (\<lambda>u. CallID u \<noteq> []) (map snd (usages evs))"

lemma foldl_Observe_calls:
  "ag_calls (foldl Observe a evs) = ag_calls a @ first_by_id (ag_seenCall a) (call_usages evs)"
proof (induction evs arbitrary: a)
  case (Cons ev evs)
  then show ?case by (auto simp: Observe_def split: option.split)
qed simp

text \<open>
  What a turn's aggregator keeps of the event stream, whatever the events: the per-call usages
  are the first usage seen for each call id in arrival order (a repeated call is not counted
  twice), and the turn usage is the last authoritative result of the agent if there is one, else
  the first fallback usage.
\<close>

theorem Observe_selects:
  "ag_calls (foldl Observe (newTurnUsageAggregator t) evs) = first_by_id {} (call_usages evs) \<and>
   ag_turn (foldl Observe (newTurnUsageAggregator t) evs) = select_turn None (usages evs)"
  by (simp add: foldl_Observe_calls foldl_Observe_turn newTurnUsageAggregator_def)

section \<open>The aggregator's invariant\<close>

definition agg_inv :: "turnUsageAggregator \<Rightarrow> bool" where
  "agg_inv a \<longleftrightarrow> distinct (map CallID (ag_calls a)) \<and> CallID ` set (ag_calls a) = ag_seenCall a
     \<and> [] \<notin> ag_seenCall a"

inductive agg_reach :: "string \<Rightarrow> turnUsageAggregator \<Rightarrow> bool" for t where
  agg_new: "agg_reach t (newTurnUsageAggregator t)"
| agg_observe: "agg_reach t a \<Longrightarrow> agg_reach t (Observe a ev)"
| agg_merge: "agg_reach t a \<Longrightarrow> agg_reach t (MergeCalls a us)"
| agg_finalize: "agg_reach t a \<Longrightarrow> agg_reach t (fst (Finalize fadd a))"

lemma merge_calls_inv: "agg_inv a \<Longrightarrow> agg_inv (merge_calls i us a)"
proof (induction i us a rule: merge_calls.induct)
  case (2 i u us a)
  then show ?case by (auto simp: agg_inv_def Let_def)
qed simp

lemma Observe_inv: "agg_inv a \<Longrightarrow> agg_inv (Observe a ev)"
  by (auto simp: agg_inv_def Observe_def split: option.splits)

lemma Finalize_calls [simp]:
  "ag_calls (fst (Finalize fadd a)) = ag_calls a" "ag_seenCall (fst (Finalize fadd a)) = ag_seenCall a"
  by (simp_all add: Finalize_def Let_def split: option.split)

text \<open>
  In every state an aggregator can reach, no two recorded calls have the same id, no recorded
  call lacks one, and the set of seen ids is exactly the set of recorded ids.
\<close>

theorem aggregator_invariant: "agg_reach t a \<Longrightarrow> agg_inv a"
proof (induction rule: agg_reach.induct)
  case (agg_finalize a fadd)
  then show ?case by (simp add: agg_inv_def)
qed (simp_all add: Observe_inv merge_calls_inv MergeCalls_def, simp add: agg_inv_def newTurnUsageAggregator_def)

theorem aggregator_invariant_witness:
  "agg_inv (MergeCalls (newTurnUsageAggregator ''t'') [zero_usage, zero_usage])"
  by (rule aggregator_invariant [of "''t''"]) (intro agg_merge agg_new)

lemma merge_calls_anonymous:
  assumes "\<forall>u \<in> set us. CallID u = []"
    and "\<forall>k. ''gw-'' @ Itoa (int k) \<in> ag_seenCall a \<longrightarrow> k < length (ag_calls a) + i"
  shows "map (CallID_update (\<lambda>_. [])) (ag_calls (merge_calls i us a))
    = map (CallID_update (\<lambda>_. [])) (ag_calls a) @ us"
  using assms
proof (induction i us a rule: merge_calls.induct)
  case (2 i u us a)
  let ?cid = "''gw-'' @ Itoa (int (length (ag_calls a) + i))"
  have fresh: "?cid \<notin> ag_seenCall a" using "2.prems"(2) by blast
  let ?a = "a\<lparr>ag_seenCall := insert ?cid (ag_seenCall a), ag_calls := ag_calls a @ [u\<lparr>CallID := ?cid\<rparr>]\<rparr>"
  have "\<forall>k. ''gw-'' @ Itoa (int k) \<in> ag_seenCall ?a \<longrightarrow> k < length (ag_calls ?a) + Suc i"
    using "2.prems"(2) Itoa_nat_inj [of _ "length (ag_calls a) + i"] by fastforce
  moreover have "u\<lparr>CallID := []\<rparr> = u" using "2.prems"(1) by simp
  ultimately show ?case using 2 fresh by (simp add: Let_def)
qed simp

text \<open>
  The gateway's metered calls carry no call id. Merging them into a turn that has seen no
  \<open>gw-\<close> id loses none and merges no two: the calls after the merge are the calls before it
  followed by the metered ones, each with a fresh id of its own.
\<close>

theorem MergeCalls_keeps_all:
  assumes "\<forall>u \<in> set us. CallID u = []" and "\<forall>c \<in> ag_seenCall a. \<not> HasPrefix c ''gw-''"
  shows "map (CallID_update (\<lambda>_. [])) (ag_calls (MergeCalls a us))
    = map (CallID_update (\<lambda>_. [])) (ag_calls a) @ us"
proof -
  have "''gw-'' @ Itoa (int k) \<notin> ag_seenCall a" for k
    using assms(2) HasPrefix_append by blast
  then show ?thesis unfolding MergeCalls_def by (intro merge_calls_anonymous assms(1)) simp
qed

theorem MergeCalls_keeps_all_witness:
  "length (ag_calls (MergeCalls (newTurnUsageAggregator ''t'') [zero_usage, zero_usage])) = 2"
proof -
  have "map (CallID_update (\<lambda>_. [])) (ag_calls (MergeCalls (newTurnUsageAggregator ''t'') [zero_usage, zero_usage]))
     = [zero_usage, zero_usage]"
    using MergeCalls_keeps_all [of "[zero_usage, zero_usage]" "newTurnUsageAggregator ''t''"]
    by (simp add: newTurnUsageAggregator_def zero_usage_def)
  from arg_cong [OF this, of length] show ?thesis by simp
qed

section \<open>Finalizing a turn\<close>

text \<open>The record a turn with usage \<open>turn\<close> is finalized to.\<close>

definition turn_record :: "fadd \<Rightarrow> turnUsageAggregator \<Rightarrow> TokenUsage \<Rightarrow> TurnUsageRecord" where
  "turn_record fadd a turn =
     (let turn = turn\<lparr>u_TurnID := ag_turnID a\<rparr>;
          callSum = sum_calls fadd zero_usage (ag_calls a)
      in \<lparr>tr_TurnID = ag_turnID a, tr_EndedAt = None,
          tr_Usage = (if ag_calls a \<noteq> [] \<and>
                         (InputTokens callSum \<noteq> InputTokens turn \<or>
                          OutputTokens callSum \<noteq> OutputTokens turn)
                      then turn\<lparr>CallsSumMismatch := True\<rparr> else turn),
          tr_Calls = ag_calls a\<rparr>)"

definition calls_usage :: "fadd \<Rightarrow> TokenUsage list \<Rightarrow> TokenUsage" where
  "calls_usage fadd calls =
     sum_calls fadd (zero_usage\<lparr>u_Source := UsageSourceLLMGateway, Confidence := UsageConfidenceLow,
       Partial := True\<rparr>) calls"

lemma Finalize_open:
  assumes "\<not> ag_finalized a"
  shows "Finalize fadd a =
    (let r = (case ag_turn a of
                Some t \<Rightarrow> Some (turn_record fadd a t)
              | None \<Rightarrow> if ag_calls a = [] then None
                        else Some (turn_record fadd a (calls_usage fadd (ag_calls a))))
     in (a\<lparr>ag_finalized := True, ag_finalRec := r\<rparr>, r))"
  using assms
  by (cases "ag_turn a"; cases "ag_calls a = []")
    (simp_all add: Finalize_def turn_record_def calls_usage_def Let_def)

lemma turn_record_fields [simp]:
  "tr_TurnID (turn_record fadd a t) = ag_turnID a" "tr_Calls (turn_record fadd a t) = ag_calls a"
  "u_TurnID (tr_Usage (turn_record fadd a t)) = ag_turnID a"
  "InputTokens (tr_Usage (turn_record fadd a t)) = InputTokens t"
  "OutputTokens (tr_Usage (turn_record fadd a t)) = OutputTokens t"
  "Partial (tr_Usage (turn_record fadd a t)) = Partial t"
  by (simp_all add: turn_record_def Let_def)

lemma calls_usage_fields [simp]:
  "InputTokens (calls_usage fadd cs) = sum_list (map InputTokens cs)"
  "OutputTokens (calls_usage fadd cs) = sum_list (map OutputTokens cs)"
  "Partial (calls_usage fadd cs)" "\<not> CallsSumMismatch (calls_usage fadd cs)"
  by (simp_all add: calls_usage_def sum_calls_tokens) (simp_all add: zero_usage_def)

lemma turn_record_calls_usage:
  "\<not> CallsSumMismatch (tr_Usage (turn_record fadd a (calls_usage fadd (ag_calls a))))"
  by (simp add: turn_record_def Let_def sum_calls_tokens) (simp add: zero_usage_def)

text \<open>
  Finalizing is idempotent: a second call returns the record of the first and changes nothing.
  A turn yields a record iff it has a usage of its own or a recorded call; the record carries
  every call, and when the turn has no usage of its own its tokens are the sums over the calls and
  it is marked partial and not mismatched.
\<close>

theorem Finalize_spec:
  assumes "\<not> ag_finalized a" and "Finalize fadd a = (a', r)"
  shows "Finalize fadd a' = (a', r) \<and>
    (r = None \<longleftrightarrow> ag_turn a = None \<and> ag_calls a = []) \<and>
    (\<forall>rec. r = Some rec \<longrightarrow>
       tr_TurnID rec = ag_turnID a \<and> tr_Calls rec = ag_calls a \<and> u_TurnID (tr_Usage rec) = ag_turnID a \<and>
       (ag_turn a = None \<longrightarrow>
         InputTokens (tr_Usage rec) = sum_list (map InputTokens (ag_calls a)) \<and>
         OutputTokens (tr_Usage rec) = sum_list (map OutputTokens (ag_calls a)) \<and>
         Partial (tr_Usage rec) \<and> \<not> CallsSumMismatch (tr_Usage rec)))"
proof -
  from assms have a': "a' = a\<lparr>ag_finalized := True, ag_finalRec := r\<rparr>"
    by (auto simp: Finalize_open Let_def)
  then have "Finalize fadd a' = (a', r)" by (simp add: Finalize_def)
  moreover from assms have "r = (case ag_turn a of Some t \<Rightarrow> Some (turn_record fadd a t)
      | None \<Rightarrow> if ag_calls a = [] then None
                else Some (turn_record fadd a (calls_usage fadd (ag_calls a))))"
    by (auto simp: Finalize_open Let_def)
  ultimately show ?thesis by (auto simp: turn_record_calls_usage split: option.splits if_splits)
qed

theorem Finalize_spec_witness:
  "let a = (newTurnUsageAggregator ''t'')\<lparr>ag_calls := [zero_usage\<lparr>InputTokens := 7, CallID := ''c''\<rparr>]\<rparr>;
       (a', r) = Finalize (+) a
   in Finalize (+) a' = (a', r) \<and> map_option (InputTokens \<circ> tr_Usage) r = Some 7"
proof -
  let ?a = "(newTurnUsageAggregator ''t'')\<lparr>ag_calls := [zero_usage\<lparr>InputTokens := 7, CallID := ''c''\<rparr>]\<rparr>"
  obtain a' r where fin: "Finalize (+) ?a = (a', r)" by (cases "Finalize (+) ?a")
  have unfin: "\<not> ag_finalized ?a" "ag_turn ?a = None" by (simp_all add: newTurnUsageAggregator_def)
  note spec = Finalize_spec [OF unfin(1) fin]
  then have "r \<noteq> None" by simp
  then obtain rec where "r = Some rec" by blast
  with spec unfin(2) show ?thesis by (simp add: fin Let_def)
qed

section \<open>The persisted report\<close>

definition turn_ids :: "TurnUsageRecord list \<Rightarrow> string list" where
  "turn_ids ts = map tr_TurnID ts"

lemma replace_turn_None_iff: "replace_turn t ts = None \<longleftrightarrow> tr_TurnID t \<notin> set (turn_ids ts)"
  by (induction ts) (auto simp: turn_ids_def)

lemma replace_turn_ids: "replace_turn t ts = Some ts' \<Longrightarrow> turn_ids ts' = turn_ids ts"
  by (induction ts arbitrary: ts') (auto simp: turn_ids_def split: if_splits)

lemma stamp_turns_ids: "turn_ids (stamp_turns now t ts) = turn_ids ts"
  by (auto simp: turn_ids_def stamp_turns_def)

lemma upsert_turn_ids:
  "turn_ids (upsert_turn now t ts)
    = (if tr_TurnID t \<in> set (turn_ids ts) then turn_ids ts else turn_ids ts @ [tr_TurnID t])"
proof (cases "replace_turn t ts")
  case None
  then show ?thesis
    using replace_turn_None_iff [of t ts]
    by (simp add: upsert_turn_def Let_def stamp_turns_ids) (simp add: turn_ids_def)
next
  case (Some ts')
  then have "tr_TurnID t \<in> set (turn_ids ts)" using replace_turn_None_iff [of t ts] by auto
  with Some show ?thesis by (simp add: upsert_turn_def Let_def stamp_turns_ids replace_turn_ids)
qed

lemma replace_turn_others:
  "replace_turn t ts = Some ts' \<Longrightarrow> i \<noteq> tr_TurnID t \<Longrightarrow>
   filter (\<lambda>x. tr_TurnID x = i) ts' = filter (\<lambda>x. tr_TurnID x = i) ts"
  by (induction ts arbitrary: ts') (auto split: if_splits)

lemma stamp_turns_others:
  "i \<noteq> tr_TurnID t \<Longrightarrow>
   filter (\<lambda>x. tr_TurnID x = i) (stamp_turns now t ts) = filter (\<lambda>x. tr_TurnID x = i) ts"
  by (induction ts) (auto simp: stamp_turns_def)

lemma upsert_turn_others:
  "i \<noteq> tr_TurnID t \<Longrightarrow>
   filter (\<lambda>x. tr_TurnID x = i) (upsert_turn now t ts) = filter (\<lambda>x. tr_TurnID x = i) ts"
  by (auto simp: upsert_turn_def Let_def stamp_turns_others replace_turn_others split: option.split)

definition stamped :: "go_time \<Rightarrow> TurnUsageRecord \<Rightarrow> TurnUsageRecord" where
  "stamped now t = (if tr_EndedAt t = None then t\<lparr>tr_EndedAt := Some now\<rparr> else t)"

lemma filter_no_id: "i \<notin> set (turn_ids ts) \<Longrightarrow> filter (\<lambda>x. tr_TurnID x = i) ts = []"
  by (auto simp: turn_ids_def filter_empty_conv)

lemma replace_turn_self:
  "distinct (turn_ids ts) \<Longrightarrow> replace_turn t ts = Some ts' \<Longrightarrow>
   filter (\<lambda>x. tr_TurnID x = tr_TurnID t) ts' = [t]"
proof (induction ts arbitrary: ts')
  case (Cons x ts)
  show ?case
  proof (cases "tr_TurnID x = tr_TurnID t")
    case True
    with Cons.prems have "ts' = t # ts" "tr_TurnID t \<notin> set (turn_ids ts)"
      by (simp_all add: turn_ids_def)
    then show ?thesis by (simp add: filter_no_id)
  next
    case False
    with Cons.prems obtain us where "replace_turn t ts = Some us" "ts' = x # us" by auto
    with Cons.IH Cons.prems(1) False show ?thesis by (simp add: turn_ids_def)
  qed
qed simp

lemma filter_stamp_turns:
  "filter (\<lambda>x. tr_TurnID x = tr_TurnID t) (stamp_turns now t ts)
    = map (stamped now) (filter (\<lambda>x. tr_TurnID x = tr_TurnID t) ts)"
  by (induction ts) (auto simp: stamp_turns_def stamped_def)

lemma upsert_turn_self:
  assumes "distinct (turn_ids ts)"
  shows "filter (\<lambda>x. tr_TurnID x = tr_TurnID t) (upsert_turn now t ts) = [stamped now t]"
proof (cases "replace_turn t ts")
  case None
  then have "tr_TurnID t \<notin> set (turn_ids ts)" using replace_turn_None_iff by blast
  with None show ?thesis
    by (simp add: upsert_turn_def Let_def filter_stamp_turns filter_no_id stamped_def)
next
  case (Some ts')
  then show ?thesis
    using replace_turn_self [OF assms Some]
    by (simp add: upsert_turn_def Let_def filter_stamp_turns stamped_def)
qed

text \<open>The turns of a readable usage file.\<close>

definition stored_turns :: "usage_dir \<Rightarrow> TurnUsageRecord list" where
  "stored_turns d = (case ud_file d of Report rep \<Rightarrow> rep_Turns rep | _ \<Rightarrow> [])"

definition readable :: "usage_dir \<Rightarrow> bool" where
  "readable d \<longleftrightarrow> (case ud_file d of Absent \<Rightarrow> True | Report _ \<Rightarrow> True | _ \<Rightarrow> False)"

lemma appendTurnUsage_ok:
  assumes "dir \<noteq> []" "readable d"
  shows "\<exists>rep. appendTurnUsage fadd now NoFault dir d sid t
      = (d\<lparr>ud_file := Report rep, ud_tmp := Absent\<rparr>, Inr (SumTurnUsage fadd (rep_Turns rep)))
    \<and> rep_Turns rep = upsert_turn now t (stored_turns d) \<and> rep_SessionID rep = sid
    \<and> rep_Usage rep = SumTurnUsage fadd (rep_Turns rep)"
  using assms
  by (cases "ud_file d")
    (auto simp: appendTurnUsage_def loadUsageReport_def saveUsageReport_def readable_def
      stored_turns_def Let_def)

text \<open>
  Appending a turn's usage to a readable report succeeds and stores the turn exactly once,
  stamped with the end time: an earlier record of the same turn is replaced, the records of all
  other turns are kept, turn ids stay distinct, and the aggregate that is stored and returned is
  the sum over the turns that are then stored.
\<close>

theorem appendTurnUsage_stores:
  assumes "dir \<noteq> []" "readable d" "distinct (turn_ids (stored_turns d))"
    and "appendTurnUsage fadd now NoFault dir d sid t = (d', res)"
  shows "res = Inr (SumTurnUsage fadd (stored_turns d')) \<and>
    filter (\<lambda>x. tr_TurnID x = tr_TurnID t) (stored_turns d') = [stamped now t] \<and>
    (\<forall>i. i \<noteq> tr_TurnID t \<longrightarrow>
      filter (\<lambda>x. tr_TurnID x = i) (stored_turns d') = filter (\<lambda>x. tr_TurnID x = i) (stored_turns d)) \<and>
    distinct (turn_ids (stored_turns d')) \<and> readable d'"
proof -
  from appendTurnUsage_ok [OF assms(1,2), of fadd now sid t] assms(4) obtain rep where
    d': "d' = d\<lparr>ud_file := Report rep, ud_tmp := Absent\<rparr>"
      "res = Inr (SumTurnUsage fadd (rep_Turns rep))" "rep_Turns rep = upsert_turn now t (stored_turns d)"
    by auto
  then have turns: "stored_turns d' = upsert_turn now t (stored_turns d)"
    by (simp add: stored_turns_def [of "d\<lparr>ud_file := Report rep, ud_tmp := Absent\<rparr>"])
  have "distinct (turn_ids (stored_turns d')) \<and> readable d'"
    using assms(3) d'(1) turns by (simp add: upsert_turn_ids readable_def)
  then show ?thesis
    using d' turns by (simp add: upsert_turn_self [OF assms(3)] upsert_turn_others)
qed

theorem appendTurnUsage_stores_witness:
  "let d = \<lparr>ud_file = Absent, ud_tmp = Absent\<rparr>;
       t = \<lparr>tr_TurnID = ''t1'', tr_EndedAt = None, tr_Usage = zero_usage, tr_Calls = []\<rparr>
   in filter (\<lambda>x. tr_TurnID x = ''t1'')
        (stored_turns (fst (appendTurnUsage (+) 5 NoFault ''dir'' d ''s'' t))) = [stamped 5 t]"
  using appendTurnUsage_stores
    [of "''dir''" "\<lparr>ud_file = Absent, ud_tmp = Absent\<rparr>" "(+)" 5 "''s''"
      "\<lparr>tr_TurnID = ''t1'', tr_EndedAt = None, tr_Usage = zero_usage, tr_Calls = []\<rparr>",
      OF _ _ _ prod.collapse [symmetric]]
  by (simp add: readable_def stored_turns_def [of "\<lparr>ud_file = Absent, ud_tmp = Absent\<rparr>"] turn_ids_def)

text \<open>
  C34. Whatever goes wrong while a turn is appended (no directory, an unreadable or malformed
  report, a failing directory, encoding, write or rename), the report on disk is the one that was
  there before: an error never destroys stored usage.
\<close>

theorem appendTurnUsage_error_keeps_report:
  "appendTurnUsage fadd now fault dir d sid t = (d', Inl e) \<Longrightarrow> ud_file d' = ud_file d"
  by (auto simp: appendTurnUsage_def loadUsageReport_def saveUsageReport_def Let_def
      split: if_splits sum.splits usage_file.splits save_fault.splits)

theorem appendTurnUsage_error_keeps_report_witness:
  "let d = \<lparr>ud_file = Report \<lparr>rep_SessionID = ''s'', rep_Usage = zero_usage, rep_Turns = []\<rparr>, ud_tmp = Absent\<rparr>;
       t = \<lparr>tr_TurnID = ''t1'', tr_EndedAt = None, tr_Usage = zero_usage, tr_Calls = []\<rparr>
   in ud_file (fst (appendTurnUsage (+) 5 RenameFault ''dir'' d ''s'' t)) = ud_file d"
proof -
  let ?d = "\<lparr>ud_file = Report \<lparr>rep_SessionID = ''s'', rep_Usage = zero_usage, rep_Turns = []\<rparr>, ud_tmp = Absent\<rparr>"
  let ?t = "\<lparr>tr_TurnID = ''t1'', tr_EndedAt = None, tr_Usage = zero_usage, tr_Calls = []\<rparr>"
  have "snd (appendTurnUsage (+) 5 RenameFault ''dir'' ?d ''s'' ?t) = Inl SaveFailed"
    by (simp add: appendTurnUsage_def loadUsageReport_def saveUsageReport_def Let_def)
  then have "appendTurnUsage (+) 5 RenameFault ''dir'' ?d ''s'' ?t
      = (fst (appendTurnUsage (+) 5 RenameFault ''dir'' ?d ''s'' ?t), Inl SaveFailed)"
    by (metis prod.collapse)
  from appendTurnUsage_error_keeps_report [OF this] show ?thesis by (simp only: Let_def)
qed

section \<open>The meter as an interface\<close>

text \<open>
  What the usage handler needs of a meter: calls recorded under a key are taken under the same key,
  in order, once, and recording or taking under another key does not disturb them.
\<close>

locale call_meter =
  fixes record_call :: "'m \<Rightarrow> 'k \<Rightarrow> 'u \<Rightarrow> 'm" and take_calls :: "'m \<Rightarrow> 'k \<Rightarrow> 'm \<times> 'u list"
    and norm :: "'u \<Rightarrow> 'u" and valid :: "'k \<Rightarrow> bool" and inv :: "'m \<Rightarrow> bool"
  assumes record_inv: "inv m \<Longrightarrow> inv (record_call m k u)"
    and take_inv: "inv m \<Longrightarrow> inv (fst (take_calls m k))"
    and record_same: "inv m \<Longrightarrow> valid k \<Longrightarrow>
      snd (take_calls (record_call m k u) k) = snd (take_calls m k) @ [norm u]"
    and record_other: "inv m \<Longrightarrow> valid k \<Longrightarrow> valid k' \<Longrightarrow> k \<noteq> k' \<Longrightarrow>
      snd (take_calls (record_call m k u) k') = snd (take_calls m k')"
    and take_same: "inv m \<Longrightarrow> snd (take_calls (fst (take_calls m k)) k) = []"
    and take_other: "inv m \<Longrightarrow> valid k \<Longrightarrow> valid k' \<Longrightarrow> k \<noteq> k' \<Longrightarrow>
      snd (take_calls (fst (take_calls m k)) k') = snd (take_calls m k')"
begin

definition record_all :: "'m \<Rightarrow> ('k \<times> 'u) list \<Rightarrow> 'm" where
  "record_all m kus = foldl (\<lambda>m (k, u). record_call m k u) m kus"

lemma record_all_inv: "inv m \<Longrightarrow> inv (record_all m kus)"
  by (induction kus arbitrary: m) (auto simp: record_all_def record_inv)

lemma take_after_records:
  assumes "inv m" "\<forall>(k', u) \<in> set kus. valid k'" "valid k"
  shows "snd (take_calls (record_all m kus) k)
    = snd (take_calls m k) @ map (norm \<circ> snd) (filter (\<lambda>ku. fst ku = k) kus)"
  using assms
proof (induction kus arbitrary: m)
  case (Cons ku kus)
  obtain k' u where ku: "ku = (k', u)" by (cases ku)
  have "snd (take_calls (record_all (record_call m k' u) kus) k)
      = snd (take_calls (record_call m k' u) k) @ map (norm \<circ> snd) (filter (\<lambda>ku. fst ku = k) kus)"
    using Cons by (auto simp: record_inv)
  moreover have "record_all m (ku # kus) = record_all (record_call m k' u) kus"
    by (simp add: record_all_def ku)
  ultimately show ?case
    using Cons.prems ku by (cases "k' = k") (auto simp: record_same record_other)
qed (simp add: record_all_def)

end

definition normUsage :: "TokenUsage \<Rightarrow> TokenUsage" where
  "normUsage u =
     (let u = (if u_Source u = [] then u\<lparr>u_Source := UsageSourceLLMGateway\<rparr> else u)
      in if Confidence u = [] then u\<lparr>Confidence := UsageConfidenceLow\<rparr> else u)"

definition meter_key_ok :: "string \<times> string \<Rightarrow> bool" where
  "meter_key_ok k \<longleftrightarrow> fst k \<noteq> [] \<and> snd k \<noteq> [] \<and> CHR ''|'' \<notin> set (fst k)"

lemma meterKey_inj:
  assumes "CHR ''|'' \<notin> set s" "CHR ''|'' \<notin> set s'" and "meterKey s t = meterKey s' t'"
  shows "s = s' \<and> t = t'"
  using assms
proof (induction s arbitrary: s')
  case Nil
  then show ?case by (cases s') (auto simp: meterKey_def)
next
  case (Cons c s)
  then show ?case by (cases s') (auto simp: meterKey_def)
qed

lemma Record_content:
  "s \<noteq> [] \<Longrightarrow> t \<noteq> [] \<Longrightarrow> Record m s t u
    = massign (meterKey s t) ((case map_of m (meterKey s t) of None \<Rightarrow> [] | Some us \<Rightarrow> us) @ [normUsage u]) m"
  by (simp add: Record_def normUsage_def Let_def)

lemma meterKey_eq_iff:
  "meter_key_ok k \<Longrightarrow> meter_key_ok k' \<Longrightarrow>
   meterKey (fst k) (snd k) = meterKey (fst k') (snd k') \<longleftrightarrow> k = k'"
  using meterKey_inj [of "fst k" "fst k'" "snd k" "snd k'"]
  by (auto simp: meter_key_ok_def prod_eq_iff)

lemma Record_is_go_map: "is_go_map m \<Longrightarrow> is_go_map (Record m s t u)"
  by (simp add: Record_def Let_def)

interpretation gateway_meter: call_meter
  "\<lambda>m k. Record m (fst k) (snd k)" "\<lambda>m k. Take m (fst k) (snd k)" normUsage meter_key_ok is_go_map
proof
  fix m :: UsageMeter and k k' :: "string \<times> string" and u :: TokenUsage
  assume inv: "is_go_map m"
  show "is_go_map (Record m (fst k) (snd k) u)" by (simp add: inv Record_is_go_map)
  show "is_go_map (fst (Take m (fst k) (snd k)))" by (simp add: inv Take_def Let_def)
  show "snd (Take (fst (Take m (fst k) (snd k))) (fst k) (snd k)) = []"
    by (simp add: inv Take_def Let_def)
  assume ok: "meter_key_ok k"
  then show "snd (Take (Record m (fst k) (snd k) u) (fst k) (snd k))
      = snd (Take m (fst k) (snd k)) @ [normUsage u]"
    by (simp add: meter_key_ok_def Record_content Take_def Let_def)
  assume ok': "meter_key_ok k'" and "k \<noteq> k'"
  then have "meterKey (fst k) (snd k) \<noteq> meterKey (fst k') (snd k')" using ok meterKey_eq_iff by blast
  then show "snd (Take (Record m (fst k) (snd k) u) (fst k') (snd k')) = snd (Take m (fst k') (snd k'))"
    and "snd (Take (fst (Take m (fst k) (snd k))) (fst k') (snd k')) = snd (Take m (fst k') (snd k'))"
    using ok inv by (auto simp: meter_key_ok_def Record_content Take_def Let_def)
qed

text \<open>
  The gateway's meter: after any sequence of recorded calls, taking the calls of a session and
  turn yields exactly the calls recorded for them, in order and with source and confidence
  defaulted, whatever was recorded for other turns in between; taking them again yields nothing.
  Session ids without a bar are needed for the keys to be distinct.
\<close>

theorem meter_take_recorded:
  assumes "\<forall>(k', u) \<in> set kus. meter_key_ok k'" "meter_key_ok k"
    and "m = foldl (\<lambda>m (k, u). Record m (fst k) (snd k) u) [] kus"
    and "Take m (fst k) (snd k) = (m', us)"
  shows "us = map (normUsage \<circ> snd) (filter (\<lambda>ku. fst ku = k) kus) \<and> snd (Take m' (fst k) (snd k)) = []"
  using gateway_meter.take_after_records [of "[]" kus k] gateway_meter.record_all_inv [of "[]" kus]
    gateway_meter.take_same [of m k] assms
  by (simp add: gateway_meter.record_all_def Take_def [of "[]"] case_prod_unfold)

theorem meter_take_recorded_witness:
  "snd (Take (Record (Record [] ''s'' ''t'' zero_usage) ''s'' ''t2'' zero_usage) ''s'' ''t'')
    = [normUsage zero_usage]"
  using meter_take_recorded [of "[((''s'', ''t''), zero_usage), ((''s'', ''t2''), zero_usage)]" "(''s'', ''t'')",
    OF _ _ refl prod.collapse [symmetric]]
  by (simp add: meter_key_ok_def)

text \<open>
  The key of the meter is not injective: a bar inside a session id makes two different
  session and turn pairs share one entry, so a turn can be billed for calls of another session.
\<close>

theorem meter_key_collision:
  "snd (Take (Record [] ''a|b'' ''c'' u) ''a'' ''b|c'') = [normUsage u]"
  by (simp add: Record_content Take_def meterKey_def)

section \<open>The metering metadata\<close>

definition meta_id :: "string \<Rightarrow> bool" where
  "meta_id s \<longleftrightarrow> s \<noteq> [] \<and> list_all graph_char s \<and> CHR '';'' \<notin> set s"

lemma Contains_sublist: "Contains s t \<longleftrightarrow> sublist t s"
  by (auto simp: Contains_iff sublist_def)

lemma HasPrefix_sublist: "HasPrefix s p \<Longrightarrow> sublist p s"
  by (simp add: HasPrefix_iff prefix_imp_sublist)

lemma first_meta_skip:
  assumes "\<forall>w \<in> set ws. sublist w s" and "\<not> Contains s pre"
  shows "first_meta pre (ws @ vs) = first_meta pre vs"
  using assms(1)
proof (induction ws)
  case (Cons w ws)
  let ?p = "TrimSpace w"
  let ?q = "if HasPrefix ?p ''Bearer '' then TrimSpace (TrimPrefix ?p ''Bearer '') else ?p"
  have "sublist (TrimPrefix ?p ''Bearer '') ?p"
    unfolding TrimPrefix_def by (auto intro: suffix_imp_sublist suffix_drop)
  then have "sublist (TrimSpace (TrimPrefix ?p ''Bearer '')) ?p"
    by (rule sublist_order.order_trans [OF TrimSpace_sublist])
  then have "sublist ?q ?p" by (cases "HasPrefix ?p ''Bearer ''") simp_all
  then have "sublist ?q w" by (rule sublist_order.order_trans [OF _ TrimSpace_sublist])
  then have "sublist ?q s" using Cons.prems sublist_order.order_trans [of ?q w s] by simp
  then have "\<not> HasPrefix ?q pre"
    using assms(2) HasPrefix_sublist sublist_order.order_trans unfolding Contains_sublist by blast
  with Cons show ?case by (simp add: Let_def)
qed simp

lemma first_meta_hit:
  assumes "list_all graph_char (pre @ v)" and "\<not> HasPrefix (pre @ v) ''Bearer ''"
  shows "first_meta pre ((pre @ v) # ws) = v"
proof -
  have "TrimSpace (pre @ v) = pre @ v"
    by (rule TrimSpace_graph [OF assms(1)])
  with assms(2) show ?thesis by (simp add: Let_def)
qed

text \<open>
  Metering metadata survives the auth header: appending the suffix for a session and a turn
  to any header that does not already carry those keys, the gateway reads back exactly the same
  session id and turn id (ids of printable ASCII characters without a semicolon).
\<close>

theorem metering_meta_roundtrip:
  assumes "meta_id sid" "meta_id tid"
    and "\<not> Contains auth ''tern_sid=''" "\<not> Contains auth ''tid=''"
  shows "ExtractTernSessionID (auth @ MeteringMetaSuffix sid tid) = sid \<and>
    ExtractTurnID (auth @ MeteringMetaSuffix sid tid) = tid"
proof -
  let ?s = "''tern_sid='' @ sid" and ?t = "''tid='' @ tid"
  have split: "SplitByte (CHR '';'') (auth @ MeteringMetaSuffix sid tid)
      = SplitByte (CHR '';'') auth @ [?s, ?t]"
    using assms(1,2) SplitByte_none [of "CHR '';''" ?s] SplitByte_none [of "CHR '';''" ?t]
      SplitByte_append [of "CHR '';''" auth "?s @ CHR '';'' # ?t"] SplitByte_append [of "CHR '';''" ?s ?t]
    by (simp add: MeteringMetaSuffix_def meta_id_def)
  have sub: "\<forall>w \<in> set (SplitByte (CHR '';'') auth). sublist w auth" by (simp add: SplitByte_sublist)
  have graph: "list_all graph_char ?s" "list_all graph_char ?t"
    using assms(1,2) by (simp_all add: meta_id_def graph_char_def byte_def)
  have "first_meta ''tern_sid='' (SplitByte (CHR '';'') auth @ [?s, ?t]) = sid"
    using first_meta_skip [OF sub assms(3)] first_meta_hit [OF graph(1)] by simp
  moreover have "TrimSpace ?s = ?s"
    by (rule TrimSpace_graph [OF graph(1)])
  then have "first_meta ''tid='' [?s, ?t] = first_meta ''tid='' [?t]" by simp
  then have "first_meta ''tid='' (SplitByte (CHR '';'') auth @ [?s, ?t]) = tid"
    using first_meta_skip [OF sub assms(4)] first_meta_hit [OF graph(2)] by simp
  ultimately show ?thesis
    by (simp add: ExtractTernSessionID_def ExtractTurnID_def ExtractMetaValue_def split)
qed

theorem metering_meta_roundtrip_witness:
  "ExtractTernSessionID (''Bearer k;sid=x'' @ MeteringMetaSuffix ''s1'' ''t1'') = ''s1''"
  using metering_meta_roundtrip [of "''s1''" "''t1''" "''Bearer k;sid=x''"]
  by (simp add: meta_id_def graph_char_def byte_def Contains_def)

section \<open>A turn's end\<close>

definition attributed :: "string \<Rightarrow> TurnUsageRecord \<Rightarrow> TurnUsageRecord" where
  "attributed model rec = rec\<lparr>tr_Usage := ApplyModelAttribution (tr_Usage rec) model,
     tr_Calls := map (\<lambda>c. ApplyModelAttribution c model) (tr_Calls rec)\<rparr>"

lemma attributed_id [simp]:
  "tr_TurnID (attributed model rec) = tr_TurnID rec" "tr_EndedAt (attributed model rec) = tr_EndedAt rec"
  by (simp_all add: attributed_def)

lemma stamped_simps [simp]:
  "tr_TurnID (stamped now t) = tr_TurnID t" "stamped now (stamped now' t) = stamped now' t"
  by (simp_all add: stamped_def)

lemma persistTurnUsage_stores:
  assumes "map_of (us_sessions s) sid = Some r" "su_SessionDir r \<noteq> []"
    and "readable (us_dirs s (su_SessionDir r))"
    and "distinct (turn_ids (stored_turns (us_dirs s (su_SessionDir r))))"
  shows "let s' = persistTurnUsage fadd now NoFault True s sid t;
             turns = stored_turns (us_dirs s' (su_SessionDir r))
         in filter (\<lambda>x. tr_TurnID x = tr_TurnID t) turns = [stamped now t] \<and>
            map_of (us_sessions s') sid = Some (r\<lparr>su_Usage := Some (SumTurnUsage fadd turns)\<rparr>) \<and>
            us_meter s' = us_meter s"
proof -
  let ?dir = "su_SessionDir r"
  let ?d = "us_dirs s ?dir" and ?t = "stamped now t"
  from appendTurnUsage_ok [OF assms(2,3), of fadd now sid ?t] obtain rep where
    app: "appendTurnUsage fadd now NoFault ?dir ?d sid ?t
      = (?d\<lparr>ud_file := Report rep, ud_tmp := Absent\<rparr>, Inr (SumTurnUsage fadd (rep_Turns rep)))"
      and turns: "rep_Turns rep = upsert_turn now ?t (stored_turns ?d)" by blast
  let ?d' = "?d\<lparr>ud_file := Report rep, ud_tmp := Absent\<rparr>"
  have "persistTurnUsage fadd now NoFault True s sid t
      = s\<lparr>us_dirs := (us_dirs s)(?dir := ?d'),
         us_sessions := massign sid (r\<lparr>su_Usage := Some (SumTurnUsage fadd (rep_Turns rep))\<rparr>)
           (us_sessions s)\<rparr>"
    using assms(1) app by (simp add: persistTurnUsage_def stamped_def [symmetric] Let_def)
  moreover have "stored_turns ?d' = rep_Turns rep" by (simp add: stored_turns_def)
  moreover have "filter (\<lambda>x. tr_TurnID x = tr_TurnID t) (rep_Turns rep) = [?t]"
    using upsert_turn_self [OF assms(4), of ?t now] by (simp add: turns)
  ultimately show ?thesis by (simp add: Let_def)
qed



end
