(* ===== verification/App_Config.thy ===== *)
theory App_Config
  imports Tern_Prelude
begin

text \<open>
  Configuration. \<open>config/config.go\<close>: the application's settings and their defaults.
  \<open>config/model_profiles.go\<close>: providers, keys and models, their listing and validation, and the
  per-agent limits. \<open>config/loader.go\<close>: loading both files; the YAML decoder and the file system
  are parameters. Go's maps of providers and agents are association lists whose order is the
  iteration order Go happens to choose.
\<close>

section \<open>Application settings\<close>

record RetrySettings =
  MaxRetries :: int
  InitialDelaySeconds :: go_int
  MaxDelaySeconds :: go_int

record SessionConfig =
  MaxSessions :: int
  TTLSeconds :: go_int

record ServerConfig =
  ReadTimeoutSeconds :: int
  WriteTimeoutSeconds :: int
  sv_IdleTimeoutSeconds :: int
  MaxHeaderBytes :: int

record TLSConfig =
  tls_Enabled :: bool
  tls_Mode :: string
  CertFile :: string
  KeyFile :: string
  ExtraSANs :: "string list"

record LLMGatewayConfig =
  gw_Port :: int
  ModelProfilesPath :: string
  MetricsEnabled :: bool
  gw_Retry :: RetrySettings
  gw_TLS :: TLSConfig
  AuthToken :: string
  MaxRequestBodyBytes :: int
  gw_Session :: SessionConfig
  gw_Server :: ServerConfig

record VaultConfig =
  vc_Backend :: string
  vc_Backends :: "string list"
  vc_FilePath :: string
  AESEnabled :: bool

record LogOutputConfig =
  lo_Type :: string
  lo_Network :: string
  lo_Address :: string
  lo_Tag :: string

record LogConfig =
  log_Level :: string
  log_Outputs :: "LogOutputConfig list"

record WebSocketConfig =
  ws_Port :: int

record ProcessRetryConfig =
  pr_MaxAttempts :: int
  IntervalSeconds :: int

record SupplementConfig =
  sc_Algorithm :: string
  sc_Model :: string
  sc_MaxChunkMessages :: int
  sc_ThresholdBytes :: int
  sc_RecentKeep :: int

record AgentServiceConfig =
  as_Port :: int
  DisableSandbox :: bool
  EnableSubagent :: bool
  as_Supplement :: SupplementConfig
  ProcessRetry :: ProcessRetryConfig
  SSEReattachTimeoutSeconds :: int

record AppConfig =
  LLMGateway :: LLMGatewayConfig
  Vault :: VaultConfig
  Log :: LogConfig
  WebSocket :: WebSocketConfig
  AgentService :: AgentServiceConfig

text \<open>\<open>dflt d x\<close> replaces the zero value of a field by its default.\<close>

definition dflt :: "'a :: zero \<Rightarrow> 'a \<Rightarrow> 'a" where
  "dflt d x = (if x = 0 then d else x)"

definition retry_defaults :: "RetrySettings \<Rightarrow> RetrySettings" where
  "retry_defaults r = \<lparr>MaxRetries = dflt 2 (MaxRetries r),
     InitialDelaySeconds = dflt 1 (InitialDelaySeconds r), MaxDelaySeconds = dflt 8 (MaxDelaySeconds r)\<rparr>"

definition server_defaults :: "ServerConfig \<Rightarrow> ServerConfig" where
  "server_defaults s = \<lparr>ReadTimeoutSeconds = dflt 30 (ReadTimeoutSeconds s),
     WriteTimeoutSeconds = dflt 300 (WriteTimeoutSeconds s),
     sv_IdleTimeoutSeconds = dflt 60 (sv_IdleTimeoutSeconds s),
     MaxHeaderBytes = dflt (2 ^ 20) (MaxHeaderBytes s)\<rparr>"

definition LLMGatewayConfig_ApplyDefaults :: "LLMGatewayConfig \<Rightarrow> LLMGatewayConfig" where
  "LLMGatewayConfig_ApplyDefaults c = c
     \<lparr>gw_Retry := retry_defaults (gw_Retry c),
      MaxRequestBodyBytes := dflt (10 * 1024 * 1024) (MaxRequestBodyBytes c),
      gw_Session := \<lparr>MaxSessions = dflt 1000 (MaxSessions (gw_Session c)),
                     TTLSeconds = dflt 86400 (TTLSeconds (gw_Session c))\<rparr>,
      gw_Server := server_defaults (gw_Server c)\<rparr>"

definition AgentServiceConfig_ApplyDefaults :: "AgentServiceConfig \<Rightarrow> AgentServiceConfig" where
  "AgentServiceConfig_ApplyDefaults c = c
     \<lparr>ProcessRetry := \<lparr>pr_MaxAttempts = dflt 3 (pr_MaxAttempts (ProcessRetry c)),
                       IntervalSeconds = dflt 3 (IntervalSeconds (ProcessRetry c))\<rparr>,
      SSEReattachTimeoutSeconds :=
        (if SSEReattachTimeoutSeconds c \<le> 0 then 90 else SSEReattachTimeoutSeconds c)\<rparr>"

section \<open>Model profiles\<close>

definition ModelModeChat :: string where "ModelModeChat = ''chat''"
definition ModelModeResponses :: string where "ModelModeResponses = ''responses''"
definition ModelModeEmbedding :: string where "ModelModeEmbedding = ''embedding''"

lemmas model_modes = ModelModeChat_def ModelModeResponses_def ModelModeEmbedding_def

definition EffectiveMode :: "string \<Rightarrow> string" where
  "EffectiveMode mode = (if mode = [] then ModelModeChat else mode)"

definition IsEmbeddingMode :: "string \<Rightarrow> bool" where
  "IsEmbeddingMode mode \<longleftrightarrow> mode = ModelModeEmbedding"

record ModelReasoning =
  mr_Required :: bool
  SupportedEfforts :: "string list"
  DefaultEffort :: string

record ModelBehavior =
  mb_ToolCallFallback :: bool
  StructuredOutput :: bool
  mb_MaxOutputTokens :: int
  mb_Reasoning :: "ModelReasoning option"

record ModelConfig =
  mc_Name :: string
  LogicalName :: string
  mc_Mode :: string
  Behavior :: "ModelBehavior option"

record KeyConfig =
  kc_Name :: string
  Secret :: string
  Weight :: go_float
  Models :: "ModelConfig list"

record NetworkConfig =
  BaseURL :: string
  RequestTimeoutSeconds :: int

record ProviderConfig =
  ApiKeys :: "KeyConfig list"
  pc_NetworkConfig :: "NetworkConfig option"

record DefaultProfileConfig =
  dp_Provider :: string
  dp_Model :: string

record AgentConfig =
  MaxPromptBytes :: int
  MaxExecutionSeconds :: int
  ac_IdleTimeoutSeconds :: int
  ExecutionMode :: string
  ScannerMaxTokenBytes :: int
  MaxToolResultBytes :: int

record ModelProfilesConfig =
  DefaultProfile :: DefaultProfileConfig
  Providers :: "(string \<times> ProviderConfig) list"
  CodingAgents :: "(string \<times> AgentConfig) list"

record ModelRef =
  ref_Provider :: string
  ref_Model :: string
  ref_Mode :: string

definition mode_wanted :: "string \<Rightarrow> string \<Rightarrow> bool" where
  "mode_wanted wantMode mode =
     (if wantMode = ModelModeEmbedding then IsEmbeddingMode mode
      else if wantMode = [] then \<not> IsEmbeddingMode mode
      else mode = wantMode)"

text \<open>The models of a configuration in iteration order, with the provider and key they are under.\<close>

definition provider_models :: "string \<times> ProviderConfig \<Rightarrow> (string \<times> KeyConfig \<times> ModelConfig) list" where
  "provider_models np =
     concat (map (\<lambda>key. map (\<lambda>model. (fst np, key, model)) (Models key)) (ApiKeys (snd np)))"

definition all_models :: "ModelProfilesConfig \<Rightarrow> (string \<times> KeyConfig \<times> ModelConfig) list" where
  "all_models c = concat (map provider_models (Providers c))"

definition ListModelRefs :: "ModelProfilesConfig option \<Rightarrow> string \<Rightarrow> ModelRef list" where
  "ListModelRefs c wantMode =
     (case c of
        None \<Rightarrow> []
      | Some c \<Rightarrow>
          map (\<lambda>(prov, key, model). \<lparr>ref_Provider = prov, ref_Model = mc_Name model,
                 ref_Mode = EffectiveMode (mc_Mode model)\<rparr>)
            (filter (\<lambda>(prov, key, model). mode_wanted wantMode (mc_Mode model)) (all_models c)))"

definition NormalizeExecutionMode :: "string \<Rightarrow> string" where
  "NormalizeExecutionMode mode = (if mode = ''single_shot'' then ''single_shot'' else ''interactive'')"

definition AgentConfig_WithDefaults :: "AgentConfig \<Rightarrow> AgentConfig" where
  "AgentConfig_WithDefaults c =
     \<lparr>MaxPromptBytes = dflt 1048576 (MaxPromptBytes c),
      MaxExecutionSeconds = dflt 3600 (MaxExecutionSeconds c),
      ac_IdleTimeoutSeconds = dflt 300 (ac_IdleTimeoutSeconds c),
      ExecutionMode = NormalizeExecutionMode (ExecutionMode c),
      ScannerMaxTokenBytes = dflt (4 * 1024 * 1024) (ScannerMaxTokenBytes c),
      MaxToolResultBytes = dflt (256 * 1024) (MaxToolResultBytes c)\<rparr>"

definition zero_agent_config :: AgentConfig where
  "zero_agent_config = \<lparr>MaxPromptBytes = 0, MaxExecutionSeconds = 0, ac_IdleTimeoutSeconds = 0,
     ExecutionMode = [], ScannerMaxTokenBytes = 0, MaxToolResultBytes = 0\<rparr>"

definition ResolveAgentConfig :: "ModelProfilesConfig option \<Rightarrow> string \<Rightarrow> AgentConfig" where
  "ResolveAgentConfig profiles agentName =
     (case Option.bind profiles (\<lambda>p. map_of (CodingAgents p) agentName) of
        Some cfg \<Rightarrow> AgentConfig_WithDefaults cfg
      | None \<Rightarrow> AgentConfig_WithDefaults zero_agent_config)"

section \<open>Validation\<close>

datatype reasoning_error =
    UnknownEffort string | DuplicateEffort string | EmptyEfforts | NoneNotPermitted
  | NoDefaultEffort | UnknownDefault string | DefaultNotSupported string

datatype config_error =
    NoProviders
  | NoApiKeys string
  | EmptyModelName string string
  | BadMode string string string string
  | BadReasoning string string string reasoning_error
  | NoDefaultProvider string
  | DuplicateLogicalName string string string
  | ReadFailed string
  | YamlFailed string
  | ValidationFailed config_error

definition ValidReasoningEfforts :: "string list" where
  "ValidReasoningEfforts = [''none'', ''minimal'', ''low'', ''medium'', ''high'', ''xhigh'', ''max'']"

definition validateModelMode :: "string \<Rightarrow> bool" where
  "validateModelMode mode \<longleftrightarrow> mode \<in> {[], ModelModeChat, ModelModeResponses, ModelModeEmbedding}"

fun check_efforts :: "string list \<Rightarrow> string list \<Rightarrow> reasoning_error option" where
  "check_efforts seen [] = None"
| "check_efforts seen (e # es) =
     (if e \<notin> set ValidReasoningEfforts then Some (UnknownEffort e)
      else if e \<in> set seen then Some (DuplicateEffort e)
      else check_efforts (e # seen) es)"

definition validateReasoningConfig :: "ModelReasoning \<Rightarrow> reasoning_error option" where
  "validateReasoningConfig r =
     (case check_efforts [] (SupportedEfforts r) of
        Some e \<Rightarrow> Some e
      | None \<Rightarrow>
          if mr_Required r \<and> SupportedEfforts r = [] then Some EmptyEfforts
          else if mr_Required r \<and> ''none'' \<in> set (SupportedEfforts r) then Some NoneNotPermitted
          else if mr_Required r \<and> DefaultEffort r = [] then Some NoDefaultEffort
          else if DefaultEffort r \<noteq> [] \<and> DefaultEffort r \<notin> set ValidReasoningEfforts
          then Some (UnknownDefault (DefaultEffort r))
          else if DefaultEffort r \<noteq> [] \<and> SupportedEfforts r \<noteq> []
                  \<and> DefaultEffort r \<notin> set (SupportedEfforts r)
          then Some (DefaultNotSupported (DefaultEffort r))
          else None)"

fun first_error :: "('a \<Rightarrow> 'e option) \<Rightarrow> 'a list \<Rightarrow> 'e option" where
  "first_error f [] = None"
| "first_error f (x # xs) = (case f x of Some e \<Rightarrow> Some e | None \<Rightarrow> first_error f xs)"

definition check_model :: "string \<times> KeyConfig \<times> ModelConfig \<Rightarrow> config_error option" where
  "check_model m = (case m of (prov, key, model) \<Rightarrow>
     if mc_Name model = [] then Some (EmptyModelName prov (kc_Name key))
     else if \<not> validateModelMode (mc_Mode model)
     then Some (BadMode prov (kc_Name key) (mc_Name model) (mc_Mode model))
     else case Option.bind (Behavior model) mb_Reasoning of
            None \<Rightarrow> None
          | Some r \<Rightarrow> map_option (BadReasoning prov (kc_Name key) (mc_Name model)) (validateReasoningConfig r))"

definition check_provider :: "string \<times> ProviderConfig \<Rightarrow> config_error option" where
  "check_provider np =
     (if ApiKeys (snd np) = [] then Some (NoApiKeys (fst np)) else first_error check_model (provider_models np))"

fun check_logical ::
  "(string \<times> string) list \<Rightarrow> (string \<times> KeyConfig \<times> ModelConfig) list \<Rightarrow> config_error option" where
  "check_logical seen [] = None"
| "check_logical seen ((prov, key, model) # ms) =
     (if LogicalName model = [] then check_logical seen ms
      else
        let ref = prov @ ''/'' @ mc_Name model
        in case map_of seen (LogicalName model) of
             Some existing \<Rightarrow> Some (DuplicateLogicalName (LogicalName model) existing ref)
           | None \<Rightarrow> check_logical ((LogicalName model, ref) # seen) ms)"

definition Validate :: "ModelProfilesConfig \<Rightarrow> config_error option" where
  "Validate c =
     (if Providers c = [] then Some NoProviders
      else case first_error check_provider (Providers c) of
        Some e \<Rightarrow> Some e
      | None \<Rightarrow>
          if dp_Provider (DefaultProfile c) \<noteq> []
             \<and> map_of (Providers c) (dp_Provider (DefaultProfile c)) = None
          then Some (NoDefaultProvider (dp_Provider (DefaultProfile c)))
          else check_logical [] (all_models c))"

section \<open>Loading\<close>

text \<open>\<open>readFile\<close> and \<open>unmarshal\<close> stand for the file system and the YAML package.\<close>

definition Load ::
  "(string \<Rightarrow> string option) \<Rightarrow> (string \<Rightarrow> AppConfig option) \<Rightarrow> string \<Rightarrow> (config_error, AppConfig) result" where
  "Load readFile unmarshal path =
     (case readFile path of
        None \<Rightarrow> Inl (ReadFailed path)
      | Some data \<Rightarrow>
          (case unmarshal data of
             None \<Rightarrow> Inl (YamlFailed path)
           | Some cfg \<Rightarrow>
               Inr (cfg\<lparr>LLMGateway := LLMGatewayConfig_ApplyDefaults (LLMGateway cfg),
                        AgentService := AgentServiceConfig_ApplyDefaults (AgentService cfg)\<rparr>)))"

definition LoadModelProfiles ::
  "(string \<Rightarrow> string option) \<Rightarrow> (string \<Rightarrow> ModelProfilesConfig option) \<Rightarrow> string
   \<Rightarrow> (config_error, ModelProfilesConfig) result" where
  "LoadModelProfiles readFile unmarshal path =
     (case readFile path of
        None \<Rightarrow> Inl (ReadFailed path)
      | Some data \<Rightarrow>
          (case unmarshal data of
             None \<Rightarrow> Inl (YamlFailed path)
           | Some cfg \<Rightarrow>
               (case Validate cfg of
                  Some e \<Rightarrow> Inl (ValidationFailed e)
                | None \<Rightarrow> Inr cfg)))"

section \<open>What validation accepts\<close>

lemma first_error_None_iff: "first_error f xs = None \<longleftrightarrow> (\<forall>x \<in> set xs. f x = None)"
  by (induction xs) (auto split: option.split)

lemma check_efforts_None_iff:
  "check_efforts seen es = None \<longleftrightarrow>
   set es \<subseteq> set ValidReasoningEfforts \<and> distinct es \<and> set es \<inter> set seen = {}"
  by (induction es arbitrary: seen) auto

text \<open>
  A reasoning section is accepted exactly when its supported efforts are known and listed once,
  a default effort is known and (if any effort is listed) among them, and, if reasoning is
  required, some effort is listed, \<open>none\<close> is not, and there is a default.
\<close>

theorem validateReasoningConfig_iff:
  "validateReasoningConfig r = None \<longleftrightarrow>
   set (SupportedEfforts r) \<subseteq> set ValidReasoningEfforts \<and> distinct (SupportedEfforts r) \<and>
   (DefaultEffort r = [] \<or> DefaultEffort r \<in> set ValidReasoningEfforts \<and>
      (SupportedEfforts r = [] \<or> DefaultEffort r \<in> set (SupportedEfforts r))) \<and>
   (if mr_Required r then SupportedEfforts r \<noteq> [] \<and> ''none'' \<notin> set (SupportedEfforts r) \<and> DefaultEffort r \<noteq> []
    else True)"
  using check_efforts_None_iff [of "[]" "SupportedEfforts r"]
  by (auto simp: validateReasoningConfig_def split: option.split)

definition logical_names :: "(string \<times> KeyConfig \<times> ModelConfig) list \<Rightarrow> string list" where
  "logical_names ms = filter (\<lambda>n. n \<noteq> []) (map (\<lambda>(prov, key, model). LogicalName model) ms)"

lemma check_logical_None_iff:
  "check_logical seen ms = None \<longleftrightarrow>
   distinct (logical_names ms) \<and> set (logical_names ms) \<inter> mkeys seen = {}"
proof (induction seen ms rule: check_logical.induct)
  case (2 seen prov key model ms)
  consider "LogicalName model = []"
    | e where "LogicalName model \<noteq> []" "map_of seen (LogicalName model) = Some e"
    | "LogicalName model \<noteq> []" "map_of seen (LogicalName model) = None"
    by (cases "map_of seen (LogicalName model)") auto
  then show ?case
  proof cases
    case 1
    with 2 show ?thesis by (simp add: logical_names_def)
  next
    case (2 e)
    then have "LogicalName model \<in> mkeys seen" by (simp add: mkeys_map_of)
    with 2 show ?thesis by (simp add: logical_names_def Let_def)
  next
    case 3
    then have "LogicalName model \<notin> mkeys seen" by (simp add: map_of_eq_None_iff)
    with 3 2(2) [OF 3(1) refl 3(2)] show ?thesis by (auto simp: logical_names_def Let_def)
  qed
qed (simp add: logical_names_def)

lemma check_model_None_iff:
  "check_model (prov, key, model) = None \<longleftrightarrow> mc_Name model \<noteq> [] \<and> validateModelMode (mc_Mode model) \<and>
   (\<forall>b r. Behavior model = Some b \<and> mb_Reasoning b = Some r \<longrightarrow> validateReasoningConfig r = None)"
  by (cases "Behavior model") (auto simp: check_model_def split: option.splits)

lemma all_models_provider: "set (all_models c) = (\<Union>np \<in> set (Providers c). set (provider_models np))"
  by (simp add: all_models_def)

lemma validated_models:
  "first_error check_provider (Providers c) = None \<longleftrightarrow>
   (\<forall>(prov, p) \<in> set (Providers c). ApiKeys p \<noteq> []) \<and> (\<forall>m \<in> set (all_models c). check_model m = None)"
  by (auto simp: first_error_None_iff check_provider_def all_models_provider split: if_splits)

text \<open>
  A model profiles file is accepted exactly when there is a provider, every provider has a key,
  every model has a name, a known mode and a valid reasoning section, the default provider (if one
  is named) is defined, and no logical name is used twice anywhere. The answer does not depend on
  the order in which Go iterates over the providers.
\<close>

theorem Validate_iff:
  "Validate c = None \<longleftrightarrow>
   Providers c \<noteq> [] \<and> (\<forall>(prov, p) \<in> set (Providers c). ApiKeys p \<noteq> []) \<and>
   (\<forall>(prov, key, model) \<in> set (all_models c). mc_Name model \<noteq> [] \<and> validateModelMode (mc_Mode model) \<and>
     (\<forall>b r. Behavior model = Some b \<and> mb_Reasoning b = Some r \<longrightarrow> validateReasoningConfig r = None)) \<and>
   (dp_Provider (DefaultProfile c) = [] \<or> dp_Provider (DefaultProfile c) \<in> mkeys (Providers c)) \<and>
   distinct (logical_names (all_models c))"
proof -
  have models: "(\<forall>m \<in> set (all_models c). check_model m = None) \<longleftrightarrow>
    (\<forall>(prov, key, model) \<in> set (all_models c). mc_Name model \<noteq> [] \<and> validateModelMode (mc_Mode model) \<and>
     (\<forall>b r. Behavior model = Some b \<and> mb_Reasoning b = Some r \<longrightarrow> validateReasoningConfig r = None))"
    by (intro ball_cong refl) (auto simp: check_model_None_iff)
  have logical: "check_logical [] (all_models c) = None \<longleftrightarrow> distinct (logical_names (all_models c))"
    by (simp add: check_logical_None_iff)
  show ?thesis
    unfolding models [symmetric] logical [symmetric]
    using validated_models [of c]
    by (auto simp: Validate_def map_of_eq_None_iff split: option.split)
qed

definition sample_profiles :: ModelProfilesConfig where
  "sample_profiles =
     \<lparr>DefaultProfile = \<lparr>dp_Provider = ''openai'', dp_Model = ''m''\<rparr>,
      Providers = [(''openai'', \<lparr>ApiKeys = [\<lparr>kc_Name = ''k'', Secret = ''s'', Weight = 0,
        Models = [\<lparr>mc_Name = ''m'', LogicalName = ''fast'', mc_Mode = [], Behavior = None\<rparr>]\<rparr>],
        pc_NetworkConfig = None\<rparr>)],
      CodingAgents = []\<rparr>"

theorem Validate_iff_witness: "Validate sample_profiles = None"
  unfolding Validate_iff
  by (simp add: sample_profiles_def all_models_def provider_models_def logical_names_def validateModelMode_def)

lemma mset_map_partition:
  "mset (map f (filter (\<lambda>x. \<not> P x) xs)) + mset (map f (filter P xs)) = mset (map f xs)"
  by (induction xs) simp_all

text \<open>
  The listing for agents and the listing of embedding models split the configured models
  between them: every model is in exactly one of the two, and no mode in a listing is empty.
\<close>

theorem ListModelRefs_partition:
  "mset (ListModelRefs (Some c) []) + mset (ListModelRefs (Some c) ModelModeEmbedding)
     = mset (map (\<lambda>(prov, key, model). \<lparr>ref_Provider = prov, ref_Model = mc_Name model,
                    ref_Mode = EffectiveMode (mc_Mode model)\<rparr>) (all_models c)) \<and>
   list_all (\<lambda>r. ref_Mode r \<noteq> []) (ListModelRefs (Some c) wantMode)"
proof -
  have "mode_wanted [] m \<longleftrightarrow> \<not> mode_wanted ModelModeEmbedding m" for m
    by (simp add: mode_wanted_def model_modes)
  then have neg: "filter (\<lambda>(prov, key, model). mode_wanted [] (mc_Mode model)) ms
      = filter (\<lambda>x. \<not> (case x of (prov, key, model) \<Rightarrow> mode_wanted ModelModeEmbedding (mc_Mode model))) ms" for ms
    by (simp add: case_prod_unfold)
  have "mset (ListModelRefs (Some c) []) + mset (ListModelRefs (Some c) ModelModeEmbedding)
     = mset (map (\<lambda>(prov, key, model). \<lparr>ref_Provider = prov, ref_Model = mc_Name model,
                    ref_Mode = EffectiveMode (mc_Mode model)\<rparr>) (all_models c))"
    by (simp only: ListModelRefs_def option.case neg mset_map_partition)
  then show ?thesis
    by (auto simp: ListModelRefs_def list_all_iff EffectiveMode_def model_modes)
qed

text \<open>
  A loaded configuration has no unset limit: retries, delays, body size, session capacity and
  lifetime, timeouts and the reattach bound are all non-zero, and loading a configuration that
  already has them changes nothing.
\<close>

theorem Load_defaults:
  assumes "Load readFile unmarshal path = Inr cfg"
  shows "MaxRetries (gw_Retry (LLMGateway cfg)) \<noteq> 0 \<and> MaxSessions (gw_Session (LLMGateway cfg)) \<noteq> 0 \<and>
    TTLSeconds (gw_Session (LLMGateway cfg)) \<noteq> 0 \<and> MaxRequestBodyBytes (LLMGateway cfg) \<noteq> 0 \<and>
    pr_MaxAttempts (ProcessRetry (AgentService cfg)) \<noteq> 0 \<and>
    0 < SSEReattachTimeoutSeconds (AgentService cfg) \<and>
    LLMGatewayConfig_ApplyDefaults (LLMGateway cfg) = LLMGateway cfg \<and>
    AgentServiceConfig_ApplyDefaults (AgentService cfg) = AgentService cfg"
proof -
  have idem: "dflt (d :: int) (dflt d x) = dflt d x" "dflt (w :: go_int) (dflt w y) = dflt w y"
    for d x w y by (simp_all add: dflt_def)
  have nz: "dflt d x \<noteq> 0" if "d \<noteq> 0" for d x :: "'a :: zero" using that by (simp add: dflt_def)
  from assms obtain c where
    cfg: "cfg = c\<lparr>LLMGateway := LLMGatewayConfig_ApplyDefaults (LLMGateway c),
      AgentService := AgentServiceConfig_ApplyDefaults (AgentService c)\<rparr>"
    by (auto simp: Load_def split: option.splits)
  show ?thesis
    unfolding cfg
    by (simp add: LLMGatewayConfig_ApplyDefaults_def AgentServiceConfig_ApplyDefaults_def retry_defaults_def
        server_defaults_def idem nz)
qed

definition zero_app_config :: AppConfig where
  "zero_app_config =
     \<lparr>LLMGateway = \<lparr>gw_Port = 0, ModelProfilesPath = [], MetricsEnabled = False,
        gw_Retry = \<lparr>MaxRetries = 0, InitialDelaySeconds = 0, MaxDelaySeconds = 0\<rparr>,
        gw_TLS = \<lparr>tls_Enabled = False, tls_Mode = [], CertFile = [], KeyFile = [], ExtraSANs = []\<rparr>,
        AuthToken = [], MaxRequestBodyBytes = 0, gw_Session = \<lparr>MaxSessions = 0, TTLSeconds = 0\<rparr>,
        gw_Server = \<lparr>ReadTimeoutSeconds = 0, WriteTimeoutSeconds = 0, sv_IdleTimeoutSeconds = 0,
          MaxHeaderBytes = 0\<rparr>\<rparr>,
      Vault = \<lparr>vc_Backend = [], vc_Backends = [], vc_FilePath = [], AESEnabled = False\<rparr>,
      Log = \<lparr>log_Level = [], log_Outputs = []\<rparr>, WebSocket = \<lparr>ws_Port = 0\<rparr>,
      AgentService = \<lparr>as_Port = 0, DisableSandbox = False, EnableSubagent = False,
        as_Supplement = \<lparr>sc_Algorithm = [], sc_Model = [], sc_MaxChunkMessages = 0, sc_ThresholdBytes = 0,
          sc_RecentKeep = 0\<rparr>,
        ProcessRetry = \<lparr>pr_MaxAttempts = 0, IntervalSeconds = 0\<rparr>, SSEReattachTimeoutSeconds = 0\<rparr>\<rparr>"

theorem Load_defaults_witness:
  "\<exists>cfg. Load (\<lambda>_. Some []) (\<lambda>_. Some zero_app_config) ''config.yaml'' = Inr cfg \<and>
     MaxSessions (gw_Session (LLMGateway cfg)) \<noteq> 0"
proof -
  obtain cfg where l: "Load (\<lambda>_. Some []) (\<lambda>_. Some zero_app_config) ''config.yaml'' = Inr cfg"
    by (simp add: Load_def)
  with Load_defaults [OF l] show ?thesis by blast
qed

end
