(* ===== verification/Retry_Policy.thy ===== *)
theory Retry_Policy
  imports App_Config
begin

text \<open>
  Retries. \<open>codingagent/retry.go\<close>: the classification of error texts and the bounded retry of an
  agent process. \<open>llmgateway/stream_retry.go\<close>: the retry budget that the opening of an upstream
  stream and its leading error chunks share, and its exponential backoff.

  An error is its text and whether it is a deadline error. What the outside world answers is a
  function of the attempt: the context's error when the loop looks at it, the result of the call,
  the container check, and whether the wait is interrupted. A \<open>time.Duration\<close> is a signed 64-bit
  word of nanoseconds.
\<close>

section \<open>Classification of errors\<close>

record go_error =
  er_text :: string
  er_deadline :: bool

definition ErrorCodeUpstreamOverloaded :: string where
  "ErrorCodeUpstreamOverloaded = ''upstream_overloaded''"

definition ErrorCodeUpstreamError :: string where
  "ErrorCodeUpstreamError = ''upstream_error''"

definition retryable_text :: "string \<Rightarrow> bool" where
  "retryable_text s \<longleftrightarrow> Contains s ''EOF'' \<or> Contains s ''connection reset'' \<or>
     Contains s ''broken pipe'' \<or> Contains s ''connection refused'' \<or> Contains s ''connectex''"

definition IsRetryableError :: "go_error option \<Rightarrow> bool" where
  "IsRetryableError err = (case err of None \<Rightarrow> False | Some e \<Rightarrow> retryable_text (er_text e))"

definition IsRetryableUpstream :: "string \<Rightarrow> bool" where
  "IsRetryableUpstream msg \<longleftrightarrow>
     (if msg = [] then False
      else if IsRetryableError (Some \<lparr>er_text = msg, er_deadline = False\<rparr>) then True
      else
        let lower = ToLower msg
        in Contains lower ''reconnecting...''
           \<or> Contains lower (''we'' @ [CHR 0x27] @ ''re currently experiencing high demand'')
           \<or> Contains lower ''too many requests''
           \<or> Contains lower ''overloaded'' \<or> Contains lower ''429'')"

definition non_retryable_needles :: "string list" where
  "non_retryable_needles =
     [''unauthorized'', ''invalid api key'', ''invalid_api_key'', ''authentication failed'',
      ''model not found'', ''unknown model'', ''invalid argument'', ''flag provided but not defined'',
      ''failed to resolve api key from vault'', ''vault_error'', ''unexpected status 404'',
      ''unexpected status 401'', ''unexpected status 403'']"

definition IsNonRetryableError :: "string \<Rightarrow> bool" where
  "IsNonRetryableError msg \<longleftrightarrow>
     msg \<noteq> [] \<and> list_ex (Contains (ToLower msg)) non_retryable_needles"

definition IsSandboxRejection :: "string \<Rightarrow> bool" where
  "IsSandboxRejection msg \<longleftrightarrow>
     (if msg = [] then False
      else
        let lower = ToLower msg
        in Contains lower ''rejected(''
           \<or> Contains lower ''rm -f style commands are not permitted''
           \<or> Contains lower ''exec_command failed'' \<and> Contains lower ''rejected''
           \<or> Contains lower ''blocked by policy''
           \<or> Contains lower ''rejected by the environment policy'')"

definition error_tag :: "bool \<Rightarrow> string" where
  "error_tag retryable =
     ''['' @ (if retryable then ErrorCodeUpstreamOverloaded else ErrorCodeUpstreamError) @ '']''"

definition ClassifiedErrorContent :: "string \<Rightarrow> bool \<Rightarrow> string" where
  "ClassifiedErrorContent msg retryable =
     (let tag = error_tag retryable; msg = TrimSpace msg
      in if msg = [] then tag else if Contains msg tag then msg else msg @ '' '' @ tag)"

section \<open>The process retry\<close>

record RetryConfig =
  MaxAttempts :: int
  RetryInterval :: go_int
  ContainerCheck :: "(nat \<Rightarrow> bool) option"

definition DefaultRetryConfig :: RetryConfig where
  "DefaultRetryConfig = \<lparr>MaxAttempts = 10, RetryInterval = 3 * 1000000000, ContainerCheck = None\<rparr>"

text \<open>What the world answers at attempt \<open>n\<close>.\<close>

record retry_env =
  env_ctxErr :: "nat \<Rightarrow> go_error option"
  env_fn :: "nat \<Rightarrow> go_error option"
  env_wait :: "nat \<Rightarrow> go_error option"

text \<open>\<open>retry_loop cfg env k attempt lastErr\<close> runs the loop with \<open>k\<close> attempts left; it returns the
  error and the number of times \<open>fn\<close> was called.\<close>

fun retry_loop :: "RetryConfig \<Rightarrow> retry_env \<Rightarrow> nat \<Rightarrow> nat \<Rightarrow> go_error option \<Rightarrow> go_error option \<times> nat" where
  "retry_loop cfg env 0 attempt lastErr = (lastErr, attempt)"
| "retry_loop cfg env (Suc k) attempt lastErr =
     (case env_ctxErr env attempt of
        Some e \<Rightarrow> (Some e, attempt)
      | None \<Rightarrow>
          (case env_fn env attempt of
             None \<Rightarrow> (None, Suc attempt)
           | Some e \<Rightarrow>
               if \<not> IsRetryableError (Some e) then (Some e, Suc attempt)
               else if (case ContainerCheck cfg of None \<Rightarrow> False | Some check \<Rightarrow> \<not> check attempt)
               then (Some e, Suc attempt)
               else if int attempt < MaxAttempts cfg - 1
               then (case env_wait env attempt of
                       Some c \<Rightarrow> (Some c, Suc attempt)
                     | None \<Rightarrow> retry_loop cfg env k (Suc attempt) (Some e))
               else retry_loop cfg env k (Suc attempt) (Some e)))"

definition Retry :: "RetryConfig option \<Rightarrow> retry_env \<Rightarrow> go_error option \<times> nat" where
  "Retry cfg env =
     (let cfg = (case cfg of None \<Rightarrow> DefaultRetryConfig | Some c \<Rightarrow> c)
      in retry_loop cfg env (nat (MaxAttempts cfg)) 0 None)"

section \<open>The stream retry budget\<close>

record RetryBudget =
  bu_cfg :: RetrySettings
  bu_fails :: nat

definition normalizeRetrySettings :: "RetrySettings \<Rightarrow> RetrySettings" where
  "normalizeRetrySettings cfg =
     (let unset = (MaxRetries cfg = 0 \<and> InitialDelaySeconds cfg = 0 \<and> MaxDelaySeconds cfg = 0);
          cfg = (if MaxRetries cfg = 0 then cfg\<lparr>MaxRetries := 2\<rparr> else cfg)
      in if unset then cfg\<lparr>InitialDelaySeconds := 1, MaxDelaySeconds := 8\<rparr>
         else if MaxDelaySeconds cfg = 0 then cfg\<lparr>MaxDelaySeconds := 8\<rparr> else cfg)"

definition NewRetryBudget :: "RetrySettings \<Rightarrow> RetryBudget" where
  "NewRetryBudget cfg = \<lparr>bu_cfg = normalizeRetrySettings cfg, bu_fails = 0\<rparr>"

abbreviation Second :: go_int where
  "Second \<equiv> 1000000000"

definition retryBackoff :: "RetrySettings \<Rightarrow> nat \<Rightarrow> go_int" where
  "retryBackoff cfg attempt =
     (if InitialDelaySeconds cfg \<le>s 0 then 0
      else
        let d = ((\<lambda>d. d * 2) ^^ attempt) (InitialDelaySeconds cfg * Second);
            mx = MaxDelaySeconds cfg * Second;
            mx = (if mx \<le>s 0 then 8 * Second else mx)
        in if mx <s d then mx else d)"

definition IsRetryableStreamErr :: "go_error option \<Rightarrow> string \<Rightarrow> bool" where
  "IsRetryableStreamErr err msg \<longleftrightarrow>
     (case err of None \<Rightarrow> False | Some e \<Rightarrow> IsRetryableError err \<or> IsRetryableUpstream (er_text e))
     \<or> IsRetryableUpstream msg"

definition IsStreamDeadlineExceeded :: "go_error option \<Rightarrow> string \<Rightarrow> bool" where
  "IsStreamDeadlineExceeded err msg \<longleftrightarrow>
     (case err of None \<Rightarrow> False
      | Some e \<Rightarrow> er_deadline e \<or> Contains (er_text e) ''context deadline exceeded'')
     \<or> Contains msg ''context deadline exceeded''"

definition ShouldRetryStreamChunk :: "bool \<Rightarrow> bool \<Rightarrow> bool" where
  "ShouldRetryStreamChunk retryable dataWritten \<longleftrightarrow> retryable \<and> \<not> dataWritten"

definition StreamErr :: "string \<Rightarrow> go_error" where
  "StreamErr msg = \<lparr>er_text = (if msg = [] then ''upstream stream request failed'' else msg), er_deadline = False\<rparr>"

text \<open>
  The world of the opening loop, indexed by the number of failures so far, which no two iterations
  share: the context's error, the result of \<open>open\<close>, and the context's error if it ends the wait.
\<close>

record 'a open_env =
  op_ctxErr :: "nat \<Rightarrow> go_error option"
  op_open :: "nat \<Rightarrow> (go_error, 'a) result"
  op_wait :: "nat \<Rightarrow> go_error option"

text \<open>The loop also returns the delays it waited for, in order.\<close>

function OpenWithBudget ::
  "'a open_env \<Rightarrow> RetryBudget \<Rightarrow> RetryBudget \<times> (go_error, 'a) result \<times> go_int list" where
  "OpenWithBudget env b =
     (case op_ctxErr env (bu_fails b) of
        Some e \<Rightarrow> (b, Inl e, [])
      | None \<Rightarrow>
          (case op_open env (bu_fails b) of
             Inr out \<Rightarrow> (b, Inr out, [])
           | Inl err \<Rightarrow>
               if \<not> IsRetryableStreamErr (Some err) (er_text err)
                  \<or> MaxRetries (bu_cfg b) \<le> int (bu_fails b)
               then (b, Inl err, [])
               else
                 let delay = retryBackoff (bu_cfg b) (bu_fails b)
                 in case (if 0 <s delay then op_wait env (bu_fails b) else None) of
                      Some e \<Rightarrow> (b, Inl e, [delay])
                    | None \<Rightarrow>
                        (let (b', r, ds) = OpenWithBudget env (b\<lparr>bu_fails := bu_fails b + 1\<rparr>)
                         in (b', r, delay # ds))))"
  by pat_completeness auto
termination
  by (relation "measure (\<lambda>(env, b). nat (MaxRetries (bu_cfg b) - int (bu_fails b)))") auto

declare OpenWithBudget.simps [simp del]

definition OpenStreamWithRetry ::
  "RetrySettings \<Rightarrow> 'a open_env \<Rightarrow> RetryBudget \<times> (go_error, 'a) result \<times> go_int list" where
  "OpenStreamWithRetry cfg env = OpenWithBudget env (NewRetryBudget cfg)"

definition DoWithRetry :: "RetrySettings \<Rightarrow> unit open_env \<Rightarrow> go_error option" where
  "DoWithRetry cfg env =
     (case OpenStreamWithRetry cfg env of (_, Inl e, _) \<Rightarrow> Some e | (_, Inr _, _) \<Rightarrow> None)"

text \<open>\<open>interrupted\<close>: the context ends during the wait.\<close>

definition RetryLeadingChunk :: "RetryBudget \<Rightarrow> bool \<Rightarrow> string \<Rightarrow> bool \<Rightarrow> RetryBudget \<times> bool" where
  "RetryLeadingChunk b interrupted msg dataWritten =
     (if \<not> ShouldRetryStreamChunk (IsRetryableUpstream msg) dataWritten then (b, False)
      else if MaxRetries (bu_cfg b) \<le> int (bu_fails b) then (b, False)
      else
        let delay = retryBackoff (bu_cfg b) (bu_fails b)
        in if 0 <s delay \<and> interrupted then (b, False)
           else (b\<lparr>bu_fails := bu_fails b + 1\<rparr>, True))"

section \<open>Classification\<close>

text \<open>
  The content of a classified error carries the stable code that tells clients whether to retry,
  and loses nothing of the message but surrounding space; it never carries the tag twice when the
  message already ends with it.
\<close>

theorem ClassifiedErrorContent_spec:
  "Contains (ClassifiedErrorContent msg r) (error_tag r) \<and>
   Contains (ClassifiedErrorContent msg r) (TrimSpace msg) \<and>
   (Contains (TrimSpace msg) (error_tag r) \<longrightarrow> ClassifiedErrorContent msg r = TrimSpace msg)"
proof -
  have id: "Contains s s" "Contains s []" for s
    unfolding Contains_iff by (metis append_Nil append_Nil2)+
  have "Contains (s @ '' '' @ t) s" "Contains (s @ '' '' @ t) t" for s t
    unfolding Contains_iff by (metis append_Nil, metis append_Nil2 append.assoc)
  moreover have "error_tag r \<noteq> []" by (simp add: error_tag_def)
  then have "\<not> Contains [] (error_tag r)" by (simp add: Contains_def)
  ultimately show ?thesis by (auto simp: ClassifiedErrorContent_def Let_def id)
qed

theorem ClassifiedErrorContent_spec_witness:
  "ClassifiedErrorContent ''x [upstream_error]'' False = ''x [upstream_error]''"
proof -
  have "TrimSpace ''x [upstream_error]'' = ''x [upstream_error]''"
    by (rule TrimSpace_id) (simp add: graph_char_def byte_def)
  moreover have "Contains ''x [upstream_error]'' (error_tag False)"
    by (simp add: Contains_def error_tag_def ErrorCodeUpstreamError_def)
  ultimately show ?thesis using ClassifiedErrorContent_spec [of "''x [upstream_error]''" False] by simp
qed

section \<open>The process retry\<close>

text \<open>Attempt \<open>n\<close> fails in a way that lets the loop go on.\<close>

definition goes_on :: "RetryConfig \<Rightarrow> retry_env \<Rightarrow> nat \<Rightarrow> bool" where
  "goes_on cfg env n \<longleftrightarrow> env_ctxErr env n = None \<and> env_fn env n \<noteq> None \<and>
     IsRetryableError (env_fn env n) \<and>
     (case ContainerCheck cfg of None \<Rightarrow> True | Some check \<Rightarrow> check n) \<and> env_wait env n = None"

definition succeeds_at :: "RetryConfig \<Rightarrow> retry_env \<Rightarrow> nat \<Rightarrow> bool" where
  "succeeds_at cfg env n \<longleftrightarrow> env_ctxErr env n = None \<and> env_fn env n = None"

lemma retry_loop_calls: "attempt \<le> snd (retry_loop cfg env k attempt l) \<and>
    snd (retry_loop cfg env k attempt l) \<le> attempt + k"
proof (induction k arbitrary: attempt l)
  case (Suc k)
  from Suc [of "Suc attempt"] show ?case
    by (auto split: option.split simp: le_Suc_eq Suc_le_eq less_imp_le)
qed simp

lemma retry_loop_None_iff:
  assumes "int (attempt + k) = MaxAttempts cfg" "0 < k \<or> l \<noteq> None"
  shows "retry_loop cfg env k attempt l = (None, c) \<longleftrightarrow>
    (\<exists>n. attempt \<le> n \<and> n < attempt + k \<and> c = Suc n \<and> succeeds_at cfg env n \<and>
      (\<forall>i. attempt \<le> i \<and> i < n \<longrightarrow> goes_on cfg env i))"
  using assms
proof (induction k arbitrary: attempt l)
  case (Suc k)
  let ?P = "goes_on cfg env" and ?Q = "\<lambda>n. n < attempt + Suc k \<and> c = Suc n \<and> succeeds_at cfg env n"
  have goal: "(\<exists>n. attempt \<le> n \<and> n < attempt + Suc k \<and> c = Suc n \<and> succeeds_at cfg env n \<and>
      (\<forall>i. attempt \<le> i \<and> i < n \<longrightarrow> ?P i)) \<longleftrightarrow>
      (\<exists>n \<ge> attempt. ?Q n \<and> (\<forall>i. attempt \<le> i \<and> i < n \<longrightarrow> ?P i))" by auto
  show ?case
  proof (cases "?P attempt")
    case True
    then obtain e where e: "env_fn env attempt = Some e" by (auto simp: goes_on_def)
    with True have "retry_loop cfg env (Suc k) attempt l = retry_loop cfg env k (Suc attempt) (Some e)"
      by (auto simp: goes_on_def split: option.splits)
    moreover have "\<not> ?Q attempt" using e by (simp add: succeeds_at_def)
    from first_from_Suc [of ?P attempt ?Q, OF True this] Suc.IH [of "Suc attempt" "Some e"] Suc.prems
    have "retry_loop cfg env k (Suc attempt) (Some e) = (None, c) \<longleftrightarrow>
        (\<exists>n \<ge> attempt. ?Q n \<and> (\<forall>i. attempt \<le> i \<and> i < n \<longrightarrow> ?P i))" by auto
    ultimately show ?thesis unfolding goal by simp
  next
    case False
    have "int attempt < MaxAttempts cfg - 1" if "k \<noteq> 0" using that Suc.prems by simp
    with False have "retry_loop cfg env (Suc k) attempt l = (None, c) \<longleftrightarrow> ?Q attempt"
      by (cases "k = 0") (auto simp: succeeds_at_def goes_on_def split: option.splits if_splits)
    then show ?thesis unfolding goal first_from_stuck [of ?P attempt ?Q, OF False] .
  qed
qed auto

text \<open>
  The retry of an agent process: with at least one attempt allowed, it reports success exactly
  when some attempt within the limit succeeds after nothing but retryable failures with the
  container alive and the context not cancelled, and then the call count is that attempt's; it
  never calls the function more often than the limit allows.
\<close>

theorem Retry_succeeds_iff:
  assumes "0 < MaxAttempts cfg"
  shows "(Retry (Some cfg) env = (None, c) \<longleftrightarrow>
      (\<exists>n. int n < MaxAttempts cfg \<and> c = Suc n \<and> succeeds_at cfg env n \<and> (\<forall>i < n. goes_on cfg env i))) \<and>
    int (snd (Retry (Some cfg) env)) \<le> MaxAttempts cfg"
proof -
  have "int (0 + nat (MaxAttempts cfg)) = MaxAttempts cfg" "0 < nat (MaxAttempts cfg) \<or> None \<noteq> None"
    using assms by simp_all
  from retry_loop_None_iff [OF this, of env c]
  have "Retry (Some cfg) env = (None, c) \<longleftrightarrow>
      (\<exists>n. int n < MaxAttempts cfg \<and> c = Suc n \<and> succeeds_at cfg env n \<and> (\<forall>i < n. goes_on cfg env i))"
    by (simp add: Retry_def Let_def zless_nat_conj nat_less_iff zless_nat_eq_int_zless)
  moreover have "int (snd (Retry (Some cfg) env)) \<le> MaxAttempts cfg"
    using retry_loop_calls [of 0 cfg env "nat (MaxAttempts cfg)" None] assms by (simp add: Retry_def Let_def)
  ultimately show ?thesis by blast
qed

theorem Retry_succeeds_iff_witness:
  "Retry (Some DefaultRetryConfig)
     \<lparr>env_ctxErr = (\<lambda>_. None),
      env_fn = (\<lambda>n. if n < 2 then Some \<lparr>er_text = ''EOF'', er_deadline = False\<rparr> else None),
      env_wait = (\<lambda>_. None)\<rparr> = (None, 3)"
proof -
  let ?env = "\<lparr>env_ctxErr = (\<lambda>_. None),
      env_fn = (\<lambda>n. if n < 2 then Some \<lparr>er_text = ''EOF'', er_deadline = False\<rparr> else None),
      env_wait = (\<lambda>_. None)\<rparr>"
  have "\<exists>n. int n < MaxAttempts DefaultRetryConfig \<and> 3 = Suc n \<and> succeeds_at DefaultRetryConfig ?env n \<and>
      (\<forall>i < n. goes_on DefaultRetryConfig ?env i)"
    by (rule exI [of _ 2])
      (simp add: DefaultRetryConfig_def succeeds_at_def goes_on_def IsRetryableError_def retryable_text_def Contains_def)
  with Retry_succeeds_iff [of DefaultRetryConfig ?env 3] show ?thesis by (simp add: DefaultRetryConfig_def)
qed

text \<open>
  With a limit of zero or less the retry reports success without calling the function at all:
  the zero value of the configuration does not mean one attempt.
\<close>

theorem Retry_zero_attempts:
  "Retry (Some \<lparr>MaxAttempts = 0, RetryInterval = i, ContainerCheck = c\<rparr>) env = (None, 0)"
  by (simp add: Retry_def)

section \<open>The backoff\<close>

text \<open>
  As long as nothing overflows, the backoff after \<open>n\<close> failures is the initial delay doubled
  \<open>n\<close> times, capped at the maximum delay; in particular it never exceeds the cap.
\<close>

theorem retryBackoff_value:
  assumes "0 < sint (InitialDelaySeconds cfg)" "0 < sint (MaxDelaySeconds cfg)"
    and "sint (InitialDelaySeconds cfg) * 10 ^ 9 * 2 ^ n < 2 ^ 63"
    and "sint (MaxDelaySeconds cfg) * 10 ^ 9 < 2 ^ 63"
  shows "sint (retryBackoff cfg n)
    = min (sint (InitialDelaySeconds cfg) * 10 ^ 9 * 2 ^ n) (sint (MaxDelaySeconds cfg) * 10 ^ 9)"
proof -
  let ?i = "sint (InitialDelaySeconds cfg)" and ?m = "sint (MaxDelaySeconds cfg)"
  have "((\<lambda>d. d * 2) ^^ n) (InitialDelaySeconds cfg * Second) = word_of_int (?i * 10 ^ 9 * 2 ^ n)"
    by (simp add: funpow_double)
  moreover have "0 \<le> ?i * 10 ^ 9 * 2 ^ n" using assms(1) by simp
  ultimately have d: "sint (((\<lambda>d. d * 2) ^^ n) (InitialDelaySeconds cfg * Second)) = ?i * 10 ^ 9 * 2 ^ n"
    using sint_of_int_id [of "?i * 10 ^ 9 * 2 ^ n"] assms(3) by simp
  have "MaxDelaySeconds cfg * Second = word_of_int (?m * 10 ^ 9)" by simp
  then have m: "sint (MaxDelaySeconds cfg * Second) = ?m * 10 ^ 9"
    using sint_of_int_id [of "?m * 10 ^ 9"] assms(2,4) by simp
  have "\<not> InitialDelaySeconds cfg \<le>s 0" "\<not> MaxDelaySeconds cfg * Second \<le>s 0"
    using assms(1,2) m by (simp_all add: word_sle_eq)
  then show ?thesis
    using d m by (simp add: retryBackoff_def Let_def word_sless_alt)
qed

theorem retryBackoff_value_witness:
  "sint (retryBackoff \<lparr>MaxRetries = 5, InitialDelaySeconds = 1, MaxDelaySeconds = 8\<rparr> 2) = 4 * 10 ^ 9"
  using retryBackoff_value [of "\<lparr>MaxRetries = 5, InitialDelaySeconds = 1, MaxDelaySeconds = 8\<rparr>" 2] by simp

text \<open>
  The doubling wraps: with the default delays of one and eight seconds, the backoff after 34
  failures is negative, so the loop retries without waiting, and from 55 failures on it is zero.
\<close>

theorem retryBackoff_wraps:
  "retryBackoff \<lparr>MaxRetries = m, InitialDelaySeconds = 1, MaxDelaySeconds = 8\<rparr> 34 <s 0 \<and>
   retryBackoff \<lparr>MaxRetries = m, InitialDelaySeconds = 1, MaxDelaySeconds = 8\<rparr> (55 + n) = 0"
proof -
  have "(Second * 2 ^ 55 :: go_int) = 0" by simp
  then have "(Second * 2 ^ (55 + n) :: go_int) = 0" by (simp only: power_add mult.assoc [symmetric] mult_zero_left)
  then show ?thesis by (simp add: retryBackoff_def funpow_double Let_def word_sless_alt word_sle_eq)
qed

section \<open>The budget\<close>

text \<open>The failure number \<open>n\<close> of an opening loop is retried.\<close>

definition reopens :: "RetrySettings \<Rightarrow> 'a open_env \<Rightarrow> nat \<Rightarrow> bool" where
  "reopens cfg env n \<longleftrightarrow> op_ctxErr env n = None \<and>
     (\<exists>err. op_open env n = Inl err \<and> IsRetryableStreamErr (Some err) (er_text err)) \<and>
     int n < MaxRetries cfg \<and> (0 <s retryBackoff cfg n \<longrightarrow> op_wait env n = None)"

lemma OpenWithBudget_reopens:
  "reopens (bu_cfg b) env (bu_fails b) \<Longrightarrow>
   OpenWithBudget env b =
     (let (b', r, ds) = OpenWithBudget env (b\<lparr>bu_fails := bu_fails b + 1\<rparr>)
      in (b', r, retryBackoff (bu_cfg b) (bu_fails b) # ds))"
  by (subst OpenWithBudget.simps) (auto simp: reopens_def Let_def)

lemma OpenWithBudget_stops:
  "\<not> reopens (bu_cfg b) env (bu_fails b) \<Longrightarrow>
   fst (OpenWithBudget env b) = b \<and>
   (\<forall>out. fst (snd (OpenWithBudget env b)) = Inr out \<longleftrightarrow>
      op_ctxErr env (bu_fails b) = None \<and> op_open env (bu_fails b) = Inr out)"
  by (subst (1 2) OpenWithBudget.simps)
    (auto simp: reopens_def Let_def not_le split: option.split sum.split)

lemma OpenWithBudget_fails:
  "bu_cfg (fst (OpenWithBudget env b)) = bu_cfg b \<and> bu_fails b \<le> bu_fails (fst (OpenWithBudget env b)) \<and>
   (bu_fails (fst (OpenWithBudget env b)) = bu_fails b \<or>
    int (bu_fails (fst (OpenWithBudget env b))) \<le> MaxRetries (bu_cfg b))"
proof (induction "nat (MaxRetries (bu_cfg b) - int (bu_fails b))" arbitrary: b rule: less_induct)
  case less
  show ?case
  proof (cases "reopens (bu_cfg b) env (bu_fails b)")
    case True
    then have "int (bu_fails b) < MaxRetries (bu_cfg b)" by (simp add: reopens_def)
    with less [of "b\<lparr>bu_fails := bu_fails b + 1\<rparr>"] OpenWithBudget_reopens [OF True]
    show ?thesis by (auto simp: Let_def case_prod_unfold)
  next
    case False
    from OpenWithBudget_stops [OF False] have "fst (OpenWithBudget env b) = b" ..
    then show ?thesis by simp
  qed
qed

lemma OpenWithBudget_ok_iff:
  "fst (snd (OpenWithBudget env b)) = Inr out \<longleftrightarrow>
   (\<exists>n \<ge> bu_fails b. op_ctxErr env n = None \<and> op_open env n = Inr out \<and>
      (\<forall>i. bu_fails b \<le> i \<and> i < n \<longrightarrow> reopens (bu_cfg b) env i))"
proof (induction "nat (MaxRetries (bu_cfg b) - int (bu_fails b))" arbitrary: b rule: less_induct)
  case less
  let ?Q = "\<lambda>n. op_ctxErr env n = None \<and> op_open env n = Inr out"
  let ?P = "\<lambda>i. reopens (bu_cfg b) env i"
  show ?case
  proof (cases "?P (bu_fails b)")
    case True
    then have "int (bu_fails b) < MaxRetries (bu_cfg b)" "\<not> ?Q (bu_fails b)" by (auto simp: reopens_def)
    with less [of "b\<lparr>bu_fails := bu_fails b + 1\<rparr>"] OpenWithBudget_reopens [OF True]
      first_from_Suc [of ?P "bu_fails b" ?Q, OF True]
    show ?thesis by (simp add: Let_def case_prod_unfold)
  next
    case False
    from OpenWithBudget_stops [OF False] first_from_stuck [of ?P "bu_fails b" ?Q, OF False]
    show ?thesis by simp
  qed
qed

text \<open>
  Opening a stream with a budget always returns, and it succeeds exactly when some attempt
  succeeds after nothing but retryable failures that the remaining budget allows to retry; a
  stream it returns is the one that attempt opened.
\<close>

theorem OpenStreamWithRetry_succeeds_iff:
  "fst (snd (OpenStreamWithRetry cfg env)) = Inr out \<longleftrightarrow>
   (\<exists>n. op_ctxErr env n = None \<and> op_open env n = Inr out \<and>
      (\<forall>i. i < n \<longrightarrow> reopens (normalizeRetrySettings cfg) env i))"
  by (simp add: OpenStreamWithRetry_def OpenWithBudget_ok_iff NewRetryBudget_def)

theorem OpenStreamWithRetry_succeeds_iff_witness:
  "fst (snd (OpenStreamWithRetry \<lparr>MaxRetries = 0, InitialDelaySeconds = 0, MaxDelaySeconds = 0\<rparr>
     \<lparr>op_ctxErr = (\<lambda>_. None),
      op_open = (\<lambda>n. if n < 2 then Inl (StreamErr ''429'') else Inr (7 :: nat)),
      op_wait = (\<lambda>_. None)\<rparr>)) = Inr 7"
  unfolding OpenStreamWithRetry_succeeds_iff
  by (rule exI [of _ 2])
    (simp add: reopens_def normalizeRetrySettings_def StreamErr_def IsRetryableStreamErr_def
      IsRetryableUpstream_def IsRetryableError_def retryable_text_def Contains_def Let_def
      lower_char_def byte_def)

inductive budget_step :: "RetryBudget \<Rightarrow> RetryBudget \<Rightarrow> bool" where
  open_step: "budget_step b (fst (OpenWithBudget (env :: unit open_env) b))"
| chunk_step: "budget_step b (fst (RetryLeadingChunk b interrupted msg dataWritten))"

definition within_budget :: "RetrySettings \<Rightarrow> RetryBudget \<Rightarrow> bool" where
  "within_budget cfg b \<longleftrightarrow> bu_cfg b = normalizeRetrySettings cfg \<and>
     int (bu_fails b) \<le> max 0 (MaxRetries (bu_cfg b))"

lemma RetryLeadingChunk_fails:
  "RetryLeadingChunk b i msg w = (b', ok) \<Longrightarrow>
   bu_cfg b' = bu_cfg b \<and> bu_fails b' = bu_fails b + (if ok then 1 else 0) \<and>
   (ok \<longrightarrow> \<not> w \<and> IsRetryableUpstream msg \<and> int (bu_fails b) < MaxRetries (bu_cfg b))"
  by (auto simp: RetryLeadingChunk_def ShouldRetryStreamChunk_def Let_def split: if_splits)

interpretation budget: state_machine "\<lambda>b. b = NewRetryBudget cfg" budget_step "within_budget cfg" for cfg
proof
  fix s t
  show "within_budget cfg s" if "s = NewRetryBudget cfg"
    using that by (simp add: within_budget_def NewRetryBudget_def)
  assume inv: "within_budget cfg s" and "budget_step s t"
  from this(2) show "within_budget cfg t"
  proof cases
    case (open_step env)
    with inv OpenWithBudget_fails [of env s] show ?thesis by (auto simp: within_budget_def)
  next
    case (chunk_step i msg w)
    obtain b' ok where r: "RetryLeadingChunk s i msg w = (b', ok)" by (cases "RetryLeadingChunk s i msg w")
    with chunk_step have "t = b'" by simp
    with inv RetryLeadingChunk_fails [OF r] show ?thesis by (cases ok) (auto simp: within_budget_def)
  qed
qed

text \<open>
  One budget bounds everything: however the opening of a stream and the retries of leading
  error chunks interleave, the failures charged to a budget never exceed the configured number of
  retries, and the settings stay those it was created with.
\<close>

theorem retry_budget_bounded:
  "budget_step\<^sup>*\<^sup>* (NewRetryBudget cfg) b \<Longrightarrow>
   bu_cfg b = normalizeRetrySettings cfg \<and> int (bu_fails b) \<le> max 0 (MaxRetries (normalizeRetrySettings cfg))"
  using budget.reachable_inv [of "NewRetryBudget cfg" cfg b] by (auto simp: within_budget_def)

theorem retry_budget_bounded_witness:
  "int (bu_fails (fst (RetryLeadingChunk
      (NewRetryBudget \<lparr>MaxRetries = 1, InitialDelaySeconds = 0, MaxDelaySeconds = 0\<rparr>) False ''429'' False))) \<le> 1"
proof -
  let ?cfg = "\<lparr>MaxRetries = 1, InitialDelaySeconds = 0, MaxDelaySeconds = 0\<rparr>"
  have "budget_step\<^sup>*\<^sup>* (NewRetryBudget ?cfg)
      (fst (RetryLeadingChunk (NewRetryBudget ?cfg) False ''429'' False))"
    by (rule r_into_rtranclp) (rule chunk_step)
  from retry_budget_bounded [OF this] show ?thesis by (simp add: normalizeRetrySettings_def)
qed

text \<open>
  Once data of a stream has reached the client, an error chunk is never retried and the budget
  is not touched; and a retry that is granted is charged exactly once.
\<close>

theorem RetryLeadingChunk_spec:
  "RetryLeadingChunk b i msg True = (b, False) \<and>
   (\<forall>b' w. RetryLeadingChunk b i msg w = (b', True) \<longrightarrow>
      b' = b\<lparr>bu_fails := bu_fails b + 1\<rparr> \<and> \<not> w \<and> int (bu_fails b) < MaxRetries (bu_cfg b))"
  by (auto simp: RetryLeadingChunk_def ShouldRetryStreamChunk_def Let_def split: if_splits)

theorem RetryLeadingChunk_spec_witness:
  "fst (RetryLeadingChunk \<lparr>bu_cfg = \<lparr>MaxRetries = 1, InitialDelaySeconds = 0, MaxDelaySeconds = 0\<rparr>, bu_fails = 0\<rparr> False ''429'' False)
    = \<lparr>bu_cfg = \<lparr>MaxRetries = 1, InitialDelaySeconds = 0, MaxDelaySeconds = 0\<rparr>, bu_fails = 1\<rparr>"
proof -
  let ?b = "\<lparr>bu_cfg = \<lparr>MaxRetries = 1, InitialDelaySeconds = 0, MaxDelaySeconds = 0\<rparr>, bu_fails = 0\<rparr>"
  have "snd (RetryLeadingChunk ?b False ''429'' False)"
    by (simp add: RetryLeadingChunk_def ShouldRetryStreamChunk_def IsRetryableUpstream_def retryBackoff_def
        IsRetryableError_def retryable_text_def Contains_def Let_def lower_char_def byte_def)
  then obtain b' where "RetryLeadingChunk ?b False ''429'' False = (b', True)"
    by (metis (full_types) prod.collapse)
  with RetryLeadingChunk_spec [of ?b False "''429''"] show ?thesis by simp
qed

end
