(* ===== verification/Model_Routing.thy ===== *)
theory Model_Routing
  imports App_Config
begin

text \<open>
  The gateway's model router, \<open>llmgateway/routing.go\<close>: a model name is looked up in the profiles, and
  a session remembers the first model it was routed to, in a map with least-recently-used eviction
  and a time to live. Each critical section of the code is a definition of its own, and the
  sequential \<open>ResolveModel\<close> is their composition; a step relation interleaves the sections of
  concurrent requests. Also here: the provider registry (\<open>provider.go\<close>), the header fields of a
  gateway key and the secret mask (\<open>fallback.go\<close>, \<open>masking.go\<close>) and the tool filter
  (\<open>tool_sanitize.go\<close>).
\<close>

section \<open>The router\<close>

record RoutedModel =
  rm_Provider :: string
  rm_KeyName :: string
  rm_KeyValue :: string
  rm_Model :: string
  rm_Mode :: string
  rm_ToolCallFallback :: bool
  rm_MaxOutputTokens :: int
  rm_Reasoning :: "ModelReasoning option"

record GatewayError =
  ge_Type :: string
  ge_Message :: string
  ge_Code :: string
  ge_Status :: int

definition ErrModelNotFound :: GatewayError where
  "ErrModelNotFound = \<lparr>ge_Type = ''invalid_request_error'', ge_Message = ''model not found'',
     ge_Code = ''model_not_found'', ge_Status = 404\<rparr>"

text \<open>
  A map entry is a pointer to a \<open>sessionEntry\<close>: two requests can hold the same entry, and one may
  hold an entry that has left the map. \<open>ent_ptr\<close> is the entry's identity and \<open>r_next\<close> the next
  fresh one.
\<close>

record sessionEntry =
  ent_ptr :: nat
  ent_model :: RoutedModel
  ent_lastUsed :: go_time

record ModelRouter =
  r_profiles :: "ModelProfilesConfig option"
  r_sessionModels :: "(string \<times> sessionEntry) list"
  r_maxSessions :: int
  r_sessionTTL :: int
  r_accessOrder :: "string list"
  r_next :: nat

definition NewModelRouter :: "ModelProfilesConfig option \<Rightarrow> AppConfig option \<Rightarrow> ModelRouter" where
  "NewModelRouter profiles cfg =
     \<lparr>r_profiles = profiles, r_sessionModels = [],
      r_maxSessions = (case cfg of None \<Rightarrow> 0 | Some c \<Rightarrow> MaxSessions (gw_Session (LLMGateway c))),
      r_sessionTTL = (case cfg of None \<Rightarrow> 0
                      | Some c \<Rightarrow> sint (TTLSeconds (gw_Session (LLMGateway c)) * 1000000000)),
      r_accessOrder = [], r_next = 0\<rparr>"

text \<open>The nested loops over providers, keys and models stop at the first model with the name.\<close>

definition routed :: "string \<times> KeyConfig \<times> ModelConfig \<Rightarrow> RoutedModel" where
  "routed m = (case m of (providerName, key, model) \<Rightarrow>
     \<lparr>rm_Provider = providerName, rm_KeyName = kc_Name key, rm_KeyValue = Secret key,
      rm_Model = mc_Name model, rm_Mode = mc_Mode model,
      rm_ToolCallFallback = (case Behavior model of None \<Rightarrow> False | Some b \<Rightarrow> mb_ToolCallFallback b),
      rm_MaxOutputTokens = (case Behavior model of None \<Rightarrow> 0 | Some b \<Rightarrow> mb_MaxOutputTokens b),
      rm_Reasoning = (case Behavior model of None \<Rightarrow> None | Some b \<Rightarrow> mb_Reasoning b)\<rparr>)"

definition find_model :: "ModelProfilesConfig \<Rightarrow> string \<Rightarrow> RoutedModel option" where
  "find_model profiles modelName =
     map_option routed
       (find (\<lambda>(providerName, key, model). mc_Name model = modelName) (all_models profiles))"

fun removeFirst :: "'a \<Rightarrow> 'a list \<Rightarrow> 'a list" where
  "removeFirst x [] = []"
| "removeFirst x (y # ys) = (if y = x then ys else y # removeFirst x ys)"

definition removeFromAccessOrder :: "ModelRouter \<Rightarrow> string \<Rightarrow> ModelRouter" where
  "removeFromAccessOrder r sid = r\<lparr>r_accessOrder := removeFirst sid (r_accessOrder r)\<rparr>"

definition touchAccessOrder :: "ModelRouter \<Rightarrow> string \<Rightarrow> ModelRouter" where
  "touchAccessOrder r sid =
     (let r = removeFromAccessOrder r sid in r\<lparr>r_accessOrder := r_accessOrder r @ [sid]\<rparr>)"

definition evictOldest :: "ModelRouter \<Rightarrow> ModelRouter" where
  "evictOldest r =
     (case r_accessOrder r of
        [] \<Rightarrow> r
      | oldest # rest \<Rightarrow>
          r\<lparr>r_accessOrder := rest, r_sessionModels := mdelete oldest (r_sessionModels r)\<rparr>)"

text \<open>The critical section after a successful lookup.\<close>

definition remember :: "ModelRouter \<Rightarrow> go_time \<Rightarrow> string \<Rightarrow> RoutedModel \<Rightarrow> ModelRouter" where
  "remember r now sid resolved =
     (case map_of (r_sessionModels r) sid of
        None \<Rightarrow>
          (let r = (if 0 < r_maxSessions r \<and> r_maxSessions r \<le> int (length (r_sessionModels r))
                    then evictOldest r else r)
           in r\<lparr>r_sessionModels := massign sid \<lparr>ent_ptr = r_next r, ent_model = resolved, ent_lastUsed = now\<rparr>
                  (r_sessionModels r),
                r_accessOrder := r_accessOrder r @ [sid],
                r_next := Suc (r_next r)\<rparr>)
      | Some entry \<Rightarrow>
          touchAccessOrder
            (r\<lparr>r_sessionModels := massign sid (entry\<lparr>ent_lastUsed := now\<rparr>) (r_sessionModels r)\<rparr>) sid)"

text \<open>The two critical sections after the session's entry was read: expiry, and use. A write through an
  entry that is no longer in the map is not visible in it.\<close>

definition expired :: "ModelRouter \<Rightarrow> go_time \<Rightarrow> sessionEntry \<Rightarrow> bool" where
  "expired r now entry \<longleftrightarrow> 0 < r_sessionTTL r \<and> r_sessionTTL r < now - ent_lastUsed entry"

definition expire_section :: "ModelRouter \<Rightarrow> string \<Rightarrow> ModelRouter" where
  "expire_section r sid =
     removeFromAccessOrder (r\<lparr>r_sessionModels := mdelete sid (r_sessionModels r)\<rparr>) sid"

definition touch_section :: "ModelRouter \<Rightarrow> go_time \<Rightarrow> string \<Rightarrow> sessionEntry \<Rightarrow> ModelRouter" where
  "touch_section r now sid entry =
     touchAccessOrder
       (case map_of (r_sessionModels r) sid of
          Some e \<Rightarrow> if ent_ptr e = ent_ptr entry
                    then r\<lparr>r_sessionModels := massign sid (e\<lparr>ent_lastUsed := now\<rparr>) (r_sessionModels r)\<rparr>
                    else r
        | None \<Rightarrow> r) sid"

text \<open>\<open>now\<close> is the time of the call; the code reads the clock up to twice.\<close>

definition ResolveModel ::
  "ModelRouter \<Rightarrow> go_time \<Rightarrow> string \<Rightarrow> string \<Rightarrow> ModelRouter \<times> (GatewayError, RoutedModel) result" where
  "ResolveModel r now modelName sid =
     (case r_profiles r of
        None \<Rightarrow> (r, Inl ErrModelNotFound)
      | Some profiles \<Rightarrow>
          if modelName = [] then (r, Inl ErrModelNotFound)
          else case find_model profiles modelName of
            Some resolved \<Rightarrow> (if sid \<noteq> [] then remember r now sid resolved else r, Inr resolved)
          | None \<Rightarrow>
              if sid = [] then (r, Inl ErrModelNotFound)
              else case map_of (r_sessionModels r) sid of
                None \<Rightarrow> (r, Inl ErrModelNotFound)
              | Some entry \<Rightarrow>
                  if expired r now entry then (expire_section r sid, Inl ErrModelNotFound)
                  else (touch_section r now sid entry, Inr (ent_model entry)))"

section \<open>Gateway keys, secrets and tools\<close>

definition header_parts :: "string \<Rightarrow> string list" where
  "header_parts authHeader = map TrimSpace (SplitByte (CHR '';'') (TrimPrefix authHeader ''Bearer ''))"

definition ExtractSessionID :: "string \<Rightarrow> string" where
  "ExtractSessionID authHeader =
     (case find (\<lambda>part. HasPrefix part ''sid='') (header_parts authHeader) of
        None \<Rightarrow> [] | Some part \<Rightarrow> TrimPrefix part ''sid='')"

definition ExtractFallbackFlag :: "string \<Rightarrow> bool" where
  "ExtractFallbackFlag authHeader \<longleftrightarrow> ''fallback=true'' \<in> set (header_parts authHeader)"

definition MaskSecret :: "string \<Rightarrow> string" where
  "MaskSecret s = (if length s \<le> 4 then ''****'' else ''****'' @ drop (length s - 4) s)"

datatype 'p registry_result = Panic string | Registered "(string \<times> 'p) list"

definition RegisterProvider :: "(string \<times> 'p) list \<Rightarrow> string \<Rightarrow> 'p \<Rightarrow> 'p registry_result" where
  "RegisterProvider reg name p =
     (if map_of reg name \<noteq> None then Panic (''llmgateway: RegisterProvider called twice for '' @ name)
      else Registered (massign name p reg))"

definition GetProvider :: "(string \<times> 'p) list \<Rightarrow> string \<Rightarrow> 'p option" where
  "GetProvider reg name = map_of reg name"

text \<open>A tool of a request: its type, and the rest of it, which the filter does not look at.\<close>

datatype tool_type = FunctionTool | WebSearchTool | WebSearchPreviewTool | OtherTool string

datatype bifrost_provider = OpenAIProvider | GeminiProvider | OtherProvider string

record 'c tool_params =
  tp_Tools :: "(tool_type \<times> 'c) list"
  tp_ToolChoice :: "'c option"

definition SanitizeToolsForProvider ::
  "'c tool_params option \<Rightarrow> bifrost_provider \<Rightarrow> 'c tool_params option" where
  "SanitizeToolsForProvider params provider =
     (case params of
        None \<Rightarrow> None
      | Some p \<Rightarrow>
          if provider = OpenAIProvider then Some p
          else
            let compatible = filter (\<lambda>t. fst t \<in> {FunctionTool, WebSearchTool, WebSearchPreviewTool}) (tp_Tools p);
                hasWebSearch = list_ex (\<lambda>t. fst t \<in> {WebSearchTool, WebSearchPreviewTool}) (tp_Tools p);
                hasFunctionTools = list_ex (\<lambda>t. fst t = FunctionTool) (tp_Tools p);
                compatible = (if hasWebSearch \<and> hasFunctionTools \<and> provider = GeminiProvider
                              then filter (\<lambda>t. fst t = FunctionTool) compatible else compatible)
            in if compatible = [] then Some (p\<lparr>tp_Tools := [], tp_ToolChoice := None\<rparr>)
               else Some (p\<lparr>tp_Tools := compatible\<rparr>))"

section \<open>The router's invariant\<close>

definition router_inv :: "ModelRouter \<Rightarrow> bool" where
  "router_inv r \<longleftrightarrow>
     is_go_map (r_sessionModels r) \<and> distinct (r_accessOrder r) \<and>
     set (r_accessOrder r) = mkeys (r_sessionModels r) \<and>
     (0 < r_maxSessions r \<longrightarrow> int (length (r_sessionModels r)) \<le> r_maxSessions r)"

lemma removeFirst_distinct:
  "distinct xs \<Longrightarrow> distinct (removeFirst x xs) \<and> set (removeFirst x xs) = set xs - {x}"
  by (induction xs) auto

lemma removeFirst_filter: "distinct xs \<Longrightarrow> removeFirst x xs = filter (\<lambda>y. y \<noteq> x) xs"
  by (induction xs) (auto simp: filter_id_conv intro!: filter_True [symmetric])

lemma touchAccessOrder_fields [simp]:
  "r_accessOrder (touchAccessOrder r sid) = removeFirst sid (r_accessOrder r) @ [sid]"
  "r_sessionModels (touchAccessOrder r sid) = r_sessionModels r"
  "r_maxSessions (touchAccessOrder r sid) = r_maxSessions r"
  "r_sessionTTL (touchAccessOrder r sid) = r_sessionTTL r"
  "r_profiles (touchAccessOrder r sid) = r_profiles r"
  by (simp_all add: touchAccessOrder_def removeFromAccessOrder_def Let_def)

lemma evictOldest_fields [simp]:
  "r_maxSessions (evictOldest r) = r_maxSessions r" "r_profiles (evictOldest r) = r_profiles r"
  "r_sessionTTL (evictOldest r) = r_sessionTTL r" "r_next (evictOldest r) = r_next r"
  by (simp_all add: evictOldest_def split: list.split)

lemma evictOldest_inv:
  assumes "router_inv r" "r_sessionModels r \<noteq> []"
  shows "router_inv (evictOldest r) \<and> Suc (length (r_sessionModels (evictOldest r))) = length (r_sessionModels r)
    \<and> mkeys (r_sessionModels (evictOldest r)) \<subseteq> mkeys (r_sessionModels r)"
proof -
  have "r_accessOrder r \<noteq> []" using assms by (auto simp: router_inv_def)
  then obtain oldest rest where ord: "r_accessOrder r = oldest # rest" by (cases "r_accessOrder r") auto
  then have "oldest \<in> mkeys (r_sessionModels r)" using assms(1) by (auto simp: router_inv_def)
  with assms ord show ?thesis
    by (auto simp: router_inv_def evictOldest_def length_mdelete)
qed

lemma touch_inv:
  assumes "router_inv r" "sid \<in> mkeys (r_sessionModels r)"
  shows "router_inv (touchAccessOrder r sid)"
  using assms removeFirst_distinct [of "r_accessOrder r" sid]
  by (auto simp: router_inv_def simp del: set_map)

lemma update_entry_inv:
  assumes "router_inv r" "sid \<in> mkeys (r_sessionModels r)"
  shows "router_inv (r\<lparr>r_sessionModels := massign sid e (r_sessionModels r)\<rparr>)"
  using assms by (auto simp: router_inv_def length_massign)

lemma insert_inv:
  assumes "router_inv r" "sid \<notin> mkeys (r_sessionModels r)"
    and "0 < r_maxSessions r \<Longrightarrow> int (length (r_sessionModels r)) < r_maxSessions r"
  shows "router_inv (r\<lparr>r_sessionModels := massign sid e (r_sessionModels r),
    r_accessOrder := r_accessOrder r @ [sid], r_next := n\<rparr>)"
  using assms by (auto simp: router_inv_def length_massign)

lemma remember_inv:
  assumes "router_inv r"
  shows "router_inv (remember r now sid m)"
proof (cases "map_of (r_sessionModels r) sid")
  case None
  then have new: "sid \<notin> mkeys (r_sessionModels r)" by (simp add: map_of_eq_None_iff)
  let ?full = "0 < r_maxSessions r \<and> r_maxSessions r \<le> int (length (r_sessionModels r))"
  let ?r = "if ?full then evictOldest r else r"
  have "r_sessionModels r \<noteq> []" if ?full using that by auto
  then have "router_inv ?r \<and> sid \<notin> mkeys (r_sessionModels ?r) \<and>
      (0 < r_maxSessions ?r \<longrightarrow> int (length (r_sessionModels ?r)) < r_maxSessions ?r)"
    using assms new evictOldest_inv [OF assms] by (auto simp: router_inv_def)
  then have "router_inv (?r\<lparr>r_sessionModels := massign sid e (r_sessionModels ?r),
      r_accessOrder := r_accessOrder ?r @ [sid], r_next := n\<rparr>)" for e n by (intro insert_inv) auto
  with None show ?thesis by (simp add: remember_def Let_def)
next
  case (Some e)
  then have "sid \<in> mkeys (r_sessionModels r)" by (simp add: mkeys_map_of)
  with Some show ?thesis
    by (simp add: remember_def) (intro touch_inv update_entry_inv assms, auto)
qed

lemma expire_inv: "router_inv r \<Longrightarrow> router_inv (expire_section r sid)"
  using removeFirst_distinct [of "r_accessOrder r" sid]
  by (auto simp: router_inv_def expire_section_def removeFromAccessOrder_def length_mdelete)

lemma touch_section_inv:
  assumes "router_inv r" "map_of (r_sessionModels r) sid = Some e"
  shows "router_inv (touch_section r now sid entry)"
proof -
  have "sid \<in> mkeys (r_sessionModels r)" using assms(2) by (simp add: mkeys_map_of)
  with assms show ?thesis
    by (auto simp: touch_section_def intro!: touch_inv update_entry_inv)
qed

lemma ResolveModel_inv: "router_inv r \<Longrightarrow> router_inv (fst (ResolveModel r now modelName sid))"
  by (auto simp: ResolveModel_def remember_inv expire_inv touch_section_inv split: option.split)

inductive router_step :: "ModelRouter \<Rightarrow> ModelRouter \<Rightarrow> bool" where
  resolve: "router_step r (fst (ResolveModel r now modelName sid))"

inductive_simps router_step_iff: "router_step r r'"

lemma NewModelRouter_inv: "router_inv (NewModelRouter p c)"
  by (simp add: NewModelRouter_def router_inv_def split: option.split)

interpretation router: state_machine "\<lambda>r. \<exists>p c. r = NewModelRouter p c" router_step router_inv
  by unfold_locales (auto simp: NewModelRouter_inv router_step_iff ResolveModel_inv)

text \<open>
  C15. Requests served one after the other keep the router's table sound: after any sequence of
  resolutions, at any times, the recency list and the session map have exactly the same sessions,
  each once, and a configured capacity is never exceeded.
\<close>

theorem router_invariant:
  "router_step\<^sup>*\<^sup>* (NewModelRouter p c) r \<Longrightarrow>
   distinct (r_accessOrder r) \<and> set (r_accessOrder r) = mkeys (r_sessionModels r) \<and>
   (0 < r_maxSessions r \<longrightarrow> int (length (r_sessionModels r)) \<le> r_maxSessions r)"
  using router.reachable_inv [of "NewModelRouter p c" r] by (auto simp: router_inv_def)

theorem router_invariant_witness:
  "distinct (r_accessOrder (fst (ResolveModel (NewModelRouter (Some sample_profiles) None) 5 ''m'' ''s'')))"
  by (rule router_invariant [THEN conjunct1]) (blast intro: resolve)

section \<open>Refinement of a least-recently-used cache\<close>

text \<open>
  The abstract router keeps one list of sessions, least recently used first, with the model and the
  time of last use.
\<close>

type_synonym lru = "(string \<times> RoutedModel \<times> go_time) list"

definition lru_drop :: "string \<Rightarrow> lru \<Rightarrow> lru" where
  "lru_drop sid c = filter (\<lambda>x. fst x \<noteq> sid) c"

definition lru_remember :: "int \<Rightarrow> go_time \<Rightarrow> string \<Rightarrow> RoutedModel \<Rightarrow> lru \<Rightarrow> lru" where
  "lru_remember cap now sid m c =
     (case map_of c sid of
        Some (m0, _) \<Rightarrow> lru_drop sid c @ [(sid, m0, now)]
      | None \<Rightarrow> (if 0 < cap \<and> cap \<le> int (length c) then tl c else c) @ [(sid, m, now)])"

definition lru_recall :: "int \<Rightarrow> go_time \<Rightarrow> string \<Rightarrow> lru \<Rightarrow> lru \<times> (GatewayError, RoutedModel) result" where
  "lru_recall ttl now sid c =
     (case map_of c sid of
        None \<Rightarrow> (c, Inl ErrModelNotFound)
      | Some (m, used) \<Rightarrow>
          if 0 < ttl \<and> ttl < now - used then (lru_drop sid c, Inl ErrModelNotFound)
          else (lru_drop sid c @ [(sid, m, now)], Inr m))"

definition lru_resolve ::
  "(string \<Rightarrow> RoutedModel option) option \<Rightarrow> int \<Rightarrow> int \<Rightarrow> go_time \<Rightarrow> string \<Rightarrow> string \<Rightarrow> lru
   \<Rightarrow> lru \<times> (GatewayError, RoutedModel) result" where
  "lru_resolve lookup cap ttl now name sid c =
     (case lookup of
        None \<Rightarrow> (c, Inl ErrModelNotFound)
      | Some f \<Rightarrow>
          if name = [] then (c, Inl ErrModelNotFound)
          else case f name of
            Some m \<Rightarrow> (if sid = [] then c else lru_remember cap now sid m c, Inr m)
          | None \<Rightarrow> if sid = [] then (c, Inl ErrModelNotFound) else lru_recall ttl now sid c)"

definition entry_view :: "sessionEntry \<Rightarrow> RoutedModel \<times> go_time" where
  "entry_view e = (ent_model e, ent_lastUsed e)"

definition lru_abs :: "ModelRouter \<Rightarrow> lru" where
  "lru_abs r = map (\<lambda>sid. (sid, entry_view (the (map_of (r_sessionModels r) sid)))) (r_accessOrder r)"

lemma map_of_view: "map_of (map (\<lambda>s. (s, g s)) xs) s = (if s \<in> set xs then Some (g s) else None)"
  by (induction xs) auto

lemma map_of_lru_abs:
  "router_inv r \<Longrightarrow> map_of (lru_abs r) sid = map_option entry_view (map_of (r_sessionModels r) sid)"
  by (cases "map_of (r_sessionModels r) sid")
    (simp_all add: lru_abs_def map_of_view router_inv_def mkeys_map_of del: set_map)

lemma length_lru_abs: "router_inv r \<Longrightarrow> length (lru_abs r) = length (r_sessionModels r)"
  by (metis distinct_card is_go_map_length length_map lru_abs_def router_inv_def)

lemma lru_drop_abs:
  "lru_drop sid (lru_abs r)
    = map (\<lambda>s. (s, entry_view (the (map_of (r_sessionModels r) s)))) (filter (\<lambda>s. s \<noteq> sid) (r_accessOrder r))"
  by (simp add: lru_drop_def lru_abs_def filter_map comp_def)

lemma lru_abs_touch:
  assumes "router_inv r"
  shows "lru_abs (touchAccessOrder (r\<lparr>r_sessionModels := massign sid e (r_sessionModels r)\<rparr>) sid)
    = lru_drop sid (lru_abs r) @ [(sid, entry_view e)]"
  using assms unfolding lru_drop_abs
  by (auto simp: lru_abs_def removeFirst_filter router_inv_def)

lemma lru_abs_evict:
  "router_inv r \<Longrightarrow> lru_abs (evictOldest r) = tl (lru_abs r)"
  by (auto simp: lru_abs_def evictOldest_def router_inv_def split: list.split)

lemma lru_abs_insert:
  assumes "router_inv r" "sid \<notin> mkeys (r_sessionModels r)"
  shows "lru_abs (r\<lparr>r_sessionModels := massign sid e (r_sessionModels r),
      r_accessOrder := r_accessOrder r @ [sid], r_next := n\<rparr>) = lru_abs r @ [(sid, entry_view e)]"
  using assms by (auto simp: lru_abs_def router_inv_def)

lemma lru_abs_expire:
  assumes "router_inv r"
  shows "lru_abs (expire_section r sid) = lru_drop sid (lru_abs r)"
  using assms unfolding lru_drop_abs
  by (auto simp: lru_abs_def expire_section_def removeFromAccessOrder_def router_inv_def
      removeFirst_filter)

lemma lru_abs_remember:
  assumes "router_inv r"
  shows "lru_abs (remember r now sid m) = lru_remember (r_maxSessions r) now sid m (lru_abs r)"
proof (cases "map_of (r_sessionModels r) sid")
  case None
  then have new: "sid \<notin> mkeys (r_sessionModels r)" by (simp add: map_of_eq_None_iff)
  let ?full = "0 < r_maxSessions r \<and> r_maxSessions r \<le> int (length (r_sessionModels r))"
  let ?r = "if ?full then evictOldest r else r"
  have "r_sessionModels r \<noteq> []" if ?full using that by auto
  then have "router_inv ?r \<and> sid \<notin> mkeys (r_sessionModels ?r)"
    using assms new evictOldest_inv [OF assms] by auto
  then have "lru_abs (remember r now sid m) = lru_abs ?r @ [(sid, m, now)]"
    using None lru_abs_insert [of ?r sid] by (simp add: remember_def Let_def entry_view_def)
  then show ?thesis
    using None by (simp add: lru_remember_def map_of_lru_abs assms length_lru_abs lru_abs_evict)
next
  case (Some e)
  then show ?thesis
    by (simp add: lru_remember_def map_of_lru_abs assms remember_def lru_abs_touch entry_view_def)
qed

lemma lru_abs_touch_section:
  assumes "router_inv r" "map_of (r_sessionModels r) sid = Some e"
  shows "lru_abs (touch_section r now sid e) = lru_drop sid (lru_abs r) @ [(sid, ent_model e, now)]"
  using assms by (simp add: touch_section_def lru_abs_touch entry_view_def)

text \<open>
  C25. The router refines a least-recently-used cache: seen as a list of sessions in order of use,
  every resolution does what the abstract cache does. In particular the first model of a session
  sticks, a full table drops exactly the session unused for longest, an unknown model name is
  answered with the session's model unless it expired, and every answer is the abstract one.
\<close>

theorem ResolveModel_refines_lru:
  assumes "router_inv r"
  shows "(lru_abs (fst (ResolveModel r now name sid)), snd (ResolveModel r now name sid))
    = lru_resolve (map_option find_model (r_profiles r)) (r_maxSessions r) (r_sessionTTL r) now name sid
        (lru_abs r)"
  using assms
  by (auto simp: ResolveModel_def lru_resolve_def lru_recall_def map_of_lru_abs lru_abs_remember
      lru_abs_expire lru_abs_touch_section entry_view_def expired_def split: option.split)

theorem ResolveModel_refines_lru_witness:
  "let r = fst (ResolveModel (NewModelRouter (Some sample_profiles) None) 5 ''m'' ''s'')
   in snd (ResolveModel r 6 ''unknown'' ''s'')
      = snd (lru_resolve (Some (find_model sample_profiles)) 0 0 6 ''unknown'' ''s'' (lru_abs r))"
proof -
  let ?r = "fst (ResolveModel (NewModelRouter (Some sample_profiles) None) 5 ''m'' ''s'')"
  have "router_inv ?r" by (intro ResolveModel_inv NewModelRouter_inv)
  moreover have "r_profiles ?r = Some sample_profiles" "r_maxSessions ?r = 0" "r_sessionTTL ?r = 0"
    by (simp_all add: ResolveModel_def remember_def NewModelRouter_def split: option.split)
  ultimately show ?thesis
    using ResolveModel_refines_lru [of ?r 6 "''unknown''" "''s''"] by (metis option.map(2) snd_conv)
qed

section \<open>Concurrent requests\<close>

text \<open>
  Concurrent requests interleave at critical sections. The second component holds the requests that
  have read their session's entry and not yet taken the write lock.
\<close>

type_synonym router_conc = "ModelRouter \<times> (string \<times> sessionEntry) list"

inductive conc_step :: "router_conc \<Rightarrow> router_conc \<Rightarrow> bool" where
  conc_known: "sid \<noteq> [] \<Longrightarrow> conc_step (r, ps) (remember r now sid m, ps)"
| conc_read: "map_of (r_sessionModels r) sid = Some e \<Longrightarrow> conc_step (r, ps) (r, (sid, e) # ps)"
| conc_use: "(sid, e) \<in> set ps \<Longrightarrow> \<not> expired r now e \<Longrightarrow>
    conc_step (r, ps) (touch_section r now sid e, remove1 (sid, e) ps)"
| conc_expire: "(sid, e) \<in> set ps \<Longrightarrow> expired r now e \<Longrightarrow>
    conc_step (r, ps) (expire_section r sid, remove1 (sid, e) ps)"

definition all_evictable :: "router_conc \<Rightarrow> bool" where
  "all_evictable s \<longleftrightarrow> is_go_map (r_sessionModels (fst s)) \<and>
     mkeys (r_sessionModels (fst s)) \<subseteq> set (r_accessOrder (fst s))"

lemma set_removeFirst: "set xs - {x} \<subseteq> set (removeFirst x xs)"
  by (induction xs) auto

lemma evictable_touch:
  "is_go_map (r_sessionModels r) \<Longrightarrow> mkeys (r_sessionModels r) \<subseteq> set (r_accessOrder r) \<Longrightarrow>
   mkeys (r_sessionModels (touchAccessOrder r sid)) \<subseteq> set (r_accessOrder (touchAccessOrder r sid))"
  using set_removeFirst [of "r_accessOrder r" sid] by auto

lemma evictable_evict:
  assumes "is_go_map (r_sessionModels r)" "mkeys (r_sessionModels r) \<subseteq> set (r_accessOrder r)"
  shows "is_go_map (r_sessionModels (evictOldest r)) \<and>
    mkeys (r_sessionModels (evictOldest r)) \<subseteq> set (r_accessOrder (evictOldest r))"
  using assms by (cases "r_accessOrder r") (auto simp: evictOldest_def)

lemma evictable_remember:
  assumes "all_evictable (r, ps)"
  shows "all_evictable (remember r now sid m, ps)"
proof (cases "map_of (r_sessionModels r) sid")
  case None
  with assms evictable_evict [of r] show ?thesis
    by (auto simp: all_evictable_def remember_def Let_def simp del: set_map)
next
  case (Some e)
  then have "sid \<in> mkeys (r_sessionModels r)" by (simp add: mkeys_map_of)
  with Some assms set_removeFirst [of "r_accessOrder r" sid] show ?thesis
    by (auto simp: all_evictable_def remember_def)
qed

lemma evictable_touch_section:
  assumes "all_evictable (r, ps)"
  shows "all_evictable (touch_section r now sid e, qs)"
proof -
  have "sid \<in> mkeys (r_sessionModels r)" if "map_of (r_sessionModels r) sid = Some e'" for e'
    using that by (simp add: mkeys_map_of)
  with assms set_removeFirst [of "r_accessOrder r" sid] show ?thesis
    by (auto simp: all_evictable_def touch_section_def split: option.split)
qed

interpretation conc_router: state_machine "\<lambda>s. \<exists>p c. s = (NewModelRouter p c, [])" conc_step all_evictable
proof
  fix s t
  show "all_evictable s" if "\<exists>p c. s = (NewModelRouter p c, [])"
    using that by (auto simp: all_evictable_def NewModelRouter_def)
  assume "all_evictable s" "conc_step s t"
  from this(2,1) show "all_evictable t"
  proof (induction rule: conc_step.induct)
    case (conc_expire sid e ps r now)
    with set_removeFirst [of "r_accessOrder r" sid] show ?case
      by (auto simp: all_evictable_def expire_section_def removeFromAccessOrder_def)
  next
    case (conc_read r sid e ps)
    then show ?case by (simp add: all_evictable_def)
  qed (simp_all add: evictable_remember evictable_touch_section)
qed

text \<open>
  However concurrent requests interleave, no session becomes unevictable: every session of the
  map is in the recency list.
\<close>

theorem concurrent_sessions_evictable:
  "conc_step\<^sup>*\<^sup>* (NewModelRouter p c, []) (r, ps) \<Longrightarrow> mkeys (r_sessionModels r) \<subseteq> set (r_accessOrder r)"
  using conc_router.reachable_inv [of "(NewModelRouter p c, [])" "(r, ps)"] by (auto simp: all_evictable_def)

definition capacity_one :: ModelRouter where
  "capacity_one = (NewModelRouter None None)\<lparr>r_maxSessions := 1\<rparr>"

definition some_model :: RoutedModel where
  "some_model = \<lparr>rm_Provider = ''p'', rm_KeyName = ''k'', rm_KeyValue = ''v'', rm_Model = ''m'', rm_Mode = [],
     rm_ToolCallFallback = False, rm_MaxOutputTokens = 0, rm_Reasoning = None\<rparr>"

theorem concurrent_sessions_evictable_witness:
  "mkeys (r_sessionModels (remember (NewModelRouter None None) 0 ''a'' some_model))
    \<subseteq> set (r_accessOrder (remember (NewModelRouter None None) 0 ''a'' some_model))"
  by (rule concurrent_sessions_evictable [of None None _ "[]"])
    (rule r_into_rtranclp, rule conc_known, simp)

text \<open>
  The capacity is not kept under concurrency: with room for one session, a request that has read
  its entry and is overtaken by an eviction puts a dead id into the recency list; evicting that id
  later frees nothing, and the table ends with two sessions.
\<close>

theorem concurrent_capacity_exceeded:
  "\<exists>r ps. conc_step\<^sup>*\<^sup>* (capacity_one, []) (r, ps) \<and> r_maxSessions r = 1 \<and>
     length (r_sessionModels r) = 2"
proof -
  define r1 where "r1 = remember capacity_one 0 ''a'' some_model"
  define e where "e = \<lparr>ent_ptr = 0, ent_model = some_model, ent_lastUsed = 0\<rparr>"
  define r2 where "r2 = remember r1 0 ''b'' some_model"
  define r3 where "r3 = touch_section r2 0 ''a'' e"
  define r4 where "r4 = remember r3 0 ''c'' some_model"
  define r5 where "r5 = remember r4 0 ''d'' some_model"
  note defs = capacity_one_def NewModelRouter_def remember_def evictOldest_def touch_section_def
    touchAccessOrder_def removeFromAccessOrder_def Let_def
  have r1: "r_sessionModels r1 = [(''a'', e)]" "r_accessOrder r1 = [''a'']" "r_maxSessions r1 = 1"
    "r_sessionTTL r1 = 0"
    by (simp_all add: r1_def e_def defs)
  have r2: "map fst (r_sessionModels r2) = [''b'']" "r_accessOrder r2 = [''b'']" "r_maxSessions r2 = 1"
    "r_sessionTTL r2 = 0"
    using r1 by (simp_all add: r2_def defs)
  have "map_of (r_sessionModels r2) ''a'' = None" using r2(1) by (auto simp: map_of_eq_None_iff)
  then have r3: "map fst (r_sessionModels r3) = [''b'']" "r_accessOrder r3 = [''b'', ''a'']" "r_maxSessions r3 = 1"
    using r2 by (simp_all add: r3_def touch_section_def)
  have r4: "map fst (r_sessionModels r4) = [''c'']" "r_accessOrder r4 = [''a'', ''c'']" "r_maxSessions r4 = 1"
    using r3 by (auto simp: r4_def defs)
  have r5: "length (r_sessionModels r5) = 2" "r_maxSessions r5 = 1"
    using r4 by (auto simp: r5_def defs)
  have "conc_step\<^sup>*\<^sup>* (capacity_one, []) (r1, [])" unfolding r1_def by (intro r_into_rtranclp conc_known) simp
  also have "conc_step\<^sup>*\<^sup>* (r1, []) (r1, [(''a'', e)])" using r1 by (intro r_into_rtranclp conc_read) simp
  also have "conc_step\<^sup>*\<^sup>* (r1, [(''a'', e)]) (r2, [(''a'', e)])"
    unfolding r2_def by (intro r_into_rtranclp conc_known) simp
  also have "conc_step (r2, [(''a'', e)]) (touch_section r2 0 ''a'' e, remove1 (''a'', e) [(''a'', e)])"
    by (rule conc_use) (use r2 in \<open>simp_all add: expired_def\<close>)
  then have "conc_step\<^sup>*\<^sup>* (r2, [(''a'', e)]) (r3, [])" by (simp add: r3_def r_into_rtranclp)
  also have "conc_step\<^sup>*\<^sup>* (r3, []) (r4, [])" unfolding r4_def by (intro r_into_rtranclp conc_known) simp
  also have "conc_step\<^sup>*\<^sup>* (r4, []) (r5, [])" unfolding r5_def by (intro r_into_rtranclp conc_known) simp
  finally show ?thesis using r5 by blast
qed

section \<open>The lookup\<close>

lemma find_unique:
  assumes "x \<in> set xs" "P x" "\<And>y. y \<in> set xs \<Longrightarrow> P y \<Longrightarrow> y = x"
  shows "find P xs = Some x"
proof (cases "find P xs")
  case None
  then have "\<not> P x" using assms(1) by (simp add: find_None_iff)
  with assms(2) show ?thesis by contradiction
next
  case (Some y)
  then have "y \<in> set xs \<and> P y" by (auto simp: find_Some_iff)
  with assms(3) Some show ?thesis by simp
qed

text \<open>
  The lookup is sound and complete, and independent of Go's random iteration order for a model
  that is configured once: it answers with that model under its provider and key, whatever the
  order of the providers; a name that is not configured is not found.
\<close>

theorem find_model_unique:
  assumes "mset (Providers c) = mset (Providers c')"
    and "(prov, key, model) \<in> set (all_models c)"
    and "\<forall>m \<in> set (all_models c). mc_Name (snd (snd m)) = mc_Name model \<longrightarrow> m = (prov, key, model)"
  shows "find_model c' (mc_Name model) = Some (routed (prov, key, model)) \<and>
    (find_model c' name = None \<longleftrightarrow> (\<forall>m \<in> set (all_models c). mc_Name (snd (snd m)) \<noteq> name))"
proof -
  have "set (Providers c) = set (Providers c')" using assms(1) by (metis set_mset_mset)
  then have eq: "set (all_models c') = set (all_models c)" by (simp add: all_models_provider)
  have "find (\<lambda>(p, k, m). mc_Name m = mc_Name model) (all_models c') = Some (prov, key, model)"
    unfolding case_prod_unfold
  proof (rule find_unique)
    show "(prov, key, model) \<in> set (all_models c')" using assms(2) eq by simp
    show "y = (prov, key, model)" if "y \<in> set (all_models c')" "mc_Name (snd (snd y)) = mc_Name model" for y
      using assms(3) eq that by blast
  qed simp
  then show ?thesis
    unfolding find_model_def option.map_disc_iff by (simp add: find_None_iff eq case_prod_unfold) fastforce
qed

theorem find_model_unique_witness:
  "find_model sample_profiles ''m'' \<noteq> None \<and> find_model sample_profiles ''x'' = None"
proof -
  let ?model = "\<lparr>mc_Name = ''m'', LogicalName = ''fast'', mc_Mode = [], Behavior = None\<rparr>"
  let ?key = "\<lparr>kc_Name = ''k'', Secret = ''s'', Weight = 0, Models = [?model]\<rparr>"
  have models: "all_models sample_profiles = [(''openai'', ?key, ?model)]"
    by (simp add: sample_profiles_def all_models_def provider_models_def)
  have "find_model sample_profiles (mc_Name ?model) = Some (routed (''openai'', ?key, ?model)) \<and>
      (find_model sample_profiles ''x'' = None \<longleftrightarrow>
        (\<forall>m \<in> set (all_models sample_profiles). mc_Name (snd (snd m)) \<noteq> ''x''))"
    by (rule find_model_unique) (simp_all add: models)
  then show ?thesis by (simp add: models)
qed

definition two_provider_profiles :: "bool \<Rightarrow> ModelProfilesConfig" where
  "two_provider_profiles swapped =
     (let p = (\<lambda>n. (n, \<lparr>ApiKeys = [\<lparr>kc_Name = ''k'', Secret = ''s'', Weight = 0,
                 Models = [\<lparr>mc_Name = ''m'', LogicalName = [], mc_Mode = [], Behavior = None\<rparr>]\<rparr>],
                 pc_NetworkConfig = None\<rparr>));
          ps = [p ''openai'', p ''azure'']
      in \<lparr>DefaultProfile = \<lparr>dp_Provider = [], dp_Model = []\<rparr>,
          Providers = (if swapped then rev ps else ps), CodingAgents = []\<rparr>)"

text \<open>
  Validation does not demand that a model name be unique across providers, and then the answer
  of the router depends on Go's iteration order: the same accepted configuration routes the same
  request to one provider or to the other.
\<close>

theorem find_model_order_dependent:
  "mset (Providers (two_provider_profiles False)) = mset (Providers (two_provider_profiles True)) \<and>
   Validate (two_provider_profiles False) = None \<and>
   map_option rm_Provider (find_model (two_provider_profiles False) ''m'') = Some ''openai'' \<and>
   map_option rm_Provider (find_model (two_provider_profiles True) ''m'') = Some ''azure''"
  by (simp add: two_provider_profiles_def Let_def find_model_def all_models_def provider_models_def
      routed_def Validate_def check_provider_def check_model_def validateModelMode_def)

section \<open>Tools and secrets\<close>

text \<open>
  For every provider but OpenAI the filtered request has only function and web search tools, in
  their original order; Gemini never gets function and search tools together, and function tools
  are never lost; a request left without tools has no tool choice.
\<close>

theorem SanitizeToolsForProvider_spec:
  assumes "SanitizeToolsForProvider (Some p) provider = Some q" and "provider \<noteq> OpenAIProvider"
  shows "subseq (tp_Tools q) (tp_Tools p) \<and>
    (\<forall>t \<in> set (tp_Tools q). fst t \<in> {FunctionTool, WebSearchTool, WebSearchPreviewTool}) \<and>
    filter (\<lambda>t. fst t = FunctionTool) (tp_Tools q) = filter (\<lambda>t. fst t = FunctionTool) (tp_Tools p) \<and>
    (provider = GeminiProvider \<longrightarrow>
      (\<forall>t \<in> set (tp_Tools q). fst t = FunctionTool) \<or> (\<forall>t \<in> set (tp_Tools q). fst t \<noteq> FunctionTool)) \<and>
    (tp_Tools q = [] \<longrightarrow> tp_ToolChoice q = None)"
proof -
  let ?ok = "\<lambda>t. fst t \<in> {FunctionTool, WebSearchTool, WebSearchPreviewTool}"
  let ?fn = "\<lambda>t. fst t = FunctionTool"
  let ?both = "list_ex (\<lambda>t. fst t \<in> {WebSearchTool, WebSearchPreviewTool}) (tp_Tools p) \<and>
    list_ex ?fn (tp_Tools p) \<and> provider = GeminiProvider"
  define ts where "ts = (if ?both then filter ?fn (filter ?ok (tp_Tools p)) else filter ?ok (tp_Tools p))"
  from assms have q: "q = (if ts = [] then p\<lparr>tp_Tools := [], tp_ToolChoice := None\<rparr> else p\<lparr>tp_Tools := ts\<rparr>)"
    unfolding SanitizeToolsForProvider_def Let_def option.case ts_def [symmetric]
    by (simp split: if_splits)
  then have tools: "tp_Tools q = ts" by simp
  have "subseq ts (tp_Tools p)"
    unfolding ts_def by (auto intro: subseq_filter_left simp del: filter_filter) (simp add: subseq_filter_left)
  moreover have "\<forall>t \<in> set ts. ?ok t" by (auto simp: ts_def)
  moreover have "filter ?fn ts = filter ?fn (tp_Tools p)"
    by (auto simp: ts_def intro: filter_cong)
  moreover have "(\<forall>t \<in> set ts. ?fn t) \<or> (\<forall>t \<in> set ts. \<not> ?fn t)" if "provider = GeminiProvider"
    using that by (auto simp: ts_def list_ex_iff)
  moreover have "ts = [] \<Longrightarrow> tp_ToolChoice q = None" using q by simp
  ultimately show ?thesis unfolding tools by blast
qed

theorem SanitizeToolsForProvider_spec_witness:
  "let p = \<lparr>tp_Tools = [(FunctionTool, 1 :: nat), (OtherTool ''namespace'', 2), (WebSearchTool, 3)], tp_ToolChoice = Some 0\<rparr>
   in \<forall>q. SanitizeToolsForProvider (Some p) GeminiProvider = Some q \<longrightarrow> subseq (tp_Tools q) (tp_Tools p)"
  using SanitizeToolsForProvider_spec
    [of "\<lparr>tp_Tools = [(FunctionTool, 1 :: nat), (OtherTool ''namespace'', 2), (WebSearchTool, 3)], tp_ToolChoice = Some 0\<rparr>"
      GeminiProvider]
  by (simp only: Let_def) blast

text \<open>
  A masked secret shows at most the last four bytes of the secret, and nothing at all of a
  secret of up to four bytes.
\<close>

theorem MaskSecret_hides:
  "(length s = length t \<and> drop (length s - 4) s = drop (length t - 4) t \<longrightarrow> MaskSecret s = MaskSecret t) \<and>
   length (MaskSecret s) \<le> 8 \<and> (length s \<le> 4 \<longrightarrow> MaskSecret s = ''****'')"
  by (auto simp: MaskSecret_def)

theorem MaskSecret_hides_witness: "MaskSecret ''aaaa1234'' = MaskSecret ''bbbb1234''"
  using MaskSecret_hides [of "''aaaa1234''" "''bbbb1234''"] by simp

end
