(* ===== verification/WBS_Planning.thy ===== *)
theory WBS_Planning
  imports Tern_Prelude
begin

text \<open>
  Work breakdown structures, \<open>wayfinder/planning\<close>: the tree of steps with their dependencies
  (\<open>wbs_tree.go\<close>), the planner that asks a model for one (\<open>wbs_planner.go\<close>) and the orchestrator
  that executes it node by node (\<open>wbs_orchestrator.go\<close>).

  The executor of a node and the context are parameters: \<open>exec n node\<close> is what the \<open>n\<close>-th call
  answers and \<open>ctxErr n\<close> the context's error when the loop looks at it before that call. The
  state of the loop records the tree, the nodes handed to the executor, the trees saved by the
  persister and the events emitted.
\<close>

section \<open>The tree\<close>

abbreviation "StatusPending \<equiv> ''pending''"
abbreviation "StatusRunning \<equiv> ''running''"
abbreviation "StatusCompleted \<equiv> ''completed''"
abbreviation "StatusFailed \<equiv> ''failed''"
abbreviation "StatusSuspended \<equiv> ''suspended''"

datatype WBSNode =
  WBSNode (wn_ID: string) (wn_Name: string) (wn_Description: string) (wn_Status: string)
    (wn_Dependencies: "string list") (wn_SubSteps: "WBSNode list") (wn_ResultSummary: string)

type_synonym WBSTree = "WBSNode list"

fun walkNodeRecursive :: "WBSNode \<Rightarrow> WBSNode list" where
  "walkNodeRecursive (WBSNode i n d s deps subs r) =
     WBSNode i n d s deps subs r # concat (map walkNodeRecursive subs)"

definition walkNodes :: "WBSTree \<Rightarrow> WBSNode list" where
  "walkNodes t = concat (map walkNodeRecursive t)"

text \<open>A mutating walk sets the status and the result of a node from its id, status and result.\<close>

fun mutNode :: "(string \<Rightarrow> string \<Rightarrow> string \<Rightarrow> string \<times> string) \<Rightarrow> WBSNode \<Rightarrow> WBSNode" where
  "mutNode f (WBSNode i n d s deps subs r) =
     WBSNode i n d (fst (f i s r)) deps (map (mutNode f) subs) (snd (f i s r))"

definition walkNodesMut :: "(string \<Rightarrow> string \<Rightarrow> string \<Rightarrow> string \<times> string) \<Rightarrow> WBSTree \<Rightarrow> WBSTree" where
  "walkNodesMut f t = map (mutNode f) t"

definition buildStatusMap :: "WBSTree \<Rightarrow> string \<rightharpoonup> string" where
  "buildStatusMap t = foldl (\<lambda>m n. m(wn_ID n \<mapsto> wn_Status n)) Map.empty (walkNodes t)"

definition executable :: "(string \<rightharpoonup> string) \<Rightarrow> WBSNode \<Rightarrow> bool" where
  "executable m n \<longleftrightarrow> wn_Status n = StatusPending \<and>
     list_all (\<lambda>d. m d = Some StatusCompleted) (wn_Dependencies n)"

definition NextExecutableNodes :: "WBSTree \<Rightarrow> WBSNode list" where
  "NextExecutableNodes t = filter (executable (buildStatusMap t)) (walkNodes t)"

definition IsComplete :: "WBSTree \<Rightarrow> bool" where
  "IsComplete t \<longleftrightarrow> list_all (\<lambda>n. wn_Status n = StatusCompleted) (walkNodes t)"

definition HasFailed :: "WBSTree \<Rightarrow> bool" where
  "HasFailed t \<longleftrightarrow> list_ex (\<lambda>n. wn_Status n = StatusFailed) (walkNodes t)"

definition IsDeadlocked :: "WBSTree \<Rightarrow> bool" where
  "IsDeadlocked t \<longleftrightarrow> list_ex (\<lambda>n. wn_Status n = StatusPending) (walkNodes t) \<and>
     length (NextExecutableNodes t) = 0"

definition UpdateNodeStatus :: "WBSTree \<Rightarrow> string \<Rightarrow> string \<Rightarrow> string \<Rightarrow> WBSTree \<times> bool" where
  "UpdateNodeStatus t nodeID status result =
     (walkNodesMut (\<lambda>i s r. if i = nodeID then (status, result) else (s, r)) t,
      list_ex (\<lambda>n. wn_ID n = nodeID) (walkNodes t))"

definition Progress :: "WBSTree \<Rightarrow> nat \<times> nat" where
  "Progress t = (length (filter (\<lambda>n. wn_Status n = StatusCompleted) t), length t)"

section \<open>The planner\<close>

datatype plan_error = GenerationFailed string | ParseFailed

definition after_index :: "string \<Rightarrow> string \<Rightarrow> string option" where
  "after_index s sub = map_option (\<lambda>i. drop (i + length sub) s) (strIndex s sub)"

definition before_index :: "string \<Rightarrow> string \<Rightarrow> string option" where
  "before_index s sub = map_option (\<lambda>i. take i s) (strIndex s sub)"

definition fence :: string where
  "fence = replicate 3 (CHR 0x60)"

definition fenced :: "string \<Rightarrow> string \<Rightarrow> string option" where
  "fenced opening content = map_option TrimSpace (Option.bind (after_index content opening) (\<lambda>s. before_index s fence))"

definition extractJSON :: "string \<Rightarrow> string" where
  "extractJSON content =
     (let content = TrimSpace content
      in case fenced (fence @ ''json'') content of
           Some j \<Rightarrow> j
         | None \<Rightarrow>
             (case fenced fence content of
                Some j \<Rightarrow> j
              | None \<Rightarrow>
                  (case (strIndex content ''{'', strLastIndex content ''}'') of
                     (Some idx, Some endIdx) \<Rightarrow>
                       if idx < endIdx then take (endIdx + 1 - idx) (drop idx content) else content
                   | _ \<Rightarrow> content)))"

text \<open>\<open>llm\<close> is the model's answer and \<open>unmarshal\<close> the JSON decoder for a tree.\<close>

definition GenerateWBS ::
  "(string, string) result \<Rightarrow> (string \<Rightarrow> WBSTree option) \<Rightarrow> bool \<Rightarrow> (plan_error, WBSTree) result" where
  "GenerateWBS llm unmarshal useStructuredOutput =
     (case llm of
        Inl e \<Rightarrow> Inl (GenerationFailed e)
      | Inr content \<Rightarrow>
          (case unmarshal (if useStructuredOutput then content else extractJSON content) of
             None \<Rightarrow> Inl ParseFailed
           | Some tree \<Rightarrow> Inr (walkNodesMut (\<lambda>i s r. (StatusPending, r)) tree)))"

section \<open>The orchestrator\<close>

datatype exec_result = Finished string | Suspend string | Fail string

datatype wbs_error =
    FailedNodes "string list" | Deadlocked | NoExecutable | Cancelled string | ErrSuspended

record wbs_state =
  ws_tree :: WBSTree
  ws_calls :: "WBSNode list"
  ws_saved :: "WBSTree list"
  ws_events :: "(string \<times> string) list"

definition node_title :: "WBSNode \<Rightarrow> string" where
  "node_title n = wn_ID n @ '': '' @ wn_Name n"

text \<open>\<open>set_status\<close> is an update of the tree followed by \<open>persist\<close>, \<open>emit\<close> appends an event.\<close>

definition set_status :: "string \<Rightarrow> string \<Rightarrow> string \<Rightarrow> wbs_state \<Rightarrow> wbs_state" where
  "set_status i status result s =
     (let t = fst (UpdateNodeStatus (ws_tree s) i status result)
      in s\<lparr>ws_tree := t, ws_saved := ws_saved s @ [t]\<rparr>)"

definition emit :: "string \<Rightarrow> string \<Rightarrow> wbs_state \<Rightarrow> wbs_state" where
  "emit ty content s = s\<lparr>ws_events := ws_events s @ [(ty, content)]\<rparr>"

definition handleFailure :: "WBSTree \<Rightarrow> wbs_error" where
  "handleFailure t =
     FailedNodes (map (\<lambda>n. wn_ID n @ '' ('' @ wn_Name n @ ''): '' @ wn_ResultSummary n)
       (filter (\<lambda>n. wn_Status n = StatusFailed) (walkNodes t)))"

type_synonym executor = "nat \<Rightarrow> WBSNode \<Rightarrow> exec_result"

text \<open>The inner loop over the executable nodes; \<open>Some\<close> error is a return of \<open>Execute\<close>.\<close>

fun run_nodes ::
  "executor \<Rightarrow> (nat \<Rightarrow> string option) \<Rightarrow> WBSNode list \<Rightarrow> wbs_state \<Rightarrow> wbs_state \<times> wbs_error option" where
  "run_nodes exec ctxErr [] s = (s, None)"
| "run_nodes exec ctxErr (node # nodes) s =
     (case ctxErr (length (ws_calls s)) of
        Some e \<Rightarrow> (s, Some (Cancelled e))
      | None \<Rightarrow>
          (let call = length (ws_calls s);
               s = emit ''node_start'' (node_title node) (set_status (wn_ID node) StatusRunning [] s);
               s = s\<lparr>ws_calls := ws_calls s @ [node]\<rparr>
           in case exec call node of
                Suspend result \<Rightarrow>
                  (emit ''node_suspended'' (node_title node) (set_status (wn_ID node) StatusSuspended result s),
                   Some ErrSuspended)
              | Fail e \<Rightarrow>
                  (let s = emit ''node_failed'' (node_title node @ '' - '' @ e)
                             (set_status (wn_ID node) StatusFailed (''Error: '' @ e) s)
                   in (s, Some (handleFailure (ws_tree s))))
              | Finished result \<Rightarrow>
                  (let s = emit ''node_complete'' (node_title node)
                             (set_status (wn_ID node) StatusCompleted result s);
                       (completed, total) = Progress (ws_tree s);
                       s = emit ''progress'' (Itoa (int completed) @ ''/'' @ Itoa (int total)) s
                   in run_nodes exec ctxErr nodes s)))"

definition CollectResults :: "WBSTree \<Rightarrow> string" where
  "CollectResults t =
     Join (map (\<lambda>n. ''['' @ wn_ID n @ ''] '' @ wn_Name n @ '': '' @ wn_ResultSummary n)
       (filter (\<lambda>n. wn_Status n = StatusCompleted \<and> wn_ResultSummary n \<noteq> []) (walkNodes t))) [CHR 0x0A]"

section \<open>Statuses under updates\<close>

text \<open>The nodes of a tree without their subtrees: id, status and dependencies in walking order.\<close>

definition flat :: "WBSTree \<Rightarrow> (string \<times> string \<times> string list) list" where
  "flat t = map (\<lambda>n. (wn_ID n, wn_Status n, wn_Dependencies n)) (walkNodes t)"

lemma walk_mutNode:
  "map (\<lambda>n. (wn_ID n, wn_Status n, wn_ResultSummary n, wn_Dependencies n)) (walkNodeRecursive (mutNode f n))
    = map (\<lambda>n. (wn_ID n, fst (f (wn_ID n) (wn_Status n) (wn_ResultSummary n)),
        snd (f (wn_ID n) (wn_Status n) (wn_ResultSummary n)), wn_Dependencies n)) (walkNodeRecursive n)"
proof (induction n)
  case (WBSNode i n d s deps subs r)
  then have "map (\<lambda>c. map (\<lambda>n. (wn_ID n, wn_Status n, wn_ResultSummary n, wn_Dependencies n))
      (walkNodeRecursive (mutNode f c))) subs
    = map (\<lambda>c. map (\<lambda>n. (wn_ID n, fst (f (wn_ID n) (wn_Status n) (wn_ResultSummary n)),
        snd (f (wn_ID n) (wn_Status n) (wn_ResultSummary n)), wn_Dependencies n)) (walkNodeRecursive c)) subs"
    by (intro map_ext impI) simp
  from arg_cong [OF this, of concat] show ?case by (simp add: map_concat comp_def del: map_eq_conv)
qed

lemma walk_walkNodesMut:
  "map (\<lambda>n. (wn_ID n, wn_Status n, wn_ResultSummary n, wn_Dependencies n)) (walkNodes (walkNodesMut f t))
    = map (\<lambda>n. (wn_ID n, fst (f (wn_ID n) (wn_Status n) (wn_ResultSummary n)),
        snd (f (wn_ID n) (wn_Status n) (wn_ResultSummary n)), wn_Dependencies n)) (walkNodes t)"
  by (simp add: walkNodes_def walkNodesMut_def map_concat comp_def walk_mutNode)

definition flat_set :: "string \<Rightarrow> string \<Rightarrow> (string \<times> string \<times> string list) list
    \<Rightarrow> (string \<times> string \<times> string list) list" where
  "flat_set i st xs = map (\<lambda>(j, s, ds). (j, if j = i then st else s, ds)) xs"

lemma flat_update: "flat (fst (UpdateNodeStatus t i st r)) = flat_set i st (flat t)"
proof -
  have "map (\<lambda>(j, s, r, ds). (j, s, ds))
      (map (\<lambda>n. (wn_ID n, wn_Status n, wn_ResultSummary n, wn_Dependencies n)) (walkNodes (walkNodesMut f t)))
    = map (\<lambda>(j, s, r, ds). (j, s, ds)) (map (\<lambda>n. (wn_ID n, fst (f (wn_ID n) (wn_Status n) (wn_ResultSummary n)),
        snd (f (wn_ID n) (wn_Status n) (wn_ResultSummary n)), wn_Dependencies n)) (walkNodes t))" for f
    by (simp only: walk_walkNodesMut)
  then show ?thesis
    by (simp add: flat_def UpdateNodeStatus_def flat_set_def comp_def)
qed

text \<open>The predicates of the tree, read off the flat view.\<close>

definition fstatus :: "(string \<times> string \<times> string list) list \<Rightarrow> string \<rightharpoonup> string" where
  "fstatus xs = foldl (\<lambda>m (i, s, ds). m(i \<mapsto> s)) Map.empty xs"

lemma buildStatusMap_flat: "buildStatusMap t = fstatus (flat t)"
  by (simp add: buildStatusMap_def fstatus_def flat_def foldl_map)

definition pending :: "(string \<times> string \<times> string list) list \<Rightarrow> nat" where
  "pending xs = length (filter (\<lambda>(i, s, ds). s = StatusPending) xs)"

lemma IsComplete_flat: "IsComplete t \<longleftrightarrow> (\<forall>(i, s, ds) \<in> set (flat t). s = StatusCompleted)"
  by (auto simp: IsComplete_def flat_def list_all_iff)

lemma HasFailed_flat: "HasFailed t \<longleftrightarrow> (\<exists>(i, s, ds) \<in> set (flat t). s = StatusFailed)"
  by (auto simp: HasFailed_def flat_def list_ex_iff)

lemma pending_flat: "pending (flat t) = length (filter (\<lambda>n. wn_Status n = StatusPending) (walkNodes t))"
  by (simp add: pending_def flat_def filter_map comp_def)

lemma NextExecutable_flat:
  "map (\<lambda>n. (wn_ID n, wn_Status n, wn_Dependencies n)) (NextExecutableNodes t)
    = filter (\<lambda>(i, s, ds). s = StatusPending \<and> (\<forall>d \<in> set ds. fstatus (flat t) d = Some StatusCompleted)) (flat t)"
proof -
  have "map (\<lambda>n. (wn_ID n, wn_Status n, wn_Dependencies n)) (filter (executable m) ns)
      = filter (\<lambda>(i, s, ds). s = StatusPending \<and> (\<forall>d \<in> set ds. m d = Some StatusCompleted))
          (map (\<lambda>n. (wn_ID n, wn_Status n, wn_Dependencies n)) ns)" for m ns
    by (induction ns) (auto simp: executable_def list_all_iff)
  then show ?thesis by (simp only: NextExecutableNodes_def buildStatusMap_flat flat_def)
qed

lemma IsDeadlocked_flat:
  "IsDeadlocked t \<longleftrightarrow> 0 < pending (flat t) \<and> NextExecutableNodes t = []"
  by (auto simp: IsDeadlocked_def pending_flat list_ex_iff filter_empty_conv)

lemma flat_set_state [simp]:
  "flat (ws_tree (set_status i st r s)) = flat_set i st (flat (ws_tree s))"
  "ws_calls (set_status i st r s) = ws_calls s"
  "flat (ws_tree (emit ty c s)) = flat (ws_tree s)" "ws_calls (emit ty c s) = ws_calls s"
  by (simp_all add: set_status_def emit_def Let_def flat_update)

lemma flat_set_ids [simp]: "map fst (flat_set i st xs) = map fst xs"
  by (induction xs) (auto simp: flat_set_def)

lemma flat_set_twice [simp]: "flat_set i st (flat_set i st' xs) = flat_set i st xs"
  by (induction xs) (auto simp: flat_set_def)

text \<open>A completed pass over nodes marks exactly their ids as completed.\<close>

definition flat_done :: "string set \<Rightarrow> (string \<times> string \<times> string list) list
    \<Rightarrow> (string \<times> string \<times> string list) list" where
  "flat_done is xs = map (\<lambda>(j, s, ds). (j, if j \<in> is then StatusCompleted else s, ds)) xs"

lemma flat_done_set: "flat_done is (flat_set i StatusCompleted xs) = flat_done (insert i is) xs"
  by (induction xs) (auto simp: flat_set_def flat_done_def)

lemma flat_done_empty [simp]: "flat_done {} xs = xs"
  by (simp add: flat_done_def)

lemma run_nodes_ok:
  "run_nodes exec ctxErr nodes s = (s', None) \<Longrightarrow>
   flat (ws_tree s') = flat_done (wn_ID ` set nodes) (flat (ws_tree s)) \<and> ws_calls s' = ws_calls s @ nodes"
proof (induction nodes arbitrary: s)
  case (Cons node nodes)
  from Cons.prems show ?case
    by (auto simp: Let_def flat_done_set split: option.splits exec_result.splits prod.splits dest!: Cons.IH)
qed simp

lemma pending_flat_done:
  assumes "\<forall>i \<in> is. \<exists>ds. (i, StatusPending, ds) \<in> set xs" "is \<noteq> {}"
  shows "pending (flat_done is xs) < pending xs"
proof -
  obtain i ds where i: "i \<in> is" "(i, StatusPending, ds) \<in> set xs" using assms by blast
  have le: "pending (flat_done is ys) \<le> pending ys" for ys
    by (induction ys) (auto simp: pending_def flat_done_def split: if_splits)
  from i(2) obtain ys zs where "xs = ys @ (i, StatusPending, ds) # zs" by (meson split_list)
  with i(1) le [of ys] le [of zs] show ?thesis by (auto simp: pending_def flat_done_def)
qed

lemma NextExecutable_pending:
  "\<forall>i \<in> wn_ID ` set (NextExecutableNodes t). \<exists>ds. (i, StatusPending, ds) \<in> set (flat t)"
  by (force simp: NextExecutableNodes_def executable_def flat_def)

lemma run_nodes_progress:
  assumes "run_nodes exec ctxErr (NextExecutableNodes (ws_tree s)) s = (s', None)"
    and "NextExecutableNodes (ws_tree s) \<noteq> []"
  shows "pending (flat (ws_tree s')) < pending (flat (ws_tree s))"
  using run_nodes_ok [OF assms(1)] pending_flat_done [OF NextExecutable_pending] assms(2) by simp

section \<open>The execution loop\<close>

text \<open>\<open>Execute\<close>: every pass over the executable nodes that does not return leaves fewer pending nodes.\<close>

function Execute ::
  "executor \<Rightarrow> (nat \<Rightarrow> string option) \<Rightarrow> wbs_state \<Rightarrow> wbs_state \<times> wbs_error option" where
  "Execute exec ctxErr s =
     (let tree = ws_tree s
      in if IsComplete tree then (s, None)
         else if HasFailed tree then (s, Some (handleFailure tree))
         else if IsDeadlocked tree then (s, Some Deadlocked)
         else if length (NextExecutableNodes tree) = 0 then (s, Some NoExecutable)
         else case run_nodes exec ctxErr (NextExecutableNodes tree) s of
                (s', Some e) \<Rightarrow> (s', Some e)
              | (s', None) \<Rightarrow> Execute exec ctxErr s')"
  by pat_completeness auto
termination
  by (relation "measure (\<lambda>(exec, ctxErr, s). pending (flat (ws_tree s)))")
    (auto intro: run_nodes_progress)

declare Execute.simps [simp del]

definition start_state :: "WBSTree \<Rightarrow> wbs_state" where
  "start_state t = \<lparr>ws_tree = t, ws_calls = [], ws_saved = [], ws_events = []\<rparr>"

section \<open>Dependency order\<close>

definition dep_ordered :: "WBSNode list \<Rightarrow> bool" where
  "dep_ordered calls \<longleftrightarrow>
     (\<forall>k < length calls. set (wn_Dependencies (calls ! k)) \<subseteq> wn_ID ` set (take k calls))"

lemma dep_ordered_snoc:
  assumes "dep_ordered calls" "set (wn_Dependencies n) \<subseteq> wn_ID ` set calls"
  shows "dep_ordered (calls @ [n])"
  using assms by (auto simp: dep_ordered_def nth_append less_Suc_eq_le)

text \<open>The parts of the flat view that never change: ids and dependencies.\<close>

definition skeleton :: "(string \<times> string \<times> string list) list \<Rightarrow> (string \<times> string list) list" where
  "skeleton xs = map (\<lambda>(i, s, ds). (i, ds)) xs"

lemma skeleton_flat_set [simp]: "skeleton (flat_set i st xs) = skeleton xs"
  by (induction xs) (auto simp: skeleton_def flat_set_def)

lemma skeleton_flat_done [simp]: "skeleton (flat_done is xs) = skeleton xs"
  by (induction xs) (auto simp: skeleton_def flat_done_def)

definition run_inv :: "(string \<times> string list) list \<Rightarrow> wbs_state \<Rightarrow> bool" where
  "run_inv sk s \<longleftrightarrow>
     dep_ordered (ws_calls s) \<and> skeleton (flat (ws_tree s)) = sk \<and>
     (\<forall>c \<in> set (ws_calls s). (wn_ID c, wn_Dependencies c) \<in> set sk) \<and>
     (\<forall>(i, st, ds) \<in> set (flat (ws_tree s)). st = StatusCompleted \<longrightarrow> i \<in> wn_ID ` set (ws_calls s))"

lemma in_flat_set:
  "(i, s, ds) \<in> set (flat_set j st xs) \<longleftrightarrow> (\<exists>s'. (i, s', ds) \<in> set xs \<and> s = (if i = j then st else s'))"
  by (induction xs) (auto simp: flat_set_def)

lemma run_inv_call:
  assumes "run_inv sk s" "set (wn_Dependencies n) \<subseteq> wn_ID ` set (ws_calls s)"
    and "(wn_ID n, wn_Dependencies n) \<in> set sk"
    and "ws_calls s' = ws_calls s @ [n]" "flat (ws_tree s') = flat_set (wn_ID n) st (flat (ws_tree s))"
  shows "run_inv sk s'"
proof -
  have "i \<in> wn_ID ` set (ws_calls s')" if "(i, StatusCompleted, ds) \<in> set (flat (ws_tree s'))" for i ds
  proof (cases "i = wn_ID n")
    case True
    with assms(4) show ?thesis by simp
  next
    case False
    then have "(i, StatusCompleted, ds) \<in> set (flat (ws_tree s))" using that assms(5) by (simp add: in_flat_set)
    then have "i \<in> wn_ID ` set (ws_calls s)" using assms(1) by (auto simp: run_inv_def)
    with assms(4) show ?thesis by auto
  qed
  with assms dep_ordered_snoc [of "ws_calls s" n] show ?thesis by (auto simp: run_inv_def)
qed

lemma run_nodes_inv:
  assumes "run_inv sk s"
    and "\<forall>n \<in> set nodes. set (wn_Dependencies n) \<subseteq> wn_ID ` set (ws_calls s) \<and> (wn_ID n, wn_Dependencies n) \<in> set sk"
  shows "run_inv sk (fst (run_nodes exec ctxErr nodes s))"
  using assms
proof (induction nodes arbitrary: s)
  case (Cons node nodes)
  have node: "set (wn_Dependencies node) \<subseteq> wn_ID ` set (ws_calls s)" "(wn_ID node, wn_Dependencies node) \<in> set sk"
    using Cons.prems(2) by auto
  note after = run_inv_call [OF Cons.prems(1) node]
  show ?case
  proof (cases "ctxErr (length (ws_calls s))")
    case None
    show ?thesis
    proof (cases "exec (length (ws_calls s)) node")
      case (Finished r)
      obtain s1 where s1: "run_nodes exec ctxErr (node # nodes) s = run_nodes exec ctxErr nodes s1"
        "ws_calls s1 = ws_calls s @ [node]" "flat (ws_tree s1) = flat_set (wn_ID node) StatusCompleted (flat (ws_tree s))"
        using None Finished by (simp add: Let_def case_prod_unfold)
      from after [OF s1(2,3)] have "run_inv sk s1" .
      moreover have "\<forall>n \<in> set nodes. set (wn_Dependencies n) \<subseteq> wn_ID ` set (ws_calls s1)
          \<and> (wn_ID n, wn_Dependencies n) \<in> set sk"
        using Cons.prems(2) s1(2) by auto
      ultimately show ?thesis using Cons.IH s1(1) by simp
    qed (use None after in \<open>simp_all add: Let_def\<close>)
  qed (use Cons.prems in simp)
qed simp

lemma fstatus_in: "fstatus xs d = Some st \<Longrightarrow> \<exists>ds. (d, st, ds) \<in> set xs"
proof -
  have "foldl (\<lambda>m (i, s, ds). m(i \<mapsto> s)) m ys d = Some st \<Longrightarrow> m d = Some st \<or> (\<exists>ds. (d, st, ds) \<in> set ys)"
    for m and ys :: "(string \<times> string \<times> string list) list"
    by (induction ys arbitrary: m) (fastforce split: if_splits)+
  then show "fstatus xs d = Some st \<Longrightarrow> \<exists>ds. (d, st, ds) \<in> set xs"
    unfolding fstatus_def by fastforce
qed

lemma NextExecutable_deps:
  assumes "run_inv sk s" "n \<in> set (NextExecutableNodes (ws_tree s))"
  shows "set (wn_Dependencies n) \<subseteq> wn_ID ` set (ws_calls s) \<and> (wn_ID n, wn_Dependencies n) \<in> set sk"
proof -
  have n: "n \<in> set (walkNodes (ws_tree s))" "executable (fstatus (flat (ws_tree s))) n"
    using assms(2) by (simp_all add: NextExecutableNodes_def buildStatusMap_flat)
  have "d \<in> wn_ID ` set (ws_calls s)" if "d \<in> set (wn_Dependencies n)" for d
  proof -
    have "fstatus (flat (ws_tree s)) d = Some StatusCompleted"
      using n(2) that by (simp add: executable_def list_all_iff)
    then obtain ds where "(d, StatusCompleted, ds) \<in> set (flat (ws_tree s))" using fstatus_in by blast
    with assms(1) show ?thesis by (fastforce simp: run_inv_def)
  qed
  moreover have "(wn_ID n, wn_Dependencies n) \<in> set (skeleton (flat (ws_tree s)))"
    using n(1) by (force simp: skeleton_def flat_def)
  ultimately show ?thesis using assms(1) by (auto simp: run_inv_def)
qed

lemma Execute_inv: "run_inv sk s \<Longrightarrow> run_inv sk (fst (Execute exec ctxErr s))"
proof (induction exec ctxErr s rule: Execute.induct)
  case (1 exec ctxErr s)
  have pass: "run_inv sk (fst (run_nodes exec ctxErr (NextExecutableNodes (ws_tree s)) s))"
    using "1.prems" NextExecutable_deps by (intro run_nodes_inv) auto
  show ?case
    using "1.IH" "1.prems" pass
    by (subst Execute.simps) (auto simp: Let_def split: prod.splits option.splits)
qed

lemma Execute_nil: "snd (Execute exec ctxErr s) = None \<Longrightarrow> IsComplete (ws_tree (fst (Execute exec ctxErr s)))"
proof (induction exec ctxErr s rule: Execute.induct)
  case (1 exec ctxErr s)
  from "1.prems" show ?case
    using "1.IH"
    by (subst (asm) Execute.simps, subst Execute.simps)
      (auto simp: Let_def split: prod.splits option.splits if_splits)
qed

section \<open>Every node at most once\<close>

lemma run_nodes_calls:
  "length (ws_calls (fst (run_nodes exec ctxErr nodes s))) \<le> length (ws_calls s) + length nodes"
proof (induction nodes arbitrary: s)
  case (Cons node nodes)
  have "length (ws_calls (fst (run_nodes exec ctxErr nodes s'))) \<le> Suc (length (ws_calls s) + length nodes)"
    if "length (ws_calls s') = Suc (length (ws_calls s))" for s'
    using Cons.IH [of s'] that by simp
  then show ?case
    by (auto simp: Let_def split: option.split exec_result.split prod.split)
qed simp

lemma pending_pass:
  "pending (flat_done (wn_ID ` set (NextExecutableNodes t)) (flat t)) + length (NextExecutableNodes t)
    \<le> pending (flat t)"
proof -
  let ?ids = "wn_ID ` set (NextExecutableNodes t)"
  let ?P = "\<lambda>n. wn_Status n = StatusPending"
  have "pending (flat_done ?ids (flat t)) = length (filter (\<lambda>n. wn_ID n \<notin> ?ids \<and> ?P n) (walkNodes t))"
    by (simp add: pending_def flat_done_def flat_def filter_map comp_def)
      (rule arg_cong [where f = length], rule filter_cong, auto)
  moreover have "length (NextExecutableNodes t) \<le> length (filter (\<lambda>n. wn_ID n \<in> ?ids \<and> ?P n) (walkNodes t))"
    unfolding NextExecutableNodes_def
    by (rule length_filter_mono) (simp add: executable_def)
  ultimately show ?thesis
    using length_filter_split [of "\<lambda>n. wn_ID n \<in> ?ids" ?P "walkNodes t"] by (simp add: pending_flat)
qed

lemma Execute_calls:
  "length (ws_calls (fst (Execute exec ctxErr s))) \<le> length (ws_calls s) + pending (flat (ws_tree s))"
proof (induction exec ctxErr s rule: Execute.induct)
  case (1 exec ctxErr s)
  let ?nodes = "NextExecutableNodes (ws_tree s)"
  obtain s' r where run: "run_nodes exec ctxErr ?nodes s = (s', r)" by (cases "run_nodes exec ctxErr ?nodes s")
  have calls: "length (ws_calls s') \<le> length (ws_calls s) + length ?nodes"
    using run_nodes_calls [of exec ctxErr ?nodes s] run by simp
  have nodes: "length ?nodes \<le> pending (flat (ws_tree s))" using pending_pass [of "ws_tree s"] by simp
  have "length (ws_calls (fst (Execute exec ctxErr s'))) \<le> length (ws_calls s) + pending (flat (ws_tree s))"
    if "r = None" "\<not> IsComplete (ws_tree s)" "\<not> HasFailed (ws_tree s)" "\<not> IsDeadlocked (ws_tree s)" "?nodes \<noteq> []"
  proof -
    have "pending (flat (ws_tree s')) + length ?nodes \<le> pending (flat (ws_tree s))"
      using run_nodes_ok [of exec ctxErr ?nodes s s'] run that(1) pending_pass [of "ws_tree s"] by simp
    moreover have "length (ws_calls (fst (Execute exec ctxErr s'))) \<le> length (ws_calls s') + pending (flat (ws_tree s'))"
      using "1.IH" [OF refl] that run by simp
    ultimately show ?thesis using calls by simp
  qed
  with run calls nodes show ?case
    by (subst Execute.simps) (auto simp: Let_def split: option.split)
qed

definition all_pending :: "WBSTree \<Rightarrow> bool" where
  "all_pending t \<longleftrightarrow> list_all (\<lambda>n. wn_Status n = StatusPending) (walkNodes t)"

lemma start_inv: "all_pending t \<Longrightarrow> run_inv (skeleton (flat t)) (start_state t)"
  by (auto simp: run_inv_def start_state_def dep_ordered_def all_pending_def flat_def list_all_iff)


definition sample_tree :: WBSTree where
  "sample_tree =
     [WBSNode ''1'' ''a'' [] StatusPending [''2''] [] [],
      WBSNode ''2'' ''b'' [] StatusPending [] [WBSNode ''2.1'' ''c'' [] StatusPending [''1''] [] []] []]"


section \<open>When a plan can be completed\<close>

text \<open>Dependencies are sound: they name nodes of the plan, and some ranking puts them first.\<close>

definition deps_sound :: "(string \<times> string list) list \<Rightarrow> bool" where
  "deps_sound sk \<longleftrightarrow> (\<exists>rank :: string \<Rightarrow> nat. \<forall>(i, ds) \<in> set sk. \<forall>d \<in> set ds.
     d \<in> fst ` set sk \<and> rank d < rank i)"

definition healthy :: "(string \<times> string list) list \<Rightarrow> WBSTree \<Rightarrow> bool" where
  "healthy sk t \<longleftrightarrow> skeleton (flat t) = sk \<and>
     (\<forall>(i, s, ds) \<in> set (flat t). s = StatusPending \<or> s = StatusCompleted)"

lemma fstatus_distinct:
  assumes "distinct (map fst xs)" "(i, s, ds) \<in> set xs"
  shows "fstatus xs i = Some s"
proof -
  have other: "foldl (\<lambda>m (i, s, ds). m(i \<mapsto> s)) m ys i = m i" if "i \<notin> fst ` set ys"
    for m and ys :: "(string \<times> string \<times> string list) list"
    using that by (induction ys arbitrary: m) auto
  from assms(2) obtain ys zs where xs: "xs = ys @ (i, s, ds) # zs" by (meson split_list)
  with assms(1) have "i \<notin> fst ` set zs" by auto
  with xs other show ?thesis by (simp add: fstatus_def)
qed

lemma skeleton_ids [simp]: "map fst (skeleton xs) = map fst xs"
  by (induction xs) (auto simp: skeleton_def)

lemma healthy_progress:
  assumes "healthy sk t" "deps_sound sk" "distinct (map fst sk)" "\<not> IsComplete t"
  shows "NextExecutableNodes t \<noteq> []"
proof -
  obtain rank :: "string \<Rightarrow> nat" where
    rank: "\<And>i ds d. (i, ds) \<in> set sk \<Longrightarrow> d \<in> set ds \<Longrightarrow> d \<in> fst ` set sk \<and> rank d < rank i"
    using assms(2) by (fastforce simp: deps_sound_def)
  have sk: "skeleton (flat t) = sk" and st: "\<And>i s ds. (i, s, ds) \<in> set (flat t) \<Longrightarrow> s = StatusPending \<or> s = StatusCompleted"
    using assms(1) by (auto simp: healthy_def)
  have dist: "distinct (map fst (flat t))" using assms(3) sk skeleton_ids by metis
  obtain i0 ds0 where "(i0, StatusPending, ds0) \<in> set (flat t)"
    using assms(4) st by (fastforce simp: IsComplete_flat)
  then obtain i ds where i: "(i, StatusPending, ds) \<in> set (flat t)"
    and least: "\<And>j es. (j, StatusPending, es) \<in> set (flat t) \<Longrightarrow> rank i \<le> rank j"
    using ex_has_least_nat [of "\<lambda>x. snd x \<in> set (flat t) \<and> fst (snd (snd x)) = StatusPending"
        "(i0, i0, StatusPending, ds0)" "\<lambda>x. rank (fst (snd x))"] by force
  have "fstatus (flat t) d = Some StatusCompleted" if d: "d \<in> set ds" for d
  proof -
    have "(i, ds) \<in> set sk" using i sk by (force simp: skeleton_def)
    with rank d have "d \<in> fst ` set (skeleton (flat t))" "rank d < rank i" using sk by auto
    then obtain s es where e: "(d, s, es) \<in> set (flat t)" by (auto simp: skeleton_def)
    then have "s \<noteq> StatusPending" using least [of d es] \<open>rank d < rank i\<close> by auto
    with st [OF e] have "s = StatusCompleted" by simp
    with fstatus_distinct [OF dist e] show ?thesis by simp
  qed
  with i have "(i, StatusPending, ds) \<in> set (map (\<lambda>n. (wn_ID n, wn_Status n, wn_Dependencies n)) (NextExecutableNodes t))"
    unfolding NextExecutable_flat by simp
  then show ?thesis by auto
qed

lemma run_nodes_finished:
  assumes "\<And>n node. \<exists>r. exec n node = Finished r" "\<And>n. ctxErr n = None"
  shows "snd (run_nodes exec ctxErr nodes s) = None"
proof (induction nodes arbitrary: s)
  case (Cons node nodes)
  obtain r where "exec (length (ws_calls s)) node = Finished r" using assms(1) by blast
  with assms(2) Cons show ?case by (simp add: Let_def case_prod_unfold)
qed simp

lemma healthy_flat_done:
  assumes "healthy sk t" "flat t' = flat_done is (flat t)"
  shows "healthy sk t'"
  using assms by (auto simp: healthy_def) (auto simp: flat_done_def split: if_splits)

lemma Execute_completes:
  assumes "\<And>n node. \<exists>r. exec n node = Finished r" "\<And>n. ctxErr n = None"
    and "deps_sound sk" "distinct (map fst sk)"
  shows "healthy sk (ws_tree s) \<Longrightarrow> snd (Execute exec ctxErr s) = None"
  using assms(1,2)
proof (induction exec ctxErr s rule: Execute.induct)
  case (1 exec ctxErr s)
  let ?nodes = "NextExecutableNodes (ws_tree s)"
  show ?case
  proof (cases "IsComplete (ws_tree s)")
    case True
    then show ?thesis by (simp add: Execute.simps [of exec ctxErr s])
  next
    case False
    then have ne: "?nodes \<noteq> []" using healthy_progress "1.prems"(1) assms(3,4) by blast
    have nf: "\<not> HasFailed (ws_tree s)" using "1.prems"(1) by (auto simp: HasFailed_flat healthy_def)
    have nd: "\<not> IsDeadlocked (ws_tree s)" using ne by (simp add: IsDeadlocked_flat)
    obtain s' where run: "run_nodes exec ctxErr ?nodes s = (s', None)"
      using run_nodes_finished [of exec ctxErr ?nodes s] "1.prems"(2,3)
      by (cases "run_nodes exec ctxErr ?nodes s") auto
    have "healthy sk (ws_tree s')"
      using healthy_flat_done "1.prems"(1) run_nodes_ok [OF run] by blast
    then have "snd (Execute exec ctxErr s') = None"
      by (intro "1.IH" [OF refl False nf nd _ run [symmetric] refl] "1.prems"(2,3)) (use ne in simp_all)
    with False nf nd ne run show ?thesis by (simp add: Execute.simps [of exec ctxErr s])
  qed
qed

definition first_call :: "WBSNode list \<Rightarrow> string \<Rightarrow> nat" where
  "first_call calls i = length (takeWhile (\<lambda>c. wn_ID c \<noteq> i) calls)"

lemma first_call_nth:
  assumes "i \<in> wn_ID ` set calls"
  shows "first_call calls i < length calls" "wn_ID (calls ! first_call calls i) = i"
proof -
  show l: "first_call calls i < length calls"
    using assms unfolding first_call_def by (induction calls) auto
  show "wn_ID (calls ! first_call calls i) = i"
    using nth_length_takeWhile [of "\<lambda>c. wn_ID c \<noteq> i" calls] l by (simp add: first_call_def)
qed

lemma first_call_less:
  "d \<in> wn_ID ` set (take k calls) \<Longrightarrow> first_call calls d < k"
proof (induction calls arbitrary: k)
  case (Cons c calls)
  then show ?case by (cases k) (auto simp: first_call_def)
qed simp

lemma success_deps_sound:
  assumes "run_inv sk s" "distinct (map fst sk)" "fst ` set sk = wn_ID ` set (ws_calls s)"
  shows "deps_sound sk"
  unfolding deps_sound_def
proof (intro exI [of _ "first_call (ws_calls s)"] ballI, clarify)
  fix i ds d
  assume id: "(i, ds) \<in> set sk" and d: "d \<in> set ds"
  let ?k = "first_call (ws_calls s) i"
  have "i \<in> wn_ID ` set (ws_calls s)" using id assms(3) by force
  note k = first_call_nth [OF this]
  have "ws_calls s ! ?k \<in> set (ws_calls s)" using k(1) by simp
  then have "(wn_ID (ws_calls s ! ?k), wn_Dependencies (ws_calls s ! ?k)) \<in> set sk"
    using assms(1) unfolding run_inv_def by blast
  then have "(i, wn_Dependencies (ws_calls s ! ?k)) \<in> set sk" by (simp only: k(2))
  then have "wn_Dependencies (ws_calls s ! ?k) = ds" using id assms(2) by (metis eq_key_imp_eq_value)
  then have "d \<in> wn_ID ` set (take ?k (ws_calls s))"
    using assms(1) k d by (auto simp: run_inv_def dep_ordered_def)
  then have "first_call (ws_calls s) d < ?k" "d \<in> wn_ID ` set (ws_calls s)"
    using first_call_less by (blast, meson image_mono in_mono set_take_subset)
  with assms(3) show "d \<in> fst ` set sk \<and> first_call (ws_calls s) d < first_call (ws_calls s) i" by simp
qed

text \<open>
  With distinct ids, an executor that never fails and no cancellation, the orchestrator reports
  success exactly when the dependencies of the plan are sound: every dependency names a node of the
  plan and there is no cycle. Then every node is executed exactly once.
\<close>

theorem Execute_succeeds_iff:
  assumes "all_pending t" "distinct (map wn_ID (walkNodes t))"
    and "\<forall>n node. \<exists>r. exec n node = Finished r" "\<forall>n. ctxErr n = None"
    and "Execute exec ctxErr (start_state t) = (s, res)"
  shows "(res = None \<longleftrightarrow> deps_sound (map (\<lambda>n. (wn_ID n, wn_Dependencies n)) (walkNodes t))) \<and>
    (res = None \<longrightarrow> mset (map wn_ID (ws_calls s)) = mset (map wn_ID (walkNodes t)))"
proof -
  let ?sk = "skeleton (flat t)"
  have sk: "?sk = map (\<lambda>n. (wn_ID n, wn_Dependencies n)) (walkNodes t)" by (simp add: skeleton_def flat_def)
  have dist: "distinct (map fst ?sk)" using assms(2) by (simp add: flat_def comp_def)
  have ids: "fst ` set ?sk = wn_ID ` set (walkNodes t)" unfolding sk by force
  have inv: "run_inv ?sk s"
    using Execute_inv [OF start_inv [OF assms(1)], of exec ctxErr] assms(5) by simp
  have "healthy ?sk (ws_tree (start_state t))"
    using assms(1) by (auto simp: healthy_def start_state_def all_pending_def flat_def list_all_iff)
  then have "deps_sound ?sk \<Longrightarrow> res = None"
    using Execute_completes [of exec ctxErr ?sk "start_state t"] assms(3,4,5) dist by simp
  moreover have calls: "wn_ID ` set (walkNodes t) = wn_ID ` set (ws_calls s)" "length (ws_calls s) \<le> length (walkNodes t)"
    if "res = None"
  proof -
    have c: "IsComplete (ws_tree s)" using Execute_nil [of exec ctxErr "start_state t"] assms(5) that by simp
    show "length (ws_calls s) \<le> length (walkNodes t)"
      using Execute_calls [of exec ctxErr "start_state t"] assms(5)
      by (simp add: start_state_def pending_flat) (meson le_trans length_filter_le)
    have "skeleton (flat (ws_tree s)) = ?sk" using inv by (simp add: run_inv_def)
    then have "map fst (flat (ws_tree s)) = map fst ?sk" by (metis skeleton_ids)
    then have "fst ` set (flat (ws_tree s)) = fst ` set ?sk" by (metis list.set_map)
    then have "fst ` set (flat (ws_tree s)) = wn_ID ` set (walkNodes t)" using ids by simp
    moreover have "fst ` set (flat (ws_tree s)) \<subseteq> wn_ID ` set (ws_calls s)"
      using inv c by (auto simp: run_inv_def IsComplete_flat)
    moreover have "wn_ID ` set (ws_calls s) \<subseteq> wn_ID ` set (walkNodes t)"
      using inv unfolding ids [symmetric] by (force simp: run_inv_def)
    ultimately show "wn_ID ` set (walkNodes t) = wn_ID ` set (ws_calls s)" by blast
  qed
  moreover have "res = None \<Longrightarrow> deps_sound ?sk"
    using success_deps_sound [OF inv dist] calls(1) ids by simp
  moreover have "mset (map wn_ID (ws_calls s)) = mset (map wn_ID (walkNodes t))" if "res = None"
  proof -
    have "set (map wn_ID (ws_calls s)) = set (map wn_ID (walkNodes t))" using calls(1) [OF that] by simp
    moreover from this have "distinct (map wn_ID (ws_calls s))"
      using calls(2) [OF that] assms(2) distinct_card [OF assms(2)]
        card_length [of "map wn_ID (ws_calls s)"] by (intro card_distinct) simp
    ultimately show ?thesis using assms(2) set_eq_iff_mset_eq_distinct by blast
  qed
  ultimately show ?thesis unfolding sk by blast
qed

theorem Execute_succeeds_iff_witness:
  "snd (Execute (\<lambda>n node. Finished ''ok'') (\<lambda>_. None) (start_state sample_tree)) = None"
proof -
  have "deps_sound (map (\<lambda>n. (wn_ID n, wn_Dependencies n)) (walkNodes sample_tree))"
    unfolding deps_sound_def
    by (rule exI [of _ "\<lambda>i. if i = ''2'' then 0 else if i = ''1'' then 1 else 2"])
      (simp add: sample_tree_def walkNodes_def)
  moreover have "all_pending sample_tree" "distinct (map wn_ID (walkNodes sample_tree))"
    by (simp_all add: sample_tree_def all_pending_def walkNodes_def)
  ultimately show ?thesis
    using Execute_succeeds_iff [of sample_tree "\<lambda>n node. Finished ''ok''" "\<lambda>_. None", OF _ _ _ _ prod.collapse [symmetric]]
    by blast
qed

section \<open>Resumption\<close>

definition saved_inv :: "WBSTree \<Rightarrow> wbs_state \<Rightarrow> bool" where
  "saved_inv t s \<longleftrightarrow> last (t # ws_saved s) = ws_tree s"

lemma saved_inv_simps [simp]:
  "saved_inv t (set_status i st r s)" "saved_inv t (emit ty c s) = saved_inv t s"
  "saved_inv t (s\<lparr>ws_calls := cs\<rparr>) = saved_inv t s"
  by (simp_all add: saved_inv_def set_status_def emit_def Let_def)

lemma run_nodes_saved: "saved_inv t s \<Longrightarrow> saved_inv t (fst (run_nodes exec ctxErr nodes s))"
proof (induction nodes arbitrary: s)
  case (Cons node nodes)
  then show ?case
    by (auto simp: Let_def split: option.split exec_result.split prod.split)
qed simp

lemma Execute_saved: "saved_inv t s \<Longrightarrow> saved_inv t (fst (Execute exec ctxErr s))"
proof (induction exec ctxErr s rule: Execute.induct)
  case (1 exec ctxErr s)
  then show ?case
    using run_nodes_saved [OF "1.prems", of exec ctxErr "NextExecutableNodes (ws_tree s)"]
    by (subst Execute.simps) (auto simp: Let_def split: prod.splits option.splits)
qed

text \<open>
  However an execution ends (success, failure, suspension, cancellation or deadlock), the last
  tree handed to the persister is the tree it ends with, so that a resumed session continues from
  the true state; without any call the tree is the one it started from.
\<close>

theorem Execute_persists:
  "ws_tree (fst (Execute exec ctxErr (start_state t)))
    = last (t # ws_saved (fst (Execute exec ctxErr (start_state t))))"
  using Execute_saved [of t "start_state t" exec ctxErr] by (simp add: saved_inv_def start_state_def)

section \<open>Planning\<close>

lemma walkNodesMut_pending:
  "list_all (\<lambda>n. wn_Status n = StatusPending) (walkNodes (walkNodesMut (\<lambda>i s r. (StatusPending, r)) t))"
proof -
  have "map wn_Status (walkNodes (walkNodesMut (\<lambda>i s r. (StatusPending, r)) t))
      = map (\<lambda>_. StatusPending) (walkNodes t)" (is "?l = ?r")
    using arg_cong [OF walk_walkNodesMut [of "\<lambda>i s r. (StatusPending, r)" t], of "map (fst \<circ> snd)"]
    by (simp add: comp_def)
  then have "set ?l = set ?r" by (rule arg_cong)
  then have "\<forall>x \<in> set ?l. x = StatusPending" by (simp only:) auto
  then show ?thesis by (simp add: list_all_iff)
qed

text \<open>
  A plan that the planner returns is fresh: whatever statuses the model wrote into its answer,
  every node, nested ones included, is pending, so the guarantees for fresh plans apply to it.
\<close>

theorem GenerateWBS_fresh: "GenerateWBS llm unmarshal structured = Inr t \<Longrightarrow> all_pending t"
  by (auto simp: GenerateWBS_def all_pending_def walkNodesMut_pending split: sum.splits option.splits)

theorem GenerateWBS_fresh_witness:
  "\<exists>t. GenerateWBS (Inr ''x'') (\<lambda>_. Some [WBSNode ''1'' ''a'' [] StatusCompleted [] [] []]) True = Inr t \<and> all_pending t"
proof -
  obtain t where t: "GenerateWBS (Inr ''x'') (\<lambda>_. Some [WBSNode ''1'' ''a'' [] StatusCompleted [] [] []]) True = Inr t"
    by (simp add: GenerateWBS_def)
  with GenerateWBS_fresh [OF t] show ?thesis by blast
qed

end
