(* ===== verification/Exec_Registry.thy ===== *)
theory Exec_Registry
  imports Stream_Events
begin

text \<open>
  Running turns, \<open>agentservice/exec_registry.go\<close>: the registry that admits one execution per
  session, the hand-over of the subscriber of a turn, and the event relay between the agent's
  channel and its readers. Also the start index of a reconnecting client (\<open>handler_follow.go\<close>).

  The relay is a concurrent program: a pump goroutine appends events (and heartbeats while a tool
  runs) and any number of reader goroutines deliver them. Its atomic actions (the critical sections
  under the mutex and the channel operations between them) are the steps of a transition relation.
  A reader's channel is always drained by its consumer.
\<close>

section \<open>The registry\<close>

text \<open>
  Of an execution, the fields that the registry and the subscriber hand-over use; the service adds its own
  to the record. A subscriber's
  context is named by its generation; \<open>ex_cancelled\<close> holds the contexts that were cancelled.
\<close>

record activeExecution =
  ex_sessionID :: string
  ex_turnID :: string
  ex_status :: string
  ex_subCancel :: "nat option"
  ex_subscriberGen :: nat
  ex_reattachTimer :: bool
  ex_cancelled :: "nat set"

type_synonym 'e registry_of = "(string \<times> 'e activeExecution_scheme) list"

type_synonym execRegistry = "unit registry_of"

datatype registry_error = ErrSessionBusy

definition newExecRegistry :: execRegistry where
  "newExecRegistry = []"

definition Register :: "'e registry_of \<Rightarrow> string \<Rightarrow> 'e activeExecution_scheme \<Rightarrow> 'e registry_of \<times> registry_error option" where
  "Register r i exec =
     (if map_of r i \<noteq> None then (r, Some ErrSessionBusy) else (massign i exec r, None))"

definition Registry_Get :: "'e registry_of \<Rightarrow> string \<Rightarrow> 'e activeExecution_scheme option" where
  "Registry_Get r i = map_of r i"

definition SetStatus :: "'e registry_of \<Rightarrow> string \<Rightarrow> string \<Rightarrow> 'e registry_of" where
  "SetStatus r i status =
     (case map_of r i of None \<Rightarrow> r | Some exec \<Rightarrow> massign i (exec\<lparr>ex_status := status\<rparr>) r)"

definition Unregister :: "'e registry_of \<Rightarrow> string \<Rightarrow> 'e registry_of" where
  "Unregister r i = mdelete i r"

section \<open>The subscriber of a turn\<close>

definition stopReattachTimer :: "'e activeExecution_scheme \<Rightarrow> 'e activeExecution_scheme" where
  "stopReattachTimer e = e\<lparr>ex_reattachTimer := False\<rparr>"

definition stealSubscriber :: "'e activeExecution_scheme \<Rightarrow> 'e activeExecution_scheme \<times> nat" where
  "stealSubscriber e =
     (let e = e\<lparr>ex_reattachTimer := False\<rparr>;
          e = (case ex_subCancel e of
                 None \<Rightarrow> e
               | Some g \<Rightarrow> e\<lparr>ex_cancelled := insert g (ex_cancelled e), ex_subCancel := None\<rparr>);
          gen = ex_subscriberGen e + 1
      in (e\<lparr>ex_subCancel := Some gen, ex_subscriberGen := gen\<rparr>, gen))"

definition clearSubscriber :: "'e activeExecution_scheme \<Rightarrow> nat \<Rightarrow> 'e activeExecution_scheme \<times> bool" where
  "clearSubscriber e gen =
     (if gen \<noteq> ex_subscriberGen e then (e, False) else (e\<lparr>ex_subCancel := None\<rparr>, True))"

definition hasSubscriber :: "'e activeExecution_scheme \<Rightarrow> bool" where
  "hasSubscriber e \<longleftrightarrow> ex_subCancel e \<noteq> None"

definition armReattachTimer :: "'e activeExecution_scheme \<Rightarrow> 'e activeExecution_scheme" where
  "armReattachTimer e =
     (if ex_subCancel e \<noteq> None \<or> ex_status e = ''suspended'' then e
      else if ex_reattachTimer e then e else e\<lparr>ex_reattachTimer := True\<rparr>)"

text \<open>\<open>parseFollowFrom\<close>: \<open>q\<close> and \<open>hdr\<close> are the query parameter and the \<open>Last-Event-ID\<close> header;
  \<open>atoi\<close> is \<open>strconv.Atoi\<close>.\<close>

definition parseFollowFrom :: "(string \<Rightarrow> int option) \<Rightarrow> string \<Rightarrow> string \<Rightarrow> nat \<Rightarrow> (string, nat) result" where
  "parseFollowFrom atoi q hdr bufLen =
     (let raw = (if q = [] then hdr else q)
      in if raw = [] then Inr 0
         else case atoi raw of
           None \<Rightarrow> Inl ''invalid from''
         | Some n \<Rightarrow>
             if n < 0 then Inl ''invalid from''
             else if int bufLen < n + 1 then Inl ''from exceeds buffer''
             else Inr (nat n + 1))"

section \<open>The relay\<close>

definition toolStillRunningContent :: string where
  "toolStillRunningContent = ''tool_still_running''"

definition heartbeat :: "string \<Rightarrow> StreamEvent" where
  "heartbeat toolName = (stream_event EventProgress)
     \<lparr>se_Content := toolStillRunningContent, se_ToolName := toolName\<rparr>"

datatype pump_phase = PumpIdle | PumpNotify | PumpClose | PumpLastNotify | PumpExited

record eventPump =
  pu_source :: "StreamEvent list"
  pu_toolDepth :: nat
  pu_toolName :: string
  pu_ticking :: bool
  pu_phase :: pump_phase

datatype reader_phase = Scanning | Waiting | Closed

record relay_reader =
  rd_start :: nat
  rd_idx :: nat
  rd_stop :: bool
  rd_delivered :: "StreamEvent list"
  rd_phase :: reader_phase

record eventRelay =
  rl_events :: "StreamEvent list"
  rl_notify :: bool
  rl_doneCh :: bool
  rl_sourceDone :: bool
  rl_pump :: eventPump
  rl_readers :: "relay_reader list"

definition newEventRelay :: "StreamEvent list \<Rightarrow> eventRelay" where
  "newEventRelay source =
     \<lparr>rl_events = [], rl_notify = False, rl_doneCh = False, rl_sourceDone = False,
      rl_pump = \<lparr>pu_source = source, pu_toolDepth = 0, pu_toolName = [], pu_ticking = False, pu_phase = PumpIdle\<rparr>,
      rl_readers = []\<rparr>"

text \<open>The pump's bookkeeping for one event; \<open>interval\<close> is the heartbeat period.\<close>

definition pump_observe :: "int \<Rightarrow> eventPump \<Rightarrow> StreamEvent \<Rightarrow> eventPump" where
  "pump_observe interval p ev =
     (if se_Type ev = EventToolUse then
        p\<lparr>pu_toolDepth := pu_toolDepth p + 1,
          pu_toolName := (if se_ToolName ev \<noteq> [] then se_ToolName ev else pu_toolName p),
          pu_ticking := (if interval \<le> 0 then pu_ticking p else True)\<rparr>
      else if se_Type ev = EventToolResult then
        (let p = p\<lparr>pu_toolDepth := pu_toolDepth p - 1\<rparr>
         in if pu_toolDepth p = 0 then p\<lparr>pu_ticking := False, pu_toolName := []\<rparr> else p)
      else if se_Type ev = EventResult \<or> se_Type ev = EventError then
        p\<lparr>pu_ticking := False, pu_toolDepth := 0, pu_toolName := []\<rparr>
      else p)"

definition append_event :: "eventRelay \<Rightarrow> StreamEvent \<Rightarrow> eventRelay" where
  "append_event r ev = r\<lparr>rl_events := rl_events r @ [ev]\<rparr>"

definition set_phase :: "pump_phase \<Rightarrow> eventRelay \<Rightarrow> eventRelay" where
  "set_phase ph r = r\<lparr>rl_pump := (rl_pump r)\<lparr>pu_phase := ph\<rparr>\<rparr>"

text \<open>The pump takes an event from the source and appends it under the lock.\<close>

definition pump_take :: "int \<Rightarrow> eventRelay \<Rightarrow> eventRelay" where
  "pump_take interval r =
     (case pu_source (rl_pump r) of
        [] \<Rightarrow> r
      | ev # rest \<Rightarrow>
          set_phase PumpNotify
            (append_event (r\<lparr>rl_pump := (pump_observe interval (rl_pump r) ev)\<lparr>pu_source := rest\<rparr>\<rparr>) ev))"

text \<open>A tick of the heartbeat ticker.\<close>

definition pump_tick :: "eventRelay \<Rightarrow> eventRelay" where
  "pump_tick r =
     (if pu_toolDepth (rl_pump r) = 0 then r
      else set_phase PumpNotify (append_event r (heartbeat (pu_toolName (rl_pump r)))))"

text \<open>The non-blocking send on the notification channel, of capacity one.\<close>

definition notify :: "eventRelay \<Rightarrow> eventRelay" where
  "notify r = r\<lparr>rl_notify := True\<rparr>"

text \<open>One round of a reader under the lock: an event is delivered, or the source's state is read.\<close>

definition reader_scan :: "eventRelay \<Rightarrow> relay_reader \<Rightarrow> relay_reader" where
  "reader_scan r d =
     (if rd_idx d < length (rl_events r) then
        (let ev = rl_events r ! rd_idx d;
             d = d\<lparr>rd_idx := rd_idx d + 1, rd_delivered := rd_delivered d @ [ev]\<rparr>
         in if rd_stop d \<and> se_Type ev = EventUserInputRequired then d\<lparr>rd_phase := Closed\<rparr> else d)
      else if rl_sourceDone r then d\<lparr>rd_phase := Closed\<rparr>
      else d\<lparr>rd_phase := Waiting\<rparr>)"

definition new_reader :: "nat \<Rightarrow> bool \<Rightarrow> relay_reader" where
  "new_reader startIdx stopOnUserInput =
     \<lparr>rd_start = startIdx, rd_idx = startIdx, rd_stop = stopOnUserInput, rd_delivered = [], rd_phase = Scanning\<rparr>"

definition set_reader :: "nat \<Rightarrow> relay_reader \<Rightarrow> eventRelay \<Rightarrow> eventRelay" where
  "set_reader k d r = r\<lparr>rl_readers := (rl_readers r)[k := d]\<rparr>"

inductive relay_step :: "int \<Rightarrow> eventRelay \<Rightarrow> eventRelay \<Rightarrow> bool" for interval where
  step_take: "pu_phase (rl_pump r) = PumpIdle \<Longrightarrow> pu_source (rl_pump r) \<noteq> [] \<Longrightarrow>
    relay_step interval r (pump_take interval r)"
| step_tick: "pu_phase (rl_pump r) = PumpIdle \<Longrightarrow> pu_ticking (rl_pump r) \<Longrightarrow> relay_step interval r (pump_tick r)"
| step_notify: "pu_phase (rl_pump r) = PumpNotify \<Longrightarrow>
    relay_step interval r (set_phase PumpIdle (notify r))"
| step_mark_done: "pu_phase (rl_pump r) = PumpIdle \<Longrightarrow> pu_source (rl_pump r) = [] \<Longrightarrow>
    relay_step interval r (set_phase PumpClose (r\<lparr>rl_sourceDone := True\<rparr>))"
| step_close: "pu_phase (rl_pump r) = PumpClose \<Longrightarrow>
    relay_step interval r (set_phase PumpLastNotify (r\<lparr>rl_doneCh := True\<rparr>))"
| step_last_notify: "pu_phase (rl_pump r) = PumpLastNotify \<Longrightarrow>
    relay_step interval r (set_phase PumpExited (notify r))"
| step_stream:
    "relay_step interval r (r\<lparr>rl_readers := rl_readers r @ [new_reader i stop]\<rparr>)"
| step_scan: "k < length (rl_readers r) \<Longrightarrow> rd_phase (rl_readers r ! k) = Scanning \<Longrightarrow>
    relay_step interval r (set_reader k (reader_scan r (rl_readers r ! k)) r)"
| step_wake: "k < length (rl_readers r) \<Longrightarrow> rd_phase (rl_readers r ! k) = Waiting \<Longrightarrow> rl_notify r \<Longrightarrow>
    relay_step interval r (set_reader k ((rl_readers r ! k)\<lparr>rd_phase := Scanning\<rparr>) (r\<lparr>rl_notify := False\<rparr>))"
| step_wake_done: "k < length (rl_readers r) \<Longrightarrow> rd_phase (rl_readers r ! k) = Waiting \<Longrightarrow> rl_doneCh r \<Longrightarrow>
    relay_step interval r (set_reader k ((rl_readers r ! k)\<lparr>rd_phase := Scanning\<rparr>) r)"

section \<open>One execution per session\<close>

text \<open>
  A session has at most one running execution: while one is registered every other registration
  is refused and leaves it untouched, after it is unregistered the next one succeeds, and no
  operation on a session affects another.
\<close>

theorem registry_exclusive:
  assumes "is_go_map r"
  shows "(map_of r i = Some e \<longrightarrow> Register r i e' = (r, Some ErrSessionBusy)) \<and>
    (snd (Register r i e') = None \<longleftrightarrow> map_of r i = None) \<and>
    (map_of r i = None \<longrightarrow> Registry_Get (fst (Register r i e')) i = Some e') \<and>
    snd (Register (Unregister r i) i e') = None \<and>
    (j \<noteq> i \<longrightarrow> Registry_Get (fst (Register r i e')) j = Registry_Get r j \<and>
       Registry_Get (SetStatus r i st) j = Registry_Get r j \<and> Registry_Get (Unregister r i) j = Registry_Get r j)"
  using assms by (auto simp: Register_def Registry_Get_def SetStatus_def Unregister_def split: option.split)

definition idle_execution :: activeExecution where
  "idle_execution = \<lparr>ex_sessionID = ''s'', ex_turnID = ''t'', ex_status = ''running'', ex_subCancel = None,
     ex_subscriberGen = 0, ex_reattachTimer = False, ex_cancelled = {}\<rparr>"

theorem registry_exclusive_witness:
  "snd (Register [(''s'', idle_execution)] ''s'' idle_execution) = Some ErrSessionBusy"
  using registry_exclusive [of "[(''s'', idle_execution)]" "''s''" idle_execution idle_execution] by simp

section \<open>One subscriber per turn\<close>

inductive sub_step :: "activeExecution \<times> nat set \<Rightarrow> activeExecution \<times> nat set \<Rightarrow> bool" where
  sub_steal: "sub_step (e, left) (fst (stealSubscriber e), left)"
| sub_leave: "1 \<le> g \<Longrightarrow> g \<le> ex_subscriberGen e \<Longrightarrow> sub_step (e, left) (fst (clearSubscriber e g), insert g left)"
| sub_arm: "sub_step (e, left) (armReattachTimer e, left)"
| sub_stop: "sub_step (e, left) (stopReattachTimer e, left)"

text \<open>The second component collects the generations whose subscriber has left.\<close>

definition sub_inv :: "activeExecution \<times> nat set \<Rightarrow> bool" where
  "sub_inv s \<longleftrightarrow>
     (case s of (e, left) \<Rightarrow>
        (\<forall>g. 1 \<le> g \<and> g < ex_subscriberGen e \<longrightarrow> g \<in> ex_cancelled e \<union> left) \<and>
        (ex_subCancel e = (if ex_subscriberGen e = 0 \<or> ex_subscriberGen e \<in> left
                           then None else Some (ex_subscriberGen e))) \<and>
        (\<forall>g \<in> ex_cancelled e. g < ex_subscriberGen e) \<and> (\<forall>g \<in> left. g \<le> ex_subscriberGen e) \<and>
        (ex_reattachTimer e \<longrightarrow> ex_subCancel e = None))"

lemma sub_inv_steal: "sub_inv (e, left) \<Longrightarrow> sub_inv (fst (stealSubscriber e), left)"
  by (cases "ex_subCancel e")
    (auto simp: sub_inv_def stealSubscriber_def Let_def less_Suc_eq split: if_splits)

interpretation subscribers: state_machine "\<lambda>s. s = (idle_execution, {})" sub_step sub_inv
proof
  fix s t
  show "sub_inv s" if "s = (idle_execution, {})" using that by (simp add: sub_inv_def idle_execution_def)
  assume "sub_inv s" "sub_step s t"
  from this(2,1) show "sub_inv t"
  proof (induction rule: sub_step.induct)
    case (sub_steal e left)
    then show ?case by (rule sub_inv_steal)
  next
    case (sub_leave g e left)
    then show ?case by (auto simp: sub_inv_def clearSubscriber_def split: if_splits)
  next
    case (sub_arm e left)
    then show ?case by (auto simp: sub_inv_def armReattachTimer_def)
  next
    case (sub_stop e left)
    then show ?case by (auto simp: sub_inv_def stopReattachTimer_def)
  qed
qed

text \<open>
  At every moment at most one attached subscriber of a turn is live: every earlier one that has
  not left by itself has had its context cancelled, the newest is never cancelled by anyone else's
  leaving, and the timer that stops an abandoned agent is armed only while nobody is attached.
\<close>

theorem single_live_subscriber:
  assumes "sub_step\<^sup>*\<^sup>* (idle_execution, {}) (e, left)"
    and "1 \<le> g" "g \<notin> left" "g \<notin> ex_cancelled e" "g \<le> ex_subscriberGen e"
  shows "g = ex_subscriberGen e \<and> hasSubscriber e \<and> \<not> ex_reattachTimer e"
proof -
  have "sub_inv (e, left)" using subscribers.reachable_inv assms(1) by blast
  with assms(2-5) have "g = ex_subscriberGen e" by (auto simp: sub_inv_def order_le_less)
  with \<open>sub_inv (e, left)\<close> assms(2,3) show ?thesis by (auto simp: sub_inv_def hasSubscriber_def)
qed

theorem single_live_subscriber_witness:
  "hasSubscriber (fst (stealSubscriber (fst (stealSubscriber idle_execution))))"
proof -
  let ?e = "fst (stealSubscriber (fst (stealSubscriber idle_execution)))"
  have "sub_step\<^sup>*\<^sup>* (idle_execution, {}) (?e, {})"
    by (meson sub_steal rtranclp.rtrancl_refl rtranclp.rtrancl_into_rtrancl)
  moreover have "2 \<notin> ex_cancelled ?e" "2 \<le> ex_subscriberGen ?e"
    by (simp_all add: stealSubscriber_def idle_execution_def)
  ultimately show ?thesis using single_live_subscriber [of ?e "{}" 2] by simp
qed

section \<open>What the relay buffers\<close>

definition is_heartbeat :: "StreamEvent \<Rightarrow> bool" where
  "is_heartbeat ev \<longleftrightarrow> se_Type ev = EventProgress \<and> se_Content ev = toolStillRunningContent"

abbreviation proper :: "StreamEvent list \<Rightarrow> StreamEvent list" where
  "proper evs \<equiv> filter (\<lambda>ev. \<not> is_heartbeat ev) evs"

definition depth_after :: "nat \<Rightarrow> StreamEvent \<Rightarrow> nat" where
  "depth_after n ev =
     (if se_Type ev = EventToolUse then n + 1
      else if se_Type ev = EventToolResult then n - 1
      else if se_Type ev = EventResult \<or> se_Type ev = EventError then 0 else n)"

definition tool_depth :: "StreamEvent list \<Rightarrow> nat" where
  "tool_depth evs = foldl depth_after 0 evs"

lemma is_heartbeat_heartbeat [simp]: "is_heartbeat (heartbeat n)"
  by (simp add: is_heartbeat_def heartbeat_def stream_event_def)

lemma depth_after_heartbeat [simp]: "is_heartbeat ev \<Longrightarrow> depth_after n ev = n"
  by (auto simp: is_heartbeat_def depth_after_def)

lemma pump_observe_fields [simp]:
  "pu_toolDepth (pump_observe i p ev) = depth_after (pu_toolDepth p) ev"
  "pu_source (pump_observe i p ev) = pu_source p" "pu_phase (pump_observe i p ev) = pu_phase p"
  by (auto simp: pump_observe_def depth_after_def Let_def)

lemma relay_fields [simp]:
  "rl_events (set_phase ph r) = rl_events r" "rl_notify (set_phase ph r) = rl_notify r"
  "rl_doneCh (set_phase ph r) = rl_doneCh r" "rl_sourceDone (set_phase ph r) = rl_sourceDone r"
  "rl_readers (set_phase ph r) = rl_readers r" "pu_phase (rl_pump (set_phase ph r)) = ph"
  "pu_source (rl_pump (set_phase ph r)) = pu_source (rl_pump r)"
  "pu_toolDepth (rl_pump (set_phase ph r)) = pu_toolDepth (rl_pump r)"
  "rl_events (notify r) = rl_events r" "rl_notify (notify r)" "rl_doneCh (notify r) = rl_doneCh r"
  "rl_sourceDone (notify r) = rl_sourceDone r" "rl_readers (notify r) = rl_readers r" "rl_pump (notify r) = rl_pump r"
  "rl_events (append_event r ev) = rl_events r @ [ev]" "rl_notify (append_event r ev) = rl_notify r"
  "rl_doneCh (append_event r ev) = rl_doneCh r" "rl_sourceDone (append_event r ev) = rl_sourceDone r"
  "rl_readers (append_event r ev) = rl_readers r" "rl_pump (append_event r ev) = rl_pump r"
  "rl_events (set_reader k d r) = rl_events r" "rl_notify (set_reader k d r) = rl_notify r"
  "rl_doneCh (set_reader k d r) = rl_doneCh r" "rl_sourceDone (set_reader k d r) = rl_sourceDone r"
  "rl_pump (set_reader k d r) = rl_pump r" "rl_readers (set_reader k d r) = (rl_readers r)[k := d]"
  by (simp_all add: set_phase_def notify_def append_event_def set_reader_def)

text \<open>The buffer's content: the source with heartbeats put in, each while a tool is running.\<close>

definition content_inv :: "StreamEvent list \<Rightarrow> eventRelay \<Rightarrow> bool" where
  "content_inv src r \<longleftrightarrow>
     proper (rl_events r) @ pu_source (rl_pump r) = src \<and>
     pu_toolDepth (rl_pump r) = tool_depth (rl_events r) \<and>
     (\<forall>k < length (rl_events r). is_heartbeat (rl_events r ! k) \<longrightarrow> 0 < tool_depth (take k (rl_events r)))"

lemma content_inv_append:
  assumes "content_inv src r" "is_heartbeat ev \<Longrightarrow> 0 < tool_depth (rl_events r)"
    and "rl_events r' = rl_events r @ [ev]" "pu_toolDepth (rl_pump r') = depth_after (pu_toolDepth (rl_pump r)) ev"
    and "proper [ev] @ pu_source (rl_pump r') = pu_source (rl_pump r)"
  shows "content_inv src r'"
  using assms by (auto simp: content_inv_def tool_depth_def nth_append less_Suc_eq)

lemma content_step:
  assumes "relay_step interval r r'" "content_inv src r" "list_all (\<lambda>ev. \<not> is_heartbeat ev) src"
  shows "content_inv src r'"
  using assms
proof (induction rule: relay_step.induct)
  case (step_take r)
  then obtain ev rest where src: "pu_source (rl_pump r) = ev # rest" by (cases "pu_source (rl_pump r)") auto
  with step_take have "\<not> is_heartbeat ev" by (auto simp: content_inv_def list_all_iff)
  with src show ?case
    by (intro content_inv_append [OF step_take(3), of ev]) (simp_all add: pump_take_def)
next
  case (step_tick r)
  show ?case
  proof (cases "pu_toolDepth (rl_pump r) = 0")
    case True
    with step_tick show ?thesis by (simp add: pump_tick_def)
  next
    case False
    then have "0 < tool_depth (rl_events r)" using step_tick(3) by (simp add: content_inv_def)
    with False show ?thesis
      by (intro content_inv_append [OF step_tick(3), of "heartbeat (pu_toolName (rl_pump r))"])
        (simp_all add: pump_tick_def)
  qed
qed (auto simp: content_inv_def)

interpretation relay_content: state_machine
  "\<lambda>r. list_all (\<lambda>ev. \<not> is_heartbeat ev) src \<and> r = newEventRelay src"
  "\<lambda>r r'. list_all (\<lambda>ev. \<not> is_heartbeat ev) src \<and> relay_step interval r r'"
  "content_inv src" for src interval
proof
  show "content_inv src r" if "list_all (\<lambda>ev. \<not> is_heartbeat ev) src \<and> r = newEventRelay src" for r
    using that by (simp add: content_inv_def newEventRelay_def tool_depth_def)
qed (blast intro: content_step)

text \<open>
  C13. The relay neither loses, reorders nor duplicates agent events: at every moment the buffer
  without its heartbeats, followed by what the agent has still to send, is the agent's event
  sequence; and a heartbeat stands in the buffer only where a tool was running.
\<close>

theorem relay_faithful:
  assumes "(relay_step interval)\<^sup>*\<^sup>* (newEventRelay src) r" and "list_all (\<lambda>ev. \<not> is_heartbeat ev) src"
  shows "proper (rl_events r) @ pu_source (rl_pump r) = src \<and>
    (\<forall>k < length (rl_events r). is_heartbeat (rl_events r ! k) \<longrightarrow> 0 < tool_depth (take k (rl_events r)))"
proof -
  have "(\<lambda>r r'. list_all (\<lambda>ev. \<not> is_heartbeat ev) src \<and> relay_step interval r r')\<^sup>*\<^sup>* (newEventRelay src) r"
    using assms(1) by (rule mono_rtranclp [rule_format, rotated]) (simp add: assms(2))
  then have "content_inv src r" using relay_content.reachable_inv assms(2) by blast
  then show ?thesis by (simp add: content_inv_def)
qed

theorem relay_faithful_witness:
  "proper (rl_events (pump_take 30 (newEventRelay [stream_event EventText]))) = [stream_event EventText]"
proof -
  let ?r = "newEventRelay [stream_event EventText]"
  have "(relay_step 30)\<^sup>*\<^sup>* ?r (pump_take 30 ?r)"
    by (rule r_into_rtranclp, rule step_take) (simp_all add: newEventRelay_def)
  from relay_faithful [OF this] show ?thesis
    by (simp add: is_heartbeat_def stream_event_def pump_take_def newEventRelay_def)
qed

section \<open>What readers receive\<close>

definition prompted :: "relay_reader \<Rightarrow> bool" where
  "prompted d \<longleftrightarrow> rd_stop d \<and> rd_delivered d \<noteq> [] \<and> se_Type (last (rd_delivered d)) = EventUserInputRequired"

definition reader_ok :: "eventRelay \<Rightarrow> relay_reader \<Rightarrow> bool" where
  "reader_ok r d \<longleftrightarrow>
     rd_idx d = rd_start d + length (rd_delivered d) \<and>
     rd_delivered d = take (length (rd_delivered d)) (drop (rd_start d) (rl_events r)) \<and>
     (rd_phase d = Closed \<longrightarrow> prompted d \<or> rl_sourceDone r \<and> length (rl_events r) \<le> rd_idx d) \<and>
     (rd_phase d = Waiting \<and> rl_sourceDone r \<longrightarrow> rl_doneCh r \<or> pu_phase (rl_pump r) = PumpClose)"

definition past_source :: "eventRelay \<Rightarrow> bool" where
  "past_source r \<longleftrightarrow> pu_phase (rl_pump r) = PumpClose \<or> pu_phase (rl_pump r) = PumpLastNotify
     \<or> pu_phase (rl_pump r) = PumpExited"

definition pump_ok :: "eventRelay \<Rightarrow> bool" where
  "pump_ok r \<longleftrightarrow> (rl_sourceDone r \<longleftrightarrow> past_source r) \<and> (rl_sourceDone r \<longrightarrow> pu_source (rl_pump r) = []) \<and>
     (rl_doneCh r \<longleftrightarrow> past_source r \<and> pu_phase (rl_pump r) \<noteq> PumpClose)"

definition readers_inv :: "eventRelay \<Rightarrow> bool" where
  "readers_inv r \<longleftrightarrow> pump_ok r \<and> (\<forall>d \<in> set (rl_readers r). reader_ok r d)"

lemma reader_ok_append:
  assumes "reader_ok r d" "rl_events r' = rl_events r @ evs" "\<not> rl_sourceDone r" "\<not> rl_sourceDone r'"
  shows "reader_ok r' d"
proof -
  let ?n = "length (rd_delivered d)"
  have "?n \<le> length (drop (rd_start d) (rl_events r))"
    using assms(1) by (metis length_take min.cobounded1 min.commute reader_ok_def)
  then have "take ?n (drop (rd_start d) (rl_events r @ evs)) = take ?n (drop (rd_start d) (rl_events r))"
    by simp
  with assms show ?thesis by (auto simp: reader_ok_def)
qed

lemma reader_ok_same:
  assumes "reader_ok r d" "rl_events r' = rl_events r" "rl_sourceDone r \<longrightarrow> rl_sourceDone r'"
    and "rl_sourceDone r' \<longrightarrow> rl_doneCh r' \<or> pu_phase (rl_pump r') = PumpClose"
  shows "reader_ok r' d"
  using assms by (auto simp: reader_ok_def)

lemma reader_scan_ok:
  assumes "reader_ok r d" "rd_phase d = Scanning" "pump_ok r"
  shows "reader_ok r (reader_scan r d)"
proof (cases "rd_idx d < length (rl_events r)")
  case True
  let ?ev = "rl_events r ! rd_idx d" and ?n = "length (rd_delivered d)"
  have idx: "rd_idx d = rd_start d + ?n" using assms(1) by (simp add: reader_ok_def)
  then have "take (Suc ?n) (drop (rd_start d) (rl_events r)) = take ?n (drop (rd_start d) (rl_events r)) @ [?ev]"
    using True by (subst take_Suc_conv_app_nth) (simp_all add: nth_drop)
  then have del: "take (Suc ?n) (drop (rd_start d) (rl_events r)) = rd_delivered d @ [?ev]"
    using assms(1) by (simp add: reader_ok_def)
  show ?thesis
    using True assms(2) idx del by (auto simp: reader_scan_def reader_ok_def prompted_def Let_def)
next
  case False
  then show ?thesis
    using assms by (auto simp: reader_scan_def reader_ok_def prompted_def)
qed

lemma readers_inv_pump:
  assumes "readers_inv r" "pump_ok r'" "rl_readers r' = rl_readers r"
    and "\<And>d. reader_ok r d \<Longrightarrow> reader_ok r' d"
  shows "readers_inv r'"
  using assms by (auto simp: readers_inv_def)

lemma readers_inv_reader:
  assumes "readers_inv r" "k < length (rl_readers r)" "reader_ok r d"
    and "rl_pump r' = rl_pump r" "rl_events r' = rl_events r" "rl_sourceDone r' = rl_sourceDone r"
    and "rl_doneCh r' = rl_doneCh r" "rl_readers r' = (rl_readers r)[k := d]"
  shows "readers_inv r'"
proof -
  have "reader_ok r' e" if "reader_ok r e" for e using that unfolding reader_ok_def assms(4-7) .
  moreover have "set (rl_readers r') \<subseteq> insert d (set (rl_readers r))"
    using assms(8) by (simp add: set_update_subset_insert)
  moreover have "pump_ok r'" using assms(1,4-7) by (simp add: readers_inv_def pump_ok_def past_source_def)
  ultimately show ?thesis using assms(1,3) by (auto simp: readers_inv_def)
qed

lemmas pump_ok_defs = pump_ok_def past_source_def

lemma readers_step:
  assumes "relay_step interval r r'" "readers_inv r"
  shows "readers_inv r'"
  using assms
proof (induction rule: relay_step.induct)
  case (step_take r)
  then obtain ev rest where src: "pu_source (rl_pump r) = ev # rest" by (cases "pu_source (rl_pump r)") auto
  have "pump_ok r" using step_take by (simp add: readers_inv_def)
  with step_take(1) have nd: "\<not> rl_sourceDone r" "\<not> rl_doneCh r" by (simp_all add: pump_ok_defs)
  have ev: "rl_events (pump_take interval r) = rl_events r @ [ev]" "\<not> rl_sourceDone (pump_take interval r)"
    "\<not> rl_doneCh (pump_take interval r)" "rl_readers (pump_take interval r) = rl_readers r"
    "pu_phase (rl_pump (pump_take interval r)) = PumpNotify"
    using src nd by (simp_all add: pump_take_def)
  show ?case
    by (rule readers_inv_pump [OF step_take(3)])
      (use ev nd in \<open>simp_all add: pump_ok_defs reader_ok_append [of r _ _ "[ev]"]\<close>)
next
  case (step_tick r)
  have "pump_ok r" using step_tick by (simp add: readers_inv_def)
  with step_tick(1) have nd: "\<not> rl_sourceDone r" "\<not> rl_doneCh r" by (simp_all add: pump_ok_defs)
  show ?case
  proof (cases "pu_toolDepth (rl_pump r) = 0")
    case True
    with step_tick(3) show ?thesis by (simp add: pump_tick_def)
  next
    case False
    let ?hb = "heartbeat (pu_toolName (rl_pump r))"
    show ?thesis
      by (rule readers_inv_pump [OF step_tick(3)])
        (use False nd in \<open>simp_all add: pump_tick_def pump_ok_defs reader_ok_append [of r _ _ "[?hb]"]\<close>)
  qed
next
  case (step_notify r)
  then show ?case
    by (intro readers_inv_pump [OF step_notify(2)])
      (auto simp: readers_inv_def pump_ok_defs intro: reader_ok_same)
next
  case (step_mark_done r)
  then show ?case
    by (intro readers_inv_pump [OF step_mark_done(3)])
      (auto simp: readers_inv_def pump_ok_defs intro: reader_ok_same)
next
  case (step_close r)
  then show ?case
    by (intro readers_inv_pump [OF step_close(2)])
      (auto simp: readers_inv_def pump_ok_defs intro: reader_ok_same)
next
  case (step_last_notify r)
  then show ?case
    by (intro readers_inv_pump [OF step_last_notify(2)])
      (auto simp: readers_inv_def pump_ok_defs intro: reader_ok_same)
next
  case (step_stream r i stop)
  then show ?case
    by (auto simp: readers_inv_def pump_ok_defs new_reader_def reader_ok_def prompted_def)
next
  case (step_scan k r)
  have "reader_ok r (rl_readers r ! k)" "pump_ok r" using step_scan by (auto simp: readers_inv_def)
  then have "reader_ok r (reader_scan r (rl_readers r ! k))" using step_scan(2) by (intro reader_scan_ok)
  then show ?case by (rule readers_inv_reader [OF step_scan(3,1)]) simp_all
next
  case (step_wake k r)
  have "reader_ok r (rl_readers r ! k)" using step_wake by (auto simp: readers_inv_def)
  then have "reader_ok r ((rl_readers r ! k)\<lparr>rd_phase := Scanning\<rparr>)" by (simp add: reader_ok_def)
  then show ?case by (rule readers_inv_reader [OF step_wake(4,1)]) simp_all
next
  case (step_wake_done k r)
  have "reader_ok r (rl_readers r ! k)" using step_wake_done by (auto simp: readers_inv_def)
  then have "reader_ok r ((rl_readers r ! k)\<lparr>rd_phase := Scanning\<rparr>)" by (simp add: reader_ok_def)
  then show ?case by (rule readers_inv_reader [OF step_wake_done(4,1)]) simp_all
qed

interpretation relay_readers: state_machine "\<lambda>r. \<exists>src. r = newEventRelay src" "relay_step interval" readers_inv
  for interval
proof
  show "readers_inv r" if "\<exists>src. r = newEventRelay src" for r
    using that by (auto simp: readers_inv_def newEventRelay_def pump_ok_defs)
qed (rule readers_step)

text \<open>
  C30. Every reader of a relay receives an unbroken run of the buffer from its start index, whatever
  other readers do. Its channel is closed only after a user prompt it asked to stop at, or when the
  agent is done and it has received everything; and a reader that waits after the agent is done can
  always wake up.
\<close>

theorem reader_receives:
  assumes "(relay_step interval)\<^sup>*\<^sup>* (newEventRelay src) r" "d \<in> set (rl_readers r)"
  shows "rd_delivered d = take (length (rd_delivered d)) (drop (rd_start d) (rl_events r)) \<and>
    (rd_phase d = Closed \<longrightarrow> prompted d \<or> rl_sourceDone r \<and> rd_delivered d = drop (rd_start d) (rl_events r)) \<and>
    (rd_phase d = Waiting \<and> pu_phase (rl_pump r) = PumpExited \<longrightarrow> rl_doneCh r)"
proof -
  have inv: "readers_inv r" using relay_readers.reachable_inv assms(1) by blast
  then have ok: "reader_ok r d" using assms(2) by (simp add: readers_inv_def)
  then have all: "rd_delivered d = drop (rd_start d) (rl_events r)" if "length (rl_events r) \<le> rd_idx d"
    using that by (auto simp: reader_ok_def)
  have "pump_ok r" using inv by (simp add: readers_inv_def)
  with ok all show ?thesis by (auto simp: reader_ok_def pump_ok_defs)
qed

theorem reader_receives_witness:
  "let r = (newEventRelay [])\<lparr>rl_readers := [new_reader 0 True]\<rparr>
   in rd_delivered (new_reader 0 True) = take 0 (rl_events r)"
proof -
  let ?r = "(newEventRelay [])\<lparr>rl_readers := [new_reader 0 True]\<rparr>"
  have "(relay_step 30)\<^sup>*\<^sup>* (newEventRelay []) ((newEventRelay [])\<lparr>rl_readers := rl_readers (newEventRelay []) @ [new_reader 0 True]\<rparr>)"
    by (rule r_into_rtranclp, rule step_stream)
  then have "(relay_step 30)\<^sup>*\<^sup>* (newEventRelay []) ?r" by (simp add: newEventRelay_def)
  from reader_receives [OF this, of "new_reader 0 True"] show ?thesis by (simp add: new_reader_def)
qed

section \<open>Wake-ups\<close>

text \<open>With one reader, an undelivered event is always announced.\<close>

definition announced :: "eventRelay \<Rightarrow> bool" where
  "announced r \<longleftrightarrow> length (rl_readers r) \<le> 1 \<longrightarrow>
     (\<forall>d \<in> set (rl_readers r). rd_phase d = Waiting \<and> rd_idx d < length (rl_events r) \<longrightarrow>
        rl_notify r \<or> rl_doneCh r \<or> pu_phase (rl_pump r) = PumpNotify)"

lemma one_reader_update: "length xs \<le> 1 \<Longrightarrow> k < length xs \<Longrightarrow> xs[k := d] = [d]"
  by (cases xs) auto

lemma announced_step:
  assumes "relay_step interval r r'" "announced r"
  shows "announced r'"
  using assms
proof (induction rule: relay_step.induct)
  case (step_take r)
  then obtain ev rest where "pu_source (rl_pump r) = ev # rest" by (cases "pu_source (rl_pump r)") auto
  then show ?case by (simp add: announced_def pump_take_def)
next
  case (step_stream r i stop)
  then show ?case by (auto simp: announced_def new_reader_def)
next
  case (step_scan k r)
  then show ?case
    using one_reader_update [of "rl_readers r" k "reader_scan r (rl_readers r ! k)"]
    by (auto simp: announced_def reader_scan_def Let_def)
next
  case (step_wake k r)
  then show ?case
    using one_reader_update [of "rl_readers r" k "(rl_readers r ! k)\<lparr>rd_phase := Scanning\<rparr>"]
    by (auto simp: announced_def)
next
  case (step_wake_done k r)
  then show ?case
    using one_reader_update [of "rl_readers r" k "(rl_readers r ! k)\<lparr>rd_phase := Scanning\<rparr>"]
    by (auto simp: announced_def)
qed (auto simp: announced_def pump_tick_def)

interpretation relay_wakeups: state_machine "\<lambda>r. \<exists>src. r = newEventRelay src" "relay_step interval" announced
  for interval
proof
  show "announced r" if "\<exists>src. r = newEventRelay src" for r
    using that by (auto simp: announced_def newEventRelay_def)
qed (rule announced_step)

text \<open>
  A relay with a single reader never sleeps on an undelivered event: while one is buffered for a
  waiting reader, the reader can wake up at once or the pump is about to notify it.
\<close>

theorem single_reader_wakes:
  assumes "(relay_step interval)\<^sup>*\<^sup>* (newEventRelay src) r" "rl_readers r = [d]"
    and "rd_phase d = Waiting" "rd_idx d < length (rl_events r)"
  shows "rl_notify r \<or> rl_doneCh r \<or> pu_phase (rl_pump r) = PumpNotify"
  using relay_wakeups.reachable_inv [of "newEventRelay src" interval r] assms by (auto simp: announced_def)

definition asking :: "StreamEvent list" where
  "asking = [stream_event EventUserInputRequired, stream_event EventResult]"

text \<open>The states of a schedule with two readers, a side-effect reader and a client.\<close>

definition two_waiting :: eventRelay where
  "two_waiting = (newEventRelay asking)\<lparr>rl_readers :=
     [(new_reader 0 False)\<lparr>rd_phase := Waiting\<rparr>, (new_reader 0 True)\<lparr>rd_phase := Waiting\<rparr>]\<rparr>"

lemma two_waiting_reachable: "(relay_step 30)\<^sup>*\<^sup>* (newEventRelay asking) two_waiting"
proof -
  let ?r0 = "newEventRelay asking"
  let ?r1 = "?r0\<lparr>rl_readers := rl_readers ?r0 @ [new_reader 0 False]\<rparr>"
  let ?r2 = "?r1\<lparr>rl_readers := rl_readers ?r1 @ [new_reader 0 True]\<rparr>"
  let ?r3 = "set_reader 0 (reader_scan ?r2 (rl_readers ?r2 ! 0)) ?r2"
  let ?r4 = "set_reader 1 (reader_scan ?r3 (rl_readers ?r3 ! 1)) ?r3"
  have "relay_step 30 ?r0 ?r1" "relay_step 30 ?r1 ?r2" by (rule step_stream)+
  moreover have "relay_step 30 ?r2 ?r3" by (rule step_scan) (simp_all add: newEventRelay_def new_reader_def)
  moreover have "relay_step 30 ?r3 ?r4"
    by (rule step_scan) (simp_all add: newEventRelay_def new_reader_def)
  moreover have "?r4 = two_waiting"
    by (simp add: two_waiting_def newEventRelay_def new_reader_def reader_scan_def set_reader_def)
  ultimately show ?thesis by (metis (no_types, lifting) rtranclp.rtrancl_refl rtranclp.rtrancl_into_rtrancl)
qed

text \<open>
  With two readers a wake-up is lost: the notification channel holds one token, and the reader
  that takes it (the side-effect reader that runs beside every client, or a superseded client)
  leaves the other asleep. The agent asks the user a question, the question is in the buffer, and
  the client's reader waits with no token and nothing to wake it until the agent's next event,
  which the agent sends only after the answer.
\<close>

theorem two_readers_lose_wakeup:
  "\<exists>r. (relay_step 30)\<^sup>*\<^sup>* (newEventRelay asking) r \<and> pu_phase (rl_pump r) = PumpIdle \<and>
     pu_source (rl_pump r) = [stream_event EventResult] \<and> \<not> rl_notify r \<and> \<not> rl_doneCh r \<and>
     length (rl_readers r) = 2 \<and> list_all (\<lambda>d. rd_phase d = Waiting) (rl_readers r) \<and>
     rd_idx (rl_readers r ! 1) = 0 \<and> rl_events r = [stream_event EventUserInputRequired]"
proof -
  let ?r1 = "pump_take 30 two_waiting"
  let ?r2 = "set_phase PumpIdle (notify ?r1)"
  let ?r3 = "set_reader 0 ((rl_readers ?r2 ! 0)\<lparr>rd_phase := Scanning\<rparr>) (?r2\<lparr>rl_notify := False\<rparr>)"
  let ?r4 = "set_reader 0 (reader_scan ?r3 (rl_readers ?r3 ! 0)) ?r3"
  let ?r5 = "set_reader 0 (reader_scan ?r4 (rl_readers ?r4 ! 0)) ?r4"
  note defs = two_waiting_def newEventRelay_def asking_def new_reader_def pump_take_def reader_scan_def
    pump_observe_def stream_event_def set_phase_def notify_def append_event_def set_reader_def
  have "relay_step 30 two_waiting ?r1" by (rule step_take) (simp_all add: defs)
  moreover have "relay_step 30 ?r1 ?r2" by (rule step_notify) (simp add: defs)
  moreover have "relay_step 30 ?r2 ?r3" by (rule step_wake) (simp_all add: defs)
  moreover have "relay_step 30 ?r3 ?r4" by (rule step_scan) (simp_all add: defs)
  moreover have "relay_step 30 ?r4 ?r5" by (rule step_scan) (simp_all add: defs)
  ultimately have "(relay_step 30)\<^sup>*\<^sup>* (newEventRelay asking) ?r5"
    using two_waiting_reachable by (meson rtranclp.rtrancl_into_rtrancl)
  moreover have "?r5 = ?r5\<lparr>rl_notify := False, rl_doneCh := False\<rparr>" by (simp add: defs)
  ultimately show ?thesis by (intro exI [of _ ?r5]) (simp add: defs Let_def)
qed

theorem single_reader_wakes_witness:
  "let r = pump_take 30 ((newEventRelay asking)\<lparr>rl_readers := [(new_reader 0 True)\<lparr>rd_phase := Waiting\<rparr>]\<rparr>)
   in rl_notify r \<or> rl_doneCh r \<or> pu_phase (rl_pump r) = PumpNotify"
proof -
  let ?r0 = "newEventRelay asking"
  let ?r1 = "?r0\<lparr>rl_readers := rl_readers ?r0 @ [new_reader 0 True]\<rparr>"
  let ?r2 = "set_reader 0 (reader_scan ?r1 (rl_readers ?r1 ! 0)) ?r1"
  let ?w = "?r0\<lparr>rl_readers := [(new_reader 0 True)\<lparr>rd_phase := Waiting\<rparr>]\<rparr>"
  have "relay_step 30 ?r0 ?r1" by (rule step_stream)
  moreover have "relay_step 30 ?r1 ?r2" by (rule step_scan) (simp_all add: newEventRelay_def new_reader_def)
  moreover have "?r2 = ?w" by (simp add: newEventRelay_def new_reader_def reader_scan_def set_reader_def)
  moreover have "relay_step 30 ?w (pump_take 30 ?w)" by (rule step_take) (simp_all add: newEventRelay_def asking_def)
  ultimately have "(relay_step 30)\<^sup>*\<^sup>* ?r0 (pump_take 30 ?w)"
    by (metis (no_types, lifting) rtranclp.rtrancl_refl rtranclp.rtrancl_into_rtrancl)
  from single_reader_wakes [OF this, of "(new_reader 0 True)\<lparr>rd_phase := Waiting\<rparr>"] show ?thesis
    by (simp add: pump_take_def newEventRelay_def asking_def new_reader_def)
qed

text \<open>
  A client that reconnects with the id of the last event it saw is attached right behind it: a
  valid position is accepted exactly when that event is buffered, and events before it are not
  sent again while the next one is the first that is; without a position it starts over.
\<close>

theorem reconnect_position:
  assumes "atoi pos = Some n" "pos \<noteq> []"
  shows "(parseFollowFrom atoi [] pos bufLen = Inr start \<longleftrightarrow> 0 \<le> n \<and> n < int bufLen \<and> start = nat n + 1) \<and>
    parseFollowFrom atoi [] [] bufLen = Inr 0"
  using assms by (auto simp: parseFollowFrom_def)

theorem reconnect_position_witness:
  "parseFollowFrom (\<lambda>s. if s = ''4'' then Some 4 else None) [] ''4'' 5 = Inr 5"
  using reconnect_position [of "\<lambda>s. if s = ''4'' then Some 4 else None" "''4''" 4 5 5] by simp

end
