(* ===== verification/Session_Compaction.thy ===== *)
theory Session_Compaction
  imports Go_Json
begin

text \<open>
  Conversation messages (\<open>wayfinder/session/session_state.go\<close>) and their compaction
  (\<open>compaction.go\<close>, \<open>map_reduce_summarizer.go\<close>). The summarizer and the merger are models behind a
  network; they are parameters. The number of messages to compact is computed with floating point
  as \<open>int(math.Ceil(float64(n) * ratio))\<close>; that function of \<open>n\<close> is the parameter \<open>compactCount\<close>.
\<close>

section \<open>Messages\<close>

definition NormalizeOrigin :: "string \<Rightarrow> string" where
  "NormalizeOrigin origin =
     (if origin \<in> {''claudecode'', ''codex'', ''wayfinder''} then origin else ''wayfinder'')"

record ImageMetadata =
  im_Path :: string
  im_MediaType :: string

record ContentPart =
  cp_Type :: string
  cp_Text :: string
  cp_Image :: "ImageMetadata option"

record ToolCallRecord =
  tc_ID :: string
  tc_Name :: string
  tc_Input :: "(string \<times> json) list"

record Message =
  m_Role :: string
  m_Content :: string
  m_ContentParts :: "ContentPart list"
  m_Timestamp :: "go_time option"
  m_Pinned :: bool
  m_Seq :: int
  m_ToolCalls :: "ToolCallRecord list"
  m_ToolCallID :: string
  m_Origin :: string

definition message :: "string \<Rightarrow> string \<Rightarrow> Message" where
  "message role content = \<lparr>m_Role = role, m_Content = content, m_ContentParts = [], m_Timestamp = None,
     m_Pinned = False, m_Seq = 0, m_ToolCalls = [], m_ToolCallID = [], m_Origin = []\<rparr>"

section \<open>Compaction\<close>

definition calls_tools :: "Message \<Rightarrow> bool" where
  "calls_tools m \<longleftrightarrow> m_Role m = ''assistant'' \<and> 0 < length (m_ToolCalls m)"

text \<open>\<open>shift_back P xs b\<close> is the loop \<open>for b > 0 && P(xs[b]) { b-- }\<close>.\<close>

fun shift_back :: "(Message \<Rightarrow> bool) \<Rightarrow> Message list \<Rightarrow> nat \<Rightarrow> nat" where
  "shift_back P xs 0 = 0"
| "shift_back P xs (Suc b) = (if P (xs ! Suc b) then shift_back P xs b else Suc b)"

definition adjustBoundaryForToolPairs :: "Message list \<Rightarrow> nat \<Rightarrow> nat" where
  "adjustBoundaryForToolPairs unpinned boundary =
     (if boundary = 0 then 0
      else if length unpinned \<le> boundary then boundary
      else if m_Role (unpinned ! boundary) \<noteq> ''tool'' then boundary
      else
        let b = shift_back (\<lambda>m. m_Role m = ''tool'') unpinned boundary
        in if calls_tools (unpinned ! b) then b else boundary)"

definition adjustBoundaryForUserStart :: "Message list \<Rightarrow> nat \<Rightarrow> nat" where
  "adjustBoundaryForUserStart unpinned boundary =
     (if boundary = 0 then 0
      else if length unpinned \<le> boundary then boundary
      else if m_Role (unpinned ! boundary) = ''user'' then boundary
      else
        let b = shift_back (\<lambda>m. m_Role m \<noteq> ''user'') unpinned boundary
        in if b = 0 \<and> m_Role (unpinned ! 0) \<noteq> ''user'' then 0 else b)"

text \<open>The inner loop walks back over tool messages to the message before them.\<close>

definition tool_origin_ok :: "Message list \<Rightarrow> bool" where
  "tool_origin_ok before =
     (case dropWhile (\<lambda>m. m_Role m = ''tool'') (rev before) of [] \<Rightarrow> False | m # _ \<Rightarrow> calls_tools m)"

definition validateToolPairIntegrity :: "Message list \<Rightarrow> bool" where
  "validateToolPairIntegrity messages =
     list_all (\<lambda>i. m_Role (messages ! i) = ''tool'' \<longrightarrow> tool_origin_ok (take i messages)) [0..<length messages]"

definition validateMessageOrdering :: "Message list \<Rightarrow> bool" where
  "validateMessageOrdering messages =
     (case filter (\<lambda>m. \<not> (m_Pinned m \<or> m_Role m = ''system'')) messages of
        [] \<Rightarrow> True
      | m # _ \<Rightarrow> m_Role m = ''user'')"

definition summary_message :: "string \<Rightarrow> Message" where
  "summary_message summary =
     (message ''system'' (''[COMPACTED CONTEXT SUMMARY]'' @ [CHR 0x0A] @ summary))\<lparr>m_Pinned := True\<rparr>"

text \<open>The result is the messages with the summarizer's error if it failed.\<close>

definition Compact ::
  "(nat \<Rightarrow> int) \<Rightarrow> (Message list \<Rightarrow> (string, string) result) \<Rightarrow> Message list \<Rightarrow> Message list \<times> string option" where
  "Compact compactCount summarizer messages =
     (let pinned = filter m_Pinned messages;
          unpinned = filter (\<lambda>m. \<not> m_Pinned m) messages;
          count = compactCount (length unpinned)
      in if int (length unpinned) - count \<le> 0 \<or> count \<le> 0 then (messages, None)
         else
           let boundary = adjustBoundaryForUserStart unpinned
                            (adjustBoundaryForToolPairs unpinned (nat count))
           in if boundary = 0 then (messages, None)
              else case summarizer (take boundary unpinned) of
                     Inl e \<Rightarrow> (messages, Some e)
                   | Inr summary \<Rightarrow>
                       (let result = pinned @ [summary_message summary] @ drop boundary unpinned
                        in if \<not> validateToolPairIntegrity result \<or> \<not> validateMessageOrdering result
                           then (messages, None) else (result, None)))"

text \<open>\<open>TrimLongContent\<close> cuts at a byte offset.\<close>

definition TrimLongContent :: "Message list \<Rightarrow> nat \<Rightarrow> Message list" where
  "TrimLongContent messages maxLen =
     map (\<lambda>m. if maxLen < length (m_Content m)
              then m\<lparr>m_Content := take maxLen (m_Content m) @ [CHR 0x0A] @ ''... [TRUNCATED]''\<rparr> else m) messages"

section \<open>Chunked summaries\<close>

record MapReduceSummarizer =
  mrs_summarize :: "Message list \<Rightarrow> (string, string) result"
  mrs_merge :: "string \<Rightarrow> string \<Rightarrow> (string, string) result"
  mrs_fallbackSummary :: "Message list \<Rightarrow> string"
  mrs_maxChunkMsgs :: nat

definition NewMapReduceSummarizer ::
  "(Message list \<Rightarrow> (string, string) result) \<Rightarrow> (string \<Rightarrow> string \<Rightarrow> (string, string) result)
   \<Rightarrow> (Message list \<Rightarrow> string) \<Rightarrow> int \<Rightarrow> MapReduceSummarizer" where
  "NewMapReduceSummarizer summarize merge fallback maxChunkMsgs =
     \<lparr>mrs_summarize = summarize, mrs_merge = merge, mrs_fallbackSummary = fallback,
      mrs_maxChunkMsgs = (if maxChunkMsgs \<le> 0 then 20 else nat maxChunkMsgs)\<rparr>"

definition chunk_count :: "nat \<Rightarrow> nat \<Rightarrow> nat" where
  "chunk_count maxChunk n = min 4 (max 1 ((n + maxChunk - 1) div maxChunk))"

fun cut_at :: "nat \<Rightarrow> nat list \<Rightarrow> Message list \<Rightarrow> Message list list" where
  "cut_at prev [] msgs = (if prev < length msgs then [drop prev msgs] else [])"
| "cut_at prev (b # bs) msgs =
     (if b \<le> prev then cut_at prev bs msgs
      else take (b - prev) (drop prev msgs) # cut_at b bs msgs)"

definition splitIntoChunks :: "nat \<Rightarrow> Message list \<Rightarrow> Message list list" where
  "splitIntoChunks maxChunk msgs =
     (if length msgs = 0 then []
      else
        let chunkCount = chunk_count maxChunk (length msgs)
        in if chunkCount = 1 then [msgs]
           else
             let chunkSize = length msgs div chunkCount;
                 boundaries = map (\<lambda>i. adjustBoundaryForToolPairs msgs (chunkSize * (i + 1))) [0..<chunkCount - 1]
             in cut_at 0 boundaries msgs)"

definition merge_separator :: string where
  "merge_separator = [CHR 0x0A] @ ''---'' @ [CHR 0x0A]"

fun merge_pairs :: "(string \<Rightarrow> string \<Rightarrow> (string, string) result) \<Rightarrow> string list \<Rightarrow> string list" where
  "merge_pairs merge (a # b # rest) =
     (case merge a b of Inr m \<Rightarrow> m | Inl _ \<Rightarrow> a @ merge_separator @ b) # merge_pairs merge rest"
| "merge_pairs merge xs = xs"

lemma length_merge_pairs [simp]: "length (merge_pairs merge xs) = (length xs + 1) div 2"
  by (induction merge xs rule: merge_pairs.induct) auto

function reduceSummaries :: "(string \<Rightarrow> string \<Rightarrow> (string, string) result) \<Rightarrow> string list \<Rightarrow> string" where
  "reduceSummaries merge summaries =
     (case summaries of
        [] \<Rightarrow> []
      | [s] \<Rightarrow> s
      | _ \<Rightarrow> reduceSummaries merge (merge_pairs merge summaries))"
  by pat_completeness auto
termination
  by (relation "measure (\<lambda>(merge, xs). length xs)") auto

declare reduceSummaries.simps [simp del]

definition Summarize :: "MapReduceSummarizer \<Rightarrow> Message list \<Rightarrow> string" where
  "Summarize s msgs =
     reduceSummaries (mrs_merge s)
       (map (\<lambda>chunk. case mrs_summarize s chunk of Inr t \<Rightarrow> t | Inl _ \<Rightarrow> mrs_fallbackSummary s chunk)
         (splitIntoChunks (mrs_maxChunkMsgs s) msgs))"

section \<open>Boundaries\<close>

lemma shift_back_le: "shift_back P xs b \<le> b"
  by (induction P xs b rule: shift_back.induct) auto

lemma shift_back_stop: "0 < shift_back P xs b \<Longrightarrow> \<not> P (xs ! shift_back P xs b)"
  by (induction P xs b rule: shift_back.induct) (auto split: if_splits)

lemma adjustToolPairs_le: "adjustBoundaryForToolPairs xs b \<le> b"
  by (simp add: adjustBoundaryForToolPairs_def Let_def shift_back_le)

lemma adjustUserStart_le: "adjustBoundaryForUserStart xs b \<le> b"
  by (simp add: adjustBoundaryForUserStart_def Let_def shift_back_le)

lemma adjustUserStart_user:
  assumes "b < length xs" "0 < adjustBoundaryForUserStart xs b"
  shows "m_Role (xs ! adjustBoundaryForUserStart xs b) = ''user''"
  using assms shift_back_stop [of "\<lambda>m. m_Role m \<noteq> ''user''" xs b]
  by (auto simp: adjustBoundaryForUserStart_def Let_def split: if_splits)

lemma Compact_outcome:
  assumes "Compact compactCount summarizer messages = (result, err)"
  shows "(result = messages \<or>
      (\<exists>b summary. let unpinned = filter (\<lambda>m. \<not> m_Pinned m) messages in
         0 < b \<and> b < length unpinned \<and> summarizer (take b unpinned) = Inr summary \<and>
         result = filter m_Pinned messages @ [summary_message summary] @ drop b unpinned \<and>
         m_Role (unpinned ! b) = ''user'' \<and> validateToolPairIntegrity result \<and> validateMessageOrdering result)) \<and>
    (err \<noteq> None \<longrightarrow> result = messages)"
proof -
  let ?u = "filter (\<lambda>m. \<not> m_Pinned m) messages"
  let ?count = "compactCount (length ?u)"
  let ?b = "adjustBoundaryForUserStart ?u (adjustBoundaryForToolPairs ?u (nat ?count))"
  have b: "?b < length ?u \<and> m_Role (?u ! ?b) = ''user''"
    if "\<not> (int (length ?u) - ?count \<le> 0 \<or> ?count \<le> 0)" "?b \<noteq> 0"
  proof -
    have "nat ?count < length ?u" using that(1) by linarith
    then have t: "adjustBoundaryForToolPairs ?u (nat ?count) < length ?u"
      using adjustToolPairs_le le_less_trans by blast
    then show ?thesis using adjustUserStart_user [OF t] that(2) adjustUserStart_le le_less_trans by blast
  qed
  show ?thesis
  proof (cases "(int (length ?u) - ?count \<le> 0 \<or> ?count \<le> 0) \<or> ?b = 0")
    case True
    with assms show ?thesis by (auto simp: Compact_def Let_def split: if_splits)
  next
    case False
    with b have "?b < length ?u" "m_Role (?u ! ?b) = ''user''" "0 < ?b" by auto
    then show ?thesis
      using assms False
      by (cases "summarizer (take ?b ?u)")
        (auto simp: Compact_def Let_def split: if_splits intro!: exI [of _ ?b])
  qed
qed



section \<open>Chunks\<close>

lemma cut_at_concat:
  assumes "prev \<le> length msgs" "\<forall>b \<in> set bs. b \<le> length msgs"
  shows "concat (cut_at prev bs msgs) = drop prev msgs \<and> [] \<notin> set (cut_at prev bs msgs)"
  using assms
proof (induction prev bs msgs rule: cut_at.induct)
  case (2 prev b bs msgs)
  show ?case
  proof (cases "b \<le> prev")
    case False
    with 2 have "concat (cut_at prev (b # bs) msgs) = take (b - prev) (drop prev msgs) @ drop b msgs" by simp
    also have "\<dots> = drop prev msgs"
      using False append_take_drop_id [of "b - prev" "drop prev msgs"] by simp
    finally show ?thesis using False 2 by simp
  qed (use 2 in simp)
qed simp

lemma length_cut_at: "length (cut_at prev bs msgs) \<le> Suc (length bs)"
  by (induction prev bs msgs rule: cut_at.induct) auto

text \<open>
  The chunks of a conversation are a partition of it: joined in order they give back every
  message exactly once, none is empty, and there are at most four (and at least one when there is
  a message).
\<close>

theorem splitIntoChunks_partition:
  "concat (splitIntoChunks maxChunk msgs) = msgs \<and> [] \<notin> set (splitIntoChunks maxChunk msgs) \<and>
   length (splitIntoChunks maxChunk msgs) \<le> 4"
proof (cases "length msgs = 0 \<or> chunk_count maxChunk (length msgs) = 1")
  case True
  then show ?thesis by (auto simp: splitIntoChunks_def Let_def)
next
  case False
  let ?n = "chunk_count maxChunk (length msgs)"
  let ?bs = "map (\<lambda>i. adjustBoundaryForToolPairs msgs (length msgs div ?n * (i + 1))) [0..<?n - 1]"
  have "length msgs div ?n * (i + 1) \<le> length msgs" if "i < ?n - 1" for i
  proof -
    have "length msgs div ?n * (i + 1) \<le> length msgs div ?n * ?n" using that by (intro mult_le_mono2) simp
    also have "\<dots> \<le> length msgs" by (rule div_times_less_eq_dividend)
    finally show ?thesis .
  qed
  then have "\<forall>b \<in> set ?bs. b \<le> length msgs"
    using adjustToolPairs_le order_trans by (auto simp: less_diff_conv) blast
  from cut_at_concat [OF _ this, of 0] length_cut_at [of 0 ?bs msgs] False show ?thesis
    by (auto simp: splitIntoChunks_def Let_def chunk_count_def)
qed

section \<open>Reduction\<close>

lemma Join_append: "xs \<noteq> [] \<Longrightarrow> ys \<noteq> [] \<Longrightarrow> Join (xs @ ys) sep = Join xs sep @ sep @ Join ys sep"
proof (induction xs sep rule: Join.induct)
  case (2 x sep)
  then show ?case by (cases ys) auto
qed auto

lemma Join_merge_pairs:
  assumes "\<And>a b. \<exists>e. merge a b = Inl e"
  shows "Join (merge_pairs merge xs) merge_separator = Join xs merge_separator"
  using assms
proof (induction merge xs rule: merge_pairs.induct)
  case (1 merge a b rest)
  obtain e where e: "merge a b = Inl e" using "1.prems" by blast
  show ?case
  proof (cases rest)
    case Nil
    with e show ?thesis by simp
  next
    case (Cons c cs)
    then have ne: "merge_pairs merge rest \<noteq> []" by (cases cs) simp_all
    have "Join (merge_pairs merge (a # b # rest)) merge_separator
        = (a @ merge_separator @ b) @ merge_separator @ Join (merge_pairs merge rest) merge_separator"
      using e ne Join_append [of "[a @ merge_separator @ b]" "merge_pairs merge rest"] by simp
    with Cons 1 show ?thesis by simp
  qed
qed auto

text \<open>
  Summaries are never lost: the reduction of any number of chunk summaries ends, and when the
  merging model fails every time the result is all the summaries, in order, with separators between
  them.
\<close>

theorem reduceSummaries_fallback:
  assumes "\<forall>a b. \<exists>e. merge a b = Inl e"
  shows "reduceSummaries merge summaries = Join summaries merge_separator"
  using assms
proof (induction merge summaries rule: reduceSummaries.induct)
  case (1 merge summaries)
  show ?case
  proof (cases "length summaries \<le> 1")
    case True
    then consider "summaries = []" | a where "summaries = [a]" by (cases summaries) auto
    then show ?thesis by cases (subst reduceSummaries.simps, simp)+
  next
    case False
    then obtain a b rest where s: "summaries = a # b # rest"
      by (cases summaries; cases "tl summaries") auto
    then have "reduceSummaries merge summaries = reduceSummaries merge (merge_pairs merge summaries)"
      by (subst reduceSummaries.simps) simp
    also have "\<dots> = Join (merge_pairs merge summaries) merge_separator" using "1.IH" [OF s refl] "1.prems" s by simp
    also have "\<dots> = Join summaries merge_separator" using "1.prems" by (intro Join_merge_pairs) blast
    finally show ?thesis .
  qed
qed

theorem reduceSummaries_fallback_witness:
  "reduceSummaries (\<lambda>_ _. Inl ''e'') [''a'', ''b'', ''c''] = Join [''a'', ''b'', ''c''] merge_separator"
  by (rule reduceSummaries_fallback) simp

end
