(* ===== verification/Session_History.thy ===== *)
theory Session_History
  imports Session_Compaction
begin

text \<open>
  Session persistence: the append-only history of messages (\<open>wayfinder/session/history.go\<close>), the
  shared session store with its metadata (\<open>canonical.go\<close>) and the store of the built-in agent with
  its migration from the single-file format (\<open>session_store.go\<close>).

  A directory is an association list from file names to files. The JSON text of a value is the value
  itself; a file can also be unreadable or hold text that does not parse. Every write is an
  \<open>atomicWrite\<close>, which can fail when the temporary file is written or when it is renamed; which of
  them happens is a parameter.
\<close>

section \<open>Files\<close>

datatype 'a node = Unreadable | Unparsable | Holds 'a | Directory

type_synonym 'a dir = "(string \<times> 'a node) list"

datatype write_fault = NoFault | WriteFault | RenameFault

datatype io_error = WriteFailed | RenameFailed | ReadFailed | ParseFailed | NoDir | MkdirFailed

text \<open>
  \<open>atomicWrite\<close>: write the temporary file, remove the target, rename. A failed write may leave a
  partial temporary file; a failed rename removes the temporary file too.
\<close>

definition atomicWrite :: "write_fault \<Rightarrow> 'a dir \<Rightarrow> string \<Rightarrow> 'a \<Rightarrow> 'a dir \<times> io_error option" where
  "atomicWrite fault d target data =
     (let tmp = target @ ''.tmp''
      in case fault of
           WriteFault \<Rightarrow> (massign tmp Unparsable d, Some WriteFailed)
         | RenameFault \<Rightarrow> (mdelete tmp (mdelete target (massign tmp (Holds data) d)), Some RenameFailed)
         | NoFault \<Rightarrow> (massign target (Holds data) (mdelete tmp (mdelete target (massign tmp (Holds data) d))), None))"

text \<open>The directory after each of its three system calls.\<close>

definition atomicWrite_states :: "'a dir \<Rightarrow> string \<Rightarrow> 'a \<Rightarrow> 'a dir list" where
  "atomicWrite_states d target data =
     (let tmp = target @ ''.tmp''; d1 = massign tmp (Holds data) d; d2 = mdelete target d1
      in [d1, d2, massign target (Holds data) (mdelete tmp d2)])"

section \<open>History files\<close>

record HistoryEntry =
  he_Seq :: int
  he_Role :: string
  he_Content :: string
  he_ContentParts :: "ContentPart list"
  he_Timestamp :: "go_time option"
  he_ToolCalls :: "ToolCallRecord list"
  he_ToolCallID :: string
  he_Origin :: string

text \<open>\<open>%07x\<close>.\<close>

definition pad :: "nat \<Rightarrow> string \<Rightarrow> string" where
  "pad w s = replicate (w - length s) (CHR ''0'') @ s"

definition hex7 :: "int \<Rightarrow> string" where
  "hex7 i = (if i < 0 then CHR ''-'' # pad 6 (format_nat 16 (nat (- i))) else pad 7 (format_nat 16 (nat i)))"

definition history_name :: "int \<Rightarrow> string" where
  "history_name seq = hex7 seq @ ''.json''"

definition message_entry :: "Message \<Rightarrow> HistoryEntry" where
  "message_entry msg =
     \<lparr>he_Seq = m_Seq msg, he_Role = m_Role msg, he_Content = m_Content msg,
      he_ContentParts = m_ContentParts msg, he_Timestamp = m_Timestamp msg, he_ToolCalls = m_ToolCalls msg,
      he_ToolCallID = m_ToolCallID msg, he_Origin = NormalizeOrigin (m_Origin msg)\<rparr>"

definition entryToMessage :: "HistoryEntry \<Rightarrow> Message" where
  "entryToMessage entry =
     \<lparr>m_Role = he_Role entry, m_Content = he_Content entry, m_ContentParts = he_ContentParts entry,
      m_Timestamp = he_Timestamp entry, m_Pinned = False, m_Seq = he_Seq entry,
      m_ToolCalls = he_ToolCalls entry, m_ToolCallID = he_ToolCallID entry,
      m_Origin = NormalizeOrigin (he_Origin entry)\<rparr>"

fun AppendHistory ::
  "(string \<Rightarrow> write_fault) \<Rightarrow> HistoryEntry dir \<Rightarrow> Message list \<Rightarrow> HistoryEntry dir \<times> io_error option" where
  "AppendHistory faults hist [] = (hist, None)"
| "AppendHistory faults hist (msg # msgs) =
     (let filename = history_name (m_Seq msg)
      in if map_of hist filename \<noteq> None then AppendHistory faults hist msgs
         else case atomicWrite (faults filename) hist filename (message_entry msg) of
                (hist', Some e) \<Rightarrow> (hist', Some e)
              | (hist', None) \<Rightarrow> AppendHistory faults hist' msgs)"

fun load_seqs :: "HistoryEntry dir \<Rightarrow> int list \<Rightarrow> (io_error, Message list) result" where
  "load_seqs hist [] = Inr []"
| "load_seqs hist (seq # seqs) =
     (case map_of hist (history_name seq) of
        None \<Rightarrow> load_seqs hist seqs
      | Some (Holds entry) \<Rightarrow>
          bind_res (load_seqs hist seqs) (\<lambda>msgs. Inr (entryToMessage entry # msgs))
      | Some Unparsable \<Rightarrow> Inl ParseFailed
      | Some _ \<Rightarrow> Inl ReadFailed)"

definition LoadHistory :: "HistoryEntry dir \<Rightarrow> int \<Rightarrow> int \<Rightarrow> (io_error, Message list) result" where
  "LoadHistory hist fromSeq toSeq = load_seqs hist [fromSeq..toSeq]"

section \<open>The canonical session\<close>

record TrackedFile =
  tf_Path :: string
  tf_CreatedAt :: go_time
  tf_IsDir :: bool

record TrackedProcess =
  tp_PID :: int
  tp_Command :: string
  tp_Args :: "string list"
  tp_StartedAt :: go_time

record AgentBinding =
  ab_AgentSessionID :: string
  ab_IngestedThroughSeq :: int

record SupplementStrategy =
  ss_Algorithm :: string
  ss_Model :: string
  ss_MaxChunkMessages :: int
  ss_ThresholdBytes :: int
  ss_RecentKeep :: int

definition no_supplement :: SupplementStrategy where
  "no_supplement = \<lparr>ss_Algorithm = [], ss_Model = [], ss_MaxChunkMessages = 0, ss_ThresholdBytes = 0, ss_RecentKeep = 0\<rparr>"

record SessionMetadata =
  md_SessionID :: string
  md_ParentID :: "string option"
  md_Status :: string
  md_Latest :: int
  md_TotalSeq :: int
  md_ContextStart :: int
  md_CreatedAt :: "go_time option"
  md_UpdatedAt :: go_time
  md_WBSTreeJSON :: string
  md_CreatedFiles :: "TrackedFile list"
  md_RunningProcesses :: "TrackedProcess list"
  md_ActiveAgent :: string
  md_AgentBindings :: "(string \<times> AgentBinding) list"
  md_Supplement :: SupplementStrategy

text \<open>
  A session directory: \<open>metadata.json\<close> and the \<open>history\<close> folder. \<open>io\<close> says what the file system
  does: whether directories can be created, and the fault of every write.
\<close>

record canonical =
  cn_Dir :: string
  cn_meta :: "SessionMetadata dir"
  cn_hist :: "HistoryEntry dir"

record io =
  io_mkdir :: bool
  io_meta :: write_fault
  io_hist :: "string \<Rightarrow> write_fault"

definition LoadMetadata :: "canonical \<Rightarrow> (io_error, SessionMetadata) result" where
  "LoadMetadata c =
     (case map_of (cn_meta c) ''metadata.json'' of
        Some (Holds meta) \<Rightarrow> Inr meta
      | Some Unparsable \<Rightarrow> Inl ParseFailed
      | _ \<Rightarrow> Inl ReadFailed)"

definition saveMetadata :: "io \<Rightarrow> go_time \<Rightarrow> canonical \<Rightarrow> SessionMetadata \<Rightarrow> canonical \<times> io_error option" where
  "saveMetadata io now c meta =
     (let (d, e) = atomicWrite (io_meta io) (cn_meta c) ''metadata.json'' (meta\<lparr>md_UpdatedAt := now\<rparr>)
      in (c\<lparr>cn_meta := d\<rparr>, e))"

definition fresh_metadata :: "string \<Rightarrow> string \<Rightarrow> go_time \<Rightarrow> SessionMetadata" where
  "fresh_metadata sessionID activeAgent now =
     \<lparr>md_SessionID = sessionID, md_ParentID = None, md_Status = ''active'', md_Latest = 0, md_TotalSeq = 0,
      md_ContextStart = 0, md_CreatedAt = Some now, md_UpdatedAt = now, md_WBSTreeJSON = [],
      md_CreatedFiles = [], md_RunningProcesses = [], md_ActiveAgent = activeAgent,
      md_AgentBindings = [], md_Supplement = no_supplement\<rparr>"

definition Init :: "io \<Rightarrow> go_time \<Rightarrow> canonical \<Rightarrow> string \<Rightarrow> string \<Rightarrow> canonical \<times> io_error option" where
  "Init io now c sessionID activeAgent =
     (if cn_Dir c = [] then (c, Some NoDir)
      else if \<not> io_mkdir io then (c, Some MkdirFailed)
      else case LoadMetadata c of
        Inr meta \<Rightarrow>
          if activeAgent \<noteq> [] \<and> md_ActiveAgent meta \<noteq> activeAgent
          then saveMetadata io now c (meta\<lparr>md_ActiveAgent := activeAgent, md_UpdatedAt := now\<rparr>)
          else (c, None)
      | Inl _ \<Rightarrow> saveMetadata io now c (fresh_metadata sessionID activeAgent now))"

text \<open>\<open>strconv.ParseInt(s, 16, 0)\<close>.\<close>

definition hex_digit :: "char \<Rightarrow> nat option" where
  "hex_digit c =
     (if in_range 48 57 c then Some (byte c - 48)
      else if in_range 97 102 c then Some (byte c - 87)
      else if in_range 65 70 c then Some (byte c - 55) else None)"

definition parse_hex_nat :: "string \<Rightarrow> nat option" where
  "parse_hex_nat s =
     (if s = [] \<or> list_ex (\<lambda>c. hex_digit c = None) s then None
      else Some (digits_value 16 (map (the \<circ> hex_digit) s)))"

definition ParseHex :: "string \<Rightarrow> int option" where
  "ParseHex s =
     (case s of
        CHR ''-'' # t \<Rightarrow>
          (case parse_hex_nat t of Some n \<Rightarrow> if n \<le> 2 ^ 63 then Some (- int n) else None | None \<Rightarrow> None)
      | CHR ''+'' # t \<Rightarrow>
          (case parse_hex_nat t of Some n \<Rightarrow> if n < 2 ^ 63 then Some (int n) else None | None \<Rightarrow> None)
      | _ \<Rightarrow> (case parse_hex_nat s of Some n \<Rightarrow> if n < 2 ^ 63 then Some (int n) else None | None \<Rightarrow> None))"

definition name_seq :: "string \<times> 'a node \<Rightarrow> int option" where
  "name_seq e = (if snd e = Directory \<or> \<not> HasSuffix (fst e) ''.json'' then None
     else ParseHex (TrimSuffix (fst e) ''.json''))"

definition maxHistorySeq :: "HistoryEntry dir \<Rightarrow> int" where
  "maxHistorySeq hist =
     foldl (\<lambda>m e. case name_seq e of Some seq \<Rightarrow> if m < seq then seq else m | None \<Rightarrow> m) 0 hist"

definition NextSeq :: "canonical \<Rightarrow> int" where
  "NextSeq c =
     (case LoadMetadata c of
        Inr meta \<Rightarrow> if 0 < md_TotalSeq meta then md_TotalSeq meta + 1 else maxHistorySeq (cn_hist c) + 1
      | Inl _ \<Rightarrow> maxHistorySeq (cn_hist c) + 1)"

fun assign_seqs :: "go_time \<Rightarrow> int \<Rightarrow> Message list \<Rightarrow> Message list" where
  "assign_seqs now nxt [] = []"
| "assign_seqs now nxt (msg # msgs) =
     (let (msg, nxt) = (if m_Seq msg = 0 then (msg\<lparr>m_Seq := nxt\<rparr>, nxt + 1) else (msg, nxt));
          msg = msg\<lparr>m_Origin := NormalizeOrigin (m_Origin msg)\<rparr>;
          msg = (if m_Timestamp msg = None then msg\<lparr>m_Timestamp := Some now\<rparr> else msg)
      in msg # assign_seqs now nxt msgs)"

definition max_seq :: "int \<Rightarrow> Message list \<Rightarrow> int" where
  "max_seq m msgs = foldl (\<lambda>m msg. if m < m_Seq msg then m_Seq msg else m) m msgs"

definition Append :: "io \<Rightarrow> go_time \<Rightarrow> canonical \<Rightarrow> Message list \<Rightarrow> canonical \<times> io_error option" where
  "Append io now c msgs =
     (if cn_Dir c = [] then (c, None)
      else if \<not> io_mkdir io then (c, Some MkdirFailed)
      else case (case LoadMetadata c of Inl _ \<Rightarrow> Init io now c [] [] | Inr _ \<Rightarrow> (c, None)) of
        (c, Some e) \<Rightarrow> (c, Some e)
      | (c, None) \<Rightarrow>
          (let assigned = assign_seqs now (NextSeq c) msgs
           in case AppendHistory (io_hist io) (cn_hist c) assigned of
                (hist, Some e) \<Rightarrow> (c\<lparr>cn_hist := hist\<rparr>, Some e)
              | (hist, None) \<Rightarrow>
                  (let c = c\<lparr>cn_hist := hist\<rparr>
                   in case LoadMetadata c of
                        Inl e \<Rightarrow> (c, Some e)
                      | Inr meta \<Rightarrow>
                          (let mx = max_seq (md_TotalSeq meta) assigned
                           in saveMetadata io now c (meta\<lparr>md_TotalSeq := mx, md_Latest := mx\<rparr>)))))"

definition LoadRange :: "canonical \<Rightarrow> int \<Rightarrow> int \<Rightarrow> (io_error, Message list) result" where
  "LoadRange c fromSeq toSeq =
     (let toSeq = (if toSeq \<le> 0 then
                     (case LoadMetadata c of
                        Inr meta \<Rightarrow> if 0 < md_TotalSeq meta then md_TotalSeq meta else maxHistorySeq (cn_hist c)
                      | Inl _ \<Rightarrow> maxHistorySeq (cn_hist c))
                   else toSeq)
      in if toSeq < fromSeq then Inr [] else LoadHistory (cn_hist c) fromSeq toSeq)"

definition LoadHistoryFrom :: "canonical \<Rightarrow> int \<Rightarrow> (io_error, Message list) result" where
  "LoadHistoryFrom c fromSeq = LoadRange c fromSeq 0"

definition UpdateBinding ::
  "io \<Rightarrow> go_time \<Rightarrow> canonical \<Rightarrow> string \<Rightarrow> string \<Rightarrow> int \<Rightarrow> canonical \<times> io_error option" where
  "UpdateBinding io now c agent nativeSessionID throughSeq =
     (case (case LoadMetadata c of
              Inr meta \<Rightarrow> (c, None)
            | Inl _ \<Rightarrow> Init io now c [] agent) of
        (c, Some e) \<Rightarrow> (c, Some e)
      | (c, None) \<Rightarrow>
          (case LoadMetadata c of
             Inl e \<Rightarrow> (c, Some e)
           | Inr meta \<Rightarrow>
               (let agent = NormalizeOrigin agent;
                    native = (if nativeSessionID = []
                              then (case map_of (md_AgentBindings meta) agent of
                                      None \<Rightarrow> [] | Some b \<Rightarrow> ab_AgentSessionID b)
                              else nativeSessionID)
                in saveMetadata io now c
                     (meta\<lparr>md_AgentBindings := massign agent
                        \<lparr>ab_AgentSessionID = native, ab_IngestedThroughSeq = throughSeq\<rparr> (md_AgentBindings meta)\<rparr>))))"

definition SetActiveAgent :: "io \<Rightarrow> go_time \<Rightarrow> canonical \<Rightarrow> string \<Rightarrow> canonical \<times> io_error option" where
  "SetActiveAgent io now c agent =
     (case LoadMetadata c of
        Inl e \<Rightarrow> (c, Some e)
      | Inr meta \<Rightarrow> saveMetadata io now c (meta\<lparr>md_ActiveAgent := agent\<rparr>))"

definition overlaySupplement :: "SupplementStrategy \<Rightarrow> SupplementStrategy \<Rightarrow> SupplementStrategy" where
  "overlaySupplement base over =
     \<lparr>ss_Algorithm = (if ss_Algorithm over \<noteq> [] then ss_Algorithm over else ss_Algorithm base),
      ss_Model = (if ss_Model over \<noteq> [] then ss_Model over else ss_Model base),
      ss_MaxChunkMessages = (if ss_MaxChunkMessages over \<noteq> 0 then ss_MaxChunkMessages over else ss_MaxChunkMessages base),
      ss_ThresholdBytes = (if ss_ThresholdBytes over \<noteq> 0 then ss_ThresholdBytes over else ss_ThresholdBytes base),
      ss_RecentKeep = (if ss_RecentKeep over \<noteq> 0 then ss_RecentKeep over else ss_RecentKeep base)\<rparr>"

definition SetSupplement :: "io \<Rightarrow> go_time \<Rightarrow> canonical \<Rightarrow> SupplementStrategy \<Rightarrow> canonical \<times> io_error option" where
  "SetSupplement io now c s =
     (case LoadMetadata c of
        Inl e \<Rightarrow> (c, Some e)
      | Inr meta \<Rightarrow> saveMetadata io now c (meta\<lparr>md_Supplement := overlaySupplement (md_Supplement meta) s\<rparr>))"

section \<open>The agent's session store\<close>

record SessionState =
  st_SessionID :: string
  st_ParentID :: "string option"
  st_Status :: string
  st_Messages :: "Message list"
  st_CreatedFiles :: "TrackedFile list"
  st_RunningProcesses :: "TrackedProcess list"
  st_WBSTreeJSON :: string
  st_CreatedAt :: "go_time option"
  st_LastActivityAt :: go_time
  st_ActiveAgent :: string
  st_AgentBindings :: "(string \<times> AgentBinding) list"
  st_Supplement :: SupplementStrategy

text \<open>
  What the store keeps of one session: the metadata, the context, the history folder with one
  subfolder per child session, and the legacy file beside the folder.
\<close>

record session_folder =
  sf_meta :: "SessionMetadata dir"
  sf_context :: "Message list dir"
  sf_hist :: "string \<Rightarrow> HistoryEntry dir"
  sf_legacy :: "SessionState node option"

record store_io =
  so_mkdir :: bool
  so_meta :: write_fault
  so_context :: write_fault
  so_hist :: "string \<Rightarrow> write_fault"

definition state_metadata :: "SessionState \<Rightarrow> int \<Rightarrow> go_time \<Rightarrow> SessionMetadata" where
  "state_metadata state totalSeq now =
     \<lparr>md_SessionID = st_SessionID state, md_ParentID = st_ParentID state, md_Status = st_Status state,
      md_Latest = int (length (st_Messages state)), md_TotalSeq = totalSeq, md_ContextStart = 0,
      md_CreatedAt = st_CreatedAt state, md_UpdatedAt = now, md_WBSTreeJSON = st_WBSTreeJSON state,
      md_CreatedFiles = st_CreatedFiles state, md_RunningProcesses = st_RunningProcesses state,
      md_ActiveAgent = st_ActiveAgent state, md_AgentBindings = st_AgentBindings state,
      md_Supplement = st_Supplement state\<rparr>"

definition write_meta_context ::
  "store_io \<Rightarrow> session_folder \<Rightarrow> SessionMetadata \<Rightarrow> Message list \<Rightarrow> session_folder \<times> io_error option" where
  "write_meta_context io f meta msgs =
     (case atomicWrite (so_meta io) (sf_meta f) ''metadata.json'' meta of
        (d, Some e) \<Rightarrow> (f\<lparr>sf_meta := d\<rparr>, Some e)
      | (d, None) \<Rightarrow>
          (let f = f\<lparr>sf_meta := d\<rparr>
           in case atomicWrite (so_context io) (sf_context f) ''context.json'' msgs of
                (d, e) \<Rightarrow> (f\<lparr>sf_context := d\<rparr>, e)))"

definition Save ::
  "store_io \<Rightarrow> go_time \<Rightarrow> string \<Rightarrow> session_folder \<Rightarrow> SessionState \<Rightarrow> session_folder \<times> io_error option" where
  "Save io now subDir f state =
     (if \<not> so_mkdir io then (f, Some MkdirFailed)
      else
        let prevTotalSeq = (case map_of (sf_meta f) ''metadata.json'' of
                              Some (Holds meta) \<Rightarrow> md_TotalSeq meta | _ \<Rightarrow> 0);
            newMsgs = filter (\<lambda>msg. prevTotalSeq < m_Seq msg) (st_Messages state)
        in case (if newMsgs \<noteq> [] then AppendHistory (so_hist io) (sf_hist f subDir) newMsgs
                 else (sf_hist f subDir, None)) of
             (hist, Some e) \<Rightarrow> (f\<lparr>sf_hist := (sf_hist f)(subDir := hist)\<rparr>, Some e)
           | (hist, None) \<Rightarrow>
               write_meta_context io (f\<lparr>sf_hist := (sf_hist f)(subDir := hist)\<rparr>)
                 (state_metadata state (max_seq prevTotalSeq (st_Messages state)) now) (st_Messages state))"

definition metadata_state :: "SessionMetadata \<Rightarrow> Message list \<Rightarrow> SessionState" where
  "metadata_state meta msgs =
     \<lparr>st_SessionID = md_SessionID meta, st_ParentID = md_ParentID meta, st_Status = md_Status meta,
      st_Messages = msgs, st_CreatedFiles = md_CreatedFiles meta,
      st_RunningProcesses = md_RunningProcesses meta, st_WBSTreeJSON = md_WBSTreeJSON meta,
      st_CreatedAt = md_CreatedAt meta, st_LastActivityAt = md_UpdatedAt meta,
      st_ActiveAgent = md_ActiveAgent meta, st_AgentBindings = md_AgentBindings meta,
      st_Supplement = md_Supplement meta\<rparr>"

definition loadFromFolder :: "session_folder \<Rightarrow> (io_error, SessionState) result" where
  "loadFromFolder f =
     (case map_of (sf_meta f) ''metadata.json'' of
        Some (Holds meta) \<Rightarrow>
          (case map_of (sf_context f) ''context.json'' of
             None \<Rightarrow> Inr (metadata_state meta [])
           | Some (Holds msgs) \<Rightarrow> Inr (metadata_state meta msgs)
           | Some Unparsable \<Rightarrow> Inl ParseFailed
           | Some _ \<Rightarrow> Inl ReadFailed)
      | Some Unparsable \<Rightarrow> Inl ParseFailed
      | _ \<Rightarrow> Inl ReadFailed)"

definition migrateToFolder ::
  "store_io \<Rightarrow> go_time \<Rightarrow> session_folder \<Rightarrow> SessionState \<Rightarrow> session_folder \<times> io_error option" where
  "migrateToFolder io now f state =
     (if \<not> so_mkdir io then (f, Some MkdirFailed)
      else case AppendHistory (so_hist io) (sf_hist f []) (st_Messages state) of
        (hist, Some e) \<Rightarrow> (f\<lparr>sf_hist := (sf_hist f)([] := hist)\<rparr>, Some e)
      | (hist, None) \<Rightarrow>
          (case write_meta_context io (f\<lparr>sf_hist := (sf_hist f)([] := hist)\<rparr>)
                  (state_metadata state 0 now) (st_Messages state) of
             (f, Some e) \<Rightarrow> (f, Some e)
           | (f, None) \<Rightarrow> (f\<lparr>sf_legacy := None\<rparr>, None)))"

definition Store_Load ::
  "store_io \<Rightarrow> go_time \<Rightarrow> session_folder \<Rightarrow> session_folder \<times> (io_error, SessionState option) result" where
  "Store_Load io now f =
     (if map_of (sf_meta f) ''metadata.json'' \<noteq> None
      then (f, bind_res (loadFromFolder f) (\<lambda>s. Inr (Some s)))
      else case sf_legacy f of
        None \<Rightarrow> (f, Inr None)
      | Some (Holds state) \<Rightarrow> (fst (migrateToFolder io now f state), Inr (Some state))
      | Some Unparsable \<Rightarrow> (f, Inl ParseFailed)
      | Some _ \<Rightarrow> (f, Inl ReadFailed))"

section \<open>File names\<close>

lemma hex_digit_digit_char: "d < 16 \<Longrightarrow> hex_digit (digit_char d) = Some d"
  by (auto simp: hex_digit_def digit_char_def in_range_def byte_def)

lemma digits_value_zeros: "digits_value b (replicate k 0 @ ds) = digits_value b ds"
  by (induction k) (auto simp: digits_value_def)

lemma format_hex_digits: "map (the \<circ> hex_digit) (format_nat 16 n) = digits_base 16 n"
  using digits_base_bound [of 16 _ n]
  by (auto simp: format_nat_def hex_digit_digit_char intro!: map_idI)

lemma parse_pad: "parse_hex_nat (pad w (format_nat 16 n)) = Some n"
proof -
  let ?s = "pad w (format_nat 16 n)"
  have zero: "hex_digit (CHR ''0'') = Some 0" by (simp add: hex_digit_def in_range_def byte_def)
  have "hex_digit c \<noteq> None" if "c \<in> set (format_nat 16 n)" for c
    using that digits_base_bound [of 16 _ n] by (auto simp: format_nat_def hex_digit_digit_char)
  then have "\<forall>c \<in> set ?s. hex_digit c \<noteq> None" using zero by (auto simp: pad_def)
  moreover have "map (the \<circ> hex_digit) ?s = replicate (w - length (format_nat 16 n)) 0 @ digits_base 16 n"
    using zero by (simp add: pad_def format_hex_digits [symmetric])
  ultimately show ?thesis
    by (auto simp: parse_hex_nat_def list_ex_iff digits_value_zeros digits_value_digits_base pad_def)
qed

lemma pad_head: "hd (pad w (format_nat 16 n)) \<notin> {CHR ''-'', CHR ''+''} \<and> pad w (format_nat 16 n) \<noteq> []"
proof -
  have "pad w (format_nat 16 n) \<noteq> []" by (simp add: pad_def)
  then have "hex_digit (hd (pad w (format_nat 16 n))) \<noteq> None"
    using parse_pad [of w n] by (auto simp: parse_hex_nat_def list_ex_iff split: if_splits dest: hd_in_set)
  with \<open>pad w (format_nat 16 n) \<noteq> []\<close> show ?thesis by (auto simp: hex_digit_def in_range_def byte_def)
qed

lemma ParseHex_plain: "hd s \<notin> {CHR ''-'', CHR ''+''} \<Longrightarrow> s \<noteq> [] \<Longrightarrow>
    ParseHex s = (case parse_hex_nat s of Some n \<Rightarrow> if n < 2 ^ 63 then Some (int n) else None | None \<Rightarrow> None)"
  by (cases s) (auto simp: ParseHex_def split: list.splits char.splits bool.splits)

text \<open>
  History file names are faithful: the name of every sequence number a session can reach parses
  back to that number, so that a scan of the folder recovers it and no two messages share a file.
\<close>

theorem history_name_roundtrip:
  assumes "0 \<le> seq" "seq < 2 ^ 63"
  shows "name_seq (history_name seq, Holds entry) = Some seq"
proof -
  have "HasSuffix (hex7 seq @ ''.json'') ''.json''" by (simp add: HasSuffix_iff suffix_def)
  then have "TrimSuffix (history_name seq) ''.json'' = hex7 seq"
    by (simp add: TrimSuffix_def history_name_def)
  moreover have "ParseHex (hex7 seq) = Some seq"
    using assms pad_head [of 7 "nat seq"] by (simp add: hex7_def ParseHex_plain parse_pad nat_less_iff)
  ultimately show ?thesis using \<open>HasSuffix _ _\<close> by (simp add: name_seq_def history_name_def)
qed

theorem history_name_roundtrip_witness: "name_seq (history_name 26, Holds entry) = Some 26"
  by (rule history_name_roundtrip) simp_all

lemma history_name_inj:
  assumes "0 \<le> i" "0 \<le> j" "history_name i = history_name j"
  shows "i = j"
proof -
  have "pad 7 (format_nat 16 (nat i)) = pad 7 (format_nat 16 (nat j))"
    using assms by (simp add: history_name_def hex7_def)
  then have "Some (nat i) = Some (nat j)" by (metis parse_pad)
  with assms show ?thesis by simp
qed

lemma history_name_not_tmp: "history_name i \<noteq> history_name j @ ''.tmp''"
proof
  assume "history_name i = history_name j @ ''.tmp''"
  then have "last (history_name i) = last (history_name j @ ''.tmp'')" by simp
  then show False by (simp add: history_name_def)
qed

section \<open>Append-only history\<close>

lemma atomicWrite_ok:
  "is_go_map d \<Longrightarrow> atomicWrite NoFault d target v = (d', e) \<Longrightarrow>
   e = None \<and> is_go_map d' \<and> map_of d' = (map_of d)(target \<mapsto> Holds v, target @ ''.tmp'' := None)"
  by (auto simp: atomicWrite_def Let_def)

lemma AppendHistory_keeps:
  assumes "is_go_map hist" "AppendHistory faults hist msgs = (hist', e)" "map_of hist (history_name i) = Some f"
  shows "is_go_map hist' \<and> map_of hist' (history_name i) = Some f"
  using assms
proof (induction faults hist msgs arbitrary: e rule: AppendHistory.induct)
  case (2 faults hist msg msgs)
  let ?n = "history_name (m_Seq msg)"
  show ?case
  proof (cases "map_of hist ?n")
    case (Some g)
    with 2 show ?thesis by simp
  next
    case None
    obtain hist1 e1 where w: "atomicWrite (faults ?n) hist ?n (message_entry msg) = (hist1, e1)"
      by (cases "atomicWrite (faults ?n) hist ?n (message_entry msg)")
    have ne: "history_name i \<noteq> ?n" using None "2.prems"(3) by auto
    have "is_go_map hist1 \<and> map_of hist1 (history_name i) = Some f"
      using w ne "2.prems"(1,3) history_name_not_tmp [of i "m_Seq msg"]
      by (cases "faults ?n") (auto simp: atomicWrite_def Let_def)
    with None w "2.IH"(2) [OF refl _ w [symmetric]] "2.prems"(2) show ?thesis
      by (auto split: option.splits)
  qed
qed simp

lemma AppendHistory_fresh:
  assumes "is_go_map hist" "\<forall>m \<in> set msgs. 0 \<le> m_Seq m" "distinct (map m_Seq msgs)"
    and "\<forall>m \<in> set msgs. map_of hist (history_name (m_Seq m)) = None"
    and "AppendHistory (\<lambda>_. NoFault) hist msgs = (hist', e)"
  shows "e = None \<and> is_go_map hist' \<and>
    (\<forall>m \<in> set msgs. map_of hist' (history_name (m_Seq m)) = Some (Holds (message_entry m))) \<and>
    (\<forall>i. i \<notin> m_Seq ` set msgs \<longrightarrow> 0 \<le> i \<longrightarrow> map_of hist' (history_name i) = map_of hist (history_name i))"
  using assms
proof (induction msgs arbitrary: hist)
  case (Cons msg msgs)
  let ?n = "history_name (m_Seq msg)"
  obtain hist1 e1 where w: "atomicWrite NoFault hist ?n (message_entry msg) = (hist1, e1)"
    by (cases "atomicWrite NoFault hist ?n (message_entry msg)")
  note h1 = atomicWrite_ok [OF Cons.prems(1) w]
  have at: "map_of hist1 (history_name i) = (if history_name i = ?n then Some (Holds (message_entry msg))
      else map_of hist (history_name i))" for i
    using h1 history_name_not_tmp [of i "m_Seq msg"] by simp
  have other: "map_of hist1 (history_name i) = map_of hist (history_name i)" if "i \<noteq> m_Seq msg" "0 \<le> i" for i
    using at [of i] history_name_inj [of i "m_Seq msg"] that Cons.prems(2) by auto
  have ne: "m_Seq m \<noteq> m_Seq msg" if "m \<in> set msgs" for m
    using that Cons.prems(3) by (auto intro: rev_image_eqI)
  have fresh: "\<forall>m \<in> set msgs. map_of hist1 (history_name (m_Seq m)) = None"
  proof
    fix m
    assume m: "m \<in> set msgs"
    with Cons.prems(2) have "0 \<le> m_Seq m" by simp
    from other [OF ne [OF m] this] m Cons.prems(4) show "map_of hist1 (history_name (m_Seq m)) = None" by simp
  qed
  have "AppendHistory (\<lambda>_. NoFault) hist1 msgs = (hist', e)" using Cons.prems(4,5) w h1 by simp
  with Cons.IH [OF _ _ _ fresh] h1 Cons.prems(2,3)
  have IH: "e = None \<and> is_go_map hist' \<and>
    (\<forall>m \<in> set msgs. map_of hist' (history_name (m_Seq m)) = Some (Holds (message_entry m))) \<and>
    (\<forall>i. i \<notin> m_Seq ` set msgs \<longrightarrow> 0 \<le> i \<longrightarrow> map_of hist' (history_name i) = map_of hist1 (history_name i))"
    by simp
  moreover have "m_Seq msg \<notin> m_Seq ` set msgs" "0 \<le> m_Seq msg" using Cons.prems(2,3) by auto
  ultimately show ?case using at [of "m_Seq msg"] other by auto
qed simp

text \<open>
  History is append-only: whatever messages are appended and whatever writes fail, the file of
  a message that is already stored is never changed or removed.
\<close>

theorem history_append_only:
  assumes "is_go_map hist" "map_of hist (history_name i) = Some f"
  shows "map_of (fst (AppendHistory faults hist msgs)) (history_name i) = Some f"
  using AppendHistory_keeps [OF assms(1) _ assms(2)] by (metis prod.collapse)

theorem history_append_only_witness:
  "map_of (fst (AppendHistory (\<lambda>_. RenameFault) [(history_name 1, Unparsable)] [(message ''user'' ''a'')\<lparr>m_Seq := 2\<rparr>]))
     (history_name 1) = Some Unparsable"
  by (rule history_append_only) simp_all

text \<open>
  The write that the code calls atomic is not: the target is removed before the rename, so a
  crash between the two leaves no file under the target name, and a rename that fails deletes the
  new text as well, so that both the old and the new content are lost.
\<close>

theorem atomicWrite_loses_file:
  "map_of (atomicWrite_states [(''metadata.json'', Holds old)] ''metadata.json'' new ! 1) ''metadata.json'' = None \<and>
   atomicWrite RenameFault [(''metadata.json'', Holds old)] ''metadata.json'' new = ([], Some RenameFailed)"
  by (simp add: atomicWrite_states_def atomicWrite_def Let_def)

section \<open>The canonical log\<close>

definition good_io :: "io \<Rightarrow> bool" where
  "good_io io \<longleftrightarrow> io_mkdir io \<and> io_meta io = NoFault \<and> io_hist io = (\<lambda>_. NoFault)"

text \<open>A sound session: readable metadata, and exactly the messages up to its last number on disk.\<close>

definition canon_ok :: "canonical \<Rightarrow> SessionMetadata \<Rightarrow> bool" where
  "canon_ok c meta \<longleftrightarrow> cn_Dir c \<noteq> [] \<and> is_go_map (cn_meta c) \<and> is_go_map (cn_hist c) \<and>
     map_of (cn_meta c) ''metadata.json'' = Some (Holds meta) \<and> 0 \<le> md_TotalSeq meta \<and>
     (\<forall>i. 1 \<le> i \<and> i \<le> md_TotalSeq meta \<longrightarrow> (\<exists>e. map_of (cn_hist c) (history_name i) = Some (Holds e))) \<and>
     (\<forall>i > md_TotalSeq meta. map_of (cn_hist c) (history_name i) = None) \<and>
     (md_TotalSeq meta = 0 \<longrightarrow> maxHistorySeq (cn_hist c) = 0)"

definition entry_at :: "HistoryEntry dir \<Rightarrow> int \<Rightarrow> Message" where
  "entry_at hist i = (case map_of hist (history_name i) of Some (Holds e) \<Rightarrow> entryToMessage e | _ \<Rightarrow> undefined)"

lemma load_seqs_all:
  "\<forall>i \<in> set seqs. \<exists>e. map_of hist (history_name i) = Some (Holds e) \<Longrightarrow>
   load_seqs hist seqs = Inr (map (entry_at hist) seqs)"
  by (induction seqs) (auto simp: entry_at_def)

lemma canon_meta: "canon_ok c meta \<Longrightarrow> LoadMetadata c = Inr meta"
  by (simp add: canon_ok_def LoadMetadata_def)

lemma canon_log:
  assumes "canon_ok c meta"
  shows "LoadHistoryFrom c 1 = Inr (map (entry_at (cn_hist c)) [1..md_TotalSeq meta])"
proof -
  have "load_seqs (cn_hist c) [1..md_TotalSeq meta] = Inr (map (entry_at (cn_hist c)) [1..md_TotalSeq meta])"
    using assms by (intro load_seqs_all) (auto simp: canon_ok_def)
  moreover have "0 \<le> md_TotalSeq meta" "md_TotalSeq meta = 0 \<Longrightarrow> maxHistorySeq (cn_hist c) = 0"
    using assms by (simp_all add: canon_ok_def)
  ultimately show ?thesis
    by (cases "md_TotalSeq meta = 0")
      (simp_all add: LoadHistoryFrom_def LoadRange_def canon_meta [OF assms] LoadHistory_def Let_def)
qed

lemma canon_next: "canon_ok c meta \<Longrightarrow> NextSeq c = md_TotalSeq meta + 1"
  by (auto simp: NextSeq_def canon_meta) (auto simp: canon_ok_def)

definition numbered :: "go_time \<Rightarrow> int \<Rightarrow> Message \<Rightarrow> Message" where
  "numbered now i m = m\<lparr>m_Seq := i, m_Origin := NormalizeOrigin (m_Origin m),
     m_Timestamp := (case m_Timestamp m of None \<Rightarrow> Some now | t \<Rightarrow> t)\<rparr>"

lemma assign_seqs_map2:
  "\<forall>m \<in> set msgs. m_Seq m = 0 \<Longrightarrow>
   assign_seqs now n msgs = map2 (numbered now) [n..n + int (length msgs) - 1] msgs"
proof (induction msgs arbitrary: n)
  case (Cons m msgs)
  have "[n..n + int (length (m # msgs)) - 1] = n # [n + 1..(n + 1) + int (length msgs) - 1]"
    by (subst upto_rec1) (simp_all add: algebra_simps)
  with Cons show ?case by (auto simp: Let_def numbered_def split: option.split)
qed simp

lemma max_seq_assign:
  "\<forall>m \<in> set msgs. m_Seq m = 0 \<Longrightarrow> max_seq n (assign_seqs now (n + 1) msgs) = n + int (length msgs)"
proof (induction msgs arbitrary: n)
  case (Cons m msgs)
  have "max_seq (n + 1) (assign_seqs now (n + 1 + 1) msgs) = n + 1 + int (length msgs)"
    by (rule Cons.IH) (use Cons.prems in simp)
  with Cons.prems show ?case by (simp add: max_seq_def Let_def)
qed (simp add: max_seq_def)

lemma m_Seq_numbered [simp]: "m_Seq (numbered now i m) = i"
  by (simp add: numbered_def)

lemma seqs_map2: "length is = length msgs \<Longrightarrow> map m_Seq (map2 (numbered now) is msgs) = is"
  by (induction "is" msgs rule: list_induct2) simp_all

lemma NormalizeOrigin_idem [simp]: "NormalizeOrigin (NormalizeOrigin s) = NormalizeOrigin s"
  by (auto simp: NormalizeOrigin_def)

lemma entryToMessage_entry [simp]:
  "entryToMessage (message_entry m) = m\<lparr>m_Pinned := False, m_Origin := NormalizeOrigin (m_Origin m)\<rparr>"
  by (simp add: entryToMessage_def message_entry_def)

lemma upto_split_one: "0 \<le> t \<Longrightarrow> 0 \<le> n \<Longrightarrow> [1..t + n] = [1..t] @ [t + 1..t + n]"
  by (cases "t = 0") (simp_all add: upto_split2 [of 1 t "t + n"])

lemma entry_at_new:
  assumes "length is = length ms"
    and "\<forall>m \<in> set (map2 (numbered now) is ms). map_of hist (history_name (m_Seq m)) = Some (Holds (message_entry m))"
  shows "map (entry_at hist) is = map2 (\<lambda>i m. (numbered now i m)\<lparr>m_Pinned := False\<rparr>) is ms"
  using assms
proof (induction "is" ms rule: list_induct2)
  case (Cons i "is" m ms)
  then show ?case by (simp add: entry_at_def) (simp add: numbered_def)
qed simp

lemma append_canonical:
  assumes "canon_ok c meta" "good_io io" "\<forall>m \<in> set msgs. m_Seq m = 0"
    and "LoadHistoryFrom c 1 = Inr old" "Append io now c msgs = (c', err)"
  shows "err = None \<and> (\<exists>meta'. canon_ok c' meta' \<and> md_TotalSeq meta' = md_TotalSeq meta + int (length msgs)) \<and>
    LoadHistoryFrom c' 1 = Inr (old @ map2 (\<lambda>i m. (numbered now i m)\<lparr>m_Pinned := False\<rparr>)
      [md_TotalSeq meta + 1..md_TotalSeq meta + int (length msgs)] msgs)"
proof -
  let ?t = "md_TotalSeq meta" and ?n = "int (length msgs)"
  let ?is = "[?t + 1..?t + ?n]"
  let ?as = "map2 (numbered now) ?is msgs"
  have t: "0 \<le> ?t" and maps: "is_go_map (cn_hist c)" "is_go_map (cn_meta c)" using assms(1) by (simp_all add: canon_ok_def)
  have as: "assign_seqs now (?t + 1) msgs = ?as" using assign_seqs_map2 [OF assms(3)] by (simp add: algebra_simps)
  have len: "length ?is = length msgs" by simp
  have seqs: "map m_Seq ?as = ?is" using seqs_map2 [OF len] .
  then have seq_set: "m_Seq ` set ?as = {?t + 1..?t + ?n}" by (metis list.set_map set_upto)
  obtain hist e where app: "AppendHistory (io_hist io) (cn_hist c) ?as = (hist, e)"
    by (cases "AppendHistory (io_hist io) (cn_hist c) ?as")
  have range: "?t + 1 \<le> m_Seq m" if "m \<in> set ?as" for m using seq_set that by force
  have fresh: "\<forall>m \<in> set ?as. 0 \<le> m_Seq m" "\<forall>m \<in> set ?as. map_of (cn_hist c) (history_name (m_Seq m)) = None"
  proof -
    show "\<forall>m \<in> set ?as. 0 \<le> m_Seq m" using range t by force
    have "\<forall>i > ?t. map_of (cn_hist c) (history_name i) = None" using assms(1) by (simp add: canon_ok_def)
    then show "\<forall>m \<in> set ?as. map_of (cn_hist c) (history_name (m_Seq m)) = None" using range by force
  qed
  have "distinct (map m_Seq ?as)" unfolding seqs by simp
  moreover have "io_hist io = (\<lambda>_. NoFault)" using assms(2) by (simp add: good_io_def)
  ultimately have h: "e = None \<and> is_go_map hist \<and>
    (\<forall>m \<in> set ?as. map_of hist (history_name (m_Seq m)) = Some (Holds (message_entry m))) \<and>
    (\<forall>i. i \<notin> m_Seq ` set ?as \<longrightarrow> 0 \<le> i \<longrightarrow> map_of hist (history_name i) = map_of (cn_hist c) (history_name i))"
    using AppendHistory_fresh [OF maps(1) fresh(1) _ fresh(2)] app by simp
  have keep: "map_of hist (history_name i) = map_of (cn_hist c) (history_name i)" if "0 \<le> i" "i \<le> ?t \<or> ?t + ?n < i" for i
    using h that seq_set by auto
  let ?meta = "meta\<lparr>md_TotalSeq := ?t + ?n, md_Latest := ?t + ?n\<rparr>"
  obtain d e2 where sv: "atomicWrite NoFault (cn_meta c) ''metadata.json'' (?meta\<lparr>md_UpdatedAt := now\<rparr>) = (d, e2)"
    by (cases "atomicWrite NoFault (cn_meta c) ''metadata.json'' (?meta\<lparr>md_UpdatedAt := now\<rparr>)")
  note d = atomicWrite_ok [OF maps(2) sv]
  have "LoadMetadata (c\<lparr>cn_hist := hist\<rparr>) = Inr meta" using canon_meta [OF assms(1)] by (simp add: LoadMetadata_def)
  then have "Append io now c msgs = (c\<lparr>cn_hist := hist, cn_meta := d\<rparr>, None)"
    using assms(1,2) h app d sv max_seq_assign [OF assms(3), of ?t now]
    by (simp add: Append_def canon_meta canon_next as Let_def saveMetadata_def good_io_def) (simp add: canon_ok_def)
  with assms(5) have c': "c' = c\<lparr>cn_hist := hist, cn_meta := d\<rparr>" and err: "err = None" by auto
  have newf: "\<exists>e. map_of hist (history_name i) = Some (Holds e)" if "?t < i" "i \<le> ?t + ?n" for i
  proof -
    have "i \<in> m_Seq ` set ?as" using that seq_set by simp
    with h show ?thesis by auto
  qed
  have "canon_ok c' (?meta\<lparr>md_UpdatedAt := now\<rparr>)"
    unfolding canon_ok_def
  proof (intro conjI allI impI)
    show "maxHistorySeq (cn_hist c') = 0" if "md_TotalSeq (?meta\<lparr>md_UpdatedAt := now\<rparr>) = 0"
    proof -
      have "?t + ?n = 0" using that by simp
      then have "?t = 0" "?n = 0" using t by linarith+
      then have "?t = 0" "msgs = []" by simp_all
      then show ?thesis using app c' assms(1) by (simp add: canon_ok_def)
    qed
    show "\<exists>e. map_of (cn_hist c') (history_name i) = Some (Holds e)"
      if "1 \<le> i \<and> i \<le> md_TotalSeq (?meta\<lparr>md_UpdatedAt := now\<rparr>)" for i
      using that keep [of i] newf [of i] assms(1) c' by (cases "i \<le> ?t") (auto simp: canon_ok_def)
    show "map_of (cn_hist c') (history_name i) = None" if "md_TotalSeq (?meta\<lparr>md_UpdatedAt := now\<rparr>) < i" for i
      using that keep [of i] assms(1) c' t by (simp add: canon_ok_def)
  qed (use assms(1) c' d h t in \<open>simp_all add: canon_ok_def\<close>)
  moreover from canon_log [OF this] have "LoadHistoryFrom c' 1 = Inr (map (entry_at hist) [1..?t] @ map (entry_at hist) ?is)"
    using c' upto_split_one [OF t, of ?n] by simp
  moreover have "map (entry_at hist) [1..?t] = old"
    using canon_log [OF assms(1)] assms(4) keep by (auto simp: entry_at_def)
  moreover have "map (entry_at hist) ?is = map2 (\<lambda>i m. (numbered now i m)\<lparr>m_Pinned := False\<rparr>) ?is msgs"
    using entry_at_new [OF len] h by blast
  ultimately show ?thesis using err by auto
qed


definition sample_io :: io where
  "sample_io = \<lparr>io_mkdir = True, io_meta = NoFault, io_hist = (\<lambda>_. NoFault)\<rparr>"

definition sample_session :: canonical where
  "sample_session = \<lparr>cn_Dir = ''d'', cn_meta = [(''metadata.json'', Holds (fresh_metadata ''s'' ''codex'' 0))], cn_hist = []\<rparr>"

lemma sample_session_ok: "canon_ok sample_session (fresh_metadata ''s'' ''codex'' 0)"
  by (simp add: canon_ok_def sample_session_def fresh_metadata_def maxHistorySeq_def)


section \<open>Bindings\<close>

text \<open>
  Recording how far an agent has been fed changes that agent's binding only: its watermark is the
  given one, its native session id is kept when none is given, and the bindings of other agents,
  the active agent and the history are untouched.
\<close>

theorem UpdateBinding_spec:
  assumes "canon_ok c meta" "good_io io" "UpdateBinding io now c agent native through = (c', err)"
  shows "err = None \<and> cn_hist c' = cn_hist c \<and>
    (\<exists>meta'. LoadMetadata c' = Inr meta' \<and> md_ActiveAgent meta' = md_ActiveAgent meta \<and>
      md_TotalSeq meta' = md_TotalSeq meta \<and>
      (\<exists>b. map_of (md_AgentBindings meta') (NormalizeOrigin agent) = Some b \<and> ab_IngestedThroughSeq b = through \<and>
        (native \<noteq> [] \<longrightarrow> ab_AgentSessionID b = native) \<and>
        (native = [] \<longrightarrow> (\<forall>b0. map_of (md_AgentBindings meta) (NormalizeOrigin agent) = Some b0 \<longrightarrow>
           ab_AgentSessionID b = ab_AgentSessionID b0))) \<and>
      (\<forall>a. a \<noteq> NormalizeOrigin agent \<longrightarrow> map_of (md_AgentBindings meta') a = map_of (md_AgentBindings meta) a))"
proof -
  let ?a = "NormalizeOrigin agent"
  let ?nat = "if native = [] then (case map_of (md_AgentBindings meta) ?a of None \<Rightarrow> [] | Some b \<Rightarrow> ab_AgentSessionID b)
    else native"
  let ?b = "\<lparr>ab_AgentSessionID = ?nat, ab_IngestedThroughSeq = through\<rparr>"
  let ?meta = "meta\<lparr>md_AgentBindings := massign ?a ?b (md_AgentBindings meta), md_UpdatedAt := now\<rparr>"
  obtain d e where w: "atomicWrite NoFault (cn_meta c) ''metadata.json'' ?meta = (d, e)"
    by (cases "atomicWrite NoFault (cn_meta c) ''metadata.json'' ?meta")
  have "is_go_map (cn_meta c)" using assms(1) by (simp add: canon_ok_def)
  note d = atomicWrite_ok [OF this w]
  have "UpdateBinding io now c agent native through = (c\<lparr>cn_meta := d\<rparr>, None)"
    using canon_meta [OF assms(1)] assms(2) w d
    by (simp add: UpdateBinding_def saveMetadata_def good_io_def Let_def)
  with assms(3) have c': "c' = c\<lparr>cn_meta := d\<rparr>" "err = None" by auto
  moreover have "LoadMetadata c' = Inr ?meta" using c' d by (simp add: LoadMetadata_def)
  ultimately show ?thesis by (intro conjI exI [of _ ?meta]) (auto intro!: exI [of _ ?b])
qed

theorem UpdateBinding_spec_witness:
  "cn_hist (fst (UpdateBinding sample_io 9 sample_session ''codex'' ''n1'' 4)) = cn_hist sample_session"
  using UpdateBinding_spec [OF sample_session_ok _ prod.collapse [symmetric], of sample_io 9 "''codex''" "''n1''" 4]
  by (simp add: good_io_def sample_io_def)

section \<open>Save and load\<close>

lemma Save_files:
  assumes "so_mkdir io" "so_meta io = NoFault" "so_context io = NoFault" "\<forall>n. so_hist io n = NoFault"
    and "is_go_map (sf_meta f)" "is_go_map (sf_context f)" "\<forall>d. is_go_map (sf_hist f d)"
  shows "\<exists>f'. Save io now sub f state = (f', None) \<and>
    map_of (sf_context f') ''context.json'' = Some (Holds (st_Messages state)) \<and>
    (\<exists>t. map_of (sf_meta f') ''metadata.json'' = Some (Holds (state_metadata state t now)))"
proof -
  have "\<exists>h'. AppendHistory (so_hist io) h ms = (h', None)" if "is_go_map h" for h ms
    using that assms(4)
  proof (induction "so_hist io" h ms rule: AppendHistory.induct)
    case (2 hist msg msgs)
    then show ?case
      by (auto simp: atomicWrite_def Let_def)
  qed simp
  then have hist: "\<exists>h'. (if ms \<noteq> [] then AppendHistory (so_hist io) (sf_hist f sub) ms
      else (sf_hist f sub, None)) = (h', None)" for ms
    using assms(7) by (cases "ms = []") simp_all
  define prev where "prev = (case map_of (sf_meta f) ''metadata.json'' of Some (Holds meta) \<Rightarrow> md_TotalSeq meta | _ \<Rightarrow> 0)"
  define ms where "ms = filter (\<lambda>msg. prev < m_Seq msg) (st_Messages state)"
  obtain h' where h': "(if ms \<noteq> [] then AppendHistory (so_hist io) (sf_hist f sub) ms
      else (sf_hist f sub, None)) = (h', None)" using hist by blast
  have "Save io now sub f state = write_meta_context io (f\<lparr>sf_hist := (sf_hist f)(sub := h')\<rparr>)
      (state_metadata state (max_seq prev (st_Messages state)) now) (st_Messages state)"
    unfolding Save_def Let_def prev_def [symmetric] ms_def [symmetric] h' using assms(1) by simp
  with assms show ?thesis by (auto simp: write_meta_context_def atomicWrite_def Let_def)
qed

text \<open>
  What the agent's store saves it loads back: after a successful save, loading the session gives
  the same state with the time of the save as its last activity, whichever folder the history went
  to; loading changes nothing on disk.
\<close>

theorem Save_Load_roundtrip:
  assumes "so_mkdir io" "so_meta io = NoFault" "so_context io = NoFault" "\<forall>n. so_hist io n = NoFault"
    and "is_go_map (sf_meta f)" "is_go_map (sf_context f)" "\<forall>d. is_go_map (sf_hist f d)"
    and "Save io now sub f state = (f', err)"
  shows "err = None \<and> Store_Load io' now' f' = (f', Inr (Some (state\<lparr>st_LastActivityAt := now\<rparr>)))"
proof -
  from Save_files [OF assms(1-7), of now sub state] assms(8) obtain t where
    "err = None" "map_of (sf_context f') ''context.json'' = Some (Holds (st_Messages state))"
    "map_of (sf_meta f') ''metadata.json'' = Some (Holds (state_metadata state t now))" by auto
  then show ?thesis
    by (simp add: Store_Load_def loadFromFolder_def metadata_state_def state_metadata_def)
qed

theorem Save_Load_roundtrip_witness:
  "let io = \<lparr>so_mkdir = True, so_meta = NoFault, so_context = NoFault, so_hist = (\<lambda>_. NoFault)\<rparr>;
       f = \<lparr>sf_meta = [], sf_context = [], sf_hist = (\<lambda>_. []), sf_legacy = None\<rparr>;
       s = metadata_state (fresh_metadata ''s'' ''codex'' 1) [message ''user'' ''a'']
   in snd (Store_Load io 8 (fst (Save io 5 [] f s))) = Inr (Some (s\<lparr>st_LastActivityAt := 5\<rparr>))"
  using Save_Load_roundtrip
    [of "\<lparr>so_mkdir = True, so_meta = NoFault, so_context = NoFault, so_hist = (\<lambda>_. NoFault)\<rparr>"
        "\<lparr>sf_meta = [], sf_context = [], sf_hist = (\<lambda>_. []), sf_legacy = None\<rparr>" 5 "[]"
        "metadata_state (fresh_metadata ''s'' ''codex'' 1) [message ''user'' ''a'']",
      OF _ _ _ _ _ _ _ prod.collapse [symmetric]]
  by (simp add: Let_def)

end
