(* ===== verification/Context_Transfer.thy ===== *)
theory Context_Transfer
  imports Session_History Stream_Events
begin

text \<open>
  Handing a conversation from one agent to another: what a turn adds to the shared log
  (\<open>agentservice/ingest.go\<close>, \<open>AppendSessionMessage\<close> of \<open>multimodal.go\<close>), what the next agent has not
  seen yet and how it is told (\<open>wayfinder/portable/portable.go\<close>), and how the service wraps a prompt with
  it (\<open>agentservice/handler_session.go\<close>). The summarizing model is a parameter.
\<close>

section \<open>Supplements\<close>

abbreviation AlgorithmMapReduce :: string where "AlgorithmMapReduce \<equiv> ''map_reduce''"
abbreviation AlgorithmFull :: string where "AlgorithmFull \<equiv> ''full''"
abbreviation AlgorithmStructured :: string where "AlgorithmStructured \<equiv> ''structured''"

definition TransferHeader :: string where "TransferHeader = ''Tern session context transfer''"
definition TransferNotice :: string where
  "TransferNotice = ''The following is reconstructed from a shared session log. It is supplementary history, not your own previous turn. Origins are labeled.''"
definition TransferFooter :: string where "TransferFooter = ''End of transferred context''"

datatype supplement_error = UnknownAlgorithm string | ErrMapReduceRequiresLLM

definition WithDefaults :: "SupplementStrategy \<Rightarrow> SupplementStrategy" where
  "WithDefaults s =
     \<lparr>ss_Algorithm = (if ss_Algorithm s = [] then AlgorithmMapReduce else ss_Algorithm s), ss_Model = ss_Model s,
      ss_MaxChunkMessages = (if ss_MaxChunkMessages s \<le> 0 then 20 else ss_MaxChunkMessages s),
      ss_ThresholdBytes = (if ss_ThresholdBytes s \<le> 0 then 32768 else ss_ThresholdBytes s),
      ss_RecentKeep = (if ss_RecentKeep s \<le> 0 then 8 else ss_RecentKeep s)\<rparr>"

definition KnownAlgorithm :: "string \<Rightarrow> bool" where
  "KnownAlgorithm algorithm \<longleftrightarrow> algorithm \<in> {[], AlgorithmMapReduce, AlgorithmFull, AlgorithmStructured}"

definition overlay :: "SupplementStrategy \<Rightarrow> SupplementStrategy \<Rightarrow> SupplementStrategy" where
  "overlay base over =
     (let base = (if ss_Algorithm over \<noteq> [] then base\<lparr>ss_Algorithm := ss_Algorithm over\<rparr> else base);
          base = (if ss_Model over \<noteq> [] then base\<lparr>ss_Model := ss_Model over\<rparr> else base);
          base = (if ss_MaxChunkMessages over \<noteq> 0 then base\<lparr>ss_MaxChunkMessages := ss_MaxChunkMessages over\<rparr> else base);
          base = (if ss_ThresholdBytes over \<noteq> 0 then base\<lparr>ss_ThresholdBytes := ss_ThresholdBytes over\<rparr> else base)
      in if ss_RecentKeep over \<noteq> 0 then base\<lparr>ss_RecentKeep := ss_RecentKeep over\<rparr> else base)"

definition MergeStrategy ::
  "SupplementStrategy \<Rightarrow> SupplementStrategy \<Rightarrow> SupplementStrategy \<Rightarrow> (supplement_error, SupplementStrategy) result" where
  "MergeStrategy server sess turn =
     (let out = overlay (overlay server sess) turn
      in if \<not> KnownAlgorithm (ss_Algorithm out) then Inl (UnknownAlgorithm (ss_Algorithm out)) else Inr out)"

definition Delta :: "Message list \<Rightarrow> string \<Rightarrow> int \<Rightarrow> Message list" where
  "Delta msgs targetOrigin ingestedThroughSeq =
     filter (\<lambda>m. \<not> m_Seq m \<le> ingestedThroughSeq \<and> NormalizeOrigin (m_Origin m) \<noteq> NormalizeOrigin targetOrigin) msgs"

text \<open>\<open>string(runes[:max])\<close>: an invalid byte has become the replacement character.\<close>

definition trimRunes :: "string \<Rightarrow> nat \<Rightarrow> string" where
  "trimRunes s mx =
     (if mx = 0 \<or> length (to_runes s) \<le> mx then s
      else concat (map show_rune (take mx (to_runes s))) @ [CHR 0x0A] @ ''... [TRUNCATED]'')"

definition firstLine :: "string \<Rightarrow> string" where
  "firstLine s = (case strIndex s [CHR 0x0A] of Some i \<Rightarrow> take i s | None \<Rightarrow> s)"

definition render_message :: "string \<Rightarrow> Message \<Rightarrow> string" where
  "render_message target m =
     (let origin = NormalizeOrigin (m_Origin m)
      in ''[origin='' @ origin @ ''] '' @ m_Role m @ '':'' @
         (if m_Content m \<noteq> [] then '' '' @ trimRunes (m_Content m) 5000 else []) @
         concat (map (\<lambda>tc. [CHR 0x0A] @ (if origin = target then ''  tool('' @ tc_Name tc @ '')''
             else ''  tool('' @ origin @ '':'' @ tc_Name tc @ '')'')) (m_ToolCalls m)))"

definition RenderSupplement :: "string \<Rightarrow> Message list \<Rightarrow> string" where
  "RenderSupplement targetAgent msgs = Join (map (render_message (NormalizeOrigin targetAgent)) msgs) [CHR 0x0A]"

definition StructuredSummary :: "Message list \<Rightarrow> string" where
  "StructuredSummary msgs =
     Join (map (\<lambda>m. NormalizeOrigin (m_Origin m) @ '' '' @ m_Role m @ '': '' @ firstLine (m_Content m) @
         concat (map (\<lambda>tc. '' tool('' @ tc_Name tc @ '')'') (m_ToolCalls m))) msgs) [CHR 0x0A]"

record Summarizer =
  su_Summarize :: "string \<Rightarrow> Message list \<Rightarrow> (string, string) result"
  su_Merge :: "string \<Rightarrow> string \<Rightarrow> string \<Rightarrow> (string, string) result"

definition BuildSupplement ::
  "string \<Rightarrow> Message list \<Rightarrow> SupplementStrategy \<Rightarrow> Summarizer option \<Rightarrow> (supplement_error, string) result" where
  "BuildSupplement targetAgent msgs strat llm =
     (let strat = WithDefaults strat; rendered = RenderSupplement targetAgent msgs
      in if ss_Algorithm strat = AlgorithmFull then Inr rendered
         else if ss_Algorithm strat = AlgorithmStructured then Inr (StructuredSummary msgs)
         else if ss_Algorithm strat = AlgorithmMapReduce then
           if int (length rendered) \<le> ss_ThresholdBytes strat then Inr rendered
           else (case llm of
                   None \<Rightarrow> Inl ErrMapReduceRequiresLLM
                 | Some l \<Rightarrow>
                     (let keepCount = min (nat (ss_RecentKeep strat)) (length msgs);
                          old = take (length msgs - keepCount) msgs; keep = drop (length msgs - keepCount) msgs
                      in if old = [] then Inr rendered
                         else Inr (''[COMPACTED CONTEXT SUMMARY]'' @ [CHR 0x0A] @
                           Summarize (NewMapReduceSummarizer (su_Summarize l (ss_Model strat)) (su_Merge l (ss_Model strat))
                             StructuredSummary (ss_MaxChunkMessages strat)) old @ [CHR 0x0A] @ RenderSupplement targetAgent keep)))
         else Inl (UnknownAlgorithm (ss_Algorithm strat)))"

definition WrapPrompt :: "string \<Rightarrow> string \<Rightarrow> string" where
  "WrapPrompt supplement userPrompt =
     (let gap = [CHR 0x0A, CHR 0x0A]
      in if TrimSpace supplement = [] then userPrompt
         else TransferHeader @ gap @ TransferNotice @ gap @ supplement @ gap @ TransferFooter @ gap @ userPrompt)"

section \<open>Ingesting a turn\<close>

text \<open>The state of the loop is the messages so far and the text not yet flushed.\<close>

definition turn_message :: "go_time \<Rightarrow> string \<Rightarrow> string \<Rightarrow> string \<Rightarrow> Message" where
  "turn_message now origin role content = (message role content)\<lparr>m_Timestamp := Some now, m_Origin := origin\<rparr>"

definition flushText :: "go_time \<Rightarrow> string \<Rightarrow> Message list \<times> string \<Rightarrow> Message list \<times> string" where
  "flushText now origin st =
     (case st of (msgs, txt) \<Rightarrow> if txt = [] then (msgs, txt) else (msgs @ [turn_message now origin ''assistant'' txt], []))"

definition ingest_event :: "go_time \<Rightarrow> string \<Rightarrow> Message list \<times> string \<Rightarrow> StreamEvent \<Rightarrow> Message list \<times> string" where
  "ingest_event now origin st ev =
     (if se_Type ev = EventText then (fst st, snd st @ se_Content ev)
      else if se_Type ev = EventToolUse then
        (fst (flushText now origin st) @ [(turn_message now origin ''assistant'' [])\<lparr>m_ToolCalls :=
           [\<lparr>tc_ID = [], tc_Name = se_ToolName ev, tc_Input = se_ToolInput ev\<rparr>]\<rparr>], [])
      else if se_Type ev = EventToolResult then
        (fst (flushText now origin st) @ [turn_message now origin ''tool'' (se_Content ev)], [])
      else if se_Type ev = EventResult then flushText now origin st
      else if se_Type ev \<in> {EventSystem, EventError, EventUserInputRequired, EventToolResultPart, EventNodeStart,
          EventNodeComplete, EventNodeFailed, EventProgress} then st
      else flushText now origin st)"

definition EventsToMessages :: "go_time \<Rightarrow> string \<Rightarrow> StreamEvent list \<Rightarrow> Message list" where
  "EventsToMessages now origin events =
     (let origin = NormalizeOrigin origin
      in fst (flushText now origin (foldl (ingest_event now origin) ([], []) events)))"

definition native_id :: "string \<Rightarrow> StreamEvent list \<Rightarrow> string" where
  "native_id nativeSessionID events =
     foldl (\<lambda>n ev. if se_Type ev = EventSystem \<and> se_SessionID ev \<noteq> [] then se_SessionID ev else n) nativeSessionID events"

definition IngestTurn ::
  "io \<Rightarrow> go_time \<Rightarrow> canonical \<Rightarrow> string \<Rightarrow> string \<Rightarrow> StreamEvent list \<Rightarrow> canonical \<times> io_error option" where
  "IngestTurn io now c origin nativeSessionID events =
     (if cn_Dir c = [] then (c, None)
      else case Init io now c [] origin of
        (c, Some e) \<Rightarrow> (c, Some e)
      | (c, None) \<Rightarrow>
          (case Append io now c (EventsToMessages now origin events) of
             (c, Some e) \<Rightarrow> (c, Some e)
           | (c, None) \<Rightarrow>
               (case LoadMetadata c of
                  Inl e \<Rightarrow> (c, Some e)
                | Inr meta \<Rightarrow> UpdateBinding io now c origin (native_id nativeSessionID events) (md_TotalSeq meta))))"

definition AppendSessionMessage :: "io \<Rightarrow> go_time \<Rightarrow> canonical \<Rightarrow> Message \<Rightarrow> canonical \<times> io_error option" where
  "AppendSessionMessage io now c msg =
     (if cn_Dir c = [] then (c, None)
      else case Init io now c [] (m_Origin msg) of
        (c, Some e) \<Rightarrow> (c, Some e)
      | (c, None) \<Rightarrow> Append io now c [if m_Origin msg = [] then msg\<lparr>m_Origin := ''wayfinder''\<rparr> else msg])"

section \<open>Wrapping a prompt\<close>

record wrapResult =
  wr_prompt :: string
  wr_resumeID :: string
  wr_injected :: bool

definition default_model :: "string \<Rightarrow> SupplementStrategy \<Rightarrow> SupplementStrategy" where
  "default_model model strat = (if ss_Model strat = [] then strat\<lparr>ss_Model := model\<rparr> else strat)"

text \<open>The record is given by its agent, native session id and model; the summarizer by the last argument.\<close>

definition wrapPromptWithSupplement ::
  "canonical \<Rightarrow> string \<Rightarrow> string \<Rightarrow> string \<Rightarrow> SupplementStrategy \<Rightarrow> string \<Rightarrow> SupplementStrategy option \<Rightarrow> Summarizer option
   \<Rightarrow> (supplement_error, wrapResult) result" where
  "wrapPromptWithSupplement c agentName agentSessionID model server promptText turn llm =
     (let result = \<lparr>wr_prompt = promptText, wr_resumeID = agentSessionID, wr_injected = False\<rparr>
      in if cn_Dir c = [] then Inr result
         else case LoadMetadata c of
           Inl _ \<Rightarrow> Inr result
         | Inr meta \<Rightarrow>
             (let (through, ownNative) = (case map_of (md_AgentBindings meta) agentName of
                    Some b \<Rightarrow> (ab_IngestedThroughSeq b, ab_AgentSessionID b) | None \<Rightarrow> (0, []));
                  result = (if agentSessionID = [] then result\<lparr>wr_resumeID := ownNative\<rparr> else result)
              in if md_TotalSeq meta \<le> 0 then Inr result
                 else case LoadRange c 1 (md_TotalSeq meta) of
                   Inl _ \<Rightarrow> Inr result
                 | Inr msgs \<Rightarrow>
                     (let delta = Delta msgs agentName through
                      in if msgs = [] \<or> delta = [] then Inr result
                         else bind_res (MergeStrategy server (md_Supplement meta)
                                  (case turn of None \<Rightarrow> no_supplement | Some s \<Rightarrow> s)) (\<lambda>strat.
                              bind_res (BuildSupplement agentName delta (default_model model (WithDefaults strat)) llm) (\<lambda>sup.
                              Inr (result\<lparr>wr_prompt := WrapPrompt sup promptText, wr_injected := True\<rparr>))))))"

definition wrapPromptForSelfHeal ::
  "canonical \<Rightarrow> string \<Rightarrow> string \<Rightarrow> SupplementStrategy \<Rightarrow> string \<Rightarrow> Summarizer option \<Rightarrow> (supplement_error, string) result" where
  "wrapPromptForSelfHeal c agentName model server userPrompt llm =
     (if cn_Dir c = [] then Inr userPrompt
      else case LoadMetadata c of
        Inl _ \<Rightarrow> Inr userPrompt
      | Inr meta \<Rightarrow>
          (case LoadRange c 1 (md_TotalSeq meta) of
             Inl _ \<Rightarrow> Inr userPrompt
           | Inr msgs \<Rightarrow>
               (let prior = filter (\<lambda>m. \<not> (m_Seq m = md_TotalSeq meta \<and> m_Role m = ''user'')) msgs
                in if prior = [] then Inr userPrompt
                   else bind_res (MergeStrategy server (md_Supplement meta) no_supplement) (\<lambda>strat.
                        bind_res (BuildSupplement agentName prior (default_model model (WithDefaults strat)) llm) (\<lambda>sup.
                        Inr (WrapPrompt sup userPrompt))))))"

definition wrapHTTPStatus :: "supplement_error option \<Rightarrow> nat" where
  "wrapHTTPStatus err =
     (case err of None \<Rightarrow> 200 | Some ErrMapReduceRequiresLLM \<Rightarrow> 500 | Some (UnknownAlgorithm _) \<Rightarrow> 400)"

section \<open>Lemmas on saving, opening and appending\<close>

lemma save_canon:
  assumes "canon_ok c meta" "good_io io" "md_TotalSeq m = md_TotalSeq meta" "saveMetadata io now c m = (c', err)"
  shows "err = None \<and> cn_hist c' = cn_hist c \<and> canon_ok c' (m\<lparr>md_UpdatedAt := now\<rparr>)"
proof -
  obtain d e where w: "atomicWrite NoFault (cn_meta c) ''metadata.json'' (m\<lparr>md_UpdatedAt := now\<rparr>) = (d, e)"
    by (cases "atomicWrite NoFault (cn_meta c) ''metadata.json'' (m\<lparr>md_UpdatedAt := now\<rparr>)")
  have "is_go_map (cn_meta c)" using assms(1) by (simp add: canon_ok_def)
  note d = atomicWrite_ok [OF this w]
  have c': "c' = c\<lparr>cn_meta := d\<rparr>" "err = None"
    using assms(2,4) w d by (auto simp: saveMetadata_def good_io_def)
  with assms(1,3) d show ?thesis by (simp add: canon_ok_def)
qed

lemma init_canon:
  assumes "canon_ok c meta" "good_io io" "Init io now c sid agent = (c', err)"
  shows "err = None \<and> cn_hist c' = cn_hist c \<and>
    (\<exists>meta'. canon_ok c' meta' \<and> md_TotalSeq meta' = md_TotalSeq meta \<and> md_AgentBindings meta' = md_AgentBindings meta)"
proof (cases "agent \<noteq> [] \<and> md_ActiveAgent meta \<noteq> agent")
  case True
  have "cn_Dir c \<noteq> []" "io_mkdir io" using assms(1,2) by (simp_all add: canon_ok_def good_io_def)
  then have "saveMetadata io now c (meta\<lparr>md_ActiveAgent := agent, md_UpdatedAt := now\<rparr>) = (c', err)"
    using assms(3) True canon_meta [OF assms(1)] by (simp add: Init_def)
  from save_canon [OF assms(1,2) _ this] show ?thesis
    by (intro conjI exI [of _ "meta\<lparr>md_ActiveAgent := agent, md_UpdatedAt := now\<rparr>"]) simp_all
next
  case False
  have "cn_Dir c \<noteq> []" "io_mkdir io" using assms(1,2) by (simp_all add: canon_ok_def good_io_def)
  then have "c' = c \<and> err = None"
    using assms(3) False canon_meta [OF assms(1)] by (auto simp: Init_def)
  with assms(1) show ?thesis by auto
qed

lemma append_bindings:
  assumes "canon_ok c meta" "good_io io" "Append io now c msgs = (c', None)" "LoadMetadata c' = Inr meta'"
  shows "md_AgentBindings meta' = md_AgentBindings meta"
proof -
  have g: "cn_Dir c \<noteq> []" "io_mkdir io" "io_meta io = NoFault" "is_go_map (cn_meta c)"
    using assms(1,2) by (simp_all add: canon_ok_def good_io_def)
  let ?as = "assign_seqs now (NextSeq c) msgs"
  let ?mx = "max_seq (md_TotalSeq meta) ?as"
  let ?m = "meta\<lparr>md_TotalSeq := ?mx, md_Latest := ?mx, md_UpdatedAt := now\<rparr>"
  obtain h e where h: "AppendHistory (io_hist io) (cn_hist c) ?as = (h, e)"
    by (cases "AppendHistory (io_hist io) (cn_hist c) ?as")
  obtain d f where w: "atomicWrite NoFault (cn_meta c) ''metadata.json'' ?m = (d, f)"
    by (cases "atomicWrite NoFault (cn_meta c) ''metadata.json'' ?m")
  note d = atomicWrite_ok [OF g(4) w]
  have lm: "LoadMetadata (c\<lparr>cn_hist := h\<rparr>) = Inr meta"
    using canon_meta [OF assms(1)] by (simp add: LoadMetadata_def)
  have "e = None"
    using assms(3) g canon_meta [OF assms(1)] h by (cases e) (simp_all add: Append_def Let_def)
  then have "c' = c\<lparr>cn_hist := h, cn_meta := d\<rparr>"
    using assms(3) g canon_meta [OF assms(1)] h lm w by (simp add: Append_def Let_def saveMetadata_def)
  with d assms(4) show ?thesis by (auto simp: LoadMetadata_def)
qed

section \<open>The shared log\<close>

text \<open>What \<open>wrapPromptWithSupplement\<close> reads for an agent: how far it has been fed.\<close>

definition watermark :: "SessionMetadata \<Rightarrow> string \<Rightarrow> int" where
  "watermark meta agent =
     (case map_of (md_AgentBindings meta) agent of Some b \<Rightarrow> ab_IngestedThroughSeq b | None \<Rightarrow> 0)"

text \<open>A sound session whose messages are numbered by their place and whose watermarks lie within the log.\<close>

definition log_ok :: "canonical \<Rightarrow> SessionMetadata \<Rightarrow> Message list \<Rightarrow> bool" where
  "log_ok c meta msgs \<longleftrightarrow> canon_ok c meta \<and> LoadHistoryFrom c 1 = Inr msgs \<and>
     map m_Seq msgs = [1..md_TotalSeq meta] \<and> (\<forall>a. watermark meta a \<le> md_TotalSeq meta)"

lemma log_ok_nonneg: "log_ok c meta msgs \<Longrightarrow> 0 \<le> md_TotalSeq meta"
  by (simp add: log_ok_def canon_ok_def)

lemma log_ok_seq: "log_ok c meta msgs \<Longrightarrow> m \<in> set msgs \<Longrightarrow> 1 \<le> m_Seq m \<and> m_Seq m \<le> md_TotalSeq meta"
proof -
  assume "log_ok c meta msgs" "m \<in> set msgs"
  then have "m_Seq m \<in> set [1..md_TotalSeq meta]" unfolding log_ok_def by (metis in_set_conv_nth length_map nth_map nth_mem)
  then show ?thesis by simp
qed

lemma log_ok_load:
  assumes "log_ok c meta msgs" "0 < md_TotalSeq meta"
  shows "LoadRange c 1 (md_TotalSeq meta) = Inr msgs"
proof -
  have "LoadMetadata c = Inr meta" using assms(1) by (simp add: log_ok_def canon_meta)
  with assms show ?thesis by (simp add: log_ok_def LoadHistoryFrom_def LoadRange_def)
qed

lemma load_same_hist:
  "canon_ok c meta \<Longrightarrow> canon_ok c' meta' \<Longrightarrow> cn_hist c' = cn_hist c \<Longrightarrow> md_TotalSeq meta' = md_TotalSeq meta \<Longrightarrow>
   LoadHistoryFrom c' 1 = LoadHistoryFrom c 1"
  by (simp add: canon_log)

lemma log_init:
  assumes "log_ok c meta msgs" "good_io io" "Init io now c sid agent = (c', err)"
  obtains meta' where "err = None" "log_ok c' meta' msgs" "md_TotalSeq meta' = md_TotalSeq meta"
    "watermark meta' = watermark meta"
proof -
  have c: "canon_ok c meta" using assms(1) by (simp add: log_ok_def)
  from init_canon [OF this assms(2,3)] obtain meta' where m: "canon_ok c' meta'" "md_TotalSeq meta' = md_TotalSeq meta"
    "md_AgentBindings meta' = md_AgentBindings meta" "cn_hist c' = cn_hist c" "err = None" by auto
  then have w: "watermark meta' = watermark meta" by (simp add: watermark_def fun_eq_iff)
  have "log_ok c' meta' msgs"
    using assms(1) m w load_same_hist [OF c m(1,4,2)] by (simp add: log_ok_def)
  with m w that show thesis by blast
qed

definition logged :: "go_time \<Rightarrow> int \<Rightarrow> Message list \<Rightarrow> Message list" where
  "logged now n msgs = map2 (\<lambda>i m. (numbered now i m)\<lparr>m_Pinned := False\<rparr>) [n + 1..n + int (length msgs)] msgs"

lemma seqs_logged: "map m_Seq (logged now n msgs) = [n + 1..n + int (length msgs)]"
proof -
  have "length is = length msgs \<Longrightarrow> map m_Seq (map2 (\<lambda>i m. (numbered now i m)\<lparr>m_Pinned := False\<rparr>) is msgs) = is" for "is"
    by (induction "is" msgs rule: list_induct2) simp_all
  then show ?thesis by (simp add: logged_def)
qed

lemma logged_origin:
  assumes "\<forall>m \<in> set msgs. m_Origin m = a" shows "m \<in> set (logged now n msgs) \<Longrightarrow> m_Origin m = NormalizeOrigin a"
  using assms by (auto simp: logged_def numbered_def dest: set_zip_rightD)

lemma log_append:
  assumes "log_ok c meta old" "good_io io" "\<forall>m \<in> set msgs. m_Seq m = 0" "Append io now c msgs = (c', err)"
  obtains meta' where "err = None" "log_ok c' meta' (old @ logged now (md_TotalSeq meta) msgs)"
    "md_TotalSeq meta' = md_TotalSeq meta + int (length msgs)" "watermark meta' = watermark meta"
proof -
  have c: "canon_ok c meta" and l: "LoadHistoryFrom c 1 = Inr old" using assms(1) by (simp_all add: log_ok_def)
  from append_canonical [OF c assms(2,3) l assms(4)] obtain meta' where m: "err = None" "canon_ok c' meta'"
    "md_TotalSeq meta' = md_TotalSeq meta + int (length msgs)"
    "LoadHistoryFrom c' 1 = Inr (old @ logged now (md_TotalSeq meta) msgs)" by (auto simp: logged_def)
  then have "Append io now c msgs = (c', None)" using assms(4) by simp
  from append_bindings [OF c assms(2) this canon_meta [OF m(2)]]
  have w: "watermark meta' = watermark meta" by (simp add: watermark_def fun_eq_iff)
  have "log_ok c' meta' (old @ logged now (md_TotalSeq meta) msgs)"
    unfolding log_ok_def
  proof (intro conjI allI)
    show "map m_Seq (old @ logged now (md_TotalSeq meta) msgs) = [1..md_TotalSeq meta']"
      using assms(1) m(3) log_ok_nonneg [OF assms(1)] by (simp add: log_ok_def seqs_logged upto_split_one)
    show "watermark meta' a \<le> md_TotalSeq meta'" for a
    proof -
      have "watermark meta a \<le> md_TotalSeq meta" using assms(1) by (simp add: log_ok_def)
      then show ?thesis by (simp add: w m(3))
    qed
  qed (use m in simp_all)
  with m w that show thesis by blast
qed

section \<open>Turns of several agents on one log\<close>

lemma turn_events_fresh:
  "\<forall>m \<in> set (EventsToMessages now origin events). m_Seq m = 0 \<and> m_Origin m = NormalizeOrigin origin"
proof -
  let ?o = "NormalizeOrigin origin"
  define ok where "ok m \<longleftrightarrow> m_Seq m = 0 \<and> m_Origin m = ?o" for m :: Message
  have tm [simp]: "ok (turn_message now ?o r s)" "ok (turn_message now ?o r s\<lparr>m_ToolCalls := t\<rparr>)" for r s t
    by (simp_all add: ok_def turn_message_def message_def)
  have fl: "list_all ok (fst st) \<Longrightarrow> list_all ok (fst (flushText now ?o st))" for st
    by (cases st) (simp add: flushText_def)
  have ev: "list_all ok (fst st) \<Longrightarrow> list_all ok (fst (ingest_event now ?o st e))" for st e
    using fl [of st] by (simp add: ingest_event_def)
  have "list_all ok (fst st) \<Longrightarrow> list_all ok (fst (foldl (ingest_event now ?o) st es))" for st es
  proof (induction es arbitrary: st)
    case (Cons e es) then show ?case using ev [OF Cons.prems, of e] by simp
  qed simp
  from fl [OF this [of "([], [])" events]] show ?thesis
    by (simp add: EventsToMessages_def Let_def list_all_iff ok_def)
qed

lemma Delta_append: "Delta (xs @ ys) a w = Delta xs a w @ Delta ys a w"
  by (simp add: Delta_def)

lemma Delta_seen: "\<forall>m \<in> set msgs. m_Seq m \<le> w \<Longrightarrow> Delta msgs a w = []"
  by (simp add: Delta_def)

lemma Delta_own: "\<forall>m \<in> set msgs. NormalizeOrigin (m_Origin m) = NormalizeOrigin a \<Longrightarrow> Delta msgs a w = []"
  by (simp add: Delta_def)

lemma Delta_new:
  "\<forall>m \<in> set msgs. w < m_Seq m \<and> NormalizeOrigin (m_Origin m) \<noteq> NormalizeOrigin a \<Longrightarrow> Delta msgs a w = msgs"
  unfolding Delta_def by (rule filter_True) (simp add: not_le)

lemma logged_range:
  assumes "m \<in> set (logged now n msgs)" shows "n < m_Seq m \<and> m_Seq m \<le> n + int (length msgs)"
proof -
  have "m_Seq m \<in> set (map m_Seq (logged now n msgs))" using assms by simp
  then show ?thesis by (simp only: seqs_logged) simp
qed

lemma bind_canon:
  assumes "log_ok c meta msgs" "good_io io" "through \<le> md_TotalSeq meta"
    and "UpdateBinding io now c agent native through = (c', err)"
  obtains meta' where "err = None" "log_ok c' meta' msgs" "md_TotalSeq meta' = md_TotalSeq meta"
    "watermark meta' = (watermark meta)(NormalizeOrigin agent := through)"
proof -
  let ?a = "NormalizeOrigin agent"
  define native' where "native' = (if native = []
    then (case map_of (md_AgentBindings meta) ?a of None \<Rightarrow> [] | Some b \<Rightarrow> ab_AgentSessionID b) else native)"
  let ?m = "meta\<lparr>md_AgentBindings := massign ?a \<lparr>ab_AgentSessionID = native', ab_IngestedThroughSeq = through\<rparr>
    (md_AgentBindings meta)\<rparr>"
  have c: "canon_ok c meta" using assms(1) by (simp add: log_ok_def)
  have "saveMetadata io now c ?m = (c', err)"
    using assms(4) canon_meta [OF c] by (simp add: UpdateBinding_def Let_def native'_def)
  from save_canon [OF c assms(2) _ this]
  have s: "err = None" "cn_hist c' = cn_hist c" "canon_ok c' (?m\<lparr>md_UpdatedAt := now\<rparr>)" by simp_all
  have w: "watermark (?m\<lparr>md_UpdatedAt := now\<rparr>) = (watermark meta)(?a := through)"
    by (simp add: watermark_def fun_eq_iff)
  have "log_ok c' (?m\<lparr>md_UpdatedAt := now\<rparr>) msgs"
    unfolding log_ok_def w
    using assms(1,3) s load_same_hist [OF c s(3,2)] by (simp add: log_ok_def)
  then show thesis by (rule that [OF s(1)]) (simp_all add: w)
qed

text \<open>What a turn adds to the log: its events as messages of the agent, numbered from the end of the log.\<close>

definition turn_log :: "go_time \<Rightarrow> SessionMetadata \<Rightarrow> string \<Rightarrow> StreamEvent list \<Rightarrow> Message list" where
  "turn_log now meta origin events = logged now (md_TotalSeq meta) (EventsToMessages now origin events)"

lemma turn_ingested:
  assumes "log_ok c meta old" "good_io io" "IngestTurn io now c origin native events = (c', err)"
  obtains meta' where "err = None" "log_ok c' meta' (old @ turn_log now meta origin events)"
    "md_TotalSeq meta' = md_TotalSeq meta + int (length (turn_log now meta origin events))"
    "watermark meta' = (watermark meta)(NormalizeOrigin origin := md_TotalSeq meta')"
proof -
  have d: "cn_Dir c \<noteq> []" using assms(1) by (simp add: log_ok_def canon_ok_def)
  let ?msgs = "EventsToMessages now origin events"
  obtain c1 e1 where i: "Init io now c [] origin = (c1, e1)" by (cases "Init io now c [] origin")
  from log_init [OF assms(1,2) i] obtain m1 where m1: "e1 = None" "log_ok c1 m1 old"
    "md_TotalSeq m1 = md_TotalSeq meta" "watermark m1 = watermark meta" .
  obtain c2 e2 where a: "Append io now c1 ?msgs = (c2, e2)" by (cases "Append io now c1 ?msgs")
  have "\<forall>m \<in> set ?msgs. m_Seq m = 0" using turn_events_fresh by blast
  from log_append [OF m1(2) assms(2) this a] obtain m2 where m2: "e2 = None"
    "log_ok c2 m2 (old @ turn_log now meta origin events)" "md_TotalSeq m2 = md_TotalSeq meta + int (length ?msgs)"
    "watermark m2 = watermark meta" using m1 by (auto simp: turn_log_def)
  have lm: "LoadMetadata c2 = Inr m2" using m2(2) by (simp add: log_ok_def canon_meta)
  have u: "UpdateBinding io now c2 origin (native_id native events) (md_TotalSeq m2) = (c', err)"
    using assms(3) d i a lm m1(1) m2(1) by (simp add: IngestTurn_def)
  from bind_canon [OF m2(2) assms(2) order_refl u] obtain meta' where m': "err = None"
    "log_ok c' meta' (old @ turn_log now meta origin events)" "md_TotalSeq meta' = md_TotalSeq m2"
    "watermark meta' = (watermark m2)(NormalizeOrigin origin := md_TotalSeq m2)" .
  have "length (turn_log now meta origin events) = length ?msgs" by (simp add: turn_log_def logged_def)
  with m' m2 that [of meta'] show thesis by simp
qed

lemma turn_owed:
  assumes "log_ok c meta old" "NormalizeOrigin b = b" "b \<noteq> NormalizeOrigin origin"
  shows "Delta (turn_log now meta origin events) b (watermark meta b) = turn_log now meta origin events"
proof (intro Delta_new ballI)
  fix m assume m: "m \<in> set (turn_log now meta origin events)"
  have "m_Origin m = NormalizeOrigin origin"
    using logged_origin [of "EventsToMessages now origin events" "NormalizeOrigin origin" m] turn_events_fresh m
    by (simp add: turn_log_def)
  moreover have "watermark meta b \<le> md_TotalSeq meta" using assms(1) by (simp add: log_ok_def)
  ultimately show "watermark meta b < m_Seq m \<and> NormalizeOrigin (m_Origin m) \<noteq> NormalizeOrigin b"
    using logged_range m assms(2,3) by (fastforce simp: turn_log_def)
qed

text \<open>
  C19. After a turn of an agent has been ingested, the log is the old log followed by the turn, the
  agent itself is owed nothing (its delta is empty), and every other agent is owed exactly what it
  was owed before followed by the whole turn, in order: no message of the shared log is lost to an
  agent and none is handed to it twice. (On a sound session with a file system that works.)
\<close>

theorem ingest_transfer:
  assumes "log_ok c meta old" "good_io io" "IngestTurn io now c origin native events = (c', err)"
  shows "err = None \<and> (\<exists>meta'. log_ok c' meta' (old @ turn_log now meta origin events) \<and>
    Delta (old @ turn_log now meta origin events) (NormalizeOrigin origin) (watermark meta' (NormalizeOrigin origin)) = [] \<and>
    (\<forall>b. NormalizeOrigin b = b \<and> b \<noteq> NormalizeOrigin origin \<longrightarrow>
       Delta (old @ turn_log now meta origin events) b (watermark meta' b)
         = Delta old b (watermark meta b) @ turn_log now meta origin events))"
proof -
  let ?new = "turn_log now meta origin events"
  from turn_ingested [OF assms] obtain meta' where m': "err = None" "log_ok c' meta' (old @ ?new)"
    "md_TotalSeq meta' = md_TotalSeq meta + int (length ?new)"
    "watermark meta' = (watermark meta)(NormalizeOrigin origin := md_TotalSeq meta')" .
  have own: "Delta (old @ ?new) (NormalizeOrigin origin) (watermark meta' (NormalizeOrigin origin)) = []"
    by (rule Delta_seen) (use log_ok_seq [OF m'(2)] m'(4) in auto)
  have "\<forall>b. NormalizeOrigin b = b \<and> b \<noteq> NormalizeOrigin origin \<longrightarrow>
       Delta (old @ ?new) b (watermark meta' b) = Delta old b (watermark meta b) @ ?new"
    using m'(4) turn_owed [OF assms(1)] by (simp add: Delta_append)
  with m' own show ?thesis by blast
qed

text \<open>The user's next message, addressed to an agent, is logged under that agent before the prompt is wrapped.\<close>

lemma message_logged:
  assumes "log_ok c meta old" "good_io io" "m_Seq msg = 0" "m_Origin msg = agent" "NormalizeOrigin agent = agent"
    and "AppendSessionMessage io now c msg = (c', err)"
  obtains meta' where "err = None" "log_ok c' meta' (old @ logged now (md_TotalSeq meta) [msg])"
    "md_TotalSeq meta' = md_TotalSeq meta + 1" "watermark meta' = watermark meta"
proof -
  have d: "cn_Dir c \<noteq> []" using assms(1) by (simp add: log_ok_def canon_ok_def)
  have "m_Origin msg \<noteq> []" using assms(4,5) by (auto simp: NormalizeOrigin_def)
  obtain c1 e1 where i: "Init io now c [] agent = (c1, e1)" by (cases "Init io now c [] agent")
  from log_init [OF assms(1,2) i] obtain m1 where m1: "e1 = None" "log_ok c1 m1 old"
    "md_TotalSeq m1 = md_TotalSeq meta" "watermark m1 = watermark meta" .
  have a: "Append io now c1 [msg] = (c', err)"
    using assms(4,6) d i m1(1) \<open>m_Origin msg \<noteq> []\<close> by (simp add: AppendSessionMessage_def)
  have "\<forall>m \<in> set [msg]. m_Seq m = 0" using assms(3) by simp
  from log_append [OF m1(2) assms(2) this a] m1 that show thesis by auto
qed

lemma Delta_message:
  "NormalizeOrigin (m_Origin msg) = NormalizeOrigin agent \<Longrightarrow> Delta (old @ logged now n [msg]) agent w = Delta old agent w"
  by (simp add: Delta_def logged_def numbered_def)

lemma wrap_owed:
  assumes "log_ok c meta msgs" "0 < md_TotalSeq meta"
  shows "\<exists>resume. wrapPromptWithSupplement c agent sid model server p turn llm =
    (let owed = Delta msgs agent (watermark meta agent)
     in if owed = [] then Inr \<lparr>wr_prompt = p, wr_resumeID = resume, wr_injected = False\<rparr>
        else bind_res (MergeStrategy server (md_Supplement meta) (case turn of None \<Rightarrow> no_supplement | Some s \<Rightarrow> s)) (\<lambda>strat.
             bind_res (BuildSupplement agent owed (default_model model (WithDefaults strat)) llm) (\<lambda>sup.
             Inr \<lparr>wr_prompt = WrapPrompt sup p, wr_resumeID = resume, wr_injected = True\<rparr>)))"
proof -
  have m: "LoadMetadata c = Inr meta" "cn_Dir c \<noteq> []" using assms(1) by (simp_all add: log_ok_def canon_meta) (simp add: canon_ok_def)
  have "msgs \<noteq> []" using assms by (auto simp: log_ok_def)
  obtain through own where b: "(case map_of (md_AgentBindings meta) agent of
      Some b \<Rightarrow> (ab_IngestedThroughSeq b, ab_AgentSessionID b) | None \<Rightarrow> (0, [])) = (through, own)"
    by (cases "case map_of (md_AgentBindings meta) agent of
      Some b \<Rightarrow> (ab_IngestedThroughSeq b, ab_AgentSessionID b) | None \<Rightarrow> (0, [])")
  then have w: "watermark meta agent = through" by (simp add: watermark_def split: option.splits)
  obtain r where r: "(if sid = [] then \<lparr>wr_prompt = p, wr_resumeID = sid, wr_injected = False\<rparr>\<lparr>wr_resumeID := own\<rparr>
      else \<lparr>wr_prompt = p, wr_resumeID = sid, wr_injected = False\<rparr>) = \<lparr>wr_prompt = p, wr_resumeID = r, wr_injected = False\<rparr>"
    by (cases "sid = []") simp_all
  have "\<not> md_TotalSeq meta \<le> 0" using assms(2) by simp
  then show ?thesis
    unfolding wrapPromptWithSupplement_def Let_def w
    by (intro exI [of _ r])
      (simp only: m b r [simplified wrapResult.update_convs] log_ok_load [OF assms] \<open>msgs \<noteq> []\<close> sum.case prod.case if_False simp_thms wrapResult.update_convs)
qed

text \<open>
  An agent that speaks twice in a row is not told its own words: after its turn is ingested and
  the next user message is logged for it, its prompt is the user's text unchanged, whatever the
  server, session and turn strategies are.
\<close>

theorem same_agent_unwrapped:
  assumes "log_ok c meta old" "good_io io" "IngestTurn io now c agent native events = (c1, e1)"
    and "NormalizeOrigin agent = agent" "m_Seq msg = 0" "m_Origin msg = agent"
    and "AppendSessionMessage io now' c1 msg = (c2, e2)"
  shows "\<exists>resume. wrapPromptWithSupplement c2 agent sid model server p turn llm
    = Inr \<lparr>wr_prompt = p, wr_resumeID = resume, wr_injected = False\<rparr>"
proof -
  let ?log = "old @ turn_log now meta agent events"
  from turn_ingested [OF assms(1-3)] obtain m1 where l: "log_ok c1 m1 ?log"
    and w: "watermark m1 = (watermark meta)(NormalizeOrigin agent := md_TotalSeq m1)" .
  from w have "watermark m1 agent = md_TotalSeq m1" by (simp only: assms(4) fun_upd_same)
  note m1 = l this
  from message_logged [OF m1(1) assms(2,5,6,4,7)] obtain m2 where
    m2: "log_ok c2 m2 (?log @ logged now' (md_TotalSeq m1) [msg])" "md_TotalSeq m2 = md_TotalSeq m1 + 1"
      "watermark m2 = watermark m1" .
  have pos: "0 < md_TotalSeq m2" using m2(2) log_ok_nonneg [OF m1(1)] by simp
  have "Delta ?log agent (md_TotalSeq m1) = []" by (rule Delta_seen) (use log_ok_seq [OF m1(1)] in auto)
  then have "Delta (?log @ logged now' (md_TotalSeq m1) [msg]) agent (watermark m2 agent) = []"
    using m1(2) m2(3) assms(6) by (subst Delta_message) simp_all
  with wrap_owed [OF m2(1) pos, of agent sid model server p turn llm] show ?thesis by (simp add: Let_def)
qed

lemma if_update:
  "(if P then s\<lparr>ss_Algorithm := a\<rparr> else s) = s\<lparr>ss_Algorithm := (if P then a else ss_Algorithm s)\<rparr>"
  "(if P then s\<lparr>ss_Model := a\<rparr> else s) = s\<lparr>ss_Model := (if P then a else ss_Model s)\<rparr>"
  "(if P then s\<lparr>ss_MaxChunkMessages := i\<rparr> else s) = s\<lparr>ss_MaxChunkMessages := (if P then i else ss_MaxChunkMessages s)\<rparr>"
  "(if P then s\<lparr>ss_ThresholdBytes := i\<rparr> else s) = s\<lparr>ss_ThresholdBytes := (if P then i else ss_ThresholdBytes s)\<rparr>"
  "(if P then s\<lparr>ss_RecentKeep := i\<rparr> else s) = s\<lparr>ss_RecentKeep := (if P then i else ss_RecentKeep s)\<rparr>"
  for s :: SupplementStrategy
  by (cases P; simp)+

lemma overlay_overlaySupplement: "overlay base over = overlaySupplement base over"
  unfolding overlay_def overlaySupplement_def Let_def if_update
  by (cases base) (simp only: SupplementStrategy.update_convs SupplementStrategy.select_convs)

lemma overlay_algorithm:
  "ss_Algorithm (overlay base over) = (if ss_Algorithm over \<noteq> [] then ss_Algorithm over else ss_Algorithm base)"
  by (simp add: overlay_def Let_def)

lemma algorithm_defaults [simp]:
  "ss_Algorithm (default_model model (WithDefaults s)) = (if ss_Algorithm s = [] then AlgorithmMapReduce else ss_Algorithm s)"
  by (simp add: default_model_def WithDefaults_def)

lemma build_full:
  "ss_Algorithm s = AlgorithmFull \<Longrightarrow>
   BuildSupplement agent msgs (default_model model (WithDefaults s)) llm = Inr (RenderSupplement agent msgs)"
  unfolding BuildSupplement_def Let_def by (simp add: WithDefaults_def [of "default_model model (WithDefaults s)"])

lemma merge_turn_full:
  "ss_Algorithm t = AlgorithmFull \<Longrightarrow> \<exists>s. MergeStrategy server sess t = Inr s \<and> ss_Algorithm s = AlgorithmFull"
  by (simp add: MergeStrategy_def Let_def KnownAlgorithm_def overlay_algorithm)


text \<open>
  Ingesting a turn loses and invents nothing: the contents of the messages, one after the other,
  are the text chunks and the tool results of the stream in their order, and the tool calls of the
  messages are the tool uses of the stream in their order, with their names and inputs.
\<close>

theorem EventsToMessages_content:
  "concat (map m_Content (EventsToMessages now origin events))
     = concat (map se_Content (filter (\<lambda>ev. se_Type ev \<in> {EventText, EventToolResult}) events)) \<and>
   concat (map m_ToolCalls (EventsToMessages now origin events))
     = map (\<lambda>ev. \<lparr>tc_ID = [], tc_Name = se_ToolName ev, tc_Input = se_ToolInput ev\<rparr>)
         (filter (\<lambda>ev. se_Type ev = EventToolUse) events)"
proof -
  let ?o = "NormalizeOrigin origin"
  let ?c = "\<lambda>st :: Message list \<times> string. concat (map m_Content (fst st)) @ snd st"
  let ?t = "\<lambda>st :: Message list \<times> string. concat (map m_ToolCalls (fst st))"
  let ?ev = "\<lambda>ev. if se_Type ev \<in> {EventText, EventToolResult} then se_Content ev else []"
  let ?tc = "\<lambda>ev. if se_Type ev = EventToolUse then [\<lparr>tc_ID = [], tc_Name = se_ToolName ev, tc_Input = se_ToolInput ev\<rparr>] else []"
  have tm: "m_Content (turn_message now ?o r s) = s" "m_ToolCalls (turn_message now ?o r s) = []" for r s
    by (simp_all add: turn_message_def message_def)
  have fl: "snd (flushText now ?o st) = [] \<and> ?c (flushText now ?o st) = ?c st \<and> ?t (flushText now ?o st) = ?t st" for st
    by (cases st) (simp add: flushText_def tm)
  have cont: "concat (map m_Content (fst (flushText now ?o st))) = ?c st" for st
    using fl [of st] by (metis append_Nil2)
  have ev: "?c (ingest_event now ?o st e) = ?c st @ ?ev e \<and> ?t (ingest_event now ?o st e) = ?t st @ ?tc e" for st e
    using fl [of st] by (simp add: ingest_event_def tm cont)
  have "?c (foldl (ingest_event now ?o) st es) = ?c st @ concat (map ?ev es) \<and>
        ?t (foldl (ingest_event now ?o) st es) = ?t st @ concat (map ?tc es)" for st es
  proof (induction es arbitrary: st)
    case (Cons e es)
    from Cons [of "ingest_event now ?o st e"] ev [of st e] show ?case by simp
  qed simp
  from this [of "([], [])" events] cont [of "foldl (ingest_event now ?o) ([], []) events"]
    fl [of "foldl (ingest_event now ?o) ([], []) events", THEN conjunct2, THEN conjunct2]
  have "concat (map m_Content (EventsToMessages now origin events)) = concat (map ?ev events)"
    "concat (map m_ToolCalls (EventsToMessages now origin events)) = concat (map ?tc events)"
    by (simp_all add: EventsToMessages_def Let_def)
  moreover have "concat (map ?ev es) = concat (map se_Content (filter (\<lambda>ev. se_Type ev \<in> {EventText, EventToolResult}) es))" for es :: "StreamEvent list"
    by (induction es) simp_all
  moreover have "concat (map ?tc es) = map (\<lambda>ev. \<lparr>tc_ID = [], tc_Name = se_ToolName ev, tc_Input = se_ToolInput ev\<rparr>)
         (filter (\<lambda>ev. se_Type ev = EventToolUse) es)" for es :: "StreamEvent list"
    by (induction es) simp_all
  ultimately show ?thesis by (simp only:)
qed

section \<open>When a prompt cannot be wrapped\<close>

text \<open>\<open>BuildSupplement\<close> fails in two cases only.\<close>

lemma BuildSupplement_error:
  "BuildSupplement agent msgs s llm = Inl e \<longleftrightarrow>
     (\<not> KnownAlgorithm (ss_Algorithm s) \<and> e = UnknownAlgorithm (ss_Algorithm s)) \<or>
     (ss_Algorithm s \<in> {[], AlgorithmMapReduce} \<and> llm = None \<and>
      ss_ThresholdBytes (WithDefaults s) < int (length (RenderSupplement agent msgs)) \<and> e = ErrMapReduceRequiresLLM)"
  by (cases llm; cases "ss_Algorithm s \<in> {[], AlgorithmMapReduce}")
    (auto simp: BuildSupplement_def Let_def WithDefaults_def KnownAlgorithm_def)

lemma MergeStrategy_ok:
  "KnownAlgorithm (ss_Algorithm server) \<Longrightarrow> KnownAlgorithm (ss_Algorithm sess) \<Longrightarrow> KnownAlgorithm (ss_Algorithm turn) \<Longrightarrow>
   \<exists>s. MergeStrategy server sess turn = Inr s \<and> KnownAlgorithm (ss_Algorithm s)"
  by (simp add: MergeStrategy_def Let_def overlay_algorithm)

lemma WrapPrompt_suffix: "\<exists>pre. WrapPrompt s p = pre @ p"
proof (cases "TrimSpace s = []")
  case False
  then have "WrapPrompt s p = (TransferHeader @ [CHR 0x0A, CHR 0x0A] @ TransferNotice @ [CHR 0x0A, CHR 0x0A] @ s @
    [CHR 0x0A, CHR 0x0A] @ TransferFooter @ [CHR 0x0A, CHR 0x0A]) @ p" by (simp add: WrapPrompt_def)
  then show ?thesis by blast
qed (simp add: WrapPrompt_def)

text \<open>
  With known algorithms at the server, the session and the turn, and a summarizer, wrapping never
  refuses a prompt, and the prompt it returns ends with the user's text, whatever state the session
  directory is in (missing, unreadable, empty or with owed messages).
\<close>

theorem wrap_total:
  assumes "KnownAlgorithm (ss_Algorithm server)" "turn \<noteq> None \<Longrightarrow> KnownAlgorithm (ss_Algorithm (the turn))" "llm \<noteq> None"
    and "\<forall>meta. LoadMetadata c = Inr meta \<longrightarrow> KnownAlgorithm (ss_Algorithm (md_Supplement meta))"
  shows "\<exists>r pre. wrapPromptWithSupplement c agent sid model server p turn llm = Inr r \<and> wr_prompt r = pre @ p"
proof -
  let ?t = "case turn of None \<Rightarrow> no_supplement | Some s \<Rightarrow> s"
  have t: "KnownAlgorithm (ss_Algorithm ?t)" using assms(2)
    by (cases turn) (simp_all add: no_supplement_def KnownAlgorithm_def)
  have ok: "\<exists>x. bind_res (MergeStrategy server sess ?t) (\<lambda>strat.
      bind_res (BuildSupplement agent d (default_model model (WithDefaults strat)) llm) f) = f x"
    if sess: "KnownAlgorithm (ss_Algorithm sess)" for sess d and f :: "string \<Rightarrow> (supplement_error, wrapResult) result"
  proof -
    obtain s where s: "MergeStrategy server sess ?t = Inr s" "KnownAlgorithm (ss_Algorithm s)"
      using MergeStrategy_ok [OF assms(1) sess t] by blast
    have "\<nexists>e. BuildSupplement agent d (default_model model (WithDefaults s)) llm = Inl e"
      using s(2) assms(3) by (auto simp: BuildSupplement_error KnownAlgorithm_def)
    then obtain x where "BuildSupplement agent d (default_model model (WithDefaults s)) llm = Inr x"
      by (cases "BuildSupplement agent d (default_model model (WithDefaults s)) llm") auto
    with s show ?thesis by auto
  qed
  consider (none) "cn_Dir c = []" | (unread) e where "LoadMetadata c = Inl e" "cn_Dir c \<noteq> []"
    | (meta) meta where "LoadMetadata c = Inr meta" "cn_Dir c \<noteq> []"
    by (cases "LoadMetadata c") auto
  then show ?thesis
  proof cases
    case meta
    have k: "KnownAlgorithm (ss_Algorithm (md_Supplement meta))" using assms(4) meta(1) by blast
    obtain through own where b: "(case map_of (md_AgentBindings meta) agent of
        Some b \<Rightarrow> (ab_IngestedThroughSeq b, ab_AgentSessionID b) | None \<Rightarrow> (0, [])) = (through, own)"
      by (cases "case map_of (md_AgentBindings meta) agent of
        Some b \<Rightarrow> (ab_IngestedThroughSeq b, ab_AgentSessionID b) | None \<Rightarrow> (0, [])")
    define r where "r = (if sid = [] then \<lparr>wr_prompt = p, wr_resumeID = sid, wr_injected = False\<rparr>\<lparr>wr_resumeID := own\<rparr>
        else \<lparr>wr_prompt = p, wr_resumeID = sid, wr_injected = False\<rparr>)"
    then have r: "wr_prompt r = [] @ p" by simp
    have eq: "wrapPromptWithSupplement c agent sid model server p turn llm =
      (if md_TotalSeq meta \<le> 0 then Inr r
       else case LoadRange c 1 (md_TotalSeq meta) of
          Inl _ \<Rightarrow> Inr r
        | Inr msgs \<Rightarrow>
            (if msgs = [] \<or> Delta msgs agent through = [] then Inr r
             else bind_res (MergeStrategy server (md_Supplement meta) ?t) (\<lambda>strat.
               bind_res (BuildSupplement agent (Delta msgs agent through) (default_model model (WithDefaults strat)) llm) (\<lambda>s.
               Inr (r\<lparr>wr_prompt := WrapPrompt s p, wr_injected := True\<rparr>)))))"
      unfolding wrapPromptWithSupplement_def Let_def r_def
      by (simp only: meta b sum.case prod.case if_False simp_thms)
    show ?thesis
    proof (cases "LoadRange c 1 (md_TotalSeq meta)")
      case (Inr msgs)
      let ?f = "\<lambda>s. Inr (r\<lparr>wr_prompt := WrapPrompt s p, wr_injected := True\<rparr>)"
      obtain x where x: "bind_res (MergeStrategy server (md_Supplement meta) ?t) (\<lambda>strat.
          bind_res (BuildSupplement agent (Delta msgs agent through) (default_model model (WithDefaults strat)) llm) ?f) = ?f x"
        using ok [OF k] by blast
      obtain pre where "wr_prompt (r\<lparr>wr_prompt := WrapPrompt x p, wr_injected := True\<rparr>) = pre @ p"
        using WrapPrompt_suffix [of x p] by auto
      moreover have "wrapPromptWithSupplement c agent sid model server p turn llm \<in>
          {Inr r, Inr (r\<lparr>wr_prompt := WrapPrompt x p, wr_injected := True\<rparr>)}"
        unfolding eq Inr sum.case x by (simp only: insert_iff split: if_split) blast
      ultimately show ?thesis using r by blast
    next
      case (Inl e)
      have "wrapPromptWithSupplement c agent sid model server p turn llm = Inr r"
        unfolding eq Inl sum.case if_cancel ..
      with r show ?thesis by blast
    qed
  qed (auto simp: wrapPromptWithSupplement_def)
qed

text \<open>The size limit is checked before wrapping only: what is sent exceeds the limit by the transferred history.\<close>

lemma wrapped_prompt_longer:
  "TrimSpace s \<noteq> [] \<Longrightarrow> length p + length s + 190 \<le> length (WrapPrompt s p)"
  by (simp add: WrapPrompt_def TransferHeader_def TransferNotice_def TransferFooter_def)

section \<open>Witnesses\<close>

lemma sample_log_ok: "log_ok sample_session (fresh_metadata ''s'' ''codex'' 0) []"
  using canon_log [OF sample_session_ok] sample_session_ok
  by (simp add: log_ok_def watermark_def fresh_metadata_def)

lemma sample_io_good: "good_io sample_io" by (simp add: good_io_def sample_io_def)

definition sample_turn :: "StreamEvent list" where
  "sample_turn = [(stream_event EventText)\<lparr>se_Content := ''hi''\<rparr>, stream_event EventResult]"

definition after_turn :: canonical where
  "after_turn = fst (IngestTurn sample_io 7 sample_session ''codex'' ''n1'' sample_turn)"

theorem ingest_transfer_witness:
  "\<exists>meta'. LoadMetadata after_turn = Inr meta' \<and>
     Delta (turn_log 7 (fresh_metadata ''s'' ''codex'' 0) ''codex'' sample_turn) ''claudecode'' (watermark meta' ''claudecode'')
       = turn_log 7 (fresh_metadata ''s'' ''codex'' 0) ''codex'' sample_turn"
proof -
  from ingest_transfer [OF sample_log_ok sample_io_good prod.collapse [symmetric], of 7 "''codex''" "''n1''" sample_turn]
  obtain meta' where m: "log_ok after_turn meta' (turn_log 7 (fresh_metadata ''s'' ''codex'' 0) ''codex'' sample_turn)"
    "\<forall>b. NormalizeOrigin b = b \<and> b \<noteq> NormalizeOrigin ''codex'' \<longrightarrow>
       Delta ([] @ turn_log 7 (fresh_metadata ''s'' ''codex'' 0) ''codex'' sample_turn) b (watermark meta' b)
         = Delta [] b (watermark (fresh_metadata ''s'' ''codex'' 0) b) @ turn_log 7 (fresh_metadata ''s'' ''codex'' 0) ''codex'' sample_turn"
    by (auto simp: after_turn_def)
  have "NormalizeOrigin ''claudecode'' = ''claudecode'' \<and> ''claudecode'' \<noteq> NormalizeOrigin ''codex''"
    by (simp add: NormalizeOrigin_def)
  with m(2) have "Delta ([] @ turn_log 7 (fresh_metadata ''s'' ''codex'' 0) ''codex'' sample_turn) ''claudecode'' (watermark meta' ''claudecode'')
         = Delta [] ''claudecode'' (watermark (fresh_metadata ''s'' ''codex'' 0) ''claudecode'') @ turn_log 7 (fresh_metadata ''s'' ''codex'' 0) ''codex'' sample_turn"
    by blast
  with m(1) show ?thesis by (auto simp: log_ok_def canon_meta Delta_def)
qed

theorem same_agent_unwrapped_witness:
  "\<exists>resume. wrapPromptWithSupplement
     (fst (AppendSessionMessage sample_io 8 after_turn ((message ''user'' ''go on'')\<lparr>m_Origin := ''codex''\<rparr>)))
     ''codex'' [] ''m'' no_supplement ''go on'' None None = Inr \<lparr>wr_prompt = ''go on'', wr_resumeID = resume, wr_injected = False\<rparr>"
  unfolding after_turn_def
  by (rule same_agent_unwrapped [OF sample_log_ok sample_io_good prod.collapse [symmetric] _ _ _ prod.collapse [symmetric]])
    (simp_all add: NormalizeOrigin_def message_def)


theorem wrap_total_witness:
  "\<exists>r pre. wrapPromptWithSupplement sample_session ''codex'' [] ''m'' no_supplement ''hi'' None
     (Some \<lparr>su_Summarize = \<lambda>_ _. Inr [], su_Merge = \<lambda>_ _ _. Inr []\<rparr>) = Inr r \<and> wr_prompt r = pre @ ''hi''"
  by (rule wrap_total) (simp_all add: KnownAlgorithm_def no_supplement_def sample_session_def LoadMetadata_def fresh_metadata_def)

end
