(* ===== verification/Vault_Store.thy ===== *)
theory Vault_Store
  imports App_Config "HOL-Library.List_Lexorder" "HOL-Library.Char_ord"
begin

text \<open>
  Secrets (\<open>vault/\<close>), the chain the server builds from its configuration (\<open>resolveVault\<close> of
  \<open>src/server/server.go\<close>), and the service and command line over it (\<open>src/vault\<close>). The interface
  \<open>VaultStore\<close> is a record of operations and its contract a locale, interpreted for the environment,
  the keyring and the file backend; the service is the client of the contract. AES-GCM, SHA-256 and
  the keyring of the operating system are parameters. A text produced by \<open>json.Marshal\<close> is represented by
  the value it decodes to, in which invalid UTF-8 has been replaced.
\<close>

section \<open>References\<close>

definition vaultPrefix :: string where "vaultPrefix = ''vault://''"

definition IsVaultRef :: "string \<Rightarrow> bool" where
  "IsVaultRef value = HasPrefix value vaultPrefix"

definition ParseVaultRef :: "string \<Rightarrow> string option" where
  "ParseVaultRef value = (if \<not> IsVaultRef value then None else Some (TrimPrefix value vaultPrefix))"

section \<open>The interface\<close>

datatype kr_error = KrNotFound | KrFailed string

datatype vault_error =
    NotVaultRef string
  | EnvNotSet string string
  | SetenvFailed string
  | SecretNotFound string
  | FileNotSaved
  | KeyringGet string kr_error
  | KeyringUnmarshal string
  | KeyringSet string kr_error
  | KeyringIndex kr_error
  | IndexMalformed
  | AllFailed string "(string \<times> vault_error) list"
  | NoBackends

text \<open>\<open>'i\<close> is what the environment of one operation decides: randomness and disk faults.\<close>

record ('i, 's) VaultStore =
  vs_Resolve :: "'s \<Rightarrow> string \<Rightarrow> (vault_error, string) result"
  vs_Set :: "'i \<Rightarrow> 's \<Rightarrow> string \<Rightarrow> string \<Rightarrow> 's \<times> vault_error option"
  vs_Delete :: "'i \<Rightarrow> 's \<Rightarrow> string \<Rightarrow> 's \<times> vault_error option"
  vs_List :: "'s \<Rightarrow> (vault_error, string list) result"

text \<open>
  Everything the three backends act on: the environment of the process, the keyring of the operating
  system, the file backend object and the file on the disk. A file holds what \<open>encrypt\<close> made of a
  plaintext with a nonce, or is too short for a nonce.
\<close>

datatype 'c vault_file = EmptyFile | ShortFile | Sealed string 'c

datatype plaintext = SecretMap "(string \<times> string) list" | NotSecrets

record file_backend =
  fb_key :: string
  fb_secrets :: "(string \<times> string) list"

record ('k, 'c) vault_world =
  vw_env :: "(string \<times> string) list"
  vw_ring :: 'k
  vw_fb :: file_backend
  vw_disk :: "'c vault_file option"

section \<open>Environment variables\<close>

definition envPrefix :: string where "envPrefix = ''TERN_VAULT_''"

definition ReplaceByte :: "char \<Rightarrow> char \<Rightarrow> string \<Rightarrow> string" where
  "ReplaceByte a b = map (\<lambda>c. if c = a then b else c)"

definition pathToEnvName :: "string \<Rightarrow> string" where
  "pathToEnvName path =
     (let path = TrimPrefix path ''providers/'';
          name = ReplaceByte (CHR ''/'') (CHR ''_'') path;
          name = ReplaceByte (CHR ''-'') (CHR ''_'') name
      in envPrefix @ ToUpper name)"

definition envNameToPath :: "string \<Rightarrow> string" where
  "envNameToPath envName = ToLower (TrimPrefix envName envPrefix)"

text \<open>\<open>os.Setenv\<close> refuses an empty name, a name with \<open>=\<close> or NUL and a value with NUL.\<close>

definition setenv_ok :: "string \<Rightarrow> string \<Rightarrow> bool" where
  "setenv_ok name value \<longleftrightarrow> name \<noteq> [] \<and> CHR ''='' \<notin> set name \<and> CHR 0x00 \<notin> set name \<and> CHR 0x00 \<notin> set value"

definition Env_Resolve :: "('k, 'c) vault_world \<Rightarrow> string \<Rightarrow> (vault_error, string) result" where
  "Env_Resolve w ref =
     (case ParseVaultRef ref of
        None \<Rightarrow> Inl (NotVaultRef ref)
      | Some path \<Rightarrow>
          (let envName = pathToEnvName path;
               val = (case map_of (vw_env w) envName of Some v \<Rightarrow> v | None \<Rightarrow> [])
           in if val = [] then Inl (EnvNotSet envName ref) else Inr val))"

definition Env_Set :: "'i \<Rightarrow> ('k, 'c) vault_world \<Rightarrow> string \<Rightarrow> string \<Rightarrow> ('k, 'c) vault_world \<times> vault_error option" where
  "Env_Set io w path value =
     (if setenv_ok (pathToEnvName path) value
      then (w\<lparr>vw_env := massign (pathToEnvName path) value (vw_env w)\<rparr>, None)
      else (w, Some (SetenvFailed (pathToEnvName path))))"

definition Env_Delete :: "'i \<Rightarrow> ('k, 'c) vault_world \<Rightarrow> string \<Rightarrow> ('k, 'c) vault_world \<times> vault_error option" where
  "Env_Delete io w path = (w\<lparr>vw_env := mdelete (pathToEnvName path) (vw_env w)\<rparr>, None)"

definition Env_List :: "('k, 'c) vault_world \<Rightarrow> (vault_error, string list) result" where
  "Env_List w = Inr (map (envNameToPath \<circ> fst) (filter (\<lambda>e. HasPrefix (fst e) envPrefix) (vw_env w)))"

definition EnvVaultBackend :: "('i, ('k, 'c) vault_world) VaultStore" where
  "EnvVaultBackend = \<lparr>vs_Resolve = Env_Resolve, vs_Set = Env_Set, vs_Delete = Env_Delete, vs_List = Env_List\<rparr>"

section \<open>The encrypted file\<close>

text \<open>
  \<open>aead\<close> is AES-GCM with SHA-256 for the key. One save is decided by the nonce that the random source
  gives (or fails to) and by the disk: \<open>os.WriteFile\<close> truncates the file before it writes, so a fault
  leaves some other content.
\<close>

record 'c aead =
  ae_sha :: "string \<Rightarrow> string"
  ae_seal :: "string \<Rightarrow> string \<Rightarrow> plaintext \<Rightarrow> 'c"
  ae_open :: "string \<Rightarrow> string \<Rightarrow> 'c \<Rightarrow> plaintext option"

record 'c disk_io =
  di_nonce :: "string option"
  di_fault :: "'c vault_file option option"

text \<open>\<open>json.Marshal\<close> and \<open>json.Unmarshal\<close> of the map: keys in order, valid text, the last of equal keys wins.\<close>

definition through_json :: "(string \<times> string) list \<Rightarrow> (string \<times> string) list" where
  "through_json m = foldl (\<lambda>acc (k, v). massign (valid_text k) (valid_text v) acc) [] (sort_key fst m)"

definition file_encrypt :: "'c aead \<Rightarrow> 'c disk_io \<Rightarrow> plaintext \<Rightarrow> string \<Rightarrow> 'c vault_file option" where
  "file_encrypt ae io plain key = map_option (\<lambda>nonce. Sealed nonce (ae_seal ae key nonce plain)) (di_nonce io)"

definition file_decrypt :: "'c aead \<Rightarrow> 'c vault_file \<Rightarrow> string \<Rightarrow> plaintext option" where
  "file_decrypt ae ciphertext key =
     (case ciphertext of Sealed nonce c \<Rightarrow> ae_open ae key nonce c | _ \<Rightarrow> None)"

definition file_load :: "'c aead \<Rightarrow> 'c vault_file \<Rightarrow> file_backend \<Rightarrow> file_backend option" where
  "file_load ae content b =
     (if content = EmptyFile then Some (b\<lparr>fb_secrets := []\<rparr>)
      else case file_decrypt ae content (fb_key b) of
        Some (SecretMap m) \<Rightarrow> Some (b\<lparr>fb_secrets := m\<rparr>)
      | _ \<Rightarrow> None)"

definition file_save :: "'c aead \<Rightarrow> 'c disk_io \<Rightarrow> ('k, 'c) vault_world \<Rightarrow> ('k, 'c) vault_world \<times> vault_error option" where
  "file_save ae io w =
     (case file_encrypt ae io (SecretMap (through_json (fb_secrets (vw_fb w)))) (fb_key (vw_fb w)) of
        None \<Rightarrow> (w, Some FileNotSaved)
      | Some content \<Rightarrow>
          (case di_fault io of
             None \<Rightarrow> (w\<lparr>vw_disk := Some content\<rparr>, None)
           | Some left \<Rightarrow> (w\<lparr>vw_disk := left\<rparr>, Some FileNotSaved)))"

text \<open>\<open>TERN_VAULT_KEY\<close> must be set; an existing file is loaded.\<close>

definition NewFileVaultBackend :: "'c aead \<Rightarrow> string \<Rightarrow> 'c vault_file option \<Rightarrow> file_backend option" where
  "NewFileVaultBackend ae rawKey disk =
     (if rawKey = [] then None
      else let b = \<lparr>fb_key = ae_sha ae rawKey, fb_secrets = []\<rparr>
           in case disk of None \<Rightarrow> Some b | Some content \<Rightarrow> file_load ae content b)"

definition File_Resolve :: "('k, 'c) vault_world \<Rightarrow> string \<Rightarrow> (vault_error, string) result" where
  "File_Resolve w ref =
     (if \<not> HasPrefix ref ''vault://'' then Inl (NotVaultRef ref)
      else let path = TrimPrefix ref ''vault://''
           in case map_of (fb_secrets (vw_fb w)) path of None \<Rightarrow> Inl (SecretNotFound path) | Some val \<Rightarrow> Inr val)"

definition set_secrets :: "(string \<times> string) list \<Rightarrow> ('k, 'c) vault_world \<Rightarrow> ('k, 'c) vault_world" where
  "set_secrets m w = w\<lparr>vw_fb := (vw_fb w)\<lparr>fb_secrets := m\<rparr>\<rparr>"

definition File_Set ::
  "'c aead \<Rightarrow> 'c disk_io \<Rightarrow> ('k, 'c) vault_world \<Rightarrow> string \<Rightarrow> string \<Rightarrow> ('k, 'c) vault_world \<times> vault_error option" where
  "File_Set ae io w path value = file_save ae io (set_secrets (massign path value (fb_secrets (vw_fb w))) w)"

definition File_Delete ::
  "'c aead \<Rightarrow> 'c disk_io \<Rightarrow> ('k, 'c) vault_world \<Rightarrow> string \<Rightarrow> ('k, 'c) vault_world \<times> vault_error option" where
  "File_Delete ae io w path =
     (if path \<notin> mkeys (fb_secrets (vw_fb w)) then (w, Some (SecretNotFound path))
      else file_save ae io (set_secrets (mdelete path (fb_secrets (vw_fb w))) w))"

definition File_List :: "('k, 'c) vault_world \<Rightarrow> (vault_error, string list) result" where
  "File_List w = Inr (map fst (fb_secrets (vw_fb w)))"

definition FileVaultBackend :: "'c aead \<Rightarrow> ('c disk_io, ('k, 'c) vault_world) VaultStore" where
  "FileVaultBackend ae = \<lparr>vs_Resolve = File_Resolve, vs_Set = File_Set ae, vs_Delete = File_Delete ae, vs_List = File_List\<rparr>"

section \<open>The keyring\<close>

text \<open>The secrets the code stores: a node for each key, and the index of the keys under \<open>_vault_keys\<close>.\<close>

datatype kr_secret = StoredNode string string | KeyIndex "string list" | OtherText

text \<open>The keyring library: per service and user.\<close>

record 'k keyring =
  kr_Get :: "'k \<Rightarrow> string \<Rightarrow> string \<Rightarrow> (kr_error, kr_secret) result"
  kr_Set :: "'k \<Rightarrow> string \<Rightarrow> string \<Rightarrow> kr_secret \<Rightarrow> 'k \<times> kr_error option"
  kr_Delete :: "'k \<Rightarrow> string \<Rightarrow> string \<Rightarrow> 'k \<times> kr_error option"

definition vaultMetaKey :: string where "vaultMetaKey = ''_vault_keys''"

definition base62Chars :: string where
  "base62Chars = ''0123456789abcdefghijklmnopqrstuvwxyzABCDEFGHIJKLMNOPQRSTUVWXYZ''"

definition toBase62 :: "string \<Rightarrow> string" where
  "toBase62 data = map (\<lambda>d. base62Chars ! d) (digits_base 62 (digits_value 256 (map byte data)))"

definition buildKeyringServiceName :: "(string \<Rightarrow> string) \<Rightarrow> string list \<Rightarrow> string" where
  "buildKeyringServiceName sha tenantID =
     (let tID = (case tenantID of t # _ \<Rightarrow> if t \<noteq> [] then t else ''default'' | [] \<Rightarrow> ''default'')
      in ''tern-vault-'' @ toBase62 (sha (ToLower tID)))"

definition Keyring_Resolve ::
  "'k keyring \<Rightarrow> string \<Rightarrow> ('k, 'c) vault_world \<Rightarrow> string \<Rightarrow> (vault_error, string) result" where
  "Keyring_Resolve K service w ref =
     (case ParseVaultRef ref of
        None \<Rightarrow> Inl (NotVaultRef ref)
      | Some path \<Rightarrow>
          (case kr_Get K (vw_ring w) service path of
             Inl e \<Rightarrow> Inl (KeyringGet path e)
           | Inr (StoredNode _ value) \<Rightarrow> Inr value
           | Inr _ \<Rightarrow> Inl (KeyringUnmarshal path)))"

definition loadKeyIndex :: "'k keyring \<Rightarrow> string \<Rightarrow> ('k, 'c) vault_world \<Rightarrow> (kr_error option, string list) result" where
  "loadKeyIndex K service w =
     (case kr_Get K (vw_ring w) service vaultMetaKey of
        Inl e \<Rightarrow> Inl (Some e)
      | Inr (KeyIndex keys) \<Rightarrow> Inr keys
      | Inr _ \<Rightarrow> Inl None)"

definition saveKeyIndex ::
  "'k keyring \<Rightarrow> string \<Rightarrow> ('k, 'c) vault_world \<Rightarrow> string list \<Rightarrow> ('k, 'c) vault_world \<times> vault_error option" where
  "saveKeyIndex K service w keys =
     (let (r, e) = kr_Set K (vw_ring w) service vaultMetaKey (KeyIndex (map valid_text keys))
      in (w\<lparr>vw_ring := r\<rparr>, map_option KeyringIndex e))"

text \<open>\<open>keys, _ := k.loadKeyIndex()\<close>: a failed read is an empty list.\<close>

definition known_keys :: "'k keyring \<Rightarrow> string \<Rightarrow> ('k, 'c) vault_world \<Rightarrow> string list" where
  "known_keys K service w = (case loadKeyIndex K service w of Inr keys \<Rightarrow> keys | Inl _ \<Rightarrow> [])"

definition addToKeyIndex ::
  "'k keyring \<Rightarrow> string \<Rightarrow> ('k, 'c) vault_world \<Rightarrow> string \<Rightarrow> ('k, 'c) vault_world \<times> vault_error option" where
  "addToKeyIndex K service w key =
     (let keys = known_keys K service w
      in if key \<in> set keys then (w, None) else saveKeyIndex K service w (keys @ [key]))"

definition Keyring_Set ::
  "'k keyring \<Rightarrow> string \<Rightarrow> 'i \<Rightarrow> ('k, 'c) vault_world \<Rightarrow> string \<Rightarrow> string \<Rightarrow> ('k, 'c) vault_world \<times> vault_error option" where
  "Keyring_Set K service io w path value =
     (case kr_Set K (vw_ring w) service path (StoredNode (valid_text path) (valid_text value)) of
        (r, Some e) \<Rightarrow> (w\<lparr>vw_ring := r\<rparr>, Some (KeyringSet path e))
      | (r, None) \<Rightarrow> addToKeyIndex K service (w\<lparr>vw_ring := r\<rparr>) path)"

definition Keyring_Delete ::
  "'k keyring \<Rightarrow> string \<Rightarrow> 'i \<Rightarrow> ('k, 'c) vault_world \<Rightarrow> string \<Rightarrow> ('k, 'c) vault_world \<times> vault_error option" where
  "Keyring_Delete K service io w path =
     (let w = w\<lparr>vw_ring := fst (kr_Delete K (vw_ring w) service path)\<rparr>
      in saveKeyIndex K service w (filter (\<lambda>key. key \<noteq> path) (known_keys K service w)))"

definition Keyring_List :: "'k keyring \<Rightarrow> string \<Rightarrow> ('k, 'c) vault_world \<Rightarrow> (vault_error, string list) result" where
  "Keyring_List K service w =
     (case loadKeyIndex K service w of
        Inr keys \<Rightarrow> Inr keys
      | Inl (Some KrNotFound) \<Rightarrow> Inr []
      | Inl (Some e) \<Rightarrow> Inl (KeyringIndex e)
      | Inl None \<Rightarrow> Inl IndexMalformed)"

definition KeyringVaultBackend :: "'k keyring \<Rightarrow> string \<Rightarrow> ('i, ('k, 'c) vault_world) VaultStore" where
  "KeyringVaultBackend K service = \<lparr>vs_Resolve = Keyring_Resolve K service, vs_Set = Keyring_Set K service,
     vs_Delete = Keyring_Delete K service, vs_List = Keyring_List K service\<rparr>"

section \<open>The chain\<close>

type_synonym ('i, 's) ChainVaultBackend = "(string \<times> ('i, 's) VaultStore) list"

fun resolve_first ::
  "('i, 's) ChainVaultBackend \<Rightarrow> 's \<Rightarrow> string \<Rightarrow> ((string \<times> vault_error) list, string) result" where
  "resolve_first [] w ref = Inl []"
| "resolve_first ((name, store) # bs) w ref =
     (case vs_Resolve store w ref of
        Inr val \<Rightarrow> Inr val
      | Inl e \<Rightarrow> (case resolve_first bs w ref of Inr val \<Rightarrow> Inr val | Inl es \<Rightarrow> Inl ((name, e) # es)))"

definition Chain_Resolve :: "('i, 's) ChainVaultBackend \<Rightarrow> 's \<Rightarrow> string \<Rightarrow> (vault_error, string) result" where
  "Chain_Resolve backends w ref =
     (case resolve_first backends w ref of Inr val \<Rightarrow> Inr val | Inl errs \<Rightarrow> Inl (AllFailed ref errs))"

definition Chain_Set :: "('i, 's) ChainVaultBackend \<Rightarrow> 'i \<Rightarrow> 's \<Rightarrow> string \<Rightarrow> string \<Rightarrow> 's \<times> vault_error option" where
  "Chain_Set backends io w path value =
     (case backends of [] \<Rightarrow> (w, Some NoBackends) | (_, store) # _ \<Rightarrow> vs_Set store io w path value)"

definition Chain_Delete :: "('i, 's) ChainVaultBackend \<Rightarrow> 'i \<Rightarrow> 's \<Rightarrow> string \<Rightarrow> 's \<times> vault_error option" where
  "Chain_Delete backends io w path =
     (case backends of [] \<Rightarrow> (w, Some NoBackends) | (_, store) # _ \<Rightarrow> vs_Delete store io w path)"

definition Chain_List :: "('i, 's) ChainVaultBackend \<Rightarrow> 's \<Rightarrow> (vault_error, string list) result" where
  "Chain_List backends w = (case backends of [] \<Rightarrow> Inl NoBackends | (_, store) # _ \<Rightarrow> vs_List store w)"

definition NewChainVaultBackend :: "('i, 's) ChainVaultBackend \<Rightarrow> ('i, 's) VaultStore" where
  "NewChainVaultBackend backends = \<lparr>vs_Resolve = Chain_Resolve backends, vs_Set = Chain_Set backends,
     vs_Delete = Chain_Delete backends, vs_List = Chain_List backends\<rparr>"

text \<open>
  The store of the server. \<open>given\<close> is the store of the option \<open>WithVaultStore\<close>, \<open>openFile\<close> whether the file
  backend could be created; the file backend is the one of the world.
\<close>

datatype vault_config_error = DeprecatedBackend | BackendsRequired | UnsupportedBackend string | FilePathRequired | FileBackendFailed

fun vault_stores ::
  "'k keyring \<Rightarrow> string \<Rightarrow> 'c aead \<Rightarrow> string \<Rightarrow> bool \<Rightarrow> string list
   \<Rightarrow> (vault_config_error, ('c disk_io, ('k, 'c) vault_world) ChainVaultBackend) result" where
  "vault_stores K service ae filePath openFile [] = Inr []"
| "vault_stores K service ae filePath openFile (name # names) =
     bind_res
       (if name = ''env'' then Inr EnvVaultBackend
        else if name = ''keyring'' then Inr (KeyringVaultBackend K service)
        else if name = ''file'' then
          (if filePath = [] then Inl FilePathRequired
           else if \<not> openFile then Inl FileBackendFailed else Inr (FileVaultBackend ae))
        else Inl (UnsupportedBackend name))
       (\<lambda>store. bind_res (vault_stores K service ae filePath openFile names) (\<lambda>stores. Inr ((name, store) # stores)))"

definition resolveVault ::
  "'k keyring \<Rightarrow> string \<Rightarrow> 'c aead \<Rightarrow> ('c disk_io, ('k, 'c) vault_world) VaultStore option \<Rightarrow> VaultConfig \<Rightarrow> bool
   \<Rightarrow> (vault_config_error, ('c disk_io, ('k, 'c) vault_world) VaultStore) result" where
  "resolveVault K service ae given cfg openFile =
     (case given of
        Some store \<Rightarrow> Inr store
      | None \<Rightarrow>
          if vc_Backend cfg \<noteq> [] then Inl DeprecatedBackend
          else if vc_Backends cfg = [] then Inl BackendsRequired
          else bind_res (vault_stores K service ae (vc_FilePath cfg) openFile (vc_Backends cfg)) (\<lambda>stores.
            Inr (case stores of [(_, store)] \<Rightarrow> store | _ \<Rightarrow> NewChainVaultBackend stores)))"

section \<open>The service and the command line\<close>

datatype service_error = ErrStoreRequired | ErrKeyRequired | ErrValueRequired | NotRegistered string
  | SetFailed vault_error | DeleteFailed vault_error | ListFailed vault_error

record GetResult =
  gr_FullKey :: string
  gr_Registered :: bool
  gr_Value :: string

record ProviderState =
  ps_Provider :: string
  ps_Registered :: bool

definition ResolveKey :: "string \<Rightarrow> string \<Rightarrow> (service_error, string) result" where
  "ResolveKey provider key =
     (if provider \<noteq> [] then Inr (''providers/'' @ provider @ ''/default'')
      else if key \<noteq> [] then Inr key else Inl ErrKeyRequired)"

text \<open>A service without store is \<open>None\<close>.\<close>

definition Service_Set ::
  "('i, 's) VaultStore option \<Rightarrow> 'i \<Rightarrow> 's \<Rightarrow> string \<Rightarrow> string \<Rightarrow> string \<Rightarrow> 's \<times> (service_error, string) result" where
  "Service_Set svc io w provider key value =
     (case svc of
        None \<Rightarrow> (w, Inl ErrStoreRequired)
      | Some store \<Rightarrow>
          if value = [] then (w, Inl ErrValueRequired)
          else case ResolveKey provider key of
            Inl e \<Rightarrow> (w, Inl e)
          | Inr fullKey \<Rightarrow>
              (case vs_Set store io w fullKey value of
                 (w, Some e) \<Rightarrow> (w, Inl (SetFailed e)) | (w, None) \<Rightarrow> (w, Inr fullKey)))"

definition Service_Get ::
  "('i, 's) VaultStore option \<Rightarrow> 's \<Rightarrow> string \<Rightarrow> string \<Rightarrow> bool \<Rightarrow> (service_error, GetResult) result" where
  "Service_Get svc w provider key reveal =
     (case svc of
        None \<Rightarrow> Inl ErrStoreRequired
      | Some store \<Rightarrow>
          bind_res (ResolveKey provider key) (\<lambda>fullKey.
            case vs_Resolve store w (''vault://'' @ fullKey) of
              Inl _ \<Rightarrow> if reveal then Inl (NotRegistered fullKey)
                else Inr \<lparr>gr_FullKey = fullKey, gr_Registered = False, gr_Value = []\<rparr>
            | Inr val \<Rightarrow> Inr \<lparr>gr_FullKey = fullKey, gr_Registered = True, gr_Value = (if reveal then val else [])\<rparr>))"

definition Service_Delete ::
  "('i, 's) VaultStore option \<Rightarrow> 'i \<Rightarrow> 's \<Rightarrow> string \<Rightarrow> string \<Rightarrow> 's \<times> (service_error, string) result" where
  "Service_Delete svc io w provider key =
     (case svc of
        None \<Rightarrow> (w, Inl ErrStoreRequired)
      | Some store \<Rightarrow>
          (case ResolveKey provider key of
             Inl e \<Rightarrow> (w, Inl e)
           | Inr fullKey \<Rightarrow>
               (case vs_Delete store io w fullKey of
                  (w, Some e) \<Rightarrow> (w, Inl (DeleteFailed e)) | (w, None) \<Rightarrow> (w, Inr fullKey))))"

definition Service_List :: "('i, 's) VaultStore option \<Rightarrow> 's \<Rightarrow> (service_error, string list) result" where
  "Service_List svc w =
     (case svc of
        None \<Rightarrow> Inl ErrStoreRequired
      | Some store \<Rightarrow> (case vs_List store w of Inl e \<Rightarrow> Inl (ListFailed e) | Inr paths \<Rightarrow> Inr paths))"

definition Service_Status ::
  "('i, 's) VaultStore option \<Rightarrow> 's \<Rightarrow> string list \<Rightarrow> (service_error, ProviderState list) result" where
  "Service_Status svc w providers =
     (case svc of
        None \<Rightarrow> Inl ErrStoreRequired
      | Some store \<Rightarrow> Inr (map (\<lambda>p. \<lparr>ps_Provider = p,
          ps_Registered = (case vs_Resolve store w (''vault://'' @ ''providers/'' @ p @ ''/default'') of Inr _ \<Rightarrow> True | Inl _ \<Rightarrow> False)\<rparr>)
          providers))"

record cli_options =
  co_provider :: string
  co_key :: string
  co_value :: string
  co_reveal :: bool
  co_stdin :: bool

definition no_options :: cli_options where
  "no_options = \<lparr>co_provider = [], co_key = [], co_value = [], co_reveal = False, co_stdin = False\<rparr>"

text \<open>
  The three argument loops differ in the flag without value that they know: \<open>--stdin\<close>, \<open>--reveal\<close> or
  none. A flag that wants a value and is the last argument is skipped.
\<close>

fun parse_flags :: "bool \<Rightarrow> bool \<Rightarrow> string list \<Rightarrow> cli_options \<Rightarrow> cli_options" where
  "parse_flags stdin reveal [] opts = opts"
| "parse_flags stdin reveal (arg # args) opts =
     (if arg = ''--provider'' then
        (case args of v # rest \<Rightarrow> parse_flags stdin reveal rest (opts\<lparr>co_provider := v\<rparr>) | [] \<Rightarrow> opts)
      else if arg = ''--key'' then
        (case args of v # rest \<Rightarrow> parse_flags stdin reveal rest (opts\<lparr>co_key := v\<rparr>) | [] \<Rightarrow> opts)
      else if arg = ''--stdin'' \<and> stdin then parse_flags stdin reveal args (opts\<lparr>co_stdin := True\<rparr>)
      else if arg = ''--reveal'' \<and> reveal then parse_flags stdin reveal args (opts\<lparr>co_reveal := True\<rparr>)
      else parse_flags stdin reveal args opts)"

text \<open>A \<open>bufio.Scanner\<close> gives up on a line of 64 KiB or more.\<close>

definition readSingleLine :: "string \<Rightarrow> string" where
  "readSingleLine input =
     (let line = (case strIndex input [CHR 0x0A] of Some i \<Rightarrow> take i input | None \<Rightarrow> input)
      in if 65536 \<le> length line then []
         else TrimSpace (if line \<noteq> [] \<and> last line = CHR 0x0D then butlast line else line))"

definition parseSetArgs :: "string list \<Rightarrow> string \<Rightarrow> cli_options \<times> string" where
  "parseSetArgs args input =
     (let opts = parse_flags True False args no_options
      in (opts\<lparr>co_value := readSingleLine input\<rparr>, if co_stdin opts then [] else ''Enter value: ''))"

definition parseGetArgs :: "string list \<Rightarrow> cli_options" where
  "parseGetArgs args = parse_flags False True args no_options"

definition parseDeleteArgs :: "string list \<Rightarrow> cli_options" where
  "parseDeleteArgs args = parse_flags False False args no_options"

record CLIConfig =
  cli_KnownProviders :: "string list"
  cli_AppName :: string
  cli_AppVersion :: string

definition NewCLIRunner :: "CLIConfig \<Rightarrow> CLIConfig" where
  "NewCLIRunner cfg =
     \<lparr>cli_KnownProviders = (if cli_KnownProviders cfg = [] then [''anthropic'', ''openai'', ''google''] else cli_KnownProviders cfg),
      cli_AppName = (if cli_AppName cfg = [] then ''vault-cli'' else cli_AppName cfg),
      cli_AppVersion = (if cli_AppVersion cfg = [] then ''0.1.0'' else cli_AppVersion cfg)\<rparr>"

text \<open>The outcome of a command: exit code, standard output, standard error. Error texts are a parameter.\<close>

type_synonym cli_outcome = "nat \<times> string \<times> string"

abbreviation nl :: string where "nl \<equiv> [CHR 0x0A]"

definition cli_Run ::
  "(service_error \<Rightarrow> string) \<Rightarrow> string \<Rightarrow> CLIConfig \<Rightarrow> ('i, 's) VaultStore option \<Rightarrow> 'i \<Rightarrow> 's \<Rightarrow> string \<Rightarrow> string list
   \<Rightarrow> 's \<times> cli_outcome" where
  "cli_Run err_text usage cfg svc io w stdin args =
     (let failed = (\<lambda>pre e. pre @ ''Error: '' @ err_text e @ nl)
      in case args of
        [] \<Rightarrow> (w, 1, [], usage)
      | cmd # cmdArgs \<Rightarrow>
          if cmd = ''set'' then
            (let (opts, asked) = parseSetArgs cmdArgs stdin
             in case Service_Set svc io w (co_provider opts) (co_key opts) (co_value opts) of
                  (w, Inl e) \<Rightarrow> (w, 1, [], failed asked e)
                | (w, Inr fullKey) \<Rightarrow> (w, 0, [], asked @ ''Set: '' @ fullKey @ nl))
          else if cmd = ''get'' then
            (let opts = parseGetArgs cmdArgs
             in case Service_Get svc w (co_provider opts) (co_key opts) (co_reveal opts) of
                  Inl e \<Rightarrow> (w, 1, [], failed [] e)
                | Inr res \<Rightarrow>
                    (w, 0, if co_reveal opts then gr_Value res
                       else if gr_Registered res then gr_FullKey res @ '': registered'' @ nl
                       else gr_FullKey res @ '': not registered'' @ nl, []))
          else if cmd = ''delete'' then
            (let opts = parseDeleteArgs cmdArgs
             in case Service_Delete svc io w (co_provider opts) (co_key opts) of
                  (w, Inl e) \<Rightarrow> (w, 1, [], failed [] e)
                | (w, Inr fullKey) \<Rightarrow> (w, 0, [], ''Deleted: '' @ fullKey @ nl))
          else if cmd = ''list'' then
            (case Service_List svc w of
               Inl e \<Rightarrow> (w, 1, ''Error listing keys: '' @ err_text e @ nl, [])
             | Inr paths \<Rightarrow> (w, 0, if paths = [] then ''No keys found'' @ nl
                 else concat (map (\<lambda>p. ''  '' @ p @ nl) paths), []))
          else if cmd = ''status'' then
            (case Service_Status svc w (cli_KnownProviders cfg) of
               Inl e \<Rightarrow> (w, 1, [], failed [] e)
             | Inr status \<Rightarrow> (w, 0, ''LLM Provider Status:'' @ nl @
                 concat (map (\<lambda>st. ''  '' @ ps_Provider st @ '': '' @
                   (if ps_Registered st then ''registered'' else ''not registered'') @ nl) status), []))
          else if cmd = ''version'' then (w, 0, cli_AppName cfg @ '' v'' @ cli_AppVersion cfg @ nl, [])
          else if cmd \<in> {''help'', ''--help'', ''-h''} then (w, 0, [], usage)
          else (w, 1, [], ''Unknown command: '' @ cmd @ nl @ usage))"

section \<open>The contract of a store\<close>

text \<open>
  What a client relies on: a stored secret is resolved until it is stored again, and no operation on
  one path changes another. \<open>path\<close> and \<open>secret\<close> say for which paths and secrets a store promises it.
\<close>

definition lookup_secret :: "('s \<Rightarrow> string \<Rightarrow> (vault_error, string) result) \<Rightarrow> 's \<Rightarrow> string \<Rightarrow> string option" where
  "lookup_secret resolve s p = (case resolve s (vaultPrefix @ p) of Inr v \<Rightarrow> Some v | Inl _ \<Rightarrow> None)"

lemma lookup_Inr [simp]: "resolve s (vaultPrefix @ p) = Inr v \<Longrightarrow> lookup_secret resolve s p = Some v"
  by (simp add: lookup_secret_def)

lemma lookup_Some: "lookup_secret resolve s p = Some v \<longleftrightarrow> resolve s (vaultPrefix @ p) = Inr v"
  by (simp add: lookup_secret_def split: sum.split)

lemma lookup_None: "lookup_secret resolve s p = None \<longleftrightarrow> (\<exists>e. resolve s (vaultPrefix @ p) = Inl e)"
  by (simp add: lookup_secret_def split: sum.split)

datatype 'i vault_op = PutOp 'i string string | DelOp 'i string

fun run_vault :: "('i, 's) VaultStore \<Rightarrow> 's \<Rightarrow> 'i vault_op list \<Rightarrow> 's option" where
  "run_vault st s [] = Some s"
| "run_vault st s (PutOp io p v # ops) =
     (case vs_Set st io s p v of (s', None) \<Rightarrow> run_vault st s' ops | _ \<Rightarrow> None)"
| "run_vault st s (DelOp io p # ops) =
     (case vs_Delete st io s p of (s', None) \<Rightarrow> run_vault st s' ops | _ \<Rightarrow> None)"

fun vault_map :: "(string \<rightharpoonup> string) \<Rightarrow> 'i vault_op list \<Rightarrow> (string \<rightharpoonup> string)" where
  "vault_map m [] = m"
| "vault_map m (PutOp io p v # ops) = vault_map (m(p \<mapsto> v)) ops"
| "vault_map m (DelOp io p # ops) = vault_map (m(p := None)) ops"

fun allowed_op :: "(string \<Rightarrow> bool) \<Rightarrow> (string \<Rightarrow> bool) \<Rightarrow> 'i vault_op \<Rightarrow> bool" where
  "allowed_op path secret (PutOp io p v) \<longleftrightarrow> path p \<and> secret v"
| "allowed_op path secret (DelOp io p) \<longleftrightarrow> path p"

locale vault_writes =
  fixes st :: "('i, 's) VaultStore" and ok :: "'s \<Rightarrow> bool" and path :: "string \<Rightarrow> bool" and secret :: "string \<Rightarrow> bool"
  assumes put_stored: "ok s \<Longrightarrow> path p \<Longrightarrow> secret v \<Longrightarrow> vs_Set st io s p v = (s', None) \<Longrightarrow>
      ok s' \<and> lookup_secret (vs_Resolve st) s' p = Some v"
    and put_others: "ok s \<Longrightarrow> path p \<Longrightarrow> secret v \<Longrightarrow> path q \<Longrightarrow> q \<noteq> p \<Longrightarrow> vs_Set st io s p v = (s', None) \<Longrightarrow>
      lookup_secret (vs_Resolve st) s' q = lookup_secret (vs_Resolve st) s q"
begin

lemma get_after_set:
  assumes "ok w" "ResolveKey provider key = Inr fullKey" "path fullKey" "secret value"
    and "Service_Set (Some st) io w provider key value = (w', Inr k)"
  shows "k = fullKey \<and> ok w' \<and> Service_Get (Some st) w' provider key True
    = Inr \<lparr>gr_FullKey = fullKey, gr_Registered = True, gr_Value = value\<rparr>"
proof -
  from assms(2,5) have "vs_Set st io w fullKey value = (w', None)" "k = fullKey"
    by (auto simp: Service_Set_def split: if_splits prod.splits option.splits)
  with put_stored [OF assms(1,3,4)] show ?thesis
    using assms(2) by (auto simp: Service_Get_def lookup_Some vaultPrefix_def)
qed

end

locale vault_backend = vault_writes +
  assumes del_removed: "ok s \<Longrightarrow> path p \<Longrightarrow> vs_Delete st io s p = (s', None) \<Longrightarrow>
      ok s' \<and> lookup_secret (vs_Resolve st) s' p = None"
    and del_others: "ok s \<Longrightarrow> path p \<Longrightarrow> path q \<Longrightarrow> q \<noteq> p \<Longrightarrow> vs_Delete st io s p = (s', None) \<Longrightarrow>
      lookup_secret (vs_Resolve st) s' q = lookup_secret (vs_Resolve st) s q"
begin

text \<open>A store refines a map from paths to secrets.\<close>

lemma run_refines_map:
  assumes "ok s" "\<forall>op \<in> set ops. allowed_op path secret op" "run_vault st s ops = Some s'"
    and "\<forall>q. path q \<longrightarrow> m q = lookup_secret (vs_Resolve st) s q"
  shows "ok s' \<and> (\<forall>q. path q \<longrightarrow> lookup_secret (vs_Resolve st) s' q = vault_map m ops q)"
  using assms
proof (induction ops arbitrary: s m)
  case (Cons op ops)
  show ?case
  proof (cases op)
    case (PutOp io p v)
    with Cons.prems obtain s1 where s1: "vs_Set st io s p v = (s1, None)" "run_vault st s1 ops = Some s'"
      by (auto split: prod.splits option.splits)
    have a: "path p" "secret v" using Cons.prems(2) PutOp by auto
    have "\<forall>q. path q \<longrightarrow> (m(p \<mapsto> v)) q = lookup_secret (vs_Resolve st) s1 q"
      using put_stored [OF Cons.prems(1) a s1(1)] put_others [OF Cons.prems(1) a _ _ s1(1)] Cons.prems(4) by simp
    then show ?thesis
      unfolding PutOp vault_map.simps
      by (intro Cons.IH [OF _ _ s1(2)]) (use put_stored [OF Cons.prems(1) a s1(1)] Cons.prems(2) in simp_all)
  next
    case (DelOp io p)
    with Cons.prems obtain s1 where s1: "vs_Delete st io s p = (s1, None)" "run_vault st s1 ops = Some s'"
      by (auto split: prod.splits option.splits)
    have a: "path p" using Cons.prems(2) DelOp by auto
    have "\<forall>q. path q \<longrightarrow> (m(p := None)) q = lookup_secret (vs_Resolve st) s1 q"
      using del_removed [OF Cons.prems(1) a s1(1)] del_others [OF Cons.prems(1) a _ _ s1(1)] Cons.prems(4) by simp
    then show ?thesis
      unfolding DelOp vault_map.simps
      by (intro Cons.IH [OF _ _ s1(2)]) (use del_removed [OF Cons.prems(1) a s1(1)] Cons.prems(2) in simp_all)
  qed
qed simp

lemma gone_after_delete:
  assumes "ok w" "ResolveKey provider key = Inr fullKey" "path fullKey"
    and "Service_Delete (Some st) io w provider key = (w', Inr k)"
  shows "Service_Get (Some st) w' provider key False = Inr \<lparr>gr_FullKey = fullKey, gr_Registered = False, gr_Value = []\<rparr>"
proof -
  from assms(2,4) have "vs_Delete st io w fullKey = (w', None)"
    by (auto simp: Service_Delete_def split: prod.splits option.splits)
  from del_removed [OF assms(1,3) this] obtain e where "vs_Resolve st w' (vaultPrefix @ fullKey) = Inl e"
    by (auto simp: lookup_None)
  then show ?thesis using assms(2) by (simp add: Service_Get_def vaultPrefix_def)
qed

end

section \<open>The environment backend keeps the contract\<close>

text \<open>
  The environment has one variable for several paths: the contract holds for the paths of the
  documented form \<open>providers/{provider}/{key}\<close> whose parts are lower case letters and digits.
\<close>

definition env_part :: "string \<Rightarrow> bool" where
  "env_part s \<longleftrightarrow> list_all (\<lambda>c. in_range 97 122 c \<or> in_range 48 57 c) s"

definition env_path :: "string \<Rightarrow> bool" where
  "env_path p \<longleftrightarrow> (\<exists>provider key. env_part provider \<and> env_part key \<and> p = ''providers/'' @ provider @ ''/'' @ key)"

lemma env_part_chars: "env_part s \<Longrightarrow> ReplaceByte (CHR ''/'') (CHR ''_'') s = s \<and> ReplaceByte (CHR ''-'') (CHR ''_'') s = s"
  by (induction s) (auto simp: env_part_def ReplaceByte_def in_range_def byte_def)

lemma env_part_upper: "env_part s \<Longrightarrow> ToUpper (s @ t) = map upper_char s @ ToUpper t"
  by (induction s) (auto simp: env_part_def in_range_def)

lemma byte_upper: "byte (upper_char c) = (if 97 \<le> byte c \<and> byte c \<le> 122 then byte c - 32 else byte c)"
proof (cases "97 \<le> byte c \<and> byte c \<le> 122")
  case True
  then have "byte c - 32 < 256" by linarith
  then have "(byte c - 32) mod 256 = byte c - 32" by (rule mod_less)
  with True show ?thesis by (simp add: upper_char_def) (simp add: byte_def)
qed (auto simp: upper_char_def)

lemma byte_inj: "byte a = byte b \<longleftrightarrow> a = b"
  by (simp add: byte_def)

lemma upper_not_underscore: "env_part s \<Longrightarrow> CHR ''_'' \<notin> set (map upper_char s)"
proof
  assume "env_part s" "CHR ''_'' \<in> set (map upper_char s)"
  then obtain c where "c \<in> set s" "upper_char c = CHR ''_''" by auto
  moreover have "byte CHR ''_'' = 95" by (simp add: byte_def)
  ultimately have "c \<in> set s" "byte (upper_char c) = 95" by simp_all
  with \<open>env_part s\<close> show False by (auto simp: env_part_def list_all_iff in_range_def byte_upper split: if_splits)
qed

lemma upper_inj: "env_part s \<Longrightarrow> env_part t \<Longrightarrow> map upper_char s = map upper_char t \<Longrightarrow> s = t"
proof (induction s arbitrary: t)
  case (Cons a s)
  then obtain b t' where t: "t = b # t'" by (cases t) auto
  have "byte (upper_char a) = byte (upper_char b)" using Cons.prems(3) t by simp
  then have "byte a = byte b"
    using Cons.prems t by (auto simp: env_part_def in_range_def byte_upper split: if_splits)
  then show ?case using Cons t by (auto simp: env_part_def byte_inj)
qed simp

lemma env_name:
  assumes "env_part a" "env_part b"
  shows "pathToEnvName (''providers/'' @ a @ ''/'' @ b) = envPrefix @ map upper_char a @ ''_'' @ map upper_char b"
proof -
  have "ReplaceByte (CHR ''-'') (CHR ''_'') (ReplaceByte (CHR ''/'') (CHR ''_'') (a @ ''/'' @ b)) = a @ ''_'' @ b"
    using env_part_chars [OF assms(1)] env_part_chars [OF assms(2)] by (simp add: ReplaceByte_def)
  then show ?thesis
    using env_part_upper [OF assms(1), of "''_'' @ b"] env_part_upper [OF assms(2), of "[]"]
    by (simp add: pathToEnvName_def TrimPrefix_append [of "''providers/''", simplified] byte_def upper_char_def)
qed

lemma env_name_inj: "env_path p \<Longrightarrow> env_path q \<Longrightarrow> pathToEnvName p = pathToEnvName q \<Longrightarrow> p = q"
proof -
  assume "env_path p" "env_path q" and eq: "pathToEnvName p = pathToEnvName q"
  then obtain a b c d where p: "p = ''providers/'' @ a @ ''/'' @ b" "env_part a" "env_part b"
    and q: "q = ''providers/'' @ c @ ''/'' @ d" "env_part c" "env_part d"
    by (auto simp: env_path_def)
  have "map upper_char a @ CHR ''_'' # map upper_char b = map upper_char c @ CHR ''_'' # map upper_char d"
    using eq env_name [OF p(2,3)] env_name [OF q(2,3)] p(1) q(1) by simp
  then have "map upper_char a = map upper_char c \<and> map upper_char b = map upper_char d"
    by (rule append_Cons_eq_iff [THEN iffD1, rotated 2])
      (use upper_not_underscore p q in auto)
  then show "p = q" using upper_inj p q by auto
qed

lemma ParseVaultRef_ref [simp]: "ParseVaultRef (vaultPrefix @ p) = Some p"
  by (simp add: ParseVaultRef_def IsVaultRef_def)

text \<open>The environment resolves what is stored in it, unless that is the empty text.\<close>

lemma env_lookup:
  "lookup_secret Env_Resolve w p =
     (case map_of (vw_env w) (pathToEnvName p) of Some v \<Rightarrow> if v = [] then None else Some v | None \<Rightarrow> None)"
  by (simp add: lookup_secret_def Env_Resolve_def Let_def split: option.split)

interpretation env: vault_backend EnvVaultBackend "\<lambda>w. is_go_map (vw_env w)" env_path "\<lambda>v. v \<noteq> []"
proof
  fix s s' :: "('k, 'c) vault_world" and p q v and io :: 'i
  assume ok: "is_go_map (vw_env s)" and p: "env_path p"
  show "v \<noteq> [] \<Longrightarrow> vs_Set EnvVaultBackend io s p v = (s', None) \<Longrightarrow>
      is_go_map (vw_env s') \<and> lookup_secret (vs_Resolve EnvVaultBackend) s' p = Some v"
    using ok by (auto simp: EnvVaultBackend_def Env_Set_def env_lookup split: if_splits)
  show "vs_Delete EnvVaultBackend io s p = (s', None) \<Longrightarrow>
      is_go_map (vw_env s') \<and> lookup_secret (vs_Resolve EnvVaultBackend) s' p = None"
    using ok by (auto simp: EnvVaultBackend_def Env_Delete_def env_lookup)
  assume q: "env_path q" "q \<noteq> p"
  then have n: "pathToEnvName q \<noteq> pathToEnvName p" using env_name_inj p by blast
  show "vs_Set EnvVaultBackend io s p v = (s', None) \<Longrightarrow>
      lookup_secret (vs_Resolve EnvVaultBackend) s' q = lookup_secret (vs_Resolve EnvVaultBackend) s q"
    using n by (auto simp: EnvVaultBackend_def Env_Set_def env_lookup split: if_splits)
  show "vs_Delete EnvVaultBackend io s p = (s', None) \<Longrightarrow>
      lookup_secret (vs_Resolve EnvVaultBackend) s' q = lookup_secret (vs_Resolve EnvVaultBackend) s q"
    using n ok by (auto simp: EnvVaultBackend_def Env_Delete_def env_lookup)
qed

text \<open>Beyond those paths two secrets share a variable, and the second overwrites the first.\<close>

theorem env_paths_collide:
  "pathToEnvName ''providers/anthropic/team-a'' = pathToEnvName ''providers/anthropic/team/a'' \<and>
   pathToEnvName ''providers/x/y'' = pathToEnvName ''x-y''"
  by code_simp

section \<open>The file backend keeps the contract\<close>

lemma file_lookup: "lookup_secret File_Resolve w p = map_of (fb_secrets (vw_fb w)) p"
  by (simp add: lookup_secret_def File_Resolve_def vaultPrefix_def [symmetric] split: option.split)

lemma file_save_fb: "file_save ae io w = (w', e) \<Longrightarrow> vw_fb w' = vw_fb w"
  by (auto simp: file_save_def split: option.splits)

lemma fb_set_secrets [simp]: "fb_secrets (vw_fb (set_secrets m w)) = m" "fb_key (vw_fb (set_secrets m w)) = fb_key (vw_fb w)"
  by (simp_all add: set_secrets_def)

interpretation file_vault: vault_backend "FileVaultBackend (ae :: 'c aead)" "\<lambda>w. is_go_map (fb_secrets (vw_fb w))" "\<lambda>_. True" "\<lambda>_. True" for ae
proof
  fix s s' :: "('k, 'c) vault_world" and p q v io
  assume ok: "is_go_map (fb_secrets (vw_fb s))"
  show "vs_Set (FileVaultBackend ae) io s p v = (s', None) \<Longrightarrow>
      is_go_map (fb_secrets (vw_fb s')) \<and> lookup_secret (vs_Resolve (FileVaultBackend ae)) s' p = Some v"
    using ok by (auto simp: FileVaultBackend_def File_Set_def file_lookup dest!: file_save_fb)
  show "vs_Delete (FileVaultBackend ae) io s p = (s', None) \<Longrightarrow>
      is_go_map (fb_secrets (vw_fb s')) \<and> lookup_secret (vs_Resolve (FileVaultBackend ae)) s' p = None"
    using ok by (auto simp: FileVaultBackend_def File_Delete_def file_lookup dest!: file_save_fb split: if_splits)
  assume q: "q \<noteq> p"
  show "vs_Set (FileVaultBackend ae) io s p v = (s', None) \<Longrightarrow>
      lookup_secret (vs_Resolve (FileVaultBackend ae)) s' q = lookup_secret (vs_Resolve (FileVaultBackend ae)) s q"
    using q by (auto simp: FileVaultBackend_def File_Set_def file_lookup dest!: file_save_fb)
  show "vs_Delete (FileVaultBackend ae) io s p = (s', None) \<Longrightarrow>
      lookup_secret (vs_Resolve (FileVaultBackend ae)) s' q = lookup_secret (vs_Resolve (FileVaultBackend ae)) s q"
    using q ok by (auto simp: FileVaultBackend_def File_Delete_def file_lookup dest!: file_save_fb split: if_splits)
qed

text \<open>What \<open>json\<close> makes of the secrets when keys and values are valid text.\<close>

lemma sorted_keys: "is_go_map (sort_key fst m) \<longleftrightarrow> is_go_map m" for m :: "(string \<times> string) list"
proof -
  have "mset (map fst (sort_key fst m)) = mset (map fst m)" by simp
  then show ?thesis unfolding is_go_map_def by (rule mset_eq_imp_distinct_iff)
qed

lemma map_of_sort_key:
  fixes m :: "(string \<times> string) list"
  assumes "is_go_map m" shows "map_of (sort_key fst m) = map_of m"
proof -
  have "distinct (map fst (sort_key fst m))" using assms sorted_keys [of m] by (simp add: is_go_map_def)
  moreover have "distinct (map fst m)" using assms by (simp add: is_go_map_def)
  ultimately have "map_of (sort_key fst m) k = Some v \<longleftrightarrow> map_of m k = Some v" for k v
    by (simp add: map_of_eq_Some_iff)
  then show ?thesis by (intro ext) (metis not_Some_eq)
qed

lemma massign_fold:
  "map_of (foldl (\<lambda>acc (k, v). massign (f k) (g v) acc) acc m) = map_of acc ++ map_of (rev (map (\<lambda>(k, v). (f k, g v)) m))"
  by (induction m arbitrary: acc) (auto simp: map_add_def fun_eq_iff split: option.splits)

definition clean_secrets :: "(string \<times> string) list \<Rightarrow> bool" where
  "clean_secrets m \<longleftrightarrow> (\<forall>(k, v) \<in> set m. valid_text k = k \<and> valid_text v = v)"

lemma map_of_rev_distinct: "is_go_map m \<Longrightarrow> map_of (rev m) = map_of m"
proof -
  assume "is_go_map m"
  then have "distinct (map fst m)" "distinct (map fst (rev m))" by (simp_all add: is_go_map_def flip: rev_map)
  then have "map_of (rev m) k = Some v \<longleftrightarrow> map_of m k = Some v" for k v by (simp add: map_of_eq_Some_iff)
  then show ?thesis by (intro ext) (metis not_Some_eq)
qed

lemma through_json_clean:
  assumes "is_go_map m" "clean_secrets m" shows "map_of (through_json m) = map_of m"
proof -
  let ?s = "sort_key fst m"
  have "map (\<lambda>(k, v). (valid_text k, valid_text v)) ?s = ?s"
    using assms(2) by (intro map_idI) (auto simp: clean_secrets_def)
  then have "map_of (through_json m) = map_of (rev ?s)"
    by (simp add: through_json_def massign_fold)
  also have "\<dots> = map_of ?s" by (rule map_of_rev_distinct) (use assms(1) sorted_keys in blast)
  also have "\<dots> = map_of m" by (rule map_of_sort_key [OF assms(1)])
  finally show ?thesis .
qed

text \<open>
  A vault file can be opened again: after a secret has been stored successfully, a backend made
  from the same key and the file on the disk holds exactly the secrets of the one that wrote it. (For
  keys and values that are valid text; opening inverts sealing under the same key and nonce.)
\<close>

theorem file_vault_reopens:
  assumes "\<forall>key nonce m. ae_open ae key nonce (ae_seal ae key nonce (SecretMap m)) = Some (SecretMap m)"
    and "rawKey \<noteq> []" "fb_key (vw_fb w) = ae_sha ae rawKey" "is_go_map (fb_secrets (vw_fb w))"
    and "clean_secrets (massign p v (fb_secrets (vw_fb w)))"
    and "vs_Set (FileVaultBackend ae) io w p v = (w', None)"
  shows "\<exists>b. NewFileVaultBackend ae rawKey (vw_disk w') = Some b \<and> fb_key b = fb_key (vw_fb w') \<and>
    map_of (fb_secrets b) = (map_of (fb_secrets (vw_fb w)))(p \<mapsto> v)"
proof -
  let ?m = "massign p v (fb_secrets (vw_fb w))"
  obtain nonce where "di_nonce io = Some nonce" "vw_disk w' = Some (Sealed nonce (ae_seal ae (fb_key (vw_fb w)) nonce (SecretMap (through_json ?m))))"
    "vw_fb w' = vw_fb (set_secrets ?m w)"
    using assms(6) by (auto simp: FileVaultBackend_def File_Set_def file_save_def file_encrypt_def split: option.splits)
  then have "NewFileVaultBackend ae rawKey (vw_disk w') = Some \<lparr>fb_key = fb_key (vw_fb w'), fb_secrets = through_json ?m\<rparr>"
    using assms(1-3) by (simp add: NewFileVaultBackend_def file_load_def file_decrypt_def)
  with through_json_clean [OF is_go_map_massign [OF assms(4)] assms(5)] show ?thesis by simp
qed

definition plain_aead :: "(string \<times> string \<times> plaintext) aead" where
  "plain_aead = \<lparr>ae_sha = (\<lambda>s. s), ae_seal = (\<lambda>k n p. (k, n, p)),
     ae_open = (\<lambda>k n c. if fst c = k \<and> fst (snd c) = n then Some (snd (snd c)) else None)\<rparr>"

definition empty_world :: "'k \<Rightarrow> ('k, string \<times> string \<times> plaintext) vault_world" where
  "empty_world r = \<lparr>vw_env = [], vw_ring = r, vw_fb = \<lparr>fb_key = ''k'', fb_secrets = []\<rparr>, vw_disk = None\<rparr>"

definition good_disk :: "'c disk_io" where "good_disk = \<lparr>di_nonce = Some ''n'', di_fault = None\<rparr>"

theorem file_vault_reopens_witness:
  "\<exists>b. NewFileVaultBackend plain_aead ''k''
     (vw_disk (fst (vs_Set (FileVaultBackend plain_aead) good_disk (empty_world ()) ''p'' ''v''))) = Some b \<and>
     map_of (fb_secrets b) ''p'' = Some ''v''"
proof -
  have s: "vs_Set (FileVaultBackend plain_aead) good_disk (empty_world ()) ''p'' ''v''
    = (fst (vs_Set (FileVaultBackend plain_aead) good_disk (empty_world ()) ''p'' ''v''), None)"
    by (simp add: FileVaultBackend_def File_Set_def file_save_def file_encrypt_def good_disk_def)
  have "valid_text ''p'' = ''p''" "valid_text ''v'' = ''v''" by (simp_all add: valid_text_ascii byte_def)
  then have "clean_secrets (massign ''p'' ''v'' (fb_secrets (vw_fb (empty_world ()))))"
    by (simp add: clean_secrets_def empty_world_def)
  from file_vault_reopens [OF _ _ _ _ this s, of "''k''"] show ?thesis
    by (auto simp: plain_aead_def empty_world_def)
qed

text \<open>
  A save that fails is reported, but the secret is kept in memory and resolved; and since the file is
  truncated before it is written, a fault there leaves a vault without secrets.
\<close>

theorem failed_save_resolves:
  "vs_Set (FileVaultBackend ae) io w p v = (w', Some e) \<Longrightarrow> vs_Resolve (FileVaultBackend ae) w' (vaultPrefix @ p) = Inr v"
  using file_lookup [of w' p]
  by (auto simp: FileVaultBackend_def File_Set_def lookup_Some dest!: file_save_fb)

theorem failed_save_resolves_witness:
  "vs_Resolve (FileVaultBackend plain_aead) (fst (vs_Set (FileVaultBackend plain_aead) (good_disk\<lparr>di_nonce := None\<rparr>)
     (empty_world ()) ''p'' ''v'')) (vaultPrefix @ ''p'') = Inr ''v''"
  by (rule failed_save_resolves [where io = "good_disk\<lparr>di_nonce := None\<rparr>" and w = "empty_world ()" and v = "''v''" and e = FileNotSaved])
    (simp add: FileVaultBackend_def File_Set_def file_save_def file_encrypt_def good_disk_def)

theorem truncated_vault_is_empty:
  "rawKey \<noteq> [] \<Longrightarrow> NewFileVaultBackend ae rawKey
     (vw_disk (fst (vs_Set (FileVaultBackend ae) \<lparr>di_nonce = Some n, di_fault = Some (Some EmptyFile)\<rparr> w p v)))
   = Some \<lparr>fb_key = ae_sha ae rawKey, fb_secrets = []\<rparr>"
  by (simp add: FileVaultBackend_def File_Set_def file_save_def file_encrypt_def NewFileVaultBackend_def file_load_def Let_def)

section \<open>The keyring backend keeps the contract\<close>

text \<open>
  What the code relies on in the keyring of the operating system: a secret set without error is the one
  read, other entries are untouched. A keyring that removes without refusing is \<open>keyring_reliable\<close>.
\<close>

locale keyring_service =
  fixes K :: "'k keyring" and good :: "'k \<Rightarrow> bool"
  assumes set_get: "good r \<Longrightarrow> kr_Set K r s u x = (r', None) \<Longrightarrow> kr_Get K r' s u = Inr x"
    and set_good: "good r \<Longrightarrow> kr_Set K r s u x = (r', e) \<Longrightarrow> good r'"
    and set_other: "good r \<Longrightarrow> kr_Set K r s u x = (r', e) \<Longrightarrow> (s', u') \<noteq> (s, u) \<Longrightarrow> kr_Get K r' s' u' = kr_Get K r s' u'"
    and del_good: "good r \<Longrightarrow> kr_Delete K r s u = (r', e) \<Longrightarrow> good r'"
    and del_other: "good r \<Longrightarrow> kr_Delete K r s u = (r', e) \<Longrightarrow> (s', u') \<noteq> (s, u) \<Longrightarrow> kr_Get K r' s' u' = kr_Get K r s' u'"
begin

lemma index_saved:
  assumes "good (vw_ring w)" "saveKeyIndex K service w keys = (w', e)"
  shows "good (vw_ring w') \<and> (e = None \<longrightarrow> loadKeyIndex K service w' = Inr (map valid_text keys)) \<and>
    (\<forall>u. u \<noteq> vaultMetaKey \<longrightarrow> kr_Get K (vw_ring w') service u = kr_Get K (vw_ring w) service u)"
proof -
  obtain r f where r: "kr_Set K (vw_ring w) service vaultMetaKey (KeyIndex (map valid_text keys)) = (r, f)"
    by (cases "kr_Set K (vw_ring w) service vaultMetaKey (KeyIndex (map valid_text keys))")
  then have "w' = w\<lparr>vw_ring := r\<rparr>" "e = map_option KeyringIndex f" using assms(2) by (auto simp: saveKeyIndex_def)
  with r set_get [OF assms(1)] set_good [OF assms(1)] set_other [OF assms(1)] show ?thesis
    by (auto simp: loadKeyIndex_def)
qed

lemma added_to_index:
  assumes "good (vw_ring w)" "addToKeyIndex K service w key = (w', e)"
  shows "good (vw_ring w') \<and>
    (\<forall>u. u \<noteq> vaultMetaKey \<longrightarrow> kr_Get K (vw_ring w') service u = kr_Get K (vw_ring w) service u)"
  using assms index_saved [OF assms(1)] by (auto simp: addToKeyIndex_def Let_def split: if_splits)

lemma keyring_put:
  assumes "good (vw_ring w)" "p \<noteq> vaultMetaKey" "Keyring_Set K service io w p v = (w', None)"
  shows "good (vw_ring w') \<and> kr_Get K (vw_ring w') service p = Inr (StoredNode (valid_text p) (valid_text v)) \<and>
    (\<forall>u. u \<noteq> vaultMetaKey \<longrightarrow> u \<noteq> p \<longrightarrow> kr_Get K (vw_ring w') service u = kr_Get K (vw_ring w) service u)"
proof -
  obtain r where r: "kr_Set K (vw_ring w) service p (StoredNode (valid_text p) (valid_text v)) = (r, None)"
    and a: "addToKeyIndex K service (w\<lparr>vw_ring := r\<rparr>) p = (w', None)"
    using assms(3) by (auto simp: Keyring_Set_def split: prod.splits option.splits)
  have "good r" using set_good [OF assms(1) r] .
  then have "good (vw_ring (w\<lparr>vw_ring := r\<rparr>))" by simp
  from added_to_index [OF this a] set_get [OF assms(1) r] set_other [OF assms(1) r] assms(2) show ?thesis by simp
qed

lemma keyring_del:
  assumes "good (vw_ring w)" "Keyring_Delete K service io w p = (w', e)" "kr_Delete K (vw_ring w) service p = (r, f)"
  shows "good (vw_ring w') \<and> (p \<noteq> vaultMetaKey \<longrightarrow> kr_Get K (vw_ring w') service p = kr_Get K r service p) \<and>
    (\<forall>u. u \<noteq> vaultMetaKey \<longrightarrow> u \<noteq> p \<longrightarrow> kr_Get K (vw_ring w') service u = kr_Get K (vw_ring w) service u)"
proof -
  let ?w = "w\<lparr>vw_ring := r\<rparr>"
  have g: "good (vw_ring ?w)" using del_good [OF assms(1,3)] by simp
  have "saveKeyIndex K service (w\<lparr>vw_ring := r\<rparr>) (filter (\<lambda>key. key \<noteq> p) (known_keys K service (w\<lparr>vw_ring := r\<rparr>))) = (w', e)"
    using assms(2,3) by (simp add: Keyring_Delete_def Let_def)
  note i = index_saved [OF g this]
  have "kr_Get K r service u = kr_Get K (vw_ring w) service u" if "u \<noteq> p" for u
    using del_other [OF assms(1,3)] that by simp
  with i show ?thesis by simp
qed

lemma keyring_lookup:
  "lookup_secret (Keyring_Resolve K service) w p =
     (case kr_Get K (vw_ring w) service p of Inr (StoredNode _ v) \<Rightarrow> Some v | _ \<Rightarrow> None)"
  by (simp add: lookup_secret_def Keyring_Resolve_def split: sum.split kr_secret.split)

lemma keyring_writes:
  "vault_writes (KeyringVaultBackend K service) (\<lambda>w. good (vw_ring w)) (\<lambda>p. p \<noteq> vaultMetaKey) (\<lambda>v. valid_text v = v)"
proof
  fix s s' :: "('k, 'c) vault_world" and p q v and io :: 'i
  assume ok: "good (vw_ring s)" "p \<noteq> vaultMetaKey" "valid_text v = v"
    and "vs_Set (KeyringVaultBackend K service) io s p v = (s', None)"
  then have "Keyring_Set K service io s p v = (s', None)" by (simp add: KeyringVaultBackend_def)
  note put = keyring_put [OF ok(1,2) this]
  from put ok(3) show "good (vw_ring s') \<and> lookup_secret (vs_Resolve (KeyringVaultBackend K service)) s' p = Some v"
    by (simp add: KeyringVaultBackend_def keyring_lookup)
  assume "q \<noteq> vaultMetaKey" "q \<noteq> p"
  with put show "lookup_secret (vs_Resolve (KeyringVaultBackend K service)) s' q
      = lookup_secret (vs_Resolve (KeyringVaultBackend K service)) s q"
    by (simp add: KeyringVaultBackend_def keyring_lookup)
qed

end

sublocale keyring_service \<subseteq> writes: vault_writes "KeyringVaultBackend K service" "\<lambda>w. good (vw_ring w)"
    "\<lambda>p. p \<noteq> vaultMetaKey" "\<lambda>v. valid_text v = v" for service
  by (rule keyring_writes)

locale keyring_reliable = keyring_service K good for K :: "'k keyring" and good +
  assumes del_gone: "good r \<Longrightarrow> kr_Delete K r s u = (r', e) \<Longrightarrow> \<exists>err. kr_Get K r' s u = Inl err"
begin

lemma keyring_backend:
  "vault_backend (KeyringVaultBackend K service) (\<lambda>w. good (vw_ring w)) (\<lambda>p. p \<noteq> vaultMetaKey) (\<lambda>v. valid_text v = v)"
proof
  fix s s' :: "('k, 'c) vault_world" and p q and io :: 'i
  assume ok: "good (vw_ring s)" "p \<noteq> vaultMetaKey" and "vs_Delete (KeyringVaultBackend K service) io s p = (s', None)"
  then have d: "Keyring_Delete K service io s p = (s', None)" by (simp add: KeyringVaultBackend_def)
  obtain r f where r: "kr_Delete K (vw_ring s) service p = (r, f)" by (cases "kr_Delete K (vw_ring s) service p")
  note del = keyring_del [OF ok(1) d r]
  obtain err where "kr_Get K r service p = Inl err" using del_gone [OF ok(1) r] by blast
  with del ok(2) show "good (vw_ring s') \<and> lookup_secret (vs_Resolve (KeyringVaultBackend K service)) s' p = None"
    by (simp add: KeyringVaultBackend_def keyring_lookup)
  assume "q \<noteq> vaultMetaKey" "q \<noteq> p"
  with del show "lookup_secret (vs_Resolve (KeyringVaultBackend K service)) s' q
      = lookup_secret (vs_Resolve (KeyringVaultBackend K service)) s q"
    by (simp add: KeyringVaultBackend_def keyring_lookup)
qed

end

sublocale keyring_reliable \<subseteq> backend: vault_backend "KeyringVaultBackend K service" "\<lambda>w. good (vw_ring w)"
    "\<lambda>p. p \<noteq> vaultMetaKey" "\<lambda>v. valid_text v = v" for service
  by (rule keyring_backend)

text \<open>
  The in-memory provider of the keyring library, which the tests use, with a set of entries that the
  system refuses to write or remove.
\<close>

definition mem_keyring :: "(string \<times> string \<Rightarrow> bool) \<Rightarrow> ((string \<times> string) \<times> kr_secret) list keyring" where
  "mem_keyring denied =
     \<lparr>kr_Get = (\<lambda>r s u. case map_of r (s, u) of Some x \<Rightarrow> Inr x | None \<Rightarrow> Inl KrNotFound),
      kr_Set = (\<lambda>r s u x. if denied (s, u) then (r, Some (KrFailed ''denied'')) else (massign (s, u) x r, None)),
      kr_Delete = (\<lambda>r s u. if denied (s, u) then (r, Some (KrFailed ''denied''))
        else if (s, u) \<notin> mkeys r then (r, Some KrNotFound) else (mdelete (s, u) r, None))\<rparr>"

interpretation mem_ring: keyring_service "mem_keyring denied" is_go_map for denied
  by unfold_locales (auto simp: mem_keyring_def split: if_splits)

interpretation mem_ring_ok: keyring_reliable "mem_keyring (\<lambda>_. False)" is_go_map
  by unfold_locales (auto simp: mem_keyring_def mkeys_map_of split: if_splits option.splits)

text \<open>
  C22. The store refines a map: after any sequence of successful sets and deletes through the keyring
  backend, a path resolves to what a map from paths to secrets holds after the same operations. (For a
  keyring that keeps what it is given and removes what it is asked to; the index entry is not a path.)
\<close>

theorem keyring_refines_map:
  assumes "keyring_reliable K good" "good (vw_ring w)"
    and "\<forall>op \<in> set ops. allowed_op (\<lambda>p. p \<noteq> vaultMetaKey) (\<lambda>v. valid_text v = v) op"
    and "run_vault (KeyringVaultBackend K service) w ops = Some w'" "q \<noteq> vaultMetaKey"
  shows "lookup_secret (Keyring_Resolve K service) w' q = vault_map (lookup_secret (Keyring_Resolve K service) w) ops q"
proof -
  have r: "vs_Resolve (KeyringVaultBackend K service) = Keyring_Resolve K service" by (simp add: KeyringVaultBackend_def)
  show ?thesis
    using vault_backend.run_refines_map [OF keyring_reliable.keyring_backend [OF assms(1)], of w ops service w'
      "lookup_secret (Keyring_Resolve K service) w"] assms(2-5) by (simp add: r)
qed

theorem keyring_refines_map_witness:
  "lookup_secret (Keyring_Resolve (mem_keyring (\<lambda>_. False)) ''s'')
     (the (run_vault (KeyringVaultBackend (mem_keyring (\<lambda>_. False)) ''s'') (empty_world []) [PutOp () ''p'' ''v'', DelOp () ''q''])) ''p''
   = Some ''v''"
proof -
  let ?ops = "[PutOp () ''p'' ''v'', DelOp () ''q'']"
  obtain w' where w': "run_vault (KeyringVaultBackend (mem_keyring (\<lambda>_. False)) ''s'') (empty_world []) ?ops = Some w'"
    by (simp add: KeyringVaultBackend_def Keyring_Set_def Keyring_Delete_def addToKeyIndex_def saveKeyIndex_def known_keys_def
      loadKeyIndex_def mem_keyring_def empty_world_def Let_def)
  have "valid_text ''v'' = ''v''" by (simp add: valid_text_ascii byte_def)
  with keyring_refines_map [OF mem_ring_ok.keyring_reliable_axioms _ _ w', of "''p''"] w' show ?thesis
    by (simp add: empty_world_def vaultMetaKey_def)
qed

section \<open>The index of the keyring\<close>

text \<open>
  The list of keys is kept: a successful set adds exactly its path to what is listed, provided the
  index could be read before.
\<close>

theorem keyring_list_after_set:
  assumes "keyring_service K good" "good (vw_ring w)" "p \<noteq> vaultMetaKey" "valid_text p = p"
    and "Keyring_List K service w = Inr old" "\<forall>k \<in> set old. valid_text k = k"
    and "Keyring_Set K service io w p v = (w', None)"
  shows "\<exists>keys. Keyring_List K service w' = Inr keys \<and> set keys = insert p (set old)"
proof -
  obtain r where r: "kr_Set K (vw_ring w) service p (StoredNode (valid_text p) (valid_text v)) = (r, None)"
    and a: "addToKeyIndex K service (w\<lparr>vw_ring := r\<rparr>) p = (w', None)"
    using assms(7) by (auto simp: Keyring_Set_def split: prod.splits option.splits)
  let ?w = "w\<lparr>vw_ring := r\<rparr>"
  have g: "good (vw_ring ?w)" using keyring_service.set_good [OF assms(1,2) r] by simp
  have same: "loadKeyIndex K service ?w = loadKeyIndex K service w"
    using keyring_service.set_other [OF assms(1,2) r] assms(3) by (simp add: loadKeyIndex_def)
  then have k: "known_keys K service ?w = old" "Keyring_List K service ?w = Inr old"
    using assms(5) by (auto simp: known_keys_def Keyring_List_def split: sum.splits option.splits kr_error.splits)
  show ?thesis
  proof (cases "p \<in> set old")
    case True
    with a k have "w' = ?w" by (simp add: addToKeyIndex_def Let_def)
    with k True show ?thesis by auto
  next
    case False
    with a k have "saveKeyIndex K service ?w (old @ [p]) = (w', None)" by (simp add: addToKeyIndex_def Let_def)
    with keyring_service.index_saved [OF assms(1) g] have "loadKeyIndex K service w' = Inr (map valid_text (old @ [p]))" by blast
    moreover have "map valid_text (old @ [p]) = old @ [p]" using assms(4,6) by (intro map_idI) auto
    ultimately show ?thesis by (simp add: Keyring_List_def)
  qed
qed

text \<open>But a read of the index that fails is taken for an empty index, and the keys known so far are dropped.\<close>

theorem unreadable_index_is_replaced:
  assumes "keyring_service K good" "good (vw_ring w)" "p \<noteq> vaultMetaKey" "loadKeyIndex K service w = Inl e"
    and "Keyring_Set K service io w p v = (w', None)"
  shows "Keyring_List K service w' = Inr [valid_text p]"
proof -
  obtain r where r: "kr_Set K (vw_ring w) service p (StoredNode (valid_text p) (valid_text v)) = (r, None)"
    and a: "addToKeyIndex K service (w\<lparr>vw_ring := r\<rparr>) p = (w', None)"
    using assms(5) by (auto simp: Keyring_Set_def split: prod.splits option.splits)
  let ?w = "w\<lparr>vw_ring := r\<rparr>"
  have g: "good (vw_ring ?w)" using keyring_service.set_good [OF assms(1,2) r] by simp
  have "loadKeyIndex K service ?w = Inl e"
    using keyring_service.set_other [OF assms(1,2) r] assms(3,4) by (simp add: loadKeyIndex_def)
  then have "saveKeyIndex K service ?w [p] = (w', None)" using a by (simp add: addToKeyIndex_def known_keys_def Let_def)
  with keyring_service.index_saved [OF assms(1) g] show ?thesis by (fastforce simp: Keyring_List_def)
qed

text \<open>Nor is the entry of the index protected: a secret stored under its name replaces the index by its own.\<close>

theorem index_entry_clobbered:
  "\<exists>w'. Keyring_Set (mem_keyring (\<lambda>_. False)) ''s'' () (empty_world [((''s'', vaultMetaKey), KeyIndex [''a'', ''b''])]) vaultMetaKey ''v'' = (w', None) \<and>
    Keyring_List (mem_keyring (\<lambda>_. False)) ''s'' w' = Inr [vaultMetaKey] \<and>
    Keyring_Resolve (mem_keyring (\<lambda>_. False)) ''s'' w' (vaultPrefix @ vaultMetaKey) = Inl (KeyringUnmarshal vaultMetaKey)"
proof -
  have "valid_text vaultMetaKey = vaultMetaKey" by (simp add: valid_text_ascii byte_def vaultMetaKey_def)
  then show ?thesis
    by (simp add: Keyring_Set_def addToKeyIndex_def saveKeyIndex_def known_keys_def loadKeyIndex_def Keyring_List_def
      Keyring_Resolve_def mem_keyring_def empty_world_def)
qed

text \<open>And a delete that the keyring refuses is reported as done: the secret is no longer listed but still resolved.\<close>

theorem refused_delete_succeeds:
  "\<exists>w'. Keyring_Delete (mem_keyring (\<lambda>e. snd e = ''p'')) ''s'' ()
      (empty_world [((''s'', ''p''), StoredNode ''p'' ''v''), ((''s'', vaultMetaKey), KeyIndex [''p''])]) ''p'' = (w', None) \<and>
    Keyring_List (mem_keyring (\<lambda>e. snd e = ''p'')) ''s'' w' = Inr [] \<and>
    Keyring_Resolve (mem_keyring (\<lambda>e. snd e = ''p'')) ''s'' w' (vaultPrefix @ ''p'') = Inr ''v''"
  by (simp add: Keyring_Delete_def saveKeyIndex_def known_keys_def loadKeyIndex_def Keyring_List_def
      Keyring_Resolve_def mem_keyring_def empty_world_def vaultMetaKey_def)

section \<open>Chains\<close>

lemma chain_lookup:
  "lookup_secret (Chain_Resolve ((name, st) # rest)) s p =
     (case lookup_secret (vs_Resolve st) s p of Some v \<Rightarrow> Some v | None \<Rightarrow> lookup_secret (Chain_Resolve rest) s p)"
  by (simp add: lookup_secret_def Chain_Resolve_def split: sum.split)

lemma chain_head [simp]:
  "vs_Set (NewChainVaultBackend ((name, st) # rest)) = vs_Set st"
  "vs_Delete (NewChainVaultBackend ((name, st) # rest)) = vs_Delete st"
  "vs_List (NewChainVaultBackend ((name, st) # rest)) = vs_List st"
  "vs_Resolve (NewChainVaultBackend bs) = Chain_Resolve bs"
  by (simp_all add: NewChainVaultBackend_def Chain_Set_def Chain_Delete_def Chain_List_def fun_eq_iff)

lemma chain_same:
  "(\<And>nm b. (nm, b) \<in> set bs \<Longrightarrow> lookup_secret (vs_Resolve b) s' q = lookup_secret (vs_Resolve b) s q) \<Longrightarrow>
   lookup_secret (Chain_Resolve bs) s' q = lookup_secret (Chain_Resolve bs) s q"
proof (induction bs)
  case (Cons b bs)
  obtain nm st where b: "b = (nm, st)" by (cases b)
  have "lookup_secret (vs_Resolve st) s' q = lookup_secret (vs_Resolve st) s q"
    by (rule Cons.prems [of nm]) (simp add: b)
  moreover have "lookup_secret (Chain_Resolve bs) s' q = lookup_secret (Chain_Resolve bs) s q"
  proof (rule Cons.IH)
    fix nm' b' assume "(nm', b') \<in> set bs"
    then show "lookup_secret (vs_Resolve b') s' q = lookup_secret (vs_Resolve b') s q"
      by (intro Cons.prems [of nm']) simp
  qed
  ultimately show ?case by (simp only: chain_lookup b)
qed (simp add: lookup_secret_def Chain_Resolve_def)

text \<open>
  A chain keeps the write half of the contract when its first store does and the others do not see its
  writes. It does not keep the delete half: \<open>chain_delete_uncovers\<close>.
\<close>

locale vault_chain = vault_writes st ok path secret
  for st :: "('i, 's) VaultStore" and ok path secret +
  fixes name :: string and rest :: "('i, 's) ChainVaultBackend"
  assumes unseen: "vs_Set st io s p v = (s', e) \<Longrightarrow> (nm, b) \<in> set rest \<Longrightarrow>
    lookup_secret (vs_Resolve b) s' q = lookup_secret (vs_Resolve b) s q"

sublocale vault_chain \<subseteq> chained: vault_writes "NewChainVaultBackend ((name, st) # rest)" ok path secret
proof
  fix s s' p q v io
  assume ok: "ok s" "path p" "secret v" and "vs_Set (NewChainVaultBackend ((name, st) # rest)) io s p v = (s', None)"
  then have s': "vs_Set st io s p v = (s', None)" by simp
  show "ok s' \<and> lookup_secret (vs_Resolve (NewChainVaultBackend ((name, st) # rest))) s' p = Some v"
    using put_stored [OF ok s'] by (simp add: chain_lookup)
  assume q: "path q" "q \<noteq> p"
  show "lookup_secret (vs_Resolve (NewChainVaultBackend ((name, st) # rest))) s' q
      = lookup_secret (vs_Resolve (NewChainVaultBackend ((name, st) # rest))) s q"
    unfolding chain_head chain_lookup
    by (simp only: put_others [OF ok q s'] chain_same [of rest s' q s, OF unseen [OF s']])
qed

text \<open>What each backend writes and what each reads.\<close>

lemma env_lookup_depends: "vw_env w' = vw_env w \<Longrightarrow> lookup_secret (vs_Resolve EnvVaultBackend) w' p = lookup_secret (vs_Resolve EnvVaultBackend) w p"
  by (simp add: EnvVaultBackend_def env_lookup)

lemma file_lookup_depends:
  "vw_fb w' = vw_fb w \<Longrightarrow> lookup_secret (vs_Resolve (FileVaultBackend ae)) w' p = lookup_secret (vs_Resolve (FileVaultBackend ae)) w p"
  by (simp add: FileVaultBackend_def file_lookup)

lemma ring_lookup_depends:
  "vw_ring w' = vw_ring w \<Longrightarrow>
   lookup_secret (vs_Resolve (KeyringVaultBackend K service)) w' p = lookup_secret (vs_Resolve (KeyringVaultBackend K service)) w p"
  by (simp add: KeyringVaultBackend_def lookup_secret_def Keyring_Resolve_def)

lemma keyring_set_frame: "Keyring_Set K service io w p v = (w', e) \<Longrightarrow> vw_env w' = vw_env w \<and> vw_fb w' = vw_fb w"
  by (auto simp: Keyring_Set_def addToKeyIndex_def saveKeyIndex_def Let_def split: prod.splits option.splits if_splits)

lemma env_set_frame: "Env_Set io w p v = (w', e) \<Longrightarrow> vw_ring w' = vw_ring w \<and> vw_fb w' = vw_fb w"
  by (auto simp: Env_Set_def split: if_splits)

lemma file_set_frame: "File_Set ae io w p v = (w', e) \<Longrightarrow> vw_env w' = vw_env w \<and> vw_ring w' = vw_ring w"
  by (auto simp: File_Set_def file_save_def set_secrets_def split: option.splits)

interpretation keyring_first: vault_chain "KeyringVaultBackend (mem_keyring denied) service" "\<lambda>w. is_go_map (vw_ring w)"
    "\<lambda>p. p \<noteq> vaultMetaKey" "\<lambda>v. valid_text v = v" "''keyring''" "[(''env'', EnvVaultBackend), (''file'', FileVaultBackend ae)]"
    for denied service ae
  by unfold_locales (auto simp: KeyringVaultBackend_def dest!: keyring_set_frame intro: env_lookup_depends file_lookup_depends)

interpretation file_first: vault_chain "FileVaultBackend ae" "\<lambda>w. is_go_map (fb_secrets (vw_fb w))" "\<lambda>_. True" "\<lambda>_. True"
    "''file''" "[(''keyring'', KeyringVaultBackend K service), (''env'', EnvVaultBackend)]" for ae K service
  by unfold_locales (auto simp: FileVaultBackend_def dest!: file_set_frame intro: env_lookup_depends ring_lookup_depends)

interpretation env_first: vault_chain EnvVaultBackend "\<lambda>w. is_go_map (vw_env w)" env_path "\<lambda>v. v \<noteq> []"
    "''env''" "[(''keyring'', KeyringVaultBackend K service), (''file'', FileVaultBackend ae)]" for ae K service
  by unfold_locales (auto simp: EnvVaultBackend_def dest!: env_set_frame intro: file_lookup_depends ring_lookup_depends)

text \<open>Deleting removes from the first store only: a later store that has the path is uncovered.\<close>

theorem chain_delete_uncovers:
  fixes K :: "'k keyring" and w w' :: "('k, 'c) vault_world" and io :: 'i
  assumes "keyring_reliable K good" "good (vw_ring w)" "p \<noteq> vaultMetaKey"
    and "lookup_secret (vs_Resolve (EnvVaultBackend :: ('i, ('k, 'c) vault_world) VaultStore)) w p = Some v"
    and "Chain_Delete [(''keyring'', KeyringVaultBackend K service), (''env'', EnvVaultBackend)] io w p = (w', None)"
  shows "lookup_secret (Chain_Resolve
    [(''keyring'', KeyringVaultBackend K service), (''env'', EnvVaultBackend :: ('i, ('k, 'c) vault_world) VaultStore)]) w' p = Some v"
proof -
  have d: "vs_Delete (KeyringVaultBackend K service) io w p = (w', None)" using assms(5) by (simp add: Chain_Delete_def)
  then have "vw_env w' = vw_env w" by (auto simp: KeyringVaultBackend_def Keyring_Delete_def saveKeyIndex_def Let_def split: prod.splits)
  with assms(4) have "lookup_secret (vs_Resolve (EnvVaultBackend :: ('i, ('k, 'c) vault_world) VaultStore)) w' p = Some v" using env_lookup_depends by metis
  then show ?thesis
    using vault_backend.del_removed [OF keyring_reliable.keyring_backend [OF assms(1)] assms(2,3) d]
    by (simp add: chain_lookup)
qed

section \<open>From the command line to the server\<close>

lemma parse_provider: "parse_flags stdin reveal (''--provider'' # p # rest) opts = parse_flags stdin reveal rest (opts\<lparr>co_provider := p\<rparr>)"
  by simp

lemma cli_set_runs:
  assumes "cli_Run err_text usage cfg (Some st) io w input [''set'', ''--provider'', provider, ''--stdin''] = (w', 0, out, err)"
    and "provider \<noteq> []"
  shows "vs_Set st io w (''providers/'' @ provider @ ''/default'') (readSingleLine input) = (w', None) \<and> readSingleLine input \<noteq> []"
  using assms
  by (auto simp: cli_Run_def parseSetArgs_def no_options_def Service_Set_def ResolveKey_def Let_def
      split: prod.splits sum.splits if_splits option.splits)

lemma stores_head:
  "vault_stores K service ae filePath openFile (''keyring'' # names) = Inr stores \<Longrightarrow>
   \<exists>rest. stores = (''keyring'', KeyringVaultBackend K service) # rest"
  by (auto simp: result_iff)

text \<open>
  C21. What an operator enters is what the server uses: when \<open>vault-cli set --provider p --stdin\<close> exits with
  zero, a server whose configuration names the keyring first resolves \<open>vault://providers/p/default\<close> to the
  line that was entered, whatever backends follow. (For a keyring that keeps what it is given, and a
  line of valid text.)
\<close>

theorem cli_to_server:
  assumes "keyring_service K good" "good (vw_ring w)" "provider \<noteq> []"
    and "cli_Run err_text usage cli (Some (KeyringVaultBackend K service)) io w input
           [''set'', ''--provider'', provider, ''--stdin''] = (w', 0, out, err)"
    and "valid_text (readSingleLine input) = readSingleLine input"
    and "vc_Backends cfg = ''keyring'' # names" "resolveVault K service ae None cfg openFile = Inr store"
  shows "vs_Resolve store w' (''vault://providers/'' @ provider @ ''/default'') = Inr (readSingleLine input)"
proof -
  let ?p = "''providers/'' @ provider @ ''/default''"
  have s: "vs_Set (KeyringVaultBackend K service) io w ?p (readSingleLine input) = (w', None)"
    using cli_set_runs [OF assms(4,3)] by blast
  have "?p \<noteq> vaultMetaKey" by (simp add: vaultMetaKey_def)
  from vault_writes.put_stored [OF keyring_service.keyring_writes [OF assms(1)] assms(2) this assms(5) s]
  have l: "lookup_secret (Keyring_Resolve K service) w' ?p = Some (readSingleLine input)"
    unfolding KeyringVaultBackend_def VaultStore.select_convs by (rule conjunct2)
  have "vc_Backend cfg = []" using assms(7) by (auto simp: resolveVault_def split: if_splits)
  then obtain stores where st: "vault_stores K service ae (vc_FilePath cfg) openFile (''keyring'' # names) = Inr stores"
    "store = (case stores of [(_, s)] \<Rightarrow> s | _ \<Rightarrow> NewChainVaultBackend stores)"
    using assms(6,7) by (auto simp: resolveVault_def result_iff)
  obtain rest where "stores = (''keyring'', KeyringVaultBackend K service) # rest" using stores_head [OF st(1)] by blast
  with st(2) l have "lookup_secret (vs_Resolve store) w' ?p = Some (readSingleLine input)"
    by (cases rest) (simp_all add: KeyringVaultBackend_def chain_lookup)
  then show ?thesis by (simp add: lookup_Some vaultPrefix_def)
qed

theorem cli_to_server_witness:
  "vs_Resolve (NewChainVaultBackend [(''keyring'', KeyringVaultBackend (mem_keyring (\<lambda>_. False)) ''s''), (''env'', EnvVaultBackend)]
       :: ((string \<times> string \<times> plaintext) disk_io, (_, string \<times> string \<times> plaintext) vault_world) VaultStore)
     (fst (cli_Run (\<lambda>_. []) [] \<lparr>cli_KnownProviders = [], cli_AppName = [], cli_AppVersion = []\<rparr>
        (Some (KeyringVaultBackend (mem_keyring (\<lambda>_. False)) ''s'')) (good_disk :: (string \<times> string \<times> plaintext) disk_io) (empty_world []) ''sk''
        [''set'', ''--provider'', ''x'', ''--stdin''])) ''vault://providers/x/default'' = Inr ''sk''"
proof -
  have "TrimSpace ''sk'' = ''sk''" by (rule TrimSpace_graph) (simp_all add: graph_char_def byte_def)
  then have r: "readSingleLine ''sk'' = ''sk''" by (simp add: readSingleLine_def)
  have v: "valid_text ''sk'' = ''sk''" by (simp add: valid_text_ascii byte_def)
  define out where "out = cli_Run (\<lambda>_. []) [] \<lparr>cli_KnownProviders = [], cli_AppName = [], cli_AppVersion = []\<rparr>
        (Some (KeyringVaultBackend (mem_keyring (\<lambda>_. False)) ''s'')) (good_disk :: (string \<times> string \<times> plaintext) disk_io) (empty_world []) ''sk''
        [''set'', ''--provider'', ''x'', ''--stdin'']"
  have "fst (snd out) = 0"
    by (simp add: out_def cli_Run_def parseSetArgs_def no_options_def r Service_Set_def ResolveKey_def KeyringVaultBackend_def
      Keyring_Set_def addToKeyIndex_def saveKeyIndex_def mem_keyring_def empty_world_def known_keys_def loadKeyIndex_def Let_def)
  then have "out = (fst out, 0, fst (snd (snd out)), snd (snd (snd out)))" by (cases out) auto
  from cli_to_server [OF mem_ring.keyring_service_axioms _ _ this [unfolded out_def], of "\<lparr>vc_Backend = [], vc_Backends = [''keyring'', ''env''], vc_FilePath = [], AESEnabled = False\<rparr>" "[''env'']" plain_aead False]
  show ?thesis by (simp add: r v empty_world_def resolveVault_def out_def)
qed

end
