(* ===== verification/Task_Log.thy ===== *)
theory Task_Log
  imports Tern_Prelude
begin

text \<open>
  The task log (\<open>tasklog/\<close>): entries of a run, the callback that sees each new one, and the stack of
  parent log ids. Entries are pointers, and a clone copies the pointers, so the entries live in a heap and
  a history is a list of addresses.
\<close>

section \<open>Entries\<close>

abbreviation MovementEntryType :: string where "MovementEntryType \<equiv> ''MOVEMENT''"
abbreviation TerminatedEntryType :: string where "TerminatedEntryType \<equiv> ''TERMINATED''"
abbreviation ErrorEntryType :: string where "ErrorEntryType \<equiv> ''ERROR''"
abbreviation AgentLogEntryType :: string where "AgentLogEntryType \<equiv> ''AGENT_LOG''"

record BaseEntry =
  be_ID :: string
  be_Time :: go_time
  be_EntryType :: string

record AgentLogEntry = BaseEntry +
  al_Body :: string
  al_Kind :: string
  al_Location :: string
  al_ParentLogID :: string
  al_TaskNodeID :: string
  al_AgentID :: string
  al_RunID :: string
  al_IsComplete :: bool
  al_Phase :: string

record MovementEntry = BaseEntry +
  mo_AgentID :: string
  mo_NodeID :: string
  mo_FromNodeID :: string
  mo_Body :: string

record TerminatedEntry = BaseEntry +
  te_AgentID :: string
  te_Reason :: string
  te_Body :: string

record ErrorEntry = BaseEntry +
  ee_AgentID :: string
  ee_Message :: string
  ee_Body :: string

text \<open>The types that implement the interface \<open>Entry\<close>.\<close>

datatype log_entry = AgentLog AgentLogEntry | Movement MovementEntry | Terminated TerminatedEntry | ErrorLog ErrorEntry

fun Entry_Type :: "log_entry \<Rightarrow> string" where
  "Entry_Type (AgentLog e) = be_EntryType e"
| "Entry_Type (Movement e) = be_EntryType e"
| "Entry_Type (Terminated e) = be_EntryType e"
| "Entry_Type (ErrorLog e) = be_EntryType e"

fun Entry_Timestamp :: "log_entry \<Rightarrow> go_time" where
  "Entry_Timestamp (AgentLog e) = be_Time e"
| "Entry_Timestamp (Movement e) = be_Time e"
| "Entry_Timestamp (Terminated e) = be_Time e"
| "Entry_Timestamp (ErrorLog e) = be_Time e"

definition FormatMovementBody :: "string \<Rightarrow> string" where
  "FormatMovementBody nodeID = ''Agent moved to node '' @ [CHR 0x27] @ nodeID @ [CHR 0x27]"

definition NewMovementEntry :: "string \<Rightarrow> go_time \<Rightarrow> string \<Rightarrow> string \<Rightarrow> log_entry" where
  "NewMovementEntry uuid now agentID nodeID = Movement
     \<lparr>be_ID = uuid, be_Time = now, be_EntryType = MovementEntryType, mo_AgentID = agentID, mo_NodeID = nodeID,
      mo_FromNodeID = [], mo_Body = FormatMovementBody nodeID\<rparr>"

definition FormatTerminatedBody :: "string \<Rightarrow> string" where
  "FormatTerminatedBody reason = (if reason = [] then ''Agent terminated'' else ''Agent terminated: '' @ reason)"

definition NewTerminatedEntry :: "string \<Rightarrow> go_time \<Rightarrow> string \<Rightarrow> string \<Rightarrow> log_entry" where
  "NewTerminatedEntry uuid now agentID reason = Terminated
     \<lparr>be_ID = uuid, be_Time = now, be_EntryType = TerminatedEntryType, te_AgentID = agentID, te_Reason = reason,
      te_Body = FormatTerminatedBody reason\<rparr>"

definition NewErrorEntry :: "string \<Rightarrow> go_time \<Rightarrow> string \<Rightarrow> string \<Rightarrow> log_entry" where
  "NewErrorEntry uuid now agentID msg = ErrorLog
     \<lparr>be_ID = uuid, be_Time = now, be_EntryType = ErrorEntryType, ee_AgentID = agentID, ee_Message = msg, ee_Body = msg\<rparr>"

definition WithKind :: "string \<Rightarrow> AgentLogEntry \<Rightarrow> AgentLogEntry" where "WithKind kind e = e\<lparr>al_Kind := kind\<rparr>"
definition WithLocation :: "string \<Rightarrow> AgentLogEntry \<Rightarrow> AgentLogEntry" where "WithLocation l e = e\<lparr>al_Location := l\<rparr>"
definition WithParentLogID :: "string \<Rightarrow> AgentLogEntry \<Rightarrow> AgentLogEntry" where "WithParentLogID p e = e\<lparr>al_ParentLogID := p\<rparr>"
definition WithTaskNodeID :: "string \<Rightarrow> AgentLogEntry \<Rightarrow> AgentLogEntry" where "WithTaskNodeID n e = e\<lparr>al_TaskNodeID := n\<rparr>"

definition agent_log :: "string \<Rightarrow> go_time \<Rightarrow> string \<Rightarrow> AgentLogEntry" where
  "agent_log logID now agentID =
     \<lparr>be_ID = logID, be_Time = now, be_EntryType = AgentLogEntryType, al_Body = [], al_Kind = [], al_Location = [], al_ParentLogID = [],
      al_TaskNodeID = [], al_AgentID = agentID, al_RunID = [], al_IsComplete = False, al_Phase = []\<rparr>"

definition NewAgentLogEntry :: "string \<Rightarrow> go_time \<Rightarrow> string \<Rightarrow> (AgentLogEntry \<Rightarrow> AgentLogEntry) list \<Rightarrow> log_entry" where
  "NewAgentLogEntry uuid now agentID opts =
     AgentLog (foldl (\<lambda>e opt. opt e) ((agent_log uuid now agentID)\<lparr>al_Kind := ''text'', al_Phase := ''begin''\<rparr>) opts)"

definition NewAgentLogSendEntry :: "go_time \<Rightarrow> string \<Rightarrow> string \<Rightarrow> string \<Rightarrow> log_entry" where
  "NewAgentLogSendEntry now logID agentID body = AgentLog ((agent_log logID now agentID)\<lparr>al_Body := body, al_Phase := ''send''\<rparr>)"

definition NewAgentLogEndEntry :: "go_time \<Rightarrow> string \<Rightarrow> string \<Rightarrow> log_entry" where
  "NewAgentLogEndEntry now logID agentID = AgentLog ((agent_log logID now agentID)\<lparr>al_IsComplete := True, al_Phase := ''end''\<rparr>)"

section \<open>The log\<close>

text \<open>
  The heap holds the entries by address. The callback acts on the state \<open>'w\<close> of the one who registered it; it
  runs while the log is locked.
\<close>

type_synonym entry_heap = "log_entry list"

record 'w TaskLog =
  tl_History :: "nat list"
  tl_onEntry :: "(log_entry \<Rightarrow> 'w \<Rightarrow> 'w) option"

definition NewTaskLog :: "'w TaskLog" where
  "NewTaskLog = \<lparr>tl_History = [], tl_onEntry = None\<rparr>"

definition SetOnEntry :: "'w TaskLog \<Rightarrow> (log_entry \<Rightarrow> 'w \<Rightarrow> 'w) option \<Rightarrow> 'w TaskLog" where
  "SetOnEntry l f =
     (case f of
        None \<Rightarrow> l
      | Some f \<Rightarrow> (case tl_onEntry l of
           None \<Rightarrow> l\<lparr>tl_onEntry := Some f\<rparr>
         | Some prev \<Rightarrow> l\<lparr>tl_onEntry := Some (\<lambda>e w. f e (prev e w))\<rparr>))"

definition closed_note :: string where "closed_note = ''[auto-closed: abnormal termination]''"

fun auto_close :: "log_entry \<Rightarrow> log_entry" where
  "auto_close (AgentLog e) =
     AgentLog (if be_EntryType e = AgentLogEntryType \<and> \<not> al_IsComplete e
       then e\<lparr>al_IsComplete := True, al_Body := (if al_Body e \<noteq> [] then al_Body e @ [CHR 0x0A] @ closed_note else closed_note)\<rparr>
       else e)"
| "auto_close e = e"

definition close_all :: "entry_heap \<Rightarrow> nat list \<Rightarrow> entry_heap" where
  "close_all h addrs = foldl (\<lambda>h a. h[a := auto_close (h ! a)]) h addrs"

text \<open>\<open>Add\<close> of a pointer, \<open>None\<close> for \<open>nil\<close>.\<close>

definition TaskLog_Add :: "entry_heap \<Rightarrow> 'w TaskLog \<Rightarrow> 'w \<Rightarrow> nat option \<Rightarrow> entry_heap \<times> 'w TaskLog \<times> 'w" where
  "TaskLog_Add h l w p =
     (case p of
        None \<Rightarrow> (h, l, w)
      | Some a \<Rightarrow>
          (let h = (if Entry_Type (h ! a) = TerminatedEntryType then close_all h (tl_History l) else h);
               l = l\<lparr>tl_History := tl_History l @ [a]\<rparr>
           in (h, l, case tl_onEntry l of None \<Rightarrow> w | Some f \<Rightarrow> f (h ! a) w)))"

definition Entries :: "'w TaskLog \<Rightarrow> nat list" where "Entries l = tl_History l"

definition Clone :: "'w TaskLog \<Rightarrow> 'w TaskLog" where
  "Clone l = NewTaskLog\<lparr>tl_History := tl_History l\<rparr>"

section \<open>The stack of log ids\<close>

type_synonym LogStack = "string list"

definition CurrentParentID :: "LogStack \<Rightarrow> string" where
  "CurrentParentID s = (if s = [] then [] else last s)"

definition Push :: "LogStack \<Rightarrow> string \<Rightarrow> LogStack" where
  "Push s logID = s @ [logID]"

definition Pop :: "LogStack \<Rightarrow> LogStack \<times> string" where
  "Pop s = (if s = [] then (s, []) else (butlast s, last s))"

lemma Pop_Push: "Pop (Push s logID) = (s, logID) \<and> CurrentParentID (Push s logID) = logID"
  by (simp add: Pop_def Push_def CurrentParentID_def)

section \<open>Terminated logs are closed\<close>

definition open_entry :: "log_entry \<Rightarrow> bool" where
  "open_entry e \<longleftrightarrow> (case e of AgentLog a \<Rightarrow> be_EntryType a = AgentLogEntryType \<and> \<not> al_IsComplete a | _ \<Rightarrow> False)"

lemma open_auto_close [simp]: "\<not> open_entry (auto_close e)"
  by (cases e) (simp_all add: open_entry_def)

lemma auto_close_closed: "\<not> open_entry e \<Longrightarrow> auto_close e = e"
  by (cases e) (auto simp: open_entry_def)

lemma auto_close_auto_close [simp]: "auto_close (auto_close e) = auto_close e"
  by (rule auto_close_closed) simp

lemma close_all_nth:
  "a < length h \<Longrightarrow> close_all h addrs ! a = (if a \<in> set addrs then auto_close (h ! a) else h ! a) \<and>
     length (close_all h addrs) = length h"
proof (induction addrs rule: rev_induct)
  case (snoc x xs)
  have l: "length (close_all h xs) = length h" using snoc by simp
  have e: "close_all h (xs @ [x]) = (close_all h xs)[x := auto_close (close_all h xs ! x)]" by (simp add: close_all_def)
  show ?case using snoc l by (cases "a = x") (auto simp: e)
qed (simp add: close_all_def)

text \<open>
  A terminated run leaves no open entry: adding a termination closes exactly the open agent entries of
  the history, each keeping its text before the note, leaves every other entry of the heap as it was, and
  hands the log unchanged but for the new entry to the callback.
\<close>

theorem terminated_closes:
  assumes "a < length h" "\<forall>x \<in> set (tl_History l). x < length h \<and> x \<noteq> a" "Entry_Type (h ! a) = TerminatedEntryType"
    and "TaskLog_Add h l w (Some a) = (h', l', w')"
  shows "tl_History l' = tl_History l @ [a] \<and> h' ! a = h ! a \<and>
    (\<forall>x < length h. h' ! x = (if x \<in> set (tl_History l) then auto_close (h ! x) else h ! x)) \<and>
    (\<forall>x \<in> set (tl_History l). \<not> open_entry (h' ! x)) \<and>
    w' = (case tl_onEntry l of None \<Rightarrow> w | Some f \<Rightarrow> f (h ! a) w)"
proof -
  have h': "h' = close_all h (tl_History l)" and l': "l' = l\<lparr>tl_History := tl_History l @ [a]\<rparr>"
    and w': "w' = (case tl_onEntry l of None \<Rightarrow> w | Some f \<Rightarrow> f (h' ! a) w)"
    using assms(3,4) by (auto simp: TaskLog_Add_def Let_def)
  have n: "h' ! x = (if x \<in> set (tl_History l) then auto_close (h ! x) else h ! x)" if "x < length h" for x
    using close_all_nth [OF that, of "tl_History l"] h' by simp
  have a: "h' ! a = h ! a" using n [OF assms(1)] assms(2) by auto
  have "\<forall>x \<in> set (tl_History l). \<not> open_entry (h' ! x)" using n assms(2) by simp
  moreover have "w' = (case tl_onEntry l of None \<Rightarrow> w | Some f \<Rightarrow> f (h ! a) w)" using w' unfolding a .
  ultimately show ?thesis using n a l' by simp
qed

definition sample_entries :: entry_heap where
  "sample_entries = [NewAgentLogSendEntry 1 ''l'' ''a'' ''text'', NewAgentLogEndEntry 2 ''l'' ''a'', NewTerminatedEntry ''t'' 3 ''a'' []]"

theorem terminated_closes_witness:
  "\<not> open_entry (fst (TaskLog_Add sample_entries (NewTaskLog\<lparr>tl_History := [0, 1]\<rparr>) () (Some 2)) ! 0)"
proof -
  let ?a = "TaskLog_Add sample_entries (NewTaskLog\<lparr>tl_History := [0, 1]\<rparr>) () (Some 2)"
  obtain h' l' w' where s: "?a = (h', l', w')" by (cases ?a)
  have t: "Entry_Type (sample_entries ! 2) = TerminatedEntryType" by code_simp
  have "(2::nat) < length sample_entries" by code_simp
  moreover have "\<forall>x \<in> set (tl_History (NewTaskLog\<lparr>tl_History := [0, 1]\<rparr>)). x < length sample_entries \<and> x \<noteq> 2"
    by (simp add: sample_entries_def)
  ultimately show ?thesis using terminated_closes [OF _ _ t s] s by simp
qed

text \<open>
  A clone shares the entries: a termination added to one log closes the entries of the other one too,
  whose own history has no termination.
\<close>

lemma clone_shares_entries:
  assumes "a < length h" "\<forall>x \<in> set (tl_History l). x < length h" "Entry_Type (h ! a) = TerminatedEntryType"
  shows "\<forall>x \<in> set (Entries (Clone l)). \<not> open_entry (fst (TaskLog_Add h l w (Some a)) ! x)"
  using assms close_all_nth by (auto simp: TaskLog_Add_def Let_def Entries_def Clone_def)

text \<open>Callbacks run in the order of their registration, each on what the one before left.\<close>

lemma SetOnEntry_order:
  "tl_onEntry (foldl (\<lambda>l f. SetOnEntry l (Some f)) (NewTaskLog\<lparr>tl_onEntry := Some g\<rparr>) fs) =
     Some (\<lambda>e w. foldl (\<lambda>w f. f e w) w (g # fs))"
proof (induction fs arbitrary: g)
  case (Cons f fs)
  from Cons [of "\<lambda>e w. f e (g e w)"] show ?case by (simp add: SetOnEntry_def NewTaskLog_def)
qed simp

end
