(* ===== verification/Guardrail.thy ===== *)
theory Guardrail
  imports Session_History
begin

text \<open>
  The guard rails of the built-in agent's tools: confinement of paths to the working directory,
  blocked commands and the deletion check (\<open>wayfinder/guardrail.go\<close>), with the tracker of files and
  processes the agent created (\<open>wayfinder/file_tracker.go\<close>). Package \<open>path/filepath\<close> is modelled for
  Unix paths on their components.
\<close>

section \<open>Package path/filepath\<close>

text \<open>A cleaned path is its root flag and its components.\<close>

type_synonym path = "bool \<times> string list"

definition IsAbs :: "string \<Rightarrow> bool" where
  "IsAbs s = HasPrefix s ''/''"

fun clean_comps :: "bool \<Rightarrow> string list \<Rightarrow> string list \<Rightarrow> string list" where
  "clean_comps rooted out [] = rev out"
| "clean_comps rooted out (c # cs) =
     (if c = [] \<or> c = ''.'' then clean_comps rooted out cs
      else if c = ''..'' then
        (case out of
           [] \<Rightarrow> clean_comps rooted (if rooted then [] else [c]) cs
         | o1 # os \<Rightarrow> if o1 = ''..'' then clean_comps rooted (c # out) cs else clean_comps rooted os cs)
      else clean_comps rooted (c # out) cs)"

definition clean_path :: "string \<Rightarrow> path" where
  "clean_path s = (IsAbs s, clean_comps (IsAbs s) [] (SplitByte (CHR ''/'') s))"

definition show_path :: "path \<Rightarrow> string" where
  "show_path p =
     (if fst p then CHR ''/'' # Join (snd p) ''/''
      else if snd p = [] then ''.'' else Join (snd p) ''/'')"

definition filepath_Clean :: "string \<Rightarrow> string" where
  "filepath_Clean s = show_path (clean_path s)"

definition filepath_Join :: "string \<Rightarrow> string \<Rightarrow> string" where
  "filepath_Join a b =
     (let es = filter (\<lambda>e. e \<noteq> []) [a, b] in if es = [] then [] else filepath_Clean (Join es ''/''))"

fun strip_common :: "string list \<Rightarrow> string list \<Rightarrow> string list \<times> string list" where
  "strip_common (b # bs) (t # ts) = (if b = t then strip_common bs ts else (b # bs, t # ts))"
| "strip_common bs ts = (bs, ts)"

text \<open>\<open>None\<close>: the target cannot be made relative to the base.\<close>

definition filepath_Rel :: "string \<Rightarrow> string \<Rightarrow> string option" where
  "filepath_Rel basepath targpath =
     (let base = clean_path basepath; targ = clean_path targpath
      in if base = targ then Some ''.''
         else if fst base \<noteq> fst targ then None
         else case strip_common (snd base) (snd targ) of
                (bs, ts) \<Rightarrow>
                  if bs \<noteq> [] \<and> hd bs = ''..'' then None
                  else Some (Join (replicate (length bs) ''..'' @ ts) ''/''))"

section \<open>The guards\<close>

datatype guard_error = PathValidationFailed | OutsideWorkDir string string | PermissionDenied string

definition ValidatePath :: "string \<Rightarrow> string \<Rightarrow> (guard_error, string) result" where
  "ValidatePath workDir rawPath =
     (let absPath = (if IsAbs rawPath then filepath_Clean rawPath
                     else filepath_Clean (filepath_Join workDir rawPath))
      in case filepath_Rel workDir absPath of
           None \<Rightarrow> Inl PathValidationFailed
         | Some relPath \<Rightarrow>
             if HasPrefix relPath ''..'' then Inl (OutsideWorkDir rawPath workDir) else Inr absPath)"

definition blockedCommandPrefixes :: "string list" where
  "blockedCommandPrefixes = [''sudo'', ''su '', ''curl '', ''wget '', ''nc '', ''ncat '', ''dd '', ''mkfs'',
     ''shutdown'', ''reboot'', ''halt'', ''poweroff'']"

definition IsBlockedCommand :: "string \<Rightarrow> bool" where
  "IsBlockedCommand commandLine = list_ex (HasPrefix (TrimSpace commandLine)) blockedCommandPrefixes"

record ft_file =
  ff_Path :: string
  ff_CreatedBy :: string

record ft_process =
  fp_PID :: int
  fp_CommandLine :: string
  fp_SessionID :: string

record FileTracker =
  ft_files :: "(string \<times> ft_file) list"
  ft_processes :: "(int \<times> ft_process) list"

definition NewFileTracker :: FileTracker where
  "NewFileTracker = \<lparr>ft_files = [], ft_processes = []\<rparr>"

definition TrackFileWithSession :: "FileTracker \<Rightarrow> string \<Rightarrow> string \<Rightarrow> FileTracker" where
  "TrackFileWithSession ft path sessionID =
     ft\<lparr>ft_files := massign path \<lparr>ff_Path = path, ff_CreatedBy = sessionID\<rparr> (ft_files ft)\<rparr>"

definition TrackFile :: "FileTracker \<Rightarrow> string \<Rightarrow> FileTracker" where
  "TrackFile ft path = ft\<lparr>ft_files := massign path \<lparr>ff_Path = path, ff_CreatedBy = []\<rparr> (ft_files ft)\<rparr>"

definition IsTracked :: "FileTracker \<Rightarrow> string \<Rightarrow> bool" where
  "IsTracked ft path \<longleftrightarrow> map_of (ft_files ft) path \<noteq> None"

definition UntrackFile :: "FileTracker \<Rightarrow> string \<Rightarrow> FileTracker" where
  "UntrackFile ft path = ft\<lparr>ft_files := mdelete path (ft_files ft)\<rparr>"

definition TrackProcess :: "FileTracker \<Rightarrow> int \<Rightarrow> string \<Rightarrow> FileTracker" where
  "TrackProcess ft pid commandLine =
     ft\<lparr>ft_processes := massign pid \<lparr>fp_PID = pid, fp_CommandLine = commandLine, fp_SessionID = []\<rparr> (ft_processes ft)\<rparr>"

definition UntrackProcess :: "FileTracker \<Rightarrow> int \<Rightarrow> FileTracker" where
  "UntrackProcess ft pid = ft\<lparr>ft_processes := mdelete pid (ft_processes ft)\<rparr>"

definition IsProcessTracked :: "FileTracker \<Rightarrow> int \<Rightarrow> bool" where
  "IsProcessTracked ft pid \<longleftrightarrow> map_of (ft_processes ft) pid \<noteq> None"

definition TrackedFilesSnapshot :: "go_time \<Rightarrow> FileTracker \<Rightarrow> TrackedFile list" where
  "TrackedFilesSnapshot now ft =
     map (\<lambda>(p, f). \<lparr>tf_Path = ff_Path f, tf_CreatedAt = now, tf_IsDir = False\<rparr>) (ft_files ft)"

definition TrackedProcessesSnapshot :: "go_time \<Rightarrow> FileTracker \<Rightarrow> TrackedProcess list" where
  "TrackedProcessesSnapshot now ft =
     map (\<lambda>(k, p). \<lparr>tp_PID = fp_PID p, tp_Command = fp_CommandLine p, tp_Args = [], tp_StartedAt = now\<rparr>)
       (ft_processes ft)"

text \<open>A compiled pattern is its matching predicate; \<open>exists\<close> is whether \<open>os.Stat\<close> succeeds.\<close>

definition MatchesAllowedPattern :: "string \<Rightarrow> (string \<Rightarrow> bool) list \<Rightarrow> bool" where
  "MatchesAllowedPattern absPath patterns = list_ex (\<lambda>p. p absPath) patterns"

definition CompileAllowedPatterns ::
  "(string \<Rightarrow> (string \<Rightarrow> bool) option) \<Rightarrow> string list \<Rightarrow> (string \<Rightarrow> bool) list" where
  "CompileAllowedPatterns compile patterns = List.map_filter compile patterns"

definition CheckFileOwnership ::
  "(string \<Rightarrow> bool) \<Rightarrow> string \<Rightarrow> FileTracker option \<Rightarrow> (string \<Rightarrow> bool) list \<Rightarrow> guard_error option" where
  "CheckFileOwnership exists absPath tracker compiledPatterns =
     (if (case tracker of None \<Rightarrow> False | Some ft \<Rightarrow> IsTracked ft absPath) then None
      else if MatchesAllowedPattern absPath compiledPatterns then None
      else if exists absPath then None
      else Some (PermissionDenied absPath))"

section \<open>Cleaned paths\<close>

definition real_comp :: "string \<Rightarrow> bool" where
  "real_comp c \<longleftrightarrow> c \<noteq> [] \<and> c \<noteq> ''.'' \<and> CHR ''/'' \<notin> set c"

definition plain_comp :: "string \<Rightarrow> bool" where
  "plain_comp c \<longleftrightarrow> real_comp c \<and> c \<noteq> ''..''"

lemma clean_comps_plain:
  assumes "list_all plain_comp out" "list_all (\<lambda>c. CHR ''/'' \<notin> set c) cs"
  shows "list_all plain_comp (clean_comps True out cs)"
  using assms
proof (induction True out cs rule: clean_comps.induct)
  case (2 out c cs)
  then show ?case by (cases out) (auto simp: plain_comp_def real_comp_def)
qed simp

lemma clean_comps_id: "list_all plain_comp cs \<Longrightarrow> clean_comps r out cs = rev out @ cs"
  by (induction cs arbitrary: out) (auto simp: plain_comp_def real_comp_def)

lemma SplitByte_no_sep: "w \<in> set (SplitByte c s) \<Longrightarrow> c \<notin> set w"
proof (induction s arbitrary: w)
  case (Cons x s)
  then show ?case by (cases "SplitByte c s") (auto split: if_splits)
qed simp

lemma clean_path_plain: "IsAbs s \<Longrightarrow> list_all plain_comp (snd (clean_path s))"
  using clean_comps_plain [of "[]" "SplitByte (CHR ''/'') s"] SplitByte_no_sep
  by (fastforce simp: clean_path_def list_all_iff)

lemma SplitByte_Join:
  "list_all (\<lambda>w. c \<notin> set w) ws \<Longrightarrow> ws \<noteq> [] \<Longrightarrow> SplitByte c (Join ws [c]) = ws"
proof (induction ws "[c]" rule: Join.induct)
  case (3 x y xs)
  then have "SplitByte c (Join (y # xs) [c]) = y # xs" by simp
  with 3 show ?case using SplitByte_append [of c x "Join (y # xs) [c]"] SplitByte_none [of c x] by simp
qed (simp_all add: SplitByte_none)

lemma clean_path_show:
  assumes "list_all plain_comp cs"
  shows "clean_path (show_path (True, cs)) = (True, cs)"
proof -
  have "SplitByte (CHR ''/'') (show_path (True, cs)) = [] # (if cs = [] then [[]] else cs)"
    using assms SplitByte_Join [of "CHR ''/''" cs]
    by (auto simp: show_path_def list_all_iff plain_comp_def real_comp_def)
  then have "clean_comps True [] (SplitByte (CHR ''/'') (show_path (True, cs))) = cs"
    using clean_comps_id [OF assms, of True "[]"] by auto
  moreover have "IsAbs (show_path (True, cs))" by (simp add: IsAbs_def show_path_def)
  ultimately show ?thesis by (simp add: clean_path_def)
qed

lemma clean_path_Clean:
  assumes "IsAbs s"
  shows "clean_path (filepath_Clean s) = clean_path s"
proof -
  have "clean_path s = (True, snd (clean_path s))" using assms by (simp add: clean_path_def)
  then show ?thesis using clean_path_show [OF clean_path_plain [OF assms]] by (simp add: filepath_Clean_def)
qed

lemma strip_common_prefix:
  "strip_common bs ts = (bs', ts') \<Longrightarrow> \<exists>p. bs = p @ bs' \<and> ts = p @ ts'"
proof (induction bs ts rule: strip_common.induct)
  case (1 b bs t ts)
  then show ?case by (cases "b = t") (auto intro: exI [of _ "b # _"])
qed auto

section \<open>Confinement\<close>

text \<open>The directory of the components \<open>ds\<close> contains the path \<open>s\<close>.\<close>

definition inside :: "string \<Rightarrow> string \<Rightarrow> bool" where
  "inside workDir s \<longleftrightarrow> IsAbs s \<and> prefix (snd (clean_path workDir)) (snd (clean_path s))"

lemma HasPrefix_Join_dots: "0 < n \<Longrightarrow> HasPrefix (Join (replicate n ''..'' @ ts) ''/'') ''..''"
  by (cases n; cases "replicate (n - 1) ''..'' @ ts") auto

lemma Join_abs: "IsAbs a \<Longrightarrow> b \<noteq> [] \<Longrightarrow> IsAbs (Join [a, b] ''/'')"
  by (cases a) (auto simp: IsAbs_def)

lemma IsAbs_Clean: "IsAbs s \<Longrightarrow> IsAbs (filepath_Clean s)"
  by (simp add: filepath_Clean_def show_path_def clean_path_def) (simp add: IsAbs_def)

lemma Clean_Clean: "IsAbs s \<Longrightarrow> filepath_Clean (filepath_Clean s) = filepath_Clean s"
  using clean_path_Clean [of s] by (simp only: filepath_Clean_def)

lemma Clean_Join: "IsAbs wd \<Longrightarrow> filepath_Clean (filepath_Join wd p) = filepath_Join wd p \<and> IsAbs (filepath_Join wd p)"
  using Join_abs [of wd p] Clean_Clean IsAbs_Clean by (auto simp: filepath_Join_def Let_def IsAbs_def)

lemma IsAbs_target:
  "IsAbs workDir \<Longrightarrow> IsAbs (if IsAbs raw then filepath_Clean raw else filepath_Clean (filepath_Join workDir raw))"
  using IsAbs_Clean Clean_Join by simp

lemma ValidatePath_inside:
  assumes "IsAbs workDir" "ValidatePath workDir raw = Inr p"
  shows "inside workDir p"
proof -
  let ?p = "if IsAbs raw then filepath_Clean raw else filepath_Clean (filepath_Join workDir raw)"
  let ?b = "snd (clean_path workDir)" and ?t = "snd (clean_path ?p)"
  from assms(2) obtain rel where p: "p = ?p" and rel: "filepath_Rel workDir ?p = Some rel" "\<not> HasPrefix rel ''..''"
    by (auto simp: ValidatePath_def Let_def split: option.splits if_splits)
  have abs: "IsAbs ?p" by (rule IsAbs_target [OF assms(1)])
  have "prefix ?b ?t"
  proof (cases "clean_path workDir = clean_path ?p")
    case False
    obtain bs ts where s: "strip_common ?b ?t = (bs, ts)" by (cases "strip_common ?b ?t")
    have "rel = Join (replicate (length bs) ''..'' @ ts) ''/''"
      using rel(1) False s assms(1) abs
      by (auto simp: filepath_Rel_def Let_def clean_path_def split: if_splits)
    with rel(2) HasPrefix_Join_dots [of "length bs" ts] have "bs = []" by auto
    with strip_common_prefix [OF s] show ?thesis by auto
  qed simp
  with abs p show ?thesis by (simp add: inside_def)
qed

text \<open>
  Confinement: with an absolute working directory, every path the guard accepts, relative or
  absolute and with any number of \<open>.\<close> and \<open>..\<close> components, is an absolute path whose components
  begin with those of the working directory.
\<close>

theorem ValidatePath_confined:
  assumes "IsAbs workDir" "ValidatePath workDir raw = Inr p"
  shows "inside workDir p"
  using assms by (rule ValidatePath_inside)

theorem ValidatePath_confined_witness: "inside ''/w'' ''/w/b''"
proof -
  have "ValidatePath ''/w'' ''a/../b'' = Inr ''/w/b''"
    by (simp add: ValidatePath_def IsAbs_def filepath_Join_def filepath_Clean_def clean_path_def show_path_def
        filepath_Rel_def Let_def)
  then show ?thesis by (rule ValidatePath_confined [rotated]) (simp add: IsAbs_def)
qed

text \<open>
  The guard is stricter than confinement: it compares the text of the relative path with two
  dots, so it also rejects files of the working directory whose name merely begins with them.
\<close>

theorem ValidatePath_rejects_dotdot_name:
  "inside ''/w'' ''/w/..config'' \<and> ValidatePath ''/w'' ''..config'' = Inl (OutsideWorkDir ''..config'' ''/w'')"
  by (simp add: inside_def ValidatePath_def IsAbs_def filepath_Join_def filepath_Clean_def clean_path_def
      show_path_def filepath_Rel_def Let_def)

section \<open>Deletion and commands\<close>

text \<open>
  The deletion check says more than it does: it is documented to allow a file that the current
  user owns, but it allows every file that exists, so it only ever refuses files that are not there.
\<close>

theorem CheckFileOwnership_allows_existing:
  "CheckFileOwnership exists absPath tracker patterns \<noteq> None \<longleftrightarrow>
   \<not> exists absPath \<and> \<not> MatchesAllowedPattern absPath patterns \<and>
   (case tracker of None \<Rightarrow> True | Some ft \<Rightarrow> \<not> IsTracked ft absPath)"
  by (auto simp: CheckFileOwnership_def split: option.split)

text \<open>
  The tracker remembers exactly what was tracked and not untracked, path by path, and its
  snapshot lists every tracked file once.
\<close>

theorem FileTracker_spec:
  assumes "is_go_map (ft_files ft)" "\<forall>(p, f) \<in> set (ft_files ft). ff_Path f = p"
  shows "IsTracked (TrackFile ft p) q = (q = p \<or> IsTracked ft q) \<and>
    IsTracked (UntrackFile ft p) q = (q \<noteq> p \<and> IsTracked ft q) \<and>
    distinct (map tf_Path (TrackedFilesSnapshot now ft)) \<and>
    (p \<in> tf_Path ` set (TrackedFilesSnapshot now ft) \<longleftrightarrow> IsTracked ft p)"
proof -
  have names: "map tf_Path (TrackedFilesSnapshot now ft) = map fst (ft_files ft)"
    using assms(2) by (auto simp: TrackedFilesSnapshot_def)
  then have "tf_Path ` set (TrackedFilesSnapshot now ft) = mkeys (ft_files ft)" by (metis list.set_map)
  moreover have "distinct (map tf_Path (TrackedFilesSnapshot now ft))"
    using names assms(1) by (simp add: is_go_map_def)
  ultimately show ?thesis
    using assms(1) by (auto simp: IsTracked_def TrackFile_def UntrackFile_def mkeys_map_of)
qed

theorem FileTracker_spec_witness: "\<not> IsTracked (UntrackFile (TrackFile NewFileTracker ''/a'') ''/a'') ''/a''"
proof -
  have "is_go_map (ft_files (TrackFile NewFileTracker ''/a''))"
    "\<forall>(p, f) \<in> set (ft_files (TrackFile NewFileTracker ''/a'')). ff_Path f = p"
    by (simp_all add: TrackFile_def NewFileTracker_def)
  from FileTracker_spec [OF this, of "''/a''" "''/a''"] show ?thesis by blast
qed

end
