(* ===== verification/Artifact_Store.thy ===== *)
theory Artifact_Store
  imports Guardrail Go_Json "HOL-Library.List_Lexorder" "HOL-Library.Char_ord" "HOL-Library.Multiset"
begin

text \<open>
  Artifacts: the files that agents and users produce. The SQLite store (\<open>artifact/store\<close>), the files of
  user artifacts (\<open>artifact/storage\<close>) and the two HTTP handlers (\<open>artifact/api\<close>). A table is a list of
  rows; what SQL leaves open, the order of rows that sort equal, is a parameter, as are glob matching,
  hashing, content type detection and fresh identifiers. A time column holds the text that was
  formatted; a row keeps the instant, and comparisons are made on the text, as the statements do.
\<close>

section \<open>Rows and filters\<close>

abbreviation OperationCreate :: string where "OperationCreate \<equiv> ''create''"
abbreviation OperationUpdate :: string where "OperationUpdate \<equiv> ''update''"
abbreviation OperationDelete :: string where "OperationDelete \<equiv> ''delete''"

record artifact_session =
  as_ID :: string
  as_AgentID :: string
  as_AgentName :: string
  as_StartedAt :: go_time
  as_EndedAt :: "go_time option"

record SystemArtifactEvent =
  sa_ID :: nat
  sa_SessionID :: string
  sa_AgentID :: string
  sa_TurnID :: string
  sa_CorrelationID :: string
  sa_Key :: string
  sa_ActualPath :: string
  sa_Operation :: string
  sa_OccurredAt :: go_time
  sa_ToolName :: string
  sa_ContentSHA :: string

record SystemArtifactFilter =
  sf_Q :: string
  sf_AgentIDs :: "string list"
  sf_SessionIDs :: "string list"
  sf_TurnIDs :: "string list"
  sf_CorrelationIDs :: "string list"
  sf_Operation :: string
  sf_Since :: "go_time option"
  sf_Until :: "go_time option"
  sf_IncludeDeleted :: bool
  sf_Page :: go_int
  sf_PerPage :: go_int
  sf_Sort :: string
  sf_Order :: string

record UserArtifact =
  ua_ID :: string
  ua_Key :: string
  ua_ActualPath :: string
  ua_Filename :: string
  ua_Size :: int
  ua_MIMEType :: string
  ua_ContentSHA :: string
  ua_CreatedAt :: go_time
  ua_UpdatedAt :: go_time

record UserArtifactFilter =
  uf_Q :: string
  uf_Page :: go_int
  uf_PerPage :: go_int
  uf_Sort :: string
  uf_Order :: string

record 'a artifact_page =
  ap_TotalCount :: nat
  ap_Page :: go_int
  ap_PerPage :: go_int
  ap_Items :: "'a list"

section \<open>Times as text\<close>

text \<open>
  \<open>t.UTC().Format(time.RFC3339Nano)\<close> of an instant in nanoseconds: the civil date and time of its second,
  a fraction without trailing zeros if there is one, and \<open>Z\<close>. \<open>civil\<close> renders the second.
\<close>

fun trim_zeros :: "string \<Rightarrow> string" where
  "trim_zeros s = rev (dropWhile (\<lambda>c. c = CHR ''0'') (rev s))"

definition nine_digits :: "nat \<Rightarrow> string" where
  "nine_digits n = replicate (9 - length (format_nat 10 n)) (CHR ''0'') @ format_nat 10 n"

definition RFC3339Nano :: "(int \<Rightarrow> string) \<Rightarrow> go_time \<Rightarrow> string" where
  "RFC3339Nano civil t =
     (let frac = nat (t mod 1000000000)
      in civil (t div 1000000000) @ (if frac = 0 then [] else ''.'' @ trim_zeros (nine_digits frac)) @ ''Z'')"

section \<open>The store\<close>

text \<open>
  The tables, the next row id, and how the next statements end: \<open>True\<close> for a statement that fails.
\<close>

record artifact_db =
  ad_sessions :: "artifact_session list"
  ad_events :: "SystemArtifactEvent list"
  ad_user :: "UserArtifact list"
  ad_nextID :: nat
  ad_faults :: "bool list"

text \<open>
  The engine: sorting by a preorder, for both tables, the text of times, and the glob library, which
  answers \<open>None\<close> for a malformed pattern.
\<close>

record engine =
  en_civil :: "int \<Rightarrow> string"
  en_sort_sys :: "(SystemArtifactEvent \<Rightarrow> SystemArtifactEvent \<Rightarrow> bool) \<Rightarrow> SystemArtifactEvent list \<Rightarrow> SystemArtifactEvent list"
  en_sort_user :: "(UserArtifact \<Rightarrow> UserArtifact \<Rightarrow> bool) \<Rightarrow> UserArtifact list \<Rightarrow> UserArtifact list"
  en_glob :: "string \<Rightarrow> string \<Rightarrow> bool option"

definition statement :: "artifact_db \<Rightarrow> artifact_db \<times> bool" where
  "statement db = (case ad_faults db of [] \<Rightarrow> (db, False) | f # fs \<Rightarrow> (db\<lparr>ad_faults := fs\<rparr>, f))"

definition UpsertSession :: "artifact_db \<Rightarrow> artifact_session \<Rightarrow> artifact_db \<times> bool" where
  "UpsertSession db s =
     (case statement db of
        (db, True) \<Rightarrow> (db, True)
      | (db, False) \<Rightarrow> (db\<lparr>ad_sessions := filter (\<lambda>r. as_ID r \<noteq> as_ID s) (ad_sessions db) @ [s]\<rparr>, False))"

definition CloseSession :: "go_time \<Rightarrow> artifact_db \<Rightarrow> string \<Rightarrow> artifact_db \<times> bool" where
  "CloseSession now db sessionID =
     (case statement db of
        (db, True) \<Rightarrow> (db, True)
      | (db, False) \<Rightarrow>
          (db\<lparr>ad_sessions := map (\<lambda>r. if as_ID r = sessionID then r\<lparr>as_EndedAt := Some now\<rparr> else r) (ad_sessions db)\<rparr>, False))"

definition SaveSystemArtifactEvent :: "artifact_db \<Rightarrow> SystemArtifactEvent \<Rightarrow> artifact_db \<times> bool" where
  "SaveSystemArtifactEvent db e =
     (case statement db of
        (db, True) \<Rightarrow> (db, True)
      | (db, False) \<Rightarrow> (db\<lparr>ad_events := ad_events db @ [e\<lparr>sa_ID := ad_nextID db\<rparr>], ad_nextID := ad_nextID db + 1\<rparr>, False))"

definition normalizePerPage :: "go_int \<Rightarrow> go_int" where
  "normalizePerPage n = (if sint n \<le> 0 then 100 else n)"

definition normalizePage :: "go_int \<Rightarrow> go_int" where
  "normalizePage n = (if sint n \<le> 0 then 1 else n)"

definition safeSystemSortCol :: "string \<Rightarrow> string" where
  "safeSystemSortCol s = (if s \<in> {''key'', ''operation''} then s else ''occurred_at'')"

definition safeUserSortCol :: "string \<Rightarrow> string" where
  "safeUserSortCol s = (if s \<in> {''key'', ''size'', ''updated_at''} then s else ''created_at'')"

definition safeOrder :: "string \<Rightarrow> string" where
  "safeOrder s = (if ToLower s = ''desc'' then ''DESC'' else ''ASC'')"

definition directed :: "string \<Rightarrow> ('a \<Rightarrow> 'a \<Rightarrow> bool) \<Rightarrow> 'a \<Rightarrow> 'a \<Rightarrow> bool" where
  "directed order le = (if safeOrder order = ''DESC'' then (\<lambda>x y. le y x) else le)"

definition system_le :: "engine \<Rightarrow> string \<Rightarrow> SystemArtifactEvent \<Rightarrow> SystemArtifactEvent \<Rightarrow> bool" where
  "system_le en srt x y =
     (let col = safeSystemSortCol srt
      in if col = ''key'' then sa_Key x \<le> sa_Key y
         else if col = ''operation'' then sa_Operation x \<le> sa_Operation y
         else RFC3339Nano (en_civil en) (sa_OccurredAt x) \<le> RFC3339Nano (en_civil en) (sa_OccurredAt y))"

definition user_le :: "engine \<Rightarrow> string \<Rightarrow> UserArtifact \<Rightarrow> UserArtifact \<Rightarrow> bool" where
  "user_le en srt x y =
     (let col = safeUserSortCol srt
      in if col = ''key'' then ua_Key x \<le> ua_Key y
         else if col = ''size'' then ua_Size x \<le> ua_Size y
         else if col = ''updated_at'' then RFC3339Nano (en_civil en) (ua_UpdatedAt x) \<le> RFC3339Nano (en_civil en) (ua_UpdatedAt y)
         else RFC3339Nano (en_civil en) (ua_CreatedAt x) \<le> RFC3339Nano (en_civil en) (ua_CreatedAt y))"

definition system_where :: "engine \<Rightarrow> SystemArtifactFilter \<Rightarrow> SystemArtifactEvent \<Rightarrow> bool" where
  "system_where en f e \<longleftrightarrow>
     (sf_SessionIDs f = [] \<or> sa_SessionID e \<in> set (sf_SessionIDs f)) \<and>
     (sf_AgentIDs f = [] \<or> sa_AgentID e \<in> set (sf_AgentIDs f)) \<and>
     (sf_TurnIDs f = [] \<or> sa_TurnID e \<in> set (sf_TurnIDs f)) \<and>
     (sf_CorrelationIDs f = [] \<or> sa_CorrelationID e \<in> set (sf_CorrelationIDs f)) \<and>
     (sf_Operation f = [] \<or> sa_Operation e = sf_Operation f) \<and>
     (case sf_Since f of None \<Rightarrow> True
      | Some t \<Rightarrow> RFC3339Nano (en_civil en) t \<le> RFC3339Nano (en_civil en) (sa_OccurredAt e)) \<and>
     (case sf_Until f of None \<Rightarrow> True
      | Some t \<Rightarrow> RFC3339Nano (en_civil en) (sa_OccurredAt e) \<le> RFC3339Nano (en_civil en) t)"

definition glob_matches :: "engine \<Rightarrow> string \<Rightarrow> string \<Rightarrow> bool" where
  "glob_matches en q key \<longleftrightarrow> q = [] \<or> en_glob en q key = Some True"

text \<open>The two maps of \<open>excludeDeletedKeys\<close>: the operation and the time of the latest event of a key so far.\<close>

definition note_latest :: "(string \<times> string \<times> go_time) list \<Rightarrow> SystemArtifactEvent \<Rightarrow> (string \<times> string \<times> go_time) list" where
  "note_latest latest e =
     (case map_of latest (sa_Key e) of
        Some (_, t) \<Rightarrow> if t < sa_OccurredAt e then massign (sa_Key e) (sa_Operation e, sa_OccurredAt e) latest else latest
      | None \<Rightarrow> massign (sa_Key e) (sa_Operation e, sa_OccurredAt e) latest)"

definition excludeDeletedKeys :: "SystemArtifactEvent list \<Rightarrow> SystemArtifactEvent list" where
  "excludeDeletedKeys events =
     (let latest = foldl note_latest [] events
      in filter (\<lambda>e. (case map_of latest (sa_Key e) of Some (op, _) \<Rightarrow> op | None \<Rightarrow> []) \<noteq> OperationDelete) events)"

definition selected_events :: "engine \<Rightarrow> artifact_db \<Rightarrow> SystemArtifactFilter \<Rightarrow> SystemArtifactEvent list" where
  "selected_events en db f =
     (let all = en_sort_sys en (directed (sf_Order f) (system_le en (sf_Sort f))) (filter (system_where en f) (ad_events db));
          all = filter (\<lambda>e. glob_matches en (sf_Q f) (sa_Key e)) all
      in if sf_IncludeDeleted f then all else excludeDeletedKeys all)"

definition ListAllSystemArtifacts ::
  "engine \<Rightarrow> artifact_db \<Rightarrow> SystemArtifactFilter \<Rightarrow> artifact_db \<times> SystemArtifactEvent list option" where
  "ListAllSystemArtifacts en db f =
     (case statement db of (db, True) \<Rightarrow> (db, None) | (db, False) \<Rightarrow> (db, Some (selected_events en db f)))"

text \<open>A page of a list; \<open>None\<close> is the panic of slicing with a negative offset. The arithmetic is that of \<open>int\<close>.\<close>

definition paginate :: "go_int \<Rightarrow> go_int \<Rightarrow> 'a list \<Rightarrow> 'a artifact_page option" where
  "paginate page perPage all =
     (let total_count = length all; offset = (page - 1) * perPage
      in if int total_count \<le> sint offset
         then Some \<lparr>ap_TotalCount = total_count, ap_Page = page, ap_PerPage = perPage, ap_Items = []\<rparr>
         else (let end_at = (if int total_count < sint (offset + perPage) then int total_count else sint (offset + perPage))
               in if sint offset < 0 \<or> end_at < sint offset then None
                  else Some \<lparr>ap_TotalCount = total_count, ap_Page = page, ap_PerPage = perPage,
                    ap_Items = take (nat end_at - nat (sint offset)) (drop (nat (sint offset)) all)\<rparr>))"

datatype 'a listing = ListFailed | ListPanics | Listed 'a

definition listing_of :: "'a artifact_page option \<Rightarrow> 'a artifact_page listing" where
  "listing_of p = (case p of None \<Rightarrow> ListPanics | Some p \<Rightarrow> Listed p)"

definition ListSystemArtifacts ::
  "engine \<Rightarrow> artifact_db \<Rightarrow> SystemArtifactFilter \<Rightarrow> artifact_db \<times> SystemArtifactEvent artifact_page listing" where
  "ListSystemArtifacts en db f =
     (case ListAllSystemArtifacts en db f of
        (db, None) \<Rightarrow> (db, ListFailed)
      | (db, Some all) \<Rightarrow> (db, listing_of (paginate (normalizePage (sf_Page f)) (normalizePerPage (sf_PerPage f)) all)))"

definition events_of_key :: "engine \<Rightarrow> artifact_db \<Rightarrow> string \<Rightarrow> SystemArtifactEvent list" where
  "events_of_key en db key = en_sort_sys en (system_le en []) (filter (\<lambda>e. sa_Key e = key) (ad_events db))"

definition GetSystemArtifactByKey ::
  "engine \<Rightarrow> artifact_db \<Rightarrow> string \<Rightarrow> artifact_db \<times> SystemArtifactEvent list option" where
  "GetSystemArtifactByKey en db key =
     (case statement db of (db, True) \<Rightarrow> (db, None) | (db, False) \<Rightarrow> (db, Some (events_of_key en db key)))"

text \<open>\<open>INSERT OR REPLACE\<close> removes the rows with the same id or the same key.\<close>

definition SaveUserArtifact :: "artifact_db \<Rightarrow> UserArtifact \<Rightarrow> artifact_db \<times> bool" where
  "SaveUserArtifact db a =
     (case statement db of
        (db, True) \<Rightarrow> (db, True)
      | (db, False) \<Rightarrow>
          (db\<lparr>ad_user := filter (\<lambda>r. ua_ID r \<noteq> ua_ID a \<and> ua_Key r \<noteq> ua_Key a) (ad_user db) @ [a]\<rparr>, False))"

definition user_by_key :: "artifact_db \<Rightarrow> string \<Rightarrow> UserArtifact option" where
  "user_by_key db key = find (\<lambda>a. ua_Key a = key) (ad_user db)"

definition GetUserArtifactByKey :: "artifact_db \<Rightarrow> string \<Rightarrow> artifact_db \<times> UserArtifact option option" where
  "GetUserArtifactByKey db key =
     (case statement db of (db, True) \<Rightarrow> (db, None) | (db, False) \<Rightarrow> (db, Some (user_by_key db key)))"

definition ListAllUserArtifacts :: "engine \<Rightarrow> artifact_db \<Rightarrow> UserArtifactFilter \<Rightarrow> artifact_db \<times> UserArtifact list option" where
  "ListAllUserArtifacts en db f =
     (case statement db of
        (db, True) \<Rightarrow> (db, None)
      | (db, False) \<Rightarrow> (db, Some (filter (\<lambda>a. glob_matches en (uf_Q f) (ua_Key a))
          (en_sort_user en (directed (uf_Order f) (user_le en (uf_Sort f))) (ad_user db)))))"

definition ListUserArtifacts ::
  "engine \<Rightarrow> artifact_db \<Rightarrow> UserArtifactFilter \<Rightarrow> artifact_db \<times> UserArtifact artifact_page listing" where
  "ListUserArtifacts en db f =
     (case ListAllUserArtifacts en db f of
        (db, None) \<Rightarrow> (db, ListFailed)
      | (db, Some all) \<Rightarrow> (db, listing_of (paginate (normalizePage (uf_Page f)) (normalizePerPage (uf_PerPage f)) all)))"

definition DeleteUserArtifact :: "artifact_db \<Rightarrow> string \<Rightarrow> artifact_db \<times> bool" where
  "DeleteUserArtifact db key =
     (case statement db of
        (db, True) \<Rightarrow> (db, True)
      | (db, False) \<Rightarrow> (db\<lparr>ad_user := filter (\<lambda>a. ua_Key a \<noteq> key) (ad_user db)\<rparr>, False))"

section \<open>Requests and responses\<close>

datatype http_body = NoBody | TextBody string | JsonBody json | Download string string string | ZipFile string "(string \<times> string) list"

record http_response =
  hr_Code :: nat
  hr_Body :: http_body

definition http_Error :: "string \<Rightarrow> nat \<Rightarrow> http_response" where
  "http_Error msg code = \<lparr>hr_Code = code, hr_Body = TextBody (msg @ [CHR 0x0A])\<rparr>"

definition writeJSON :: "(string \<times> json) list \<Rightarrow> http_response" where
  "writeJSON v = \<lparr>hr_Code = 200, hr_Body = JsonBody (JObj v)\<rparr>"

text \<open>A body is empty, is not the JSON that was wanted, or decodes to a value.\<close>

datatype 'a request_body = EmptyBody | MalformedBody | Decoded 'a

text \<open>\<open>url.Values\<close> and its \<open>Get\<close>.\<close>

type_synonym url_values = "(string \<times> string list) list"

definition query_all :: "url_values \<Rightarrow> string \<Rightarrow> string list" where
  "query_all q k = (case map_of q k of Some vs \<Rightarrow> vs | None \<Rightarrow> [])"

definition query_get :: "url_values \<Rightarrow> string \<Rightarrow> string" where
  "query_get q k = (case query_all q k of v # _ \<Rightarrow> v | [] \<Rightarrow> [])"

text \<open>The value that \<open>strconv.Atoi\<close> returns, beside its error: zero for bad syntax, the nearest bound when out of range.\<close>

definition decimal :: "string \<Rightarrow> nat option" where
  "decimal s = (if s = [] \<or> list_ex (\<lambda>c. \<not> in_range 48 57 c) s then None
     else Some (digits_value 10 (map (\<lambda>c. byte c - 48) s)))"

definition clamp_int :: "int \<Rightarrow> go_int" where
  "clamp_int i = (if i < - (2 ^ 63) then word_of_int (- (2 ^ 63)) else if 2 ^ 63 \<le> i then word_of_int (2 ^ 63 - 1) else word_of_int i)"

definition Atoi :: "string \<Rightarrow> go_int" where
  "Atoi s =
     (case s of
        c # t \<Rightarrow>
          if c = CHR ''-'' then (case decimal t of Some n \<Rightarrow> clamp_int (- int n) | None \<Rightarrow> 0)
          else if c = CHR ''+'' then (case decimal t of Some n \<Rightarrow> clamp_int (int n) | None \<Rightarrow> 0)
          else (case decimal s of Some n \<Rightarrow> clamp_int (int n) | None \<Rightarrow> 0)
      | [] \<Rightarrow> 0)"

definition query_int :: "url_values \<Rightarrow> string \<Rightarrow> go_int" where
  "query_int q k = (if query_get q k = [] then 0 else Atoi (query_get q k))"

definition RFC3339 :: "(int \<Rightarrow> string) \<Rightarrow> go_time \<Rightarrow> string" where
  "RFC3339 civil t = civil (t div 1000000000) @ ''Z''"

definition TrimByte :: "char \<Rightarrow> string \<Rightarrow> string" where
  "TrimByte c s = rev (dropWhile (\<lambda>x. x = c) (rev (dropWhile (\<lambda>x. x = c) s)))"

section \<open>Files of user artifacts\<close>

text \<open>\<open>Write\<close> creates the file, peeks at the content, and copies; each step can fail and leaves what it has written.\<close>

datatype write_end = WriteDone | CreateFails | ReadFails | WriteStops string

record WriteInfo =
  wi_ActualPath :: string
  wi_Size :: int
  wi_SHA256 :: string
  wi_MIMEType :: string

record hashing =
  hg_sha :: "string \<Rightarrow> string"
  hg_mime :: "string \<Rightarrow> string"

definition Storage_ActualPath :: "string \<Rightarrow> string \<Rightarrow> string" where
  "Storage_ActualPath baseDir fid = filepath_Join baseDir fid"

definition Storage_Write ::
  "hashing \<Rightarrow> string \<Rightarrow> write_end \<Rightarrow> (string \<times> string) list \<Rightarrow> string \<Rightarrow> string \<Rightarrow> (string \<times> string) list \<times> WriteInfo option" where
  "Storage_Write hg baseDir io files fid content =
     (case io of
        CreateFails \<Rightarrow> (files, None)
      | ReadFails \<Rightarrow> (massign fid [] files, None)
      | WriteStops part \<Rightarrow> (massign fid part files, None)
      | WriteDone \<Rightarrow> (massign fid content files,
          Some \<lparr>wi_ActualPath = Storage_ActualPath baseDir fid, wi_Size = int (length content),
            wi_SHA256 = hg_sha hg content, wi_MIMEType = hg_mime hg (take 512 content)\<rparr>))"

definition Storage_Read :: "(string \<times> string) list \<Rightarrow> string \<Rightarrow> string option" where
  "Storage_Read files fid = map_of files fid"

definition Storage_Delete :: "bool \<Rightarrow> (string \<times> string) list \<Rightarrow> string \<Rightarrow> (string \<times> string) list" where
  "Storage_Delete removed files fid = (if removed then mdelete fid files else files)"

section \<open>The handler of user artifacts\<close>

record user_world =
  uw_db :: artifact_db
  uw_files :: "(string \<times> string) list"

text \<open>What the environment of one request decides.\<close>

record user_env =
  ue_engine :: engine
  ue_hash :: hashing
  ue_baseDir :: string
  ue_uuid :: string
  ue_now :: go_time
  ue_removed :: bool
  ue_write :: write_end

definition lastPathSegment :: "string \<Rightarrow> string" where
  "lastPathSegment p = last (SplitByte (CHR ''/'') p)"

definition user_item :: "(int \<Rightarrow> string) \<Rightarrow> UserArtifact \<Rightarrow> (string \<times> json) list" where
  "user_item civil a =
     [(''created_at'', JStr (RFC3339 civil (ua_CreatedAt a))), (''filename'', JStr (ua_Filename a)), (''id'', JStr (ua_ID a)),
      (''key'', JStr (ua_Key a)), (''mime_type'', JStr (ua_MIMEType a)), (''sha'', JStr (ua_ContentSHA a)),
      (''size'', JNum (Itoa (ua_Size a))), (''source'', JStr ''user''), (''updated_at'', JStr (RFC3339 civil (ua_UpdatedAt a)))]"

definition user_handleList :: "user_env \<Rightarrow> user_world \<Rightarrow> url_values \<Rightarrow> user_world \<times> http_response option" where
  "user_handleList ue w q =
     (let f = \<lparr>uf_Q = query_get q ''q'', uf_Page = query_int q ''page'', uf_PerPage = query_int q ''per_page'',
                uf_Sort = query_get q ''sort'', uf_Order = query_get q ''order''\<rparr>
      in case ListUserArtifacts (ue_engine ue) (uw_db w) f of
           (db, ListFailed) \<Rightarrow> (w\<lparr>uw_db := db\<rparr>, Some (http_Error ''internal error'' 500))
         | (db, ListPanics) \<Rightarrow> (w\<lparr>uw_db := db\<rparr>, None)
         | (db, Listed p) \<Rightarrow> (w\<lparr>uw_db := db\<rparr>, Some (writeJSON
             [(''items'', JArr (map (\<lambda>a. JObj (user_item (en_civil (ue_engine ue)) a)) (ap_Items p))),
              (''page'', JNum (Itoa (sint (ap_Page p)))), (''per_page'', JNum (Itoa (sint (ap_PerPage p)))),
              (''source'', JStr ''user''), (''total_count'', JNum (Itoa (int (ap_TotalCount p))))])))"

definition user_handlePut :: "user_env \<Rightarrow> user_world \<Rightarrow> string \<Rightarrow> string \<Rightarrow> user_world \<times> http_response" where
  "user_handlePut ue w key content =
     (if key = [] then (w, http_Error ''key required'' 400)
      else case GetUserArtifactByKey (uw_db w) key of
        (db, None) \<Rightarrow> (w\<lparr>uw_db := db\<rparr>, http_Error ''internal error'' 500)
      | (db, Some existing) \<Rightarrow>
          (let (fid, files) = (case existing of
                  None \<Rightarrow> (ue_uuid ue, uw_files w)
                | Some a \<Rightarrow> (ua_ID a, Storage_Delete (ue_removed ue) (uw_files w) (ua_ID a)))
           in case Storage_Write (ue_hash ue) (ue_baseDir ue) (ue_write ue) files fid content of
                (files, None) \<Rightarrow> (\<lparr>uw_db = db, uw_files = files\<rparr>, http_Error ''storage error'' 500)
              | (files, Some info) \<Rightarrow>
                  (let art = \<lparr>ua_ID = fid, ua_Key = key, ua_ActualPath = wi_ActualPath info,
                         ua_Filename = lastPathSegment key, ua_Size = wi_Size info, ua_MIMEType = wi_MIMEType info,
                         ua_ContentSHA = wi_SHA256 info,
                         ua_CreatedAt = (case existing of None \<Rightarrow> ue_now ue | Some a \<Rightarrow> ua_CreatedAt a),
                         ua_UpdatedAt = ue_now ue\<rparr>
                   in case SaveUserArtifact db art of
                        (db, True) \<Rightarrow> (\<lparr>uw_db = db, uw_files = files\<rparr>, http_Error ''db error'' 500)
                      | (db, False) \<Rightarrow> (\<lparr>uw_db = db, uw_files = files\<rparr>,
                          \<lparr>hr_Code = (if existing \<noteq> None then 200 else 201), hr_Body = JsonBody (JObj
                            [(''key'', JStr key), (''sha'', JStr (wi_SHA256 info)), (''size'', JNum (Itoa (wi_Size info))),
                             (''source'', JStr ''user''),
                             (''status'', JStr (if existing \<noteq> None then ''updated'' else ''created''))])\<rparr>))))"

definition user_handleGetMeta :: "user_env \<Rightarrow> user_world \<Rightarrow> string \<Rightarrow> user_world \<times> http_response" where
  "user_handleGetMeta ue w key =
     (case GetUserArtifactByKey (uw_db w) key of
        (db, Some (Some art)) \<Rightarrow> (w\<lparr>uw_db := db\<rparr>, writeJSON (user_item (en_civil (ue_engine ue)) art))
      | (db, _) \<Rightarrow> (w\<lparr>uw_db := db\<rparr>, http_Error ''not found'' 404))"

definition user_handleContent :: "user_world \<Rightarrow> string \<Rightarrow> user_world \<times> http_response" where
  "user_handleContent w key =
     (case GetUserArtifactByKey (uw_db w) key of
        (db, Some (Some art)) \<Rightarrow> (w\<lparr>uw_db := db\<rparr>,
          (case Storage_Read (uw_files w) (ua_ID art) of
             None \<Rightarrow> http_Error ''not found'' 404
           | Some content \<Rightarrow> \<lparr>hr_Code = 200, hr_Body = Download (ua_MIMEType art) (ua_Filename art) content\<rparr>))
      | (db, _) \<Rightarrow> (w\<lparr>uw_db := db\<rparr>, http_Error ''not found'' 404))"

definition user_handleDelete :: "user_env \<Rightarrow> user_world \<Rightarrow> string \<Rightarrow> user_world \<times> http_response" where
  "user_handleDelete ue w key =
     (case GetUserArtifactByKey (uw_db w) key of
        (db, Some (Some art)) \<Rightarrow>
          (case DeleteUserArtifact db key of
             (db, failed) \<Rightarrow> (\<lparr>uw_db = db, uw_files = Storage_Delete (ue_removed ue) (uw_files w) (ua_ID art)\<rparr>,
               if failed then http_Error ''db error'' 500 else \<lparr>hr_Code = 204, hr_Body = NoBody\<rparr>))
      | (db, _) \<Rightarrow> (w\<lparr>uw_db := db\<rparr>, http_Error ''not found'' 404))"

record user_archive_request =
  uar_Keys :: "string list"
  uar_Q :: string

fun user_pick :: "artifact_db \<Rightarrow> string list \<Rightarrow> (string \<times> UserArtifact) list \<Rightarrow> artifact_db \<times> (string \<times> UserArtifact) list" where
  "user_pick db [] arts = (db, arts)"
| "user_pick db (k # ks) arts =
     (case GetUserArtifactByKey db k of
        (db, Some (Some a)) \<Rightarrow> user_pick db ks (massign k a arts)
      | (db, _) \<Rightarrow> user_pick db ks arts)"

definition user_handleArchive :: "user_env \<Rightarrow> user_world \<Rightarrow> user_archive_request request_body \<Rightarrow> user_world \<times> http_response" where
  "user_handleArchive ue w body =
     (case body of
        Decoded req \<Rightarrow>
          (let (db, arts) = user_pick (uw_db w) (uar_Keys req) [];
               (db, arts) = (if uar_Q req = [] then (db, arts)
                 else case ListAllUserArtifacts (ue_engine ue) db \<lparr>uf_Q = uar_Q req, uf_Page = 0, uf_PerPage = 0, uf_Sort = [], uf_Order = []\<rparr> of
                        (db, l) \<Rightarrow> (db, foldl (\<lambda>m a. if ua_Key a \<in> mkeys m then m else massign (ua_Key a) a m) arts
                          (case l of Some as \<Rightarrow> as | None \<Rightarrow> [])))
           in (w\<lparr>uw_db := db\<rparr>, \<lparr>hr_Code = 200, hr_Body = ZipFile ''user-artifacts.zip''
                (concat (map (\<lambda>(key, art). case Storage_Read (uw_files w) (ua_ID art) of None \<Rightarrow> [] | Some c \<Rightarrow> [(key, c)]) arts))\<rparr>))
      | _ \<Rightarrow> (w, http_Error ''bad request'' 400))"

record user_request =
  ur_Method :: string
  ur_Path :: string
  ur_Query :: url_values
  ur_Content :: string
  ur_Archive :: "user_archive_request request_body"

definition user_routeRoot :: "user_env \<Rightarrow> user_world \<Rightarrow> user_request \<Rightarrow> user_world \<times> http_response option" where
  "user_routeRoot ue w r =
     (if ur_Method r = ''GET'' then user_handleList ue w (ur_Query r)
      else (w, Some (http_Error ''method not allowed'' 405)))"

definition user_routeByKey :: "user_env \<Rightarrow> user_world \<Rightarrow> user_request \<Rightarrow> user_world \<times> http_response" where
  "user_routeByKey ue w r =
     (let subPath = TrimByte (CHR ''/'') (TrimPrefix (ur_Path r) ''/api/v1/artifacts/user/'')
      in if ur_Method r = ''POST'' \<and> subPath = ''archive'' then user_handleArchive ue w (ur_Archive r)
         else if HasSuffix subPath ''/content'' then
           (if ur_Method r = ''GET'' then user_handleContent w (TrimSuffix subPath ''/content'')
            else (w, http_Error ''method not allowed'' 405))
         else if ur_Method r = ''PUT'' then user_handlePut ue w subPath (ur_Content r)
         else if ur_Method r = ''GET'' then user_handleGetMeta ue w subPath
         else if ur_Method r = ''DELETE'' then user_handleDelete ue w subPath
         else (w, http_Error ''method not allowed'' 405))"

section \<open>The handler of system artifacts\<close>

text \<open>
  What a request sees beside the store: files, the work directories of sessions (\<open>None\<close> when the handler
  has no resolver), \<open>filepath.Abs\<close>, the two time parsers and the clock. File names are those of Unix.
\<close>

record system_env =
  se_engine :: engine
  se_exists :: "string \<Rightarrow> bool"
  se_read :: "string \<Rightarrow> string option"
  se_workDir :: "(string \<Rightarrow> string option) option"
  se_abs :: "string \<Rightarrow> string option"
  se_parseNano :: "string \<Rightarrow> go_time option"
  se_parse :: "string \<Rightarrow> go_time option"
  se_now :: go_time

record systemArtifactWriteRequest =
  wr_SessionID :: string
  wr_TurnID :: string
  wr_CorrelationID :: string
  wr_ActualPath :: string
  wr_ToolName :: string
  wr_OccurredAt :: string

record systemArtifactAppendRequest = systemArtifactWriteRequest +
  ar_Key :: string
  ar_Operation :: string

definition empty_write :: systemArtifactWriteRequest where
  "empty_write = \<lparr>wr_SessionID = [], wr_TurnID = [], wr_CorrelationID = [], wr_ActualPath = [], wr_ToolName = [], wr_OccurredAt = []\<rparr>"

definition empty_append :: systemArtifactAppendRequest where
  "empty_append = \<lparr>wr_SessionID = [], wr_TurnID = [], wr_CorrelationID = [], wr_ActualPath = [], wr_ToolName = [], wr_OccurredAt = [],
     ar_Key = [], ar_Operation = []\<rparr>"

text \<open>\<open>decodeJSONBody\<close> takes an empty body for the zero value.\<close>

definition decodeJSONBody :: "'a \<Rightarrow> 'a request_body \<Rightarrow> 'a option" where
  "decodeJSONBody zero body = (case body of EmptyBody \<Rightarrow> Some zero | MalformedBody \<Rightarrow> None | Decoded x \<Rightarrow> Some x)"

definition validateSystemKey :: "string \<Rightarrow> (string, string) result" where
  "validateSystemKey raw =
     (let key = TrimSpace raw
      in if key = [] then Inl ''key is required''
         else if IsAbs key then Inl ''key must be a relative logical path''
         else if ''..'' \<in> set (SplitByte (CHR ''/'') key) then Inl (''key must not contain '' @ [CHR 0x27] @ ''..'' @ [CHR 0x27])
         else (let clean = filepath_Clean key
               in if clean = ''.'' \<or> clean = [] \<or> HasPrefix clean ''../'' then Inl ''invalid key'' else Inr clean))"

definition lookupWorkDir :: "system_env \<Rightarrow> string \<Rightarrow> string option" where
  "lookupWorkDir se sessionID =
     (case se_workDir se of
        None \<Rightarrow> None
      | Some resolver \<Rightarrow>
          if TrimSpace sessionID = [] then None
          else case resolver sessionID of None \<Rightarrow> None | Some wd \<Rightarrow> if TrimSpace wd = [] then None else Some wd)"

definition resolveActualPath :: "system_env \<Rightarrow> string \<Rightarrow> string \<Rightarrow> string \<Rightarrow> (string, string) result" where
  "resolveActualPath se sessionID key actualPath =
     (let p = TrimSpace actualPath
      in if p = [] then
           (case lookupWorkDir se sessionID of
              None \<Rightarrow> Inl ''actual_path is required when session_id has no resolvable work_dir''
            | Some workDir \<Rightarrow> Inr (filepath_Clean (filepath_Join workDir key)))
         else if IsAbs p then Inr (filepath_Clean p)
         else case lookupWorkDir se sessionID of
            Some workDir \<Rightarrow> Inr (filepath_Clean (filepath_Join workDir p))
          | None \<Rightarrow> Inr (filepath_Clean (case se_abs se p of Some a \<Rightarrow> a | None \<Rightarrow> p)))"

definition parseOccurredAt :: "system_env \<Rightarrow> string \<Rightarrow> (string, go_time) result" where
  "parseOccurredAt se raw =
     (let raw = TrimSpace raw
      in if raw = [] then Inr (se_now se)
         else case se_parseNano se raw of
            Some t \<Rightarrow> Inr t
          | None \<Rightarrow> (case se_parse se raw of Some t \<Rightarrow> Inr t | None \<Rightarrow> Inl ''occurred_at must be RFC3339''))"

definition normalizedToolName :: "string \<Rightarrow> string" where
  "normalizedToolName toolName = (let t = TrimSpace toolName in if t = [] then ''api:system_manual'' else t)"

definition latestOperation :: "SystemArtifactEvent list \<Rightarrow> string" where
  "latestOperation events = (if events = [] then [] else sa_Operation (last events))"

definition system_item :: "(int \<Rightarrow> string) \<Rightarrow> SystemArtifactEvent \<Rightarrow> json" where
  "system_item civil e = JObj
     [(''agent_id'', JStr (sa_AgentID e)), (''correlation_id'', JStr (sa_CorrelationID e)), (''key'', JStr (sa_Key e)),
      (''occurred_at'', JStr (RFC3339 civil (sa_OccurredAt e))), (''operation'', JStr (sa_Operation e)),
      (''session_id'', JStr (sa_SessionID e)), (''sha'', JStr (sa_ContentSHA e)), (''tool_name'', JStr (sa_ToolName e)),
      (''turn_id'', JStr (sa_TurnID e))]"

definition write_response ::
  "(int \<Rightarrow> string) \<Rightarrow> nat \<Rightarrow> string \<Rightarrow> string \<Rightarrow> string \<Rightarrow> SystemArtifactEvent \<Rightarrow> http_response" where
  "write_response civil code key operation status e = \<lparr>hr_Code = code, hr_Body = JsonBody (JObj
     [(''correlation_id'', JStr (sa_CorrelationID e)), (''key'', JStr key), (''occurred_at'', JStr (RFC3339 civil (sa_OccurredAt e))),
      (''operation'', JStr operation), (''session_id'', JStr (sa_SessionID e)), (''source'', JStr ''system''),
      (''status'', JStr status), (''tool_name'', JStr (sa_ToolName e)), (''turn_id'', JStr (sa_TurnID e))])\<rparr>"

text \<open>\<open>time.Parse(time.RFC3339, s)\<close> of a query parameter; what does not parse is ignored.\<close>

definition query_time :: "system_env \<Rightarrow> url_values \<Rightarrow> string \<Rightarrow> go_time option" where
  "query_time se q k = (if query_get q k = [] then None else se_parse se (query_get q k))"

definition system_handleList :: "system_env \<Rightarrow> artifact_db \<Rightarrow> url_values \<Rightarrow> artifact_db \<times> http_response option" where
  "system_handleList se db q =
     (let f = \<lparr>sf_Q = query_get q ''q'', sf_AgentIDs = query_all q ''agent_id'', sf_SessionIDs = query_all q ''session_id'',
                sf_TurnIDs = query_all q ''turn_id'', sf_CorrelationIDs = query_all q ''correlation_id'',
                sf_Operation = query_get q ''operation'', sf_Since = query_time se q ''since'', sf_Until = query_time se q ''until'',
                sf_IncludeDeleted = (query_get q ''include_deleted'' = ''true''), sf_Page = query_int q ''page'',
                sf_PerPage = query_int q ''per_page'', sf_Sort = query_get q ''sort'', sf_Order = query_get q ''order''\<rparr>
      in case ListSystemArtifacts (se_engine se) db f of
           (db, ListFailed) \<Rightarrow> (db, Some (http_Error ''internal error'' 500))
         | (db, ListPanics) \<Rightarrow> (db, None)
         | (db, Listed p) \<Rightarrow> (db, Some (writeJSON
             [(''items'', JArr (map (system_item (en_civil (se_engine se))) (ap_Items p))),
              (''page'', JNum (Itoa (sint (ap_Page p)))), (''per_page'', JNum (Itoa (sint (ap_PerPage p)))),
              (''source'', JStr ''system''), (''total_count'', JNum (Itoa (int (ap_TotalCount p))))])))"

definition system_handleGetByKey :: "system_env \<Rightarrow> artifact_db \<Rightarrow> string \<Rightarrow> artifact_db \<times> http_response" where
  "system_handleGetByKey se db key =
     (case GetSystemArtifactByKey (se_engine se) db key of
        (db, None) \<Rightarrow> (db, http_Error ''internal error'' 500)
      | (db, Some events) \<Rightarrow> (db,
          if events = [] then http_Error ''not found'' 404
          else writeJSON [(''key'', JStr key), (''operations'', JArr (map (system_item (en_civil (se_engine se))) events)),
            (''source'', JStr ''system'')]))"

definition filepath_Base :: "string \<Rightarrow> string" where
  "filepath_Base p =
     (if p = [] then ''.''
      else let s = rev (dropWhile (\<lambda>c. c = CHR ''/'') (rev p)) in if s = [] then ''/'' else last (SplitByte (CHR ''/'') s))"

text \<open>On Unix both candidates of \<open>resolveArtifactPath\<close> are the path itself.\<close>

definition system_handleContent :: "system_env \<Rightarrow> artifact_db \<Rightarrow> string \<Rightarrow> artifact_db \<times> http_response" where
  "system_handleContent se db key =
     (case GetSystemArtifactByKey (se_engine se) db key of
        (db, Some events) \<Rightarrow> (db,
          if events = [] \<or> sa_ActualPath (last events) = [] then http_Error ''not found'' 404
          else case se_read se (sa_ActualPath (last events)) of
             None \<Rightarrow> http_Error ''not found'' 404
           | Some content \<Rightarrow> \<lparr>hr_Code = 200, hr_Body = Download [] (filepath_Base (sa_ActualPath (last events))) content\<rparr>)
      | (db, None) \<Rightarrow> (db, http_Error ''not found'' 404))"

definition requested_event ::
  "systemArtifactWriteRequest \<Rightarrow> string \<Rightarrow> string \<Rightarrow> string \<Rightarrow> go_time \<Rightarrow> SystemArtifactEvent" where
  "requested_event req key actualPath op occurredAt =
     \<lparr>sa_ID = 0, sa_SessionID = wr_SessionID req, sa_AgentID = wr_SessionID req, sa_TurnID = wr_TurnID req,
      sa_CorrelationID = wr_CorrelationID req, sa_Key = key, sa_ActualPath = actualPath, sa_Operation = op,
      sa_OccurredAt = occurredAt, sa_ToolName = normalizedToolName (wr_ToolName req), sa_ContentSHA = []\<rparr>"

text \<open>The common end of the three write handlers: save the event and answer.\<close>

definition save_and_answer ::
  "system_env \<Rightarrow> artifact_db \<Rightarrow> systemArtifactWriteRequest \<Rightarrow> string \<Rightarrow> string \<Rightarrow> string \<Rightarrow> nat \<Rightarrow> string \<Rightarrow> artifact_db \<times> http_response" where
  "save_and_answer se db req key actualPath op code status =
     (case parseOccurredAt se (wr_OccurredAt req) of
        Inl msg \<Rightarrow> (db, http_Error msg 400)
      | Inr t \<Rightarrow>
          (let event = requested_event req key actualPath op t
           in case SaveSystemArtifactEvent db event of
                (db, True) \<Rightarrow> (db, http_Error ''internal error'' 500)
              | (db, False) \<Rightarrow> (db, write_response (en_civil (se_engine se)) code key op status event)))"

definition handlePutByKey ::
  "system_env \<Rightarrow> artifact_db \<Rightarrow> string \<Rightarrow> systemArtifactWriteRequest request_body \<Rightarrow> artifact_db \<times> http_response" where
  "handlePutByKey se db rawKey body =
     (case validateSystemKey rawKey of
        Inl msg \<Rightarrow> (db, http_Error msg 400)
      | Inr key \<Rightarrow>
          (case decodeJSONBody empty_write body of
             None \<Rightarrow> (db, http_Error ''bad request'' 400)
           | Some req \<Rightarrow>
               if TrimSpace (wr_SessionID req) = [] then (db, http_Error ''session_id is required'' 400)
               else case resolveActualPath se (wr_SessionID req) key (wr_ActualPath req) of
                 Inl msg \<Rightarrow> (db, http_Error msg 400)
               | Inr actualPath \<Rightarrow>
                   if \<not> se_exists se actualPath then (db, http_Error ''actual_path does not exist'' 400)
                   else case GetSystemArtifactByKey (se_engine se) db key of
                     (db, None) \<Rightarrow> (db, http_Error ''internal error'' 500)
                   | (db, Some events) \<Rightarrow>
                       (let latest = latestOperation events
                        in if latest \<noteq> [] \<and> latest \<noteq> OperationDelete
                           then save_and_answer se db req key actualPath OperationUpdate 200 ''updated''
                           else save_and_answer se db req key actualPath OperationCreate 201 ''created'')))"

definition handleDeleteByKey ::
  "system_env \<Rightarrow> artifact_db \<Rightarrow> string \<Rightarrow> systemArtifactWriteRequest request_body \<Rightarrow> artifact_db \<times> http_response" where
  "handleDeleteByKey se db rawKey body =
     (case validateSystemKey rawKey of
        Inl msg \<Rightarrow> (db, http_Error msg 400)
      | Inr key \<Rightarrow>
          (case decodeJSONBody empty_write body of
             None \<Rightarrow> (db, http_Error ''bad request'' 400)
           | Some req \<Rightarrow>
               if TrimSpace (wr_SessionID req) = [] then (db, http_Error ''session_id is required'' 400)
               else case GetSystemArtifactByKey (se_engine se) db key of
                 (db, None) \<Rightarrow> (db, http_Error ''internal error'' 500)
               | (db, Some existing) \<Rightarrow>
                   if latestOperation existing = [] \<or> latestOperation existing = OperationDelete
                   then (db, http_Error ''not found'' 404)
                   else if TrimSpace (wr_ActualPath req) \<noteq> [] then
                     (case resolveActualPath se (wr_SessionID req) key (wr_ActualPath req) of
                        Inl msg \<Rightarrow> (db, http_Error msg 400)
                      | Inr actualPath \<Rightarrow> save_and_answer se db req key actualPath OperationDelete 200 ''deleted'')
                   else
                     (let known = sa_ActualPath (last existing);
                          actualPath = (if known \<noteq> [] then known
                            else case resolveActualPath se (wr_SessionID req) key [] of Inr p \<Rightarrow> p | Inl _ \<Rightarrow> [])
                      in save_and_answer se db req key actualPath OperationDelete 200 ''deleted'')))"

definition handleAppendEvent ::
  "system_env \<Rightarrow> artifact_db \<Rightarrow> systemArtifactAppendRequest request_body \<Rightarrow> artifact_db \<times> http_response" where
  "handleAppendEvent se db body =
     (case decodeJSONBody empty_append body of
        None \<Rightarrow> (db, http_Error ''bad request'' 400)
      | Some areq \<Rightarrow>
          (case validateSystemKey (ar_Key areq) of
             Inl msg \<Rightarrow> (db, http_Error msg 400)
           | Inr key \<Rightarrow>
               (let req = systemArtifactWriteRequest.truncate areq; op = TrimSpace (ar_Operation areq)
                in if TrimSpace (wr_SessionID req) = [] then (db, http_Error ''session_id is required'' 400)
                   else if op \<notin> {OperationCreate, OperationUpdate, OperationDelete}
                   then (db, http_Error ''operation must be create, update, or delete'' 400)
                   else if op \<noteq> OperationDelete then
                     (case resolveActualPath se (wr_SessionID req) key (wr_ActualPath req) of
                        Inl msg \<Rightarrow> (db, http_Error msg 400)
                      | Inr actualPath \<Rightarrow>
                          if \<not> se_exists se actualPath then (db, http_Error ''actual_path does not exist'' 400)
                          else save_and_answer se db req key actualPath op 201 ''appended'')
                   else if TrimSpace (wr_ActualPath req) \<noteq> [] then
                     (case resolveActualPath se (wr_SessionID req) key (wr_ActualPath req) of
                        Inl msg \<Rightarrow> (db, http_Error msg 400)
                      | Inr actualPath \<Rightarrow> save_and_answer se db req key actualPath op 201 ''appended'')
                   else case GetSystemArtifactByKey (se_engine se) db key of
                     (db, existing) \<Rightarrow> save_and_answer se db req key
                       (case existing of Some (e # es) \<Rightarrow> sa_ActualPath (last (e # es)) | _ \<Rightarrow> []) op 201 ''appended'')))"

record archiveRequest =
  aq_Keys :: "string list"
  aq_Q :: string
  aq_SessionID :: "string list"

fun system_pick :: "engine \<Rightarrow> artifact_db \<Rightarrow> string list \<Rightarrow> (string \<times> string) list \<Rightarrow> artifact_db \<times> (string \<times> string) list" where
  "system_pick en db [] keys = (db, keys)"
| "system_pick en db (k # ks) keys =
     (case GetSystemArtifactByKey en db k of
        (db, Some (e # es)) \<Rightarrow> system_pick en db ks (massign k (sa_ActualPath (last (e # es))) keys)
      | (db, _) \<Rightarrow> system_pick en db ks keys)"

definition archive_filter :: "archiveRequest \<Rightarrow> SystemArtifactFilter" where
  "archive_filter req = \<lparr>sf_Q = aq_Q req, sf_AgentIDs = [], sf_SessionIDs = aq_SessionID req, sf_TurnIDs = [], sf_CorrelationIDs = [],
     sf_Operation = [], sf_Since = None, sf_Until = None, sf_IncludeDeleted = False, sf_Page = 0, sf_PerPage = 0,
     sf_Sort = ''occurred_at'', sf_Order = ''asc''\<rparr>"

definition handleArchive ::
  "system_env \<Rightarrow> artifact_db \<Rightarrow> archiveRequest request_body \<Rightarrow> artifact_db \<times> http_response" where
  "handleArchive se db body =
     (case body of
        Decoded req \<Rightarrow>
          (let (db, keys) = system_pick (se_engine se) db (aq_Keys req) [];
               (db, keys) = (if aq_Q req = [] then (db, keys)
                 else case ListAllSystemArtifacts (se_engine se) db (archive_filter req) of
                        (db, l) \<Rightarrow> (db, foldl (\<lambda>m e. massign (sa_Key e) (sa_ActualPath e) m) keys (case l of Some es \<Rightarrow> es | None \<Rightarrow> [])))
           in (db, \<lparr>hr_Code = 200, hr_Body = ZipFile ''artifacts.zip''
                (concat (map (\<lambda>(key, actualPath). if actualPath = [] then []
                   else case se_read se actualPath of None \<Rightarrow> [] | Some c \<Rightarrow> [(key, c)]) keys))\<rparr>))
      | _ \<Rightarrow> (db, http_Error ''bad request'' 400))"

record system_request =
  sr_Method :: string
  sr_Path :: string
  sr_Query :: url_values
  sr_Write :: "systemArtifactWriteRequest request_body"
  sr_Append :: "systemArtifactAppendRequest request_body"
  sr_Archive :: "archiveRequest request_body"

definition system_routeRoot :: "system_env \<Rightarrow> artifact_db \<Rightarrow> system_request \<Rightarrow> artifact_db \<times> http_response option" where
  "system_routeRoot se db r =
     (if sr_Method r = ''GET'' then system_handleList se db (sr_Query r)
      else (db, Some (http_Error ''method not allowed'' 405)))"

definition system_routeByKey :: "system_env \<Rightarrow> artifact_db \<Rightarrow> system_request \<Rightarrow> artifact_db \<times> http_response" where
  "system_routeByKey se db r =
     (let subPath = TrimByte (CHR ''/'') (TrimPrefix (sr_Path r) ''/api/v1/artifacts/system/'');
          denied = (db, http_Error ''method not allowed'' 405)
      in if sr_Method r = ''POST'' then
           (if subPath = ''archive'' then handleArchive se db (sr_Archive r)
            else if subPath = ''events'' then handleAppendEvent se db (sr_Append r) else denied)
         else if HasSuffix subPath ''/content'' then
           (if sr_Method r = ''GET'' then system_handleContent se db (TrimSuffix subPath ''/content'') else denied)
         else if sr_Method r = ''GET'' then system_handleGetByKey se db subPath
         else if sr_Method r = ''PUT'' then handlePutByKey se db subPath (sr_Write r)
         else if sr_Method r = ''DELETE'' then handleDeleteByKey se db subPath (sr_Write r)
         else denied)"

section \<open>Pages\<close>

lemma sint_small: "0 \<le> i \<Longrightarrow> i < 2 ^ 63 \<Longrightarrow> sint (word_of_int i :: go_int) = i"
  by (rule sint_of_int_id) simp_all

lemma paginate_page:
  assumes "0 < p" "(int i + 1) * p < 2 ^ 63" "int (length all) < 2 ^ 63"
  shows "paginate (word_of_int (int i + 1)) (word_of_int p) all =
    Some \<lparr>ap_TotalCount = length all, ap_Page = word_of_int (int i + 1), ap_PerPage = word_of_int p,
      ap_Items = take (nat p) (drop (i * nat p) all)\<rparr>"
proof -
  let ?off = "(word_of_int (int i + 1) - 1) * word_of_int p :: go_int"
  have e: "(int i + 1) * p = int i * p + p" by (simp add: algebra_simps)
  have n: "0 \<le> int i * p" using assms(1) by simp
  have w: "?off = word_of_int (int i * p)" "?off + word_of_int p = word_of_int (int i * p + p)"
    by (simp_all add: algebra_simps)
  have o: "sint ?off = int i * p" unfolding w(1) using assms(1,2) e n by (intro sint_small) simp_all
  have e2: "sint (?off + word_of_int p) = int i * p + p" unfolding w(2) using assms(1,2) e n by (intro sint_small) simp_all
  have nat: "nat (int i * p) = i * nat p" "nat (int i * p + p) = i * nat p + nat p"
    using assms(1) by (simp_all add: nat_mult_distrib nat_add_distrib)
  show ?thesis
  proof (cases "int (length all) \<le> int i * p")
    case True
    then have "drop (i * nat p) all = []" using nat(1) by (metis drop_all nat_int nat_mono)
    with True o show ?thesis by (simp add: paginate_def Let_def)
  next
    case False
    have neg: "\<not> int i * p < 0" using n by (simp only: not_less)
    show ?thesis
    proof (cases "int (length all) < int i * p + p")
      case True
      have "int i * p = int (i * nat p)" "p = int (nat p)" using assms(1) by simp_all
      with True have l: "length all - i * nat p \<le> nat p" by linarith
      then have "take (length all - i * nat p) (drop (i * nat p) all) = take (nat p) (drop (i * nat p) all)" by simp
      with False True show ?thesis
        unfolding paginate_def Let_def o e2 by (simp add: nat neg)
    next
      case 2: False
      have "int i * p < int i * p + p" using assms(1) by simp
      with False 2 show ?thesis
        unfolding paginate_def Let_def o e2 by (simp add: nat neg)
    qed
  qed
qed

lemma concat_pages: "concat (map (\<lambda>i. take p (drop (i * p) xs)) [0..<n]) = take (n * p) xs"
proof (induction n)
  case (Suc n)
  have "Suc n * p = n * p + p" by simp
  then show ?case by (simp only: take_add) (simp add: Suc)
qed simp

text \<open>
  Paging is exact: for a positive page size and pages whose end does not overflow, no page panics,
  each reports the length of the whole list, and the pages one after the other are the list, nothing
  twice and nothing left out.
\<close>

theorem pages_partition:
  assumes "0 < p" "int n * p < 2 ^ 63" "int (length all) < 2 ^ 63" "length all \<le> n * nat p"
  shows "(\<forall>i < n. \<exists>pg. paginate (word_of_int (int i + 1)) (word_of_int p) all = Some pg \<and> ap_TotalCount pg = length all) \<and>
    concat (map (\<lambda>i. ap_Items (the (paginate (word_of_int (int i + 1)) (word_of_int p) all))) [0..<n]) = all"
proof -
  have b: "(int i + 1) * p < 2 ^ 63" if "i < n" for i
  proof -
    have "(int i + 1) * p \<le> int n * p" using that assms(1) by (intro mult_right_mono) simp_all
    with assms(2) show ?thesis by simp
  qed
  note pg = paginate_page [OF assms(1) b assms(3)]
  then have m: "map (\<lambda>i. ap_Items (the (paginate (word_of_int (int i + 1)) (word_of_int p) all))) [0..<n]
      = map (\<lambda>i. take (nat p) (drop (i * nat p) all)) [0..<n]" by (intro map_cong) simp_all
  have "take (n * nat p) all = all" using assms(4) by simp
  then show ?thesis unfolding m concat_pages using pg by auto
qed

theorem pages_partition_witness:
  "concat (map (\<lambda>i. ap_Items (the (paginate (word_of_int (int i + 1)) (word_of_int 2) [1, 2, 3::nat]))) [0..<2]) = [1, 2, 3]"
  using pages_partition [of 2 2 "[1, 2, 3::nat]"] by simp

text \<open>
  Beyond that the offset overflows: the last page number that fits an \<open>int\<close>, which is also what any
  larger number is read as, makes the handler panic.
\<close>

lemma huge_page: "Atoi ''9223372036854775807'' = 9223372036854775807"
  by (simp add: Atoi_def decimal_def in_range_def byte_def digits_value_def clamp_int_def)

lemma huge_page_panics:
  assumes "ad_faults db = []"
  shows "system_handleList se db [(''page'', [''9223372036854775807''])] = (db, None)"
proof -
  have q: "query_int [(''page'', [''9223372036854775807''])] ''page'' = 9223372036854775807"
    by (simp add: query_int_def query_get_def query_all_def huge_page)
  have p: "query_int [(''page'', [''9223372036854775807''])] ''per_page'' = 0"
    by (simp add: query_int_def query_get_def query_all_def)
  have n: "normalizePage 9223372036854775807 = 9223372036854775807" "normalizePerPage 0 = 100" by (simp_all add: normalizePage_def normalizePerPage_def)
  have o: "sint ((9223372036854775807 - 1) * 100 :: go_int) = - 200" by simp
  have "paginate 9223372036854775807 100 all = None" for all :: "SystemArtifactEvent list"
    unfolding paginate_def Let_def o by simp
  then show ?thesis
    using assms by (simp add: system_handleList_def q p ListSystemArtifacts_def ListAllSystemArtifacts_def statement_def n listing_of_def)
qed

section \<open>The text of times\<close>

text \<open>
  The columns are compared as text, and the text without a fraction sorts after every text of the same
  second with one: \<open>Z\<close> comes after the dot.
\<close>

lemma fraction_sorts_before_second:
  assumes "t mod 1000000000 = 0" "0 < d" "d < 1000000000"
  shows "RFC3339Nano civil (t + d) < RFC3339Nano civil t"
proof -
  have d: "(t + d) div 1000000000 = t div 1000000000" "(t + d) mod 1000000000 = d"
  proof -
    obtain k where "t = 1000000000 * k" using mod_0_imp_dvd [OF assms(1)] by (elim dvdE)
    with assms(2,3) show "(t + d) div 1000000000 = t div 1000000000" "(t + d) mod 1000000000 = d"
      by (simp_all add: div_pos_pos_trivial mod_pos_pos_trivial)
  qed
  have lt: "CHR ''.'' # s < CHR ''Z'' # r" for s r by (simp add: less_char_def)
  have "a @ CHR ''.'' # s < a @ CHR ''Z'' # r" for a s r
    by (induction a) (simp_all add: lt)
  with d assms show ?thesis by (simp add: RFC3339Nano_def Let_def)
qed

lemma fraction_sorts_before_second_witness: "RFC3339Nano Itoa 5500000000 < RFC3339Nano Itoa 5000000000"
  using fraction_sorts_before_second [of 5000000000 500000000 Itoa] by simp

section \<open>Which artifacts are alive\<close>

text \<open>The latest event of a key, the first of those with the largest time.\<close>

definition latest_of :: "SystemArtifactEvent list \<Rightarrow> string \<Rightarrow> SystemArtifactEvent \<Rightarrow> bool" where
  "latest_of es k l \<longleftrightarrow> l \<in> set es \<and> sa_Key l = k \<and> (\<forall>x \<in> set es. sa_Key x = k \<longrightarrow> sa_OccurredAt x \<le> sa_OccurredAt l)"

lemma note_latest_fold:
  assumes "\<forall>k op t. map_of m k = Some (op, t) \<longrightarrow> (\<exists>l. latest_of es0 k l \<and> op = sa_Operation l \<and> t = sa_OccurredAt l)"
    and "\<forall>x \<in> set es0. map_of m (sa_Key x) \<noteq> None"
  shows "(\<forall>k op t. map_of (foldl note_latest m es) k = Some (op, t) \<longrightarrow>
      (\<exists>l. latest_of (es0 @ es) k l \<and> op = sa_Operation l \<and> t = sa_OccurredAt l)) \<and>
    (\<forall>x \<in> set (es0 @ es). map_of (foldl note_latest m es) (sa_Key x) \<noteq> None)"
  using assms
proof (induction es arbitrary: m es0)
  case (Cons e es)
  let ?m = "note_latest m e"
  have some: "map_of ?m (sa_Key e) \<noteq> None" by (auto simp: note_latest_def split: option.splits prod.splits if_splits)
  have other: "k \<noteq> sa_Key e \<Longrightarrow> map_of ?m k = map_of m k" for k
    by (auto simp: note_latest_def split: option.splits prod.splits)
  have "\<exists>l. latest_of (es0 @ [e]) k l \<and> op = sa_Operation l \<and> t = sa_OccurredAt l" if k: "map_of ?m k = Some (op, t)" for k op t
  proof (cases "k = sa_Key e")
    case False
    then have "map_of m k = Some (op, t)" using k other by simp
    with Cons.prems(1) False show ?thesis by (fastforce simp: latest_of_def)
  next
    case True
    show ?thesis
    proof (cases "map_of m k")
      case None
      then have "\<forall>x \<in> set es0. sa_Key x \<noteq> k" using Cons.prems(2) by auto
      moreover have "op = sa_Operation e" "t = sa_OccurredAt e" using k True None by (simp_all add: note_latest_def)
      ultimately show ?thesis using True by (auto simp: latest_of_def intro!: exI [of _ e])
    next
      case (Some p)
      obtain op0 t0 where p: "p = (op0, t0)" by (cases p)
      then obtain l where l: "latest_of es0 k l" "op0 = sa_Operation l" "t0 = sa_OccurredAt l" using Cons.prems(1) Some by blast
      show ?thesis
      proof (cases "t0 < sa_OccurredAt e")
        case t: True
        then have "op = sa_Operation e" "t = sa_OccurredAt e" using k True Some p by (simp_all add: note_latest_def)
        with l t True show ?thesis by (auto simp: latest_of_def intro!: exI [of _ e])
      next
        case t: False
        then have "op = op0" "t = t0" using k True Some p by (simp_all add: note_latest_def)
        with l t True show ?thesis by (auto simp: latest_of_def intro!: exI [of _ l])
      qed
    qed
  qed
  moreover have "\<forall>x \<in> set (es0 @ [e]). map_of ?m (sa_Key x) \<noteq> None"
  proof
    fix x assume "x \<in> set (es0 @ [e])"
    with some other [of "sa_Key x"] Cons.prems(2) show "map_of ?m (sa_Key x) \<noteq> None" by (cases "sa_Key x = sa_Key e") auto
  qed
  ultimately show ?case using Cons.IH [of ?m "es0 @ [e]"] by simp
qed simp

text \<open>
  Deleted artifacts are hidden, whatever the order of the listing: with distinct times for the events
  of a key, an event is kept exactly when the latest event of its key is not a delete.
\<close>

theorem excludeDeletedKeys_iff:
  assumes "\<forall>x \<in> set es. \<forall>y \<in> set es. sa_Key x = sa_Key y \<longrightarrow> sa_OccurredAt x = sa_OccurredAt y \<longrightarrow> x = y"
  shows "e \<in> set (excludeDeletedKeys es) \<longleftrightarrow>
    e \<in> set es \<and> (\<exists>l. latest_of es (sa_Key e) l \<and> sa_Operation l \<noteq> OperationDelete)"
proof (cases "e \<in> set es")
  case True
  let ?m = "foldl note_latest [] es"
  from note_latest_fold [of "[]" "[]" es]
  have f: "\<forall>k op t. map_of ?m k = Some (op, t) \<longrightarrow> (\<exists>l. latest_of es k l \<and> op = sa_Operation l \<and> t = sa_OccurredAt l)"
    "\<forall>x \<in> set es. map_of ?m (sa_Key x) \<noteq> None" by simp_all
  with True obtain op t where m: "map_of ?m (sa_Key e) = Some (op, t)" by fastforce
  with f(1) obtain l where l: "latest_of es (sa_Key e) l" "op = sa_Operation l" by blast
  have uniq: "l' = l" if "latest_of es (sa_Key e) l'" for l'
  proof -
    have eq: "sa_OccurredAt l' = sa_OccurredAt l"
      using that l(1) unfolding latest_of_def by (intro order.antisym) simp_all
    show ?thesis by (rule assms [rule_format]) (use that l(1) eq in \<open>simp_all add: latest_of_def\<close>)
  qed
  have "(\<exists>l. latest_of es (sa_Key e) l \<and> sa_Operation l \<noteq> OperationDelete) \<longleftrightarrow> op \<noteq> OperationDelete"
  proof
    assume "\<exists>l. latest_of es (sa_Key e) l \<and> sa_Operation l \<noteq> OperationDelete"
    then obtain l' where l': "latest_of es (sa_Key e) l'" "sa_Operation l' \<noteq> OperationDelete" by blast
    from uniq [OF l'(1)] l'(2) l(2) show "op \<noteq> OperationDelete" by simp
  qed (use l in auto)
  moreover have "e \<in> set (excludeDeletedKeys es) \<longleftrightarrow> op \<noteq> OperationDelete"
    using m True by (simp add: excludeDeletedKeys_def Let_def)
  ultimately show ?thesis using True by blast
qed (simp add: excludeDeletedKeys_def Let_def)

definition sample_event :: "string \<Rightarrow> go_time \<Rightarrow> SystemArtifactEvent" where
  "sample_event op t = \<lparr>sa_ID = 0, sa_SessionID = ''s'', sa_AgentID = ''s'', sa_TurnID = [], sa_CorrelationID = [], sa_Key = ''a.txt'',
     sa_ActualPath = ''/w/a.txt'', sa_Operation = op, sa_OccurredAt = t, sa_ToolName = ''Write'', sa_ContentSHA = []\<rparr>"

theorem excludeDeletedKeys_iff_witness:
  "sample_event OperationCreate 1 \<notin> set (excludeDeletedKeys [sample_event OperationDelete 2, sample_event OperationCreate 1])"
  using excludeDeletedKeys_iff [of "[sample_event OperationDelete 2, sample_event OperationCreate 1]" "sample_event OperationCreate 1"]
  by (auto simp: latest_of_def sample_event_def)

text \<open>
  The check looks at the events that the other filters have left, so asking for the creations of a
  session lists artifacts that are gone.
\<close>

definition all_events :: SystemArtifactFilter where
  "all_events = \<lparr>sf_Q = [], sf_AgentIDs = [], sf_SessionIDs = [], sf_TurnIDs = [], sf_CorrelationIDs = [], sf_Operation = [],
     sf_Since = None, sf_Until = None, sf_IncludeDeleted = False, sf_Page = 0, sf_PerPage = 0, sf_Sort = [], sf_Order = []\<rparr>"

lemma filtered_delete_listed:
  assumes "\<And>le e. en_sort_sys en le [e] = [e]"
    and "ad_events db = [sample_event OperationCreate 1, sample_event OperationDelete 2]"
  shows "selected_events en db (all_events\<lparr>sf_Operation := OperationCreate\<rparr>) = [sample_event OperationCreate 1]"
  using assms by (simp add: selected_events_def all_events_def system_where_def glob_matches_def sample_event_def
    excludeDeletedKeys_def note_latest_def)

section \<open>User artifacts as a map\<close>

text \<open>Ids and keys are unique, and every row has its file.\<close>

definition user_ok :: "user_world \<Rightarrow> bool" where
  "user_ok w \<longleftrightarrow> ad_faults (uw_db w) = [] \<and> distinct (map ua_ID (ad_user (uw_db w))) \<and>
     distinct (map ua_Key (ad_user (uw_db w))) \<and> is_go_map (uw_files w) \<and>
     (\<forall>a \<in> set (ad_user (uw_db w)). ua_ID a \<in> mkeys (uw_files w))"

definition user_map :: "user_world \<Rightarrow> string \<rightharpoonup> string" where
  "user_map w key = (case user_by_key (uw_db w) key of None \<Rightarrow> None | Some a \<Rightarrow> map_of (uw_files w) (ua_ID a))"

lemma find_key: "find (\<lambda>a. ua_Key a = k) rows = Some a \<Longrightarrow> a \<in> set rows \<and> ua_Key a = k"
  by (induction rows) (auto split: if_splits)

lemma find_other: "k \<noteq> key \<Longrightarrow> find (\<lambda>a. ua_Key a = k) (filter (\<lambda>r. ua_Key r \<noteq> key) rows) = find (\<lambda>a. ua_Key a = k) rows"
  by (induction rows) auto

lemma find_append: "find P (xs @ ys) = (case find P xs of None \<Rightarrow> find P ys | x \<Rightarrow> x)"
  by (induction xs) auto

lemma find_gone: "find (\<lambda>a. ua_Key a = key) (filter (\<lambda>r. ua_Key r \<noteq> key) rows) = None"
  by (induction rows) auto

lemma row_of_id: "distinct (map ua_ID rows) \<Longrightarrow> a \<in> set rows \<Longrightarrow> b \<in> set rows \<Longrightarrow> ua_ID a = ua_ID b \<Longrightarrow> a = b"
  by (simp add: distinct_map inj_on_def)

lemma row_of_key: "distinct (map ua_Key rows) \<Longrightarrow> a \<in> set rows \<Longrightarrow> b \<in> set rows \<Longrightarrow> ua_Key a = ua_Key b \<Longrightarrow> a = b"
  by (simp add: distinct_map inj_on_def)

text \<open>Saving a row whose id is that of the row with its key, or of no row.\<close>

lemma saved_rows:
  assumes "distinct (map ua_ID rows)" "distinct (map ua_Key rows)"
    and "\<forall>r \<in> set rows. ua_ID r = ua_ID a \<longrightarrow> ua_Key r = ua_Key a"
  shows "filter (\<lambda>r. ua_ID r \<noteq> ua_ID a \<and> ua_Key r \<noteq> ua_Key a) rows = filter (\<lambda>r. ua_Key r \<noteq> ua_Key a) rows"
    and "distinct (map ua_ID (filter (\<lambda>r. ua_Key r \<noteq> ua_Key a) rows @ [a]))"
    and "distinct (map ua_Key (filter (\<lambda>r. ua_Key r \<noteq> ua_Key a) rows @ [a]))"
proof -
  show "filter (\<lambda>r. ua_ID r \<noteq> ua_ID a \<and> ua_Key r \<noteq> ua_Key a) rows = filter (\<lambda>r. ua_Key r \<noteq> ua_Key a) rows"
    using assms(3) by (intro filter_cong) auto
  show "distinct (map ua_ID (filter (\<lambda>r. ua_Key r \<noteq> ua_Key a) rows @ [a]))"
    "distinct (map ua_Key (filter (\<lambda>r. ua_Key r \<noteq> ua_Key a) rows @ [a]))"
    using assms by (auto simp: distinct_map_filter)
qed

lemma user_rows_map:
  assumes "is_go_map (uw_files w)" "ad_user (uw_db w') = filter (\<lambda>r. ua_Key r \<noteq> ua_Key a) (ad_user (uw_db w)) @ [a]"
    and "\<forall>fid. fid \<noteq> ua_ID a \<longrightarrow> map_of (uw_files w') fid = map_of (uw_files w) fid" "map_of (uw_files w') (ua_ID a) = Some content"
    and "\<forall>r \<in> set (ad_user (uw_db w)). ua_ID r = ua_ID a \<longrightarrow> ua_Key r = ua_Key a"
  shows "user_map w' = (user_map w)(ua_Key a \<mapsto> content)"
proof
  fix k
  show "user_map w' k = ((user_map w)(ua_Key a \<mapsto> content)) k"
  proof (cases "k = ua_Key a")
    case True
    then show ?thesis using assms(2,4) find_gone [of "ua_Key a" "ad_user (uw_db w)"]
      by (simp add: user_map_def user_by_key_def find_append)
  next
    case False
    then have f: "user_by_key (uw_db w') k = user_by_key (uw_db w) k"
      using assms(2) find_other [of k "ua_Key a" "ad_user (uw_db w)"]
      by (simp add: user_by_key_def find_append split: option.split)
    show ?thesis
    proof (cases "user_by_key (uw_db w) k")
      case (Some b)
      then have "b \<in> set (ad_user (uw_db w))" "ua_Key b = k" using find_key unfolding user_by_key_def by blast+
      with assms(5) False have "ua_ID b \<noteq> ua_ID a" by auto
      with f Some assms(3) False show ?thesis by (simp add: user_map_def)
    qed (use f False in \<open>simp add: user_map_def\<close>)
  qed
qed

text \<open>A request of a user, with what the environment decides for it.\<close>

datatype user_op = PutUser user_env string string | DeleteUser user_env string

fun user_step :: "user_world \<Rightarrow> user_op \<Rightarrow> user_world \<times> http_response" where
  "user_step w (PutUser ue key content) = user_handlePut ue w key content"
| "user_step w (DeleteUser ue key) = user_handleDelete ue w key"

fun user_effect :: "(string \<rightharpoonup> string) \<Rightarrow> user_op \<Rightarrow> (string \<rightharpoonup> string)" where
  "user_effect m (PutUser ue key content) = m(key \<mapsto> content)"
| "user_effect m (DeleteUser ue key) = m(key := None)"

text \<open>A put with a key, a fresh id and a write that completes.\<close>

fun user_op_ok :: "user_world \<Rightarrow> user_op \<Rightarrow> bool" where
  "user_op_ok w (PutUser ue key content) \<longleftrightarrow> key \<noteq> [] \<and> ue_write ue = WriteDone \<and> ue_uuid ue \<notin> ua_ID ` set (ad_user (uw_db w))"
| "user_op_ok w (DeleteUser ue key) \<longleftrightarrow> True"

lemma mkeys_Storage_Delete: "is_go_map files \<Longrightarrow> is_go_map (Storage_Delete r files fid) \<and>
    (\<forall>k. k \<noteq> fid \<longrightarrow> map_of (Storage_Delete r files fid) k = map_of files k)"
  by (simp add: Storage_Delete_def)

lemma put_step:
  assumes "user_ok w" "user_op_ok w (PutUser ue key content)" "user_handlePut ue w key content = (w', r)"
  shows "user_ok w' \<and> user_map w' = (user_map w)(key \<mapsto> content) \<and> hr_Code r = (if user_map w key = None then 201 else 200)"
proof -
  let ?db = "uw_db w" let ?rows = "ad_user (uw_db w)"
  have ok: "ad_faults ?db = []" "distinct (map ua_ID ?rows)" "distinct (map ua_Key ?rows)" "is_go_map (uw_files w)"
    "\<forall>a \<in> set ?rows. ua_ID a \<in> mkeys (uw_files w)" using assms(1) by (simp_all add: user_ok_def)
  have op: "key \<noteq> []" "ue_write ue = WriteDone" "ue_uuid ue \<notin> ua_ID ` set ?rows" using assms(2) by simp_all
  have st: "statement ?db = (?db, False)" using ok(1) by (simp add: statement_def)
  define ex where "ex = user_by_key ?db key"
  define fid where "fid = (case ex of None \<Rightarrow> ue_uuid ue | Some a \<Rightarrow> ua_ID a)"
  define files where "files = (case ex of None \<Rightarrow> uw_files w | Some a \<Rightarrow> Storage_Delete (ue_removed ue) (uw_files w) (ua_ID a))"
  define info where "info = \<lparr>wi_ActualPath = Storage_ActualPath (ue_baseDir ue) fid, wi_Size = int (length content),
            wi_SHA256 = hg_sha (ue_hash ue) content, wi_MIMEType = hg_mime (ue_hash ue) (take 512 content)\<rparr>"
  define a where "a = \<lparr>ua_ID = fid, ua_Key = key, ua_ActualPath = wi_ActualPath info, ua_Filename = lastPathSegment key,
     ua_Size = wi_Size info, ua_MIMEType = wi_MIMEType info, ua_ContentSHA = wi_SHA256 info,
     ua_CreatedAt = (case ex of None \<Rightarrow> ue_now ue | Some a \<Rightarrow> ua_CreatedAt a), ua_UpdatedAt = ue_now ue\<rparr>"
  have idkey: "\<forall>r \<in> set ?rows. ua_ID r = ua_ID a \<longrightarrow> ua_Key r = ua_Key a"
  proof (cases ex)
    case None
    then have "ua_ID a \<notin> ua_ID ` set ?rows" using op(3) by (simp add: a_def fid_def)
    then show ?thesis by (metis imageI)
  next
    case (Some b)
    then have "b \<in> set ?rows" "ua_Key b = key" using find_key unfolding ex_def user_by_key_def by blast+
    with Some row_of_id [OF ok(2)] show ?thesis by (fastforce simp: a_def fid_def)
  qed
  note sv = saved_rows [OF ok(2,3) idkey]
  have fl: "is_go_map files" "\<forall>k. k \<noteq> fid \<longrightarrow> map_of files k = map_of (uw_files w) k"
    using ok(4) mkeys_Storage_Delete [OF ok(4)] by (simp_all add: files_def fid_def split: option.split)
  let ?w = "\<lparr>uw_db = ?db\<lparr>ad_user := filter (\<lambda>r. ua_Key r \<noteq> ua_Key a) ?rows @ [a]\<rparr>, uw_files = massign fid content files\<rparr>"
  have "w' = ?w \<and> hr_Code r = (if ex \<noteq> None then 200 else 201)"
  proof -
    have "(case ex of None \<Rightarrow> (ue_uuid ue, uw_files w) | Some a \<Rightarrow> (ua_ID a, Storage_Delete (ue_removed ue) (uw_files w) (ua_ID a)))
      = (fid, files)" by (simp add: fid_def files_def split: option.split)
    moreover have "Storage_Write (ue_hash ue) (ue_baseDir ue) (ue_write ue) files fid content = (massign fid content files, Some info)"
      using op(2) by (simp add: Storage_Write_def info_def)
    moreover have "SaveUserArtifact ?db a = (?db\<lparr>ad_user := filter (\<lambda>r. ua_Key r \<noteq> ua_Key a) ?rows @ [a]\<rparr>, False)"
      using st sv(1) by (simp add: SaveUserArtifact_def)
    ultimately show ?thesis
      using assms(3) op(1) st unfolding a_def by (auto simp: user_handlePut_def GetUserArtifactByKey_def ex_def [symmetric] Let_def)
  qed
  then have w': "w' = ?w" "hr_Code r = (if ex \<noteq> None then 200 else 201)" by simp_all
  have m: "user_map w' = (user_map w)(key \<mapsto> content)"
    using user_rows_map [OF ok(4), of w' a content] w'(1) fl(2) idkey by (simp add: a_def)
  have "ua_ID x \<in> mkeys (uw_files w')" if "x \<in> set (ad_user (uw_db w'))" for x
  proof (cases "ua_ID x = fid")
    case True then show ?thesis using w'(1) by simp
  next
    case False
    then have "x \<in> set ?rows" using that w'(1) by (auto simp: a_def)
    with ok(5) False fl(2) w'(1) show ?thesis by (simp add: mkeys_map_of)
  qed
  then have "user_ok w'" using w'(1) ok(1) sv(2,3) fl(1) by (simp add: user_ok_def)
  moreover have "ex = None \<longleftrightarrow> user_map w key = None"
  proof (cases ex)
    case (Some b)
    then have "b \<in> set ?rows" using find_key unfolding ex_def user_by_key_def by blast
    then show ?thesis using ok(5) Some by (auto simp: user_map_def ex_def [symmetric] mkeys_map_of)
  qed (simp add: user_map_def ex_def [symmetric])
  ultimately show ?thesis using m w'(2) by auto
qed

lemma delete_step:
  assumes "user_ok w" "user_handleDelete ue w key = (w', r)"
  shows "user_ok w' \<and> user_map w' = (user_map w)(key := None) \<and> hr_Code r = (if user_map w key = None then 404 else 204)"
proof -
  let ?db = "uw_db w" let ?rows = "ad_user (uw_db w)"
  have ok: "ad_faults ?db = []" "distinct (map ua_ID ?rows)" "distinct (map ua_Key ?rows)" "is_go_map (uw_files w)"
    "\<forall>a \<in> set ?rows. ua_ID a \<in> mkeys (uw_files w)" using assms(1) by (simp_all add: user_ok_def)
  have st: "statement ?db = (?db, False)" using ok(1) by (simp add: statement_def)
  show ?thesis
  proof (cases "user_by_key ?db key")
    case None
    then have "w' = w" "hr_Code r = 404" "user_map w key = None"
      using assms(2) st by (auto simp: user_handleDelete_def GetUserArtifactByKey_def http_Error_def user_map_def)
    then show ?thesis using assms(1) by (simp add: fun_upd_idem)
  next
    case (Some a)
    then have a: "a \<in> set ?rows" "ua_Key a = key" using find_key unfolding user_by_key_def by blast+
    let ?left = "filter (\<lambda>r. ua_Key r \<noteq> key) ?rows"
    have w': "w' = \<lparr>uw_db = ?db\<lparr>ad_user := ?left\<rparr>, uw_files = Storage_Delete (ue_removed ue) (uw_files w) (ua_ID a)\<rparr>"
      and r: "hr_Code r = 204"
      using assms(2) st Some by (auto simp: user_handleDelete_def GetUserArtifactByKey_def DeleteUserArtifact_def)
    have fl: "is_go_map (uw_files w')" "\<forall>k. k \<noteq> ua_ID a \<longrightarrow> map_of (uw_files w') k = map_of (uw_files w) k"
      using mkeys_Storage_Delete [OF ok(4)] w' by simp_all
    have ids: "ua_ID x \<noteq> ua_ID a" if "x \<in> set ?rows" "ua_Key x \<noteq> key" for x
      using row_of_id [OF ok(2) that(1) a(1)] that(2) a(2) by blast
    have "ua_ID x \<in> mkeys (uw_files w')" if "x \<in> set ?left" for x
      using that ids [of x] fl(2) ok(5) by (auto simp: mkeys_map_of)
    then have "user_ok w'" using w' ok fl(1) by (auto simp: user_ok_def distinct_map_filter)
    moreover have "user_map w' = (user_map w)(key := None)"
    proof
      fix k
      show "user_map w' k = ((user_map w)(key := None)) k"
      proof (cases "k = key")
        case True
        then show ?thesis using w' find_gone [of key ?rows] by (simp add: user_map_def user_by_key_def)
      next
        case False
        then have f: "user_by_key (uw_db w') k = user_by_key ?db k" using w' find_other [of k key ?rows] by (simp add: user_by_key_def)
        show ?thesis
        proof (cases "user_by_key ?db k")
          case (Some b)
          then have "b \<in> set ?rows" "ua_Key b = k" using find_key unfolding user_by_key_def by blast+
          with ids [of b] False f Some fl(2) show ?thesis by (simp add: user_map_def)
        qed (use f False in \<open>simp add: user_map_def\<close>)
      qed
    qed
    moreover have "user_map w key \<noteq> None" using ok(5) a(1) Some by (simp add: user_map_def mkeys_map_of)
    ultimately show ?thesis using r by simp
  qed
qed

definition user_run :: "user_world \<Rightarrow> user_op list \<Rightarrow> user_world" where
  "user_run w xs = foldl (\<lambda>w x. fst (user_step w x)) w xs"

fun user_ops_ok :: "user_world \<Rightarrow> user_op list \<Rightarrow> bool" where
  "user_ops_ok w [] \<longleftrightarrow> True"
| "user_ops_ok w (x # xs) \<longleftrightarrow> user_op_ok w x \<and> user_ops_ok (fst (user_step w x)) xs"

lemma user_step_refines:
  assumes "user_ok w" "user_op_ok w x"
  shows "user_ok (fst (user_step w x)) \<and> user_map (fst (user_step w x)) = user_effect (user_map w) x"
proof (cases x)
  case (PutUser ue key content)
  obtain w' r where "user_handlePut ue w key content = (w', r)" by (cases "user_handlePut ue w key content")
  with put_step [of w ue key content w' r] assms PutUser show ?thesis by simp
next
  case (DeleteUser ue key)
  obtain w' r where "user_handleDelete ue w key = (w', r)" by (cases "user_handleDelete ue w key")
  with delete_step [of w ue key w' r] assms DeleteUser show ?thesis by simp
qed

interpretation user_store: map_refinement "\<lambda>w x. fst (user_step w x)" user_ops_ok user_ok user_map user_effect
  by unfold_locales (simp add: user_step_refines)

lemma content_is_map:
  assumes "user_ok w"
  shows "(case user_map w key of
      None \<Rightarrow> hr_Code (snd (user_handleContent w key)) = 404
    | Some c \<Rightarrow> \<exists>mime name. snd (user_handleContent w key) = \<lparr>hr_Code = 200, hr_Body = Download mime name c\<rparr>)"
proof -
  have st: "statement (uw_db w) = (uw_db w, False)" using assms by (simp add: user_ok_def statement_def)
  show ?thesis
  proof (cases "user_by_key (uw_db w) key")
    case (Some a)
    then have "a \<in> set (ad_user (uw_db w))" using find_key unfolding user_by_key_def by blast
    then obtain c where "map_of (uw_files w) (ua_ID a) = Some c" using assms by (auto simp: user_ok_def mkeys_map_of)
    with Some st show ?thesis by (simp add: user_handleContent_def GetUserArtifactByKey_def Storage_Read_def user_map_def)
  qed (use st in \<open>simp add: user_handleContent_def GetUserArtifactByKey_def user_map_def http_Error_def\<close>)
qed

text \<open>
  C37. The user artifacts refine a map from keys to contents: after any sequence of puts (with fresh ids and
  complete writes) and deletes, a download of a key answers with the content that was last put under it,
  and 404 when there is none; the ids and the keys stay unique and every row keeps its file, whether or not
  the operating system managed to remove the old ones.
\<close>

theorem user_artifacts_refine_map:
  assumes "user_ok w" "user_ops_ok w xs"
  shows "user_ok (user_run w xs) \<and>
    (case foldl user_effect (user_map w) xs key of
       None \<Rightarrow> hr_Code (snd (user_handleContent (user_run w xs) key)) = 404
     | Some c \<Rightarrow> \<exists>mime name. snd (user_handleContent (user_run w xs) key) = \<lparr>hr_Code = 200, hr_Body = Download mime name c\<rparr>)"
proof -
  have "user_ok (user_run w xs) \<and> user_map (user_run w xs) = foldl user_effect (user_map w) xs"
    unfolding user_run_def by (rule user_store.run_refines [OF assms])
  with content_is_map [of "user_run w xs" key] show ?thesis by simp
qed

definition sample_engine :: engine where
  "sample_engine = \<lparr>en_civil = (\<lambda>_. []), en_sort_sys = (\<lambda>_ es. es), en_sort_user = (\<lambda>_ as. as), en_glob = (\<lambda>p k. Some (p = k))\<rparr>"

definition sample_user_env :: "string \<Rightarrow> bool \<Rightarrow> write_end \<Rightarrow> user_env" where
  "sample_user_env uuid removed io = \<lparr>ue_engine = sample_engine, ue_hash = \<lparr>hg_sha = (\<lambda>_. ''sha''), hg_mime = (\<lambda>_. ''text/plain'')\<rparr>,
     ue_baseDir = ''/data'', ue_uuid = uuid, ue_now = 5, ue_removed = removed, ue_write = io\<rparr>"

definition empty_artifacts :: user_world where
  "empty_artifacts = \<lparr>uw_db = \<lparr>ad_sessions = [], ad_events = [], ad_user = [], ad_nextID = 1, ad_faults = []\<rparr>, uw_files = []\<rparr>"

theorem user_artifacts_refine_map_witness:
  "\<exists>mime name. snd (user_handleContent (user_run empty_artifacts
      [PutUser (sample_user_env ''1'' True WriteDone) ''a'' ''x'', PutUser (sample_user_env ''2'' True WriteDone) ''b'' ''y'',
       PutUser (sample_user_env ''3'' False WriteDone) ''a'' ''z'', DeleteUser (sample_user_env [] False WriteDone) ''b'']) ''a'')
    = \<lparr>hr_Code = 200, hr_Body = Download mime name ''z''\<rparr>"
proof -
  let ?xs = "[PutUser (sample_user_env ''1'' True WriteDone) ''a'' ''x'', PutUser (sample_user_env ''2'' True WriteDone) ''b'' ''y'',
       PutUser (sample_user_env ''3'' False WriteDone) ''a'' ''z'', DeleteUser (sample_user_env [] False WriteDone) ''b'']"
  have "user_ok empty_artifacts" by code_simp
  moreover have "user_ops_ok empty_artifacts ?xs" by code_simp
  moreover have "foldl user_effect (user_map empty_artifacts) ?xs ''a'' = Some ''z''" by simp
  ultimately show ?thesis using user_artifacts_refine_map [of empty_artifacts ?xs "''a''"] by (simp del: user_effect.simps foldl_Cons)
qed

text \<open>
  A put over an existing artifact removes the old file before the new one is written. When the write fails
  then, the row stays and describes content that is gone: the download answers 404, the listing shows it.
\<close>

lemma failed_upload_loses_content:
  assumes "user_ok w" "user_by_key (uw_db w) key = Some a" "key \<noteq> []" "ue_removed ue" "ue_write ue = CreateFails"
    and "user_handlePut ue w key content = (w', r)"
  shows "hr_Code r = 500 \<and> user_by_key (uw_db w') key = Some a \<and> hr_Code (snd (user_handleContent w' key)) = 404"
proof -
  have st: "statement (uw_db w) = (uw_db w, False)" and m: "is_go_map (uw_files w)"
    using assms(1) by (simp_all add: user_ok_def statement_def)
  have w': "w' = \<lparr>uw_db = uw_db w, uw_files = mdelete (ua_ID a) (uw_files w)\<rparr>" and r: "hr_Code r = 500"
    using assms st by (auto simp: user_handlePut_def GetUserArtifactByKey_def Storage_Delete_def Storage_Write_def http_Error_def)
  have "map_of (mdelete (ua_ID a) (uw_files w)) (ua_ID a) = None" using m by simp
  with w' r assms(2) st show ?thesis by (simp add: user_handleContent_def GetUserArtifactByKey_def Storage_Read_def http_Error_def)
qed

text \<open>A key that ends in \<open>/content\<close> cannot be stored: the router takes the suffix for the download.\<close>

lemma content_keys_unreachable:
  assumes "TrimByte (CHR ''/'') (TrimPrefix (ur_Path q) ''/api/v1/artifacts/user/'') = key" "HasSuffix key ''/content''"
    and "ur_Method q \<in> {''PUT'', ''DELETE''}"
  shows "fst (user_routeByKey ue w q) = w \<and> hr_Code (snd (user_routeByKey ue w q)) = 405"
  using assms by (auto simp: user_routeByKey_def http_Error_def)

section \<open>Keys and the files they name\<close>

lemma clean_comps_no_dots:
  "''..'' \<notin> set cs \<Longrightarrow> clean_comps r out cs = rev out @ filter (\<lambda>c. c \<noteq> [] \<and> c \<noteq> ''.'') cs"
  by (induction cs arbitrary: out) auto

lemma clean_comps_append: "clean_comps r out (xs @ ys) = clean_comps r (rev (clean_comps r out xs)) ys"
  by (induction r out xs rule: clean_comps.induct) (auto split: list.split)

lemma validated_key:
  assumes "validateSystemKey raw = Inr k"
  shows "\<exists>cs. cs \<noteq> [] \<and> list_all plain_comp cs \<and> k = Join cs ''/'' \<and> \<not> IsAbs k"
proof -
  let ?key = "TrimSpace raw"
  let ?cs = "filter (\<lambda>c. c \<noteq> [] \<and> c \<noteq> ''.'') (SplitByte (CHR ''/'') ?key)"
  have v: "\<not> IsAbs ?key" "''..'' \<notin> set (SplitByte (CHR ''/'') ?key)" "filepath_Clean ?key = k" "k \<noteq> ''.''"
    using assms by (auto simp: validateSystemKey_def Let_def split: if_splits)
  then have c: "clean_path ?key = (False, ?cs)" using clean_comps_no_dots by (simp add: clean_path_def)
  with v(3,4) have k: "?cs \<noteq> []" "k = Join ?cs ''/''" by (auto simp: filepath_Clean_def show_path_def split: if_splits)
  have pl: "list_all plain_comp ?cs" using v(2) SplitByte_no_sep by (fastforce simp: list_all_iff plain_comp_def real_comp_def)
  obtain x xs where xs: "?cs = x # xs" using k(1) by (cases ?cs) auto
  with pl have "x \<noteq> []" "CHR ''/'' \<notin> set x" by (simp_all add: plain_comp_def real_comp_def)
  then have "\<not> IsAbs k" using k(2) xs by (cases x; cases xs) (auto simp: IsAbs_def)
  with k pl show ?thesis by blast
qed

lemma key_inside:
  assumes "IsAbs wd" "validateSystemKey raw = Inr k"
  shows "inside wd (filepath_Clean (filepath_Join wd k))"
proof -
  obtain cs where cs: "cs \<noteq> []" "list_all plain_comp cs" "k = Join cs ''/''" using validated_key [OF assms(2)] by blast
  have sp: "SplitByte (CHR ''/'') k = cs"
    using cs SplitByte_Join [of "CHR ''/''" cs] by (auto simp: list_all_iff plain_comp_def real_comp_def)
  have ne: "wd \<noteq> []" "k \<noteq> []" using assms(1) sp cs by (auto simp: IsAbs_def plain_comp_def real_comp_def)
  let ?p = "wd @ ''/'' @ k"
  have j: "filepath_Join wd k = filepath_Clean ?p" using ne by (simp add: filepath_Join_def)
  have abs_p: "IsAbs ?p" using Join_abs [OF assms(1) ne(2)] by simp
  have "clean_path ?p = (True, snd (clean_path wd) @ cs)"
    using abs_p assms(1) sp SplitByte_append [of "CHR ''/''" wd k] clean_comps_id [OF cs(2)]
    by (simp add: clean_path_def clean_comps_append)
  then have "clean_path (filepath_Clean (filepath_Join wd k)) = (True, snd (clean_path wd) @ cs)"
    using abs_p clean_path_Clean [of ?p] Clean_Clean [OF abs_p] j by simp
  moreover have "IsAbs (filepath_Clean (filepath_Join wd k))"
    using calculation by (metis clean_path_def fst_conv)
  ultimately show ?thesis by (simp add: inside_def)
qed

lemma saved_event:
  assumes "save_and_answer se db req key p op code status = (db', r)" "hr_Code r = code" "code \<noteq> 400" "code \<noteq> 500"
  shows "\<exists>t fs. parseOccurredAt se (wr_OccurredAt req) = Inr t \<and>
    db' = db\<lparr>ad_faults := fs, ad_events := ad_events db @ [(requested_event req key p op t)\<lparr>sa_ID := ad_nextID db\<rparr>],
      ad_nextID := ad_nextID db + 1\<rparr> \<and> fs = tl (ad_faults db)"
  using assms by (auto simp: save_and_answer_def http_Error_def SaveSystemArtifactEvent_def statement_def Let_def
      split: sum.splits list.splits bool.splits prod.splits if_splits)

lemma statement_keeps: "statement db = (db', b) \<Longrightarrow> ad_events db' = ad_events db \<and> ad_nextID db' = ad_nextID db"
  by (auto simp: statement_def split: list.splits)

lemma GetSystemArtifactByKey_eq:
  "GetSystemArtifactByKey en db key = (db1, es) \<Longrightarrow> ad_events db1 = ad_events db \<and> ad_nextID db1 = ad_nextID db \<and>
     (es = None \<or> es = Some (events_of_key en db key))"
  by (auto simp: GetSystemArtifactByKey_def events_of_key_def dest: statement_keeps split: prod.splits bool.splits)

lemma save_and_answer_cases:
  "save_and_answer se db req key p op code status = (db', r) \<Longrightarrow> hr_Code r \<in> {400, 500, code}"
  by (auto simp: save_and_answer_def http_Error_def write_response_def Let_def split: sum.splits prod.splits bool.splits)

lemma recorded:
  "sa_Key ((requested_event req key p op t)\<lparr>sa_ID := n\<rparr>) = key"
  "sa_ActualPath ((requested_event req key p op t)\<lparr>sa_ID := n\<rparr>) = p"
  "sa_Operation ((requested_event req key p op t)\<lparr>sa_ID := n\<rparr>) = op"
  "sa_OccurredAt ((requested_event req key p op t)\<lparr>sa_ID := n\<rparr>) = t"
  by (simp_all add: requested_event_def)

text \<open>What an accepted put has recorded.\<close>

lemma put_accepted:
  assumes "handlePutByKey se db raw body = (db', r)" "hr_Code r \<in> {200, 201}"
  shows "\<exists>key req p t. validateSystemKey raw = Inr key \<and> decodeJSONBody empty_write body = Some req \<and>
    resolveActualPath se (wr_SessionID req) key (wr_ActualPath req) = Inr p \<and> se_exists se p \<and>
    parseOccurredAt se (wr_OccurredAt req) = Inr t \<and>
    ad_events db' = ad_events db @ [(requested_event req key p
      (if hr_Code r = 200 then OperationUpdate else OperationCreate) t)\<lparr>sa_ID := ad_nextID db\<rparr>] \<and>
    (hr_Code r = 200 \<longleftrightarrow> latestOperation (events_of_key (se_engine se) db key) \<notin> {[], OperationDelete})"
proof -
  obtain key where key: "validateSystemKey raw = Inr key"
    using assms by (auto simp: handlePutByKey_def http_Error_def split: sum.splits)
  obtain req where req: "decodeJSONBody empty_write body = Some req"
    using assms key by (auto simp: handlePutByKey_def http_Error_def split: option.splits)
  have sid: "TrimSpace (wr_SessionID req) \<noteq> []" using assms key req by (auto simp: handlePutByKey_def http_Error_def)
  obtain p where p: "resolveActualPath se (wr_SessionID req) key (wr_ActualPath req) = Inr p"
    using assms key req sid by (auto simp: handlePutByKey_def http_Error_def split: sum.splits)
  have ex: "se_exists se p" using assms key req sid p by (auto simp: handlePutByKey_def http_Error_def split: if_splits)
  obtain db1 es where g: "GetSystemArtifactByKey (se_engine se) db key = (db1, es)" by (cases "GetSystemArtifactByKey (se_engine se) db key")
  note same = GetSystemArtifactByKey_eq [OF g]
  have "es \<noteq> None" using assms key req sid p ex g by (cases es) (auto simp: handlePutByKey_def http_Error_def)
  with same have es: "es = Some (events_of_key (se_engine se) db key)" by simp
  let ?lo = "latestOperation (events_of_key (se_engine se) db key)"
  have h: "(if ?lo \<noteq> [] \<and> ?lo \<noteq> OperationDelete then save_and_answer se db1 req key p OperationUpdate 200 ''updated''
     else save_and_answer se db1 req key p OperationCreate 201 ''created'') = (db', r)"
    using assms(1) key req sid p ex g es by (simp add: handlePutByKey_def Let_def)
  show ?thesis
  proof (cases "?lo \<noteq> [] \<and> ?lo \<noteq> OperationDelete")
    case True
    then have s: "save_and_answer se db1 req key p OperationUpdate 200 ''updated'' = (db', r)" using h by simp
    then have c: "hr_Code r = 200" using save_and_answer_cases [OF s] assms(2) by auto
    from saved_event [OF s c] show ?thesis using key req p ex same True c by auto
  next
    case False
    then have s: "save_and_answer se db1 req key p OperationCreate 201 ''created'' = (db', r)" using h by (simp only: if_False)
    then have c: "hr_Code r = 201" using save_and_answer_cases [OF s] assms(2) by auto
    from saved_event [OF s c] show ?thesis using key req p ex same False c by auto
  qed
qed

text \<open>
  A put without \<open>actual_path\<close> records a file of the session: when it is accepted, one event is appended,
  under the cleaned key, for an existing path inside the session's working directory whatever the key was,
  and it is an update (200) exactly when the latest event of the key was a create or an update.
\<close>

theorem put_default_confined:
  assumes "handlePutByKey se db raw body = (db', r)" "hr_Code r \<in> {200, 201}"
    and "decodeJSONBody empty_write body = Some req" "TrimSpace (wr_ActualPath req) = []"
    and "lookupWorkDir se (wr_SessionID req) = Some wd" "IsAbs wd"
  shows "\<exists>e key. validateSystemKey raw = Inr key \<and> ad_events db' = ad_events db @ [e] \<and> sa_Key e = key \<and>
    se_exists se (sa_ActualPath e) \<and> inside wd (sa_ActualPath e) \<and>
    (hr_Code r = 200 \<longleftrightarrow> latestOperation (events_of_key (se_engine se) db key) \<notin> {[], OperationDelete}) \<and>
    sa_Operation e = (if hr_Code r = 200 then OperationUpdate else OperationCreate)"
  using put_accepted [OF assms(1,2)]
proof (elim exE conjE)
  fix key req' p t
  assume h: "validateSystemKey raw = Inr key"
    "resolveActualPath se (wr_SessionID req') key (wr_ActualPath req') = Inr p" "se_exists se p"
    "ad_events db' = ad_events db @ [(requested_event req' key p
      (if hr_Code r = 200 then OperationUpdate else OperationCreate) t)\<lparr>sa_ID := ad_nextID db\<rparr>]"
    "hr_Code r = 200 \<longleftrightarrow> latestOperation (events_of_key (se_engine se) db key) \<notin> {[], OperationDelete}"
    and req': "decodeJSONBody empty_write body = Some req'"
  have eq: "req' = req" using req' assms(3) by simp
  have "p = filepath_Clean (filepath_Join wd key)" using h(2) eq assms(4,5) by (simp add: resolveActualPath_def)
  then have "inside wd p" using key_inside [OF assms(6) h(1)] by simp
  then show ?thesis using h(3,5)
    by (intro exI [of _ "(requested_event req' key p (if hr_Code r = 200 then OperationUpdate else OperationCreate) t)\<lparr>sa_ID := ad_nextID db\<rparr>"]
        exI [of _ key] conjI h(1) h(4)) (simp_all only: recorded)
qed

definition sample_system_env :: "(string \<Rightarrow> go_time option) \<Rightarrow> system_env" where
  "sample_system_env parse = \<lparr>se_engine = sample_engine, se_exists = (\<lambda>_. True), se_read = (\<lambda>p. Some (''content of '' @ p)),
     se_workDir = Some (\<lambda>_. Some ''/w''), se_abs = Some, se_parseNano = parse, se_parse = parse, se_now = 7\<rparr>"

definition sample_write :: "string \<Rightarrow> string \<Rightarrow> systemArtifactWriteRequest request_body" where
  "sample_write p t = Decoded (empty_write\<lparr>wr_SessionID := ''s'', wr_ActualPath := p, wr_OccurredAt := t\<rparr>)"

theorem put_default_confined_witness:
  "\<exists>e key. validateSystemKey ''a//./b.txt'' = Inr key \<and>
    ad_events (fst (handlePutByKey (sample_system_env (\<lambda>_. None)) (uw_db empty_artifacts) ''a//./b.txt'' (sample_write [] []))) = [e] \<and>
    inside ''/w'' (sa_ActualPath e)"
proof -
  let ?se = "sample_system_env (\<lambda>_. None)" let ?req = "empty_write\<lparr>wr_SessionID := ''s'', wr_ActualPath := [], wr_OccurredAt := []\<rparr>"
  let ?a = "handlePutByKey ?se (uw_db empty_artifacts) ''a//./b.txt'' (sample_write [] [])"
  have "hr_Code (snd ?a) = 201" by code_simp
  then have r: "hr_Code (snd ?a) \<in> {200, 201}" by simp
  have q: "decodeJSONBody empty_write (sample_write [] []) = Some ?req" by (simp add: sample_write_def decodeJSONBody_def)
  have w: "TrimSpace (wr_ActualPath ?req) = []" "lookupWorkDir ?se (wr_SessionID ?req) = Some ''/w''" "IsAbs ''/w''" by code_simp+
  have e: "ad_events (uw_db empty_artifacts) = []" by (simp add: empty_artifacts_def)
  from put_default_confined [OF surjective_pairing [of ?a] r q w] show ?thesis unfolding e by auto
qed

section \<open>Deleted stays deleted\<close>

text \<open>What the documentation of SQLite says of \<open>ORDER BY\<close>: a sorted permutation of the selected rows.\<close>

definition total_preorder :: "('a \<Rightarrow> 'a \<Rightarrow> bool) \<Rightarrow> bool" where
  "total_preorder le \<longleftrightarrow> (\<forall>x y. le x y \<or> le y x) \<and> (\<forall>x y z. le x y \<longrightarrow> le y z \<longrightarrow> le x z)"

definition sql_sorts :: "engine \<Rightarrow> bool" where
  "sql_sorts en \<longleftrightarrow> (\<forall>le es. total_preorder le \<longrightarrow> mset (en_sort_sys en le es) = mset es \<and> sorted_wrt le (en_sort_sys en le es))"

definition later_than_all :: "engine \<Rightarrow> artifact_db \<Rightarrow> string \<Rightarrow> go_time \<Rightarrow> bool" where
  "later_than_all en db key t \<longleftrightarrow> (\<forall>e \<in> set (ad_events db). sa_Key e = key \<longrightarrow>
     RFC3339Nano (en_civil en) (sa_OccurredAt e) < RFC3339Nano (en_civil en) t)"

lemma system_le_total: "total_preorder (system_le en srt)"
  by (auto simp: total_preorder_def system_le_def Let_def)

lemma latest_appended:
  assumes "sql_sorts en" "ad_events db' = ad_events db @ [e]" "sa_Key e = key" "later_than_all en db key (sa_OccurredAt e)"
  shows "latestOperation (events_of_key en db' key) = sa_Operation e"
proof -
  let ?le = "system_le en []"
  let ?sel = "filter (\<lambda>e. sa_Key e = key) (ad_events db) @ [e]"
  let ?l = "events_of_key en db' key"
  have s: "mset ?l = mset ?sel" "sorted_wrt ?le ?l"
    using assms(1-3) system_le_total by (simp_all add: events_of_key_def sql_sorts_def)
  then have set: "set ?l = insert e (set (filter (\<lambda>e. sa_Key e = key) (ad_events db)))"
    using mset_eq_setD [OF s(1)] by auto
  then have ne: "?l \<noteq> []" by auto
  have "last ?l = e"
  proof (rule ccontr)
    assume neq: "last ?l \<noteq> e"
    have l: "?l = butlast ?l @ [last ?l]" using ne by simp
    have "e \<in> set ?l" using set by simp
    with l neq have "e \<in> set (butlast ?l)" by (metis in_set_butlast_appendI set_ConsD UnE append_butlast_last_id ne set_append empty_iff list.set(1))
    then have "?le e (last ?l)" using s(2) l by (metis sorted_wrt_append list.set_intros(1))
    moreover have "last ?l \<in> set (filter (\<lambda>e. sa_Key e = key) (ad_events db))" using set ne neq last_in_set [OF ne] by blast
    then have "RFC3339Nano (en_civil en) (sa_OccurredAt (last ?l)) < RFC3339Nano (en_civil en) (sa_OccurredAt e)"
      using assms(4) by (simp add: later_than_all_def)
    ultimately show False by (simp add: system_le_def safeSystemSortCol_def)
  qed
  with ne show ?thesis by (simp add: latestOperation_def)
qed

text \<open>What an accepted delete has recorded.\<close>

lemma delete_accepted:
  assumes "handleDeleteByKey se db raw body = (db', r)" "hr_Code r = 200"
  shows "\<exists>key req p t. validateSystemKey raw = Inr key \<and> decodeJSONBody empty_write body = Some req \<and>
    parseOccurredAt se (wr_OccurredAt req) = Inr t \<and>
    ad_events db' = ad_events db @ [(requested_event req key p OperationDelete t)\<lparr>sa_ID := ad_nextID db\<rparr>] \<and>
    latestOperation (events_of_key (se_engine se) db key) \<notin> {[], OperationDelete}"
proof -
  obtain key where key: "validateSystemKey raw = Inr key"
    using assms by (auto simp: handleDeleteByKey_def http_Error_def split: sum.splits)
  obtain req where req: "decodeJSONBody empty_write body = Some req"
    using assms key by (auto simp: handleDeleteByKey_def http_Error_def split: option.splits)
  have sid: "TrimSpace (wr_SessionID req) \<noteq> []" using assms key req by (auto simp: handleDeleteByKey_def http_Error_def)
  obtain db1 es where g: "GetSystemArtifactByKey (se_engine se) db key = (db1, es)" by (cases "GetSystemArtifactByKey (se_engine se) db key")
  note same = GetSystemArtifactByKey_eq [OF g]
  have "es \<noteq> None" using assms key req sid g by (cases es) (auto simp: handleDeleteByKey_def http_Error_def)
  with same have es: "es = Some (events_of_key (se_engine se) db key)" by simp
  have alive: "latestOperation (events_of_key (se_engine se) db key) \<notin> {[], OperationDelete}"
    using assms key req sid g es by (auto simp: handleDeleteByKey_def http_Error_def split: if_splits)
  have "\<exists>p. save_and_answer se db1 req key p OperationDelete 200 ''deleted'' = (db', r)"
  proof (cases "TrimSpace (wr_ActualPath req) \<noteq> []")
    case True
    then show ?thesis using assms key req sid g es alive
      by (auto simp: handleDeleteByKey_def http_Error_def split: sum.splits)
  next
    case False
    then show ?thesis using assms key req sid g es alive
      by (simp add: handleDeleteByKey_def Let_def) blast
  qed
  then obtain p where s: "save_and_answer se db1 req key p OperationDelete 200 ''deleted'' = (db', r)" by blast
  from saved_event [OF s assms(2)] obtain t where "parseOccurredAt se (wr_OccurredAt req) = Inr t"
    "ad_events db' = ad_events db1 @ [(requested_event req key p OperationDelete t)\<lparr>sa_ID := ad_nextID db1\<rparr>]" by auto
  with key req same alive show ?thesis by auto
qed

lemma dead_key:
  assumes "validateSystemKey raw = Inr key" "latestOperation (events_of_key (se_engine se) db key) \<in> {[], OperationDelete}"
  shows "hr_Code (snd (handleDeleteByKey se db raw body)) \<noteq> 200 \<and> hr_Code (snd (handlePutByKey se db raw body)) \<noteq> 200"
proof (intro conjI notI)
  assume c: "hr_Code (snd (handleDeleteByKey se db raw body)) = 200"
  from delete_accepted [OF surjective_pairing c] assms show False by auto
next
  assume c: "hr_Code (snd (handlePutByKey se db raw body)) = 200"
  then have "hr_Code (snd (handlePutByKey se db raw body)) \<in> {200, 201}" by simp
  from put_accepted [OF surjective_pairing this] assms c show False by auto
qed


fun insert_by :: "('a \<Rightarrow> 'a \<Rightarrow> bool) \<Rightarrow> 'a \<Rightarrow> 'a list \<Rightarrow> 'a list" where
  "insert_by le x [] = [x]"
| "insert_by le x (y # ys) = (if le x y then x # y # ys else y # insert_by le x ys)"

definition sort_by :: "('a \<Rightarrow> 'a \<Rightarrow> bool) \<Rightarrow> 'a list \<Rightarrow> 'a list" where
  "sort_by le xs = foldr (insert_by le) xs []"

lemma mset_insert_by: "mset (insert_by le x ys) = add_mset x (mset ys)"
  by (induction ys) auto

lemma sorted_insert_by: "total_preorder le \<Longrightarrow> sorted_wrt le ys \<Longrightarrow> sorted_wrt le (insert_by le x ys)"
proof (induction ys)
  case (Cons y ys)
  have set: "set (insert_by le x ys) = insert x (set ys)" using mset_eq_setD [OF mset_insert_by [of le x ys, folded mset.simps(2)]] by simp
  from Cons show ?case
    by (auto simp: set) (auto simp: total_preorder_def)
qed simp

definition sorting_engine :: engine where
  "sorting_engine = sample_engine\<lparr>en_civil := Itoa, en_sort_sys := sort_by, en_sort_user := sort_by\<rparr>"

lemma sorting_engine_sorts: "sql_sorts sorting_engine"
proof -
  have "mset (sort_by le es) = mset es" for le and es :: "SystemArtifactEvent list"
    by (induction es) (simp_all add: sort_by_def mset_insert_by)
  moreover have "sorted_wrt le (sort_by le es)" if "total_preorder le" for le and es :: "SystemArtifactEvent list"
    using that by (induction es) (simp_all add: sort_by_def sorted_insert_by)
  ultimately show ?thesis by (simp add: sql_sorts_def sorting_engine_def)
qed

text \<open>Times of the sample environment: seconds, and one instant half a second after the fifth.\<close>

definition sample_parse :: "string \<Rightarrow> go_time option" where
  "sample_parse s = (if s = ''5'' then Some 5000000000 else if s = ''5.5'' then Some 5500000000 else if s = ''7'' then Some 7000000000 else None)"

definition sorting_env :: system_env where
  "sorting_env = (sample_system_env sample_parse)\<lparr>se_engine := sorting_engine\<rparr>"

definition created_at_5 :: artifact_db where
  "created_at_5 = fst (handlePutByKey sorting_env (uw_db empty_artifacts) ''a'' (sample_write [] ''5''))"


text \<open>
  The condition on the text matters: an artifact created on a whole second and deleted half a second later
  keeps its creation as the latest event, so it can be deleted again.
\<close>

definition deleted_at_5_5 :: artifact_db where
  "deleted_at_5_5 = fst (handleDeleteByKey sorting_env created_at_5 ''a'' (sample_write [] ''5.5''))"

definition event_5 :: SystemArtifactEvent where
  "event_5 = (requested_event (empty_write\<lparr>wr_SessionID := ''s''\<rparr>) ''a'' ''/w/a'' OperationCreate 5000000000)\<lparr>sa_ID := 1\<rparr>"

definition deletion_5_5 :: SystemArtifactEvent where
  "deletion_5_5 = (requested_event (empty_write\<lparr>wr_SessionID := ''s''\<rparr>) ''a'' ''/w/a'' OperationDelete 5500000000)\<lparr>sa_ID := 2\<rparr>"

lemma deletion_sorts_first: "system_le sorting_engine [] deletion_5_5 event_5" "\<not> system_le sorting_engine [] event_5 deletion_5_5"
  using fraction_sorts_before_second [of 5000000000 500000000 Itoa]
  by (simp_all add: system_le_def safeSystemSortCol_def deletion_5_5_def event_5_def requested_event_def sorting_engine_def)

lemma deleted_still_alive:
  "hr_Code (snd (handleDeleteByKey sorting_env created_at_5 ''a'' (sample_write [] ''5.5''))) = 200"
  "ad_events (fst (handleDeleteByKey sorting_env created_at_5 ''a'' (sample_write [] ''5.5''))) = [event_5, deletion_5_5]"
  "ad_events db = [event_5, deletion_5_5] \<Longrightarrow> latestOperation (events_of_key sorting_engine db ''a'') = OperationCreate"
proof -
  show "hr_Code (snd (handleDeleteByKey sorting_env created_at_5 ''a'' (sample_write [] ''5.5''))) = 200" by code_simp
  show "ad_events (fst (handleDeleteByKey sorting_env created_at_5 ''a'' (sample_write [] ''5.5''))) = [event_5, deletion_5_5]" by code_simp
  assume "ad_events db = [event_5, deletion_5_5]"
  moreover have "sa_Key event_5 = ''a''" "sa_Key deletion_5_5 = ''a''" "sa_Operation event_5 = OperationCreate"
    by (simp_all add: event_5_def deletion_5_5_def requested_event_def)
  ultimately show "latestOperation (events_of_key sorting_engine db ''a'') = OperationCreate"
    by (simp add: events_of_key_def latestOperation_def sort_by_def sorting_engine_def deletion_sorts_first [unfolded sorting_engine_def])
qed

text \<open>An explicit \<open>actual_path\<close> is not confined: any file the server can read becomes an artifact, and its content is served.\<close>

lemma explicit_path_served:
  "snd (system_handleContent sorting_env (fst (handlePutByKey sorting_env (uw_db empty_artifacts) ''a''
     (sample_write ''../etc/passwd'' ''5''))) ''a'') = \<lparr>hr_Code = 200, hr_Body = Download [] ''passwd'' ''content of /etc/passwd''\<rparr>"
  by code_simp

end
