(* ===== verification/Artifact_Analyzer.thy ===== *)
theory Artifact_Analyzer
  imports Task_Log Artifact_Store Stream_Events
begin

text \<open>
  Which files an agent touched (\<open>artifact/analyzer\<close>): recognised tool calls as they are logged, shell
  commands parsed for redirections and file commands, and the reconciliation of a turn with git or a
  snapshot of the work directory (\<open>agentservice/artifact_reconcile.go\<close>). Regular expressions are modelled by a
  backtracking matcher over the patterns of the source; the file system, git and the clock are parameters.
\<close>

section \<open>Regular expressions\<close>

text \<open>
  The fragment of the syntax that the patterns use. A run lists the possible matches in the order of
  preference of a backtracking search, greedy repetitions first, with the text of the last group; the
  first of them is the match that Go reports. Subjects are bytes: a negated class consumes the bytes of a
  rune one by one, which a repetition cannot tell apart, and letters are folded in ASCII.
\<close>

datatype rx = RxChar "char \<Rightarrow> bool" | RxSeq rx rx | RxStar rx | RxGroup rx | RxBoundary

definition word_char :: "char \<Rightarrow> bool" where
  "word_char c \<longleftrightarrow> in_range 48 57 c \<or> in_range 65 90 c \<or> in_range 97 122 c \<or> c = CHR ''_''"

definition at_word :: "char option \<Rightarrow> bool" where
  "at_word c = (case c of None \<Rightarrow> False | Some c \<Rightarrow> word_char c)"

definition first_char :: "string \<Rightarrow> char option" where
  "first_char s = (case s of [] \<Rightarrow> None | c # _ \<Rightarrow> Some c)"

definition last_char :: "char option \<Rightarrow> string \<Rightarrow> char option" where
  "last_char prev m = (if m = [] then prev else Some (last m))"

function rx_run :: "rx \<Rightarrow> char option \<Rightarrow> string \<Rightarrow> (string \<times> string option) list" where
  "rx_run (RxChar p) prev s = (case s of [] \<Rightarrow> [] | c # _ \<Rightarrow> if p c then [([c], None)] else [])"
| "rx_run RxBoundary prev s = (if at_word prev \<noteq> at_word (first_char s) then [([], None)] else [])"
| "rx_run (RxGroup r) prev s = map (\<lambda>(m, _). (m, Some m)) (rx_run r prev s)"
| "rx_run (RxSeq a b) prev s =
     concat (map (\<lambda>(m, g). map (\<lambda>(m', g'). (m @ m', if g' = None then g else g')) (rx_run b (last_char prev m) (drop (length m) s)))
       (rx_run a prev s))"
| "rx_run (RxStar a) prev s =
     concat (map (\<lambda>(m, g). if length (drop (length m) s) < length s
         then map (\<lambda>(m', g'). (m @ m', if g' = None then g else g')) (rx_run (RxStar a) (last_char prev m) (drop (length m) s))
         else []) (rx_run a prev s)) @ [([], None)]"
  by pat_completeness auto
termination
  by (relation "measures [\<lambda>(r, prev, s). size r, \<lambda>(r, prev, s). length s]") auto

text \<open>\<open>FindAllStringSubmatch\<close>: the groups of the matches from left to right; no pattern matches the empty text.\<close>

function rx_all :: "rx \<Rightarrow> char option \<Rightarrow> string \<Rightarrow> string list" where
  "rx_all r prev s =
     (case s of
        [] \<Rightarrow> []
      | c # t \<Rightarrow> (case rx_run r prev s of
           (m, g) # _ \<Rightarrow>
             if m = [] then rx_all r (Some c) t
             else (case g of None \<Rightarrow> [] | Some x \<Rightarrow> [x]) @ rx_all r (Some (last m)) (drop (length m) s)
         | [] \<Rightarrow> rx_all r (Some c) t))"
  by pat_completeness auto
termination
  by (relation "measure (\<lambda>(r, prev, s). length s)") auto

declare rx_all.simps [simp del]

text \<open>\<open>ReplaceAllString\<close> with the empty text.\<close>

function rx_remove :: "rx \<Rightarrow> char option \<Rightarrow> string \<Rightarrow> string" where
  "rx_remove r prev s =
     (case s of
        [] \<Rightarrow> []
      | c # t \<Rightarrow> (case rx_run r prev s of
           (m, g) # _ \<Rightarrow> if m = [] then c # rx_remove r (Some c) t else rx_remove r (Some (last m)) (drop (length m) s)
         | [] \<Rightarrow> c # rx_remove r (Some c) t))"
  by pat_completeness auto
termination
  by (relation "measure (\<lambda>(r, prev, s). length s)") auto

declare rx_remove.simps [simp del]

definition rx_space :: "char \<Rightarrow> bool" where
  "rx_space c \<longleftrightarrow> c \<in> {CHR '' '', CHR 0x09, CHR 0x0A, CHR 0x0C, CHR 0x0D}"

definition rx_plus :: "rx \<Rightarrow> rx" where "rx_plus r = RxSeq r (RxStar r)"

fun rx_seq :: "rx list \<Rightarrow> rx" where
  "rx_seq [r] = r"
| "rx_seq (r # rs) = RxSeq r (rx_seq rs)"
| "rx_seq [] = RxStar (RxChar (\<lambda>_. False))"

definition rx_text :: "string \<Rightarrow> rx" where
  "rx_text s = rx_seq (map (\<lambda>c. RxChar (\<lambda>x. x = c)) s)"

definition rx_fold :: "string \<Rightarrow> rx" where
  "rx_fold s = rx_seq (map (\<lambda>c. RxChar (\<lambda>x. ToLower [x] = ToLower [c])) s)"

abbreviation rx_spaces :: rx where "rx_spaces \<equiv> RxStar (RxChar rx_space)"
abbreviation rx_spaces1 :: rx where "rx_spaces1 \<equiv> rx_plus (RxChar rx_space)"
abbreviation rx_nonspaces :: rx where "rx_nonspaces \<equiv> rx_plus (RxChar (\<lambda>c. \<not> rx_space c))"
abbreviation rx_target :: rx where
  "rx_target \<equiv> RxGroup (rx_plus (RxChar (\<lambda>c. \<not> rx_space c \<and> c \<notin> {CHR ''|'', CHR '';'', CHR ''&''})))"
abbreviation rx_options :: rx where "rx_options \<equiv> RxStar (rx_seq [rx_spaces1, rx_text ''-'', rx_nonspaces])"
abbreviation rx_command :: "string \<Rightarrow> rx" where "rx_command w \<equiv> rx_seq [RxBoundary, rx_text w, RxBoundary]"

definition reAppendRedirect :: rx where "reAppendRedirect = rx_seq [rx_text ''>>'', rx_spaces, rx_target]"
definition reRedirect :: rx where "reRedirect = rx_seq [rx_text ''>'', rx_spaces, rx_target]"
definition reTee :: rx where "reTee = rx_seq [rx_command ''tee'', rx_options, rx_spaces1, rx_target]"
definition reHeredoc :: rx where
  "reHeredoc = rx_seq [rx_fold ''cat'', rx_spaces1, rx_text ''<<'', RxStar (RxChar (\<lambda>c. c \<notin> {CHR 0x0A, CHR ''>''})), rx_text ''>'',
     rx_spaces, RxGroup rx_nonspaces]"
definition reCp :: rx where
  "reCp = rx_seq [rx_command ''cp'', rx_options, rx_spaces1, rx_nonspaces, rx_spaces1, RxGroup rx_nonspaces]"
definition reMv :: rx where
  "reMv = rx_seq [rx_command ''mv'', rx_options, rx_spaces1, rx_nonspaces, rx_spaces1, RxGroup rx_nonspaces]"
definition reTouch :: rx where "reTouch = rx_seq [rx_command ''touch'', rx_options, rx_spaces1, RxGroup rx_nonspaces]"
definition reRm :: rx where "reRm = rx_seq [rx_command ''rm'', rx_options, rx_spaces1, RxGroup rx_nonspaces]"
definition reSetContent :: rx where
  "reSetContent = rx_seq [rx_fold ''Set-Content'', RxBoundary, RxStar (RxChar (\<lambda>c. c \<noteq> CHR '';'')), rx_fold ''-Path'', rx_spaces1,
     RxGroup rx_nonspaces]"
definition reOutFile :: rx where "reOutFile = rx_seq [rx_fold ''Out-File'', rx_spaces1, RxGroup rx_nonspaces]"

section \<open>Shell commands\<close>

record ParsedFileOp =
  pf_Path :: string
  pf_Operation :: string

definition priority :: "string \<Rightarrow> nat" where
  "priority op = (if op = OperationDelete then 3 else if op = OperationUpdate then 2 else if op = OperationCreate then 1 else 0)"

abbreviation quote_char :: "char \<Rightarrow> bool" where
  "quote_char c \<equiv> c = CHR 0x22 \<or> c = CHR 0x27"

definition TrimIf :: "(char \<Rightarrow> bool) \<Rightarrow> string \<Rightarrow> string" where
  "TrimIf p s = rev (dropWhile p (rev (dropWhile p s)))"

fun unescape_quotes :: "char \<Rightarrow> string \<Rightarrow> string" where
  "unescape_quotes q (c # d # s) = (if c = CHR 0x5C \<and> d = q then q # unescape_quotes q s else c # unescape_quotes q (d # s))"
| "unescape_quotes q s = s"

lemma length_dropWhile: "length (dropWhile p s) \<le> length s"
  by (induction s) auto

lemma length_TrimIf: "length (TrimIf p s) \<le> length s"
  using length_dropWhile [of p s] length_dropWhile [of p "rev (dropWhile p s)"] by (simp add: TrimIf_def)

lemma dropWhile_same_length: "length (dropWhile p s) = length s \<Longrightarrow> dropWhile p s = s"
proof (cases s)
  case (Cons c t)
  then show "length (dropWhile p s) = length s \<Longrightarrow> dropWhile p s = s"
    using length_dropWhile [of p t] by (auto split: if_splits)
qed simp

lemma TrimIf_shorter: "TrimIf p s \<noteq> s \<Longrightarrow> length (TrimIf p s) < length s"
proof -
  assume d: "TrimIf p s \<noteq> s"
  let ?a = "dropWhile p s"
  have l: "length (dropWhile p (rev ?a)) \<le> length ?a" "length ?a \<le> length s"
    using length_dropWhile [of p "rev ?a"] length_dropWhile [of p s] by simp_all
  show ?thesis
  proof (rule ccontr)
    assume "\<not> ?thesis"
    then have "length (dropWhile p (rev ?a)) = length (rev ?a)" "length ?a = length s" using l by (simp_all add: TrimIf_def)
    then have "dropWhile p (rev ?a) = rev ?a" "?a = s" using dropWhile_same_length by blast+
    with d show False by (simp add: TrimIf_def)
  qed
qed

function trim_quotes :: "string \<Rightarrow> string" where
  "trim_quotes s = (let t = TrimIf quote_char s in if t = s then s else trim_quotes (TrimSpace t))"
  by pat_completeness auto
termination
proof (relation "measure length")
  fix s t assume t: "t = TrimIf quote_char s" "t \<noteq> s"
  have "length (TrimSpace t) \<le> length t" using TrimSpace_sublist by (rule sublist_length_le)
  with TrimIf_shorter [of quote_char s] t show "(TrimSpace t, s) \<in> measure length" by simp
qed simp

declare trim_quotes.simps [simp del]

definition normalizeShellPath :: "string \<Rightarrow> string" where
  "normalizeShellPath s =
     (let s = unescape_quotes (CHR 0x27) (unescape_quotes (CHR 0x22) (TrimSpace s))
      in TrimSpace (rev (dropWhile (\<lambda>c. c = CHR ''/'' \<or> c = CHR 0x5C) (rev (trim_quotes s)))))"

definition isIgnoredArtifactPath :: "string \<Rightarrow> bool" where
  "isIgnoredArtifactPath path =
     (let p = TrimSpace (normalizeShellPath path)
      in p = [] \<or> TrimSuffix (ToLower p) '':'' \<in> {''/dev/null'', ''/dev/stdout'', ''/dev/stderr'', ''nul''})"

definition add_op :: "(string \<times> string) list \<Rightarrow> string \<times> string \<Rightarrow> (string \<times> string) list" where
  "add_op seen = (\<lambda>(path, op).
     (let path = normalizeShellPath path
      in if path = [] \<or> isIgnoredArtifactPath path then seen
         else case map_of seen path of
           Some existing \<Rightarrow> if priority existing < priority op then massign path op seen else seen
         | None \<Rightarrow> massign path op seen))"

definition shell_adds :: "string \<Rightarrow> (string \<times> string) list" where
  "shell_adds cmd =
     (let all = (\<lambda>r op s. map (\<lambda>p. (p, op)) (rx_all r None s))
      in all reAppendRedirect OperationUpdate cmd @ all reRedirect OperationCreate (rx_remove reAppendRedirect None cmd) @
         all reTee OperationCreate cmd @ all reHeredoc OperationCreate cmd @ all reCp OperationCreate cmd @
         all reMv OperationUpdate cmd @ all reTouch OperationCreate cmd @ all reRm OperationDelete cmd @
         all reSetContent OperationCreate cmd @ all reOutFile OperationCreate cmd)"

definition ParseShellCommand :: "string \<Rightarrow> ParsedFileOp list" where
  "ParseShellCommand command =
     (let cmd = TrimSpace command
      in if cmd = [] then []
         else map (\<lambda>(path, op). \<lparr>pf_Path = path, pf_Operation = op\<rparr>) (foldl add_op [] (shell_adds cmd)))"

definition tool_string :: "(string \<times> json) list \<Rightarrow> string \<Rightarrow> string option" where
  "tool_string input k = (case map_of input k of Some (JStr s) \<Rightarrow> Some s | _ \<Rightarrow> None)"

text \<open>\<open>args\<close> is what \<open>json.Unmarshal\<close> makes of the legacy arguments: their command, or an error.\<close>

definition ExtractShellCommand :: "(string \<Rightarrow> string option) \<Rightarrow> string \<Rightarrow> (string \<times> json) list \<Rightarrow> string" where
  "ExtractShellCommand args toolName input =
     (if toolName \<in> {''command_execution'', ''Bash''} then
        (case tool_string input ''command'' of Some cmd \<Rightarrow> cmd | None \<Rightarrow> [])
      else if toolName \<in> {''shell'', ''shell_command''} then
        (case tool_string input ''arguments'' of
           Some a \<Rightarrow> if a = [] then [] else (case args a of Some c \<Rightarrow> c | None \<Rightarrow> [])
         | None \<Rightarrow> [])
      else [])"

section \<open>The analyzer\<close>

record FileChangeCollectors =
  StructuredTool :: bool
  ShellParser :: bool
  WorkdirReconcile :: bool

definition DefaultFileChangeCollectors :: FileChangeCollectors where
  "DefaultFileChangeCollectors = \<lparr>StructuredTool = True, ShellParser = True, WorkdirReconcile = False\<rparr>"

definition EffectiveFileChangeCollectors :: "FileChangeCollectors option \<Rightarrow> FileChangeCollectors" where
  "EffectiveFileChangeCollectors c = (case c of None \<Rightarrow> DefaultFileChangeCollectors | Some c \<Rightarrow> c)"

text \<open>The JSON value of the request, \<open>None\<close> for an absent field.\<close>

definition collector_bool :: "(string \<times> json) list \<Rightarrow> string \<Rightarrow> bool \<Rightarrow> bool option" where
  "collector_bool obj key dflt =
     (case map_of obj key of None \<Rightarrow> Some dflt | Some (JBool b) \<Rightarrow> Some b | Some JNull \<Rightarrow> Some False | Some _ \<Rightarrow> None)"

definition collector_keys :: "string list" where
  "collector_keys = [''structured_tool'', ''shell_parser'', ''workdir_reconcile'']"

definition ResolveFileChangeCollectors :: "json option \<Rightarrow> FileChangeCollectors option" where
  "ResolveFileChangeCollectors raw =
     (case raw of
        None \<Rightarrow> Some DefaultFileChangeCollectors
      | Some JNull \<Rightarrow> Some DefaultFileChangeCollectors
      | Some (JObj obj) \<Rightarrow>
          if list_ex (\<lambda>(k, _). k \<notin> set collector_keys) obj then None
          else (case (collector_bool obj ''structured_tool'' True, collector_bool obj ''shell_parser'' True,
                  collector_bool obj ''workdir_reconcile'' False) of
                (Some s, Some p, Some w) \<Rightarrow> Some \<lparr>StructuredTool = s, ShellParser = p, WorkdirReconcile = w\<rparr>
              | _ \<Rightarrow> None)
      | Some _ \<Rightarrow> None)"

text \<open>What an analyzer is configured with and what it sees of the world when it handles an entry.\<close>

record analyzer_env =
  az_projectRoot :: string
  az_workDir :: "(string \<Rightarrow> string) option"
  az_collectors :: "(string \<Rightarrow> FileChangeCollectors) option"
  az_stat :: "string \<Rightarrow> bool"
  az_now :: go_time
  az_event :: "string \<Rightarrow> StreamEvent option"
  az_arguments :: "string \<Rightarrow> string option"

record pendingShellOps =
  ps_toolName :: string
  ps_turnID :: string
  ps_correlationID :: string
  ps_ops :: "ParsedFileOp list"

record ToolCallAnalyzer =
  ta_seenTier1Keys :: "string set"
  ta_pendingByCall :: "(string \<times> pendingShellOps) list"
  ta_pendingFIFO :: "(string \<times> pendingShellOps list) list"

definition NewAnalyzer :: ToolCallAnalyzer where
  "NewAnalyzer = \<lparr>ta_seenTier1Keys = {}, ta_pendingByCall = [], ta_pendingFIFO = []\<rparr>"

definition collectorsFor :: "analyzer_env \<Rightarrow> string \<Rightarrow> FileChangeCollectors" where
  "collectorsFor az sessionID = (case az_collectors az of Some f \<Rightarrow> f sessionID | None \<Rightarrow> DefaultFileChangeCollectors)"

definition resolvePath :: "analyzer_env \<Rightarrow> string \<Rightarrow> string \<Rightarrow> string" where
  "resolvePath az filePath sessionID =
     (let clean = filepath_Clean (normalizeShellPath filePath);
          wd = (case az_workDir az of None \<Rightarrow> [] | Some f \<Rightarrow> f sessionID)
      in if IsAbs clean then clean
         else if wd \<noteq> [] then filepath_Join wd clean
         else if az_projectRoot az \<noteq> [] then filepath_Join (az_projectRoot az) clean
         else clean)"

definition toRelativePath :: "analyzer_env \<Rightarrow> string \<Rightarrow> string \<Rightarrow> string" where
  "toRelativePath az absPath sessionID =
     (let clean = filepath_Clean absPath; root = az_projectRoot az;
          wd = (case az_workDir az of None \<Rightarrow> [] | Some f \<Rightarrow> f sessionID);
          wdSlash = filepath_Clean wd; base = filepath_Base clean
      in if root \<noteq> [] \<and> HasPrefix clean (root @ ''/'') then drop (length root + 1) clean
         else if wd \<noteq> [] \<and> (HasPrefix clean (wdSlash @ ''/'') \<or> clean = wdSlash) \<and> TrimPrefix clean (wdSlash @ ''/'') \<noteq> []
         then TrimPrefix clean (wdSlash @ ''/'')
         else if base \<noteq> ''.'' \<and> base \<noteq> ''/'' then base
         else clean)"

definition ResolvePathForSession :: "analyzer_env \<Rightarrow> string \<Rightarrow> string \<Rightarrow> string \<times> string" where
  "ResolvePathForSession az filePath sessionID =
     (let p = resolvePath az filePath sessionID in (toRelativePath az p sessionID, p))"

definition isTier1ToolName :: "string \<Rightarrow> bool" where
  "isTier1ToolName t \<longleftrightarrow> t \<in> {''file_change'', ''turn_diff'', ''turn_files'', ''Write'', ''Edit'', ''MultiEdit'', ''NotebookEdit'', ''StrReplace'', ''Delete''}"

definition tier1SeenKey :: "string \<Rightarrow> string \<Rightarrow> string \<Rightarrow> string" where
  "tier1SeenKey sessionID turnID key = sessionID @ [CHR 0x00] @ turnID @ [CHR 0x00] @ key"

definition buildEvent ::
  "analyzer_env \<Rightarrow> ToolCallAnalyzer \<Rightarrow> string \<Rightarrow> string \<Rightarrow> string \<Rightarrow> string \<Rightarrow> string \<Rightarrow> string \<Rightarrow> ToolCallAnalyzer \<times> SystemArtifactEvent list" where
  "buildEvent az a sessionID turnID correlationID toolName filePath operation =
     (if filePath = [] \<or> operation = [] then (a, [])
      else let resolved = resolvePath az filePath sessionID; key = toRelativePath az resolved sessionID;
               k = tier1SeenKey sessionID turnID key;
               event = \<lparr>sa_ID = 0, sa_SessionID = sessionID, sa_AgentID = sessionID, sa_TurnID = turnID,
                 sa_CorrelationID = correlationID, sa_Key = key, sa_ActualPath = resolved, sa_Operation = operation,
                 sa_OccurredAt = az_now az, sa_ToolName = toolName, sa_ContentSHA = []\<rparr>
           in if k \<in> ta_seenTier1Keys a then (a, [])
              else if isTier1ToolName toolName then (a\<lparr>ta_seenTier1Keys := insert k (ta_seenTier1Keys a)\<rparr>, [event])
              else (a, [event]))"

text \<open>Several files of one call, in order.\<close>

fun buildEvents ::
  "analyzer_env \<Rightarrow> ToolCallAnalyzer \<Rightarrow> string \<Rightarrow> string \<Rightarrow> string \<Rightarrow> string \<Rightarrow> (string \<times> string) list \<Rightarrow> ToolCallAnalyzer \<times> SystemArtifactEvent list" where
  "buildEvents az a sessionID turnID correlationID toolName [] = (a, [])"
| "buildEvents az a sessionID turnID correlationID toolName ((path, op) # ops) =
     (let (a, e1) = buildEvent az a sessionID turnID correlationID toolName path op;
          (a, es) = buildEvents az a sessionID turnID correlationID toolName ops
      in (a, e1 @ es))"

definition defaultToolMappings :: "(string \<times> (string \<times> string) list) list" where
  "defaultToolMappings =
     [(''Write'', [(OperationCreate, ''path''), (OperationCreate, ''file_path'')]),
      (''StrReplace'', [(OperationUpdate, ''path'')]),
      (''Delete'', [(OperationDelete, ''path'')]),
      (''Edit'', [(OperationUpdate, ''file_path''), (OperationUpdate, ''path'')]),
      (''MultiEdit'', [(OperationUpdate, ''file_path''), (OperationUpdate, ''path'')]),
      (''NotebookEdit'', [(OperationUpdate, ''notebook_path''), (OperationUpdate, ''file_path'')])]"

fun mapped_file :: "(string \<times> json) list \<Rightarrow> (string \<times> string) list \<Rightarrow> (string \<times> string) option" where
  "mapped_file input [] = None"
| "mapped_file input ((op, field) # ms) =
     (case tool_string input field of
        Some p \<Rightarrow> if p = [] then mapped_file input ms else Some (p, op)
      | None \<Rightarrow> mapped_file input ms)"

definition analyzeMappedTool ::
  "analyzer_env \<Rightarrow> ToolCallAnalyzer \<Rightarrow> StreamEvent \<Rightarrow> string \<Rightarrow> string \<Rightarrow> string \<Rightarrow> ToolCallAnalyzer \<times> SystemArtifactEvent list" where
  "analyzeMappedTool az a ev sessionID turnID correlationID =
     (case map_of defaultToolMappings (se_ToolName ev) of
        None \<Rightarrow> (a, [])
      | Some mappings \<Rightarrow> (case mapped_file (se_ToolInput ev) mappings of
           None \<Rightarrow> (a, [])
         | Some (path, op) \<Rightarrow> buildEvent az a sessionID turnID correlationID (se_ToolName ev) path op))"

definition kindToOperation :: "string \<Rightarrow> string" where
  "kindToOperation kind =
     (if kind \<in> {''add'', ''create''} then OperationCreate
      else if kind = ''update'' then OperationUpdate
      else if kind = ''delete'' then OperationDelete else [])"

definition change_entry :: "json \<Rightarrow> (string \<times> string) list" where
  "change_entry item =
     (case item of
        JObj m \<Rightarrow> (case tool_string m ''path'' of
            Some p \<Rightarrow> if p = [] then [] else [(p, case tool_string m ''kind'' of Some k \<Rightarrow> k | None \<Rightarrow> [])]
          | None \<Rightarrow> [])
      | _ \<Rightarrow> [])"

definition change_entries :: "(string \<times> json) list \<Rightarrow> (string \<times> string) list" where
  "change_entries input =
     (case change_entry (JObj input) of
        e # es \<Rightarrow> e # es
      | [] \<Rightarrow> (case map_of input ''changes'' of Some (JArr items) \<Rightarrow> concat (map change_entry items) | _ \<Rightarrow> []))"

definition analyzeFileChange ::
  "analyzer_env \<Rightarrow> ToolCallAnalyzer \<Rightarrow> StreamEvent \<Rightarrow> string \<Rightarrow> string \<Rightarrow> string \<Rightarrow> ToolCallAnalyzer \<times> SystemArtifactEvent list" where
  "analyzeFileChange az a ev sessionID turnID correlationID =
     buildEvents az a sessionID turnID correlationID (se_ToolName ev)
       (filter (\<lambda>(p, op). op \<noteq> []) (map (\<lambda>(p, kind). (p, kindToOperation kind)) (change_entries (se_ToolInput ev))))"

text \<open>Deletions are always reported, other operations only for a path that exists.\<close>

definition shouldEmitShellOp :: "analyzer_env \<Rightarrow> string \<Rightarrow> ParsedFileOp \<Rightarrow> bool" where
  "shouldEmitShellOp az sessionID op \<longleftrightarrow>
     pf_Operation op = OperationDelete \<or>
     (let p = resolvePath az (pf_Path op) sessionID in p \<noteq> [] \<and> az_stat az p)"

definition emitShellOps ::
  "analyzer_env \<Rightarrow> ToolCallAnalyzer \<Rightarrow> string \<Rightarrow> string \<Rightarrow> string \<Rightarrow> string \<Rightarrow> ParsedFileOp list \<Rightarrow> ToolCallAnalyzer \<times> SystemArtifactEvent list" where
  "emitShellOps az a sessionID turnID correlationID toolName ops =
     buildEvents az a sessionID turnID correlationID toolName
       (map (\<lambda>op. (pf_Path op, pf_Operation op)) (filter (shouldEmitShellOp az sessionID) ops))"

definition pendingShellKey :: "string \<Rightarrow> string \<Rightarrow> string" where
  "pendingShellKey sessionID toolCallID = sessionID @ [CHR 0x00] @ toolCallID"

definition fifo_of :: "ToolCallAnalyzer \<Rightarrow> string \<Rightarrow> pendingShellOps list" where
  "fifo_of a sessionID = (case map_of (ta_pendingFIFO a) sessionID of Some q \<Rightarrow> q | None \<Rightarrow> [])"

definition stashPendingShell :: "ToolCallAnalyzer \<Rightarrow> string \<Rightarrow> string \<Rightarrow> pendingShellOps \<Rightarrow> ToolCallAnalyzer" where
  "stashPendingShell a sessionID toolCallID pending =
     (if toolCallID \<noteq> [] then a\<lparr>ta_pendingByCall := massign (pendingShellKey sessionID toolCallID) pending (ta_pendingByCall a)\<rparr>
      else a\<lparr>ta_pendingFIFO := massign sessionID (fifo_of a sessionID @ [pending]) (ta_pendingFIFO a)\<rparr>)"

definition takePendingShell :: "ToolCallAnalyzer \<Rightarrow> string \<Rightarrow> string \<Rightarrow> ToolCallAnalyzer \<times> pendingShellOps option" where
  "takePendingShell a sessionID toolCallID =
     (let k = pendingShellKey sessionID toolCallID
      in case (if toolCallID = [] then None else map_of (ta_pendingByCall a) k) of
           Some p \<Rightarrow> (a\<lparr>ta_pendingByCall := mdelete k (ta_pendingByCall a)\<rparr>, Some p)
         | None \<Rightarrow> (case fifo_of a sessionID of
             [] \<Rightarrow> (a, None)
           | p # q \<Rightarrow> (a\<lparr>ta_pendingFIFO := massign sessionID q (ta_pendingFIFO a)\<rparr>, Some p)))"

definition analyzeShellTool ::
  "analyzer_env \<Rightarrow> ToolCallAnalyzer \<Rightarrow> StreamEvent \<Rightarrow> string \<Rightarrow> string \<Rightarrow> string \<Rightarrow> ToolCallAnalyzer \<times> SystemArtifactEvent list" where
  "analyzeShellTool az a ev sessionID turnID correlationID =
     (let cmd = ExtractShellCommand (az_arguments az) (se_ToolName ev) (se_ToolInput ev);
          status = tool_string (se_ToolInput ev) ''execution_status'';
          ops = ParseShellCommand cmd
      in if cmd = [] \<or> status = Some ''started'' \<or> ops = [] then (a, [])
         else if status = Some ''completed'' then emitShellOps az a sessionID turnID correlationID (se_ToolName ev) ops
         else if se_ToolName ev \<in> {''Bash'', ''shell'', ''shell_command''} then
           (stashPendingShell a sessionID (se_ToolCallID ev)
              \<lparr>ps_toolName = se_ToolName ev, ps_turnID = turnID, ps_correlationID = correlationID, ps_ops = ops\<rparr>, [])
         else (a, []))"

definition analyzeShellToolResult ::
  "analyzer_env \<Rightarrow> ToolCallAnalyzer \<Rightarrow> StreamEvent \<Rightarrow> string \<Rightarrow> string \<Rightarrow> string \<Rightarrow> ToolCallAnalyzer \<times> SystemArtifactEvent list" where
  "analyzeShellToolResult az a ev sessionID turnID correlationID =
     (let cmd = ExtractShellCommand (az_arguments az) (se_ToolName ev) (se_ToolInput ev); ops = ParseShellCommand cmd
      in if cmd = [] \<or> ops = [] then (a, [])
         else emitShellOps az a sessionID turnID correlationID
           (if se_ToolName ev = [] then ''command_execution'' else se_ToolName ev) ops)"

definition flushPendingShell :: "analyzer_env \<Rightarrow> ToolCallAnalyzer \<Rightarrow> string \<Rightarrow> string \<Rightarrow> ToolCallAnalyzer \<times> SystemArtifactEvent list" where
  "flushPendingShell az a sessionID toolCallID =
     (case takePendingShell a sessionID toolCallID of
        (a, None) \<Rightarrow> (a, [])
      | (a, Some p) \<Rightarrow>
          if ShellParser (collectorsFor az sessionID)
          then emitShellOps az a sessionID (ps_turnID p) (ps_correlationID p) (ps_toolName p) (ps_ops p)
          else (a, []))"

definition analyzeEvents ::
  "analyzer_env \<Rightarrow> ToolCallAnalyzer \<Rightarrow> StreamEvent \<Rightarrow> string \<Rightarrow> string \<Rightarrow> string \<Rightarrow> ToolCallAnalyzer \<times> SystemArtifactEvent list" where
  "analyzeEvents az a ev sessionID turnID correlationID =
     (let cfg = collectorsFor az sessionID
      in if se_Type ev \<noteq> EventToolUse then (a, [])
         else if se_ToolName ev \<in> {''file_change'', ''turn_diff'', ''turn_files''} then
           (if StructuredTool cfg then analyzeFileChange az a ev sessionID turnID correlationID else (a, []))
         else if se_ToolName ev \<in> {''command_execution'', ''Bash'', ''shell'', ''shell_command''} then
           (if ShellParser cfg then analyzeShellTool az a ev sessionID turnID correlationID else (a, []))
         else if StructuredTool cfg then analyzeMappedTool az a ev sessionID turnID correlationID
         else (a, []))"

text \<open>The callback of the task log; errors of the store are ignored.\<close>

definition entry_events :: "analyzer_env \<Rightarrow> ToolCallAnalyzer \<Rightarrow> StreamEvent \<Rightarrow> string \<Rightarrow> ToolCallAnalyzer \<times> SystemArtifactEvent list" where
  "entry_events az a ev sessionID =
     (if se_Type ev = EventToolResult then
        (let (a, flushed) = flushPendingShell az a sessionID (se_ToolCallID ev);
             (a, shell) = (if ShellParser (collectorsFor az sessionID)
               then analyzeShellToolResult az a ev sessionID (se_TurnID ev) (se_CorrelationID ev) else (a, []))
         in (a, flushed @ shell))
      else analyzeEvents az a ev sessionID (se_TurnID ev) (se_CorrelationID ev))"

definition onEntry :: "analyzer_env \<Rightarrow> log_entry \<Rightarrow> ToolCallAnalyzer \<times> artifact_db \<Rightarrow> ToolCallAnalyzer \<times> artifact_db" where
  "onEntry az e s =
     (case e of
        AgentLog l \<Rightarrow>
          if al_Phase l \<noteq> ''send'' then s
          else (case az_event az (al_Body l) of
             None \<Rightarrow> s
           | Some ev \<Rightarrow>
               (let (a, events) = entry_events az (fst s) ev (al_AgentID l)
                in (a, foldl (\<lambda>db e. fst (SaveSystemArtifactEvent db e)) (snd s) events)))
      | _ \<Rightarrow> s)"

definition New ::
  "analyzer_env \<Rightarrow> string \<Rightarrow> (ToolCallAnalyzer \<times> artifact_db) TaskLog \<Rightarrow> analyzer_env \<times> ToolCallAnalyzer \<times> (ToolCallAnalyzer \<times> artifact_db) TaskLog" where
  "New az projectRoot tlog =
     (let az = az\<lparr>az_projectRoot := filepath_Clean projectRoot\<rparr> in (az, NewAnalyzer, SetOnEntry tlog (Some (onEntry az))))"

section \<open>The files of a Claude turn\<close>

record TurnFileOp =
  tf_op_Path :: string
  tf_op_Kind :: string

definition claude_kind :: "string \<Rightarrow> string" where
  "claude_kind tool =
     (if tool = ''Write'' then ''add'' else if tool = ''Delete'' then ''delete''
      else if tool \<in> {''Edit'', ''MultiEdit'', ''NotebookEdit'', ''StrReplace''} then ''update'' else [])"

definition first_path :: "(string \<times> json) list \<Rightarrow> string" where
  "first_path input =
     (case filter (\<lambda>p. p \<noteq> []) (List.map_filter (tool_string input) [''file_path'', ''path'', ''notebook_path'']) of
        [] \<Rightarrow> [] | p # _ \<Rightarrow> p)"

definition CollectClaudeTier1OpsFromStream :: "StreamEvent list \<Rightarrow> TurnFileOp list" where
  "CollectClaudeTier1OpsFromStream events =
     map (\<lambda>ev. \<lparr>tf_op_Path = first_path (se_ToolInput ev), tf_op_Kind = claude_kind (se_ToolName ev)\<rparr>)
       (filter (\<lambda>ev. se_Type ev = EventToolUse \<and> claude_kind (se_ToolName ev) \<noteq> [] \<and> first_path (se_ToolInput ev) \<noteq> []) events)"

definition SynthesizeTurnFilesEvent :: "TurnFileOp list \<Rightarrow> StreamEvent option" where
  "SynthesizeTurnFilesEvent ops =
     (let obj = (\<lambda>op. [(''kind'', JStr (tf_op_Kind op)), (''path'', JStr (tf_op_Path op))]);
          ev = (\<lambda>input. Some ((stream_event EventToolUse)\<lparr>se_ToolName := ''turn_files'', se_ToolInput := input\<rparr>))
      in case ops of
           [] \<Rightarrow> None
         | [op] \<Rightarrow> ev (obj op)
         | _ \<Rightarrow> ev [(''changes'', JArr (map (\<lambda>op. JObj (obj op)) ops))])"

text \<open>Saving stops at the first error, which is the result.\<close>

fun save_events :: "artifact_db \<Rightarrow> SystemArtifactEvent list \<Rightarrow> artifact_db \<times> bool" where
  "save_events db [] = (db, False)"
| "save_events db (e # es) =
     (case SaveSystemArtifactEvent db e of (db, True) \<Rightarrow> (db, True) | (db, False) \<Rightarrow> save_events db es)"

definition FlushTurnFiles ::
  "analyzer_env \<Rightarrow> ToolCallAnalyzer \<times> artifact_db \<Rightarrow> string \<Rightarrow> string \<Rightarrow> string \<Rightarrow> TurnFileOp list \<Rightarrow> (ToolCallAnalyzer \<times> artifact_db) \<times> bool" where
  "FlushTurnFiles az s sessionID turnID correlationID ops =
     (case SynthesizeTurnFilesEvent ops of
        None \<Rightarrow> (s, False)
      | Some ev \<Rightarrow>
          (let (a, events) = analyzeEvents az (fst s) (ev\<lparr>se_TurnID := turnID, se_CorrelationID := correlationID\<rparr>) sessionID turnID correlationID;
               (db, failed) = save_events (snd s) events
           in ((a, db), failed)))"

section \<open>What git and the directory say\<close>

text \<open>
  The file system and git as the reconciliation finds them: whether \<open>.git\<close> is a directory, whether there is a
  \<open>HEAD\<close>, the output of the two commands (\<open>None\<close> when a command fails), and the walk of a directory, which lists
  the files outside \<open>.git\<close> with their sizes (\<open>None\<close> on an error).
\<close>

record work_tree =
  wt_gitDir :: bool
  wt_head :: bool
  wt_diff :: "string option"
  wt_untracked :: "string option"
  wt_walk :: "(string \<times> int) list option"

definition IsGitRepo :: "work_tree \<Rightarrow> bool" where "IsGitRepo wt = wt_gitDir wt"

definition gitStatusToOperation :: "string \<Rightarrow> string" where
  "gitStatusToOperation status =
     (if status \<in> {''A'', ''??''} then OperationCreate
      else if status = ''M'' then OperationUpdate
      else if status = ''D'' then OperationDelete
      else if HasPrefix status ''R'' then OperationUpdate else [])"

text \<open>\<open>strings.Fields\<close> on bytes: the runs between spaces.\<close>

fun fields_acc :: "string \<Rightarrow> string \<Rightarrow> string list" where
  "fields_acc w [] = (if w = [] then [] else [rev w])"
| "fields_acc w (c # s) =
     (if c \<in> {CHR '' '', CHR 0x09, CHR 0x0A, CHR 0x0B, CHR 0x0C, CHR 0x0D}
      then (if w = [] then fields_acc [] s else rev w # fields_acc [] s)
      else fields_acc (c # w) s)"

definition strings_Fields :: "string \<Rightarrow> string list" where "strings_Fields s = fields_acc [] s"

definition diff_line :: "(string \<times> string) list \<Rightarrow> string \<Rightarrow> (string \<times> string) list" where
  "diff_line seen line =
     (let parts = strings_Fields (TrimSpace line)
      in if length parts < 2 \<or> gitStatusToOperation (hd parts) = [] then seen
         else massign (last parts) (gitStatusToOperation (hd parts)) seen)"

definition untracked_line :: "(string \<times> string) list \<Rightarrow> string \<Rightarrow> (string \<times> string) list" where
  "untracked_line seen line =
     (let p = TrimSpace line in if p = [] \<or> p \<in> mkeys seen then seen else massign p OperationCreate seen)"

definition parsed_ops :: "(string \<times> string) list \<Rightarrow> ParsedFileOp list" where
  "parsed_ops seen = map (\<lambda>(p, op). \<lparr>pf_Path = p, pf_Operation = op\<rparr>) seen"

definition DetectGitChanges :: "work_tree \<Rightarrow> ParsedFileOp list option" where
  "DetectGitChanges wt =
     (if \<not> IsGitRepo wt then Some []
      else case (if wt_head wt then map_option (\<lambda>out. foldl diff_line [] (SplitByte (CHR 0x0A) out)) (wt_diff wt) else Some []) of
        None \<Rightarrow> None
      | Some seen \<Rightarrow> (case wt_untracked wt of
          None \<Rightarrow> None
        | Some out \<Rightarrow> Some (parsed_ops (foldl untracked_line seen (SplitByte (CHR 0x0A) out)))))"

type_synonym DirSnapshot = "(string \<times> int) list"

definition TakeSnapshot :: "work_tree \<Rightarrow> DirSnapshot option" where
  "TakeSnapshot wt = map_option (foldl (\<lambda>m (p, sz). massign p sz m) []) (wt_walk wt)"

definition DiffSnapshots :: "DirSnapshot \<Rightarrow> DirSnapshot \<Rightarrow> ParsedFileOp list" where
  "DiffSnapshots before after =
     (let seen = foldl (\<lambda>seen (p, sz). case map_of before p of
            None \<Rightarrow> massign p OperationCreate seen
          | Some prev \<Rightarrow> if prev \<noteq> sz then massign p OperationUpdate seen else seen) [] after
      in parsed_ops (foldl (\<lambda>seen (p, _). if p \<in> mkeys after then seen else massign p OperationDelete seen) seen before))"

section \<open>Reconciliation\<close>

text \<open>Where an operation came from; a smaller number is preferred.\<close>

abbreviation SourceStructuredTool :: nat where "SourceStructuredTool \<equiv> 1"
abbreviation SourceShellParser :: nat where "SourceShellParser \<equiv> 2"
abbreviation SourceGitDiff :: nat where "SourceGitDiff \<equiv> 3"
abbreviation SourceSnapshot :: nat where "SourceSnapshot \<equiv> 4"
abbreviation SourceStructuredOut :: nat where "SourceStructuredOut \<equiv> 5"

definition sourceForToolName :: "string \<Rightarrow> nat" where
  "sourceForToolName t =
     (if isTier1ToolName t then SourceStructuredTool
      else if t \<in> {''command_execution'', ''Bash'', ''shell'', ''shell_command''} then SourceShellParser
      else if t = ''reconcile:git'' then SourceGitDiff
      else if t = ''reconcile:snapshot'' then SourceSnapshot
      else if t = ''reconcile:structured'' \<or> HasPrefix t ''reconcile:'' then SourceStructuredOut
      else SourceStructuredTool)"

record ReconcileInput =
  ri_SessionID :: string
  ri_TurnID :: string
  ri_CorrelationID :: string
  ri_ExistingEvents :: "SystemArtifactEvent list"
  ri_GitChanges :: "ParsedFileOp list"
  ri_SnapshotChanges :: "ParsedFileOp list"
  ri_StructuredPaths :: "ParsedFileOp list"

record reconcileCandidate =
  rc_key :: string
  rc_operation :: string
  rc_toolName :: string
  rc_absPath :: string
  rc_source :: nat
  rc_at :: go_time

text \<open>What \<open>add\<close> is called with: path, operation, tool, source and time, in order. \<open>now n\<close> is the \<open>n\<close>-th reading of the clock.\<close>

type_synonym reconcile_item = "string \<times> string \<times> string \<times> nat \<times> go_time"

definition supplied :: "(nat \<Rightarrow> go_time) \<Rightarrow> string \<Rightarrow> nat \<Rightarrow> nat \<Rightarrow> ParsedFileOp list \<Rightarrow> reconcile_item list" where
  "supplied now tool src n ops = map (\<lambda>(i, op). (pf_Path op, pf_Operation op, tool, src, now i)) (zip [n..<n + length ops] ops)"

definition reconcile_items :: "(nat \<Rightarrow> go_time) \<Rightarrow> ReconcileInput \<Rightarrow> reconcile_item list" where
  "reconcile_items now ri =
     (let g = length (ri_GitChanges ri); s = length (ri_SnapshotChanges ri)
      in map (\<lambda>e. (sa_Key e, sa_Operation e, sa_ToolName e, sourceForToolName (sa_ToolName e), sa_OccurredAt e)) (ri_ExistingEvents ri) @
         supplied now ''reconcile:git'' SourceGitDiff 0 (ri_GitChanges ri) @
         supplied now ''reconcile:snapshot'' SourceSnapshot g (ri_SnapshotChanges ri) @
         supplied now ''reconcile:structured'' SourceStructuredOut (g + s) (ri_StructuredPaths ri))"

definition item_key :: "analyzer_env \<Rightarrow> string \<Rightarrow> string \<Rightarrow> string" where
  "item_key az sessionID path = (let key = fst (ResolvePathForSession az path sessionID) in if key = [] then path else key)"

definition candidate :: "analyzer_env \<Rightarrow> string \<Rightarrow> reconcile_item \<Rightarrow> reconcileCandidate" where
  "candidate az sessionID = (\<lambda>(path, operation, toolName, source, at).
     \<lparr>rc_key = item_key az sessionID path, rc_operation = operation, rc_toolName = toolName,
      rc_absPath = snd (ResolvePathForSession az path sessionID), rc_source = source, rc_at = at\<rparr>)"

definition rc_add :: "(string \<times> reconcileCandidate) list \<Rightarrow> reconcileCandidate \<Rightarrow> (string \<times> reconcileCandidate) list" where
  "rc_add byKey c =
     (case map_of byKey (rc_key c) of
        None \<Rightarrow> massign (rc_key c) c byKey
      | Some e \<Rightarrow>
          if rc_source e < rc_source c then byKey
          else if rc_source c = rc_source e \<and> \<not> rc_at e < rc_at c then byKey
          else massign (rc_key c) c byKey)"

definition item_candidates :: "analyzer_env \<Rightarrow> (nat \<Rightarrow> go_time) \<Rightarrow> ReconcileInput \<Rightarrow> reconcileCandidate list" where
  "item_candidates az now ri =
     map (candidate az (ri_SessionID ri)) (filter (\<lambda>(path, op, _). path \<noteq> [] \<and> op \<noteq> []) (reconcile_items now ri))"

definition realtimeKeys :: "ReconcileInput \<Rightarrow> string set" where
  "realtimeKeys ri = sa_Key ` set (filter (\<lambda>e. sourceForToolName (sa_ToolName e) \<le> SourceShellParser) (ri_ExistingEvents ri))"

definition dedupEvents :: "SystemArtifactEvent list \<Rightarrow> SystemArtifactEvent list" where
  "dedupEvents events = map snd (foldl (\<lambda>latest e.
     let k = (sa_SessionID e, sa_Key e, sa_Operation e)
     in case map_of latest k of
          None \<Rightarrow> massign k e latest
        | Some prev \<Rightarrow> if sa_OccurredAt prev < sa_OccurredAt e then massign k e latest else latest) [] events)"

definition supplement :: "ReconcileInput \<Rightarrow> reconcileCandidate \<Rightarrow> SystemArtifactEvent" where
  "supplement ri c = \<lparr>sa_ID = 0, sa_SessionID = ri_SessionID ri, sa_AgentID = ri_SessionID ri, sa_TurnID = ri_TurnID ri,
     sa_CorrelationID = ri_CorrelationID ri, sa_Key = rc_key c, sa_ActualPath = rc_absPath c, sa_Operation = rc_operation c,
     sa_OccurredAt = rc_at c, sa_ToolName = rc_toolName c, sa_ContentSHA = []\<rparr>"

definition Reconcile :: "analyzer_env \<Rightarrow> (nat \<Rightarrow> go_time) \<Rightarrow> ReconcileInput \<Rightarrow> string \<Rightarrow> SystemArtifactEvent list" where
  "Reconcile az now ri projectRoot =
     (let az = az\<lparr>az_projectRoot := filepath_Clean projectRoot\<rparr>;
          byKey = foldl rc_add [] (item_candidates az now ri)
      in dedupEvents (map (\<lambda>(_, c). supplement ri c)
           (filter (\<lambda>(key, c). SourceShellParser < rc_source c \<and> key \<notin> realtimeKeys ri) byKey)))"

text \<open>The start snapshot is \<open>None\<close> when there is none.\<close>

definition session_filter :: "string \<Rightarrow> string \<Rightarrow> SystemArtifactFilter" where
  "session_filter sessionID turnID =
     \<lparr>sf_Q = [], sf_AgentIDs = [], sf_SessionIDs = [sessionID], sf_TurnIDs = (if turnID = [] then [] else [turnID]), sf_CorrelationIDs = [],
      sf_Operation = [], sf_Since = None, sf_Until = None, sf_IncludeDeleted = True, sf_Page = 0, sf_PerPage = 0, sf_Sort = [], sf_Order = []\<rparr>"

definition RunSessionReconciliation ::
  "engine \<Rightarrow> analyzer_env \<Rightarrow> (nat \<Rightarrow> go_time) \<Rightarrow> work_tree \<Rightarrow> artifact_db \<Rightarrow> string \<Rightarrow> string \<Rightarrow> string \<Rightarrow> string \<Rightarrow> string \<Rightarrow> DirSnapshot option \<Rightarrow>
    artifact_db \<times> bool" where
  "RunSessionReconciliation en az now wt db sessionID workDir projectRoot turnID correlationID start =
     (if sessionID = [] \<or> workDir = [] then (db, False)
      else case ListAllSystemArtifacts en db (session_filter sessionID turnID) of
        (db, None) \<Rightarrow> (db, True)
      | (db, Some existing) \<Rightarrow>
          (let ri = \<lparr>ri_SessionID = sessionID, ri_TurnID = turnID, ri_CorrelationID = correlationID, ri_ExistingEvents = existing,
                 ri_GitChanges = [], ri_SnapshotChanges = [], ri_StructuredPaths = []\<rparr>;
               found = (if IsGitRepo wt then map_option (\<lambda>ch. ri\<lparr>ri_GitChanges := ch\<rparr>) (DetectGitChanges wt)
                 else case start of
                   None \<Rightarrow> Some ri
                 | Some before \<Rightarrow> map_option (\<lambda>after. ri\<lparr>ri_SnapshotChanges := DiffSnapshots before after\<rparr>) (TakeSnapshot wt))
           in case found of
                None \<Rightarrow> (db, True)
              | Some ri \<Rightarrow> save_events db (Reconcile az now ri projectRoot)))"

section \<open>The service around a turn\<close>

record session_files =
  ss_WorkDir :: string
  ss_Collectors :: "FileChangeCollectors option"

record turn_server =
  sv_analyzer :: ToolCallAnalyzer
  sv_db :: artifact_db
  sv_snapshots :: "(string \<times> DirSnapshot) list"

definition snapshotKey :: "string \<Rightarrow> string \<Rightarrow> string" where
  "snapshotKey sessionID turnID = sessionID @ '':'' @ turnID"

text \<open>Sessions are looked up in the session store; the trees of work directories are those of the moment.\<close>

definition captureTurnSnapshot ::
  "(string \<Rightarrow> session_files option) \<Rightarrow> (string \<Rightarrow> work_tree) \<Rightarrow> turn_server \<Rightarrow> string \<Rightarrow> string \<Rightarrow> string \<Rightarrow> turn_server" where
  "captureTurnSnapshot sessions trees s sessionID turnID workDir =
     (if workDir = [] \<or> turnID = [] then s
      else if (case sessions sessionID of
          Some r \<Rightarrow> \<not> WorkdirReconcile (EffectiveFileChangeCollectors (ss_Collectors r)) | None \<Rightarrow> False) then s
      else if IsGitRepo (trees workDir) then s
      else case TakeSnapshot (trees workDir) of
        None \<Rightarrow> s
      | Some snap \<Rightarrow> s\<lparr>sv_snapshots := massign (snapshotKey sessionID turnID) snap (sv_snapshots s)\<rparr>)"

definition reconcileSessionArtifacts ::
  "engine \<Rightarrow> analyzer_env \<Rightarrow> (nat \<Rightarrow> go_time) \<Rightarrow> (string \<Rightarrow> session_files option) \<Rightarrow> (string \<Rightarrow> work_tree) \<Rightarrow> string \<Rightarrow>
    StreamEvent list option \<Rightarrow> turn_server \<Rightarrow> string \<Rightarrow> string \<Rightarrow> string \<Rightarrow> turn_server" where
  "reconcileSessionArtifacts en az now sessions trees artifactWorkDir relayed s sessionID turnID correlationID =
     (case sessions sessionID of
        None \<Rightarrow> s
      | Some r \<Rightarrow>
          (let cfg = EffectiveFileChangeCollectors (ss_Collectors r);
               ops = CollectClaudeTier1OpsFromStream (case relayed of None \<Rightarrow> [] | Some evs \<Rightarrow> evs);
               s = (if StructuredTool cfg \<and> ops \<noteq> [] then
                  (let ((a, db), _) = FlushTurnFiles az (sv_analyzer s, sv_db s) sessionID turnID correlationID ops
                   in s\<lparr>sv_analyzer := a, sv_db := db\<rparr>) else s);
               key = snapshotKey sessionID turnID
           in if \<not> WorkdirReconcile cfg then s
              else (let start = map_of (sv_snapshots s) key;
                        s = s\<lparr>sv_snapshots := mdelete key (sv_snapshots s)\<rparr>;
                        byRecord = az\<lparr>az_workDir := Some (\<lambda>sid. case sessions sid of Some r \<Rightarrow> ss_WorkDir r | None \<Rightarrow> [])\<rparr>;
                        (db, failed) = RunSessionReconciliation en byRecord now (trees (ss_WorkDir r)) (sv_db s) sessionID (ss_WorkDir r)
                          artifactWorkDir turnID correlationID start
                    in s\<lparr>sv_db := db\<rparr>)))"

section \<open>Parsed commands\<close>

lemma add_op_seen: "is_go_map seen \<Longrightarrow> is_go_map (add_op seen x)"
  by (auto simp: add_op_def Let_def split: prod.split option.split)

lemma fold_add_op:
  "is_go_map (foldl add_op [] adds) \<and>
   (\<forall>path. case map_of (foldl add_op [] adds) path of
      None \<Rightarrow> \<forall>(raw, op) \<in> set adds. normalizeShellPath raw = path \<longrightarrow> path = [] \<or> isIgnoredArtifactPath path
    | Some op \<Rightarrow> path \<noteq> [] \<and> \<not> isIgnoredArtifactPath path \<and> (\<exists>raw. (raw, op) \<in> set adds \<and> normalizeShellPath raw = path) \<and>
        (\<forall>(raw, op') \<in> set adds. normalizeShellPath raw = path \<longrightarrow> priority op' \<le> priority op))"
proof (induction adds rule: rev_induct)
  case (snoc x xs)
  obtain raw op where x: "x = (raw, op)" by (cases x)
  let ?seen = "foldl add_op [] xs" let ?p = "normalizeShellPath raw"
  have m: "is_go_map ?seen" using snoc by simp
  note ih = conjunct2 [OF snoc, rule_format]
  show ?case
  proof (intro conjI allI)
    show "is_go_map (foldl add_op [] (xs @ [x]))" using add_op_seen [OF m] by simp
  next
    fix path
    show "case map_of (foldl add_op [] (xs @ [x])) path of
      None \<Rightarrow> \<forall>(raw, op) \<in> set (xs @ [x]). normalizeShellPath raw = path \<longrightarrow> path = [] \<or> isIgnoredArtifactPath path
    | Some op \<Rightarrow> path \<noteq> [] \<and> \<not> isIgnoredArtifactPath path \<and> (\<exists>raw. (raw, op) \<in> set (xs @ [x]) \<and> normalizeShellPath raw = path) \<and>
        (\<forall>(raw, op') \<in> set (xs @ [x]). normalizeShellPath raw = path \<longrightarrow> priority op' \<le> priority op)"
    proof (cases "path = ?p \<and> path \<noteq> [] \<and> \<not> isIgnoredArtifactPath path")
      case False
      then have "map_of (add_op ?seen x) path = map_of ?seen path"
        by (auto simp: add_op_def x Let_def split: option.split)
      with ih [of path] False show ?thesis by (auto simp: x split: option.splits)
    next
      case True
      show ?thesis
      proof (cases "map_of ?seen path")
        case None
        then have "map_of (add_op ?seen x) path = Some op" using True by (auto simp: add_op_def x Let_def)
        with ih [of path] None True show ?thesis by (auto simp: x)
      next
        case (Some e)
        have "map_of (add_op ?seen x) path = Some (if priority e < priority op then op else e)"
          using True Some by (auto simp: add_op_def x)
        with ih [of path] Some True show ?thesis by (auto simp: x)
      qed
    qed
  qed
qed simp

lemma priority_inj: "op \<in> {OperationCreate, OperationUpdate, OperationDelete} \<Longrightarrow>
  op' \<in> {OperationCreate, OperationUpdate, OperationDelete} \<Longrightarrow> priority op = priority op' \<Longrightarrow> op = op'"
  by (auto simp: priority_def split: if_splits)

lemma shell_adds_ops: "(raw, op) \<in> set (shell_adds cmd) \<Longrightarrow> op \<in> {OperationCreate, OperationUpdate, OperationDelete}"
  by (auto simp: shell_adds_def Let_def)

text \<open>
  What a shell command is taken to do: every path is reported once, and it is reported with an
  operation exactly when some pattern finds the path with that operation, the path is not a null device
  or empty, and no pattern finds it with an operation of a higher rank (delete over update over create);
  the order of the patterns and of the matches plays no part.
\<close>

theorem ParseShellCommand_iff:
  "distinct (map pf_Path (ParseShellCommand command)) \<and>
   (\<lparr>pf_Path = path, pf_Operation = op\<rparr> \<in> set (ParseShellCommand command) \<longleftrightarrow>
      TrimSpace command \<noteq> [] \<and> path \<noteq> [] \<and> \<not> isIgnoredArtifactPath path \<and>
      (\<exists>raw. (raw, op) \<in> set (shell_adds (TrimSpace command)) \<and> normalizeShellPath raw = path) \<and>
      \<not> (\<exists>(raw, op') \<in> set (shell_adds (TrimSpace command)). normalizeShellPath raw = path \<and> priority op < priority op'))"
proof (cases "TrimSpace command = []")
  case False
  let ?adds = "shell_adds (TrimSpace command)" let ?seen = "foldl add_op [] ?adds"
  have eq: "ParseShellCommand command = map (\<lambda>(path, op). \<lparr>pf_Path = path, pf_Operation = op\<rparr>) ?seen"
    using False by (simp add: ParseShellCommand_def)
  have m: "is_go_map ?seen" using fold_add_op [of ?adds] by simp
  note f = conjunct2 [OF fold_add_op [of ?adds], rule_format, of path]
  have "map pf_Path (ParseShellCommand command) = map fst ?seen" unfolding eq by (simp add: o_def case_prod_beta)
  then have d: "distinct (map pf_Path (ParseShellCommand command))" using m by (simp add: is_go_map_def)
  have "\<lparr>pf_Path = path, pf_Operation = op\<rparr> \<in> set (ParseShellCommand command) \<longleftrightarrow> (path, op) \<in> set ?seen"
    unfolding eq by (auto simp: image_iff intro: rev_bexI)
  also have "\<dots> \<longleftrightarrow> map_of ?seen path = Some op" using m by (simp add: is_go_map_def)
  also have "\<dots> \<longleftrightarrow> path \<noteq> [] \<and> \<not> isIgnoredArtifactPath path \<and>
      (\<exists>raw. (raw, op) \<in> set ?adds \<and> normalizeShellPath raw = path) \<and>
      \<not> (\<exists>(raw, op') \<in> set ?adds. normalizeShellPath raw = path \<and> priority op < priority op')" (is "?l \<longleftrightarrow> ?r")
  proof
    assume ?l with f show ?r by (auto simp: not_less)
  next
    assume r: ?r
    then obtain raw where raw: "(raw, op) \<in> set ?adds" "normalizeShellPath raw = path" by blast
    show ?l
    proof (cases "map_of ?seen path")
      case None
      with f r raw show ?thesis by auto
    next
      case (Some op0)
      with f obtain raw0 where raw0: "(raw0, op0) \<in> set ?adds" "normalizeShellPath raw0 = path" by auto
      have "priority op \<le> priority op0" using f Some raw by auto
      moreover have "priority op0 \<le> priority op" using r raw0 by (auto simp: not_less)
      ultimately have "op0 = op" using priority_inj [OF shell_adds_ops [OF raw0(1)] shell_adds_ops [OF raw(1)]] by simp
      with Some show ?thesis by simp
    qed
  qed
  finally show ?thesis using d False by simp
qed (simp add: ParseShellCommand_def)

text \<open>
  Limits of the parser: of several files to remove only the first is found, a moved file is reported under
  its new name only, a command that removes and writes a file again reports the removal, and an argument
  followed by a semicolon keeps it.
\<close>

lemma rm_first_only: "ParseShellCommand ''rm a b'' = [\<lparr>pf_Path = ''a'', pf_Operation = OperationDelete\<rparr>]"
  by code_simp

lemma mv_target_only: "ParseShellCommand ''mv a b'' = [\<lparr>pf_Path = ''b'', pf_Operation = OperationUpdate\<rparr>]"
  by code_simp

lemma rewritten_file_deleted: "ParseShellCommand ''rm a && touch a'' = [\<lparr>pf_Path = ''a'', pf_Operation = OperationDelete\<rparr>]"
  by code_simp

lemma semicolon_in_path: "ParseShellCommand ''rm a; ls'' = [\<lparr>pf_Path = ''a;'', pf_Operation = OperationDelete\<rparr>]"
  by code_simp

section \<open>One event per file and turn\<close>

definition event_key :: "SystemArtifactEvent \<Rightarrow> string" where
  "event_key e = tier1SeenKey (sa_SessionID e) (sa_TurnID e) (sa_Key e)"

definition tier1 :: "SystemArtifactEvent \<Rightarrow> bool" where
  "tier1 e \<longleftrightarrow> isTier1ToolName (sa_ToolName e)"

text \<open>Events that claim their keys one after the other, starting from the keys \<open>S\<close>.\<close>

fun claims :: "string set \<Rightarrow> SystemArtifactEvent list \<Rightarrow> string set \<Rightarrow> bool" where
  "claims S [] T \<longleftrightarrow> S = T"
| "claims S (e # es) T \<longleftrightarrow> event_key e \<notin> S \<and> claims (if tier1 e then insert (event_key e) S else S) es T"

lemma claims_append: "claims S xs T \<Longrightarrow> claims T ys U \<Longrightarrow> claims S (xs @ ys) U"
  by (induction S xs T rule: claims.induct) auto

lemma buildEvent_claims:
  "buildEvent az a sessionID turnID corr tool path op = (a', es) \<Longrightarrow> claims (ta_seenTier1Keys a) es (ta_seenTier1Keys a')"
  by (auto simp: buildEvent_def Let_def event_key_def tier1_def split: if_splits)

lemma buildEvents_claims:
  "buildEvents az a sessionID turnID corr tool ops = (a', es) \<Longrightarrow> claims (ta_seenTier1Keys a) es (ta_seenTier1Keys a')"
proof (induction az a sessionID turnID corr tool ops arbitrary: a' es rule: buildEvents.induct)
  case (2 az a sessionID turnID corr tool path op ops)
  obtain a1 e1 where b: "buildEvent az a sessionID turnID corr tool path op = (a1, e1)" by (cases "buildEvent az a sessionID turnID corr tool path op")
  obtain a2 e2 where r: "buildEvents az a1 sessionID turnID corr tool ops = (a2, e2)" by (cases "buildEvents az a1 sessionID turnID corr tool ops")
  from claims_append [OF buildEvent_claims [OF b]] "2.IH" [OF b [symmetric] refl r] "2.prems" b r show ?case by auto
qed simp

lemma emit_claims:
  "emitShellOps az a sessionID turnID corr tool ops = (a', es) \<Longrightarrow> claims (ta_seenTier1Keys a) es (ta_seenTier1Keys a')"
  unfolding emitShellOps_def by (rule buildEvents_claims)

lemma take_seen: "takePendingShell a sessionID callID = (a', p) \<Longrightarrow> ta_seenTier1Keys a' = ta_seenTier1Keys a"
  by (auto simp: takePendingShell_def Let_def split: option.splits list.splits if_splits)

lemma flush_claims:
  assumes "flushPendingShell az a sessionID callID = (a', es)"
  shows "claims (ta_seenTier1Keys a) es (ta_seenTier1Keys a')"
proof -
  obtain b p where t: "takePendingShell a sessionID callID = (b, p)" by (cases "takePendingShell a sessionID callID")
  show ?thesis
    using assms t take_seen [OF t] emit_claims [of az b sessionID] by (cases p) (auto simp: flushPendingShell_def split: if_splits)
qed

lemma stash_seen: "ta_seenTier1Keys (stashPendingShell a sessionID callID p) = ta_seenTier1Keys a"
  by (simp add: stashPendingShell_def)

lemma shell_claims:
  "analyzeShellTool az a ev sessionID turnID corr = (a', es) \<Longrightarrow> claims (ta_seenTier1Keys a) es (ta_seenTier1Keys a')"
  using emit_claims [of az a sessionID turnID corr "se_ToolName ev" _ a' es]
  by (auto simp: analyzeShellTool_def Let_def stash_seen split: if_splits)

lemma shell_result_claims:
  "analyzeShellToolResult az a ev sessionID turnID corr = (a', es) \<Longrightarrow> claims (ta_seenTier1Keys a) es (ta_seenTier1Keys a')"
  using emit_claims [of az a sessionID turnID corr _ _ a' es]
  by (auto simp: analyzeShellToolResult_def Let_def split: if_splits)

lemma analyzeEvents_claims:
  "analyzeEvents az a ev sessionID turnID corr = (a', es) \<Longrightarrow> claims (ta_seenTier1Keys a) es (ta_seenTier1Keys a')"
  using buildEvents_claims [of az a sessionID turnID corr "se_ToolName ev" _ a' es]
    buildEvent_claims [of az a sessionID turnID corr "se_ToolName ev" _ _ a' es] shell_claims [of az a ev sessionID turnID corr a' es]
  by (auto simp: analyzeEvents_def Let_def analyzeFileChange_def analyzeMappedTool_def split: if_splits option.splits)

lemma entry_claims:
  assumes "entry_events az a ev sessionID = (a', es)"
  shows "claims (ta_seenTier1Keys a) es (ta_seenTier1Keys a')"
proof (cases "se_Type ev = EventToolResult")
  case True
  obtain b xs where f: "flushPendingShell az a sessionID (se_ToolCallID ev) = (b, xs)" by (cases "flushPendingShell az a sessionID (se_ToolCallID ev)")
  obtain c ys where r: "analyzeShellToolResult az b ev sessionID (se_TurnID ev) (se_CorrelationID ev) = (c, ys)"
    by (cases "analyzeShellToolResult az b ev sessionID (se_TurnID ev) (se_CorrelationID ev)")
  show ?thesis
    using assms True f r claims_append [OF flush_claims [OF f] shell_result_claims [OF r]] flush_claims [OF f]
    by (auto simp: entry_events_def split: if_splits)
next
  case False
  then show ?thesis using assms analyzeEvents_claims [of az a ev sessionID] by (simp add: entry_events_def)
qed

text \<open>The events recorded since the analyzer was made, and the keys it remembers.\<close>

definition exclusive :: "SystemArtifactEvent list \<Rightarrow> bool" where
  "exclusive es \<longleftrightarrow> sorted_wrt (\<lambda>x y. tier1 x \<longrightarrow> event_key x \<noteq> event_key y) es"

definition recorded_ok :: "SystemArtifactEvent list \<Rightarrow> ToolCallAnalyzer \<times> artifact_db \<Rightarrow> bool" where
  "recorded_ok old s \<longleftrightarrow> (\<exists>es. ad_events (snd s) = old @ es \<and> exclusive es \<and>
     (\<forall>e \<in> set es. tier1 e \<longrightarrow> event_key e \<in> ta_seenTier1Keys (fst s)))"

lemma event_key_id: "event_key (e\<lparr>sa_ID := n\<rparr>) = event_key e" "tier1 (e\<lparr>sa_ID := n\<rparr>) = tier1 e"
  by (simp_all add: event_key_def tier1_def)

lemma save_one_keeps:
  assumes "exclusive es" "\<forall>e \<in> set es. tier1 e \<longrightarrow> event_key e \<in> S" "ad_events db = old @ es" "event_key e \<notin> S"
    and "SaveSystemArtifactEvent db e = (db', failed)"
  shows "\<exists>es'. ad_events db' = old @ es' \<and> exclusive es' \<and>
    (\<forall>x \<in> set es'. tier1 x \<longrightarrow> event_key x \<in> (if tier1 e then insert (event_key e) S else S))"
proof -
  have "ad_events db' = old @ es \<or> ad_events db' = old @ (es @ [e\<lparr>sa_ID := ad_nextID db\<rparr>])"
    using assms(3,5) by (auto simp: SaveSystemArtifactEvent_def statement_def split: list.splits prod.splits bool.splits)
  then show ?thesis
  proof
    assume "ad_events db' = old @ es"
    with assms(1,2) show ?thesis by auto
  next
    assume e: "ad_events db' = old @ (es @ [e\<lparr>sa_ID := ad_nextID db\<rparr>])"
    have "exclusive (es @ [e\<lparr>sa_ID := ad_nextID db\<rparr>])"
      using assms(1,2,4) by (auto simp: exclusive_def sorted_wrt_append event_key_id)
    moreover have "\<forall>x \<in> set (es @ [e\<lparr>sa_ID := ad_nextID db\<rparr>]). tier1 x \<longrightarrow> event_key x \<in> (if tier1 e then insert (event_key e) S else S)"
      using assms(2) by (auto simp: event_key_id)
    ultimately show ?thesis using e by blast
  qed
qed

lemma save_fold_keeps:
  assumes "exclusive es" "\<forall>e \<in> set es. tier1 e \<longrightarrow> event_key e \<in> S" "ad_events db = old @ es" "claims S xs T"
  shows "\<exists>es'. ad_events (foldl (\<lambda>db e. fst (SaveSystemArtifactEvent db e)) db xs) = old @ es' \<and> exclusive es' \<and>
    (\<forall>e \<in> set es'. tier1 e \<longrightarrow> event_key e \<in> T)"
  using assms
proof (induction xs arbitrary: es S db)
  case (Cons x xs)
  let ?S = "if tier1 x then insert (event_key x) S else S"
  have c: "event_key x \<notin> S" "claims ?S xs T" using Cons.prems(4) by simp_all
  obtain db' f where sv: "SaveSystemArtifactEvent db x = (db', f)" by (cases "SaveSystemArtifactEvent db x")
  from save_one_keeps [OF Cons.prems(1-3) c(1) sv] obtain es' where es': "ad_events db' = old @ es'" "exclusive es'"
    "\<forall>y \<in> set es'. tier1 y \<longrightarrow> event_key y \<in> ?S" by blast
  from Cons.IH [OF es'(2,3,1) c(2)] sv show ?case by simp
qed auto

lemma claims_mono: "claims S xs T \<Longrightarrow> S \<subseteq> T"
  by (induction S xs T rule: claims.induct) (auto split: if_splits)

lemma save_events_keeps:
  assumes "exclusive es" "\<forall>e \<in> set es. tier1 e \<longrightarrow> event_key e \<in> S" "ad_events db = old @ es" "claims S xs T"
  shows "\<exists>es'. ad_events (fst (save_events db xs)) = old @ es' \<and> exclusive es' \<and> (\<forall>e \<in> set es'. tier1 e \<longrightarrow> event_key e \<in> T)"
  using assms
proof (induction xs arbitrary: es S db)
  case (Cons x xs)
  let ?S = "if tier1 x then insert (event_key x) S else S"
  have c: "event_key x \<notin> S" "claims ?S xs T" using Cons.prems(4) by simp_all
  obtain db' f where sv: "SaveSystemArtifactEvent db x = (db', f)" by (cases "SaveSystemArtifactEvent db x")
  from save_one_keeps [OF Cons.prems(1-3) c(1) sv] obtain es' where es': "ad_events db' = old @ es'" "exclusive es'"
    "\<forall>y \<in> set es'. tier1 y \<longrightarrow> event_key y \<in> ?S" by blast
  show ?case
  proof (cases f)
    case True
    then show ?thesis using sv es' claims_mono [OF c(2)] by auto
  next
    case False
    then show ?thesis using sv Cons.IH [OF es'(2,3,1) c(2)] by simp
  qed
qed auto

text \<open>The two ways in which the analyzer records: an entry of the log, and the files of a turn.\<close>

inductive analyzer_step :: "ToolCallAnalyzer \<times> artifact_db \<Rightarrow> ToolCallAnalyzer \<times> artifact_db \<Rightarrow> bool" where
  entry: "analyzer_step s (onEntry az e s)"
| flush: "analyzer_step s (fst (FlushTurnFiles az s sessionID turnID corr ops))"

lemma onEntry_keeps: "recorded_ok old s \<Longrightarrow> recorded_ok old (onEntry az e s)"
proof -
  assume ok: "recorded_ok old s"
  show ?thesis
  proof (cases "\<exists>l ev. e = AgentLog l \<and> al_Phase l = ''send'' \<and> az_event az (al_Body l) = Some ev")
    case True
    then obtain l ev where e: "e = AgentLog l" "al_Phase l = ''send''" "az_event az (al_Body l) = Some ev" by blast
    obtain a es where en: "entry_events az (fst s) ev (al_AgentID l) = (a, es)" by (cases "entry_events az (fst s) ev (al_AgentID l)")
    from ok obtain xs where xs: "ad_events (snd s) = old @ xs" "exclusive xs"
      "\<forall>e \<in> set xs. tier1 e \<longrightarrow> event_key e \<in> ta_seenTier1Keys (fst s)" unfolding recorded_ok_def by blast
    from save_fold_keeps [OF xs(2,3,1) entry_claims [OF en]] e en show ?thesis by (simp add: onEntry_def recorded_ok_def)
  next
    case False
    then have "onEntry az e s = s" by (auto simp: onEntry_def split: log_entry.splits option.splits)
    with ok show ?thesis by simp
  qed
qed

lemma FlushTurnFiles_keeps: "recorded_ok old s \<Longrightarrow> recorded_ok old (fst (FlushTurnFiles az s sessionID turnID corr ops))"
proof (cases "SynthesizeTurnFilesEvent ops")
  case (Some ev)
  assume ok: "recorded_ok old s"
  let ?ev = "ev\<lparr>se_TurnID := turnID, se_CorrelationID := corr\<rparr>"
  obtain a es where en: "analyzeEvents az (fst s) ?ev sessionID turnID corr = (a, es)" by (cases "analyzeEvents az (fst s) ?ev sessionID turnID corr")
  obtain db f where sv: "save_events (snd s) es = (db, f)" by (cases "save_events (snd s) es")
  from ok obtain xs where xs: "ad_events (snd s) = old @ xs" "exclusive xs"
    "\<forall>e \<in> set xs. tier1 e \<longrightarrow> event_key e \<in> ta_seenTier1Keys (fst s)" unfolding recorded_ok_def by blast
  from save_events_keeps [OF xs(2,3,1) analyzeEvents_claims [OF en]] sv Some en show ?thesis
    by (simp add: FlushTurnFiles_def recorded_ok_def)
qed (simp add: FlushTurnFiles_def)

interpretation recording: state_machine "\<lambda>s :: ToolCallAnalyzer \<times> artifact_db. fst s = NewAnalyzer \<and> ad_events (snd s) = old" analyzer_step "recorded_ok old" for old
proof unfold_locales
  fix s :: "ToolCallAnalyzer \<times> artifact_db" assume "fst s = NewAnalyzer \<and> ad_events (snd s) = old"
  then show "recorded_ok old s" by (auto simp: recorded_ok_def exclusive_def intro: exI [of _ "[]"])
next
  fix s t assume "recorded_ok old s" "analyzer_step s t"
  from this(2,1) show "recorded_ok old t"
    by (induction rule: analyzer_step.induct) (auto intro: onEntry_keeps FlushTurnFiles_keeps)
qed

text \<open>
  C38. A file is recorded once per turn by the tools that name their files: whatever entries the log brings
  and however the collectors, the file system, the store and the clock behave, after an event of a file tool
  (or of the files of a Claude turn) no further event of that session and turn is recorded for the same key,
  neither by a file tool nor by the shell parser, and the events of before are untouched.
\<close>

theorem recorded_once:
  assumes "ad_events db = old" "analyzer_step\<^sup>*\<^sup>* (NewAnalyzer, db) s"
  shows "\<exists>es. ad_events (snd s) = old @ es \<and>
    (\<forall>i j. i < j \<longrightarrow> j < length es \<longrightarrow> tier1 (es ! i) \<longrightarrow>
       (sa_SessionID (es ! j), sa_TurnID (es ! j), sa_Key (es ! j)) \<noteq> (sa_SessionID (es ! i), sa_TurnID (es ! i), sa_Key (es ! i)))"
proof -
  have "recorded_ok old s" using recording.reachable_inv [of "(NewAnalyzer, db)" old s] assms by simp
  then obtain es where es: "ad_events (snd s) = old @ es" "exclusive es" unfolding recorded_ok_def by blast
  have "event_key (es ! i) \<noteq> event_key (es ! j)" if "i < j" "j < length es" "tier1 (es ! i)" for i j
    using es(2) that by (simp add: exclusive_def sorted_wrt_iff_nth_less)
  then show ?thesis using es(1) by (force simp: event_key_def)
qed

definition write_then_rm :: "StreamEvent list" where
  "write_then_rm =
     [(stream_event EventToolUse)\<lparr>se_ToolName := ''Write'', se_ToolInput := [(''path'', JStr ''/w/a'')], se_TurnID := ''t''\<rparr>,
      (stream_event EventToolUse)\<lparr>se_ToolName := ''Delete'', se_ToolInput := [(''path'', JStr ''/w/a'')], se_TurnID := ''t''\<rparr>]"

definition sample_analyzer_env :: analyzer_env where
  "sample_analyzer_env = \<lparr>az_projectRoot = ''/w'', az_workDir = None, az_collectors = None, az_stat = (\<lambda>_. True), az_now = 1,
     az_event = (\<lambda>b. if b = ''0'' then Some (write_then_rm ! 0) else if b = ''1'' then Some (write_then_rm ! 1) else None), az_arguments = (\<lambda>_. None)\<rparr>"

definition logged :: "string \<Rightarrow> ToolCallAnalyzer \<times> artifact_db \<Rightarrow> ToolCallAnalyzer \<times> artifact_db" where
  "logged body = onEntry sample_analyzer_env (NewAgentLogSendEntry 1 ''l'' ''s'' body)"

text \<open>
  First wins: a file that is written and deleted in one turn keeps the write as its latest event, so it
  passes for alive.
\<close>

lemma delete_after_write_dropped:
  "map (\<lambda>e. (sa_Key e, sa_Operation e)) (ad_events (snd (logged ''1'' (logged ''0'' (NewAnalyzer, uw_db empty_artifacts))))) = [(''a'', OperationCreate)]"
  by code_simp

theorem recorded_once_witness:
  "\<exists>es. ad_events (snd (logged ''1'' (logged ''0'' (NewAnalyzer, uw_db empty_artifacts)))) = [] @ es \<and>
    (\<forall>i j. i < j \<longrightarrow> j < length es \<longrightarrow> tier1 (es ! i) \<longrightarrow>
       (sa_SessionID (es ! j), sa_TurnID (es ! j), sa_Key (es ! j)) \<noteq> (sa_SessionID (es ! i), sa_TurnID (es ! i), sa_Key (es ! i)))"
proof -
  have step: "analyzer_step s (logged b s)" for b s unfolding logged_def by (rule analyzer_step.entry)
  have "analyzer_step\<^sup>*\<^sup>* (NewAnalyzer, uw_db empty_artifacts) (logged ''1'' (logged ''0'' (NewAnalyzer, uw_db empty_artifacts)))"
    using step by (meson rtranclp.rtrancl_into_rtrancl rtranclp.rtrancl_refl)
  moreover have "ad_events (uw_db empty_artifacts) = []" by (simp add: empty_artifacts_def)
  ultimately show ?thesis using recorded_once by blast
qed

section \<open>What a reconciliation adds\<close>

definition preferred :: "reconcileCandidate \<Rightarrow> reconcileCandidate \<Rightarrow> bool" where
  "preferred c d \<longleftrightarrow> rc_source c < rc_source d \<or> (rc_source c = rc_source d \<and> rc_at d \<le> rc_at c)"

lemma preferred_trans: "preferred a b \<Longrightarrow> preferred b c \<Longrightarrow> preferred a c"
  by (auto simp: preferred_def)

lemma rc_add_go_map: "is_go_map m \<Longrightarrow> is_go_map (rc_add m x)"
  by (simp add: rc_add_def split: option.split)

lemma fold_rc_add:
  "is_go_map (foldl rc_add [] cs) \<and>
   (\<forall>k. case map_of (foldl rc_add [] cs) k of
      None \<Rightarrow> \<forall>d \<in> set cs. rc_key d \<noteq> k
    | Some c \<Rightarrow> c \<in> set cs \<and> rc_key c = k \<and> (\<forall>d \<in> set cs. rc_key d = k \<longrightarrow> preferred c d))"
proof (induction cs rule: rev_induct)
  case (snoc x xs)
  let ?m = "foldl rc_add [] xs"
  note ih = conjunct2 [OF snoc, rule_format]
  have m: "is_go_map (rc_add ?m x)" by (rule rc_add_go_map [OF conjunct1 [OF snoc]])
  have "case map_of (rc_add ?m x) k of
      None \<Rightarrow> \<forall>d \<in> set (xs @ [x]). rc_key d \<noteq> k
    | Some c \<Rightarrow> c \<in> set (xs @ [x]) \<and> rc_key c = k \<and> (\<forall>d \<in> set (xs @ [x]). rc_key d = k \<longrightarrow> preferred c d)" for k
  proof (cases "rc_key x = k")
    case False
    then have "map_of (rc_add ?m x) k = map_of ?m k" by (auto simp: rc_add_def split: option.split)
    with ih [of k] False show ?thesis by (auto split: option.splits)
  next
    case True
    show ?thesis
    proof (cases "map_of ?m k")
      case None
      then have "map_of (rc_add ?m x) k = Some x" using True by (simp add: rc_add_def)
      with ih [of k] None True show ?thesis by (auto simp: preferred_def)
    next
      case (Some e)
      have e: "e \<in> set xs" "rc_key e = k" "\<forall>d \<in> set xs. rc_key d = k \<longrightarrow> preferred e d" using ih [of k] Some by auto
      show ?thesis
      proof (cases "rc_source e < rc_source x \<or> (rc_source x = rc_source e \<and> \<not> rc_at e < rc_at x)")
        case keep: True
        then have "map_of (rc_add ?m x) k = Some e" using True Some by (auto simp: rc_add_def)
        moreover have "preferred e x" using keep by (auto simp: preferred_def)
        ultimately show ?thesis using e by auto
      next
        case take: False
        then have "map_of (rc_add ?m x) k = Some x" using True Some by (auto simp: rc_add_def)
        moreover have px: "preferred x e" "preferred x x" using take by (auto simp: preferred_def)
        have "\<forall>d \<in> set (xs @ [x]). rc_key d = k \<longrightarrow> preferred x d" using e(3) px(2) preferred_trans [OF px(1)] by simp
        ultimately show ?thesis using True by simp
      qed
    qed
  qed
  with m show ?case by simp
qed simp

abbreviation dedup_key :: "SystemArtifactEvent \<Rightarrow> string \<times> string \<times> string" where
  "dedup_key e \<equiv> (sa_SessionID e, sa_Key e, sa_Operation e)"

lemma massign_new: "k \<notin> fst ` set m \<Longrightarrow> massign k v m = m @ [(k, v)]"
  by (induction m) auto

lemma dedup_fold:
  assumes "distinct (map fst m @ map dedup_key es)"
  shows "foldl (\<lambda>latest e. let k = dedup_key e
     in case map_of latest k of None \<Rightarrow> massign k e latest
        | Some prev \<Rightarrow> if sa_OccurredAt prev < sa_OccurredAt e then massign k e latest else latest) m es =
   m @ map (\<lambda>e. (dedup_key e, e)) es"
  using assms
proof (induction es arbitrary: m)
  case (Cons e es)
  have n: "dedup_key e \<notin> fst ` set m" using Cons.prems by simp
  then have "map_of m (dedup_key e) = None" by (simp add: map_of_eq_None_iff)
  moreover have "distinct (map fst (m @ [(dedup_key e, e)]) @ map dedup_key es)" using Cons.prems by simp
  ultimately show ?case using Cons.IH [of "m @ [(dedup_key e, e)]"] massign_new [OF n] by simp
qed simp

lemma dedupEvents_distinct:
  assumes "distinct (map sa_Key es)"
  shows "dedupEvents es = es"
proof -
  have "inj_on dedup_key (set es)" using assms by (auto simp: distinct_map inj_on_def)
  then have "distinct (map fst [] @ map dedup_key es)" using assms by (simp add: distinct_map)
  from dedup_fold [OF this] show ?thesis by (simp add: dedupEvents_def o_def)
qed

lemma Reconcile_eq:
  fixes az :: analyzer_env and now :: "nat \<Rightarrow> go_time" and ri :: ReconcileInput and p :: string
  defines "at_root \<equiv> az\<lparr>az_projectRoot := filepath_Clean p\<rparr>"
  shows "Reconcile az now ri p = map (\<lambda>(_, c). supplement ri c)
      (filter (\<lambda>(key, c). SourceShellParser < rc_source c \<and> key \<notin> realtimeKeys ri) (foldl rc_add [] (item_candidates at_root now ri)))"
    and "distinct (map sa_Key (Reconcile az now ri p))"
proof -
  let ?m = "foldl rc_add [] (item_candidates at_root now ri)"
  let ?sel = "filter (\<lambda>(key, c). SourceShellParser < rc_source c \<and> key \<notin> realtimeKeys ri) ?m"
  have m: "is_go_map ?m" using fold_rc_add [of "item_candidates at_root now ri"] by simp
  have key: "rc_key c = k" if "(k, c) \<in> set ?m" for k c
  proof -
    have "map_of ?m k = Some c" using m that by (simp add: is_go_map_def)
    with fold_rc_add [of "item_candidates at_root now ri"] show ?thesis by (force split: option.splits)
  qed
  have "map sa_Key (map (\<lambda>(_, c). supplement ri c) ?sel) = map fst ?sel"
    using key by (auto simp: supplement_def)
  moreover have "distinct (map fst ?sel)" using m by (simp add: is_go_map_def distinct_map_filter)
  ultimately have d: "distinct (map sa_Key (map (\<lambda>(_, c). supplement ri c) ?sel))" by (simp only:)
  show eq: "Reconcile az now ri p = map (\<lambda>(_, c). supplement ri c) ?sel"
    using dedupEvents_distinct [OF d] by (simp add: Reconcile_def at_root_def Let_def)
  show "distinct (map sa_Key (Reconcile az now ri p))" unfolding eq by (rule d)
qed

text \<open>
  What a reconciliation adds: at most one event per key, and for a key exactly when something other than
  the realtime tools reports it, no realtime event has the key, and nothing that resolves to the key
  comes from a realtime tool. The event is then the report of the most preferred source, the latest of
  those of that source.
\<close>

theorem Reconcile_iff:
  fixes az :: analyzer_env and now :: "nat \<Rightarrow> go_time" and ri :: ReconcileInput and p k :: string
  defines "cands \<equiv> item_candidates (az\<lparr>az_projectRoot := filepath_Clean p\<rparr>) now ri"
  shows "distinct (map sa_Key (Reconcile az now ri p)) \<and>
    (k \<in> sa_Key ` set (Reconcile az now ri p) \<longleftrightarrow>
       k \<notin> realtimeKeys ri \<and> (\<exists>c \<in> set cands. rc_key c = k) \<and> (\<forall>c \<in> set cands. rc_key c = k \<longrightarrow> SourceShellParser < rc_source c)) \<and>
    (\<forall>e \<in> set (Reconcile az now ri p). \<exists>c \<in> set cands. e = supplement ri c \<and>
       (\<forall>d \<in> set cands. rc_key d = rc_key c \<longrightarrow> preferred c d))"
proof -
  let ?m = "foldl rc_add [] cands"
  have m: "is_go_map ?m" using fold_rc_add [of cands] by simp
  note f = conjunct2 [OF fold_rc_add [of cands], rule_format]
  have set: "set (Reconcile az now ri p) = {supplement ri c |k c. map_of ?m k = Some c \<and> SourceShellParser < rc_source c \<and> k \<notin> realtimeKeys ri}"
    using m unfolding Reconcile_eq(1) cands_def [symmetric] by (auto simp: is_go_map_def image_iff)
  have sk: "sa_Key (supplement ri c) = rc_key c" for c by (simp add: supplement_def)
  have mk: "map_of ?m k = Some c \<Longrightarrow> c \<in> set cands \<and> rc_key c = k \<and> (\<forall>d \<in> set cands. rc_key d = k \<longrightarrow> preferred c d)" for k c
    using f [of k] by simp
  have "k \<in> sa_Key ` set (Reconcile az now ri p) \<longleftrightarrow> (\<exists>c. map_of ?m k = Some c \<and> SourceShellParser < rc_source c \<and> k \<notin> realtimeKeys ri)"
    (is "?l \<longleftrightarrow> ?r")
  proof
    assume ?l then show ?r using mk by (auto simp: set sk)
  next
    assume ?r then show ?l using mk by (force simp: set sk image_iff)
  qed
  also have "\<dots> \<longleftrightarrow> k \<notin> realtimeKeys ri \<and> (\<exists>c \<in> set cands. rc_key c = k) \<and>
      (\<forall>c \<in> set cands. rc_key c = k \<longrightarrow> SourceShellParser < rc_source c)"
  proof (cases "map_of ?m k")
    case None then show ?thesis using f [of k] by auto
  next
    case (Some c)
    then show ?thesis using mk [of k c] by (auto simp: preferred_def)
  qed
  moreover have "\<forall>e \<in> set (Reconcile az now ri p). \<exists>c \<in> set cands. e = supplement ri c \<and>
       (\<forall>d \<in> set cands. rc_key d = rc_key c \<longrightarrow> preferred c d)"
    unfolding set using mk by blast
  ultimately show ?thesis using Reconcile_eq(2) by blast
qed

text \<open>
  The difference of two snapshots is exact: a path is reported as created when it is only in the second,
  as deleted when it is only in the first, as updated when the sizes differ, and once.
\<close>

theorem DiffSnapshots_iff:
  assumes "is_go_map before" "is_go_map after"
  shows "distinct (map pf_Path (DiffSnapshots before after)) \<and>
    (\<lparr>pf_Path = path, pf_Operation = op\<rparr> \<in> set (DiffSnapshots before after) \<longleftrightarrow>
      (case (map_of before path, map_of after path) of
         (None, Some _) \<Rightarrow> op = OperationCreate
       | (Some _, None) \<Rightarrow> op = OperationDelete
       | (Some x, Some y) \<Rightarrow> x \<noteq> y \<and> op = OperationUpdate
       | (None, None) \<Rightarrow> False))"
proof -
  let ?f = "\<lambda>seen (p, sz). case map_of before p of
            None \<Rightarrow> massign p OperationCreate seen
          | Some prev \<Rightarrow> if prev \<noteq> sz then massign p OperationUpdate seen else seen"
  let ?g = "\<lambda>seen (p, _ :: int). if p \<in> mkeys after then seen else massign p OperationDelete seen"
  have f: "is_go_map (foldl ?f m xs) \<and> (\<forall>q. map_of (foldl ?f m xs) q = (case map_of xs q of
      None \<Rightarrow> map_of m q
    | Some sz \<Rightarrow> (case map_of before q of None \<Rightarrow> Some OperationCreate | Some prev \<Rightarrow> if prev \<noteq> sz then Some OperationUpdate else map_of m q)))"
    if "is_go_map m" "is_go_map xs" "\<forall>q \<in> mkeys xs. map_of m q = None" for m xs
    using that
  proof (induction xs arbitrary: m)
    case (Cons x xs)
    obtain p sz where x: "x = (p, sz)" by (cases x)
    have "is_go_map (?f m x)" using Cons.prems(1) by (simp add: x split: option.split)
    moreover have q: "map_of (?f m x) q = (if q = p then (case map_of before p of None \<Rightarrow> Some OperationCreate
        | Some prev \<Rightarrow> if prev \<noteq> sz then Some OperationUpdate else map_of m p) else map_of m q)" for q
      by (auto simp: x split: option.split)
    moreover have "\<forall>q \<in> mkeys xs. map_of (?f m x) q = None" using Cons.prems(2,3) q by (auto simp: x)
    moreover have "map_of xs p = None" using Cons.prems(2) by (simp add: x map_of_eq_None_iff)
    ultimately show ?case using Cons.IH [of "?f m x"] Cons.prems(2) by (auto simp: x split: option.splits)
  qed simp
  have g: "is_go_map (foldl ?g m xs) \<and> (\<forall>q. map_of (foldl ?g m xs) q =
      (if q \<in> mkeys xs \<and> q \<notin> mkeys after then Some OperationDelete else map_of m q))" if "is_go_map m" for m xs
    using that
  proof (induction xs arbitrary: m)
    case (Cons x xs)
    obtain p sz where x: "x = (p, sz)" by (cases x)
    have "is_go_map (?g m x)" using Cons.prems by (simp add: x)
    then show ?case using Cons.IH [of "?g m x"] by (auto simp: x)
  qed simp
  let ?s1 = "foldl ?f [] after" let ?s2 = "foldl ?g ?s1 before"
  have s1: "is_go_map ?s1" using f [of "[]" after] assms(2) by simp
  have s2: "is_go_map ?s2" using g [OF s1] by simp
  have eq: "DiffSnapshots before after = map (\<lambda>(p, op). \<lparr>pf_Path = p, pf_Operation = op\<rparr>) ?s2"
    by (simp add: DiffSnapshots_def parsed_ops_def Let_def)
  have "map pf_Path (DiffSnapshots before after) = map fst ?s2" unfolding eq by (simp add: o_def case_prod_beta)
  then have "distinct (map pf_Path (DiffSnapshots before after))" using s2 by (simp add: is_go_map_def)
  moreover have "\<lparr>pf_Path = path, pf_Operation = op\<rparr> \<in> set (DiffSnapshots before after) \<longleftrightarrow> map_of ?s2 path = Some op"
    using s2 unfolding eq by (auto simp: is_go_map_def image_iff intro: rev_bexI)
  moreover have "map_of ?s2 path = Some op \<longleftrightarrow> (case (map_of before path, map_of after path) of
         (None, Some _) \<Rightarrow> op = OperationCreate
       | (Some _, None) \<Rightarrow> op = OperationDelete
       | (Some x, Some y) \<Rightarrow> x \<noteq> y \<and> op = OperationUpdate
       | (None, None) \<Rightarrow> False)"
    using g [OF s1, of before] f [of "[]" after] assms(2)
    by (auto simp: mkeys_map_of split: option.splits)
  ultimately show ?thesis by blast
qed

theorem DiffSnapshots_iff_witness:
  "\<lparr>pf_Path = ''b'', pf_Operation = OperationDelete\<rparr> \<in> set (DiffSnapshots [(''a'', 1), (''b'', 2)] [(''a'', 1)]) \<and>
   \<lparr>pf_Path = ''a'', pf_Operation = OperationUpdate\<rparr> \<notin> set (DiffSnapshots [(''a'', 1), (''b'', 2)] [(''a'', 1)])"
  using DiffSnapshots_iff [of "[(''a'', 1), (''b'', 2)]" "[(''a'', 1)]" "''b''" OperationDelete]
    DiffSnapshots_iff [of "[(''a'', 1), (''b'', 2)]" "[(''a'', 1)]" "''a''" OperationUpdate] by simp

section \<open>Limits\<close>

text \<open>A path with a space is cut to its last word, and of a renamed file only the new path is kept.\<close>

lemma git_path_cut:
  "DetectGitChanges \<lparr>wt_gitDir = True, wt_head = True, wt_diff = Some (''M'' @ [CHR 0x09] @ ''my file.txt'' @ [CHR 0x0A] @ ''R100'' @ [CHR 0x09] @ ''old'' @ [CHR 0x09] @ ''new''),
     wt_untracked = Some [], wt_walk = None\<rparr> =
   Some [\<lparr>pf_Path = ''file.txt'', pf_Operation = OperationUpdate\<rparr>, \<lparr>pf_Path = ''new'', pf_Operation = OperationUpdate\<rparr>]"
  by code_simp

text \<open>A second reconciliation of the same turn adds the same change again.\<close>

definition one_change :: "SystemArtifactEvent list \<Rightarrow> ReconcileInput" where
  "one_change existing = \<lparr>ri_SessionID = ''s'', ri_TurnID = ''t'', ri_CorrelationID = [], ri_ExistingEvents = existing,
     ri_GitChanges = [\<lparr>pf_Path = ''a'', pf_Operation = OperationUpdate\<rparr>], ri_SnapshotChanges = [], ri_StructuredPaths = []\<rparr>"

definition git_update :: "go_time \<Rightarrow> SystemArtifactEvent" where
  "git_update t = \<lparr>sa_ID = 0, sa_SessionID = ''s'', sa_AgentID = ''s'', sa_TurnID = ''t'', sa_CorrelationID = [], sa_Key = ''a'',
     sa_ActualPath = ''/w/a'', sa_Operation = OperationUpdate, sa_OccurredAt = t, sa_ToolName = ''reconcile:git'', sa_ContentSHA = []\<rparr>"

lemma sample_paths: "ResolvePathForSession (sample_analyzer_env\<lparr>az_projectRoot := filepath_Clean ''/w''\<rparr>) ''a'' ''s'' = (''a'', ''/w/a'')"
  by code_simp

lemma reconcile_again:
  "Reconcile sample_analyzer_env (\<lambda>_. 1) (one_change []) ''/w'' = [git_update 1]"
  "Reconcile sample_analyzer_env (\<lambda>_. 2) (one_change [git_update 1]) ''/w'' = [git_update 2]"
  by (simp_all add: Reconcile_def item_candidates_def reconcile_items_def supplied_def candidate_def item_key_def sample_paths
      rc_add_def realtimeKeys_def sourceForToolName_def isTier1ToolName_def dedupEvents_def supplement_def one_change_def git_update_def)

theorem Reconcile_iff_witness:
  "''a'' \<in> sa_Key ` set (Reconcile sample_analyzer_env (\<lambda>_. 1) (one_change []) ''/w'') \<and>
   ''b'' \<notin> sa_Key ` set (Reconcile sample_analyzer_env (\<lambda>_. 1) (one_change []) ''/w'')"
proof -
  have c: "item_candidates (sample_analyzer_env\<lparr>az_projectRoot := filepath_Clean ''/w''\<rparr>) (\<lambda>_. 1) (one_change []) =
      [\<lparr>rc_key = ''a'', rc_operation = OperationUpdate, rc_toolName = ''reconcile:git'', rc_absPath = ''/w/a'', rc_source = SourceGitDiff, rc_at = 1\<rparr>]"
    by (simp add: item_candidates_def reconcile_items_def supplied_def candidate_def item_key_def sample_paths one_change_def)
  have r: "realtimeKeys (one_change []) = {}" by (simp add: realtimeKeys_def one_change_def)
  show ?thesis
    using Reconcile_iff [of sample_analyzer_env "\<lambda>_. 1" "one_change []" "''/w''" "''a''"]
      Reconcile_iff [of sample_analyzer_env "\<lambda>_. 1" "one_change []" "''/w''" "''b''"] unfolding c r by simp
qed

text \<open>
  A shell command without a call id waits for a result; the next result of the session, whatever call it
  answers, releases it.
\<close>

lemma foreign_result_releases:
  assumes "toolCallID \<noteq> []" "map_of (ta_pendingByCall a) (pendingShellKey sessionID toolCallID) = None"
  shows "snd (takePendingShell (stashPendingShell a sessionID [] p) sessionID toolCallID) =
    Some (if fifo_of a sessionID = [] then p else hd (fifo_of a sessionID))"
  using assms by (cases "fifo_of a sessionID") (auto simp: takePendingShell_def stashPendingShell_def fifo_of_def)

text \<open>Files outside the project and the work directory are known by their last name, so two of them share a key.\<close>

lemma outside_keys_collide:
  "toRelativePath sample_analyzer_env ''/x/a.txt'' ''s'' = ''a.txt''" "toRelativePath sample_analyzer_env ''/y/a.txt'' ''s'' = ''a.txt''"
  by code_simp+

section \<open>The analyzer on the log\<close>

lemma New_records:
  assumes "New az root tlog = (az', a, tlog')" "tl_onEntry tlog = None" "Entry_Type (h ! i) \<noteq> TerminatedEntryType"
  shows "TaskLog_Add h tlog' s (Some i) = (h, tlog'\<lparr>tl_History := tl_History tlog @ [i]\<rparr>, onEntry az' (h ! i) s)"
  using assms by (auto simp: New_def SetOnEntry_def TaskLog_Add_def Let_def)


definition write_entry :: AgentLogEntry where
  "write_entry = (agent_log ''l'' 1 ''s'')\<lparr>al_Body := ''0'', al_Phase := ''send''\<rparr>"


end
