(* ===== verification/Agent_Protocol.thy ===== *)
theory Agent_Protocol
  imports Token_Usage Retry_Policy
begin

text \<open>
  The output protocols of the two command line agents, translated to stream events:
  \<open>codingagent/codex/protocol.go\<close> and \<open>input_detect.go\<close> (\<open>codex exec --json\<close>) and
  \<open>codingagent/claudecode/protocol.go\<close> (\<open>claude --output-format stream-json\<close>).

  A line of output is given as the JSON value it parses to, \<open>None\<close> for text that is not JSON.
  Decoding into Go structs is written out: names match without regard to case, a null leaves a field
  alone, a value of the wrong type leaves it alone and makes \<open>json.Unmarshal\<close> return an error after
  the other fields are decoded, and the caller may ignore that error. Two parameters stand for
  \<open>float64\<close>: \<open>pf\<close> parses a number literal and \<open>num\<close> renders it again (\<open>None\<close>: out of range).
\<close>

section \<open>Decoding into structs\<close>

text \<open>
  Simple folding of a member name against a lower-case ASCII field name; the Kelvin sign and the
  long s are the only characters outside ASCII that fold to ASCII letters.
\<close>

fun fold_key :: "string \<Rightarrow> string" where
  "fold_key [] = []"
| "fold_key (a # s) =
     (if take 2 s = [CHR 0x84, CHR 0xAA] \<and> a = CHR 0xE2 then CHR ''k'' # fold_key (drop 2 s)
      else if take 1 s = [CHR 0xBF] \<and> a = CHR 0xC5 then CHR ''s'' # fold_key (drop 1 s)
      else lower_char a # fold_key s)"

text \<open>A decoder takes a JSON value and the old content of the variable; \<open>False\<close> is a type error.\<close>

type_synonym 'a decoder = "json \<Rightarrow> 'a \<Rightarrow> 'a \<times> bool"

definition dec_field :: "string \<Rightarrow> 'a decoder \<Rightarrow> 'a \<Rightarrow> json \<Rightarrow> 'a \<times> bool" where
  "dec_field name dec init v =
     (case v of
        JObj kvs \<Rightarrow>
          foldl (\<lambda>(a, ok) (k, j). if fold_key k = name then (fst (dec j a), ok \<and> snd (dec j a)) else (a, ok))
            (init, True) kvs
      | JNull \<Rightarrow> (init, True)
      | _ \<Rightarrow> (init, False))"

definition dec_str :: "string decoder" where
  "dec_str j a = (case j of JStr s \<Rightarrow> (s, True) | JNull \<Rightarrow> (a, True) | _ \<Rightarrow> (a, False))"

definition digits_only :: "string \<Rightarrow> bool" where
  "digits_only s \<longleftrightarrow> s \<noteq> [] \<and> list_all (\<lambda>c. 48 \<le> byte c \<and> byte c \<le> 57) s"

definition parse_digits :: "string \<Rightarrow> int" where
  "parse_digits s = foldl (\<lambda>n c. n * 10 + (int (byte c) - 48)) 0 s"

text \<open>\<open>strconv.ParseInt(s, 10, 64)\<close> on the text of a JSON number.\<close>

definition json_int :: "string \<Rightarrow> go_int option" where
  "json_int s =
     (let (neg, ds) = (if HasPrefix s ''-'' then (True, drop 1 s) else (False, s));
          n = (if neg then - parse_digits ds else parse_digits ds)
      in if digits_only ds \<and> - (2 ^ 63) \<le> n \<and> n < 2 ^ 63 then Some (word_of_int n) else None)"

definition dec_int :: "go_int decoder" where
  "dec_int j a =
     (case j of
        JNum n \<Rightarrow> (case json_int n of Some i \<Rightarrow> (i, True) | None \<Rightarrow> (a, False))
      | JNull \<Rightarrow> (a, True)
      | _ \<Rightarrow> (a, False))"

definition dec_float :: "(string \<Rightarrow> go_float option) \<Rightarrow> go_float decoder" where
  "dec_float pf j a =
     (case j of
        JNum n \<Rightarrow> (case pf n of Some f \<Rightarrow> (f, True) | None \<Rightarrow> (a, False))
      | JNull \<Rightarrow> (a, True)
      | _ \<Rightarrow> (a, False))"

definition dec_raw :: "json option decoder" where
  "dec_raw j a = (Some j, True)"

definition dec_ptr :: "'a decoder \<Rightarrow> 'a \<Rightarrow> 'a option decoder" where
  "dec_ptr dec zero j a =
     (case j of
        JNull \<Rightarrow> (None, True)
      | _ \<Rightarrow> (Some (fst (dec j (case a of None \<Rightarrow> zero | Some x \<Rightarrow> x))), snd (dec j (case a of None \<Rightarrow> zero | Some x \<Rightarrow> x))))"

text \<open>A slice; \<open>None\<close> is the nil slice. Elements start from the zero value.\<close>

definition dec_slice :: "'a decoder \<Rightarrow> 'a \<Rightarrow> 'a list option decoder" where
  "dec_slice dec zero j a =
     (case j of
        JArr js \<Rightarrow> (Some (map (\<lambda>j. fst (dec j zero)) js), list_all (\<lambda>j. snd (dec j zero)) js)
      | JNull \<Rightarrow> (None, True)
      | _ \<Rightarrow> (a, False))"

text \<open>
  Maps decoded into \<open>any\<close> are kept in the order in which Go prints them, by key; a repeated key
  overwrites.
\<close>

fun str_less :: "string \<Rightarrow> string \<Rightarrow> bool" where
  "str_less [] t = (t \<noteq> [])"
| "str_less s [] = False"
| "str_less (a # s) (b # t) = (byte a < byte b \<or> a = b \<and> str_less s t)"

fun minsert :: "string \<Rightarrow> 'v \<Rightarrow> (string \<times> 'v) list \<Rightarrow> (string \<times> 'v) list" where
  "minsert k v [] = [(k, v)]"
| "minsert k v ((k', v') # m) =
     (if k = k' then (k, v) # m else if str_less k k' then (k, v) # (k', v') # m else (k', v') # minsert k v m)"

fun dec_any :: "(string \<Rightarrow> string option) \<Rightarrow> json \<Rightarrow> json \<times> bool" where
  "dec_any num (JNum n) = (case num n of Some t \<Rightarrow> (JNum t, True) | None \<Rightarrow> (JNull, False))"
| "dec_any num (JArr js) =
     (let ds = map (dec_any num) js in (JArr (map fst ds), list_all snd ds))"
| "dec_any num (JObj kvs) =
     (let ds = map (\<lambda>(k, j). (k, dec_any num j)) kvs
      in (JObj (foldl (\<lambda>m (k, d). minsert k (fst d) m) [] ds), list_all (\<lambda>(k, d). snd d) ds))"
| "dec_any num j = (j, True)"

definition dec_map :: "(string \<Rightarrow> string option) \<Rightarrow> (string \<times> json) list decoder" where
  "dec_map num j a =
     (case j of
        JObj kvs \<Rightarrow> (foldl (\<lambda>m (k, v). minsert k (fst (dec_any num v)) m) a kvs,
                     list_all (\<lambda>(k, v). snd (dec_any num v)) kvs)
      | JNull \<Rightarrow> ([], True)
      | _ \<Rightarrow> (a, False))"

text \<open>\<open>json.Unmarshal\<close> of absent or malformed text: the variable keeps its value, with an error.\<close>

definition unmarshal :: "'a decoder \<Rightarrow> 'a \<Rightarrow> json option \<Rightarrow> 'a \<times> bool" where
  "unmarshal dec zero v = (case v of None \<Rightarrow> (zero, False) | Some j \<Rightarrow> dec j zero)"

definition str_of :: "string \<Rightarrow> json option \<Rightarrow> string" where
  "str_of name v = fst (unmarshal (\<lambda>j a. dec_field name dec_str a j) [] v)"

definition str_ok :: "string \<Rightarrow> json option \<Rightarrow> bool" where
  "str_ok name v = snd (unmarshal (\<lambda>j a. dec_field name dec_str a j) [] v)"

definition raw_of :: "string \<Rightarrow> json option \<Rightarrow> json option" where
  "raw_of name v = fst (unmarshal (\<lambda>j a. dec_field name dec_raw a j) None v)"

section \<open>Codex\<close>

record codexUsageNums =
  cx_InputTokens :: go_int
  cx_CachedInputTokens :: go_int
  cx_OutputTokens :: go_int
  cx_ReasoningOutputTokens :: go_int
  cx_TotalTokens :: go_int

definition zero_codexUsage :: codexUsageNums where
  "zero_codexUsage = \<lparr>cx_InputTokens = 0, cx_CachedInputTokens = 0, cx_OutputTokens = 0,
     cx_ReasoningOutputTokens = 0, cx_TotalTokens = 0\<rparr>"

definition dec_codexUsage :: "codexUsageNums decoder" where
  "dec_codexUsage j u =
     (let f1 = dec_field ''input_tokens'' dec_int (cx_InputTokens u) j;
          f2 = dec_field ''cached_input_tokens'' dec_int (cx_CachedInputTokens u) j;
          f3 = dec_field ''output_tokens'' dec_int (cx_OutputTokens u) j;
          f4 = dec_field ''reasoning_output_tokens'' dec_int (cx_ReasoningOutputTokens u) j;
          f5 = dec_field ''total_tokens'' dec_int (cx_TotalTokens u) j
      in (\<lparr>cx_InputTokens = fst f1, cx_CachedInputTokens = fst f2, cx_OutputTokens = fst f3,
           cx_ReasoningOutputTokens = fst f4, cx_TotalTokens = fst f5\<rparr>,
          snd f1 \<and> snd f2 \<and> snd f3 \<and> snd f4 \<and> snd f5))"

definition toTokenUsage :: "codexUsageNums \<Rightarrow> string \<Rightarrow> string \<Rightarrow> string \<Rightarrow> TokenUsage" where
  "toTokenUsage u source confidence callID =
     zero_usage\<lparr>InputTokens := cx_InputTokens u, OutputTokens := cx_OutputTokens u,
       CachedInputTokens := cx_CachedInputTokens u, ReasoningOutputTokens := cx_ReasoningOutputTokens u,
       TotalTokens := cx_TotalTokens u, u_Source := source, Confidence := confidence, CallID := callID\<rparr>"

definition text_event :: "string \<Rightarrow> StreamEvent" where
  "text_event s = (stream_event EventText)\<lparr>se_Content := s\<rparr>"

definition error_event :: "string \<Rightarrow> StreamEvent" where
  "error_event s = (stream_event EventError)\<lparr>se_Content := s\<rparr>"

definition tool_use_event :: "string \<Rightarrow> (string \<times> json) list \<Rightarrow> StreamEvent" where
  "tool_use_event name input = (stream_event EventToolUse)\<lparr>se_ToolName := name, se_ToolInput := input\<rparr>"

text \<open>The two token counts of a \<open>token_count\<close> message, decoded through the pointer \<open>Info\<close>.\<close>

definition dec_token_info :: "(codexUsageNums option \<times> codexUsageNums option) decoder" where
  "dec_token_info j a =
     (let f1 = dec_field ''last_token_usage'' (dec_ptr dec_codexUsage zero_codexUsage) (fst a) j;
          f2 = dec_field ''total_token_usage'' (dec_ptr dec_codexUsage zero_codexUsage) (snd a) j
      in ((fst f1, fst f2), snd f1 \<and> snd f2))"

definition parseCodexTokenCount :: "json option \<Rightarrow> StreamEvent option" where
  "parseCodexTokenCount payload =
     (let (info, ok) = unmarshal (\<lambda>j a. dec_field ''info'' (dec_ptr dec_token_info (None, None)) a j) None payload
      in if \<not> ok \<or> \<not> str_ok ''type'' payload then None
         else case info of
           None \<Rightarrow> None
         | Some (lastU, totalU) \<Rightarrow>
             (case (case lastU of None \<Rightarrow> totalU | Some u \<Rightarrow> Some u) of
                None \<Rightarrow> None
              | Some nums \<Rightarrow> Some ((stream_event EventSystem)
                  \<lparr>se_Usage := Some (toTokenUsage nums UsageSourceCodexTokenCount UsageConfidenceHigh [])\<rparr>)))"

text \<open>The \<open>content\<close> array of a message: pairs of type and text.\<close>

definition dec_text_block :: "(string \<times> string) decoder" where
  "dec_text_block j a =
     (let f1 = dec_field ''type'' dec_str (fst a) j; f2 = dec_field ''text'' dec_str (snd a) j
      in ((fst f1, fst f2), snd f1 \<and> snd f2))"

definition content_texts :: "json option \<Rightarrow> string list" where
  "content_texts v =
     map snd (filter (\<lambda>(t, s). t = ''output_text'' \<or> t = ''text'')
       (case fst (unmarshal (\<lambda>j a. dec_field ''content'' (dec_slice dec_text_block ([], [])) a j) None v) of
          None \<Rightarrow> [] | Some cs \<Rightarrow> cs))"

definition texts_event :: "string list \<Rightarrow> StreamEvent option" where
  "texts_event ts = (if ts = [] then None else Some (text_event (concat ts)))"

definition parsePayloadEvent :: "string \<Rightarrow> json option \<Rightarrow> StreamEvent option" where
  "parsePayloadEvent payloadType payload =
     (if payloadType = ''function_call'' then
        Some (tool_use_event (str_of ''name'' payload) [(''arguments'', JStr (str_of ''arguments'' payload))])
      else if payloadType = ''function_call_output'' then
        Some ((stream_event EventToolResult)\<lparr>se_Content := str_of ''output'' payload\<rparr>)
      else if payloadType = ''message'' then
        (if str_of ''role'' payload = ''assistant'' then texts_event (content_texts payload) else None)
      else None)"

record item_header =
  it_Type :: string
  it_Command :: string
  it_AggregatedOutput :: string
  it_Text :: string
  it_Changes :: "(string \<times> string) list"

definition dec_file_change :: "(string \<times> string) decoder" where
  "dec_file_change j a =
     (let f1 = dec_field ''path'' dec_str (fst a) j; f2 = dec_field ''kind'' dec_str (snd a) j
      in ((fst f1, fst f2), snd f1 \<and> snd f2))"

definition dec_item_header :: "json \<Rightarrow> item_header \<times> bool" where
  "dec_item_header j =
     (let f1 = dec_field ''type'' dec_str [] j; f2 = dec_field ''command'' dec_str [] j;
          f3 = dec_field ''aggregated_output'' dec_str [] j;
          f4 = dec_field ''exit_code'' (dec_ptr dec_int 0) None j;
          f5 = dec_field ''text'' dec_str [] j;
          f6 = dec_field ''changes'' (dec_slice dec_file_change ([], [])) None j
      in (\<lparr>it_Type = fst f1, it_Command = fst f2, it_AggregatedOutput = fst f3, it_Text = fst f5,
           it_Changes = (case fst f6 of None \<Rightarrow> [] | Some cs \<Rightarrow> cs)\<rparr>,
          snd f1 \<and> snd f2 \<and> snd f3 \<and> snd f4 \<and> snd f5 \<and> snd f6))"

definition change_members :: "string \<times> string \<Rightarrow> (string \<times> json) list" where
  "change_members c = [(''kind'', JStr (snd c)), (''path'', JStr (fst c))]"

definition parseItemEvent :: "json option \<Rightarrow> bool \<Rightarrow> StreamEvent option" where
  "parseItemEvent item completed =
     (case item of
        None \<Rightarrow> None
      | Some j \<Rightarrow>
          (let (header, ok) = dec_item_header j
           in if \<not> ok then None
              else if it_Type header = ''command_execution'' then
                (if completed then
                   Some ((stream_event EventToolResult)
                     \<lparr>se_ToolName := ''command_execution'', se_Content := it_AggregatedOutput header,
                      se_ToolInput :=
                        (if it_Command header \<noteq> []
                         then [(''command'', JStr (it_Command header)), (''execution_status'', JStr ''completed'')]
                         else [])\<rparr>)
                 else Some (tool_use_event ''command_execution''
                        [(''command'', JStr (it_Command header)), (''execution_status'', JStr ''started'')]))
              else if it_Type header = ''agent_message'' then
                (if completed then Some (text_event (it_Text header)) else None)
              else if it_Type header = ''file_change'' then
                (if \<not> completed \<or> it_Changes header = [] then None
                 else case it_Changes header of
                     [c] \<Rightarrow> Some (tool_use_event ''file_change'' (change_members c))
                   | cs \<Rightarrow> Some (tool_use_event ''file_change''
                             [(''changes'', JArr (map (JObj \<circ> change_members) cs))]))
              else None))"

text \<open>The nested message of a \<open>turn.failed\<close> event.\<close>

definition failure_message :: "json option \<Rightarrow> string" where
  "failure_message v =
     fst (unmarshal (\<lambda>j a. dec_field ''error'' (\<lambda>e m. dec_field ''message'' dec_str m e) a j) [] v)"

definition codex_error :: "string \<Rightarrow> StreamEvent option" where
  "codex_error msg = (if IsRetryableUpstream msg then None else Some (error_event msg))"

definition ParseExecEvent :: "json option \<Rightarrow> StreamEvent option" where
  "ParseExecEvent line =
     (if \<not> (str_ok ''type'' line \<and> str_ok ''message'' line \<and> str_ok ''thread_id'' line) then None
      else let ty = str_of ''type'' line in
        if ty = ''item.started'' then parseItemEvent (raw_of ''item'' line) False
        else if ty = ''item.completed'' then parseItemEvent (raw_of ''item'' line) True
        else if ty = ''response_item'' then
          (let payload = raw_of ''payload'' line
           in if str_ok ''type'' payload then parsePayloadEvent (str_of ''type'' payload) payload else None)
        else if ty = ''event_msg'' then
          (let payload = raw_of ''payload'' line
           in if \<not> (str_ok ''type'' payload \<and> str_ok ''message'' payload) then None
              else if str_of ''type'' payload = ''agent_message'' then Some (text_event (str_of ''message'' payload))
              else if str_of ''type'' payload = ''task_complete'' then Some (stream_event EventResult)
              else if str_of ''type'' payload = ''token_count'' then parseCodexTokenCount payload
              else None)
        else if ty = ''message'' then texts_event (content_texts line)
        else if ty = ''response.output_text.delta'' then
          (if str_of ''delta'' line \<noteq> [] then Some (text_event (str_of ''delta'' line)) else None)
        else if ty = ''response.output_text.done'' then
          (if str_of ''text'' line \<noteq> [] then Some (text_event (str_of ''text'' line)) else None)
        else if ty = ''function_call'' then
          Some (tool_use_event (str_of ''name'' line) [(''arguments'', JStr (str_of ''arguments'' line))])
        else if ty = ''function_call_output'' then
          Some ((stream_event EventToolResult)\<lparr>se_Content := str_of ''output'' line\<rparr>)
        else if ty = ''error'' then codex_error (str_of ''message'' line)
        else if ty = ''turn.failed'' then
          codex_error (if failure_message line = [] then ''codex turn failed'' else failure_message line)
        else if ty = ''turn.completed'' then
          (let (usage, ok) = unmarshal (\<lambda>j a. dec_field ''usage'' (dec_ptr dec_codexUsage zero_codexUsage) a j) None line
           in Some ((stream_event EventResult)
                \<lparr>se_Usage := (if ok then map_option
                   (\<lambda>u. toTokenUsage u UsageSourceCodexTurnCompleted UsageConfidenceHigh []) usage else None)\<rparr>))
        else if ty = ''thread.started'' \<and> str_of ''thread_id'' line \<noteq> [] then
          Some ((stream_event EventSystem)\<lparr>se_SessionID := str_of ''thread_id'' line\<rparr>)
        else None)"

definition DetectUserInputFromExecEvent :: "json option \<Rightarrow> StreamEvent option" where
  "DetectUserInputFromExecEvent line =
     (let (choices, ok) = unmarshal (\<lambda>j a. dec_field ''choices'' (dec_slice dec_str []) a j) None line
      in if \<not> (ok \<and> str_ok ''type'' line \<and> str_ok ''content'' line \<and> str_ok ''message'' line \<and> str_ok ''prompt_id'' line)
         then None
         else case choices of
           None \<Rightarrow> None
         | Some cs \<Rightarrow>
             (let content = (if str_of ''content'' line = [] then str_of ''message'' line else str_of ''content'' line);
                  content = (if content = [] then ''Agent is waiting for user input'' else content)
              in Some ((stream_event EventUserInputRequired)
                   \<lparr>se_Content := content, se_PromptID := str_of ''prompt_id'' line, se_Choices := cs\<rparr>)))"

section \<open>Claude Code\<close>

text \<open>What the parser takes from the JSON and float libraries; \<open>jl_iter\<close> is Go's map iteration order.\<close>

record model_usage =
  mu_InputTokens :: go_int
  mu_OutputTokens :: go_int
  mu_CacheReadInputTokens :: go_int
  mu_CacheCreationInputTokens :: go_int

record json_lib =
  jl_parse :: "string \<Rightarrow> json option"
  jl_err :: "json option \<Rightarrow> string"
  jl_float :: "string \<Rightarrow> go_float option"
  jl_num :: "string \<Rightarrow> string option"
  jl_iter :: "(string \<times> model_usage) list \<Rightarrow> (string \<times> model_usage) list"

record claudeUsageNums =
  cl_InputTokens :: go_int
  cl_OutputTokens :: go_int
  cl_CachedInputTokens :: go_int
  cl_CacheCreationInputTokens :: go_int

definition zero_claudeUsage :: claudeUsageNums where
  "zero_claudeUsage = \<lparr>cl_InputTokens = 0, cl_OutputTokens = 0, cl_CachedInputTokens = 0,
     cl_CacheCreationInputTokens = 0\<rparr>"

definition dec_claudeUsage :: "claudeUsageNums decoder" where
  "dec_claudeUsage j u =
     (let f1 = dec_field ''input_tokens'' dec_int (cl_InputTokens u) j;
          f2 = dec_field ''output_tokens'' dec_int (cl_OutputTokens u) j;
          f3 = dec_field ''cache_read_input_tokens'' dec_int (cl_CachedInputTokens u) j;
          f4 = dec_field ''cache_creation_input_tokens'' dec_int (cl_CacheCreationInputTokens u) j
      in (\<lparr>cl_InputTokens = fst f1, cl_OutputTokens = fst f2, cl_CachedInputTokens = fst f3,
           cl_CacheCreationInputTokens = fst f4\<rparr>,
          snd f1 \<and> snd f2 \<and> snd f3 \<and> snd f4))"

record contentBlock =
  cb_Type :: string
  cb_ID :: string
  cb_Text :: string
  cb_Name :: string
  cb_Input :: "(string \<times> json) list"
  cb_ToolUseID :: string
  cb_Content :: string

definition zero_block :: contentBlock where
  "zero_block = \<lparr>cb_Type = [], cb_ID = [], cb_Text = [], cb_Name = [], cb_Input = [], cb_ToolUseID = [],
     cb_Content = []\<rparr>"

definition dec_block :: "(string \<Rightarrow> string option) \<Rightarrow> contentBlock decoder" where
  "dec_block num j b =
     (let f1 = dec_field ''type'' dec_str (cb_Type b) j; f2 = dec_field ''id'' dec_str (cb_ID b) j;
          f3 = dec_field ''text'' dec_str (cb_Text b) j; f4 = dec_field ''name'' dec_str (cb_Name b) j;
          f5 = dec_field ''input'' (dec_map num) (cb_Input b) j;
          f6 = dec_field ''tool_use_id'' dec_str (cb_ToolUseID b) j;
          f7 = dec_field ''content'' dec_str (cb_Content b) j
      in (\<lparr>cb_Type = fst f1, cb_ID = fst f2, cb_Text = fst f3, cb_Name = fst f4, cb_Input = fst f5,
           cb_ToolUseID = fst f6, cb_Content = fst f7\<rparr>,
          snd f1 \<and> snd f2 \<and> snd f3 \<and> snd f4 \<and> snd f5 \<and> snd f6 \<and> snd f7))"

record messagePayload =
  mp_ID :: string
  mp_Content :: "contentBlock list"
  mp_Usage :: "claudeUsageNums option"

text \<open>\<open>None\<close>: decoding the message fails.\<close>

definition dec_message :: "(string \<Rightarrow> string option) \<Rightarrow> json option \<Rightarrow> messagePayload option" where
  "dec_message num v =
     (case v of
        None \<Rightarrow> None
      | Some j \<Rightarrow>
          (let f1 = dec_field ''id'' dec_str [] j;
               f2 = dec_field ''content'' (dec_slice (dec_block num) zero_block) None j;
               f3 = dec_field ''usage'' (dec_ptr dec_claudeUsage zero_claudeUsage) None j
           in if snd f1 \<and> snd f2 \<and> snd f3
              then Some \<lparr>mp_ID = fst f1, mp_Content = (case fst f2 of None \<Rightarrow> [] | Some cs \<Rightarrow> cs), mp_Usage = fst f3\<rparr>
              else None))"

definition claudeCallUsage :: "messagePayload \<Rightarrow> TokenUsage option" where
  "claudeCallUsage msg =
     (case mp_Usage msg of
        None \<Rightarrow> None
      | Some n \<Rightarrow>
          if cl_InputTokens n = 0 \<and> cl_OutputTokens n = 0 \<and> cl_CachedInputTokens n = 0 \<and>
             cl_CacheCreationInputTokens n = 0 then None
          else Some (zero_usage\<lparr>InputTokens := cl_InputTokens n, OutputTokens := cl_OutputTokens n,
                 CachedInputTokens := cl_CachedInputTokens n,
                 CacheCreationInputTokens := cl_CacheCreationInputTokens n,
                 u_Source := UsageSourceClaudeAssistant, Confidence := UsageConfidenceHigh, CallID := mp_ID msg\<rparr>))"

definition dec_model_usage :: "(string \<Rightarrow> go_float option) \<Rightarrow> json \<Rightarrow> model_usage \<times> bool" where
  "dec_model_usage pf j =
     (let f1 = dec_field ''inputtokens'' dec_int 0 j; f2 = dec_field ''outputtokens'' dec_int 0 j;
          f3 = dec_field ''cachereadinputtokens'' dec_int 0 j;
          f4 = dec_field ''cachecreationinputtokens'' dec_int 0 j;
          f5 = dec_field ''costusd'' (dec_float pf) 0 j
      in (\<lparr>mu_InputTokens = fst f1, mu_OutputTokens = fst f2, mu_CacheReadInputTokens = fst f3,
           mu_CacheCreationInputTokens = fst f4\<rparr>,
          snd f1 \<and> snd f2 \<and> snd f3 \<and> snd f4 \<and> snd f5))"

text \<open>The per-model map; \<open>None\<close>: decoding fails.\<close>

definition dec_models :: "(string \<Rightarrow> go_float option) \<Rightarrow> json \<Rightarrow> (string \<times> model_usage) list option" where
  "dec_models pf j =
     (case j of
        JNull \<Rightarrow> Some []
      | JObj kvs \<Rightarrow>
          if list_all (\<lambda>(k, v). snd (dec_model_usage pf v)) kvs
          then Some (foldl (\<lambda>m (k, v). minsert k (fst (dec_model_usage pf v)) m) [] kvs)
          else None
      | _ \<Rightarrow> None)"

definition word_max :: "go_int \<Rightarrow> go_int \<Rightarrow> go_int" where
  "word_max old new = (if old <s new then new else old)"

definition add_models :: "(string \<times> model_usage) list \<Rightarrow> TokenUsage \<Rightarrow> TokenUsage" where
  "add_models models u =
     (let u = u\<lparr>InputTokens := word_max (InputTokens u) (sum_list (map (mu_InputTokens \<circ> snd) models)),
            OutputTokens := word_max (OutputTokens u) (sum_list (map (mu_OutputTokens \<circ> snd) models)),
            CachedInputTokens :=
              word_max (CachedInputTokens u) (sum_list (map (mu_CacheReadInputTokens \<circ> snd) models)),
            CacheCreationInputTokens :=
              word_max (CacheCreationInputTokens u) (sum_list (map (mu_CacheCreationInputTokens \<circ> snd) models)),
            u_Model := foldl (\<lambda>m (name, _). if m = [] then name else m) (u_Model u) models\<rparr>
      in if u_Model u \<noteq> [] then u\<lparr>ModelSource := ModelSourceAgent\<rparr> else u)"

definition parseClaudeResultUsage :: "json_lib \<Rightarrow> json option \<Rightarrow> TokenUsage option" where
  "parseClaudeResultUsage lib line =
     (let cost = fst (unmarshal (\<lambda>j a. dec_field ''total_cost_usd'' (dec_ptr (dec_float (jl_float lib)) 0) a j) None line);
          u = zero_usage\<lparr>u_Source := UsageSourceClaudeResult, Confidence := UsageConfidenceHigh, TotalCostUSD := cost\<rparr>;
          u = (case raw_of ''usage'' line of
                 None \<Rightarrow> u
               | Some j \<Rightarrow>
                   (let (n, ok) = dec_claudeUsage j zero_claudeUsage
                    in if ok then u\<lparr>InputTokens := cl_InputTokens n, OutputTokens := cl_OutputTokens n,
                              CachedInputTokens := cl_CachedInputTokens n,
                              CacheCreationInputTokens := cl_CacheCreationInputTokens n\<rparr>
                       else u));
          u = (case raw_of ''modelusage'' line of
                 None \<Rightarrow> u
               | Some j \<Rightarrow> (case dec_models (jl_float lib) j of
                               None \<Rightarrow> u | Some models \<Rightarrow> add_models (jl_iter lib models) u))
      in if InputTokens u = 0 \<and> OutputTokens u = 0 \<and> CachedInputTokens u = 0 \<and> CacheCreationInputTokens u = 0 \<and>
            TotalCostUSD u = None then None else Some u)"

definition parse_error_event :: "string \<Rightarrow> StreamEvent" where
  "parse_error_event e = (stream_event EventError)\<lparr>se_Error := Some e\<rparr>"

text \<open>The events of an assistant message, in the order of the code: tool uses, else the first text.\<close>

definition claude_tool_use :: "contentBlock \<Rightarrow> StreamEvent" where
  "claude_tool_use b = (tool_use_event (cb_Name b) (cb_Input b))\<lparr>se_ToolCallID := cb_ID b\<rparr>"

definition assistant_events :: "messagePayload \<Rightarrow> StreamEvent list" where
  "assistant_events msg =
     (let uses = map claude_tool_use (filter (\<lambda>b. cb_Type b = ''tool_use'') (mp_Content msg));
          out = (if uses \<noteq> [] then uses
                 else case find (\<lambda>b. cb_Type b = ''text'' \<and> cb_Text b \<noteq> []) (mp_Content msg) of
                        None \<Rightarrow> [] | Some b \<Rightarrow> [text_event (cb_Text b)])
      in case claudeCallUsage msg of
           None \<Rightarrow> out
         | Some u \<Rightarrow> map (se_Usage_update (\<lambda>_. Some u)) (if out = [] then [stream_event EventSystem] else out))"

definition user_events :: "messagePayload \<Rightarrow> StreamEvent list" where
  "user_events msg =
     (case find (\<lambda>b. cb_Type b = ''tool_result'') (mp_Content msg) of
        None \<Rightarrow> []
      | Some b \<Rightarrow> [(stream_event EventToolResult)\<lparr>se_Content := cb_Content b, se_ToolCallID := cb_ToolUseID b\<rparr>])"

text \<open>Decoding of the envelope \<open>rawEvent\<close> succeeds.\<close>

definition raw_ok :: "json_lib \<Rightarrow> json option \<Rightarrow> bool" where
  "raw_ok lib v \<longleftrightarrow> str_ok ''type'' v \<and> str_ok ''subtype'' v \<and> str_ok ''session_id'' v \<and> str_ok ''result'' v \<and>
     snd (unmarshal (\<lambda>j a. dec_field ''total_cost_usd'' (dec_ptr (dec_float (jl_float lib)) 0) a j) None v)"

definition stream_text :: "json option \<Rightarrow> (string option \<times> bool)" where
  "stream_text event =
     (let delta = (\<lambda>name. unmarshal (\<lambda>j a. dec_field ''delta'' (\<lambda>d s. dec_field name dec_str s d) a j) [] event)
      in (if str_of ''type'' event = ''content_block_delta'' \<and> fst (delta ''type'') = ''text_delta''
          then Some (fst (delta ''text'')) else None,
          str_ok ''type'' event \<and> snd (delta ''type'') \<and> snd (delta ''text'')))"

definition ParseJSONLinesEvents :: "json_lib \<Rightarrow> string \<Rightarrow> StreamEvent list" where
  "ParseJSONLinesEvents lib line =
     (if line = [] then []
      else let v = jl_parse lib line; ty = str_of ''type'' v in
        if \<not> raw_ok lib v then [parse_error_event (jl_err lib v)]
        else if ty = ''system'' then
          (if str_of ''subtype'' v = ''init'' then [(stream_event EventSystem)\<lparr>se_SessionID := str_of ''session_id'' v\<rparr>]
           else [])
        else if ty = ''stream_event'' then
          (case stream_text (raw_of ''event'' v) of
             (_, False) \<Rightarrow> [parse_error_event (jl_err lib (raw_of ''event'' v))]
           | (None, True) \<Rightarrow> []
           | (Some t, True) \<Rightarrow> [text_event t])
        else if ty = ''assistant'' then
          (case dec_message (jl_num lib) (raw_of ''message'' v) of None \<Rightarrow> [] | Some msg \<Rightarrow> assistant_events msg)
        else if ty = ''user'' then
          (case dec_message (jl_num lib) (raw_of ''message'' v) of None \<Rightarrow> [] | Some msg \<Rightarrow> user_events msg)
        else if ty = ''result'' then
          [(stream_event EventResult)\<lparr>se_Usage := parseClaudeResultUsage lib v\<rparr>]
        else [])"

definition ParseJSONLinesEvent :: "json_lib \<Rightarrow> string \<Rightarrow> StreamEvent option" where
  "ParseJSONLinesEvent lib line = (case ParseJSONLinesEvents lib line of [] \<Rightarrow> None | ev # _ \<Rightarrow> Some ev)"

section \<open>What the parsers promise\<close>

lemma event_types [simp]:
  "se_Type (stream_event t) = t" "se_Type (text_event x) = EventText" "se_Type (error_event x) = EventError"
  "se_Type (tool_use_event n i) = EventToolUse"
  by (simp_all add: stream_event_def text_event_def error_event_def tool_use_event_def)

lemma text_blocks_type: "texts_event ts = Some ev \<Longrightarrow> se_Type ev = EventText"
  by (auto simp: texts_event_def split: if_splits)

lemma codex_error_content:
  "codex_error m = Some ev \<Longrightarrow> se_Type ev = EventError \<and> se_Content ev = m \<and> \<not> IsRetryableUpstream m"
  by (auto simp: codex_error_def error_event_def split: if_splits)

lemma parseItemEvent_type: "parseItemEvent item c = Some ev \<Longrightarrow> se_Type ev \<in> {EventToolResult, EventToolUse, EventText}"
  by (auto simp: parseItemEvent_def Let_def split: option.splits prod.splits if_splits list.splits)

lemma parsePayloadEvent_type:
  "parsePayloadEvent t v = Some ev \<Longrightarrow> se_Type ev \<in> {EventToolResult, EventToolUse, EventText}"
  using text_blocks_type by (fastforce simp: parsePayloadEvent_def split: if_splits)

lemma parseCodexTokenCount_type: "parseCodexTokenCount v = Some ev \<Longrightarrow> se_Type ev = EventSystem"
  by (auto simp: parseCodexTokenCount_def Let_def split: option.splits prod.splits if_splits)

text \<open>
  C35. The events of the Codex parser are well formed: a line means a text, a tool use, a tool result,
  a result, an error or a system event and nothing else, and an error event never carries a
  retryable upstream message (those are left to the retry of the process).
\<close>

theorem ParseExecEvent_typed:
  assumes "ParseExecEvent line = Some ev"
  shows "se_Type ev \<in> {EventText, EventToolUse, EventToolResult, EventResult, EventError, EventSystem} \<and>
    (se_Type ev = EventError \<longrightarrow> \<not> IsRetryableUpstream (se_Content ev))"
  using assms parseItemEvent_type [of _ _ ev] parsePayloadEvent_type [of _ _ ev] parseCodexTokenCount_type [of _ ev]
    text_blocks_type [of _ ev] codex_error_content [of _ ev]
  by (simp add: ParseExecEvent_def Let_def split: if_splits prod.splits)
    (fastforce)+

theorem ParseExecEvent_typed_witness:
  "se_Type (error_event ''boom'') \<in> {EventText, EventToolUse, EventToolResult, EventResult, EventError, EventSystem} \<and>
   \<not> IsRetryableUpstream (se_Content (error_event ''boom''))"
proof -
  have "ParseExecEvent (Some (JObj [(''type'', JStr ''error''), (''message'', JStr ''boom'')])) = Some (error_event ''boom'')"
    by (simp add: ParseExecEvent_def codex_error_def str_ok_def str_of_def unmarshal_def dec_field_def dec_str_def
        IsRetryableUpstream_def IsRetryableError_def retryable_text_def Contains_def Let_def lower_char_def byte_def)
  from ParseExecEvent_typed [OF this] show ?thesis by (simp add: error_event_def)
qed

text \<open>The events of an assistant message all carry the usage of its call.\<close>

lemma assistant_usage:
  assumes "claudeCallUsage msg = Some u"
  shows "assistant_events msg \<noteq> [] \<and> (\<forall>ev \<in> set (assistant_events msg). se_Usage ev = Some u)"
  using assms by (auto simp: assistant_events_def Let_def)

lemma claudeCallUsage_id: "claudeCallUsage msg = Some u \<Longrightarrow> CallID u = mp_ID msg"
  by (auto simp: claudeCallUsage_def split: option.splits if_splits)

lemma Observe_repeated:
  assumes "\<forall>ev \<in> set evs. se_Usage ev = Some u" "CallID u \<noteq> []" "CallID u \<in> ag_seenCall a"
  shows "foldl Observe a evs = a"
  using assms(1) by (induction evs) (simp_all add: Observe_def assms(2,3))

text \<open>
  A call is billed once: an assistant message of Claude Code repeats its usage on every event it
  is split into, one per tool use, and the turn's aggregator still records the call exactly once,
  and not at all when it has seen it before; the usage of the turn itself is not touched.
\<close>

theorem assistant_usage_once:
  assumes "claudeCallUsage msg = Some u" "mp_ID msg \<noteq> []"
  shows "ag_calls (foldl Observe a (assistant_events msg))
      = ag_calls a @ (if mp_ID msg \<in> ag_seenCall a then [] else [u]) \<and>
    ag_turn (foldl Observe a (assistant_events msg)) = ag_turn a"
proof -
  obtain ev evs where evs: "assistant_events msg = ev # evs" "se_Usage ev = Some u" "\<forall>e \<in> set evs. se_Usage e = Some u"
    using assistant_usage [OF assms(1)] by (cases "assistant_events msg") auto
  have id: "CallID u = mp_ID msg" by (rule claudeCallUsage_id [OF assms(1)])
  then have "foldl Observe (Observe a ev) evs = Observe a ev"
    using evs assms(2) by (intro Observe_repeated) (auto simp: Observe_def)
  with evs id assms(2) show ?thesis by (simp add: Observe_def)
qed

definition sample_message :: messagePayload where
  "sample_message = \<lparr>mp_ID = ''msg1'', mp_Content =
       [zero_block\<lparr>cb_Type := ''tool_use'', cb_ID := ''a'', cb_Name := ''Read''\<rparr>,
        zero_block\<lparr>cb_Type := ''tool_use'', cb_ID := ''b'', cb_Name := ''Read''\<rparr>],
     mp_Usage = Some (zero_claudeUsage\<lparr>cl_InputTokens := 5\<rparr>)\<rparr>"

theorem assistant_usage_once_witness:
  "length (ag_calls (foldl Observe (newTurnUsageAggregator ''t'') (assistant_events sample_message))) = 1 \<and>
   length (assistant_events sample_message) = 2"
proof -
  have u: "claudeCallUsage sample_message = Some (zero_usage\<lparr>InputTokens := 5, OutputTokens := 0, CachedInputTokens := 0,
      CacheCreationInputTokens := 0, u_Source := UsageSourceClaudeAssistant, Confidence := UsageConfidenceHigh,
      CallID := ''msg1''\<rparr>)"
    by (simp add: claudeCallUsage_def sample_message_def zero_claudeUsage_def)
  then have "length (assistant_events sample_message) = 2"
    by (simp add: assistant_events_def Let_def) (simp add: sample_message_def zero_block_def)
  with assistant_usage_once [OF u, of "newTurnUsageAggregator ''t''"] show ?thesis
    by (simp add: sample_message_def newTurnUsageAggregator_def)
qed

text \<open>
  Tool uses are forwarded one by one, tool results are not: an assistant message with several
  tool uses becomes one event each, with its own id, but of the results in one user message only
  the first is handed on; the clients never learn the outcome of the other calls.
\<close>

theorem user_events_first_only:
  "length (user_events msg) \<le> 1 \<and>
   map se_ToolCallID (user_events \<lparr>mp_ID = [], mp_Content =
       [zero_block\<lparr>cb_Type := ''tool_result'', cb_ToolUseID := ''a'', cb_Content := ''x''\<rparr>,
        zero_block\<lparr>cb_Type := ''tool_result'', cb_ToolUseID := ''b'', cb_Content := ''y''\<rparr>], mp_Usage = None\<rparr>) = [''a''] \<and>
   map se_ToolCallID (assistant_events sample_message) = [''a'', ''b'']"
  by (simp add: user_events_def sample_message_def zero_block_def stream_event_def assistant_events_def
      claudeCallUsage_def zero_claudeUsage_def claude_tool_use_def tool_use_event_def Let_def split: option.split)

lemma add_models_perm:
  assumes "mset ms = mset ms'"
  shows "(add_models ms u)\<lparr>u_Model := []\<rparr> = (add_models ms' u)\<lparr>u_Model := []\<rparr>"
proof -
  have sums: "sum_list (map (f :: string \<times> model_usage \<Rightarrow> go_int) ms) = sum_list (map f ms')" for f
    by (metis assms mset_map sum_mset_sum_list)
  have "foldl (\<lambda>m (name, _). if m = [] then name else m) n xs = [] \<longleftrightarrow> n = [] \<and> (\<forall>x \<in> set xs. fst x = [])"
    for n and xs :: "(string \<times> model_usage) list"
    by (induction xs arbitrary: n) (auto split: if_splits)
  moreover have "set ms = set ms'" using assms by (metis set_mset_mset)
  ultimately show ?thesis by (simp add: add_models_def sums Let_def)
qed

lemma parseClaude_iter:
  assumes "\<forall>ms. mset (iter ms) = mset ms"
  shows "map_option (u_Model_update (\<lambda>_. [])) (parseClaudeResultUsage (lib\<lparr>jl_iter := iter\<rparr>) line)
    = map_option (u_Model_update (\<lambda>_. [])) (parseClaudeResultUsage (lib\<lparr>jl_iter := \<lambda>ms. ms\<rparr>) line)"
proof -
  have same: "InputTokens (add_models (iter ms) u) = InputTokens (add_models ms u)"
    "OutputTokens (add_models (iter ms) u) = OutputTokens (add_models ms u)"
    "CachedInputTokens (add_models (iter ms) u) = CachedInputTokens (add_models ms u)"
    "CacheCreationInputTokens (add_models (iter ms) u) = CacheCreationInputTokens (add_models ms u)"
    "TotalCostUSD (add_models (iter ms) u) = TotalCostUSD (add_models ms u)"
    "(add_models (iter ms) u)\<lparr>u_Model := []\<rparr> = (add_models ms u)\<lparr>u_Model := []\<rparr>" for ms u
  proof -
    show eq: "(add_models (iter ms) u)\<lparr>u_Model := []\<rparr> = (add_models ms u)\<lparr>u_Model := []\<rparr>"
      by (rule add_models_perm) (simp add: assms)
    show "InputTokens (add_models (iter ms) u) = InputTokens (add_models ms u)"
      using arg_cong [OF eq, of InputTokens] by simp
    show "OutputTokens (add_models (iter ms) u) = OutputTokens (add_models ms u)"
      using arg_cong [OF eq, of OutputTokens] by simp
    show "CachedInputTokens (add_models (iter ms) u) = CachedInputTokens (add_models ms u)"
      using arg_cong [OF eq, of CachedInputTokens] by simp
    show "CacheCreationInputTokens (add_models (iter ms) u) = CacheCreationInputTokens (add_models ms u)"
      using arg_cong [OF eq, of CacheCreationInputTokens] by simp
    show "TotalCostUSD (add_models (iter ms) u) = TotalCostUSD (add_models ms u)"
      using arg_cong [OF eq, of TotalCostUSD] by simp
  qed
  show ?thesis
    by (simp add: parseClaudeResultUsage_def Let_def case_prod_unfold same split: option.split)
qed

text \<open>
  The token counts that a Claude result reports do not depend on Go's map iteration order: two
  orders of the per-model totals give the same usage up to the name of the model.
\<close>

theorem claude_result_order_independent:
  assumes "\<forall>ms. mset (iter ms) = mset ms" "\<forall>ms. mset (iter' ms) = mset ms"
  shows "map_option (u_Model_update (\<lambda>_. [])) (parseClaudeResultUsage (lib\<lparr>jl_iter := iter\<rparr>) line)
    = map_option (u_Model_update (\<lambda>_. [])) (parseClaudeResultUsage (lib\<lparr>jl_iter := iter'\<rparr>) line)"
  using parseClaude_iter [OF assms(1)] parseClaude_iter [OF assms(2)] by simp

definition sample_lib :: json_lib where
  "sample_lib = \<lparr>jl_parse = (\<lambda>_. None), jl_err = (\<lambda>_. ''bad''), jl_float = (\<lambda>_. Some 0), jl_num = Some,
     jl_iter = (\<lambda>ms. ms)\<rparr>"

definition sample_models :: json where
  "sample_models = JObj [(''type'', JStr ''result''), (''modelUsage'', JObj
     [(''a'', JObj [(''inputTokens'', JNum ''3'')]), (''b'', JObj [(''inputTokens'', JNum ''4'')])])]"

theorem claude_result_order_independent_witness:
  "map_option (u_Model_update (\<lambda>_. [])) (parseClaudeResultUsage (sample_lib\<lparr>jl_iter := rev\<rparr>) (Some sample_models))
   = map_option (u_Model_update (\<lambda>_. [])) (parseClaudeResultUsage (sample_lib\<lparr>jl_iter := \<lambda>ms. ms\<rparr>) (Some sample_models))"
  by (rule claude_result_order_independent) simp_all

end
