(* ===== verification/Agent_Process.thy ===== *)
theory Agent_Process
  imports SSE_Chunk Model_Routing Guardrail Agent_Protocol
begin

text \<open>
  The adapters that run the command line agents: the session options and their defaults
  (\<open>codingagent/options.go\<close>, \<open>adapter_config.go\<close>), the sandbox modes (\<open>sandbox_mode.go\<close>), arguments,
  environment and output loop of Codex (\<open>codex/process.go\<close>, \<open>codex/rejection.go\<close>,
  \<open>codex/input_detect.go\<close>) and of Claude Code (\<open>claudecode/process.go\<close>). The Unix build is modelled:
  the Windows branches (WSL paths, \<open>cmd.exe\<close> variables) are not.

  The output of a process is an explicit sequence of lines of its two pipes in the order in which
  the two reading goroutines handle them. A send on the event channel is a select against the
  cancellation of the context; which one happens is the parameter \<open>ok\<close>, indexed by the number of
  the send.
\<close>

section \<open>Sandbox modes\<close>

abbreviation SandboxModeReadOnly :: string where "SandboxModeReadOnly \<equiv> ''read-only''"
abbreviation SandboxModeWorkspaceWrite :: string where "SandboxModeWorkspaceWrite \<equiv> ''workspace-write''"
abbreviation SandboxModeDangerFullAccess :: string where "SandboxModeDangerFullAccess \<equiv> ''danger-full-access''"

datatype sandbox_error = UnsupportedSandboxMode string

definition ResolveSandboxMode :: "string \<Rightarrow> bool \<Rightarrow> (sandbox_error, string) result" where
  "ResolveSandboxMode explicit serverDisableSandbox =
     (if explicit \<noteq> [] then
        (if explicit \<in> {SandboxModeReadOnly, SandboxModeWorkspaceWrite, SandboxModeDangerFullAccess}
         then Inr explicit else Inl (UnsupportedSandboxMode explicit))
      else if serverDisableSandbox then Inr SandboxModeDangerFullAccess
      else Inr SandboxModeReadOnly)"

definition SandboxModeDisablesSandbox :: "string \<Rightarrow> bool" where
  "SandboxModeDisablesSandbox mode \<longleftrightarrow> mode = SandboxModeDangerFullAccess"

definition EffectiveSandboxMode :: "string \<Rightarrow> string" where
  "EffectiveSandboxMode mode = (if mode = [] then SandboxModeReadOnly else mode)"

section \<open>Session options\<close>

text \<open>A nil map of environment variables is \<open>None\<close>. The VFS mounts are not used by the code modelled here.\<close>

record agent_options =
  ao_Model :: string
  ao_Prompt :: string
  ao_AllowedTools :: "string list"
  ao_WorkDir :: string
  ao_EnvVars :: "(string \<times> string) list option"
  ao_AgentSessionID :: string
  ao_SessionDir :: string
  ao_ConfigDir :: string
  ao_MaxTurns :: int
  ao_ExecutionMode :: string
  ao_IdleTimeoutSeconds :: int
  ao_MaxExecutionSeconds :: int
  ao_ScannerMaxTokenBytes :: int
  ao_MaxToolResultBytes :: int
  ao_SandboxMode :: string
  ao_TernSessionID :: string
  ao_TurnID :: string

record AdapterConfig =
  ac_GatewayURL :: string
  ac_DefaultWorkDir :: string
  ac_DefaultModel :: string
  ac_DefaultEnvVars :: "(string \<times> string) list option"
  ac_DefaultSessionDir :: string
  ac_DisableSandbox :: bool
  ac_ToolCallFallback :: bool
  ac_GatewayToken :: string
  ac_ExecutionMode :: string
  ac_IdleTimeoutSeconds :: int
  ac_MaxExecutionSeconds :: int
  ac_ScannerMaxTokenBytes :: int
  ac_MaxToolResultBytes :: int

text \<open>\<open>filepath.Abs\<close>; \<open>getwd\<close> is the current directory, \<open>None\<close> when it cannot be read.\<close>

definition filepath_Abs :: "string option \<Rightarrow> string \<Rightarrow> string option" where
  "filepath_Abs getwd p =
     (if IsAbs p then Some (filepath_Clean p) else map_option (\<lambda>wd. filepath_Join wd p) getwd)"

definition abs_or_same :: "string option \<Rightarrow> string \<Rightarrow> string" where
  "abs_or_same getwd p =
     (if p = [] then p else case filepath_Abs getwd p of Some a \<Rightarrow> a | None \<Rightarrow> p)"

definition pos_or :: "int \<Rightarrow> int \<Rightarrow> int" where
  "pos_or n d = (if 0 < n then n else d)"

definition ApplyDefaults :: "string option \<Rightarrow> AdapterConfig \<Rightarrow> agent_options \<Rightarrow> agent_options" where
  "ApplyDefaults getwd ac cfg =
     cfg\<lparr>ao_WorkDir := abs_or_same getwd (if ao_WorkDir cfg = [] then ac_DefaultWorkDir ac else ao_WorkDir cfg),
       ao_Model := (if ao_Model cfg = [] then ac_DefaultModel ac else ao_Model cfg),
       ao_EnvVars := (if ao_EnvVars cfg = None then ac_DefaultEnvVars ac else ao_EnvVars cfg),
       ao_SessionDir :=
         abs_or_same getwd (if ao_SessionDir cfg = [] then ac_DefaultSessionDir ac else ao_SessionDir cfg),
       ao_ConfigDir := abs_or_same getwd (ao_ConfigDir cfg),
       ao_ExecutionMode :=
         (if ao_ExecutionMode cfg = [] then NormalizeExecutionMode (ac_ExecutionMode ac) else ao_ExecutionMode cfg),
       ao_IdleTimeoutSeconds :=
         (if ao_IdleTimeoutSeconds cfg = 0 then pos_or (ac_IdleTimeoutSeconds ac) 300 else ao_IdleTimeoutSeconds cfg),
       ao_MaxExecutionSeconds :=
         (if ao_MaxExecutionSeconds cfg = 0 then pos_or (ac_MaxExecutionSeconds ac) 3600 else ao_MaxExecutionSeconds cfg),
       ao_ScannerMaxTokenBytes :=
         (if ao_ScannerMaxTokenBytes cfg = 0 then pos_or (ac_ScannerMaxTokenBytes ac) 0 else ao_ScannerMaxTokenBytes cfg),
       ao_MaxToolResultBytes :=
         (if ao_MaxToolResultBytes cfg = 0 then pos_or (ac_MaxToolResultBytes ac) 0 else ao_MaxToolResultBytes cfg)\<rparr>"

definition resolveTimeouts :: "agent_options \<Rightarrow> int \<times> int" where
  "resolveTimeouts cfg =
     (if ao_IdleTimeoutSeconds cfg = 0 then 300 else ao_IdleTimeoutSeconds cfg,
      if ao_MaxExecutionSeconds cfg = 0 then 3600 else ao_MaxExecutionSeconds cfg)"

section \<open>Arguments and environment\<close>

text \<open>The key both adapters hand to the gateway: a placeholder and the metadata of the session.\<close>

definition gateway_key :: "string \<Rightarrow> AdapterConfig \<Rightarrow> agent_options \<Rightarrow> string" where
  "gateway_key apiKey ac cfg =
     apiKey
     @ (if ac_GatewayToken ac \<noteq> [] then '';token='' @ ac_GatewayToken ac else [])
     @ '';fallback='' @ (if ac_ToolCallFallback ac then ''true'' else ''false'')
     @ '';sid='' @ (if ao_AgentSessionID cfg = [] then ''default'' else ao_AgentSessionID cfg)
     @ MeteringMetaSuffix (ao_TernSessionID cfg) (ao_TurnID cfg)"

text \<open>
  The environment of a child is a Go map, rendered as \<open>key=value\<close> in its iteration order; the
  variables of the session overwrite.
\<close>

definition with_env :: "(string \<times> string) list option \<Rightarrow> (string \<times> string) list \<Rightarrow> (string \<times> string) list" where
  "with_env vars env = foldl (\<lambda>m (k, v). massign k v m) env (case vars of None \<Rightarrow> [] | Some kvs \<Rightarrow> kvs)"

definition render_env :: "(string \<times> string) list \<Rightarrow> string list" where
  "render_env env = map (\<lambda>(k, v). k @ ''='' @ v) env"

definition claude_BuildArgs :: "agent_options \<Rightarrow> string list" where
  "claude_BuildArgs cfg =
     [''--output-format'', ''stream-json'', ''--verbose'', ''--permission-mode'', ''bypassPermissions'']
     @ (if ao_Prompt cfg \<noteq> [] then [''-p'', ao_Prompt cfg] else [])
     @ (if ao_Model cfg \<noteq> [] then [''--model'', ao_Model cfg] else [])
     @ (if ao_AllowedTools cfg \<noteq> [] then [''--allowedTools'', Join (ao_AllowedTools cfg) '','' ] else [])
     @ (if ao_AgentSessionID cfg \<noteq> [] then [''--resume'', ao_AgentSessionID cfg] else [])
     @ [''--max-turns'', Itoa (if ao_MaxTurns cfg = 0 then 200 else ao_MaxTurns cfg)]"

abbreviation SkipSandboxVar :: string where "SkipSandboxVar \<equiv> ''CLAUDE_CODE_SKIP_SANDBOX''"

definition claude_env :: "AdapterConfig \<Rightarrow> agent_options \<Rightarrow> (string \<times> string) list" where
  "claude_env ac cfg =
     (let env = (if ac_GatewayURL ac \<noteq> []
                 then [(''ANTHROPIC_BASE_URL'', ac_GatewayURL ac),
                       (''ANTHROPIC_API_KEY'', gateway_key ''not-needed'' ac cfg)]
                 else []);
          env = (if ac_DisableSandbox ac then massign SkipSandboxVar ''1'' env else env);
          env = (if ao_SandboxMode cfg \<noteq> []
                 then (if SandboxModeDisablesSandbox (ao_SandboxMode cfg) then massign SkipSandboxVar ''1'' env
                       else mdelete SkipSandboxVar env)
                 else env);
          env = (if ao_SessionDir cfg \<noteq> [] then massign ''CLAUDE_CONFIG_DIR'' (ao_SessionDir cfg) env else env)
      in with_env (ao_EnvVars cfg) env)"

definition claude_BuildEnv :: "AdapterConfig \<Rightarrow> agent_options \<Rightarrow> string list" where
  "claude_BuildEnv ac cfg = render_env (claude_env ac cfg)"

definition codex_BuildArgs :: "string \<Rightarrow> string list \<Rightarrow> bool \<Rightarrow> string \<Rightarrow> string \<Rightarrow> string list" where
  "codex_BuildArgs prompt configOverrides ignoreUserConfig resumeSessionID sandboxMode =
     (let mode = EffectiveSandboxMode sandboxMode;
          common = [''--json'']
            @ (if mode = SandboxModeDangerFullAccess then [''--dangerously-bypass-approvals-and-sandbox'']
               else if mode = SandboxModeWorkspaceWrite then [''-s'', SandboxModeWorkspaceWrite]
               else [''-s'', SandboxModeReadOnly])
            @ (if ignoreUserConfig then [''--ignore-user-config''] else [])
            @ configOverrides
      in (if resumeSessionID \<noteq> [] then [''exec'', ''resume''] @ common @ [resumeSessionID] else ''exec'' # common)
         @ (if prompt \<noteq> [] then [''-''] else []))"

definition codex_env :: "AdapterConfig \<Rightarrow> agent_options \<Rightarrow> (string \<times> string) list" where
  "codex_env ac cfg =
     (let env = (if ac_GatewayToken ac \<noteq> [] then [(''TERN_GATEWAY_TOKEN'', ac_GatewayToken ac)] else []);
          env = massign ''OPENAI_API_KEY'' (gateway_key ''tern-internal-key-placeholder'' ac cfg) env;
          env = (if ao_SessionDir cfg \<noteq> [] then massign ''CODEX_HOME'' (ao_SessionDir cfg) env else env)
      in with_env (ao_EnvVars cfg) env)"

definition codex_BuildEnv :: "AdapterConfig \<Rightarrow> agent_options \<Rightarrow> string list" where
  "codex_BuildEnv ac cfg = render_env (codex_env ac cfg)"

text \<open>The arguments and environment with which \<open>StartProcess\<close> launches codex.\<close>

fun abs_home :: "string option \<Rightarrow> string list \<Rightarrow> string list" where
  "abs_home getwd [] = []"
| "abs_home getwd (e # env) =
     (if HasPrefix e ''CODEX_HOME='' then
        (let home = TrimPrefix e ''CODEX_HOME=''
         in (if IsAbs home then e
             else case filepath_Abs getwd home of None \<Rightarrow> e | Some a \<Rightarrow> ''CODEX_HOME='' @ a) # env)
      else e # abs_home getwd env)"

definition codex_launch ::
  "string option \<Rightarrow> AdapterConfig \<Rightarrow> agent_options \<Rightarrow> string list \<Rightarrow> string \<Rightarrow> string list \<times> string list" where
  "codex_launch getwd ac cfg configOverrides codexHome =
     (let sandboxMode = (if ao_SandboxMode cfg = [] \<and> ac_DisableSandbox ac then SandboxModeDangerFullAccess
                         else ao_SandboxMode cfg);
          env = codex_BuildEnv ac cfg;
          env = (if \<not> list_ex (\<lambda>e. HasPrefix e ''CODEX_HOME='') env \<and> codexHome \<noteq> []
                 then env @ [''CODEX_HOME='' @ codexHome] else env)
      in (codex_BuildArgs (ao_Prompt cfg) configOverrides (ao_ConfigDir cfg = []) (ao_AgentSessionID cfg) sandboxMode,
          abs_home getwd env))"

section \<open>The output of a Codex process\<close>

definition ExtractSandboxRejectionContent :: "string \<Rightarrow> string" where
  "ExtractSandboxRejectionContent stderr =
     (let stderr = TrimSpace stderr
      in if stderr = [] then []
         else case find (\<lambda>line. line \<noteq> [] \<and>
                  (Contains (ToLower line) ''rejected('' \<or>
                   Contains (ToLower line) ''rm -f style commands are not permitted''))
                (map TrimSpace (SplitByte (CHR 0x0A) stderr)) of
                Some line \<Rightarrow> line
              | None \<Rightarrow> stderr)"

definition DetectStdinWaitFromStderr :: "string \<Rightarrow> string option" where
  "DetectStdinWaitFromStderr line =
     (if Contains line ''Reading additional input from stdin'' then Some line else None)"

record commandExecTracker =
  tk_pending :: bool
  tk_toolResultSent :: bool
  tk_synthesizedReject :: bool
  tk_pendingRejection :: string

definition zero_tracker :: commandExecTracker where
  "zero_tracker = \<lparr>tk_pending = False, tk_toolResultSent = False, tk_synthesizedReject = False,
     tk_pendingRejection = []\<rparr>"

definition markToolUse :: "commandExecTracker \<Rightarrow> commandExecTracker" where
  "markToolUse t = (if tk_synthesizedReject t then t else t\<lparr>tk_pending := True, tk_toolResultSent := False\<rparr>)"

definition hasOpenToolUse :: "commandExecTracker \<Rightarrow> bool" where
  "hasOpenToolUse t \<longleftrightarrow> tk_pending t \<and> \<not> tk_toolResultSent t"

definition markToolResult :: "commandExecTracker \<Rightarrow> commandExecTracker" where
  "markToolResult t = t\<lparr>tk_pending := False, tk_toolResultSent := True, tk_pendingRejection := []\<rparr>"

text \<open>
  The state that the goroutines of \<open>StartProcess\<close> share: the tracker, the events sent so far, the
  number of sends attempted, the calls of \<open>Stop\<close> after a rejection, the stderr text, and the local
  variables of the stdout loop (whether it has returned on cancellation).
\<close>

record codex_stream =
  cs_tracker :: commandExecTracker
  cs_events :: "StreamEvent list"
  cs_attempts :: nat
  cs_stops :: nat
  cs_stderr :: string
  cs_stderrReturned :: bool
  cs_resultEmitted :: bool
  cs_lastErr :: string
  cs_returned :: bool

definition codex_start :: codex_stream where
  "codex_start = \<lparr>cs_tracker = zero_tracker, cs_events = [], cs_attempts = 0, cs_stops = 0, cs_stderr = [],
     cs_stderrReturned = False, cs_resultEmitted = False, cs_lastErr = [], cs_returned = False\<rparr>"

definition send :: "(nat \<Rightarrow> bool) \<Rightarrow> StreamEvent \<Rightarrow> codex_stream \<Rightarrow> codex_stream \<times> bool" where
  "send ok ev s =
     (if ok (cs_attempts s)
      then (s\<lparr>cs_events := cs_events s @ [ev], cs_attempts := Suc (cs_attempts s)\<rparr>, True)
      else (s\<lparr>cs_attempts := Suc (cs_attempts s)\<rparr>, False))"

text \<open>
  \<open>emitSandboxToolResult\<close> in its two parts: the check of the tracker under the lock, and the send
  followed by the update of the tracker.
\<close>

definition emit_commit :: "(nat \<Rightarrow> bool) \<Rightarrow> int \<Rightarrow> string \<Rightarrow> codex_stream \<Rightarrow> codex_stream \<times> bool" where
  "emit_commit ok maxBytes content s =
     (case send ok ((stream_event EventToolResult)\<lparr>se_Content := TruncateToolResult content maxBytes\<rparr>) s of
        (s', False) \<Rightarrow> (s', False)
      | (s', True) \<Rightarrow>
          (s'\<lparr>cs_tracker := (cs_tracker s')\<lparr>tk_pending := False, tk_toolResultSent := True, tk_synthesizedReject := True\<rparr>\<rparr>,
           True))"

definition emitSandboxToolResult :: "(nat \<Rightarrow> bool) \<Rightarrow> int \<Rightarrow> string \<Rightarrow> codex_stream \<Rightarrow> codex_stream \<times> bool" where
  "emitSandboxToolResult ok maxBytes content s =
     (if \<not> tk_pending (cs_tracker s) \<or> tk_toolResultSent (cs_tracker s) then (s, False)
      else emit_commit ok maxBytes content s)"

definition trySynthesizeFromRejectionText ::
  "(nat \<Rightarrow> bool) \<Rightarrow> string \<Rightarrow> int \<Rightarrow> codex_stream \<Rightarrow> codex_stream \<times> bool" where
  "trySynthesizeFromRejectionText ok txt maxBytes s =
     (let txt = TrimSpace txt
      in if txt = [] \<or> \<not> IsSandboxRejection txt then (s, False)
         else let content = (if ExtractSandboxRejectionContent txt = [] then txt
                             else ExtractSandboxRejectionContent txt);
                  t = cs_tracker s
              in if \<not> tk_pending t \<or> tk_toolResultSent t then
                   (if \<not> tk_toolResultSent t \<and> content \<noteq> []
                    then s\<lparr>cs_tracker := t\<lparr>tk_pendingRejection := content\<rparr>\<rparr> else s, False)
                 else emitSandboxToolResult ok maxBytes content s)"

definition tryFlushPendingRejection :: "(nat \<Rightarrow> bool) \<Rightarrow> int \<Rightarrow> codex_stream \<Rightarrow> codex_stream \<times> bool" where
  "tryFlushPendingRejection ok maxBytes s =
     (let t = cs_tracker s; content = tk_pendingRejection t
      in if content = [] \<or> \<not> tk_pending t \<or> tk_toolResultSent t then (s, False)
         else case emitSandboxToolResult ok maxBytes content s of
                (s', False) \<Rightarrow> (s', False)
              | (s', True) \<Rightarrow> (s'\<lparr>cs_tracker := (cs_tracker s')\<lparr>tk_pendingRejection := []\<rparr>\<rparr>, True))"

definition synthesizeIfNeeded :: "(nat \<Rightarrow> bool) \<Rightarrow> string \<Rightarrow> int \<Rightarrow> codex_stream \<Rightarrow> codex_stream" where
  "synthesizeIfNeeded ok stderr maxBytes s =
     (case tryFlushPendingRejection ok maxBytes s of
        (s', True) \<Rightarrow> s'
      | (s', False) \<Rightarrow>
          (let stderr = TrimSpace stderr
           in if stderr = [] \<or> \<not> IsSandboxRejection stderr then s'
              else fst (emitSandboxToolResult ok maxBytes (ExtractSandboxRejectionContent stderr) s')))"

text \<open>Outside single-shot mode a synthesized rejection stops the process.\<close>

definition stop_if :: "agent_options \<Rightarrow> bool \<Rightarrow> codex_stream \<Rightarrow> codex_stream" where
  "stop_if cfg b s =
     (if b \<and> ao_ExecutionMode cfg \<noteq> ''single_shot'' then s\<lparr>cs_stops := Suc (cs_stops s)\<rparr> else s)"

definition flush_and_stop :: "(nat \<Rightarrow> bool) \<Rightarrow> agent_options \<Rightarrow> codex_stream \<Rightarrow> codex_stream" where
  "flush_and_stop ok cfg s =
     (case tryFlushPendingRejection ok (ao_MaxToolResultBytes cfg) s of (s', b) \<Rightarrow> stop_if cfg b s')"

definition stderr_line :: "(nat \<Rightarrow> bool) \<Rightarrow> agent_options \<Rightarrow> string \<Rightarrow> codex_stream \<Rightarrow> codex_stream" where
  "stderr_line ok cfg line s =
     (if cs_stderrReturned s then s
      else
        let s = s\<lparr>cs_stderr := cs_stderr s @ line @ [CHR 0x0A]\<rparr>;
            (s, go_on) =
              (case DetectStdinWaitFromStderr line of
                 None \<Rightarrow> (s, True)
               | Some content \<Rightarrow>
                   send ok ((stream_event EventUserInputRequired)
                     \<lparr>se_Content := (if content = [] then ''Agent is waiting for user input'' else content)\<rparr>) s)
        in if \<not> go_on then s\<lparr>cs_stderrReturned := True\<rparr>
           else case trySynthesizeFromRejectionText ok line (ao_MaxToolResultBytes cfg) s of
                  (s, b) \<Rightarrow> stop_if cfg b s)"

text \<open>The command of an event, trimmed; empty when there is none.\<close>

definition event_command :: "StreamEvent \<Rightarrow> string" where
  "event_command ev = (case map_of (se_ToolInput ev) ''command'' of Some (JStr c) \<Rightarrow> TrimSpace c | _ \<Rightarrow> [])"

text \<open>
  The part of the stdout loop for one parsed event: a result without an open tool use gets a
  synthesized tool use first, a tool use opens the tracker, a result closes it or is suppressed.
\<close>

definition batch_tool_use :: "(nat \<Rightarrow> bool) \<Rightarrow> agent_options \<Rightarrow> StreamEvent \<Rightarrow> codex_stream \<Rightarrow> codex_stream" where
  "batch_tool_use ok cfg ev s =
     (if se_Type ev = EventToolResult \<and> se_ToolName ev = ''command_execution'' \<and>
         \<not> hasOpenToolUse (cs_tracker s) \<and> event_command ev \<noteq> []
      then case send ok (tool_use_event ''command_execution'' [(''command'', JStr (event_command ev))])
                  (s\<lparr>cs_tracker := markToolUse (cs_tracker s)\<rparr>) of
             (s, False) \<Rightarrow> s\<lparr>cs_returned := True\<rparr>
           | (s, True) \<Rightarrow> flush_and_stop ok cfg s
      else s)"

definition open_tool_use :: "(nat \<Rightarrow> bool) \<Rightarrow> agent_options \<Rightarrow> StreamEvent \<Rightarrow> codex_stream \<Rightarrow> codex_stream" where
  "open_tool_use ok cfg ev s =
     (if se_Type ev = EventToolUse \<and> se_ToolName ev = ''command_execution''
      then flush_and_stop ok cfg (s\<lparr>cs_tracker := markToolUse (cs_tracker s)\<rparr>) else s)"

definition forward :: "(nat \<Rightarrow> bool) \<Rightarrow> agent_options \<Rightarrow> StreamEvent \<Rightarrow> codex_stream \<Rightarrow> codex_stream" where
  "forward ok cfg ev s =
     (if se_Type ev = EventToolResult \<and> tk_synthesizedReject (cs_tracker s)
      then s\<lparr>cs_tracker := markToolResult (cs_tracker s)\<rparr>
      else
        let (ev, s) =
              (if se_Type ev = EventToolResult
               then (ev\<lparr>se_Content := TruncateToolResult (se_Content ev) (ao_MaxToolResultBytes cfg)\<rparr>,
                     s\<lparr>cs_tracker := markToolResult (cs_tracker s)\<rparr>)
               else (ev, s));
            s = (if se_Type ev = EventResult then s\<lparr>cs_resultEmitted := True\<rparr> else s);
            s = (if se_Type ev = EventError \<and> se_Content ev \<noteq> [] then s\<lparr>cs_lastErr := se_Content ev\<rparr> else s);
            s = (if se_Type ev = EventText
                 then fst (trySynthesizeFromRejectionText ok (se_Content ev) (ao_MaxToolResultBytes cfg) s) else s)
        in case send ok ev s of
             (s, True) \<Rightarrow> s
           | (s, False) \<Rightarrow> s\<lparr>cs_returned := True\<rparr>)"

definition stdout_event :: "(nat \<Rightarrow> bool) \<Rightarrow> agent_options \<Rightarrow> StreamEvent \<Rightarrow> codex_stream \<Rightarrow> codex_stream" where
  "stdout_event ok cfg ev s =
     (let s = batch_tool_use ok cfg ev s
      in if cs_returned s then s else forward ok cfg ev (open_tool_use ok cfg ev s))"

definition stdout_line ::
  "(nat \<Rightarrow> bool) \<Rightarrow> (string \<Rightarrow> json option) \<Rightarrow> agent_options \<Rightarrow> string \<Rightarrow> codex_stream \<Rightarrow> codex_stream" where
  "stdout_line ok parse cfg line s =
     (if cs_returned s \<or> line = [] then s
      else
        let s = (case DetectUserInputFromExecEvent (parse line) of
                   None \<Rightarrow> s
                 | Some ev \<Rightarrow> (case send ok ev s of (s, True) \<Rightarrow> s | (s, False) \<Rightarrow> s\<lparr>cs_returned := True\<rparr>))
        in if cs_returned s then s
           else case ParseExecEvent (parse line) of None \<Rightarrow> s | Some ev \<Rightarrow> stdout_event ok cfg ev s)"

text \<open>
  The end of the stdout loop: \<open>scanErr\<close> is the scanner's error and \<open>waitErr\<close> the error of waiting for
  the process (\<open>None\<close>: exit code zero).
\<close>

definition exit_error :: "string \<Rightarrow> string \<Rightarrow> string \<Rightarrow> StreamEvent" where
  "exit_error stderr lastErr waitErr =
     (let errMsg = TrimSpace stderr;
          errMsg = (if errMsg = [] then lastErr else errMsg);
          errMsg = (if errMsg = [] then waitErr else errMsg);
          retryable = (\<not> IsNonRetryableError errMsg)
      in (error_event (if retryable then ClassifiedErrorContent errMsg (IsRetryableUpstream errMsg) else errMsg))
           \<lparr>se_Retryable := retryable\<rparr>)"

definition codex_exit ::
  "(nat \<Rightarrow> bool) \<Rightarrow> agent_options \<Rightarrow> string option \<Rightarrow> string option \<Rightarrow> codex_stream \<Rightarrow> codex_stream" where
  "codex_exit ok cfg scanErr waitErr s =
     (if cs_returned s then s
      else
        let s = (case scanErr of None \<Rightarrow> s | Some e \<Rightarrow> fst (send ok (error_event (''stdout read error: '' @ e)) s));
            s = synthesizeIfNeeded ok (cs_stderr s) (ao_MaxToolResultBytes cfg) s
        in case waitErr of
             Some e \<Rightarrow>
               if tk_synthesizedReject (cs_tracker s) then s
               else fst (send ok (exit_error (cs_stderr s) (cs_lastErr s) e) s)
           | None \<Rightarrow> if cs_resultEmitted s then s else fst (send ok (stream_event EventResult) s))"

datatype out_line = Stdout string | Stderr string

definition codex_line ::
  "(nat \<Rightarrow> bool) \<Rightarrow> (string \<Rightarrow> json option) \<Rightarrow> agent_options \<Rightarrow> codex_stream \<Rightarrow> out_line \<Rightarrow> codex_stream" where
  "codex_line ok parse cfg s l =
     (case l of Stdout x \<Rightarrow> stdout_line ok parse cfg x s | Stderr x \<Rightarrow> stderr_line ok cfg x s)"

definition codex_run ::
  "(nat \<Rightarrow> bool) \<Rightarrow> (string \<Rightarrow> json option) \<Rightarrow> agent_options \<Rightarrow> out_line list \<Rightarrow> string option \<Rightarrow> string option
   \<Rightarrow> codex_stream" where
  "codex_run ok parse cfg ls scanErr waitErr =
     codex_exit ok cfg scanErr waitErr (foldl (codex_line ok parse cfg) codex_start ls)"

section \<open>The output of a Claude Code process\<close>

record claude_stream =
  cd_events :: "StreamEvent list"
  cd_attempts :: nat
  cd_stderr :: string
  cd_resultEmitted :: bool
  cd_returned :: bool

definition claude_start :: claude_stream where
  "claude_start = \<lparr>cd_events = [], cd_attempts = 0, cd_stderr = [], cd_resultEmitted = False, cd_returned = False\<rparr>"

definition claude_send :: "(nat \<Rightarrow> bool) \<Rightarrow> StreamEvent \<Rightarrow> claude_stream \<Rightarrow> claude_stream" where
  "claude_send ok ev s =
     (if ok (cd_attempts s)
      then s\<lparr>cd_events := cd_events s @ [ev], cd_attempts := Suc (cd_attempts s)\<rparr>
      else s\<lparr>cd_attempts := Suc (cd_attempts s), cd_returned := True\<rparr>)"

definition claude_event :: "(nat \<Rightarrow> bool) \<Rightarrow> agent_options \<Rightarrow> claude_stream \<Rightarrow> StreamEvent \<Rightarrow> claude_stream" where
  "claude_event ok cfg s ev =
     (if cd_returned s then s
      else
        let ev = (if se_Type ev = EventToolResult
                  then ev\<lparr>se_Content := TruncateToolResult (se_Content ev) (ao_MaxToolResultBytes cfg)\<rparr> else ev);
            s = (if se_Type ev = EventResult then s\<lparr>cd_resultEmitted := True\<rparr> else s)
        in claude_send ok ev s)"

definition claude_line ::
  "(nat \<Rightarrow> bool) \<Rightarrow> json_lib \<Rightarrow> agent_options \<Rightarrow> claude_stream \<Rightarrow> out_line \<Rightarrow> claude_stream" where
  "claude_line ok lib cfg s l =
     (case l of
        Stdout x \<Rightarrow> foldl (claude_event ok cfg) s (ParseJSONLinesEvents lib x)
      | Stderr x \<Rightarrow> s\<lparr>cd_stderr := cd_stderr s @ x @ [CHR 0x0A]\<rparr>)"

definition claude_exit ::
  "(nat \<Rightarrow> bool) \<Rightarrow> string option \<Rightarrow> string option \<Rightarrow> claude_stream \<Rightarrow> claude_stream" where
  "claude_exit ok scanErr waitErr s =
     (if cd_returned s then s
      else
        let s = (case scanErr of None \<Rightarrow> s | Some e \<Rightarrow> claude_send ok (error_event (''stdout read error: '' @ e)) s)
        in case waitErr of
             Some e \<Rightarrow> claude_send ok (error_event (if TrimSpace (cd_stderr s) = [] then e else TrimSpace (cd_stderr s))) s
           | None \<Rightarrow> if cd_resultEmitted s then s else claude_send ok (stream_event EventResult) s)"

definition claude_run ::
  "(nat \<Rightarrow> bool) \<Rightarrow> json_lib \<Rightarrow> agent_options \<Rightarrow> out_line list \<Rightarrow> string option \<Rightarrow> string option \<Rightarrow> claude_stream" where
  "claude_run ok lib cfg ls scanErr waitErr =
     claude_exit ok scanErr waitErr (foldl (claude_line ok lib cfg) claude_start ls)"

section \<open>The key of a session at the gateway\<close>

definition key_word :: "string \<Rightarrow> bool" where
  "key_word v \<longleftrightarrow> list_all graph_char v \<and> CHR '';'' \<notin> set v"

definition key_fields :: "AdapterConfig \<Rightarrow> agent_options \<Rightarrow> string list" where
  "key_fields ac cfg =
     (if ac_GatewayToken ac \<noteq> [] then [''token='' @ ac_GatewayToken ac] else [])
     @ [''fallback='' @ (if ac_ToolCallFallback ac then ''true'' else ''false''),
        ''sid='' @ (if ao_AgentSessionID cfg = [] then ''default'' else ao_AgentSessionID cfg)]
     @ (if ao_TernSessionID cfg \<noteq> [] then [''tern_sid='' @ ao_TernSessionID cfg] else [])
     @ (if ao_TurnID cfg \<noteq> [] then [''tid='' @ ao_TurnID cfg] else [])"

lemma gateway_key_Join: "gateway_key k ac cfg = Join (k # key_fields ac cfg) '';''"
  by (simp add: gateway_key_def key_fields_def MeteringMetaSuffix_def)

lemma Join_prefix: "p @ Join (k # ws) sep = Join ((p @ k) # ws) sep"
  by (cases ws) simp_all

lemma key_fields_words:
  assumes "key_word (ac_GatewayToken ac)" "key_word (ao_AgentSessionID cfg)" "key_word (ao_TernSessionID cfg)"
    "key_word (ao_TurnID cfg)"
  shows "list_all key_word (key_fields ac cfg)"
  using assms by (auto simp: key_fields_def key_word_def graph_char_def byte_def)

lemma SplitByte_key:
  assumes "CHR '';'' \<notin> set p" "list_all key_word (key_fields ac cfg)"
  shows "SplitByte (CHR '';'') (Join (p # key_fields ac cfg) '';'') = p # key_fields ac cfg"
  using assms by (intro SplitByte_Join) (auto simp: list_all_iff key_word_def)

lemma map_TrimSpace_words: "list_all key_word ws \<Longrightarrow> map TrimSpace ws = ws"
  by (induction ws) (auto simp: key_word_def TrimSpace_graph)

text \<open>The first part of a header, with or without the bearer scheme, is not a field.\<close>

lemma header_first:
  assumes "k = ''not-needed'' \<or> k = ''tern-internal-key-placeholder''" "p = [] \<or> p = ''Bearer ''"
  shows "CHR '';'' \<notin> set (p @ k)" "TrimSpace k = k" "TrimPrefix (p @ k @ ks) ''Bearer '' = k @ ks"
    "key = ''sid'' \<or> key = ''tern_sid'' \<or> key = ''tid'' \<Longrightarrow>
      first_meta (key @ ''='') ((p @ k) # ws) = first_meta (key @ ''='') ws"
proof -
  have "list_all graph_char k" using assms(1) by (auto simp: graph_char_def byte_def)
  then show trim: "TrimSpace k = k" by (rule TrimSpace_graph)
  show "CHR '';'' \<notin> set (p @ k)" "TrimPrefix (p @ k @ ks) ''Bearer '' = k @ ks"
    using assms by (auto simp: TrimPrefix_def)
  have "TrimSpace (''Bearer '' @ k) = ''Bearer '' @ k"
    using assms(1) by (intro TrimSpace_id) (auto simp: graph_char_def byte_def)
  then show "first_meta (key @ ''='') ((p @ k) # ws) = first_meta (key @ ''='') ws"
    if "key = ''sid'' \<or> key = ''tern_sid'' \<or> key = ''tid''"
    using assms trim that by (auto simp: Let_def TrimPrefix_def)
qed


definition sample_adapter :: AdapterConfig where
  "sample_adapter = \<lparr>ac_GatewayURL = ''http://gw'', ac_DefaultWorkDir = ''/w'', ac_DefaultModel = ''m'',
     ac_DefaultEnvVars = None, ac_DefaultSessionDir = ''/s'', ac_DisableSandbox = False, ac_ToolCallFallback = True,
     ac_GatewayToken = ''tok'', ac_ExecutionMode = [], ac_IdleTimeoutSeconds = 0, ac_MaxExecutionSeconds = 0,
     ac_ScannerMaxTokenBytes = 0, ac_MaxToolResultBytes = 0\<rparr>"

definition sample_options :: agent_options where
  "sample_options = \<lparr>ao_Model = [], ao_Prompt = ''hi'', ao_AllowedTools = [], ao_WorkDir = [], ao_EnvVars = None,
     ao_AgentSessionID = [], ao_SessionDir = [], ao_ConfigDir = [], ao_MaxTurns = 0, ao_ExecutionMode = [],
     ao_IdleTimeoutSeconds = 0, ao_MaxExecutionSeconds = 0, ao_ScannerMaxTokenBytes = 0, ao_MaxToolResultBytes = 0,
     ao_SandboxMode = [], ao_TernSessionID = ''s1'', ao_TurnID = ''t1''\<rparr>"


section \<open>Sandbox policy\<close>

abbreviation BypassFlag :: string where "BypassFlag \<equiv> ''--dangerously-bypass-approvals-and-sandbox''"

lemma map_of_with_env: "k \<notin> fst ` set (case vars of None \<Rightarrow> [] | Some kvs \<Rightarrow> kvs) \<Longrightarrow>
  map_of (with_env vars env) k = map_of env k"
proof -
  have "k \<notin> fst ` set kvs \<Longrightarrow> map_of (foldl (\<lambda>m (k, v). massign k v m) env kvs) k = map_of env k" for kvs
    by (induction kvs arbitrary: env) auto
  then show "k \<notin> fst ` set (case vars of None \<Rightarrow> [] | Some kvs \<Rightarrow> kvs) \<Longrightarrow> ?thesis"
    by (simp add: with_env_def)
qed

lemma claude_env_skip:
  assumes "SkipSandboxVar \<notin> fst ` set (case ao_EnvVars cfg of None \<Rightarrow> [] | Some kvs \<Rightarrow> kvs)"
    and "ao_SandboxMode cfg \<noteq> []"
  shows "map_of (claude_env ac cfg) SkipSandboxVar
    = (if SandboxModeDisablesSandbox (ao_SandboxMode cfg) then Some ''1'' else None)"
  using assms by (simp add: claude_env_def map_of_with_env Let_def)

text \<open>
  C26. The sandbox policy reaches both agents unchanged: with the mode that the server resolved for a
  session, Codex is told to bypass its sandbox, and Claude Code to skip its own, exactly when full
  access was requested explicitly, or nothing was requested and the server disables sandboxes;
  an adapter default never weakens an explicit mode. (The caller's own overrides and variables must
  not set the switches.)
\<close>

theorem sandbox_policy_enforced:
  assumes "ResolveSandboxMode explicit disabled = Inr (ao_SandboxMode cfg)"
    and "BypassFlag \<notin> set overrides" "ao_AgentSessionID cfg \<noteq> BypassFlag"
    and "SkipSandboxVar \<notin> fst ` set (case ao_EnvVars cfg of None \<Rightarrow> [] | Some kvs \<Rightarrow> kvs)"
  shows "(BypassFlag \<in> set (fst (codex_launch getwd ac cfg overrides home)) \<longleftrightarrow>
      explicit = SandboxModeDangerFullAccess \<or> explicit = [] \<and> disabled) \<and>
    (map_of (claude_env ac cfg) SkipSandboxVar = Some ''1'' \<longleftrightarrow>
      explicit = SandboxModeDangerFullAccess \<or> explicit = [] \<and> disabled)"
proof -
  have mode: "ao_SandboxMode cfg \<noteq> []"
    "ao_SandboxMode cfg = SandboxModeDangerFullAccess \<longleftrightarrow> explicit = SandboxModeDangerFullAccess \<or> explicit = [] \<and> disabled"
    using assms(1) by (auto simp: ResolveSandboxMode_def split: if_splits)
  have "BypassFlag \<in> set (fst (codex_launch getwd ac cfg overrides home)) \<longleftrightarrow>
      ao_SandboxMode cfg = SandboxModeDangerFullAccess"
    using assms(2,3) mode(1)
    by (simp add: codex_launch_def codex_BuildArgs_def EffectiveSandboxMode_def Let_def)
  then show ?thesis
    using mode claude_env_skip [OF assms(4) mode(1)] by (simp add: SandboxModeDisablesSandbox_def)
qed

theorem sandbox_policy_enforced_witness:
  "BypassFlag \<notin> set (fst (codex_launch None (sample_adapter\<lparr>ac_DisableSandbox := True\<rparr>)
     (sample_options\<lparr>ao_SandboxMode := ''read-only''\<rparr>) [] []))"
  using sandbox_policy_enforced [of "''read-only''" True "sample_options\<lparr>ao_SandboxMode := ''read-only''\<rparr>" "[]" None
      "sample_adapter\<lparr>ac_DisableSandbox := True\<rparr>" "[]"]
  by (simp add: ResolveSandboxMode_def sample_options_def)

section \<open>Defaults\<close>

lemma abs_or_same_abs:
  assumes "IsAbs wd"
  shows "abs_or_same (Some wd) (abs_or_same (Some wd) p) = abs_or_same (Some wd) p \<and>
    (p \<noteq> [] \<longrightarrow> IsAbs (abs_or_same (Some wd) p))"
  using assms Clean_Join [of wd p] Clean_Clean [of p] IsAbs_Clean [of p]
  by (auto simp: abs_or_same_def filepath_Abs_def)

text \<open>
  Defaults are sound: they never override what a session sets, they leave no directory relative
  and no timeout unset, and applying them again changes nothing.
\<close>

theorem ApplyDefaults_spec:
  assumes "IsAbs wd" "cfg' = ApplyDefaults (Some wd) ac cfg" "ac_DefaultWorkDir ac \<noteq> [] \<or> ao_WorkDir cfg \<noteq> []"
  shows "ApplyDefaults (Some wd) ac cfg' = cfg' \<and> IsAbs (ao_WorkDir cfg') \<and>
    (ao_SessionDir cfg' = [] \<or> IsAbs (ao_SessionDir cfg')) \<and>
    (ao_Model cfg \<noteq> [] \<longrightarrow> ao_Model cfg' = ao_Model cfg) \<and> (ao_EnvVars cfg \<noteq> None \<longrightarrow> ao_EnvVars cfg' = ao_EnvVars cfg) \<and>
    (ao_IdleTimeoutSeconds cfg \<noteq> 0 \<longrightarrow> ao_IdleTimeoutSeconds cfg' = ao_IdleTimeoutSeconds cfg) \<and>
    resolveTimeouts cfg' = (ao_IdleTimeoutSeconds cfg', ao_MaxExecutionSeconds cfg')"
proof -
  let ?a = "abs_or_same (Some wd)"
  have nonempty: "?a y = [] \<longleftrightarrow> y = []" for y
    using abs_or_same_abs [OF assms(1), of y] by (cases "y = []") (auto simp: IsAbs_def abs_or_same_def [of _ "[]"])
  have "ApplyDefaults (Some wd) ac cfg' = cfg'"
    unfolding assms(2)
    by (rule agent_options.equality)
      (simp_all add: ApplyDefaults_def nonempty abs_or_same_abs [OF assms(1)] pos_or_def NormalizeExecutionMode_def)
  moreover have "IsAbs (ao_WorkDir cfg')" "ao_SessionDir cfg' = [] \<or> IsAbs (ao_SessionDir cfg')"
    using assms(3) abs_or_same_abs [OF assms(1)] by (auto simp: assms(2) ApplyDefaults_def nonempty)
  ultimately show ?thesis
    using assms(2) by (simp add: ApplyDefaults_def resolveTimeouts_def pos_or_def)
qed

theorem ApplyDefaults_spec_witness: "ao_WorkDir (ApplyDefaults (Some ''/'') sample_adapter sample_options) \<noteq> []"
  using ApplyDefaults_spec [of "''/''" _ sample_adapter sample_options]
  by (auto simp: IsAbs_def sample_adapter_def)
section \<open>Rejections\<close>

abbreviation tool_results :: "StreamEvent list \<Rightarrow> StreamEvent list" where
  "tool_results \<equiv> filter (\<lambda>e. se_Type e = EventToolResult)"

lemma exit_error_type [simp]: "se_Type (exit_error a b c) = EventError"
  by (simp add: error_event_def stream_event_def exit_error_def Let_def)

lemma DetectUserInput_type: "DetectUserInputFromExecEvent v = Some ev \<Longrightarrow> se_Type ev = EventUserInputRequired"
  by (auto simp: DetectUserInputFromExecEvent_def Let_def split: prod.splits if_splits option.splits)

text \<open>
  The tracker after a synthesized rejection: nothing is pending, and nothing is ever again. What
  follows is silent: it adds no tool result to those of the base state \<open>b\<close>.
\<close>

definition rejected :: "codex_stream \<Rightarrow> bool" where
  "rejected s \<longleftrightarrow> tk_synthesizedReject (cs_tracker s) \<and> \<not> tk_pending (cs_tracker s)"

definition silent :: "codex_stream \<Rightarrow> codex_stream \<Rightarrow> bool" where
  "silent b s \<longleftrightarrow> rejected s \<and> tool_results (cs_events s) = tool_results (cs_events b)"

named_theorems silence

lemma silent_updates [silence]:
  "silent b (s\<lparr>cs_returned := r\<rparr>) = silent b s" "silent b (s\<lparr>cs_stderrReturned := r\<rparr>) = silent b s"
  "silent b (s\<lparr>cs_resultEmitted := r\<rparr>) = silent b s" "silent b (s\<lparr>cs_lastErr := e\<rparr>) = silent b s"
  "silent b (s\<lparr>cs_stderr := e\<rparr>) = silent b s" "silent b (s\<lparr>cs_attempts := i\<rparr>) = silent b s"
  "silent b (stop_if cfg c s) = silent b s"
  by (simp_all add: silent_def rejected_def stop_if_def)

lemma silent_send [silence]:
  "silent b s \<Longrightarrow> se_Type ev \<noteq> EventToolResult \<Longrightarrow> silent b (fst (send ok ev s))"
  by (auto simp: send_def silent_def rejected_def)

lemma silent_emit [silence]: "silent b s \<Longrightarrow> emitSandboxToolResult ok n x s = (s, False)"
  by (simp add: emitSandboxToolResult_def silent_def rejected_def)

lemma silent_try [silence]:
  assumes "silent b s"
  shows "silent b (fst (trySynthesizeFromRejectionText ok x n s))"
  using assms silent_emit [OF assms]
  by (simp add: trySynthesizeFromRejectionText_def Let_def) (auto simp: silent_def rejected_def)

lemma silent_flush [silence]: "silent b s \<Longrightarrow> silent b (flush_and_stop ok cfg s)"
  by (simp add: flush_and_stop_def tryFlushPendingRejection_def silence Let_def)

lemma silent_mark [silence]:
  "silent b s \<Longrightarrow> silent b (s\<lparr>cs_tracker := markToolUse (cs_tracker s)\<rparr>)"
  "silent b s \<Longrightarrow> silent b (s\<lparr>cs_tracker := markToolResult (cs_tracker s)\<rparr>)"
  by (simp_all add: silent_def rejected_def markToolUse_def markToolResult_def)

lemma stderr_line_silent: "silent b s \<Longrightarrow> silent b (stderr_line ok cfg x s)"
  by (auto simp: stderr_line_def Let_def case_prod_unfold silence split: option.split)

lemma case_sent: "(case p of (s, True) \<Rightarrow> f s | (s, False) \<Rightarrow> g s) = (if snd p then f (fst p) else g (fst p))"
  by (cases p) (simp split: bool.split)

lemma case_unsent: "(case p of (s, False) \<Rightarrow> g s | (s, True) \<Rightarrow> f s) = (if snd p then f (fst p) else g (fst p))"
  by (cases p) (simp split: bool.split)

lemma stdout_line_silent:
  assumes "silent b s"
  shows "silent b (stdout_line ok parse cfg x s)"
proof -
  have batch: "silent b (batch_tool_use ok cfg ev s)" if "silent b s" for ev s
    using that by (auto simp: batch_tool_use_def case_unsent silence)
  have opened: "silent b (open_tool_use ok cfg ev s)" if "silent b s" for ev s
    using that by (auto simp: open_tool_use_def silence)
  have "silent b (forward ok cfg ev s)" if "silent b s" for ev s
    using that by (auto simp: forward_def Let_def case_sent silence) (auto simp: silent_def rejected_def)
  with batch opened have "silent b (stdout_event ok cfg ev s)" if "silent b s" for ev s
    using that by (simp add: stdout_event_def Let_def)
  with assms show ?thesis
    using DetectUserInput_type
    by (auto simp: stdout_line_def Let_def case_sent silence split: option.split)
qed

lemma silent_exit:
  assumes "silent b s"
  shows "silent b (codex_exit ok cfg scanErr waitErr s)"
proof -
  have "silent b (synthesizeIfNeeded ok x n s)" if "silent b s" for s x n
    using that by (auto simp: synthesizeIfNeeded_def tryFlushPendingRejection_def silence Let_def)
  with assms show ?thesis
    by (auto simp: codex_exit_def Let_def silence split: option.split)
qed

text \<open>A rejection is synthesized only for an open command, which it closes.\<close>

definition closes :: "codex_stream \<Rightarrow> bool" where
  "closes s \<longleftrightarrow> (tk_synthesizedReject (cs_tracker s) \<longrightarrow> \<not> tk_pending (cs_tracker s))"

named_theorems closing

lemma closes_updates [closing]:
  "closes (s\<lparr>cs_returned := r\<rparr>) = closes s" "closes (s\<lparr>cs_stderrReturned := r\<rparr>) = closes s"
  "closes (s\<lparr>cs_resultEmitted := r\<rparr>) = closes s" "closes (s\<lparr>cs_lastErr := e\<rparr>) = closes s"
  "closes (s\<lparr>cs_stderr := e\<rparr>) = closes s" "closes (fst (send ok ev s)) = closes s"
  "closes (stop_if cfg c s) = closes s" "closes (s\<lparr>cs_tracker := (cs_tracker s)\<lparr>tk_pendingRejection := x\<rparr>\<rparr>) = closes s"
  "closes s \<Longrightarrow> closes (s\<lparr>cs_tracker := markToolUse (cs_tracker s)\<rparr>)"
  "closes s \<Longrightarrow> closes (s\<lparr>cs_tracker := markToolResult (cs_tracker s)\<rparr>)"
  by (simp_all add: closes_def stop_if_def send_def markToolUse_def markToolResult_def)

lemma closes_emit [closing]: "closes s \<Longrightarrow> closes (fst (emitSandboxToolResult ok n x s))"
  by (simp add: emitSandboxToolResult_def emit_commit_def case_unsent closing) (simp add: closes_def)

lemma closes_try [closing]: "closes s \<Longrightarrow> closes (fst (trySynthesizeFromRejectionText ok x n s))"
  by (simp add: trySynthesizeFromRejectionText_def Let_def closing)

lemma closes_flush [closing]: "closes s \<Longrightarrow> closes (flush_and_stop ok cfg s)"
  by (simp add: flush_and_stop_def tryFlushPendingRejection_def Let_def case_prod_unfold closing split: bool.split)

lemma closes_line: "closes s \<Longrightarrow> closes (codex_line ok parse cfg s l)"
proof -
  assume s: "closes s"
  have "closes (stderr_line ok cfg x s)" for x
    using s by (auto simp: stderr_line_def Let_def case_prod_unfold closing split: option.split)
  moreover have "closes (batch_tool_use ok cfg ev s)" if "closes s" for ev s
    using that by (auto simp: batch_tool_use_def case_unsent closing)
  moreover have "closes (open_tool_use ok cfg ev s)" if "closes s" for ev s
    using that by (auto simp: open_tool_use_def closing)
  moreover have "closes (forward ok cfg ev s)" if "closes s" for ev s
    using that by (auto simp: forward_def Let_def case_sent closing)
  ultimately show ?thesis
    using s by (auto simp: codex_line_def stdout_line_def stdout_event_def Let_def case_sent closing
        split: out_line.split option.split)
qed

lemma closes_lines: "closes (foldl (codex_line ok parse cfg) codex_start ls)"
proof -
  have "closes s \<Longrightarrow> closes (foldl (codex_line ok parse cfg) s ls)" for s
    by (induction ls arbitrary: s) (simp_all add: closes_line)
  moreover have "closes codex_start" by (simp add: closes_def codex_start_def zero_tracker_def)
  ultimately show ?thesis by blast
qed

lemma silent_lines: "silent b s \<Longrightarrow> silent b (foldl (codex_line ok parse cfg) s ls)"
proof (induction ls arbitrary: s)
  case (Cons l ls)
  then show ?case
    by (cases l) (simp_all add: codex_line_def stderr_line_silent stdout_line_silent)
qed simp

text \<open>
  A sandbox rejection is reported once and is final: after the tool result that the adapter
  synthesizes from it, the client gets no further tool result of this process, neither a second
  synthesized one nor any that the agent still reports, however the two pipes interleave. (In
  single-shot mode the process is not stopped, so the results of later, permitted commands are
  dropped as well.)
\<close>

theorem rejection_final:
  assumes "s = foldl (codex_line ok parse cfg) codex_start ls" "tk_synthesizedReject (cs_tracker s)"
  shows "tool_results (cs_events (codex_run ok parse cfg (ls @ ls') scanErr waitErr)) = tool_results (cs_events s)"
proof -
  have "silent s s" using assms closes_lines [of ok parse cfg ls] by (simp add: silent_def rejected_def closes_def)
  then have "silent s (codex_run ok parse cfg (ls @ ls') scanErr waitErr)"
    by (simp add: codex_run_def silent_exit silent_lines flip: assms(1))
  then show ?thesis by (simp add: silent_def)
qed

text \<open>A run in which a command is started, rejected on stderr, and reported by the agent after all.\<close>

definition sample_parse :: "string \<Rightarrow> json option" where
  "sample_parse l =
     (if l = ''use'' then
        Some (JObj [(''type'', JStr ''item.started''),
          (''item'', JObj [(''type'', JStr ''command_execution''), (''command'', JStr ''ls'')])])
      else if l = ''result'' then
        Some (JObj [(''type'', JStr ''item.completed''),
          (''item'', JObj [(''type'', JStr ''command_execution''), (''command'', JStr ''ls''),
             (''aggregated_output'', JStr ''out'')])])
      else None)"

definition live :: "nat \<Rightarrow> bool" where
  "live n = True"

lemma sample_parsed:
  "ParseExecEvent (sample_parse ''use'') = Some (tool_use_event ''command_execution''
     [(''command'', JStr ''ls''), (''execution_status'', JStr ''started'')])"
  "ParseExecEvent (sample_parse ''result'') = Some ((stream_event EventToolResult)
     \<lparr>se_ToolName := ''command_execution'', se_Content := ''out'',
      se_ToolInput := [(''command'', JStr ''ls''), (''execution_status'', JStr ''completed'')]\<rparr>)"
  "DetectUserInputFromExecEvent (sample_parse l) = None"
  by (simp_all add: ParseExecEvent_def sample_parse_def str_ok_def str_of_def raw_of_def unmarshal_def dec_field_def
      dec_str_def dec_raw_def parseItemEvent_def dec_item_header_def Let_def lower_char_def byte_def dec_ptr_def
      dec_slice_def dec_int_def DetectUserInputFromExecEvent_def)

lemma sample_rejection:
  "TrimSpace ''rejected(x)'' = ''rejected(x)''" "IsSandboxRejection ''rejected(x)''"
  "ExtractSandboxRejectionContent ''rejected(x)'' = ''rejected(x)''"
  "DetectStdinWaitFromStderr ''rejected(x)'' = None"
proof -
  show trim: "TrimSpace ''rejected(x)'' = ''rejected(x)''"
    by (rule TrimSpace_graph) (simp add: graph_char_def byte_def)
  show "IsSandboxRejection ''rejected(x)''" "DetectStdinWaitFromStderr ''rejected(x)'' = None"
    by (simp_all add: IsSandboxRejection_def DetectStdinWaitFromStderr_def Contains_def lower_char_def byte_def Let_def)
  show "ExtractSandboxRejectionContent ''rejected(x)'' = ''rejected(x)''"
    using trim by (simp add: ExtractSandboxRejectionContent_def Contains_def lower_char_def byte_def Let_def)
qed

lemma TruncateToolResult_short:
  "int (length x) \<le> (if n \<le> 0 then DefaultMaxToolResultBytes else n) \<Longrightarrow> TruncateToolResult x n = x"
  by (auto simp: TruncateToolResult_def Let_def)

lemmas codex_eval = codex_line_def stdout_line_def stdout_event_def batch_tool_use_def open_tool_use_def forward_def
  flush_and_stop_def tryFlushPendingRejection_def stop_if_def stderr_line_def trySynthesizeFromRejectionText_def
  emitSandboxToolResult_def emit_commit_def send_def live_def markToolUse_def markToolResult_def hasOpenToolUse_def
  codex_start_def zero_tracker_def Let_def

definition sample_use :: StreamEvent where
  "sample_use = tool_use_event ''command_execution'' [(''command'', JStr ''ls''), (''execution_status'', JStr ''started'')]"

lemma sample_started:
  "codex_line live sample_parse sample_options codex_start (Stdout ''use'')
     = codex_start\<lparr>cs_tracker := zero_tracker\<lparr>tk_pending := True\<rparr>, cs_events := [sample_use], cs_attempts := 1\<rparr>"
  by (simp add: codex_eval sample_parsed sample_use_def tool_use_event_def stream_event_def)

lemma sample_rejected:
  "tk_synthesizedReject (cs_tracker (foldl (codex_line live sample_parse sample_options) codex_start
     [Stdout ''use'', Stderr ''rejected(x)'']))"
  "cs_events (foldl (codex_line live sample_parse sample_options) codex_start [Stdout ''use'', Stderr ''rejected(x)''])
    = [sample_use, (stream_event EventToolResult)\<lparr>se_Content := ''rejected(x)''\<rparr>]"
  by (simp_all add: sample_started, simp_all add: codex_eval sample_rejection TruncateToolResult_short DefaultMaxToolResultBytes_def sample_options_def)

theorem rejection_final_witness:
  "tool_results (cs_events (codex_run live sample_parse sample_options
     [Stdout ''use'', Stderr ''rejected(x)'', Stdout ''use'', Stdout ''result''] None (Some ''exit status 1'')))
   = [(stream_event EventToolResult)\<lparr>se_Content := ''rejected(x)''\<rparr>]"
  using rejection_final [OF refl sample_rejected(1), of "[Stdout ''use'', Stdout ''result'']" None "Some ''exit status 1''"]
  unfolding sample_rejected(2) by (simp add: sample_use_def)

text \<open>
  The rejection races with the agent's own report: the tracker is checked under its lock, but
  the result is sent and the tracker updated later. When the agent's result of the command is
  handled in between, the client gets two results for one tool use, the second contradicting the
  first.
\<close>

theorem rejection_race:
  "let s0 = codex_line live sample_parse sample_options codex_start (Stdout ''use'');
       s1 = codex_line live sample_parse sample_options s0 (Stdout ''result'');
       s2 = fst (emit_commit live 0 ''rejected(x)'' s1)
   in hasOpenToolUse (cs_tracker s0) \<and> map se_Type (cs_events s2) = [EventToolUse, EventToolResult, EventToolResult] \<and>
      map se_Content (tool_results (cs_events s2)) = [''out'', ''rejected(x)'']"
proof -
  have "TruncateToolResult ''out'' (ao_MaxToolResultBytes sample_options) = ''out''"
    "TruncateToolResult ''rejected(x)'' 0 = ''rejected(x)''"
    by (simp_all add: TruncateToolResult_short DefaultMaxToolResultBytes_def sample_options_def)
  then show ?thesis
    unfolding sample_started Let_def
    by (simp add: codex_eval sample_parsed sample_use_def tool_use_event_def stream_event_def)
qed
section \<open>A living context\<close>

text \<open>While the context is not cancelled every send succeeds, so neither loop returns early.\<close>

lemma send_live [simp]:
  "send live ev s = (s\<lparr>cs_events := cs_events s @ [ev], cs_attempts := Suc (cs_attempts s)\<rparr>, True)"
  by (simp add: send_def live_def)

text \<open>What an operation of the loop does to the events and to the loop's own variables.\<close>

definition adds :: "codex_stream \<Rightarrow> codex_stream \<Rightarrow> bool" where
  "adds s s' \<longleftrightarrow> prefix (cs_events s) (cs_events s') \<and> cs_returned s' = cs_returned s \<and>
     cs_resultEmitted s' = cs_resultEmitted s \<and> cs_stderr s' = cs_stderr s \<and> cs_lastErr s' = cs_lastErr s"

named_theorems adding

lemma adds_refl [adding]: "adds s s"
  by (simp add: adds_def)

lemma adds_trans: "adds s s' \<Longrightarrow> adds s' s'' \<Longrightarrow> adds s s''"
  unfolding adds_def by (auto intro: prefix_order.order_trans)

lemma adds_emit [adding]: "adds s (fst (emitSandboxToolResult live n x s))"
  by (simp add: emitSandboxToolResult_def emit_commit_def adds_def)

lemma adds_try [adding]: "adds s (fst (trySynthesizeFromRejectionText live x n s))"
proof -
  have "adds s (s\<lparr>cs_tracker := t\<rparr>)" for t by (simp add: adds_def)
  then show ?thesis by (simp add: trySynthesizeFromRejectionText_def Let_def adding)
qed

lemma adds_flush [adding]: "adds s (fst (tryFlushPendingRejection live n s))"
  by (simp add: tryFlushPendingRejection_def emitSandboxToolResult_def emit_commit_def adds_def Let_def)

lemma adds_flush_stop [adding]: "adds s (flush_and_stop live cfg s)"
  using adds_flush [of s "ao_MaxToolResultBytes cfg"]
  by (auto simp: flush_and_stop_def stop_if_def adds_def case_prod_unfold)

lemma adds_synthesize [adding]: "adds s (synthesizeIfNeeded live x n s)"
  using adds_flush [of s n] adds_emit [of "fst (tryFlushPendingRejection live n s)" n]
  by (auto simp: synthesizeIfNeeded_def Let_def case_prod_unfold split: bool.split intro: adds_trans)

lemma adds_batch [adding]: "adds s (batch_tool_use live cfg ev s)"
proof -
  let ?t = "s\<lparr>cs_tracker := markToolUse (cs_tracker s)\<rparr>"
  let ?u = "?t\<lparr>cs_events := cs_events s @ [tool_use_event ''command_execution'' [(''command'', JStr (event_command ev))]],
    cs_attempts := Suc (cs_attempts s)\<rparr>"
  have "adds s ?u" by (simp add: adds_def)
  then have "adds s (flush_and_stop live cfg ?u)" by (rule adds_trans) (rule adds_flush_stop)
  then show ?thesis by (simp add: batch_tool_use_def adding)
qed

lemma adds_open [adding]: "adds s (open_tool_use live cfg ev s)"
proof -
  have "adds s (s\<lparr>cs_tracker := markToolUse (cs_tracker s)\<rparr>)" by (simp add: adds_def)
  then have "adds s (flush_and_stop live cfg (s\<lparr>cs_tracker := markToolUse (cs_tracker s)\<rparr>))"
    by (rule adds_trans) (rule adds_flush_stop)
  then show ?thesis by (simp add: open_tool_use_def adding)
qed

text \<open>The events that a line of stdout yields, and how forwarding one changes the loop's variables.\<close>

definition passed :: "(string \<Rightarrow> json option) \<Rightarrow> out_line \<Rightarrow> StreamEvent list" where
  "passed parse l =
     (case l of
        Stderr x \<Rightarrow> []
      | Stdout x \<Rightarrow> if x = [] then [] else (case ParseExecEvent (parse x) of None \<Rightarrow> [] | Some ev \<Rightarrow> [ev]))"

definition other_events :: "StreamEvent list \<Rightarrow> StreamEvent list" where
  "other_events evs = filter (\<lambda>e. se_Type e \<noteq> EventToolResult) evs"

text \<open>A step hands on the given events, and knows whether a result was among everything sent.\<close>

definition hands_on :: "StreamEvent list \<Rightarrow> codex_stream \<Rightarrow> codex_stream \<Rightarrow> bool" where
  "hands_on evs s s' \<longleftrightarrow> (\<exists>xs. cs_events s' = cs_events s @ xs \<and> subseq (other_events evs) xs) \<and>
     cs_returned s' = cs_returned s \<and>
     (cs_resultEmitted s' \<longrightarrow> cs_resultEmitted s \<or> EventResult \<in> se_Type ` set evs)"

lemma adds_hands_on: "adds s s' \<Longrightarrow> hands_on [] s s'"
  by (auto simp: adds_def hands_on_def other_events_def prefix_def)

lemma hands_on_trans: "hands_on xs s s' \<Longrightarrow> hands_on ys s' s'' \<Longrightarrow> hands_on (xs @ ys) s s''"
  unfolding hands_on_def other_events_def
  by (auto intro!: list_emb_append_mono)

lemma hands_on_send: "hands_on [ev] s (fst (send live ev s))"
  by (auto simp: hands_on_def other_events_def)

lemma forward_live: "hands_on [ev] s (forward live cfg ev s)"
proof (cases "se_Type ev = EventToolResult")
  case True
  then show ?thesis by (auto simp: forward_def hands_on_def other_events_def Let_def)
next
  case False
  let ?s = "s\<lparr>cs_resultEmitted := (if se_Type ev = EventResult then True else cs_resultEmitted s),
    cs_lastErr := (if se_Type ev = EventError \<and> se_Content ev \<noteq> [] then se_Content ev else cs_lastErr s)\<rparr>"
  let ?t = "if se_Type ev = EventText
    then fst (trySynthesizeFromRejectionText live (se_Content ev) (ao_MaxToolResultBytes cfg) ?s) else ?s"
  have "adds ?s ?t" by (simp add: adding)
  then have "hands_on [ev] ?s (fst (send live ev ?t))"
    using hands_on_trans [OF adds_hands_on hands_on_send] by fastforce
  moreover have "forward live cfg ev s = fst (send live ev ?t)"
    using False by (simp add: forward_def Let_def)
  ultimately show ?thesis by (auto simp: hands_on_def)
qed

lemma stdout_event_live: "hands_on [ev] s (stdout_event live cfg ev s)" if "\<not> cs_returned s"
proof -
  let ?b = "batch_tool_use live cfg ev s"
  have b: "adds s ?b" by (rule adds_batch)
  then have "hands_on [ev] s (forward live cfg ev (open_tool_use live cfg ev ?b))"
    using hands_on_trans [OF adds_hands_on [OF adds_trans [OF b adds_open]] forward_live] by simp
  moreover have "\<not> cs_returned ?b" using b that by (simp add: adds_def)
  ultimately show ?thesis by (simp add: stdout_event_def Let_def)
qed

lemma stdout_line_live:
  assumes "\<not> cs_returned s"
  shows "hands_on (passed parse (Stdout x)) s (stdout_line live parse cfg x s)"
proof -
  let ?s = "case DetectUserInputFromExecEvent (parse x) of None \<Rightarrow> s | Some ev \<Rightarrow> fst (send live ev s)"
  have s: "adds s ?s" by (auto simp: adds_def split: option.split)
  then have ret: "\<not> cs_returned ?s" using assms by (simp add: adds_def)
  have "hands_on [ev] s (stdout_event live cfg ev ?s)" for ev
    using hands_on_trans [OF adds_hands_on [OF s] stdout_event_live [OF ret]] by simp
  moreover have "hands_on [] s ?s" using s by (rule adds_hands_on)
  moreover have "hands_on [] s s" by (rule adds_hands_on [OF adds_refl])
  ultimately show ?thesis
    using assms ret
    by (cases "DetectUserInputFromExecEvent (parse x)"; cases "ParseExecEvent (parse x)")
      (simp_all add: stdout_line_def passed_def Let_def)
qed

lemma stderr_line_live: "hands_on [] s (stderr_line live cfg x s)"
proof -
  let ?s = "s\<lparr>cs_stderr := cs_stderr s @ x @ [CHR 0x0A]\<rparr>"
  let ?t = "case DetectStdinWaitFromStderr x of None \<Rightarrow> ?s
    | Some c \<Rightarrow> fst (send live ((stream_event EventUserInputRequired)
        \<lparr>se_Content := (if c = [] then ''Agent is waiting for user input'' else c)\<rparr>) ?s)"
  let ?u = "fst (trySynthesizeFromRejectionText live x (ao_MaxToolResultBytes cfg) ?t)"
  have "hands_on [] s ?s" by (simp add: hands_on_def other_events_def)
  moreover have "adds ?s ?t" by (auto simp: adds_def split: option.split)
  ultimately have "hands_on [] s ?u"
    using hands_on_trans [OF _ adds_hands_on [OF adds_trans [OF _ adds_try]]] by fastforce
  then have "hands_on [] s (stop_if cfg b ?u)" for b by (simp add: hands_on_def stop_if_def)
  moreover have "hands_on [] s s" by (rule adds_hands_on [OF adds_refl])
  ultimately show ?thesis
    by (cases "DetectStdinWaitFromStderr x") (simp_all add: stderr_line_def Let_def case_prod_unfold)
qed

lemma lines_live:
  "\<not> cs_returned s \<Longrightarrow>
   hands_on (concat (map (passed parse) ls)) s (foldl (codex_line live parse cfg) s ls)"
proof (induction ls arbitrary: s)
  case Nil
  then show ?case by (simp add: adds_hands_on adds_refl)
next
  case (Cons l ls)
  let ?s = "codex_line live parse cfg s l"
  have s: "hands_on (passed parse l) s ?s"
    using Cons.prems stdout_line_live stderr_line_live
    by (cases l) (simp_all add: codex_line_def passed_def [of _ "Stderr _"])
  with Cons.prems have "\<not> cs_returned ?s" by (simp add: hands_on_def)
  with Cons.IH hands_on_trans [OF s] show ?case by simp
qed

lemma hands_on_start:
  assumes "hands_on evs codex_start u"
  shows "subseq (other_events evs) (cs_events u)" "\<not> cs_returned u"
    "cs_resultEmitted u \<Longrightarrow> EventResult \<in> se_Type ` set (cs_events u)"
proof -
  show sub: "subseq (other_events evs) (cs_events u)" and "\<not> cs_returned u"
    using assms by (auto simp: hands_on_def codex_start_def)
  assume "cs_resultEmitted u"
  then obtain ev where "ev \<in> set evs" "se_Type ev = EventResult"
    using assms by (auto simp: hands_on_def codex_start_def)
  then have "ev \<in> set (other_events evs)" by (simp add: other_events_def)
  with sub have "ev \<in> set (cs_events u)" by (auto elim: list_emb_set)
  with \<open>se_Type ev = EventResult\<close> show "EventResult \<in> se_Type ` set (cs_events u)" by (metis imageI)
qed

lemma codex_exit_live:
  assumes "\<not> cs_returned s" "hands_on evs codex_start s"
  shows "\<exists>u. hands_on evs codex_start u \<and> codex_exit live cfg scanErr waitErr s = (case waitErr of
      Some e \<Rightarrow> if tk_synthesizedReject (cs_tracker u) then u
                else fst (send live (exit_error (cs_stderr u) (cs_lastErr u) e) u)
    | None \<Rightarrow> if cs_resultEmitted u then u else fst (send live (stream_event EventResult) u))"
proof -
  let ?t = "case scanErr of None \<Rightarrow> s | Some e \<Rightarrow> fst (send live (error_event (''stdout read error: '' @ e)) s)"
  let ?u = "synthesizeIfNeeded live (cs_stderr ?t) (ao_MaxToolResultBytes cfg) ?t"
  have "adds s ?t" by (auto simp: adds_def split: option.split)
  then have "adds s ?u" by (rule adds_trans) (rule adds_synthesize)
  then have "hands_on evs codex_start ?u" using hands_on_trans [OF assms(2) adds_hands_on] by fastforce
  with assms(1) show ?thesis by (intro exI [of _ ?u]) (simp add: codex_exit_def Let_def)
qed



text \<open>
  At the end of a process no rejected command stays unanswered: if the last command is still open
  when both pipes are closed and the text of stderr contains a rejection, the client gets a tool
  result for it before the stream ends, and no error event for the exit.
\<close>

theorem open_command_answered:
  assumes "hasOpenToolUse (cs_tracker s)" "IsSandboxRejection (TrimSpace (cs_stderr s))" "\<not> cs_returned s"
  shows "\<exists>content. cs_events (codex_exit live cfg None (Some e) s)
    = cs_events s @ [(stream_event EventToolResult)\<lparr>se_Content := TruncateToolResult content (ao_MaxToolResultBytes cfg)\<rparr>]"
  using assms
  by (auto simp: codex_exit_def synthesizeIfNeeded_def tryFlushPendingRejection_def emitSandboxToolResult_def
      emit_commit_def hasOpenToolUse_def IsSandboxRejection_def [of "[]"] Let_def)

theorem open_command_answered_witness:
  "\<exists>content. cs_events (codex_exit live sample_options None (Some ''exit status 1'')
      (codex_start\<lparr>cs_tracker := zero_tracker\<lparr>tk_pending := True\<rparr>, cs_stderr := ''rejected(x)''\<rparr>))
    = [(stream_event EventToolResult)\<lparr>se_Content := TruncateToolResult content (ao_MaxToolResultBytes sample_options)\<rparr>]"
  using open_command_answered [of "codex_start\<lparr>cs_tracker := zero_tracker\<lparr>tk_pending := True\<rparr>, cs_stderr := ''rejected(x)''\<rparr>"]
  by (simp add: hasOpenToolUse_def sample_rejection codex_start_def zero_tracker_def)

section \<open>The stream of Claude Code\<close>

definition limited :: "agent_options \<Rightarrow> StreamEvent \<Rightarrow> StreamEvent" where
  "limited cfg ev =
     (if se_Type ev = EventToolResult
      then ev\<lparr>se_Content := TruncateToolResult (se_Content ev) (ao_MaxToolResultBytes cfg)\<rparr> else ev)"

definition line_events :: "json_lib \<Rightarrow> out_line \<Rightarrow> StreamEvent list" where
  "line_events lib l = (case l of Stdout x \<Rightarrow> ParseJSONLinesEvents lib x | Stderr _ \<Rightarrow> [])"

definition line_stderr :: "out_line \<Rightarrow> string" where
  "line_stderr l = (case l of Stdout _ \<Rightarrow> [] | Stderr x \<Rightarrow> x @ [CHR 0x0A])"

lemma limited_type [simp]: "se_Type (limited cfg ev) = se_Type ev"
  by (simp add: limited_def)

lemma claude_events_live:
  "\<not> cd_returned s \<Longrightarrow> foldl (claude_event live cfg) s evs =
     s\<lparr>cd_events := cd_events s @ map (limited cfg) evs, cd_attempts := cd_attempts s + length evs,
       cd_resultEmitted := (cd_resultEmitted s \<or> EventResult \<in> se_Type ` set evs)\<rparr>"
  by (induction evs arbitrary: s) (simp_all add: claude_event_def claude_send_def limited_def live_def Let_def)

lemma claude_lines_live:
  "\<not> cd_returned s \<Longrightarrow> \<exists>n. foldl (claude_line live lib cfg) s ls =
     s\<lparr>cd_events := cd_events s @ map (limited cfg) (concat (map (line_events lib) ls)), cd_attempts := n,
       cd_stderr := cd_stderr s @ concat (map line_stderr ls),
       cd_resultEmitted := (cd_resultEmitted s \<or> EventResult \<in> se_Type ` set (concat (map (line_events lib) ls)))\<rparr>"
proof (induction ls arbitrary: s)
  case Nil
  then show ?case by (intro exI [of _ "cd_attempts s"]) simp
next
  case (Cons l ls)
  let ?s = "claude_line live lib cfg s l"
  have s: "\<exists>n. ?s = s\<lparr>cd_events := cd_events s @ map (limited cfg) (line_events lib l), cd_attempts := n,
       cd_stderr := cd_stderr s @ line_stderr l,
       cd_resultEmitted := (cd_resultEmitted s \<or> EventResult \<in> se_Type ` set (line_events lib l))\<rparr>"
    using Cons.prems claude_events_live [of s cfg "line_events lib l"]
    by (cases l) (auto simp: claude_line_def line_events_def line_stderr_def intro: exI [of _ "cd_attempts s"])
  with Cons.prems have "\<not> cd_returned ?s" by auto
  from Cons.IH [OF this] s show ?case by (auto simp: image_Un disj_assoc)
qed


end
