(* ===== verification/Agent_Tools.thy ===== *)
theory Agent_Tools
  imports Guardrail
begin

text \<open>
  The tools of the built-in agent (\<open>wayfinder/tools/\<close>): reading, writing, listing and editing files,
  searching, running, starting and killing processes and asking the user, with the registry that
  holds them. The operating system is a parameter, a record of the calls the tools make on an
  abstract world; every call is also recorded in a trace, so that what a tool may touch can be
  stated. Error values keep their parts; their text is only rendered by the caller.

  Symbolic links are the world's business: the guard is lexical, so a link inside the working
  directory leads where it points, and confinement is about the paths that the tools hand over.
\<close>

section \<open>The operating system\<close>

datatype os_call =
    CallRead string
  | CallWrite string string
  | CallMkdir string
  | CallReadDir string
  | CallWalk string
  | CallRun string string int
  | CallStart string string
  | CallKill int

record dir_entry =
  de_Name :: string
  de_IsDir :: bool
  de_Size :: int

record run_result =
  rr_Stdout :: string
  rr_Stderr :: string
  rr_TimedOut :: bool
  rr_Err :: "string option"

datatype kill_result = Killed | NoProcess string | KillFailed string

text \<open>
  \<open>os_Walk\<close> lists what \<open>filepath.Walk\<close> visits: a path with its entry, or without one when it could
  not be examined. \<open>os_Match\<close> is \<open>filepath.Match\<close>; \<open>os_Float\<close> says of a JSON number, as a \<open>float64\<close>,
  whether it is positive and what it is cut to as an integer; \<open>os_Atoi\<close> is \<open>strconv.Atoi\<close>.
\<close>

record 'w os =
  os_ReadFile :: "'w \<Rightarrow> string \<Rightarrow> (string, string) result"
  os_WriteFile :: "'w \<Rightarrow> string \<Rightarrow> string \<Rightarrow> 'w \<times> string option"
  os_MkdirAll :: "'w \<Rightarrow> string \<Rightarrow> 'w \<times> string option"
  os_ReadDir :: "'w \<Rightarrow> string \<Rightarrow> (string, dir_entry list) result"
  os_Walk :: "'w \<Rightarrow> string \<Rightarrow> (string \<times> dir_entry option) list"
  os_Run :: "'w \<Rightarrow> string \<Rightarrow> string \<Rightarrow> int \<Rightarrow> 'w \<times> run_result"
  os_Start :: "'w \<Rightarrow> string \<Rightarrow> string \<Rightarrow> 'w \<times> (string, int) result"
  os_Kill :: "'w \<Rightarrow> int \<Rightarrow> 'w \<times> kill_result"
  os_Match :: "string \<Rightarrow> string \<Rightarrow> bool"
  os_Float :: "string \<Rightarrow> bool \<times> int"
  os_Atoi :: "string \<Rightarrow> int option"

record 'w tool_state =
  ts_world :: 'w
  ts_tracker :: FileTracker
  ts_trace :: "os_call list"

datatype tool_error =
    Required string string
  | Guarded string guard_error
  | OsFailed string string
  | Blocked string string
  | TextNotFound string
  | TextNotUnique nat string
  | InvalidPid json
  | FeedbackRequired string "string list"

type_synonym tool_input = "(string \<times> json) list"
type_synonym 'w handler = "tool_input \<Rightarrow> 'w tool_state \<Rightarrow> 'w tool_state \<times> (string \<times> tool_error option)"

definition called :: "os_call \<Rightarrow> 'w tool_state \<Rightarrow> 'w tool_state" where
  "called c s = s\<lparr>ts_trace := ts_trace s @ [c]\<rparr>"

text \<open>\<open>input[name].(string)\<close> with the zero value on failure.\<close>

definition str_arg :: "string \<Rightarrow> tool_input \<Rightarrow> string" where
  "str_arg name input = (case map_of input name of Some (JStr s) \<Rightarrow> s | _ \<Rightarrow> [])"

definition fails :: "tool_error \<Rightarrow> 'w tool_state \<Rightarrow> 'w tool_state \<times> (string \<times> tool_error option)" where
  "fails e s = (s, ([], Some e))"

definition returns :: "string \<Rightarrow> 'w tool_state \<Rightarrow> 'w tool_state \<times> (string \<times> tool_error option)" where
  "returns r s = (s, (r, None))"

section \<open>File tools\<close>

definition read_file :: "'w os \<Rightarrow> string \<Rightarrow> 'w handler" where
  "read_file os workDir input s =
     (let path = str_arg ''path'' input
      in if path = [] then fails (Required ''read_file'' ''path'') s
         else case ValidatePath workDir path of
           Inl e \<Rightarrow> fails (Guarded ''read_file'' e) s
         | Inr absPath \<Rightarrow>
             (case os_ReadFile os (ts_world s) absPath of
                Inl e \<Rightarrow> fails (OsFailed ''read_file'' e) (called (CallRead absPath) s)
              | Inr data \<Rightarrow> returns data (called (CallRead absPath) s)))"

definition filepath_Dir :: "string \<Rightarrow> string" where
  "filepath_Dir p = filepath_Clean (case strLastIndex p ''/'' of None \<Rightarrow> [] | Some i \<Rightarrow> take (Suc i) p)"

definition do_mkdir :: "'w os \<Rightarrow> string \<Rightarrow> 'w tool_state \<Rightarrow> 'w tool_state \<times> string option" where
  "do_mkdir os p s = (case os_MkdirAll os (ts_world s) p of (w, e) \<Rightarrow> (called (CallMkdir p) s\<lparr>ts_world := w\<rparr>, e))"

definition do_write :: "'w os \<Rightarrow> string \<Rightarrow> string \<Rightarrow> 'w tool_state \<Rightarrow> 'w tool_state \<times> string option" where
  "do_write os p c s = (case os_WriteFile os (ts_world s) p c of (w, e) \<Rightarrow> (called (CallWrite p c) s\<lparr>ts_world := w\<rparr>, e))"

definition track :: "string \<Rightarrow> 'w tool_state \<Rightarrow> 'w tool_state" where
  "track p s = s\<lparr>ts_tracker := TrackFile (ts_tracker s) p\<rparr>"

definition write_file :: "'w os \<Rightarrow> string \<Rightarrow> 'w handler" where
  "write_file os workDir input s =
     (let path = str_arg ''path'' input; content = str_arg ''content'' input
      in if path = [] then fails (Required ''write_file'' ''path'') s
         else case ValidatePath workDir path of
           Inl e \<Rightarrow> fails (Guarded ''write_file'' e) s
         | Inr absPath \<Rightarrow>
             (case do_mkdir os (filepath_Dir absPath) s of
                (s, Some e) \<Rightarrow> fails (OsFailed ''write_file'' e) s
              | (s, None) \<Rightarrow>
                  (case do_write os absPath content s of
                     (s, Some e) \<Rightarrow> fails (OsFailed ''write_file'' e) s
                   | (s, None) \<Rightarrow>
                       returns (''File written: '' @ absPath @ '' ('' @ Itoa (int (length content)) @ '' bytes)'')
                         (track absPath s))))"

definition entry_line :: "dir_entry \<Rightarrow> string" where
  "entry_line e = de_Name e @ [CHR 0x09] @ (if de_IsDir e then ''dir'' else ''file'') @ [CHR 0x09] @ Itoa (de_Size e)
     @ [CHR 0x0A]"

definition list_directory :: "'w os \<Rightarrow> string \<Rightarrow> 'w handler" where
  "list_directory os workDir input s =
     (let path = str_arg ''path'' input; path = (if path = [] then ''.'' else path)
      in case ValidatePath workDir path of
           Inl e \<Rightarrow> fails (Guarded ''list_directory'' e) s
         | Inr absPath \<Rightarrow>
             (case os_ReadDir os (ts_world s) absPath of
                Inl e \<Rightarrow> fails (OsFailed ''list_directory'' e) (called (CallReadDir absPath) s)
              | Inr entries \<Rightarrow> returns (concat (map entry_line entries)) (called (CallReadDir absPath) s)))"

definition create_directory :: "'w os \<Rightarrow> string \<Rightarrow> 'w handler" where
  "create_directory os workDir input s =
     (let path = str_arg ''path'' input
      in if path = [] then fails (Required ''create_directory'' ''path'') s
         else case ValidatePath workDir path of
           Inl e \<Rightarrow> fails (Guarded ''create_directory'' e) s
         | Inr absPath \<Rightarrow>
             (case do_mkdir os absPath s of
                (s, Some e) \<Rightarrow> fails (OsFailed ''create_directory'' e) s
              | (s, None) \<Rightarrow> returns (''Directory created: '' @ absPath) (track absPath s)))"

text \<open>\<open>strings.Count\<close> for a non-empty substring counts occurrences that do not overlap.\<close>

function countOccurrences :: "string \<Rightarrow> string \<Rightarrow> nat" where
  "countOccurrences s sub =
     (if sub = [] then 0
      else case strIndex s sub of None \<Rightarrow> 0 | Some i \<Rightarrow> Suc (countOccurrences (drop (i + length sub) s) sub))"
  by pat_completeness auto
termination
proof (relation "measure (\<lambda>(s, sub). length s)", simp)
  fix s sub :: string and i
  assume "sub \<noteq> []" "strIndex s sub = Some i"
  then have "\<exists>a b. s = a @ sub @ b" using strIndex_None_iff [of s sub] by auto
  with \<open>sub \<noteq> []\<close> show "((drop (i + length sub) s, sub), (s, sub)) \<in> measure (\<lambda>(s, sub). length s)"
    by (cases s; cases sub) auto
qed

declare countOccurrences.simps [simp del]

definition replaceFirst :: "string \<Rightarrow> string \<Rightarrow> string \<Rightarrow> string" where
  "replaceFirst s old new =
     (case strIndex s old of None \<Rightarrow> s | Some idx \<Rightarrow> take idx s @ new @ drop (idx + length old) s)"

definition edit_file :: "'w os \<Rightarrow> string \<Rightarrow> 'w handler" where
  "edit_file os workDir input s =
     (let path = str_arg ''path'' input; oldText = str_arg ''old_text'' input; newText = str_arg ''new_text'' input
      in if path = [] then fails (Required ''edit_file'' ''path'') s
         else if oldText = [] then fails (Required ''edit_file'' ''old_text'') s
         else case ValidatePath workDir path of
           Inl e \<Rightarrow> fails (Guarded ''edit_file'' e) s
         | Inr absPath \<Rightarrow>
             (let s = called (CallRead absPath) s
              in case os_ReadFile os (ts_world s) absPath of
                   Inl e \<Rightarrow> fails (OsFailed ''edit_file'' e) s
                 | Inr content \<Rightarrow>
                     (let count = countOccurrences content oldText
                      in if count = 0 then fails (TextNotFound path) s
                         else if 1 < count then fails (TextNotUnique count path) s
                         else case do_write os absPath (replaceFirst content oldText newText) s of
                                (s, Some e) \<Rightarrow> fails (OsFailed ''edit_file'' e) s
                              | (s, None) \<Rightarrow> returns (''File edited: '' @ absPath) s)))"

section \<open>Searching\<close>

definition rel_or_empty :: "string \<Rightarrow> string \<Rightarrow> string" where
  "rel_or_empty workDir p = (case filepath_Rel workDir p of None \<Rightarrow> [] | Some r \<Rightarrow> r)"

definition search_files :: "'w os \<Rightarrow> string \<Rightarrow> 'w handler" where
  "search_files os workDir input s =
     (let pattern = str_arg ''pattern'' input; searchPath = str_arg ''path'' input
      in if pattern = [] then fails (Required ''search_files'' ''pattern'') s
         else case ValidatePath workDir (if searchPath = [] then ''.'' else searchPath) of
           Inl e \<Rightarrow> fails (Guarded ''search_files'' e) s
         | Inr absPath \<Rightarrow>
             (let matches = List.map_filter
                    (\<lambda>(p, info). case info of
                       None \<Rightarrow> None
                     | Some e \<Rightarrow> if \<not> de_IsDir e \<and> os_Match os pattern (de_Name e) then Some (rel_or_empty workDir p) else None)
                    (os_Walk os (ts_world s) absPath)
              in returns (if matches = [] then ''No files found matching pattern: '' @ pattern
                          else Join matches [CHR 0x0A])
                   (called (CallWalk absPath) s)))"

definition grep_lines :: "string \<Rightarrow> string \<Rightarrow> string \<Rightarrow> string list" where
  "grep_lines pattern rel content =
     List.map_filter (\<lambda>(i, line). if Contains line pattern
         then Some (rel @ '':'' @ Itoa (int (Suc i)) @ '':'' @ line) else None)
       (enumerate 0 (SplitByte (CHR 0x0A) content))"

text \<open>The callback of \<open>grep_files\<close> on one visited path: files of at most a mebibyte are read.\<close>

definition grep_visit ::
  "'w os \<Rightarrow> string \<Rightarrow> string \<Rightarrow> 'w tool_state \<times> string list \<Rightarrow> string \<times> dir_entry option \<Rightarrow> 'w tool_state \<times> string list" where
  "grep_visit os workDir pattern acc v =
     (case (acc, v) of
        ((s, results), (p, None)) \<Rightarrow> (s, results)
      | ((s, results), (p, Some e)) \<Rightarrow>
          if de_IsDir e \<or> 2 ^ 20 < de_Size e then (s, results)
          else (let s = called (CallRead p) s
                in case os_ReadFile os (ts_world s) p of
                     Inl _ \<Rightarrow> (s, results)
                   | Inr content \<Rightarrow> (s, results @ grep_lines pattern (rel_or_empty workDir p) content)))"

definition grep_files :: "'w os \<Rightarrow> string \<Rightarrow> 'w handler" where
  "grep_files os workDir input s =
     (let pattern = str_arg ''pattern'' input; searchPath = str_arg ''path'' input
      in if pattern = [] then fails (Required ''grep_files'' ''pattern'') s
         else case ValidatePath workDir (if searchPath = [] then ''.'' else searchPath) of
           Inl e \<Rightarrow> fails (Guarded ''grep_files'' e) s
         | Inr absPath \<Rightarrow>
             (case foldl (grep_visit os workDir pattern) (called (CallWalk absPath) s, []) (os_Walk os (ts_world s) absPath) of
                (s, results) \<Rightarrow>
                  returns (if results = [] then ''No matches found for pattern: '' @ pattern
                           else Join (if 50 < length results
                                      then take 50 results @ [''... (results truncated at 50 matches)''] else results)
                                  [CHR 0x0A]) s))"

section \<open>Processes and questions\<close>

definition nl :: string where
  "nl = [CHR 0x0A]"

definition truncate_output :: "string \<Rightarrow> string" where
  "truncate_output result =
     (if 100000 < length result then take 100000 result @ nl @ ''... (output truncated)'' else result)"

definition execute_command :: "'w os \<Rightarrow> string \<Rightarrow> 'w handler" where
  "execute_command os workDir input s =
     (let commandLine = str_arg ''command'' input
      in if commandLine = [] then fails (Required ''execute_command'' ''command'') s
         else if IsBlockedCommand commandLine then fails (Blocked ''execute_command'' commandLine) s
         else
           let timeout = (case map_of input ''timeout_seconds'' of
                            Some (JNum n) \<Rightarrow> if fst (os_Float os n) then snd (os_Float os n) else 120
                          | _ \<Rightarrow> 120);
               (w, r) = os_Run os (ts_world s) workDir commandLine timeout;
               result = rr_Stdout r @ (if rr_Stderr r \<noteq> [] then nl @ ''STDERR:'' @ nl @ rr_Stderr r else []);
               result = result @ (if rr_TimedOut r then nl @ ''Command timed out after '' @ Itoa timeout @ '' seconds''
                                  else case rr_Err r of None \<Rightarrow> [] | Some e \<Rightarrow> nl @ ''Exit error: '' @ e)
           in returns (truncate_output result) (called (CallRun workDir commandLine timeout) s\<lparr>ts_world := w\<rparr>))"

definition status_json :: "(string \<times> json) list \<Rightarrow> string" where
  "status_json kvs = (case Marshal (JObj kvs) of None \<Rightarrow> [] | Some t \<Rightarrow> t)"

definition run_background_process :: "'w os \<Rightarrow> string \<Rightarrow> 'w handler" where
  "run_background_process os workDir input s =
     (let command = str_arg ''command'' input
      in if command = [] then fails (Required ''run_background_process'' ''command'') s
         else if IsBlockedCommand command then fails (Blocked ''run_background_process'' command) s
         else case os_Start os (ts_world s) workDir command of
           (w, Inl e) \<Rightarrow> fails (OsFailed ''run_background_process'' e) (called (CallStart workDir command) s\<lparr>ts_world := w\<rparr>)
         | (w, Inr pid) \<Rightarrow>
             (let s = called (CallStart workDir command) s\<lparr>ts_world := w\<rparr>
              in returns (status_json [(''command'', JStr command), (''pid'', JNum (Itoa pid)), (''status'', JStr ''started'')])
                   (s\<lparr>ts_tracker := TrackProcess (ts_tracker s) pid command\<rparr>)))"

definition already_gone :: "string \<Rightarrow> bool" where
  "already_gone e \<longleftrightarrow> Contains e ''process already finished'' \<or> Contains e ''no such process'' \<or>
     Contains e ''Access is denied''"

definition kill_process :: "'w os \<Rightarrow> 'w handler" where
  "kill_process os input s =
     (case map_of input ''pid'' of
        None \<Rightarrow> fails (Required ''kill_process'' ''pid'') s
      | Some j \<Rightarrow>
          (case (case j of JNum n \<Rightarrow> Some (snd (os_Float os n)) | JStr t \<Rightarrow> os_Atoi os t | _ \<Rightarrow> None) of
             None \<Rightarrow> fails (InvalidPid j) s
           | Some pid \<Rightarrow>
               (case os_Kill os (ts_world s) pid of
                  (w, r) \<Rightarrow>
                    (let s = called (CallKill pid) s\<lparr>ts_world := w\<rparr>;
                         untracked = s\<lparr>ts_tracker := UntrackProcess (ts_tracker s) pid\<rparr>
                     in case r of
                          NoProcess e \<Rightarrow> fails (OsFailed ''kill_process'' e) s
                        | KillFailed e \<Rightarrow>
                            if already_gone e
                            then returns (status_json [(''pid'', JNum (Itoa pid)), (''status'', JStr ''already_terminated'')]) untracked
                            else fails (OsFailed ''kill_process'' e) s
                        | Killed \<Rightarrow> returns (status_json [(''pid'', JNum (Itoa pid)), (''status'', JStr ''killed'')]) untracked))))"

definition parseChoices :: "tool_input \<Rightarrow> string list" where
  "parseChoices input =
     (case map_of input ''choices'' of
        Some (JArr js) \<Rightarrow> List.map_filter (\<lambda>j. case j of JStr s \<Rightarrow> Some s | _ \<Rightarrow> None) js
      | _ \<Rightarrow> [])"

definition ask_user :: "'w handler" where
  "ask_user input s =
     (let prompt = str_arg ''prompt'' input
      in if prompt = [] then fails (Required ''ask_user'' ''prompt'') s
         else (s, (''[WAITING FOR USER] '' @ prompt, Some (FeedbackRequired prompt (parseChoices input)))))"

section \<open>The registry\<close>

type_synonym 'h registry = "(string \<times> 'h) list"

definition Tools_Register :: "'h registry \<Rightarrow> string \<Rightarrow> 'h \<Rightarrow> 'h registry" where
  "Tools_Register r name h = massign name h r"

definition Tools_Get :: "'h registry \<Rightarrow> string \<Rightarrow> 'h option" where
  "Tools_Get r name = map_of r name"

definition RegisterAllTools :: "'w os \<Rightarrow> string \<Rightarrow> 'w handler registry" where
  "RegisterAllTools os workDir =
     foldl (\<lambda>r (name, h). Tools_Register r name h) []
       [(''read_file'', read_file os workDir), (''write_file'', write_file os workDir),
        (''list_directory'', list_directory os workDir), (''create_directory'', create_directory os workDir),
        (''edit_file'', edit_file os workDir), (''search_files'', search_files os workDir),
        (''grep_files'', grep_files os workDir), (''execute_command'', execute_command os workDir),
        (''run_background_process'', run_background_process os workDir), (''kill_process'', kill_process os),
        (''ask_user'', ask_user)]"

section \<open>Confinement\<close>

text \<open>
  What a call may touch: paths inside the working directory (and, for the parent of a file that is
  written, at most the directory above it), commands that are not blocked and run there.
\<close>

definition above :: "string \<Rightarrow> string \<Rightarrow> bool" where
  "above workDir p \<longleftrightarrow> IsAbs p \<and> snd (clean_path p) = butlast (snd (clean_path workDir))"

fun confined :: "string \<Rightarrow> os_call \<Rightarrow> bool" where
  "confined workDir (CallRead p) = inside workDir p"
| "confined workDir (CallWrite p _) = inside workDir p"
| "confined workDir (CallMkdir p) = (inside workDir p \<or> above workDir p)"
| "confined workDir (CallReadDir p) = inside workDir p"
| "confined workDir (CallWalk p) = inside workDir p"
| "confined workDir (CallRun d cmd _) = (d = workDir \<and> \<not> IsBlockedCommand cmd)"
| "confined workDir (CallStart d cmd) = (d = workDir \<and> \<not> IsBlockedCommand cmd)"
| "confined workDir (CallKill _) = True"

definition makes :: "(os_call \<Rightarrow> bool) \<Rightarrow> 'w tool_state \<Rightarrow> 'w tool_state \<Rightarrow> bool" where
  "makes P s s' \<longleftrightarrow> (\<exists>cs. ts_trace s' = ts_trace s @ cs \<and> list_all P cs)"

named_theorems makes_simps

lemma makes_refl [makes_simps]: "makes P s s"
  by (simp add: makes_def)

lemma makes_called [makes_simps]: "makes P s s' \<Longrightarrow> P c \<Longrightarrow> makes P s (called c s')"
  by (auto simp: makes_def called_def)

lemma makes_updates [makes_simps]:
  "makes P s (s'\<lparr>ts_world := w\<rparr>) = makes P s s'" "makes P s (s'\<lparr>ts_tracker := t\<rparr>) = makes P s s'"
  "makes P s (track p s') = makes P s s'"
  by (simp_all add: makes_def track_def)

lemma makes_do [makes_simps]:
  "makes P s s' \<Longrightarrow> P (CallMkdir p) \<Longrightarrow> makes P s (fst (do_mkdir os p s'))"
  "makes P s s' \<Longrightarrow> P (CallWrite p c) \<Longrightarrow> makes P s (fst (do_write os p c s'))"
  by (simp_all add: do_mkdir_def do_write_def case_prod_unfold makes_simps)

lemma fst_outcome [simp]: "fst (fails e s) = s" "fst (returns r s) = s"
  by (simp_all add: fails_def returns_def)

text \<open>The directory of a cleaned absolute path.\<close>

lemma Join_snoc: "ds \<noteq> [] \<Longrightarrow> Join (ds @ [d]) sep = Join ds sep @ sep @ d"
proof (induction ds sep rule: Join.induct)
  case (3 x y xs sep)
  then show ?case by simp
qed simp_all

lemma strIndex_char: "c \<notin> set xs \<Longrightarrow> strIndex (xs @ c # ys) [c] = Some (length xs)"
  by (induction xs) auto

lemma strLastIndex_slash:
  "CHR ''/'' \<notin> set d \<Longrightarrow> strLastIndex (a @ CHR ''/'' # d) ''/'' = Some (length a)"
  using strIndex_char [of "CHR ''/''" "rev d" "rev a"] by (simp add: strLastIndex_def)

lemma clean_comps_blank: "list_all plain_comp cs \<Longrightarrow> clean_comps r out (cs @ [[]]) = rev out @ cs"
  by (induction cs arbitrary: out) (auto simp: plain_comp_def real_comp_def)

lemma clean_path_slash:
  assumes "list_all plain_comp cs"
  shows "clean_path (show_path (True, cs) @ ''/'') = (True, cs)"
proof -
  have "SplitByte (CHR ''/'') (show_path (True, cs) @ ''/'') = [] # (if cs = [] then [[]] else cs) @ [[]]"
    using assms SplitByte_Join [of "CHR ''/''" cs] SplitByte_append [of "CHR ''/''" "Join cs ''/''" "[]"]
    by (auto simp: show_path_def list_all_iff plain_comp_def real_comp_def)
  then have "clean_comps True [] (SplitByte (CHR ''/'') (show_path (True, cs) @ ''/'')) = cs"
    using clean_comps_blank [OF assms, of True "[]"] by auto
  moreover have "IsAbs (show_path (True, cs) @ ''/'')" by (simp add: IsAbs_def show_path_def)
  ultimately show ?thesis by (simp add: clean_path_def)
qed

lemma clean_path_Dir:
  assumes "list_all plain_comp cs"
  shows "clean_path (filepath_Dir (show_path (True, cs))) = (True, butlast cs)"
proof (cases cs rule: rev_cases)
  case Nil
  then show ?thesis
    using clean_path_show [of "[]"]
    by (simp add: filepath_Dir_def show_path_def strLastIndex_def filepath_Clean_def clean_path_def IsAbs_def)
next
  case (snoc ds d)
  let ?a = "if ds = [] then [] else show_path (True, ds)"
  have slash: "CHR ''/'' \<notin> set d" and ds: "list_all plain_comp ds"
    using assms snoc by (auto simp: plain_comp_def real_comp_def)
  have p: "show_path (True, cs) = ?a @ CHR ''/'' # d"
    using snoc Join_snoc [of ds d "''/''"] by (auto simp: show_path_def)
  then have "filepath_Dir (show_path (True, cs)) = filepath_Clean (?a @ ''/'')"
    using strLastIndex_slash [OF slash, of ?a] by (simp add: filepath_Dir_def)
  moreover have c: "clean_path (?a @ ''/'') = (True, ds)"
    using clean_path_slash [OF ds] clean_path_show [of "[]"] by (auto simp: show_path_def)
  ultimately have "filepath_Dir (show_path (True, cs)) = show_path (True, ds)" by (simp add: filepath_Clean_def)
  then show ?thesis using clean_path_show [OF ds] snoc by simp
qed

lemma IsAbs_clean_path: "fst (clean_path s) = IsAbs s"
  by (simp add: clean_path_def)

lemma inside_Dir:
  assumes "IsAbs workDir" "IsAbs s" "inside workDir (filepath_Clean s)"
  shows "inside workDir (filepath_Dir (filepath_Clean s)) \<or> above workDir (filepath_Dir (filepath_Clean s))"
proof -
  obtain cs where cs: "clean_path s = (True, cs)" using assms(2) by (simp add: clean_path_def)
  have plain: "list_all plain_comp cs" using clean_path_plain [OF assms(2)] cs by simp
  have dir: "clean_path (filepath_Dir (filepath_Clean s)) = (True, butlast cs)"
    using clean_path_Dir [OF plain] cs by (simp add: filepath_Clean_def)
  then have "IsAbs (filepath_Dir (filepath_Clean s))" using IsAbs_clean_path by (metis fst_conv)
  moreover have "prefix (snd (clean_path workDir)) cs"
    using assms(3) clean_path_Clean [OF assms(2)] cs by (simp add: inside_def)
  then have "prefix (snd (clean_path workDir)) (butlast cs) \<or> snd (clean_path workDir) = cs"
    by (cases cs rule: rev_cases) (auto simp: prefix_snoc)
  ultimately show ?thesis using dir by (auto simp: inside_def above_def)
qed

text \<open>What the guard hands over is a cleaned absolute path inside the working directory.\<close>

lemma guard_inside:
  assumes "IsAbs workDir" "ValidatePath workDir raw = Inr p"
  shows "inside workDir p \<and> (inside workDir (filepath_Dir p) \<or> above workDir (filepath_Dir p))"
proof -
  let ?s = "if IsAbs raw then raw else filepath_Join workDir raw"
  have p: "p = filepath_Clean ?s"
    using assms(2) by (auto simp: ValidatePath_def Let_def split: option.splits if_splits)
  have "IsAbs ?s"
    using assms(1) Clean_Join by simp
  moreover have "inside workDir p" by (rule ValidatePath_inside [OF assms])
  ultimately show ?thesis using inside_Dir [OF assms(1)] p by blast
qed

definition walks_inside :: "'w os \<Rightarrow> bool" where
  "walks_inside os \<longleftrightarrow> (\<forall>w p q e. (q, e) \<in> set (os_Walk os w p) \<longrightarrow> inside p q)"

lemma inside_trans: "inside a b \<Longrightarrow> inside b c \<Longrightarrow> inside a c"
  by (auto simp: inside_def intro: prefix_order.order_trans)

lemma file_tools_confined:
  assumes "IsAbs workDir"
  shows "makes (confined workDir) s (fst (read_file os workDir input s))"
    "makes (confined workDir) s (fst (write_file os workDir input s))"
    "makes (confined workDir) s (fst (list_directory os workDir input s))"
    "makes (confined workDir) s (fst (create_directory os workDir input s))"
    "makes (confined workDir) s (fst (edit_file os workDir input s))"
    "makes (confined workDir) s (fst (search_files os workDir input s))"
proof -
  note g = guard_inside [OF assms]
  show "makes (confined workDir) s (fst (read_file os workDir input s))"
    using g by (auto simp: read_file_def Let_def makes_simps split: sum.split)
  have "makes (confined workDir) s (fst (do_write os p c (fst (do_mkdir os (filepath_Dir p) s))))"
    "makes (confined workDir) s (fst (do_mkdir os (filepath_Dir p) s))" if "ValidatePath workDir raw = Inr p" for p raw c
    using g [OF that] by (auto simp: makes_simps)
  then show "makes (confined workDir) s (fst (write_file os workDir input s))"
    by (auto simp: write_file_def Let_def case_prod_unfold makes_simps split: sum.split option.split)
  show "makes (confined workDir) s (fst (list_directory os workDir input s))"
    using g by (auto simp: list_directory_def Let_def makes_simps split: sum.split)
  show "makes (confined workDir) s (fst (create_directory os workDir input s))"
    using g by (auto simp: create_directory_def Let_def case_prod_unfold makes_simps
        split: sum.split option.split)
  show "makes (confined workDir) s (fst (edit_file os workDir input s))"
    using g by (auto simp: edit_file_def Let_def case_prod_unfold makes_simps split: sum.split option.split)
  show "makes (confined workDir) s (fst (search_files os workDir input s))"
    using g by (auto simp: search_files_def Let_def makes_simps split: sum.split)
qed

lemma grep_visits_confined:
  assumes "\<forall>(q, e) \<in> set vs. inside workDir q" "makes (confined workDir) s (fst acc)"
  shows "makes (confined workDir) s (fst (foldl (grep_visit os workDir pattern) acc vs))"
  using assms
proof (induction vs arbitrary: acc)
  case (Cons v vs)
  have "makes (confined workDir) s (fst (grep_visit os workDir pattern acc v))"
    using Cons.prems by (cases acc; cases v; cases "snd v")
      (auto simp: grep_visit_def Let_def makes_simps split: sum.split)
  with Cons show ?case by simp
qed simp

lemma grep_confined:
  assumes "IsAbs workDir" "walks_inside os"
  shows "makes (confined workDir) s (fst (grep_files os workDir input s))"
proof -
  have "makes (confined workDir) s (fst (foldl (grep_visit os workDir pattern) (called (CallWalk p) s, [])
      (os_Walk os (ts_world s) p)))" if "ValidatePath workDir raw = Inr p" for p raw pattern
    using guard_inside [OF assms(1) that] assms(2) inside_trans
    by (intro grep_visits_confined) (auto simp: walks_inside_def makes_simps, blast+)
  then show ?thesis
    by (auto simp: grep_files_def Let_def case_prod_unfold makes_simps split: sum.split)
qed

lemma process_tools_confined:
  "makes (confined workDir) s (fst (execute_command os workDir input s))"
  "makes (confined workDir) s (fst (run_background_process os workDir input s))"
  "makes (confined workDir) s (fst (kill_process os input s))"
  "makes (confined workDir) s (fst (ask_user input s))"
proof -
  show "makes (confined workDir) s (fst (execute_command os workDir input s))"
    by (simp add: execute_command_def Let_def case_prod_unfold makes_simps)
  show "makes (confined workDir) s (fst (run_background_process os workDir input s))"
    by (auto simp: run_background_process_def Let_def makes_simps split: prod.split sum.split)
  show "makes (confined workDir) s (fst (kill_process os input s))"
    by (auto simp: kill_process_def Let_def makes_simps
        split: option.split prod.split kill_result.split json.split)
  show "makes (confined workDir) s (fst (ask_user input s))"
    by (simp add: ask_user_def Let_def makes_simps)
qed

lemma registered_confined:
  assumes "IsAbs workDir" "walks_inside os" "Tools_Get (RegisterAllTools os workDir) name = Some h"
  shows "makes (confined workDir) s (fst (h input s))"
  using assms(3) file_tools_confined [OF assms(1)] grep_confined [OF assms(1,2)] process_tools_confined
  by (auto simp: RegisterAllTools_def Tools_Register_def Tools_Get_def split: if_splits)

text \<open>
  The tools stay in the working directory: whatever arguments the model invents, every path that
  any registered tool hands to the operating system is inside the working directory (creating the
  parent of a written file may name the directory above it), and every command it runs is run there
  and is not on the block list. Walking a directory is assumed to visit only what is below it.
\<close>

theorem tools_confined:
  assumes "IsAbs workDir" "walks_inside os"
    and "Tools_Get (RegisterAllTools os workDir) name = Some h" "h input s = (s', r)"
  shows "\<exists>cs. ts_trace s' = ts_trace s @ cs \<and> list_all (confined workDir) cs"
  using registered_confined [OF assms(1-3)] assms(4) by (metis makes_def fst_conv)

definition sample_os :: "unit os" where
  "sample_os = \<lparr>os_ReadFile = (\<lambda>_ _. Inr ''aaa''), os_WriteFile = (\<lambda>w _ _. (w, None)), os_MkdirAll = (\<lambda>w _. (w, None)),
     os_ReadDir = (\<lambda>_ _. Inr []), os_Walk = (\<lambda>_ _. []), os_Run = (\<lambda>w _ _ _. (w, \<lparr>rr_Stdout = [], rr_Stderr = [], rr_TimedOut = False, rr_Err = None\<rparr>)),
     os_Start = (\<lambda>w _ _. (w, Inr 7)), os_Kill = (\<lambda>w _. (w, Killed)), os_Match = (\<lambda>_ _. False),
     os_Float = (\<lambda>_. (False, 0)), os_Atoi = (\<lambda>_. None)\<rparr>"

definition sample_state :: "unit tool_state" where
  "sample_state = \<lparr>ts_world = (), ts_tracker = NewFileTracker, ts_trace = []\<rparr>"

theorem tools_confined_witness:
  "\<exists>cs. ts_trace (fst (read_file sample_os ''/w'' [(''path'', JStr ''../etc/passwd'')] sample_state)) = cs \<and>
     list_all (confined ''/w'') cs"
proof -
  let ?r = "read_file sample_os ''/w'' [(''path'', JStr ''../etc/passwd'')] sample_state"
  have "Tools_Get (RegisterAllTools sample_os ''/w'') ''read_file'' = Some (read_file sample_os ''/w'')"
    by (simp add: RegisterAllTools_def Tools_Register_def Tools_Get_def)
  moreover have "walks_inside sample_os" by (simp add: walks_inside_def sample_os_def)
  ultimately show ?thesis
    using tools_confined [of "''/w''" sample_os "''read_file''" "read_file sample_os ''/w''"
        "[(''path'', JStr ''../etc/passwd'')]" sample_state "fst ?r" "snd ?r"]
    by (simp add: IsAbs_def sample_state_def)
qed

section \<open>Editing\<close>

lemma countOccurrences_pos: "old \<noteq> [] \<Longrightarrow> 0 < countOccurrences s old \<Longrightarrow> strIndex s old \<noteq> None"
  by (subst (asm) countOccurrences.simps) (auto split: option.splits)

lemma strIndex_split: "strIndex s old = Some i \<Longrightarrow> s = take i s @ old @ drop (i + length old) s"
  using strIndex_Some [of s old i] by (metis append_take_drop_id drop_drop add.commute)

text \<open>
  An edit changes the file only when it succeeds: then the file had the old text, and what is
  written is the same text with that one occurrence replaced; every error but that of the write
  itself leaves the file system alone, and nothing but the named file is read.
\<close>

theorem edit_file_replaces:
  assumes "edit_file os workDir input s = (s', (r, err))" "os_ReadFile os (ts_world s) p = Inr content"
    and "ValidatePath workDir (str_arg ''path'' input) = Inr p" "str_arg ''path'' input \<noteq> []" "str_arg ''old_text'' input \<noteq> []"
  shows "(err = None \<longrightarrow> (\<exists>a b. content = a @ str_arg ''old_text'' input @ b \<and>
      ts_trace s' = ts_trace s @ [CallRead p, CallWrite p (a @ str_arg ''new_text'' input @ b)])) \<and>
    (err \<noteq> None \<and> (\<forall>e. err \<noteq> Some (OsFailed ''edit_file'' e)) \<longrightarrow>
      ts_world s' = ts_world s \<and> ts_trace s' = ts_trace s @ [CallRead p])"
proof -
  let ?old = "str_arg ''old_text'' input" and ?new = "str_arg ''new_text'' input"
  let ?n = "countOccurrences content ?old" and ?s = "called (CallRead p) s"
  let ?w = "do_write os p (replaceFirst content ?old ?new) ?s"
  have run: "edit_file os workDir input s =
      (if ?n = 0 then fails (TextNotFound (str_arg ''path'' input)) ?s
       else if 1 < ?n then fails (TextNotUnique ?n (str_arg ''path'' input)) ?s
       else case ?w of (s, Some e) \<Rightarrow> fails (OsFailed ''edit_file'' e) s
                     | (s, None) \<Rightarrow> returns (''File edited: '' @ p) s)"
    using assms(2-5) by (simp add: edit_file_def called_def Let_def)
  show ?thesis
  proof (cases "?n = 1")
    case True
    then obtain i where i: "strIndex content ?old = Some i"
      using countOccurrences_pos [OF assms(5), of content] by auto
    define a b where "a = take i content" and "b = drop (i + length ?old) content"
    have c: "content = a @ ?old @ b" using strIndex_split [OF i] by (simp add: a_def b_def)
    have new: "replaceFirst content ?old ?new = a @ ?new @ b" by (simp add: replaceFirst_def i a_def b_def)
    obtain w e where w: "os_WriteFile os (ts_world s) p (a @ ?new @ b) = (w, e)" by fastforce
    with assms(1) run True new have "(s', r, err) = (case e of
        Some x \<Rightarrow> fails (OsFailed ''edit_file'' x) (called (CallWrite p (a @ ?new @ b)) ?s\<lparr>ts_world := w\<rparr>)
      | None \<Rightarrow> returns (''File edited: '' @ p) (called (CallWrite p (a @ ?new @ b)) ?s\<lparr>ts_world := w\<rparr>))"
      by (cases e) (simp_all add: do_write_def called_def)
    with c show ?thesis by (cases e) (auto simp: fails_def returns_def called_def)
  next
    case False
    with assms(1) run show ?thesis by (auto simp: fails_def called_def split: if_splits)
  qed
qed

theorem edit_file_replaces_witness:
  "ts_trace (fst (edit_file sample_os ''/w'' [(''path'', JStr ''f''), (''old_text'', JStr ''aa''), (''new_text'', JStr ''b'')] sample_state)) \<noteq> []"
proof -
  let ?in = "[(''path'', JStr ''f''), (''old_text'', JStr ''aa''), (''new_text'', JStr ''b'')]"
  let ?r = "edit_file sample_os ''/w'' ?in sample_state"
  have "ValidatePath ''/w'' (str_arg ''path'' ?in) = Inr ''/w/f''"
    by (simp add: str_arg_def ValidatePath_def IsAbs_def filepath_Join_def filepath_Clean_def clean_path_def show_path_def
        filepath_Rel_def Let_def)
  moreover have "os_ReadFile sample_os (ts_world sample_state) ''/w/f'' = Inr ''aaa''" by (simp add: sample_os_def)
  moreover have "?r = (fst ?r, (fst (snd ?r), snd (snd ?r)))" by simp
  moreover have "snd (snd ?r) = None"
    using calculation(1,2)
    by (simp add: edit_file_def str_arg_def called_def Let_def countOccurrences.simps do_write_def returns_def)
       (simp add: sample_os_def)
  ultimately show ?thesis
    using edit_file_replaces [of sample_os "''/w''" ?in sample_state "fst ?r" "fst (snd ?r)" "snd (snd ?r)" "''/w/f''" "''aaa''"]
    by (auto simp: str_arg_def)
qed

text \<open>
  The uniqueness check of an edit counts occurrences that do not overlap: a text that occurs at two
  places which overlap passes as unique, and the first of the two is replaced.
\<close>

theorem edit_overlap_passes:
  "countOccurrences ''aaa'' ''aa'' = 1 \<and> ''aaa'' = [] @ ''aa'' @ ''a'' \<and> ''aaa'' = ''a'' @ ''aa'' @ [] \<and>
   replaceFirst ''aaa'' ''aa'' ''b'' = ''ba''"
  by (simp add: countOccurrences.simps replaceFirst_def)

text \<open>
  Killing is not restricted to the agent's own processes: for every process id the kill reaches
  the operating system, whether or not the agent started that process.
\<close>

theorem kill_any_process:
  "ts_trace (fst (kill_process os [(''pid'', JNum n)] s)) = ts_trace s @ [CallKill (snd (os_Float os n))]"
  by (auto simp: kill_process_def called_def Let_def fails_def returns_def split: prod.split kill_result.split)

text \<open>
  The output of a command is bounded: whatever it prints, the tool result has at most 100000 bytes
  and the marker of the cut, and the command's own error is part of the result and never an error
  of the tool.
\<close>

theorem execute_command_bounded:
  assumes "str_arg ''command'' input \<noteq> []" "\<not> IsBlockedCommand (str_arg ''command'' input)"
  shows "length (fst (snd (execute_command os workDir input s))) \<le> 100023 \<and>
    snd (snd (execute_command os workDir input s)) = None"
proof -
  have "length (truncate_output r) \<le> 100023" for r by (simp add: truncate_output_def nl_def)
  with assms show ?thesis by (simp add: execute_command_def Let_def case_prod_unfold returns_def)
qed

theorem execute_command_bounded_witness:
  "snd (snd (execute_command sample_os ''/w'' [(''command'', JStr ''ls'')] sample_state)) = None"
proof -
  have "TrimSpace ''ls'' = ''ls''" by (rule TrimSpace_graph) (simp add: graph_char_def byte_def)
  then show ?thesis
    using execute_command_bounded [of "[(''command'', JStr ''ls'')]" sample_os "''/w''" sample_state]
    by (simp add: str_arg_def IsBlockedCommand_def blockedCommandPrefixes_def)
qed

end
