(* ===== verification/Agent_Core.thy ===== *)
theory Agent_Core
  imports Agent_Tools Stream_Events
begin

text \<open>
  The core of the built-in agent (\<open>wayfinder/agent_core.go\<close>, with the types of \<open>llm_client.go\<close>,
  \<open>config.go\<close> and \<open>emitter.go\<close>): the loop that asks the model, runs the tools it calls and feeds
  the results back, with its retries, its compaction of an overlong conversation, its suspension on a
  question to the user, and the saving and restoring of sessions.

  The model is a parameter: \<open>en_llm n\<close> answers the \<open>n\<close>-th request of a loop with the text pieces it
  streams and a response or an error, \<open>en_ask n\<close> the requests without tools that are made after
  \<open>n\<close> of them. So are the operating system, the file system faults and the clock (indexed by the
  number of store accesses) and the texts of tool errors. A sequence number is an unbounded integer.
\<close>

section \<open>Messages\<close>

record ToolCall =
  tl_ID :: string
  tl_Name :: string
  tl_Input :: tool_input

record ChatMessage =
  cm_Role :: string
  cm_Content :: string
  cm_ToolCalls :: "ToolCall list"
  cm_ToolCallID :: string
  cm_Seq :: int

record LLMResponse =
  lr_Content :: string
  lr_ToolCalls :: "ToolCall list"
  lr_StopReason :: string

definition chat :: "string \<Rightarrow> string \<Rightarrow> ChatMessage" where
  "chat role content = \<lparr>cm_Role = role, cm_Content = content, cm_ToolCalls = [], cm_ToolCallID = [], cm_Seq = 0\<rparr>"

definition convertToSessionMessages :: "go_time \<Rightarrow> ChatMessage list \<Rightarrow> Message list" where
  "convertToSessionMessages now msgs =
     map (\<lambda>m. \<lparr>m_Role = cm_Role m, m_Content = cm_Content m, m_ContentParts = [], m_Timestamp = Some now,
            m_Pinned = False, m_Seq = cm_Seq m,
            m_ToolCalls = map (\<lambda>tc. \<lparr>tc_ID = tl_ID tc, tc_Name = tl_Name tc, tc_Input = tl_Input tc\<rparr>) (cm_ToolCalls m),
            m_ToolCallID = cm_ToolCallID m, m_Origin = []\<rparr>) msgs"

definition convertFromSessionMessages :: "Message list \<Rightarrow> ChatMessage list" where
  "convertFromSessionMessages msgs =
     map (\<lambda>m. \<lparr>cm_Role = m_Role m, cm_Content = m_Content m,
            cm_ToolCalls = map (\<lambda>tc. \<lparr>tl_ID = tc_ID tc, tl_Name = tc_Name tc, tl_Input = tc_Input tc\<rparr>) (m_ToolCalls m),
            cm_ToolCallID = m_ToolCallID m, cm_Seq = m_Seq m\<rparr>) msgs"

section \<open>State\<close>

record CoreConfig =
  cf_WorkDir :: string
  cf_SessionDir :: string
  cf_LogicalModel :: string
  cf_AllowedPathPatterns :: "string list"
  cf_SystemPrompt :: string
  cf_EnableSubagent :: bool
  cf_StructuredOutput :: bool
  cf_CompactionRatio :: go_float

text \<open>
  \<open>InitConfig\<close>: \<open>getwd\<close> is the current directory (or its error), which \<open>filepath.Abs\<close> also asks for
  when the path is relative. A \<open>float64\<close> is its bits; zero has two, and one half is \<open>0x3FE0000000000000\<close>.
\<close>

definition float_half :: go_float where
  "float_half = 0x3FE0000000000000"

definition float_is_zero :: "go_float \<Rightarrow> bool" where
  "float_is_zero f \<longleftrightarrow> f = 0 \<or> f = 0x8000000000000000"

definition abs_path :: "(string, string) result \<Rightarrow> string \<Rightarrow> (string, string) result" where
  "abs_path getwd p =
     (if IsAbs p then Inr (filepath_Clean p) else bind_res getwd (\<lambda>wd. Inr (filepath_Join wd p)))"

definition InitConfig :: "(string, string) result \<Rightarrow> CoreConfig \<Rightarrow> (string, CoreConfig) result" where
  "InitConfig getwd cfg =
     bind_res (if cf_WorkDir cfg = [] then getwd else Inr (cf_WorkDir cfg)) (\<lambda>work.
     bind_res (abs_path getwd work) (\<lambda>absWork.
     bind_res (abs_path getwd (if cf_SessionDir cfg = [] then filepath_Join absWork ''.claudecode'' else cf_SessionDir cfg))
       (\<lambda>absSession. Inr (cfg\<lparr>cf_WorkDir := absWork, cf_SessionDir := absSession,
          cf_CompactionRatio := (if float_is_zero (cf_CompactionRatio cfg) then float_half else cf_CompactionRatio cfg)\<rparr>))))"

text \<open>
  What an agent shares with the child sessions it starts: the world the tools act on, the calls made
  on it, the session folders by session id, the event channel, and how many requests and store
  accesses there have been.
\<close>

record 'w shared =
  sh_world :: 'w
  sh_trace :: "os_call list"
  sh_root :: "string \<Rightarrow> session_folder"
  sh_events :: "StreamEvent list"
  sh_calls :: nat
  sh_saves :: nat

text \<open>
  \<open>ac_store\<close> is \<open>None\<close> for the nil store and otherwise the sub-directory its history goes to;
  \<open>ac_streams\<close> says whether the client is a \<open>StreamingLLMClient\<close>, \<open>ac_emitter\<close> whether there is an
  emitter.
\<close>

record 'w agent_core =
  ac_config :: CoreConfig
  ac_tracker :: FileTracker
  ac_messages :: "ChatMessage list"
  ac_store :: "string option"
  ac_sessionID :: string
  ac_nextSeq :: int
  ac_streams :: bool
  ac_emitter :: bool
  ac_shared :: "'w shared"

record 'w env =
  en_llm :: "nat \<Rightarrow> ChatMessage list \<Rightarrow> string list \<times> (string, LLMResponse) result"
  en_ask :: "nat \<Rightarrow> ChatMessage list \<Rightarrow> (string, LLMResponse) result"
  en_os :: "'w os"
  en_io :: "nat \<Rightarrow> store_io"
  en_now :: "nat \<Rightarrow> go_time"
  en_exists :: "'w \<Rightarrow> string \<Rightarrow> bool"
  en_alive :: "'w \<Rightarrow> int \<Rightarrow> bool"
  en_error :: "tool_error \<Rightarrow> string"
  en_quote :: "string \<Rightarrow> string"

definition NewAgentCore :: "bool \<Rightarrow> CoreConfig \<Rightarrow> 'w shared \<Rightarrow> 'w agent_core" where
  "NewAgentCore streams config sh =
     \<lparr>ac_config = config, ac_tracker = NewFileTracker, ac_messages = [],
      ac_store = (if cf_SessionDir config \<noteq> [] then Some [] else None), ac_sessionID = [], ac_nextSeq = 0,
      ac_streams = streams, ac_emitter = False, ac_shared = sh\<rparr>"

abbreviation update_shared :: "('w shared \<Rightarrow> 'w shared) \<Rightarrow> 'w agent_core \<Rightarrow> 'w agent_core" where
  "update_shared f c \<equiv> c\<lparr>ac_shared := f (ac_shared c)\<rparr>"

definition Emit :: "StreamEvent list \<Rightarrow> 'w agent_core \<Rightarrow> 'w agent_core" where
  "Emit evs c = (if ac_emitter c then update_shared (\<lambda>sh. sh\<lparr>sh_events := sh_events sh @ evs\<rparr>) c else c)"

definition appendMessage :: "ChatMessage \<Rightarrow> 'w agent_core \<Rightarrow> 'w agent_core" where
  "appendMessage msg c =
     c\<lparr>ac_nextSeq := ac_nextSeq c + 1, ac_messages := ac_messages c @ [msg\<lparr>cm_Seq := ac_nextSeq c + 1\<rparr>]\<rparr>"

section \<open>Sessions\<close>

text \<open>The state both \<open>saveSession\<close> and \<open>PersistWBS\<close> write; an error of the store is only logged.\<close>

definition core_state :: "go_time \<Rightarrow> string \<Rightarrow> 'w agent_core \<Rightarrow> SessionState" where
  "core_state now status c =
     \<lparr>st_SessionID = ac_sessionID c, st_ParentID = None, st_Status = status,
      st_Messages = convertToSessionMessages now (ac_messages c),
      st_CreatedFiles = TrackedFilesSnapshot now (ac_tracker c),
      st_RunningProcesses = TrackedProcessesSnapshot now (ac_tracker c), st_WBSTreeJSON = [],
      st_CreatedAt = Some now, st_LastActivityAt = 0, st_ActiveAgent = [], st_AgentBindings = [],
      st_Supplement = no_supplement\<rparr>"

definition store_state :: "'w env \<Rightarrow> (go_time \<Rightarrow> SessionState) \<Rightarrow> 'w agent_core \<Rightarrow> 'w agent_core" where
  "store_state env state c =
     (case ac_store c of
        None \<Rightarrow> c
      | Some sub \<Rightarrow>
          if ac_sessionID c = [] then c
          else update_shared (\<lambda>sh. sh\<lparr>sh_saves := Suc (sh_saves sh),
                 sh_root := (sh_root sh)(ac_sessionID c :=
                   fst (Save (en_io env (sh_saves sh)) (en_now env (sh_saves sh)) sub (sh_root sh (ac_sessionID c))
                     (state (en_now env (sh_saves sh)))))\<rparr>) c)"

definition saveSession :: "'w env \<Rightarrow> string \<Rightarrow> 'w agent_core \<Rightarrow> 'w agent_core" where
  "saveSession env status c = store_state env (\<lambda>now. core_state now status c) c"

definition ValidateTrackerState :: "(string \<Rightarrow> bool) \<Rightarrow> (int \<Rightarrow> bool) \<Rightarrow> SessionState \<Rightarrow> SessionState" where
  "ValidateTrackerState exists alive state =
     state\<lparr>st_CreatedFiles := filter (\<lambda>f. exists (tf_Path f)) (st_CreatedFiles state),
       st_RunningProcesses := filter (\<lambda>p. alive (tp_PID p)) (st_RunningProcesses state)\<rparr>"

text \<open>\<open>ac.store.Load(ac.sessionID)\<close>, which may migrate the folder.\<close>

definition load_state :: "'w env \<Rightarrow> 'w agent_core \<Rightarrow> 'w agent_core \<times> (io_error, SessionState option) result" where
  "load_state env c =
     (let sh = ac_shared c; n = sh_saves sh;
          (f, r) = Store_Load (en_io env n) (en_now env n) (sh_root sh (ac_sessionID c))
      in (c\<lparr>ac_shared := sh\<lparr>sh_saves := Suc n, sh_root := (sh_root sh)(ac_sessionID c := f)\<rparr>\<rparr>, r))"

definition max_chat_seq :: "int \<Rightarrow> ChatMessage list \<Rightarrow> int" where
  "max_chat_seq n msgs = foldl (\<lambda>n m. if n < cm_Seq m then cm_Seq m else n) n msgs"

definition restore_state :: "'w env \<Rightarrow> SessionState \<Rightarrow> 'w agent_core \<Rightarrow> 'w agent_core" where
  "restore_state env state c =
     (let w = sh_world (ac_shared c);
          state = ValidateTrackerState (en_exists env w) (en_alive env w) state;
          msgs = convertFromSessionMessages (st_Messages state);
          ft = foldl (\<lambda>ft f. TrackFile ft (tf_Path f)) (ac_tracker c) (st_CreatedFiles state);
          ft = foldl (\<lambda>ft p. TrackProcess ft (tp_PID p) (tp_Command p)) ft (st_RunningProcesses state)
      in c\<lparr>ac_messages := msgs, ac_nextSeq := max_chat_seq (ac_nextSeq c) msgs, ac_tracker := ft\<rparr>)"

definition restoreSession :: "'w env \<Rightarrow> 'w agent_core \<Rightarrow> 'w agent_core \<times> io_error option" where
  "restoreSession env c =
     (case load_state env c of
        (c, Inl e) \<Rightarrow> (c, Some e)
      | (c, Inr None) \<Rightarrow> (c, None)
      | (c, Inr (Some state)) \<Rightarrow> (restore_state env state c, None))"

section \<open>Compaction\<close>

definition isContextLengthExceeded :: "string \<Rightarrow> bool" where
  "isContextLengthExceeded err =
     list_ex (Contains (ToLower err))
       [''context_length_exceeded'', ''max_context_length'', ''context_limit'', ''too many tokens'',
        ''maximum context length'', ''token limit'', ''exceeds the model'' @ [CHR 0x27] @ ''s maximum context'']"

definition truncateWithEllipsis :: "string \<Rightarrow> nat \<Rightarrow> string" where
  "truncateWithEllipsis s maxLen = (if length s \<le> maxLen then s else take maxLen s @ ''...'')"

definition log_line :: "Message \<Rightarrow> string" where
  "log_line m =
     (if m_Role m = ''user'' then ''USER: '' @ m_Content m @ nl
      else if m_Role m = ''assistant'' then
        ''ASSISTANT: '' @ m_Content m @ nl @
        concat (map (\<lambda>tc. ''  [TOOL CALL: '' @ tc_Name tc @ '' (id='' @ tc_ID tc @ '')]'' @ nl) (m_ToolCalls m))
      else if m_Role m = ''tool'' then
        ''  [TOOL RESULT (id='' @ m_ToolCallID m @ ''): '' @ m_Content m @ '']'' @ nl
      else [])"

definition buildConversationLog :: "Message list \<Rightarrow> string" where
  "buildConversationLog msgs = concat (map log_line msgs)"

definition fallback_line :: "Message \<Rightarrow> string" where
  "fallback_line m =
     (if m_Role m = ''user'' then ''USER: '' @ truncateWithEllipsis (m_Content m) 300 @ nl
      else if m_Role m = ''assistant'' then
        ''ASSISTANT: '' @ truncateWithEllipsis (m_Content m) 300 @ nl @
        concat (map (\<lambda>tc. ''  [TOOL: '' @ tc_Name tc @ '']'' @ nl) (m_ToolCalls m))
      else if m_Role m = ''tool'' then ''  [RESULT: '' @ truncateWithEllipsis (m_Content m) 150 @ '']'' @ nl
      else [])"

definition structuredFallbackSummary :: "Message list \<Rightarrow> string" where
  "structuredFallbackSummary msgs = concat (map fallback_line msgs)"

text \<open>The two fixed system prompts are named, not spelled out.\<close>

abbreviation summarizationSystemPrompt :: string where "summarizationSystemPrompt \<equiv> ''summarizationSystemPrompt''"
abbreviation mergeSystemPrompt :: string where "mergeSystemPrompt \<equiv> ''mergeSystemPrompt''"

definition answer_text :: "(string, LLMResponse) result \<Rightarrow> (string, string) result" where
  "answer_text r = bind_res r (\<lambda>resp. Inr (lr_Content resp))"

definition llmSummarizeChunk :: "(ChatMessage list \<Rightarrow> (string, LLMResponse) result) \<Rightarrow> Message list \<Rightarrow> (string, string) result" where
  "llmSummarizeChunk ask msgs =
     answer_text (ask [chat ''system'' summarizationSystemPrompt,
       chat ''user'' (''Summarize this conversation:'' @ nl @ nl @ buildConversationLog msgs)])"

definition llmMergeSummaries ::
  "(ChatMessage list \<Rightarrow> (string, LLMResponse) result) \<Rightarrow> string \<Rightarrow> string \<Rightarrow> (string, string) result" where
  "llmMergeSummaries ask summaryA summaryB =
     answer_text (ask [chat ''system'' mergeSystemPrompt,
       chat ''user'' (''Summary A:'' @ nl @ summaryA @ nl @ nl @ ''Summary B:'' @ nl @ summaryB)])"

definition compactionSummarizer :: "(ChatMessage list \<Rightarrow> (string, LLMResponse) result) \<Rightarrow> Message list \<Rightarrow> (string, string) result" where
  "compactionSummarizer ask msgs =
     Inr (Summarize (NewMapReduceSummarizer (llmSummarizeChunk ask) (llmMergeSummaries ask) structuredFallbackSummary 20) msgs)"

text \<open>
  The agent always compacts with the ratio of \<open>DefaultCompactionConfig\<close>, one half, and not with the
  ratio of its own configuration: \<open>int(math.Ceil(float64(n) * 0.5))\<close>, which is exact below \<open>2 ^ 53\<close> messages.
\<close>

definition half_up :: "nat \<Rightarrow> int" where
  "half_up n = int ((n + 1) div 2)"

definition applyReactiveCompaction :: "'w env \<Rightarrow> 'w agent_core \<Rightarrow> 'w agent_core \<times> bool" where
  "applyReactiveCompaction env c =
     (let sessionMsgs = TrimLongContent (convertToSessionMessages (en_now env (sh_saves (ac_shared c))) (ac_messages c)) 5000
      in case Compact half_up (compactionSummarizer (en_ask env (sh_calls (ac_shared c)))) sessionMsgs of
           (_, Some e) \<Rightarrow> (c, False)
         | (compacted, None) \<Rightarrow>
             if length sessionMsgs \<le> length compacted then (c, False)
             else (c\<lparr>ac_messages := convertFromSessionMessages compacted\<rparr>, True))"

section \<open>Tools\<close>

text \<open>
  The subagent runs a tool in a child session: given the parent's sequence number, the recent
  messages, the tool and its input it answers with a text or an error and changes only what is shared.
\<close>

type_synonym 'w subagent =
  "int \<Rightarrow> (string \<times> string) list \<Rightarrow> string \<Rightarrow> tool_input \<Rightarrow> 'w shared \<Rightarrow> 'w shared \<times> (string, string) result"

definition run_handler :: "'w handler \<Rightarrow> tool_input \<Rightarrow> 'w agent_core \<Rightarrow> 'w agent_core \<times> (string \<times> tool_error option)" where
  "run_handler h input c =
     (let sh = ac_shared c;
          (s, r) = h input \<lparr>ts_world = sh_world sh, ts_tracker = ac_tracker c, ts_trace = sh_trace sh\<rparr>
      in (c\<lparr>ac_tracker := ts_tracker s, ac_shared := sh\<lparr>sh_world := ts_world s, sh_trace := ts_trace s\<rparr>\<rparr>, r))"

definition delegate :: "'w subagent option \<Rightarrow> ToolCall \<Rightarrow> 'w agent_core \<Rightarrow> 'w subagent option" where
  "delegate sub tc c = (if tl_Name tc = ''execute_command'' \<and> cf_EnableSubagent (ac_config c) then sub else None)"

fun tool_answer :: "'w env \<Rightarrow> string \<Rightarrow> tool_error option \<Rightarrow> string \<times> (string \<times> string list) option" where
  "tool_answer env r None = (r, None)"
| "tool_answer env r (Some (FeedbackRequired prompt choices)) = (r, Some (prompt, choices))"
| "tool_answer env r (Some e) = (''Error: '' @ en_error env e, None)"

text \<open>The second component is the result and, for \<open>ErrFeedbackRequired\<close>, the question that goes with it.\<close>

definition executeTool ::
  "'w subagent option \<Rightarrow> 'w env \<Rightarrow> ToolCall \<Rightarrow> 'w agent_core \<Rightarrow> 'w agent_core \<times> string \<times> (string \<times> string list) option" where
  "executeTool sub env tc c =
     (case delegate sub tc c of
        Some run \<Rightarrow>
          (case run (ac_nextSeq c) (map (\<lambda>m. (cm_Role m, cm_Content m)) (ac_messages c)) (tl_Name tc) (tl_Input tc) (ac_shared c) of
             (sh, Inl e) \<Rightarrow> (c\<lparr>ac_shared := sh\<rparr>, ''Error: '' @ e, None)
           | (sh, Inr r) \<Rightarrow> (c\<lparr>ac_shared := sh\<rparr>, r, None))
      | None \<Rightarrow>
          (case Tools_Get (RegisterAllTools (en_os env) (cf_WorkDir (ac_config c))) (tl_Name tc) of
             None \<Rightarrow> (c, ''Error: unknown tool '' @ en_quote env (tl_Name tc), None)
           | Some h \<Rightarrow>
               (case run_handler h (tl_Input tc) c of
                  (c, r, e) \<Rightarrow> (c, tool_answer env r e))))"

section \<open>The loop\<close>

datatype core_error = LLMFailed nat string | EmptyResponse nat string | MaxIterations | ErrFeedbackRequired

definition call_event :: "ToolCall \<Rightarrow> StreamEvent" where
  "call_event tc =
     (stream_event EventToolUse)\<lparr>se_Content := tl_Name tc, se_ToolName := tl_Name tc, se_ToolInput := tl_Input tc\<rparr>"

definition content_event :: "string \<Rightarrow> string \<Rightarrow> StreamEvent" where
  "content_event ty content = (stream_event ty)\<lparr>se_Content := content\<rparr>"

definition tool_message :: "string \<Rightarrow> string \<Rightarrow> ChatMessage" where
  "tool_message i result = (chat ''tool'' result)\<lparr>cm_ToolCallID := i\<rparr>"

text \<open>The tool calls of one response; \<open>Some\<close> is the return with \<open>ErrFeedbackRequired\<close>.\<close>

fun run_tool_calls ::
  "'w subagent option \<Rightarrow> 'w env \<Rightarrow> ToolCall list \<Rightarrow> 'w agent_core \<Rightarrow> 'w agent_core \<times> string option" where
  "run_tool_calls sub env [] c = (c, None)"
| "run_tool_calls sub env (tc # tcs) c =
     (case executeTool sub env tc (Emit [call_event tc] c) of
        (c, result, ask) \<Rightarrow>
          (let c = appendMessage (tool_message (tl_ID tc) result) (Emit [content_event EventToolResult result] c)
           in case ask of
                Some (prompt, choices) \<Rightarrow>
                  (saveSession env ''suspended''
                     (Emit [(content_event EventUserInputRequired prompt)\<lparr>se_Choices := choices\<rparr>] c), Some result)
              | None \<Rightarrow> run_tool_calls sub env tcs c))"

text \<open>One request: a streaming client is used when there is an emitter, and its text pieces are events.\<close>

definition generate :: "'w env \<Rightarrow> 'w agent_core \<Rightarrow> 'w agent_core \<times> bool \<times> (string, LLMResponse) result" where
  "generate env c =
     (let streamed = ac_streams c \<and> ac_emitter c;
          (deltas, r) = en_llm env (sh_calls (ac_shared c)) (ac_messages c);
          c = update_shared (\<lambda>sh. sh\<lparr>sh_calls := Suc (sh_calls sh)\<rparr>) c
      in (if streamed then Emit (map (content_event EventText) deltas) c else c, streamed, r))"

abbreviation maxIterations :: nat where "maxIterations \<equiv> 25"

fun run_loop ::
  "'w subagent option \<Rightarrow> 'w env \<Rightarrow> nat \<Rightarrow> bool \<Rightarrow> 'w agent_core \<Rightarrow> 'w agent_core \<times> string \<times> core_error option" where
  "run_loop sub env 0 emptyRetried c = (saveSession env ''failed'' c, [], Some MaxIterations)"
| "run_loop sub env (Suc left) emptyRetried c =
     (let iteration = maxIterations - Suc left
      in case generate env c of
           (c, streamed, Inl err) \<Rightarrow>
             (case (if isContextLengthExceeded err then applyReactiveCompaction env c else (c, False)) of
                (c, True) \<Rightarrow> run_loop sub env left emptyRetried c
              | (c, False) \<Rightarrow> (saveSession env ''failed'' c, [], Some (LLMFailed iteration err)))
         | (c, streamed, Inr resp) \<Rightarrow>
             if lr_ToolCalls resp = [] then
               if lr_Content resp = [] then
                 if \<not> emptyRetried then run_loop sub env left True c
                 else (saveSession env ''failed'' c, [], Some (EmptyResponse iteration (lr_StopReason resp)))
               else
                 (saveSession env ''completed''
                    (appendMessage (chat ''assistant'' (lr_Content resp))
                      (if streamed then c else Emit [content_event EventText (lr_Content resp)] c)),
                  lr_Content resp, None)
             else
               case run_tool_calls sub env (lr_ToolCalls resp)
                      (appendMessage ((chat ''assistant'' (lr_Content resp))\<lparr>cm_ToolCalls := lr_ToolCalls resp\<rparr>) c) of
                 (c, Some result) \<Rightarrow> (c, result, Some ErrFeedbackRequired)
               | (c, None) \<Rightarrow> run_loop sub env left False (saveSession env ''active'' c))"

definition with_system_prompt :: "'w agent_core \<Rightarrow> 'w agent_core" where
  "with_system_prompt c =
     (if ac_messages c = [] \<and> cf_SystemPrompt (ac_config c) \<noteq> []
      then c\<lparr>ac_messages := [chat ''system'' (cf_SystemPrompt (ac_config c))]\<rparr> else c)"

definition runSimple ::
  "'w subagent option \<Rightarrow> 'w env \<Rightarrow> string \<Rightarrow> 'w agent_core \<Rightarrow> 'w agent_core \<times> string \<times> core_error option" where
  "runSimple sub env prompt c =
     run_loop sub env maxIterations False (appendMessage (chat ''user'' prompt) (with_system_prompt c))"

section \<open>What the steps change\<close>

named_theorems core_simps

lemma Emit_fields [core_simps]:
  "ac_messages (Emit evs c) = ac_messages c" "ac_nextSeq (Emit evs c) = ac_nextSeq c"
  "ac_sessionID (Emit evs c) = ac_sessionID c" "ac_config (Emit evs c) = ac_config c"
  "ac_store (Emit evs c) = ac_store c" "ac_tracker (Emit evs c) = ac_tracker c"
  "sh_trace (ac_shared (Emit evs c)) = sh_trace (ac_shared c)"
  "sh_root (ac_shared (Emit evs c)) = sh_root (ac_shared c)"
  "sh_calls (ac_shared (Emit evs c)) = sh_calls (ac_shared c)"
  "sh_saves (ac_shared (Emit evs c)) = sh_saves (ac_shared c)"
  by (simp_all add: Emit_def)

lemma store_state_fields [core_simps]:
  "ac_messages (store_state env st c) = ac_messages c" "ac_nextSeq (store_state env st c) = ac_nextSeq c"
  "ac_sessionID (store_state env st c) = ac_sessionID c" "ac_config (store_state env st c) = ac_config c"
  "ac_store (store_state env st c) = ac_store c" "ac_tracker (store_state env st c) = ac_tracker c"
  "sh_trace (ac_shared (store_state env st c)) = sh_trace (ac_shared c)"
  "sh_calls (ac_shared (store_state env st c)) = sh_calls (ac_shared c)"
  "sh_events (ac_shared (store_state env st c)) = sh_events (ac_shared c)"
  by (auto simp: store_state_def split: option.split)

lemma saveSession_fields [core_simps]:
  "ac_messages (saveSession env st c) = ac_messages c" "ac_nextSeq (saveSession env st c) = ac_nextSeq c"
  "ac_sessionID (saveSession env st c) = ac_sessionID c" "ac_config (saveSession env st c) = ac_config c"
  "ac_store (saveSession env st c) = ac_store c" "ac_tracker (saveSession env st c) = ac_tracker c"
  "sh_trace (ac_shared (saveSession env st c)) = sh_trace (ac_shared c)"
  "sh_calls (ac_shared (saveSession env st c)) = sh_calls (ac_shared c)"
  "sh_events (ac_shared (saveSession env st c)) = sh_events (ac_shared c)"
  by (simp_all add: saveSession_def core_simps)

lemma appendMessage_fields [core_simps]:
  "ac_messages (appendMessage m c) = ac_messages c @ [m\<lparr>cm_Seq := ac_nextSeq c + 1\<rparr>]"
  "ac_nextSeq (appendMessage m c) = ac_nextSeq c + 1"
  "ac_sessionID (appendMessage m c) = ac_sessionID c" "ac_config (appendMessage m c) = ac_config c"
  "ac_store (appendMessage m c) = ac_store c" "ac_shared (appendMessage m c) = ac_shared c"
  by (simp_all add: appendMessage_def)

lemma generate_fields [core_simps]:
  "ac_messages (fst (generate env c)) = ac_messages c" "ac_nextSeq (fst (generate env c)) = ac_nextSeq c"
  "ac_sessionID (fst (generate env c)) = ac_sessionID c" "ac_config (fst (generate env c)) = ac_config c"
  "ac_store (fst (generate env c)) = ac_store c" "ac_tracker (fst (generate env c)) = ac_tracker c"
  "sh_trace (ac_shared (fst (generate env c))) = sh_trace (ac_shared c)"
  "sh_root (ac_shared (fst (generate env c))) = sh_root (ac_shared c)"
  "sh_calls (ac_shared (fst (generate env c))) = Suc (sh_calls (ac_shared c))"
  by (simp_all add: generate_def Let_def case_prod_unfold core_simps)

lemma run_handler_fields [core_simps]:
  "ac_messages (fst (run_handler h i c)) = ac_messages c" "ac_nextSeq (fst (run_handler h i c)) = ac_nextSeq c"
  "ac_sessionID (fst (run_handler h i c)) = ac_sessionID c" "ac_config (fst (run_handler h i c)) = ac_config c"
  "ac_store (fst (run_handler h i c)) = ac_store c"
  "sh_root (ac_shared (fst (run_handler h i c))) = sh_root (ac_shared c)"
  "sh_calls (ac_shared (fst (run_handler h i c))) = sh_calls (ac_shared c)"
  by (simp_all add: run_handler_def Let_def case_prod_unfold)

text \<open>Whatever a tool answers, the agent is changed by the handler only.\<close>

lemma executeTool_cases:
  obtains (subagent) run sh r where "sub = Some run" "(sh, r) = run (ac_nextSeq c)
      (map (\<lambda>m. (cm_Role m, cm_Content m)) (ac_messages c)) (tl_Name tc) (tl_Input tc) (ac_shared c)"
      "fst (executeTool sub env tc c) = c\<lparr>ac_shared := sh\<rparr>" "snd (snd (executeTool sub env tc c)) = None"
  | (unknown) "fst (executeTool sub env tc c) = c" "snd (snd (executeTool sub env tc c)) = None"
  | (handler) h where "Tools_Get (RegisterAllTools (en_os env) (cf_WorkDir (ac_config c))) (tl_Name tc) = Some h"
      "fst (executeTool sub env tc c) = fst (run_handler h (tl_Input tc) c)"
proof (cases "delegate sub tc c")
  case (Some run)
  then have "sub = Some run" by (simp add: delegate_def split: if_splits)
  moreover obtain sh r where r: "run (ac_nextSeq c) (map (\<lambda>m. (cm_Role m, cm_Content m)) (ac_messages c))
      (tl_Name tc) (tl_Input tc) (ac_shared c) = (sh, r)" by fastforce
  ultimately show thesis
    using Some by (intro subagent [of run sh r]) (simp_all add: executeTool_def split: sum.split)
next
  case None
  show thesis
  proof (cases "Tools_Get (RegisterAllTools (en_os env) (cf_WorkDir (ac_config c))) (tl_Name tc)")
    case (Some h)
    with None show thesis by (intro handler [OF Some]) (simp add: executeTool_def case_prod_unfold)
  qed (use None in \<open>simp add: executeTool_def unknown\<close>)
qed

lemma executeTool_fields [core_simps]:
  "ac_messages (fst (executeTool sub env tc c)) = ac_messages c"
  "ac_nextSeq (fst (executeTool sub env tc c)) = ac_nextSeq c"
  "ac_sessionID (fst (executeTool sub env tc c)) = ac_sessionID c"
  "ac_config (fst (executeTool sub env tc c)) = ac_config c"
  "ac_store (fst (executeTool sub env tc c)) = ac_store c"
  by (cases rule: executeTool_cases [of sub c tc env], simp_all add: core_simps)+

text \<open>
  The events of a run are those of its work; the one that opens a turn and the one that ends it are the
  session's.
\<close>

definition inner_event :: "StreamEvent \<Rightarrow> bool" where
  "inner_event ev \<longleftrightarrow> se_Type ev \<notin> {EventSystem, EventResult, EventError}"

lemma inner_events [simp]:
  "inner_event (call_event tc)" "inner_event (content_event ty s) \<longleftrightarrow> ty \<notin> {EventSystem, EventResult, EventError}"
  "inner_event (ev\<lparr>se_Choices := cs\<rparr>) = inner_event ev"
  by (simp_all add: inner_event_def call_event_def content_event_def stream_event_def)

text \<open>The steps the agent is made of.\<close>

inductive core_step :: "'w subagent option \<Rightarrow> 'w env \<Rightarrow> 'w agent_core \<Rightarrow> 'w agent_core \<Rightarrow> bool"
  for sub env where
  ask: "core_step sub env c (fst (generate env c))"
| compact: "applyReactiveCompaction env c = (c', True) \<Longrightarrow> core_step sub env c c'"
| say: "cm_Role m \<noteq> ''system'' \<Longrightarrow> core_step sub env c (appendMessage m c)"
| emit: "list_all inner_event evs \<Longrightarrow> core_step sub env c (Emit evs c)"
| save: "core_step sub env c (saveSession env status c)"
| tool: "core_step sub env c (fst (executeTool sub env tc c))"

inductive_cases core_stepE: "core_step sub env c c'"

lemma step_trans: "(core_step sub env)\<^sup>*\<^sup>* a b \<Longrightarrow> core_step sub env b c \<Longrightarrow> (core_step sub env)\<^sup>*\<^sup>* a c"
  by (rule rtranclp.rtrancl_into_rtrancl)

lemmas core_steps = step_trans [OF _ core_step.say] step_trans [OF _ core_step.emit] step_trans [OF _ core_step.save]
  step_trans [OF _ core_step.ask] step_trans [OF _ core_step.tool]

lemma run_tool_calls_steps: "(core_step sub env)\<^sup>*\<^sup>* c (fst (run_tool_calls sub env tcs c))"
proof (induction tcs arbitrary: c)
  case (Cons tc tcs)
  obtain c1 r a where x: "executeTool sub env tc (Emit [call_event tc] c) = (c1, r, a)" by (metis prod_cases3)
  let ?c2 = "appendMessage (tool_message (tl_ID tc) r) (Emit [content_event EventToolResult r] c1)"
  have "c1 = fst (executeTool sub env tc (Emit [call_event tc] c))" using x by simp
  then have c2: "(core_step sub env)\<^sup>*\<^sup>* c ?c2"
    by (simp only:) (intro core_steps rtranclp.rtrancl_refl, simp_all add: tool_message_def chat_def)
  show ?case
  proof (cases a)
    case None
    with x Cons.IH [of ?c2] c2 show ?thesis by (simp add: Let_def)
  next
    case (Some q)
    with x c2 show ?thesis by (cases q) (auto simp: Let_def intro!: core_steps)
  qed
qed simp

lemma compaction_refused: "applyReactiveCompaction env c = (c', False) \<Longrightarrow> c' = c"
  by (auto simp: applyReactiveCompaction_def Let_def split: if_splits prod.splits option.splits)

lemma run_loop_steps: "(core_step sub env)\<^sup>*\<^sup>* c (fst (run_loop sub env n b c))"
proof (induction n arbitrary: b c)
  case 0
  show ?case by (auto intro: core_steps)
next
  case (Suc n)
  obtain c1 s r where g: "generate env c = (c1, s, r)" by (metis prod_cases3)
  have c1: "(core_step sub env)\<^sup>*\<^sup>* c c1" using core_step.ask [of sub env c] g by (metis fst_conv r_into_rtranclp)
  note next_ = rtranclp_trans [OF c1]
  show ?case
  proof (cases r)
    case (Inl e)
    obtain c2 k where k: "(if isContextLengthExceeded e then applyReactiveCompaction env c1 else (c1, False)) = (c2, k)"
      by fastforce
    then have "(core_step sub env)\<^sup>*\<^sup>* c1 c2"
      using compaction_refused [of env c1 c2]
      by (cases k) (auto intro: core_step.compact r_into_rtranclp split: if_splits)
    then have "(core_step sub env)\<^sup>*\<^sup>* c c2" by (rule next_)
    with Suc.IH [of c2 b] g Inl k show ?thesis by (cases k) (auto intro: core_steps rtranclp_trans)
  next
    case (Inr resp)
    let ?m = "(chat ''assistant'' (lr_Content resp))\<lparr>cm_ToolCalls := lr_ToolCalls resp\<rparr>"
    obtain c2 t where t: "run_tool_calls sub env (lr_ToolCalls resp) (appendMessage ?m c1) = (c2, t)" by fastforce
    have "(core_step sub env)\<^sup>*\<^sup>* c (appendMessage ?m c1)" using c1 by (intro core_steps) (simp_all add: chat_def)
    then have c2: "(core_step sub env)\<^sup>*\<^sup>* c c2"
      using run_tool_calls_steps [of sub env "appendMessage ?m c1" "lr_ToolCalls resp"] t by (metis fst_conv rtranclp_trans)
    show ?thesis
    proof (cases "lr_ToolCalls resp = []")
      case True
      have "(core_step sub env)\<^sup>*\<^sup>* c (if s then c1 else Emit evs c1)" if "list_all inner_event evs" for evs
        using c1 that by (auto intro: core_steps)
      then have "(core_step sub env)\<^sup>*\<^sup>* c (saveSession env ''completed'' (appendMessage (chat ''assistant'' (lr_Content resp))
          (if s then c1 else Emit [content_event EventText (lr_Content resp)] c1)))"
        by (intro core_steps) (simp_all add: chat_def)
      with True g Inr c1 next_ [OF Suc.IH [of c1 True]] show ?thesis by (auto intro: core_steps)
    next
      case False
      show ?thesis
      proof (cases t)
        case None
        have "(core_step sub env)\<^sup>*\<^sup>* c (saveSession env ''active'' c2)" using c2 by (rule core_steps)
        with rtranclp_trans [OF this Suc.IH] False g Inr t None show ?thesis by simp
      qed (use False g Inr t c2 in simp)
    qed
  qed
qed

section \<open>Reactive compaction\<close>

lemma ToolCall_eta [simp]: "\<lparr>tl_ID = tl_ID t, tl_Name = tl_Name t, tl_Input = tl_Input t\<rparr> = t"
  by simp

lemma ChatMessage_eta [simp]:
  "\<lparr>cm_Role = cm_Role m, cm_Content = s, cm_ToolCalls = cm_ToolCalls m, cm_ToolCallID = cm_ToolCallID m, cm_Seq = cm_Seq m\<rparr>
    = m\<lparr>cm_Content := s\<rparr>"
  by simp

lemma convertFrom_To [simp]: "convertFromSessionMessages (convertToSessionMessages now ms) = ms"
  by (simp add: convertFromSessionMessages_def convertToSessionMessages_def comp_def)

lemma length_convert [simp]: "length (convertFromSessionMessages ms) = length ms"
  "length (convertToSessionMessages now cs) = length cs"
  by (simp_all add: convertFromSessionMessages_def convertToSessionMessages_def)

lemma drop_convertFrom: "convertFromSessionMessages (drop b ms) = drop b (convertFromSessionMessages ms)"
  by (simp add: convertFromSessionMessages_def drop_map)

definition trim_chat :: "ChatMessage \<Rightarrow> ChatMessage" where
  "trim_chat m = (if 5000 < length (cm_Content m)
     then m\<lparr>cm_Content := take 5000 (cm_Content m) @ [CHR 0x0A] @ ''... [TRUNCATED]''\<rparr> else m)"

lemma trim_chat_fields [simp]: "cm_Role (trim_chat m) = cm_Role m" "cm_Seq (trim_chat m) = cm_Seq m"
  "cm_ToolCalls (trim_chat m) = cm_ToolCalls m" "cm_ToolCallID (trim_chat m) = cm_ToolCallID m"
  by (simp_all add: trim_chat_def)

lemma convertFrom_trimmed:
  "convertFromSessionMessages (TrimLongContent (convertToSessionMessages now ms) 5000) = map trim_chat ms"
  by (simp add: convertFromSessionMessages_def convertToSessionMessages_def TrimLongContent_def trim_chat_def comp_def)

definition summary_chat :: "string \<Rightarrow> ChatMessage" where
  "summary_chat summary = chat ''system'' (''[COMPACTED CONTEXT SUMMARY]'' @ [CHR 0x0A] @ summary)"

lemma compaction_shape:
  assumes "applyReactiveCompaction env c = (c', True)"
  obtains b summary now where "0 < b" "b < length (ac_messages c)" "cm_Role (ac_messages c ! b) = ''user''"
    "c' = c\<lparr>ac_messages := summary_chat summary # map trim_chat (drop b (ac_messages c))\<rparr>"
    "Inr summary = compactionSummarizer (en_ask env (sh_calls (ac_shared c)))
      (take b (TrimLongContent (convertToSessionMessages now (ac_messages c)) 5000))"
proof -
  define now where "now = en_now env (sh_saves (ac_shared c))"
  define ms where "ms = TrimLongContent (convertToSessionMessages now (ac_messages c)) 5000"
  let ?f = "compactionSummarizer (en_ask env (sh_calls (ac_shared c)))"
  obtain r where r: "Compact half_up ?f ms = (r, None)" "length r < length ms"
    "c' = c\<lparr>ac_messages := convertFromSessionMessages r\<rparr>"
    using assms by (auto simp: applyReactiveCompaction_def ms_def now_def Let_def split: prod.splits option.splits if_splits)
  have unp: "filter (\<lambda>m. \<not> m_Pinned m) ms = ms" "filter m_Pinned ms = []"
    by (auto simp: ms_def TrimLongContent_def convertToSessionMessages_def filter_id_conv filter_empty_conv)
  obtain b summary where b: "0 < b" "b < length ms" "?f (take b ms) = Inr summary"
    "r = summary_message summary # drop b ms" "m_Role (ms ! b) = ''user''"
    using Compact_outcome [OF r(1)] r(2) by (auto simp: Let_def unp)
  have len: "length ms = length (ac_messages c)" by (simp add: ms_def TrimLongContent_def)
  have "map cm_Role (convertFromSessionMessages ms) = map m_Role ms"
    by (simp add: convertFromSessionMessages_def)
  then have "map m_Role ms = map cm_Role (ac_messages c)" by (simp add: ms_def convertFrom_trimmed comp_def)
  then have "m_Role (ms ! b) = cm_Role (ac_messages c ! b)" using b(2) len by (metis nth_map)
  moreover have "convertFromSessionMessages r = summary_chat summary # map trim_chat (drop b (ac_messages c))"
  proof -
    have "convertFromSessionMessages (drop b ms) = map trim_chat (drop b (ac_messages c))"
      by (simp add: ms_def drop_convertFrom convertFrom_trimmed drop_map)
    moreover have "convertFromSessionMessages (summary_message summary # xs) = summary_chat summary # convertFromSessionMessages xs"
      for xs by (simp add: convertFromSessionMessages_def summary_message_def message_def summary_chat_def chat_def)
    ultimately show ?thesis using b(4) by simp
  qed
  ultimately show ?thesis using that [of b summary now] b len r(3) by (simp add: ms_def)
qed

lemma log_ignores_system:
  "buildConversationLog (filter (\<lambda>m. m_Role m \<noteq> ''system'') ms) = buildConversationLog ms"
  "structuredFallbackSummary (filter (\<lambda>m. m_Role m \<noteq> ''system'') ms) = structuredFallbackSummary ms"
  by (induction ms) (auto simp: buildConversationLog_def structuredFallbackSummary_def log_line_def fallback_line_def)

section \<open>Sequence numbers\<close>

text \<open>
  Numbers are given once: the numbered messages are strictly increasing, the last message carries the
  counter, and only messages that were never numbered (the system prompt, a summary) have zero.
\<close>

definition seq_ok :: "'w agent_core \<Rightarrow> bool" where
  "seq_ok c \<longleftrightarrow> 0 \<le> ac_nextSeq c \<and>
     (if ac_messages c = [] then ac_nextSeq c = 0 else cm_Seq (last (ac_messages c)) = ac_nextSeq c) \<and>
     sorted_wrt (<) (filter (\<lambda>i. i \<noteq> 0) (map cm_Seq (ac_messages c))) \<and>
     list_all (\<lambda>m. 0 \<le> cm_Seq m \<and> cm_Seq m \<le> ac_nextSeq c) (ac_messages c)"

lemma seq_ok_cong:
  "ac_messages c' = ac_messages c \<Longrightarrow> ac_nextSeq c' = ac_nextSeq c \<Longrightarrow> seq_ok c' = seq_ok c"
  by (simp add: seq_ok_def)

lemma seq_ok_append:
  assumes "0 \<le> ac_nextSeq c" "sorted_wrt (<) (filter (\<lambda>i. i \<noteq> 0) (map cm_Seq (ac_messages c)))"
    and "list_all (\<lambda>m. 0 \<le> cm_Seq m \<and> cm_Seq m \<le> ac_nextSeq c) (ac_messages c)"
  shows "seq_ok (appendMessage m c)"
  using assms by (auto simp: seq_ok_def core_simps sorted_wrt_append list_all_iff)

lemma seq_ok_compact:
  assumes "seq_ok c" "applyReactiveCompaction env c = (c', True)"
  shows "seq_ok c'"
  using assms(2)
proof (rule compaction_shape)
  fix b summary now
  assume b: "0 < b" "b < length (ac_messages c)"
    and c': "c' = c\<lparr>ac_messages := summary_chat summary # map trim_chat (drop b (ac_messages c))\<rparr>"
  have ne: "drop b (ac_messages c) \<noteq> []" "ac_messages c \<noteq> []" using b by auto
  have s: "sorted_wrt (<) (filter (\<lambda>i. i \<noteq> 0) (map cm_Seq (take b (ac_messages c) @ drop b (ac_messages c))))"
    using assms(1) by (simp add: seq_ok_def)
  then have "sorted_wrt (<) (filter (\<lambda>i. i \<noteq> 0) (map cm_Seq (drop b (ac_messages c))))"
    unfolding map_append filter_append sorted_wrt_append by blast
  moreover have "cm_Seq (last (map trim_chat (drop b (ac_messages c)))) = ac_nextSeq c"
    using ne b assms(1) by (simp add: last_map seq_ok_def)
  ultimately show ?thesis
    using assms(1) ne c'
    by (auto simp: seq_ok_def summary_chat_def chat_def comp_def list_all_iff dest: in_set_dropD)
qed

lemma seq_step:
  assumes "core_step sub env c c'" "seq_ok c"
  shows "seq_ok c'"
  using assms
proof cases
  case (say m)
  with assms(2) seq_ok_append [of c m] show ?thesis by (simp add: seq_ok_def)
next
  case compact
  with assms(2) show ?thesis by (rule_tac seq_ok_compact)
qed (use assms(2) in \<open>simp_all add: seq_ok_def core_simps\<close>)

interpretation seq: state_machine seq_ok "core_step sub env" seq_ok for sub env
  by unfold_locales (auto intro: seq_step)

lemma nextSeq_step: "core_step sub env c c' \<Longrightarrow> n \<le> ac_nextSeq c \<Longrightarrow> n \<le> ac_nextSeq c'"
  by (cases rule: core_step.cases) (auto simp: core_simps elim: compaction_shape)

interpretation counter: state_machine "\<lambda>c. n \<le> ac_nextSeq c" "core_step sub env" "\<lambda>c. n \<le> ac_nextSeq c" for n sub env
  by unfold_locales (auto intro: nextSeq_step)

lemma runSimple_start:
  "seq_ok c \<Longrightarrow> seq_ok (appendMessage (chat ''user'' p) (with_system_prompt c))"
  "ac_nextSeq (with_system_prompt c) = ac_nextSeq c"
proof -
  show "seq_ok c \<Longrightarrow> seq_ok (appendMessage (chat ''user'' p) (with_system_prompt c))"
    by (rule seq_ok_append) (auto simp: with_system_prompt_def seq_ok_def chat_def)
qed (simp add: with_system_prompt_def)

text \<open>
  Messages are numbered once and in order: a run of the tool loop on a well-numbered conversation
  leaves it well numbered, whatever the model and the tools do and however often the conversation is
  compacted, and it has used new numbers only.
\<close>

theorem runSimple_numbering:
  assumes "seq_ok c" "runSimple sub env prompt c = (c', r, err)"
  shows "seq_ok c' \<and> ac_nextSeq c < ac_nextSeq c'"
proof -
  let ?c = "appendMessage (chat ''user'' prompt) (with_system_prompt c)"
  have steps: "(core_step sub env)\<^sup>*\<^sup>* ?c c'"
    using run_loop_steps [of sub env ?c maxIterations False] assms(2) by (simp add: runSimple_def)
  have "ac_nextSeq c + 1 \<le> ac_nextSeq ?c" by (simp add: core_simps runSimple_start)
  with counter.steps_inv [OF _ steps] seq.steps_inv [OF runSimple_start(1) [OF assms(1)] steps] show ?thesis by force
qed

section \<open>Tool calls and their answers\<close>

text \<open>
  \<open>pend is ms\<close> reads a conversation in which the calls \<open>is\<close> are still to be answered: every tool
  message answers the first open call, nothing else may come while one is open. The result is what is
  left open, or \<open>None\<close> when the order is broken, which is what model providers reject.
\<close>

fun pend :: "string list \<Rightarrow> ChatMessage list \<Rightarrow> string list option" where
  "pend is [] = Some is"
| "pend [] (m # ms) =
     (if cm_Role m = ''tool'' then None
      else pend (if cm_Role m = ''assistant'' then map tl_ID (cm_ToolCalls m) else []) ms)"
| "pend (i # is) (m # ms) = (if cm_Role m = ''tool'' \<and> cm_ToolCallID m = i then pend is ms else None)"

definition conv_ok :: "ChatMessage list \<Rightarrow> bool" where
  "conv_ok ms \<longleftrightarrow> pend [] ms = Some []"

lemma pend_append: "pend is (xs @ ys) = Option.bind (pend is xs) (\<lambda>is. pend is ys)"
  by (induction "is" xs rule: pend.induct) auto

lemma pend_trim [simp]: "pend is (map trim_chat ms) = pend is ms"
  by (induction "is" ms rule: pend.induct) auto

lemma pend_seq [simp]: "pend is (m\<lparr>cm_Seq := n\<rparr> # ms) = pend is (m # ms)"
  by (cases "is") auto

lemma conv_ok_drop:
  assumes "conv_ok ms" "b < length ms" "cm_Role (ms ! b) = ''user''"
  shows "conv_ok (drop b ms)"
proof -
  have d: "drop b ms = ms ! b # drop (Suc b) ms" using assms(2) by (simp add: Cons_nth_drop_Suc)
  obtain p where p: "pend [] (take b ms) = Some p" "pend p (drop b ms) = Some []"
    using assms(1) pend_append [of "[]" "take b ms" "drop b ms"]
    by (cases "pend [] (take b ms)") (auto simp: conv_ok_def)
  with assms(3) have "p = []" by (cases p) (auto simp: d)
  with p(2) show ?thesis by (simp add: conv_ok_def)
qed

lemma conv_ok_compact:
  assumes "conv_ok (ac_messages c)" "applyReactiveCompaction env c = (c', True)"
  shows "conv_ok (ac_messages c')"
  using assms(2)
proof (rule compaction_shape)
  fix b summary now
  assume "b < length (ac_messages c)" "cm_Role (ac_messages c ! b) = ''user''"
    and "c' = c\<lparr>ac_messages := summary_chat summary # map trim_chat (drop b (ac_messages c))\<rparr>"
  with conv_ok_drop [OF assms(1)] show ?thesis by (simp add: conv_ok_def summary_chat_def chat_def)
qed

lemma run_tool_calls_pend:
  assumes "pend [] (ac_messages c) = Some (map tl_ID tcs)" "run_tool_calls sub env tcs c = (c', t)"
  shows "\<exists>k \<le> length tcs. pend [] (ac_messages c') = Some (map tl_ID (drop k tcs)) \<and> (t = None \<longrightarrow> k = length tcs)"
  using assms
proof (induction tcs arbitrary: c)
  case (Cons tc tcs)
  obtain c1 r a where x: "executeTool sub env tc (Emit [call_event tc] c) = (c1, r, a)" by (metis prod_cases3)
  let ?c2 = "appendMessage (tool_message (tl_ID tc) r) (Emit [content_event EventToolResult r] c1)"
  have "ac_messages c1 = ac_messages c"
    using executeTool_fields(1) [of sub env tc "Emit [call_event tc] c"] x by (simp add: core_simps)
  then have c2: "pend [] (ac_messages ?c2) = Some (map tl_ID tcs)"
    using Cons.prems(1) by (simp add: core_simps pend_append tool_message_def chat_def)
  show ?case
  proof (cases a)
    case None
    then have "run_tool_calls sub env tcs ?c2 = (c', t)" using Cons.prems(2) x by (simp add: Let_def)
    from Cons.IH [OF c2 this] obtain k where "k \<le> length tcs" "pend [] (ac_messages c') = Some (map tl_ID (drop k tcs))"
      "t = None \<longrightarrow> k = length tcs" by blast
    then show ?thesis by (intro exI [of _ "Suc k"]) simp
  next
    case (Some q)
    with Cons.prems(2) x have "ac_messages c' = ac_messages ?c2" "t = Some r"
      by (cases q; auto simp: Let_def core_simps)+
    with c2 show ?thesis by (intro exI [of _ 1]) simp
  qed
qed simp

lemma run_loop_pend:
  assumes "conv_ok (ac_messages c)" "run_loop sub env n b c = (c', r, err)"
  shows "if err = Some ErrFeedbackRequired then \<exists>is. pend [] (ac_messages c') = Some is else conv_ok (ac_messages c')"
  using assms
proof (induction n arbitrary: b c)
  case 0
  then show ?case by (auto simp: core_simps)
next
  case (Suc n)
  obtain c1 s x where g: "generate env c = (c1, s, x)" by (metis prod_cases3)
  then have m1: "ac_messages c1 = ac_messages c" using generate_fields(1) [of env c] by simp
  with Suc.prems(1) have ok1: "conv_ok (ac_messages c1)" by simp
  show ?case
  proof (cases x)
    case (Inl e)
    obtain c2 k where k: "(if isContextLengthExceeded e then applyReactiveCompaction env c1 else (c1, False)) = (c2, k)"
      by fastforce
    then have "conv_ok (ac_messages c2)"
      using ok1 conv_ok_compact [of c1 env c2] compaction_refused [of env c1 c2] by (cases k) (auto split: if_splits)
    with Suc g Inl k show ?thesis by (cases k) (auto simp: core_simps)
  next
    case (Inr resp)
    let ?a = "appendMessage ((chat ''assistant'' (lr_Content resp))\<lparr>cm_ToolCalls := lr_ToolCalls resp\<rparr>) c1"
    obtain c2 t where t: "run_tool_calls sub env (lr_ToolCalls resp) ?a = (c2, t)" by fastforce
    have "pend [] (ac_messages ?a) = Some (map tl_ID (lr_ToolCalls resp))"
      using ok1 by (simp add: core_simps pend_append conv_ok_def chat_def)
    from run_tool_calls_pend [OF this t] have c2: "\<exists>is. pend [] (ac_messages c2) = Some is"
      "t = None \<Longrightarrow> conv_ok (ac_messages (saveSession env ''active'' c2))" by (auto simp: conv_ok_def core_simps)
    have say: "conv_ok (ac_messages c1 @ [(chat ''assistant'' y)\<lparr>cm_Seq := q\<rparr>])" for y q
      using ok1 by (simp add: conv_ok_def pend_append chat_def)
    show ?thesis
    proof (cases "lr_ToolCalls resp = []")
      case True
      with Suc g Inr ok1 say show ?thesis by (auto simp: core_simps split: if_splits)
    next
      case False
      with Suc g Inr t c2 show ?thesis by (cases t) (auto split: if_splits)
    qed
  qed
qed


text \<open>
  A question in the middle of a round leaves the later calls of that round without an answer for
  good: the agent returns at once, and the user's reply is then appended while they are still open,
  so that the conversation is no longer one that a model provider accepts.
\<close>

theorem ask_user_leaves_calls_open:
  assumes "pend [] (ac_messages c) = Some (map tl_ID (tc # tc' # tcs))"
    and "tl_Name tc = ''ask_user''" "str_arg ''prompt'' (tl_Input tc) \<noteq> []"
    and "run_tool_calls sub env (tc # tc' # tcs) c = (c', t)"
  shows "t \<noteq> None \<and> pend [] (ac_messages c') = Some (map tl_ID (tc' # tcs)) \<and>
    pend [] (ac_messages (appendMessage (chat ''user'' reply) (with_system_prompt c'))) = None"
proof -
  let ?in = "tl_Input tc" and ?p = "str_arg ''prompt'' (tl_Input tc)"
  obtain c1 where x: "executeTool sub env tc (Emit [call_event tc] c)
      = (c1, ''[WAITING FOR USER] '' @ ?p, Some (?p, parseChoices ?in))"
    using assms(2,3)
    by (simp add: executeTool_def delegate_def RegisterAllTools_def Tools_Register_def Tools_Get_def run_handler_def ask_user_def Let_def)
  have "ac_messages c1 = ac_messages c"
    using executeTool_fields(1) [of sub env tc "Emit [call_event tc] c"] x by (simp add: core_simps)
  with x assms(4) have "ac_messages c' = ac_messages c @ [(tool_message (tl_ID tc) (''[WAITING FOR USER] '' @ ?p))\<lparr>cm_Seq := ac_nextSeq c1 + 1\<rparr>]"
    and t: "t \<noteq> None"
    by (auto simp: Let_def core_simps)
  then have "pend [] (ac_messages c') = Some (map tl_ID (tc' # tcs))" "ac_messages c' \<noteq> []"
    using assms(1) by (simp_all add: pend_append tool_message_def chat_def)
  with t show ?thesis by (simp add: with_system_prompt_def core_simps pend_append chat_def)
qed

section \<open>What is shared\<close>

text \<open>
  Whatever the tools, the store and the model requests of a session keep of the shared state, the whole
  run keeps, provided a subagent keeps it too: the same rule serves the calls on the operating system
  and the session folders, and a child session as well as its parent.
\<close>

definition sub_keeps :: "('w shared \<Rightarrow> 'w shared \<Rightarrow> bool) \<Rightarrow> 'w subagent option \<Rightarrow> bool" where
  "sub_keeps R sub \<longleftrightarrow> (\<forall>run. sub = Some run \<longrightarrow> (\<forall>n ms t i sh. R sh (fst (run n ms t i sh))))"

lemma sub_keeps_None [simp]: "sub_keeps R None"
  by (simp add: sub_keeps_def)

definition related :: "('w shared \<Rightarrow> 'w shared \<Rightarrow> bool) \<Rightarrow> 'w agent_core \<Rightarrow> 'w agent_core \<Rightarrow> bool" where
  "related R c c' \<longleftrightarrow> ac_config c' = ac_config c \<and> R (ac_shared c) (ac_shared c')"

locale shared_relation =
  fixes R :: "'w shared \<Rightarrow> 'w shared \<Rightarrow> bool" and env :: "'w env" and workDir :: string
  assumes refl: "R sh sh"
    and trans: "R a b \<Longrightarrow> R b c \<Longrightarrow> R a c"
    and events: "list_all inner_event evs \<Longrightarrow> R sh (sh\<lparr>sh_events := sh_events sh @ evs\<rparr>)"
    and calls: "R sh (sh\<lparr>sh_calls := n\<rparr>)"
    and saves: "R sh (sh\<lparr>sh_saves := n, sh_root := (sh_root sh)(i := fst (Save io now d (sh_root sh i) st))\<rparr>)"
    and loads: "R sh (sh\<lparr>sh_saves := n, sh_root := (sh_root sh)(i := fst (Store_Load io now (sh_root sh i)))\<rparr>)"
    and tools: "Tools_Get (RegisterAllTools (en_os env) workDir) name = Some h \<Longrightarrow>
      R sh (sh\<lparr>sh_world := ts_world (fst (h input \<lparr>ts_world = sh_world sh, ts_tracker = ft, ts_trace = sh_trace sh\<rparr>)),
        sh_trace := ts_trace (fst (h input \<lparr>ts_world = sh_world sh, ts_tracker = ft, ts_trace = sh_trace sh\<rparr>))\<rparr>)"
begin

lemma Emit_related: "list_all inner_event evs \<Longrightarrow> R (ac_shared c) (ac_shared (Emit evs c))"
  by (auto simp: Emit_def events refl)

lemma store_related: "R (ac_shared c) (ac_shared (store_state env st c))"
  by (auto simp: store_state_def saves refl split: option.split)

lemma load_related: "R (ac_shared c) (ac_shared (fst (load_state env c)))"
  by (auto simp: load_state_def Let_def case_prod_unfold loads)

lemma restore_related: "R (ac_shared c) (ac_shared (fst (restoreSession env c)))"
proof -
  have "ac_shared (fst (restoreSession env c)) = ac_shared (fst (load_state env c))"
    by (auto simp: restoreSession_def restore_state_def Let_def split: prod.split sum.split option.split)
  with load_related show ?thesis by simp
qed

lemma generate_related: "R (ac_shared c) (ac_shared (fst (generate env c)))"
proof -
  let ?c = "update_shared (\<lambda>sh. sh\<lparr>sh_calls := Suc (sh_calls sh)\<rparr>) c"
  have 1: "R (ac_shared c) (ac_shared ?c)" by (simp add: calls)
  have "list_all inner_event (map (content_event EventText) ds)" for ds by (simp add: list_all_iff)
  from trans [OF 1 Emit_related [OF this]] 1 show ?thesis by (simp add: generate_def Let_def case_prod_unfold)
qed

lemma tool_related:
  assumes "sub_keeps R sub" "cf_WorkDir (ac_config c) = workDir"
  shows "R (ac_shared c) (ac_shared (fst (executeTool sub env tc c)))"
proof (cases rule: executeTool_cases [of sub c tc env])
  case (subagent run sh r)
  then have "R (ac_shared c) sh" using assms(1) unfolding sub_keeps_def by (metis fst_conv)
  with subagent show ?thesis by simp
next
  case (handler h)
  then show ?thesis using assms(2) by (simp add: run_handler_def Let_def case_prod_unfold tools)
qed (simp add: refl)

lemma step_related:
  assumes "sub_keeps R sub" "cf_WorkDir (ac_config c) = workDir" "core_step sub env c c'"
  shows "related R c c'"
  using assms(3)
proof cases
  case ask
  then show ?thesis by (simp add: related_def generate_related core_simps)
next
  case compact
  then show ?thesis by (auto simp: related_def refl elim: compaction_shape)
next
  case (tool tc)
  then show ?thesis using tool_related [OF assms(1,2)] by (simp add: related_def core_simps)
qed (simp_all add: related_def core_simps refl Emit_related saveSession_def store_related)

lemma steps_related:
  assumes "sub_keeps R sub" "cf_WorkDir (ac_config c) = workDir" "(core_step sub env)\<^sup>*\<^sup>* c c'"
  shows "related R c c'"
  using assms(3)
proof (induction rule: rtranclp_induct)
  case (step a b)
  then show ?case
    using step_related [OF assms(1), of a b] assms(2) trans by (fastforce simp: related_def)
qed (simp add: related_def refl)

lemma runSimple_related:
  assumes "sub_keeps R sub" "cf_WorkDir (ac_config c) = workDir"
  shows "ac_config (fst (runSimple sub env p c)) = ac_config c \<and> R (ac_shared c) (ac_shared (fst (runSimple sub env p c)))"
proof -
  let ?c = "appendMessage (chat ''user'' p) (with_system_prompt c)"
  have c: "ac_config ?c = ac_config c" "ac_shared ?c = ac_shared c"
    by (simp_all add: core_simps with_system_prompt_def)
  show ?thesis
    using steps_related [OF assms(1) _ run_loop_steps [of sub env ?c maxIterations False]] c assms(2)
    by (simp add: related_def runSimple_def)
qed

end

text \<open>The calls made on the operating system, for a working directory the guard is sound for.\<close>

definition trace_kept :: "'w os \<Rightarrow> string \<Rightarrow> 'w shared \<Rightarrow> 'w shared \<Rightarrow> bool" where
  "trace_kept os workDir a b \<longleftrightarrow>
     (IsAbs workDir \<and> walks_inside os \<longrightarrow> (\<exists>cs. sh_trace b = sh_trace a @ cs \<and> list_all (confined workDir) cs))"

interpretation trace: shared_relation "trace_kept (en_os env) workDir" env workDir for env :: "'w env" and workDir
proof
  fix name h input ft and sh :: "'w shared"
  let ?s = "\<lparr>ts_world = sh_world sh, ts_tracker = ft, ts_trace = sh_trace sh\<rparr>"
  assume "Tools_Get (RegisterAllTools (en_os env) workDir) name = Some h"
  with registered_confined [of workDir "en_os env" name h ?s input]
  show "trace_kept (en_os env) workDir sh (sh\<lparr>sh_world := ts_world (fst (h input ?s)), sh_trace := ts_trace (fst (h input ?s))\<rparr>)"
    by (auto simp: trace_kept_def makes_def)
next
  fix a b c :: "'w shared"
  assume "trace_kept (en_os env) workDir a b" "trace_kept (en_os env) workDir b c"
  then show "trace_kept (en_os env) workDir a c"
    unfolding trace_kept_def by (metis append.assoc list_all_append)
qed (simp_all add: trace_kept_def)

text \<open>The session folders: every one of them stays a directory with distinct names.\<close>

definition folder_ok :: "session_folder \<Rightarrow> bool" where
  "folder_ok f \<longleftrightarrow> is_go_map (sf_meta f) \<and> is_go_map (sf_context f) \<and> (\<forall>d. is_go_map (sf_hist f d))"

lemma atomicWrite_map: "is_go_map d \<Longrightarrow> is_go_map (fst (atomicWrite fault d n x))"
  by (cases fault) (simp_all add: atomicWrite_def Let_def)

lemma AppendHistory_map: "is_go_map h \<Longrightarrow> is_go_map (fst (AppendHistory faults h ms))"
proof (induction faults h ms rule: AppendHistory.induct)
  case (2 faults hist msg msgs)
  let ?n = "history_name (m_Seq msg)"
  obtain h' e where w: "atomicWrite (faults ?n) hist ?n (message_entry msg) = (h', e)" by fastforce
  then have "is_go_map h'" using atomicWrite_map [OF 2(3), of "faults ?n" ?n "message_entry msg"] by simp
  with 2 w show ?case by (cases e) (simp_all add: Let_def)
qed simp

lemma write_meta_context_ok: "folder_ok f \<Longrightarrow> folder_ok (fst (write_meta_context io f meta msgs))"
  using atomicWrite_map [of "sf_meta f" "so_meta io" "''metadata.json''" meta]
    atomicWrite_map [of "sf_context f" "so_context io" "''context.json''" msgs]
  by (auto simp: write_meta_context_def folder_ok_def Let_def split: prod.split option.split)

lemma hist_ok: "folder_ok f \<Longrightarrow> is_go_map h \<Longrightarrow> folder_ok (f\<lparr>sf_hist := (sf_hist f)(d := h)\<rparr>)"
  by (simp add: folder_ok_def)

lemma Save_ok: "folder_ok f \<Longrightarrow> folder_ok (fst (Save io now d f st))"
  using AppendHistory_map [of "sf_hist f d" "so_hist io"]
  by (auto simp: Save_def Let_def folder_ok_def [of f] split: prod.split option.split
      intro!: hist_ok write_meta_context_ok) (auto simp: folder_ok_def prod_eq_iff)

lemma Load_ok:
  assumes "folder_ok f"
  shows "folder_ok (fst (Store_Load io now f))"
proof -
  have "folder_ok (fst (migrateToFolder io now f st))" for st
  proof -
    obtain h e where h: "AppendHistory (so_hist io) (sf_hist f []) (st_Messages st) = (h, e)" by fastforce
    then have f1: "folder_ok (f\<lparr>sf_hist := (sf_hist f)([] := h)\<rparr>)"
      using AppendHistory_map [of "sf_hist f []" "so_hist io" "st_Messages st"] assms
      by (auto intro!: hist_ok simp: folder_ok_def [of f])
    obtain f2 e2 where f2: "write_meta_context io (f\<lparr>sf_hist := (sf_hist f)([] := h)\<rparr>)
        (state_metadata st 0 now) (st_Messages st) = (f2, e2)" by fastforce
    then have "folder_ok f2" using write_meta_context_ok [OF f1] by (metis fst_conv)
    with assms f1 f2 h show ?thesis
      by (cases e; cases e2) (simp_all add: migrateToFolder_def, simp add: folder_ok_def)
  qed
  with assms show ?thesis by (auto simp: Store_Load_def split: option.split node.split)
qed

definition folders_kept :: "'w shared \<Rightarrow> 'w shared \<Rightarrow> bool" where
  "folders_kept a b \<longleftrightarrow> ((\<forall>i. folder_ok (sh_root a i)) \<longrightarrow> (\<forall>i. folder_ok (sh_root b i)))"

interpretation folders: shared_relation folders_kept env workDir for env workDir
  by unfold_locales (auto simp: folders_kept_def Save_ok Load_ok)

section \<open>Saving and resuming\<close>

fun outcome_status :: "core_error option \<Rightarrow> string" where
  "outcome_status None = ''completed''"
| "outcome_status (Some ErrFeedbackRequired) = ''suspended''"
| "outcome_status (Some _) = ''failed''"

text \<open>The last thing that happened from \<open>c\<close> to \<open>c'\<close> is that the session was saved with this status.\<close>

definition ends_saved :: "'w subagent option \<Rightarrow> 'w env \<Rightarrow> string \<Rightarrow> 'w agent_core \<Rightarrow> 'w agent_core \<Rightarrow> bool" where
  "ends_saved sub env status c c' \<longleftrightarrow> (\<exists>c0. (core_step sub env)\<^sup>*\<^sup>* c c0 \<and> c' = saveSession env status c0)"

lemma ends_savedI: "(core_step sub env)\<^sup>*\<^sup>* c c0 \<Longrightarrow> ends_saved sub env status c (saveSession env status c0)"
  by (auto simp: ends_saved_def)

lemma ends_saved_trans: "(core_step sub env)\<^sup>*\<^sup>* a b \<Longrightarrow> ends_saved sub env status b c \<Longrightarrow> ends_saved sub env status a c"
  unfolding ends_saved_def by (blast intro: rtranclp_trans)

lemma run_tool_calls_saved:
  assumes "run_tool_calls sub env tcs c = (c', Some r)"
  shows "ends_saved sub env ''suspended'' c c'"
  using assms
proof (induction tcs arbitrary: c)
  case (Cons tc tcs)
  obtain c1 x a where x: "executeTool sub env tc (Emit [call_event tc] c) = (c1, x, a)" by (metis prod_cases3)
  let ?c2 = "appendMessage (tool_message (tl_ID tc) x) (Emit [content_event EventToolResult x] c1)"
  have "c1 = fst (executeTool sub env tc (Emit [call_event tc] c))" using x by simp
  then have c2: "(core_step sub env)\<^sup>*\<^sup>* c ?c2"
    by (simp only:) (intro core_steps rtranclp.rtrancl_refl, simp_all add: tool_message_def chat_def)
  show ?case
  proof (cases a)
    case None
    with Cons.prems x have "run_tool_calls sub env tcs ?c2 = (c', Some r)" by (simp add: Let_def)
    from ends_saved_trans [OF c2 Cons.IH [OF this]] show ?thesis .
  next
    case (Some q)
    with Cons.prems x c2 show ?thesis by (cases q) (auto simp: Let_def intro!: ends_savedI core_steps)
  qed
qed simp

lemma run_loop_saved:
  "run_loop sub env n b c = (c', r, err) \<Longrightarrow> ends_saved sub env (outcome_status err) c c'"
proof (induction n arbitrary: b c)
  case (Suc n)
  obtain c1 s x where g: "generate env c = (c1, s, x)" by (metis prod_cases3)
  have c1: "(core_step sub env)\<^sup>*\<^sup>* c c1" using core_step.ask [of sub env c] g by (metis fst_conv r_into_rtranclp)
  show ?case
  proof (cases x)
    case (Inl e)
    obtain c2 k where k: "(if isContextLengthExceeded e then applyReactiveCompaction env c1 else (c1, False)) = (c2, k)"
      by fastforce
    have "(core_step sub env)\<^sup>*\<^sup>* c c2"
      using k c1 compaction_refused [of env c1 c2] core_step.compact [of env c1 c2 sub]
      by (cases k) (auto split: if_splits intro: rtranclp.rtrancl_into_rtrancl)
    with Suc g Inl k show ?thesis by (cases k) (auto intro: ends_savedI ends_saved_trans)
  next
    case (Inr resp)
    let ?a = "appendMessage ((chat ''assistant'' (lr_Content resp))\<lparr>cm_ToolCalls := lr_ToolCalls resp\<rparr>) c1"
    obtain c2 t where t: "run_tool_calls sub env (lr_ToolCalls resp) ?a = (c2, t)" by fastforce
    have a: "(core_step sub env)\<^sup>*\<^sup>* c ?a" using c1 by (rule core_steps(1)) (simp add: chat_def)
    have fin: "(core_step sub env)\<^sup>*\<^sup>* c (appendMessage (chat ''assistant'' y) (if s then c1 else Emit [content_event EventText z] c1))" for y z
      by (rule core_steps(1)) (auto simp: chat_def intro: core_steps c1)
    show ?thesis
    proof (cases "lr_ToolCalls resp = []")
      case True
      with Suc g Inr c1 fin show ?thesis by (auto split: if_splits intro: ends_savedI ends_saved_trans)
    next
      case False
      show ?thesis
      proof (cases t)
        case None
        have "(core_step sub env)\<^sup>*\<^sup>* c (saveSession env ''active'' c2)"
          using a run_tool_calls_steps [of sub env ?a "lr_ToolCalls resp"] t by (intro core_steps) (metis fst_conv rtranclp_trans)
        with Suc.IH [of False "saveSession env ''active'' c2"] Suc.prems False g Inr t None show ?thesis
          by (auto intro: ends_saved_trans)
      next
        case (Some q)
        with ends_saved_trans [OF a run_tool_calls_saved] t Suc.prems False g Inr show ?thesis by auto
      qed
    qed
  qed
qed (auto intro: ends_savedI)

text \<open>The identity of a session never changes.\<close>

lemma step_session: "core_step sub env c c' \<Longrightarrow> ac_store c' = ac_store c \<and> ac_sessionID c' = ac_sessionID c"
  by (cases rule: core_step.cases) (auto simp: core_simps elim: compaction_shape)

lemma steps_session: "(core_step sub env)\<^sup>*\<^sup>* c c' \<Longrightarrow> ac_store c' = ac_store c \<and> ac_sessionID c' = ac_sessionID c"
  by (induction rule: rtranclp_induct) (simp_all add: step_session)

definition good_store :: "'w env \<Rightarrow> bool" where
  "good_store env \<longleftrightarrow> (\<forall>n. so_mkdir (en_io env n) \<and> so_meta (en_io env n) = NoFault \<and> so_context (en_io env n) = NoFault \<and>
     (\<forall>x. so_hist (en_io env n) x = NoFault))"

lemma saveSession_loads:
  assumes "good_store env" "ac_store c = Some d" "ac_sessionID c \<noteq> []" "folder_ok (sh_root (ac_shared c) (ac_sessionID c))"
    and "ac_sessionID f = ac_sessionID c" "ac_shared f = ac_shared (saveSession env status c)"
  shows "\<exists>now f' st. load_state env f = (f', Inr (Some (st\<lparr>st_LastActivityAt := now\<rparr>))) \<and> st = core_state now status c \<and>
    ac_nextSeq f' = ac_nextSeq f"
proof -
  let ?sh = "ac_shared c"
  let ?n = "sh_saves ?sh"
  let ?now = "en_now env ?n"
  let ?st = "core_state ?now status c"
  obtain g t where g: "Save (en_io env ?n) ?now d (sh_root ?sh (ac_sessionID c)) ?st = (g, None)"
    "map_of (sf_context g) ''context.json'' = Some (Holds (st_Messages ?st))"
    "map_of (sf_meta g) ''metadata.json'' = Some (Holds (state_metadata ?st t ?now))"
    using Save_files [of "en_io env ?n" "sh_root ?sh (ac_sessionID c)" ?now d ?st] assms(1,4)
    by (auto simp: good_store_def folder_ok_def)
  then have "sh_root (ac_shared f) (ac_sessionID f) = g"
    using assms by (simp add: saveSession_def store_state_def)
  with g(2,3) have "snd (load_state env f) = Inr (Some (?st\<lparr>st_LastActivityAt := ?now\<rparr>))"
    by (simp add: load_state_def Let_def Store_Load_def loadFromFolder_def metadata_state_def state_metadata_def)
  moreover have "ac_nextSeq (fst (load_state env f)) = ac_nextSeq f"
    by (simp add: load_state_def Let_def case_prod_unfold)
  ultimately show ?thesis by (intro exI [of _ ?now] exI [of _ "fst (load_state env f)"]) (simp add: prod_eq_iff)
qed

lemma max_chat_seq_last:
  assumes "list_all (\<lambda>m. 0 \<le> cm_Seq m \<and> cm_Seq m \<le> n) ms" "if ms = [] then n = 0 else cm_Seq (last ms) = n"
  shows "max_chat_seq 0 ms = n"
proof (cases ms rule: rev_cases)
  case Nil
  with assms show ?thesis by (simp add: max_chat_seq_def)
next
  case (snoc ys y)
  have "max_chat_seq k zs \<le> n" if "k \<le> n" "list_all (\<lambda>m. 0 \<le> cm_Seq m \<and> cm_Seq m \<le> n) zs" for k zs
    using that by (induction zs arbitrary: k) (simp_all add: max_chat_seq_def)
  from this [of 0 ys] snoc assms show ?thesis by (auto simp: max_chat_seq_def)
qed


section \<open>The request budget\<close>

lemma executeTool_calls: "sh_calls (ac_shared (fst (executeTool None env tc c))) = sh_calls (ac_shared c)"
  by (cases rule: executeTool_cases [of None c tc env]) (simp_all add: core_simps)

lemma run_tool_calls_calls: "sh_calls (ac_shared (fst (run_tool_calls None env tcs c))) = sh_calls (ac_shared c)"
proof (induction tcs arbitrary: c)
  case (Cons tc tcs)
  obtain c1 x a where x: "executeTool None env tc (Emit [call_event tc] c) = (c1, x, a)" by (metis prod_cases3)
  then have "sh_calls (ac_shared c1) = sh_calls (ac_shared c)"
    using executeTool_calls [of env tc "Emit [call_event tc] c"] by (simp add: core_simps)
  with x Cons.IH show ?case by (auto simp: Let_def core_simps split: option.split)
qed simp

lemma run_loop_calls:
  "run_loop None env n b c = (c', r, err) \<Longrightarrow>
   sh_calls (ac_shared c') \<le> sh_calls (ac_shared c) + n \<and>
   (err = Some MaxIterations \<longrightarrow> sh_calls (ac_shared c') = sh_calls (ac_shared c) + n)"
proof (induction n arbitrary: b c)
  case (Suc n)
  obtain c1 s x where g: "generate env c = (c1, s, x)" by (metis prod_cases3)
  have k1: "sh_calls (ac_shared c1) = Suc (sh_calls (ac_shared c))" using generate_fields(9) [of env c] g by simp
  have comp: "sh_calls (ac_shared c2) = sh_calls (ac_shared c1)" if "applyReactiveCompaction env c1 = (c2, k)" for c2 k
    using that compaction_refused [of env c1 c2] by (cases k) (auto elim: compaction_shape)
  show ?case
  proof (cases x)
    case (Inl e)
    obtain c2 k where k: "(if isContextLengthExceeded e then applyReactiveCompaction env c1 else (c1, False)) = (c2, k)"
      by fastforce
    with comp k1 have "sh_calls (ac_shared c2) = Suc (sh_calls (ac_shared c))" by (fastforce split: if_splits)
    with Suc.IH [of b c2] Suc.prems g Inl k show ?thesis by (cases k) (auto simp: core_simps)
  next
    case (Inr resp)
    let ?a = "appendMessage ((chat ''assistant'' (lr_Content resp))\<lparr>cm_ToolCalls := lr_ToolCalls resp\<rparr>) c1"
    obtain c2 t where t: "run_tool_calls None env (lr_ToolCalls resp) ?a = (c2, t)" by fastforce
    then have "sh_calls (ac_shared c2) = Suc (sh_calls (ac_shared c))"
      using run_tool_calls_calls [of env "lr_ToolCalls resp" ?a] k1 by (simp add: core_simps)
    with Suc.IH [of False "saveSession env ''active'' c2"] Suc.IH [of True c1] Suc.prems g Inr t k1 show ?thesis
      by (cases t) (auto simp: core_simps split: if_splits)
  qed
qed (auto simp: core_simps)


section \<open>What compaction forgets\<close>

text \<open>What the boundaries and the summaries look at in a message.\<close>

definition view :: "Message \<Rightarrow> string \<times> bool \<times> string \<times> string" where
  "view m = (m_Role m, calls_tools m, log_line m, fallback_line m)"

lemma view_nth:
  assumes "map view xs = map view ys" "i < length xs"
  shows "m_Role (xs ! i) = m_Role (ys ! i)" "calls_tools (xs ! i) = calls_tools (ys ! i)"
proof -
  have "length xs = length ys" using assms(1) by (rule map_eq_imp_length_eq)
  then have "view (xs ! i) = view (ys ! i)" using assms by (metis nth_map)
  then show "m_Role (xs ! i) = m_Role (ys ! i)" "calls_tools (xs ! i) = calls_tools (ys ! i)"
    by (simp_all add: view_def)
qed

lemma shift_back_cong: "(\<And>i. i \<le> b \<Longrightarrow> P (xs ! i) = P (ys ! i)) \<Longrightarrow> shift_back P xs b = shift_back P ys b"
  by (induction b) auto

lemma view_boundaries:
  assumes "map view xs = map view ys"
  shows "adjustBoundaryForToolPairs xs b = adjustBoundaryForToolPairs ys b"
    "adjustBoundaryForUserStart xs b = adjustBoundaryForUserStart ys b"
proof -
  note len = map_eq_imp_length_eq [OF assms]
  have role: "m_Role (xs ! i) = m_Role (ys ! i)" "calls_tools (xs ! i) = calls_tools (ys ! i)" if "b < length xs" "i \<le> b" for i
    using view_nth [OF assms, of i] that by simp_all
  have "shift_back (\<lambda>m. m_Role m = r) xs b = shift_back (\<lambda>m. m_Role m = r) ys b"
    "shift_back (\<lambda>m. m_Role m \<noteq> r) xs b = shift_back (\<lambda>m. m_Role m \<noteq> r) ys b" if "b < length xs" for r
    using role [OF that] by (auto intro!: shift_back_cong)
  with role role(2) [OF _ shift_back_le] len
  show "adjustBoundaryForToolPairs xs b = adjustBoundaryForToolPairs ys b"
    "adjustBoundaryForUserStart xs b = adjustBoundaryForUserStart ys b"
    by (simp_all add: adjustBoundaryForToolPairs_def adjustBoundaryForUserStart_def Let_def)
qed

lemma view_cut_at:
  assumes "map view xs = map view ys"
  shows "map (map view) (cut_at p bs xs) = map (map view) (cut_at p bs ys)"
proof (induction bs arbitrary: p)
  case Nil
  have "map view (drop p xs) = map view (drop p ys)" by (metis assms drop_map)
  with map_eq_imp_length_eq [OF assms] show ?case by simp
next
  case (Cons b bs)
  have "map view (take k (drop p xs)) = map view (take k (drop p ys))" for k by (metis assms drop_map take_map)
  with Cons show ?case by simp
qed

lemma view_chunks:
  assumes "map view xs = map view ys"
  shows "map (map view) (splitIntoChunks k xs) = map (map view) (splitIntoChunks k ys)"
  using view_cut_at [OF assms] view_boundaries(1) [OF assms] map_eq_imp_length_eq [OF assms] assms
  by (simp add: splitIntoChunks_def Let_def)

lemma view_texts:
  assumes "map view xs = map view ys"
  shows "buildConversationLog xs = buildConversationLog ys" "structuredFallbackSummary xs = structuredFallbackSummary ys"
proof -
  have l: "buildConversationLog zs = concat (map (fst \<circ> snd \<circ> snd) (map view zs))" for zs
    by (simp add: buildConversationLog_def view_def comp_def)
  have f: "structuredFallbackSummary zs = concat (map (snd \<circ> snd \<circ> snd) (map view zs))" for zs
    by (simp add: structuredFallbackSummary_def view_def comp_def)
  show "buildConversationLog xs = buildConversationLog ys" by (simp only: l assms)
  show "structuredFallbackSummary xs = structuredFallbackSummary ys" by (simp only: f assms)
qed

lemma view_summary:
  assumes "map view xs = map view ys"
  shows "compactionSummarizer ask xs = compactionSummarizer ask ys"
proof -
  define f where "f = (\<lambda>chunk. case llmSummarizeChunk ask chunk of Inr t \<Rightarrow> t | Inl _ \<Rightarrow> structuredFallbackSummary chunk)"
  have same: "f a = f b" if "map view a = map view b" for a b
    unfolding f_def llmSummarizeChunk_def view_texts [OF that] by (rule refl)
  have "map f as = map f bs" if "map (map view) as = map (map view) bs" for as bs
    using that
  proof (induction as arbitrary: bs)
    case (Cons a as)
    then obtain b bs' where b: "bs = b # bs'" "map view a = map view b" "map (map view) as = map (map view) bs'"
      by (cases bs) auto
    with Cons.IH [OF b(3)] same [OF b(2)] show ?case by simp
  qed simp
  from this [OF view_chunks [OF assms], of 20] show ?thesis
    by (simp add: compactionSummarizer_def Summarize_def NewMapReduceSummarizer_def f_def cong: sum.case_cong)
qed

lemma Compact_unpinned:
  assumes "list_all (\<lambda>m. \<not> m_Pinned m) zs"
  shows "Compact cnt f zs =
    (let n = adjustBoundaryForUserStart zs (adjustBoundaryForToolPairs zs (nat (cnt (length zs))))
     in if int (length zs) - cnt (length zs) \<le> 0 \<or> cnt (length zs) \<le> 0 \<or> n = 0 then (zs, None)
        else case f (take n zs) of
               Inl e \<Rightarrow> (zs, Some e)
             | Inr summary \<Rightarrow>
                 if \<not> validateToolPairIntegrity (summary_message summary # drop n zs) \<or>
                    \<not> validateMessageOrdering (summary_message summary # drop n zs)
                 then (zs, None) else (summary_message summary # drop n zs, None))"
proof -
  have "filter (\<lambda>m. \<not> m_Pinned m) zs = zs" "filter m_Pinned zs = []"
    using assms by (auto simp: filter_id_conv filter_empty_conv list_all_iff)
  then show ?thesis by (simp add: Compact_def Let_def split: sum.split)
qed

lemma Compact_view:
  assumes "map view (x # rest) = map view (y # rest)"
    and "list_all (\<lambda>m. \<not> m_Pinned m) (x # rest)" "list_all (\<lambda>m. \<not> m_Pinned m) (y # rest)"
    and "Compact half_up (compactionSummarizer ask) (x # rest) = (r, e)" "length r < Suc (length rest)"
  shows "Compact half_up (compactionSummarizer ask) (y # rest) = (r, e)"
proof -
  let ?f = "compactionSummarizer ask" and ?k = "half_up (Suc (length rest))"
  define n where "n = adjustBoundaryForUserStart (y # rest) (adjustBoundaryForToolPairs (y # rest) (nat ?k))"
  have n: "n = adjustBoundaryForUserStart (x # rest) (adjustBoundaryForToolPairs (x # rest) (nat ?k))"
    using view_boundaries [OF assms(1)] by (simp add: n_def)
  have "map view (take n (x # rest)) = map view (take n (y # rest))" by (metis assms(1) take_map)
  from view_summary [OF this] have s: "?f (take n (x # rest)) = ?f (take n (y # rest))" .
  obtain summary where y: "?f (take n (y # rest)) = Inr summary" by (simp add: compactionSummarizer_def)
  with s have x: "?f (take n (x # rest)) = Inr summary" by simp
  have d: "n \<noteq> 0 \<Longrightarrow> drop n (x # rest) = drop n (y # rest)" by (cases n) simp_all
  note cx = Compact_unpinned [OF assms(2), of half_up ?f, unfolded list.size add_Suc_right add_0_right, folded n, unfolded Let_def x]
  note cy = Compact_unpinned [OF assms(3), of half_up ?f, unfolded list.size add_Suc_right add_0_right, folded n_def, unfolded Let_def y]
  show ?thesis
    using assms(4,5) d unfolding cx cy by (auto split: if_splits)
qed

text \<open>
  Compaction forgets the instructions: when the conversation has to be compacted, two agents that
  differ only in their system prompt, which stands first in the conversation, go on with exactly the
  same messages. The prompt is neither kept (the session messages are never pinned) nor shown to the
  summarizer, and so is the summary of an earlier compaction when it is compacted again.
\<close>

theorem compaction_forgets_prompt:
  assumes "ac_messages c = chat ''system'' p # rest" "applyReactiveCompaction env c = (c', True)"
  shows "applyReactiveCompaction env (c\<lparr>ac_messages := chat ''system'' q # rest\<rparr>) = (c', True)"
proof -
  define now where "now = en_now env (sh_saves (ac_shared c))"
  let ?f = "compactionSummarizer (en_ask env (sh_calls (ac_shared c)))"
  define t where "t = (\<lambda>ms. TrimLongContent (convertToSessionMessages now ms) 5000)"
  have t: "t (chat ''system'' s # rest) = hd (t [chat ''system'' s]) # t rest" "length (t ms) = length ms"
    "TrimLongContent (convertToSessionMessages now ms) 5000 = t ms" for s ms
    by (simp_all add: t_def TrimLongContent_def convertToSessionMessages_def)
  have np: "list_all (\<lambda>m. \<not> m_Pinned m) (t ms)" for ms
    by (auto simp: t_def TrimLongContent_def convertToSessionMessages_def list_all_iff)
  have v: "view (hd (t [chat ''system'' s])) = (''system'', False, [], [])" for s
    by (simp add: t_def TrimLongContent_def convertToSessionMessages_def chat_def view_def calls_tools_def log_line_def fallback_line_def)
  obtain r where r: "Compact half_up ?f (t (chat ''system'' p # rest)) = (r, None)" "length r < Suc (length rest)"
    "c' = c\<lparr>ac_messages := convertFromSessionMessages r\<rparr>"
    using assms by (auto simp: applyReactiveCompaction_def now_def [symmetric] t(2,3) Let_def split: prod.splits option.splits if_splits)
  have "Compact half_up ?f (hd (t [chat ''system'' q]) # t rest) = (r, None)"
    by (rule Compact_view [of "hd (t [chat ''system'' p])"])
      (use r v np [of "chat ''system'' p # rest"] np [of "chat ''system'' q # rest"] in \<open>simp_all add: t(1,2)\<close>)
  with r(2,3) show ?thesis
    by (simp add: applyReactiveCompaction_def now_def [symmetric] t Let_def)
qed

section \<open>A concrete agent\<close>

definition sample_env :: "unit env" where
  "sample_env = \<lparr>en_llm = (\<lambda>n ms. ([], Inr \<lparr>lr_Content = ''ok'', lr_ToolCalls = [], lr_StopReason = []\<rparr>)),
     en_ask = (\<lambda>n ms. Inl ''offline''), en_os = sample_os,
     en_io = (\<lambda>n. \<lparr>so_mkdir = True, so_meta = NoFault, so_context = NoFault, so_hist = (\<lambda>_. NoFault)\<rparr>),
     en_now = int, en_exists = (\<lambda>w p. True), en_alive = (\<lambda>w p. True), en_error = (\<lambda>e. []), en_quote = (\<lambda>s. s)\<rparr>"

definition sample_config :: CoreConfig where
  "sample_config = \<lparr>cf_WorkDir = ''/w'', cf_SessionDir = ''/s'', cf_LogicalModel = ''m'', cf_AllowedPathPatterns = [],
     cf_SystemPrompt = ''be kind'', cf_EnableSubagent = False, cf_StructuredOutput = False, cf_CompactionRatio = float_half\<rparr>"

definition sample_shared :: "unit shared" where
  "sample_shared = \<lparr>sh_world = (), sh_trace = [],
     sh_root = (\<lambda>i. \<lparr>sf_meta = [], sf_context = [], sf_hist = (\<lambda>d. []), sf_legacy = None\<rparr>),
     sh_events = [], sh_calls = 0, sh_saves = 0\<rparr>"

definition sample_core :: "unit agent_core" where
  "sample_core = (NewAgentCore False sample_config sample_shared)\<lparr>ac_sessionID := ''s1''\<rparr>"

lemmas sample_defs = sample_core_def sample_shared_def sample_config_def NewAgentCore_def

lemma sample_ok: "seq_ok sample_core" "conv_ok (ac_messages sample_core)" "good_store sample_env"
  "folder_ok (sh_root (ac_shared sample_core) i)" "ac_store sample_core = Some []" "ac_sessionID sample_core \<noteq> []"
  by (simp_all add: seq_ok_def conv_ok_def good_store_def folder_ok_def sample_defs sample_env_def)

theorem runSimple_numbering_witness: "seq_ok (fst (runSimple None sample_env ''hi'' sample_core))"
  using runSimple_numbering [OF sample_ok(1), of None sample_env "''hi''"] by (metis prod.collapse)


theorem ask_user_leaves_calls_open_witness:
  "let ask = \<lparr>tl_ID = ''1'', tl_Name = ''ask_user'', tl_Input = [(''prompt'', JStr ''why'')]\<rparr>;
       list = \<lparr>tl_ID = ''2'', tl_Name = ''list_directory'', tl_Input = []\<rparr>;
       c = sample_core\<lparr>ac_messages := [(chat ''assistant'' [])\<lparr>cm_ToolCalls := [ask, list]\<rparr>]\<rparr>
   in pend [] (ac_messages (fst (run_tool_calls None sample_env [ask, list] c))) = Some [''2'']"
proof -
  let ?ask = "\<lparr>tl_ID = ''1'', tl_Name = ''ask_user'', tl_Input = [(''prompt'', JStr ''why'')]\<rparr>"
  let ?list = "\<lparr>tl_ID = ''2'', tl_Name = ''list_directory'', tl_Input = []\<rparr>"
  let ?c = "sample_core\<lparr>ac_messages := [(chat ''assistant'' [])\<lparr>cm_ToolCalls := [?ask, ?list]\<rparr>]\<rparr>"
  from ask_user_leaves_calls_open [of ?c ?ask ?list "[]" None sample_env, OF _ _ _ prod.collapse [symmetric]]
  show ?thesis by (simp add: chat_def str_arg_def Let_def)
qed



theorem compaction_forgets_prompt_witness:
  "let rest = [chat ''user'' ''a'', chat ''user'' ''b'', chat ''user'' ''c'']
   in fst (applyReactiveCompaction sample_env (sample_core\<lparr>ac_messages := chat ''system'' ''be kind'' # rest\<rparr>))
    = fst (applyReactiveCompaction sample_env (sample_core\<lparr>ac_messages := chat ''system'' ''be cruel'' # rest\<rparr>))"
proof -
  let ?rest = "[chat ''user'' ''a'', chat ''user'' ''b'', chat ''user'' ''c'']"
  let ?c = "sample_core\<lparr>ac_messages := chat ''system'' ''be kind'' # ?rest\<rparr>"
  have "snd (applyReactiveCompaction sample_env ?c)"
    by (simp add: applyReactiveCompaction_def Let_def sample_env_def sample_defs convertToSessionMessages_def chat_def
        TrimLongContent_def Compact_unpinned half_up_def adjustBoundaryForUserStart_def adjustBoundaryForToolPairs_def
        compactionSummarizer_def validateToolPairIntegrity_def validateMessageOrdering_def summary_message_def message_def
        upt_rec)
  then have "applyReactiveCompaction sample_env ?c = (fst (applyReactiveCompaction sample_env ?c), True)"
    by (simp add: prod_eq_iff)
  from compaction_forgets_prompt [OF _ this, of "''be kind''" ?rest "''be cruel''"] show ?thesis by (simp add: Let_def)
qed

end
