(* ===== verification/Agent_Planning.thy ===== *)
theory Agent_Planning
  imports Agent_Core WBS_Planning Agent_Protocol
begin

text \<open>
  The parts around the tool loop of the built-in agent: the router that chooses between a direct run
  and a plan (\<open>wayfinder/execution_router.go\<close>), the subagent that runs a tool in a child session
  (\<open>wayfinder/subagent\<close>), child sessions (\<open>agent_runner.go\<close>), the execution of a plan
  (\<open>runWithWBSTree\<close> and the node executors of \<open>agent_core.go\<close>), \<open>Run\<close> itself and the session of
  the adapter (\<open>adapter.go\<close>).

  Beyond the parameters of the core: \<open>ho_parse\<close> parses JSON text, \<open>ho_marshal\<close> and \<open>ho_unmarshal\<close>
  encode and decode a plan, \<open>ho_show\<close> prints a map with \<open>%v\<close>, \<open>ho_text\<close> is the text of a run error,
  \<open>ho_getwd\<close> the current directory, \<open>ho_uuid\<close> a fresh id, \<open>ho_ctxErr\<close> the error of the context
  before the n-th node. The fixed system prompts are named, not spelled out.
\<close>

section \<open>Parameters\<close>

datatype run_error = CoreFailed core_error | WBSFailed wbs_error | ConfigFailed string

record 'w host =
  ho_env :: "'w env"
  ho_parse :: "string \<Rightarrow> json option"
  ho_marshal :: "WBSTree \<Rightarrow> string"
  ho_unmarshal :: "string \<Rightarrow> WBSTree option"
  ho_show :: "tool_input \<Rightarrow> string"
  ho_text :: "run_error \<Rightarrow> string"
  ho_getwd :: "(string, string) result"
  ho_uuid :: "nat \<Rightarrow> string"
  ho_ctxErr :: "nat \<Rightarrow> string option"

section \<open>The router\<close>

datatype ExecutionRoute = RouteSimple | RoutePlanning

abbreviation routerSystemPrompt :: string where "routerSystemPrompt \<equiv> ''routerSystemPrompt''"

definition braces :: "string \<Rightarrow> string option" where
  "braces content =
     (case (strIndex content ''{'', strLastIndex content ''}'') of
        (Some idx, Some endIdx) \<Rightarrow> if idx < endIdx then Some (take (endIdx + 1 - idx) (drop idx content)) else None
      | _ \<Rightarrow> None)"

definition extractRouterJSON :: "string \<Rightarrow> string" where
  "extractRouterJSON content =
     (let content = TrimSpace content in case braces content of Some j \<Rightarrow> j | None \<Rightarrow> content)"

definition Route ::
  "(string \<Rightarrow> json option) \<Rightarrow> bool \<Rightarrow> (ChatMessage list \<Rightarrow> (string, LLMResponse) result) \<Rightarrow> string \<Rightarrow> ExecutionRoute \<times> string" where
  "Route parse useStructuredOutput ask prompt =
     (case ask [chat ''system'' routerSystemPrompt, chat ''user'' prompt] of
        Inl e \<Rightarrow> (RouteSimple, ''routing failed, defaulting to simple'')
      | Inr resp \<Rightarrow>
          (case parse (if useStructuredOutput then lr_Content resp else extractRouterJSON (lr_Content resp)) of
             None \<Rightarrow> (RouteSimple, ''failed to parse routing response'')
           | Some j \<Rightarrow>
               (let (route, ok1) = dec_field ''route'' dec_str [] j; (reason, ok2) = dec_field ''reason'' dec_str [] j
                in if \<not> ok1 \<or> \<not> ok2 then (RouteSimple, ''failed to parse routing response'')
                   else if route = ''planning'' then (RoutePlanning, reason)
                   else (RouteSimple, reason))))"

section \<open>Hints and summaries\<close>

record Hints =
  hi_Objective :: string
  hi_Context :: string
  hi_Constraints :: string

definition no_hints :: Hints where
  "no_hints = \<lparr>hi_Objective = [], hi_Context = [], hi_Constraints = []\<rparr>"

abbreviation hintSystemPrompt :: string where "hintSystemPrompt \<equiv> ''hintSystemPrompt''"

definition buildHintExtractionPrompt :: "(string \<times> string) list \<Rightarrow> string \<Rightarrow> tool_input \<Rightarrow> string" where
  "buildHintExtractionPrompt messages toolName toolInput =
     (let recent = (if 5 < length messages then drop (length messages - 5) messages else messages)
      in ''Recent conversation:'' @ nl @
         concat (map (\<lambda>(role, content). ''  ['' @ role @ '']: '' @
           (if 200 < length content then take 200 content @ ''...'' else content) @ nl) recent) @
         nl @ ''Tool being called: '' @ toolName @ nl @ ''Tool input: '' @ status_json toolInput @ nl)"

text \<open>\<open>json.Unmarshal\<close> into \<open>hints\<close>: text that is not JSON changes nothing, a type error leaves what was decoded.\<close>

definition unmarshal_hints :: "(string \<Rightarrow> json option) \<Rightarrow> string \<Rightarrow> Hints \<Rightarrow> Hints \<times> bool" where
  "unmarshal_hints parse text h =
     (case parse text of
        None \<Rightarrow> (h, False)
      | Some j \<Rightarrow>
          (let (a, ok1) = dec_field ''objective'' dec_str (hi_Objective h) j;
               (b, ok2) = dec_field ''context'' dec_str (hi_Context h) j;
               (c, ok3) = dec_field ''constraints'' dec_str (hi_Constraints h) j
           in (\<lparr>hi_Objective = a, hi_Context = b, hi_Constraints = c\<rparr>, ok1 \<and> ok2 \<and> ok3)))"

definition parseHintsFromResponse :: "(string \<Rightarrow> json option) \<Rightarrow> string \<Rightarrow> Hints option" where
  "parseHintsFromResponse parse content =
     (let content = TrimSpace content
      in case unmarshal_hints parse content no_hints of
           (hints, True) \<Rightarrow> Some hints
         | (hints, False) \<Rightarrow>
             (case braces content of
                None \<Rightarrow> None
              | Some jsonStr \<Rightarrow>
                  (case unmarshal_hints parse jsonStr hints of (hints, True) \<Rightarrow> Some hints | _ \<Rightarrow> None)))"

definition GenerateHints ::
  "(string \<Rightarrow> json option) \<Rightarrow> (ChatMessage list \<Rightarrow> (string, LLMResponse) result) \<Rightarrow> (string \<times> string) list \<Rightarrow> string
   \<Rightarrow> tool_input \<Rightarrow> (string, Hints) result" where
  "GenerateHints parse ask parentMessages toolName toolInput =
     bind_res (ask [chat ''system'' hintSystemPrompt,
         chat ''user'' (buildHintExtractionPrompt parentMessages toolName toolInput)]) (\<lambda>resp.
       Inr (case parseHintsFromResponse parse (lr_Content resp) of
              Some hints \<Rightarrow> hints
            | None \<Rightarrow> no_hints\<lparr>hi_Objective := lr_Content resp, hi_Context := ''Failed to parse structured hints''\<rparr>))"

abbreviation detailedSummarySystemPrompt :: string where "detailedSummarySystemPrompt \<equiv> ''detailedSummarySystemPrompt''"
abbreviation outcomeSummarySystemPrompt :: string where "outcomeSummarySystemPrompt \<equiv> ''outcomeSummarySystemPrompt''"

definition summarizeWithPrompt ::
  "(ChatMessage list \<Rightarrow> (string, LLMResponse) result) \<Rightarrow> string \<Rightarrow> Hints \<Rightarrow> string \<Rightarrow> (string, string) result" where
  "summarizeWithPrompt ask systemPrompt hints rawOutput =
     (let truncated = (if 50000 < length rawOutput then take 50000 rawOutput @ nl @ ''... [OUTPUT TRUNCATED]'' else rawOutput)
      in answer_text (ask [chat ''system'' systemPrompt,
           chat ''user'' (''Parent'' @ [CHR 0x27] @ ''s Objective: '' @ hi_Objective hints @ nl @
             ''Parent'' @ [CHR 0x27] @ ''s Context: '' @ hi_Context hints @ nl @ nl @ ''Raw Output:'' @ nl @ truncated)]))"

section \<open>Plans\<close>

text \<open>What \<open>Run\<close> is wired with: the subagent, router, planner and the executor of a plan's nodes.\<close>

type_synonym 'w node_exec = "WBSNode \<Rightarrow> 'w agent_core \<Rightarrow> 'w agent_core \<times> exec_result"

record 'w parts =
  pa_sub :: "'w subagent option"
  pa_router :: bool
  pa_planner :: bool
  pa_node :: "'w node_exec"

definition PersistWBS :: "'w host \<Rightarrow> WBSTree \<Rightarrow> 'w agent_core \<Rightarrow> 'w agent_core" where
  "PersistWBS host tree c =
     store_state (ho_env host) (\<lambda>now. (core_state now ''active'' c)\<lparr>st_WBSTreeJSON := ho_marshal host tree,
       st_CreatedAt := None, st_LastActivityAt := now\<rparr>) c"

text \<open>
  The orchestrator with its callbacks connected to the agent: a status change is persisted in the
  session, an event goes to the emitter, and the executor of a node is the agent itself.
\<close>

definition mark :: "'w host \<Rightarrow> string \<Rightarrow> string \<Rightarrow> string \<Rightarrow> wbs_state \<times> 'w agent_core \<Rightarrow> wbs_state \<times> 'w agent_core" where
  "mark host i status result sc =
     (let s = set_status i status result (fst sc) in (s, PersistWBS host (ws_tree s) (snd sc)))"

definition report :: "string \<Rightarrow> string \<Rightarrow> wbs_state \<times> 'w agent_core \<Rightarrow> wbs_state \<times> 'w agent_core" where
  "report ty content sc = (emit ty content (fst sc), Emit [content_event ty content] (snd sc))"

fun run_nodes_core ::
  "'w host \<Rightarrow> 'w node_exec \<Rightarrow> WBSNode list \<Rightarrow> wbs_state \<times> 'w agent_core \<Rightarrow> (wbs_state \<times> 'w agent_core) \<times> wbs_error option" where
  "run_nodes_core host exec [] sc = (sc, None)"
| "run_nodes_core host exec (node # nodes) sc =
     (case ho_ctxErr host (length (ws_calls (fst sc))) of
        Some e \<Rightarrow> (sc, Some (Cancelled e))
      | None \<Rightarrow>
          (let (s, c) = report ''node_start'' (node_title node) (mark host (wn_ID node) StatusRunning [] sc);
               s = s\<lparr>ws_calls := ws_calls s @ [node]\<rparr>;
               (c, r) = exec node c
           in case r of
                Suspend result \<Rightarrow>
                  (report ''node_suspended'' (node_title node) (mark host (wn_ID node) StatusSuspended result (s, c)),
                   Some ErrSuspended)
              | Fail e \<Rightarrow>
                  (let sc = report ''node_failed'' (node_title node @ '' - '' @ e)
                              (mark host (wn_ID node) StatusFailed (''Error: '' @ e) (s, c))
                   in (sc, Some (handleFailure (ws_tree (fst sc)))))
              | Finished result \<Rightarrow>
                  (let sc = report ''node_complete'' (node_title node)
                              (mark host (wn_ID node) StatusCompleted result (s, c));
                       (completed, total) = Progress (ws_tree (fst sc));
                       sc = report ''progress'' (Itoa (int completed) @ ''/'' @ Itoa (int total)) sc
                   in run_nodes_core host exec nodes sc)))"

text \<open>
  The agent's orchestrator answers like the orchestrator of the planning component does for the same
  results, so that what is proved there about every executor holds here.
\<close>

lemma set_status_calls [simp]: "length (ws_calls (set_status i st r s)) = length (ws_calls s)"
  by simp

lemma run_nodes_core_sim:
  assumes "run_nodes_core host exec nodes (s, c) = ((s', c'), e)"
  shows "\<exists>rs. length (ws_calls s') = length (ws_calls s) + length rs \<and>
    (\<forall>ora. (\<forall>i < length rs. \<forall>n. ora (length (ws_calls s) + i) n = rs ! i) \<longrightarrow>
       run_nodes ora (ho_ctxErr host) nodes s = (s', e))"
  using assms
proof (induction nodes arbitrary: s c)
  case (Cons node nodes)
  show ?case
  proof (cases "ho_ctxErr host (length (ws_calls s))")
    case (Some x)
    with Cons.prems show ?thesis by (intro exI [of _ "[]"]) auto
  next
    case None
    let ?s1 = "emit ''node_start'' (node_title node) (set_status (wn_ID node) StatusRunning [] s)"
    let ?s2 = "?s1\<lparr>ws_calls := ws_calls s @ [node]\<rparr>"
    obtain c1 r where r: "exec node (snd (report ''node_start'' (node_title node) (mark host (wn_ID node) StatusRunning [] (s, c)))) = (c1, r)"
      by fastforce
    show ?thesis
    proof (cases r)
      case (Finished result)
      obtain s3 c3 where s3: "run_nodes_core host exec nodes (s3, c3) = ((s', c'), e)"
        and "s3 = emit ''progress'' (Itoa (int (fst (Progress (ws_tree (set_status (wn_ID node) StatusCompleted result ?s2))))) @ ''/'' @
            Itoa (int (snd (Progress (ws_tree (set_status (wn_ID node) StatusCompleted result ?s2))))))
          (emit ''node_complete'' (node_title node) (set_status (wn_ID node) StatusCompleted result ?s2))"
        using Cons.prems None r Finished
        by (simp add: Let_def report_def mark_def case_prod_unfold emit_def)
      from Cons.IH [OF s3] obtain rs where rs: "length (ws_calls s') = length (ws_calls s3) + length rs"
        "\<And>ora. (\<forall>i < length rs. \<forall>n. ora (length (ws_calls s3) + i) n = rs ! i) \<Longrightarrow>
           run_nodes ora (ho_ctxErr host) nodes s3 = (s', e)" by blast
      have l: "length (ws_calls s3) = Suc (length (ws_calls s))" by (simp add: \<open>s3 = _\<close>)
      show ?thesis
      proof (intro exI [of _ "r # rs"] conjI allI impI)
        fix ora :: executor
        assume orc: "\<forall>i < length (r # rs). \<forall>n. ora (length (ws_calls s) + i) n = (r # rs) ! i"
        have "ora (length (ws_calls s)) node = r" using orc [rule_format, of 0] by simp
        moreover have "run_nodes ora (ho_ctxErr host) nodes s3 = (s', e)"
          by (intro rs(2) allI impI) (use orc [rule_format, of "Suc _"] l in simp)
        ultimately show "run_nodes ora (ho_ctxErr host) (node # nodes) s = (s', e)"
          using None Finished \<open>s3 = _\<close> by (simp add: Let_def case_prod_unfold emit_def)
      qed (use rs(1) l in simp)
    qed (use Cons.prems None r in \<open>intro exI [of _ "[r]"], auto simp: Let_def report_def mark_def emit_def set_status_def case_prod_unfold\<close>)+
  qed
qed simp

lemma run_nodes_core_progress:
  assumes "run_nodes_core host exec (NextExecutableNodes (ws_tree (fst sc))) sc = (sc', None)"
    and "NextExecutableNodes (ws_tree (fst sc)) \<noteq> []"
  shows "pending (flat (ws_tree (fst sc'))) < pending (flat (ws_tree (fst sc)))"
proof -
  obtain s c s' c' where sc: "sc = (s, c)" "sc' = (s', c')" by (metis surj_pair)
  from assms(1) run_nodes_core_sim [of host exec "NextExecutableNodes (ws_tree s)" s c s' c' None] obtain rs where
    rs: "length (ws_calls s') = length (ws_calls s) + length rs"
    "\<And>ora. (\<forall>i < length rs. \<forall>n. ora (length (ws_calls s) + i) n = rs ! i) \<Longrightarrow>
       run_nodes ora (ho_ctxErr host) (NextExecutableNodes (ws_tree s)) s = (s', None)" unfolding sc by auto
  have "run_nodes (\<lambda>k n. rs ! (k - length (ws_calls s))) (ho_ctxErr host) (NextExecutableNodes (ws_tree s)) s = (s', None)"
    by (rule rs(2)) simp
  from run_nodes_progress [OF this] assms(2) show ?thesis by (simp add: sc)
qed

function Execute_core ::
  "'w host \<Rightarrow> 'w node_exec \<Rightarrow> wbs_state \<times> 'w agent_core \<Rightarrow> (wbs_state \<times> 'w agent_core) \<times> wbs_error option" where
  "Execute_core host exec sc =
     (let tree = ws_tree (fst sc)
      in if IsComplete tree then (sc, None)
         else if HasFailed tree then (sc, Some (handleFailure tree))
         else if IsDeadlocked tree then (sc, Some Deadlocked)
         else if length (NextExecutableNodes tree) = 0 then (sc, Some NoExecutable)
         else case run_nodes_core host exec (NextExecutableNodes tree) sc of
                (sc', Some e) \<Rightarrow> (sc', Some e)
              | (sc', None) \<Rightarrow> Execute_core host exec sc')"
  by pat_completeness auto
termination
  by (relation "measure (\<lambda>(host, exec, sc). pending (flat (ws_tree (fst sc))))")
    (auto intro: run_nodes_core_progress)

declare Execute_core.simps [simp del]

definition runWithWBSTree ::
  "'w host \<Rightarrow> 'w parts \<Rightarrow> WBSTree \<Rightarrow> 'w agent_core \<Rightarrow> 'w agent_core \<times> string \<times> run_error option" where
  "runWithWBSTree host parts tree c =
     (case Execute_core host (pa_node parts) (start_state tree, c) of
        ((s, c), Some ErrSuspended) \<Rightarrow>
          (saveSession (ho_env host) ''suspended'' c, CollectResults (ws_tree s), Some (CoreFailed ErrFeedbackRequired))
      | ((s, c), Some e) \<Rightarrow> (saveSession (ho_env host) ''failed'' c, [], Some (WBSFailed e))
      | ((s, c), None) \<Rightarrow> (saveSession (ho_env host) ''completed'' c, CollectResults (ws_tree s), None))"

definition loadWBSFromSession :: "'w host \<Rightarrow> 'w agent_core \<Rightarrow> 'w agent_core \<times> WBSTree option" where
  "loadWBSFromSession host c =
     (if ac_store c = None \<or> ac_sessionID c = [] then (c, None)
      else case load_state (ho_env host) c of
             (c, Inr (Some state)) \<Rightarrow>
               (c, if st_WBSTreeJSON state = [] then None else ho_unmarshal host (st_WBSTreeJSON state))
           | (c, _) \<Rightarrow> (c, None))"

section \<open>Run\<close>

definition run_simple :: "'w host \<Rightarrow> 'w parts \<Rightarrow> string \<Rightarrow> 'w agent_core \<Rightarrow> 'w agent_core \<times> string \<times> run_error option" where
  "run_simple host parts prompt c =
     (case runSimple (pa_sub parts) (ho_env host) prompt c of (c, r, e) \<Rightarrow> (c, r, map_option CoreFailed e))"

text \<open>The planner's request is made after the router's; the plan is decoded by \<open>GenerateWBS\<close>.\<close>

abbreviation wbsPlannerSystemPrompt :: string where "wbsPlannerSystemPrompt \<equiv> ''wbsPlannerSystemPrompt''"

definition runWithPlanning ::
  "'w host \<Rightarrow> 'w parts \<Rightarrow> string \<Rightarrow> 'w agent_core \<Rightarrow> 'w agent_core \<times> string \<times> run_error option" where
  "runWithPlanning host parts prompt c =
     (case GenerateWBS (answer_text (en_ask (ho_env host) (sh_calls (ac_shared c))
              [chat ''system'' wbsPlannerSystemPrompt, chat ''user'' prompt]))
            (ho_unmarshal host) (cf_StructuredOutput (ac_config c)) of
        Inl e \<Rightarrow> run_simple host parts prompt c
      | Inr tree \<Rightarrow> runWithWBSTree host parts tree c)"

definition run_fresh :: "'w host \<Rightarrow> 'w parts \<Rightarrow> string \<Rightarrow> 'w agent_core \<Rightarrow> 'w agent_core \<times> string \<times> run_error option" where
  "run_fresh host parts prompt c =
     (if pa_router parts \<and> pa_planner parts \<and>
         fst (Route (ho_parse host) (cf_StructuredOutput (ac_config c))
           (en_ask (ho_env host) (sh_calls (ac_shared c))) prompt) = RoutePlanning
      then runWithPlanning host parts prompt c else run_simple host parts prompt c)"

definition Run :: "'w host \<Rightarrow> 'w parts \<Rightarrow> string \<Rightarrow> 'w agent_core \<Rightarrow> 'w agent_core \<times> string \<times> run_error option" where
  "Run host parts prompt c =
     (let persistent = (ac_sessionID c \<noteq> [] \<and> ac_store c \<noteq> None);
          c = (if persistent then fst (restoreSession (ho_env host) c) else c);
          (c, saved) = (if persistent then loadWBSFromSession host c else (c, None))
      in case saved of
           Some tree \<Rightarrow> if \<not> IsComplete tree then runWithWBSTree host parts tree c else run_fresh host parts prompt c
         | None \<Rightarrow> run_fresh host parts prompt c)"

section \<open>Child sessions\<close>

definition node_prompt :: "WBSNode \<Rightarrow> string" where
  "node_prompt node = ''[WBS Step '' @ wn_ID node @ '': '' @ wn_Name node @ '']'' @ nl @ wn_Description node"

text \<open>The executor that runs a node in the agent itself: a question to the user suspends the plan.\<close>

definition agentNodeExecutorSimple :: "'w host \<Rightarrow> 'w subagent option \<Rightarrow> 'w node_exec" where
  "agentNodeExecutorSimple host sub node c =
     (case runSimple sub (ho_env host) (node_prompt node) c of
        (c, r, None) \<Rightarrow> (c, Finished r)
      | (c, r, Some e) \<Rightarrow>
          (c, if e = ErrFeedbackRequired then Suspend r else Fail (ho_text host (CoreFailed e))))"

text \<open>
  A child asks the parent's model through two adapters, which drop the sequence numbers of the
  messages and the stop reason of the response.
\<close>

definition child_env :: "'w env \<Rightarrow> 'w env" where
  "child_env env = env\<lparr>
     en_llm := (\<lambda>n ms. case en_llm env n (map (\<lambda>m. m\<lparr>cm_Seq := 0\<rparr>) ms) of
       (deltas, r) \<Rightarrow> ([], bind_res r (\<lambda>resp. Inr (resp\<lparr>lr_StopReason := []\<rparr>)))),
     en_ask := (\<lambda>n ms. bind_res (en_ask env n (map (\<lambda>m. m\<lparr>cm_Seq := 0\<rparr>) ms)) (\<lambda>resp. Inr (resp\<lparr>lr_StopReason := []\<rparr>)))\<rparr>"

definition child_host :: "'w host \<Rightarrow> 'w host" where
  "child_host host = host\<lparr>ho_env := child_env (ho_env host)\<rparr>"

definition child_parts :: "'w host \<Rightarrow> 'w parts" where
  "child_parts host = \<lparr>pa_sub = None, pa_router = False, pa_planner = False,
     pa_node = agentNodeExecutorSimple host None\<rparr>"

definition child_core :: "CoreConfig \<Rightarrow> string \<Rightarrow> string \<Rightarrow> bool \<Rightarrow> 'w shared \<Rightarrow> 'w agent_core" where
  "child_core cfg historySubDir sessionID emitter sh =
     (let c = (NewAgentCore False cfg sh)\<lparr>ac_sessionID := sessionID, ac_emitter := emitter\<rparr>
      in if historySubDir \<noteq> [] then c\<lparr>ac_store := Some historySubDir\<rparr> else c)"

definition RunChild ::
  "'w host \<Rightarrow> CoreConfig \<Rightarrow> string \<Rightarrow> string \<Rightarrow> bool \<Rightarrow> string \<Rightarrow> 'w shared \<Rightarrow> 'w shared \<times> (run_error, string) result" where
  "RunChild host cfg historySubDir sessionID emitter prompt sh =
     (case InitConfig (ho_getwd host) (cfg\<lparr>cf_SystemPrompt := [], cf_EnableSubagent := False, cf_StructuredOutput := False, cf_CompactionRatio := 0\<rparr>) of
        Inl e \<Rightarrow> (sh, Inl (ConfigFailed e))
      | Inr childCfg \<Rightarrow>
          (case Run (child_host host) (child_parts (child_host host)) prompt
                  (child_core childCfg historySubDir sessionID emitter sh) of
             (c, r, None) \<Rightarrow> (ac_shared c, Inr r)
           | (c, r, Some e) \<Rightarrow> (ac_shared c, Inl e)))"

text \<open>The executor that runs a node in a child session of its own.\<close>

definition agentNodeExecutor :: "'w host \<Rightarrow> 'w node_exec" where
  "agentNodeExecutor host node c =
     (case RunChild host (ac_config c) (hex7 (ac_nextSeq c)) (ac_sessionID c @ ''-wbs-'' @ wn_ID node)
             (ac_emitter c) (node_prompt node) (ac_shared c) of
        (sh, Inl e) \<Rightarrow> (c\<lparr>ac_shared := sh\<rparr>, Fail (ho_text host e))
      | (sh, Inr childResult) \<Rightarrow>
          (c\<lparr>ac_shared := sh\<rparr>,
           case summarizeWithPrompt (en_ask (ho_env host) (sh_calls sh)) outcomeSummarySystemPrompt
                  (no_hints\<lparr>hi_Objective := wn_Name node, hi_Context := wn_Description node\<rparr>) childResult of
             Inl e \<Rightarrow> Finished childResult
           | Inr summary \<Rightarrow> Finished summary))"

text \<open>\<open>SubagentExecutor.Execute\<close> as the adapter wires it: no emitter, history below the parent's number.\<close>

definition Subagent_Execute :: "'w host \<Rightarrow> CoreConfig \<Rightarrow> 'w subagent" where
  "Subagent_Execute host cfg parentSeq parentMessages toolName toolInput sh =
     (let ask = en_ask (ho_env host) (sh_calls sh);
          hints = (case GenerateHints (ho_parse host) ask parentMessages toolName toolInput of
                     Inl e \<Rightarrow> no_hints\<lparr>hi_Objective := ''Execute the requested tool and report results.''\<rparr>
                   | Inr h \<Rightarrow> h);
          childSessionID = ho_uuid host (sh_saves sh);
          childPrompt = ''[SUBAGENT TASK]'' @ nl @ ''Objective: '' @ hi_Objective hints @ nl @ ''Context: '' @ hi_Context hints @ nl @ nl @
            ''Execute the following tool and provide a summary of the results:'' @ nl @ ''Tool: '' @ toolName @ nl @
            ''Input: '' @ ho_show host toolInput
      in case RunChild host cfg (hex7 parentSeq) childSessionID False childPrompt sh of
           (sh, Inl e) \<Rightarrow> (sh, Inl (''child session '' @ childSessionID @ '' failed: '' @ ho_text host e))
         | (sh, Inr childResult) \<Rightarrow>
             (sh, Inr (case summarizeWithPrompt (en_ask (ho_env host) (sh_calls sh)) detailedSummarySystemPrompt hints childResult of
                         Inl e \<Rightarrow> childResult | Inr summary \<Rightarrow> summary)))"

text \<open>How \<open>CreateSession\<close> wires an agent, and a turn of its session.\<close>

definition agent_parts :: "'w host \<Rightarrow> CoreConfig \<Rightarrow> 'w parts" where
  "agent_parts host cfg =
     (let sub = Some (Subagent_Execute host cfg)
      in \<lparr>pa_sub = sub, pa_router = True, pa_planner = True,
          pa_node = (if cf_EnableSubagent cfg then agentNodeExecutor host else agentNodeExecutorSimple host sub)\<rparr>)"

definition CreateSession ::
  "'w host \<Rightarrow> string \<Rightarrow> CoreConfig \<Rightarrow> string \<Rightarrow> 'w shared \<Rightarrow> (string, 'w agent_core) result" where
  "CreateSession host generated cfg agentSessionID sh =
     bind_res (InitConfig (ho_getwd host) (cfg\<lparr>cf_WorkDir := (if cf_WorkDir cfg = [] then ''.'' else cf_WorkDir cfg)\<rparr>)) (\<lambda>cfg.
       Inr ((NewAgentCore True cfg sh)\<lparr>ac_sessionID := (if agentSessionID = [] then generated else agentSessionID)\<rparr>))"

definition Send :: "'w host \<Rightarrow> string \<Rightarrow> string \<Rightarrow> 'w agent_core \<Rightarrow> 'w agent_core" where
  "Send host sessionPrompt msg c =
     (let prompt = (if msg = [] then sessionPrompt else msg);
          c = Emit [(stream_event EventSystem)\<lparr>se_SessionID := ac_sessionID c\<rparr>] (c\<lparr>ac_emitter := True\<rparr>);
          (c, r, err) = Run host (agent_parts host (ac_config c)) prompt c;
          final = (case err of
                     Some e \<Rightarrow> (stream_event EventError)\<lparr>se_Error := Some (ho_text host e)\<rparr>
                   | None \<Rightarrow> stream_event EventResult)
      in (Emit [final] (c\<lparr>ac_emitter := True\<rparr>))\<lparr>ac_emitter := False\<rparr>)"

section \<open>The agent's orchestrator\<close>

lemma Execute_core_sim:
  assumes "Execute_core host exec sc = (sc', e)"
  shows "\<exists>rs. length (ws_calls (fst sc')) = length (ws_calls (fst sc)) + length rs \<and>
    (\<forall>ora. (\<forall>i < length rs. \<forall>n. ora (length (ws_calls (fst sc)) + i) n = rs ! i) \<longrightarrow>
       Execute ora (ho_ctxErr host) (fst sc) = (fst sc', e))"
  using assms
proof (induction host exec sc rule: Execute_core.induct)
  case (1 host exec sc)
  let ?t = "ws_tree (fst sc)" and ?ns = "NextExecutableNodes (ws_tree (fst sc))"
  show ?case
  proof (cases "IsComplete ?t \<or> HasFailed ?t \<or> IsDeadlocked ?t \<or> length ?ns = 0")
    case True
    with "1.prems" show ?thesis
      by (intro exI [of _ "[]"]) (auto simp: Execute_core.simps [of host exec sc] Execute.simps [of _ _ "fst sc"] Let_def split: if_splits)
  next
    case False
    obtain sc1 e1 where pass: "run_nodes_core host exec ?ns sc = (sc1, e1)" by fastforce
    then have "run_nodes_core host exec ?ns (fst sc, snd sc) = ((fst sc1, snd sc1), e1)" by simp
    from run_nodes_core_sim [OF this] obtain rs where rs: "length (ws_calls (fst sc1)) = length (ws_calls (fst sc)) + length rs"
      "\<And>ora. (\<forall>i < length rs. \<forall>n. ora (length (ws_calls (fst sc)) + i) n = rs ! i) \<Longrightarrow>
         run_nodes ora (ho_ctxErr host) ?ns (fst sc) = (fst sc1, e1)" by blast
    show ?thesis
    proof (cases e1)
      case (Some x)
      with "1.prems" False pass have "sc' = sc1" "e = Some x" by (auto simp: Execute_core.simps [of host exec sc] Let_def)
      with rs Some False show ?thesis
        by (intro exI [of _ rs]) (auto simp: Execute.simps [of _ _ "fst sc"] Let_def)
    next
      case None
      with "1.prems" False pass have more: "Execute_core host exec sc1 = (sc', e)"
        by (simp add: Execute_core.simps [of host exec sc] Let_def)
      with "1.IH" [of ?t sc1] False pass None obtain qs where qs:
        "length (ws_calls (fst sc')) = length (ws_calls (fst sc1)) + length qs"
        "\<And>ora. (\<forall>i < length qs. \<forall>n. ora (length (ws_calls (fst sc1)) + i) n = qs ! i) \<Longrightarrow>
           Execute ora (ho_ctxErr host) (fst sc1) = (fst sc', e)" by auto
      show ?thesis
      proof (intro exI [of _ "rs @ qs"] conjI allI impI)
        fix ora :: executor
        assume o: "\<forall>i < length (rs @ qs). \<forall>n. ora (length (ws_calls (fst sc)) + i) n = (rs @ qs) ! i"
        have "run_nodes ora (ho_ctxErr host) ?ns (fst sc) = (fst sc1, None)"
          using o None by (intro rs(2) [unfolded None] allI impI) (auto simp: nth_append)
        moreover have "Execute ora (ho_ctxErr host) (fst sc1) = (fst sc', e)"
          using o rs(1) by (intro qs(2) allI impI) (auto simp: nth_append add.assoc dest!: spec [of _ "length rs + _"])
        ultimately show "Execute ora (ho_ctxErr host) (fst sc) = (fst sc', e)"
          using False by (simp add: Execute.simps [of _ _ "fst sc"] Let_def)
      qed (use rs(1) qs(1) in simp)
    qed
  qed
qed

lemma Execute_core_refines:
  assumes "Execute_core host exec sc = (sc', e)"
  shows "\<exists>ora. Execute ora (ho_ctxErr host) (fst sc) = (fst sc', e)"
proof -
  from Execute_core_sim [OF assms] obtain rs where rs:
    "\<And>ora. (\<forall>i < length rs. \<forall>n. ora (length (ws_calls (fst sc)) + i) n = rs ! i) \<Longrightarrow>
       Execute ora (ho_ctxErr host) (fst sc) = (fst sc', e)" by blast
  show ?thesis by (intro exI [of _ "\<lambda>k n. rs ! (k - length (ws_calls (fst sc)))"] rs) simp
qed


section \<open>What a run keeps\<close>

definition keeps :: "('w shared \<Rightarrow> 'w shared \<Rightarrow> bool) \<Rightarrow> 'w agent_core \<Rightarrow> 'w agent_core \<Rightarrow> bool" where
  "keeps R c c' \<longleftrightarrow> related R c c' \<and> ac_store c' = ac_store c \<and> ac_sessionID c' = ac_sessionID c"

definition node_keeps :: "('w shared \<Rightarrow> 'w shared \<Rightarrow> bool) \<Rightarrow> string \<Rightarrow> 'w node_exec \<Rightarrow> bool" where
  "node_keeps R workDir exec \<longleftrightarrow> (\<forall>node c. cf_WorkDir (ac_config c) = workDir \<longrightarrow> keeps R c (fst (exec node c)))"

context shared_relation
begin

lemma keeps_refl: "keeps R c c"
  by (simp add: keeps_def related_def refl)

lemma keeps_trans: "keeps R a b \<Longrightarrow> keeps R b c \<Longrightarrow> keeps R a c"
  using trans by (auto simp: keeps_def related_def)

lemma keeps_config: "keeps R a b \<Longrightarrow> ac_config b = ac_config a"
  by (simp add: keeps_def related_def)

lemma keeps_workDir: "keeps R a b \<Longrightarrow> cf_WorkDir (ac_config a) = workDir \<Longrightarrow> cf_WorkDir (ac_config b) = workDir"
  by (simp add: keeps_config)

lemma store_keeps: "keeps R c (store_state env st c)"
  by (simp add: keeps_def related_def core_simps store_related)

lemma save_keeps: "keeps R c (saveSession env st c)"
  by (simp add: saveSession_def store_keeps)

lemma Emit_keeps: "list_all inner_event evs \<Longrightarrow> keeps R c (Emit evs c)"
  by (simp add: keeps_def related_def core_simps Emit_related)

lemma runSimple_keeps:
  assumes "sub_keeps R sub" "cf_WorkDir (ac_config c) = workDir"
  shows "keeps R c (fst (runSimple sub env p c))"
proof -
  let ?c = "appendMessage (chat ''user'' p) (with_system_prompt c)"
  have "ac_store ?c = ac_store c" "ac_sessionID ?c = ac_sessionID c" by (simp_all add: core_simps with_system_prompt_def)
  with steps_session [OF run_loop_steps [of sub env ?c maxIterations False]] runSimple_related [OF assms, of p]
  show ?thesis by (simp add: keeps_def related_def runSimple_def)
qed

lemma mark_keeps: "ho_env host = env \<Longrightarrow> keeps R (snd sc) (snd (mark host i st r sc))"
  by (simp add: mark_def Let_def PersistWBS_def store_keeps)

lemma report_keeps: "ty \<notin> {EventSystem, EventResult, EventError} \<Longrightarrow> keeps R (snd sc) (snd (report ty s sc))"
  by (simp add: report_def Emit_keeps)

lemma mark_report_keeps:
  assumes "ho_env host = env" "ty \<notin> {EventSystem, EventResult, EventError}"
  shows "keeps R (snd sc) (snd (report ty s (mark host i st r sc)))"
  using keeps_trans [OF mark_keeps [OF assms(1)] report_keeps [OF assms(2)]] .

lemma run_nodes_core_keeps:
  assumes "ho_env host = env" "node_keeps R workDir exec" "cf_WorkDir (ac_config (snd sc)) = workDir"
  shows "keeps R (snd sc) (snd (fst (run_nodes_core host exec nodes sc)))"
  using assms(3)
proof (induction nodes arbitrary: sc)
  case (Cons node nodes)
  show ?case
  proof (cases "ho_ctxErr host (length (ws_calls (fst sc)))")
    case None
    let ?sc1 = "report ''node_start'' (node_title node) (mark host (wn_ID node) StatusRunning [] sc)"
    let ?s = "(fst ?sc1)\<lparr>ws_calls := ws_calls (fst ?sc1) @ [node]\<rparr>"
    obtain c2 r where r: "exec node (snd ?sc1) = (c2, r)" by fastforce
    have 1: "keeps R (snd sc) (snd ?sc1)" by (rule mark_report_keeps [OF assms(1)]) simp
    have "keeps R (snd ?sc1) (fst (exec node (snd ?sc1)))"
      using assms(2) keeps_workDir [OF 1 Cons.prems] unfolding node_keeps_def by blast
    then have "keeps R (snd ?sc1) c2" by (simp only: r fst_conv)
    with 1 have 2: "keeps R (snd sc) c2" by (rule keeps_trans)
    have after: "keeps R (snd sc) (snd (report ty x (mark host (wn_ID node) st y (?s, c2))))"
      if "ty \<notin> {EventSystem, EventResult, EventError}" for ty x st y
      using keeps_trans [OF 2] mark_report_keeps [OF assms(1) that, of "(?s, c2)"] by simp
    show ?thesis
    proof (cases r)
      case (Finished x)
      let ?sc3 = "report ''node_complete'' (node_title node) (mark host (wn_ID node) StatusCompleted x (?s, c2))"
      let ?sc4 = "report ''progress'' (Itoa (int (fst (Progress (ws_tree (fst ?sc3))))) @ ''/'' @ Itoa (int (snd (Progress (ws_tree (fst ?sc3)))))) ?sc3"
      have 4: "keeps R (snd sc) (snd ?sc4)" by (rule keeps_trans [OF after report_keeps]) simp_all
      from keeps_trans [OF 4 Cons.IH [OF keeps_workDir [OF 4 Cons.prems]]] None r Finished show ?thesis
        by (simp add: Let_def case_prod_unfold)
    qed (use None r after in \<open>simp_all add: Let_def case_prod_unfold\<close>)
  qed (simp add: keeps_refl)
qed (simp add: keeps_refl)

lemma Execute_core_keeps:
  assumes "ho_env host = env" "node_keeps R workDir exec" "cf_WorkDir (ac_config (snd sc)) = workDir"
  shows "keeps R (snd sc) (snd (fst (Execute_core host exec sc)))"
  using assms
proof (induction host exec sc rule: Execute_core.induct)
  case (1 host exec sc)
  let ?ns = "NextExecutableNodes (ws_tree (fst sc))"
  obtain sc1 e1 where pass: "run_nodes_core host exec ?ns sc = (sc1, e1)" by fastforce
  have k: "keeps R (snd sc) (snd sc1)" using run_nodes_core_keeps [OF "1.prems", of ?ns] pass by simp
  from keeps_workDir [OF k "1.prems"(3)] "1.IH" [OF HOL.refl, of sc1] "1.prems" pass k keeps_trans [OF k] show ?case
    by (subst Execute_core.simps) (auto simp: Let_def keeps_refl split: option.split)
qed

lemma runWithWBSTree_keeps:
  assumes "ho_env host = env" "node_keeps R workDir (pa_node parts)" "cf_WorkDir (ac_config c) = workDir"
  shows "keeps R c (fst (runWithWBSTree host parts tree c))"
proof -
  obtain s c1 e where x: "Execute_core host (pa_node parts) (start_state tree, c) = ((s, c1), e)" by (metis surj_pair)
  have "keeps R c c1" using Execute_core_keeps [OF assms(1,2), of "(start_state tree, c)"] assms(3) x by simp
  from keeps_trans [OF this] x assms(1) show ?thesis
    by (auto simp: runWithWBSTree_def save_keeps split: option.split wbs_error.split)
qed

lemma load_keeps: "keeps R c (fst (load_state env c))"
  by (auto simp: keeps_def related_def load_related) (auto simp: load_state_def Let_def case_prod_unfold)

lemma restore_keeps: "keeps R c (fst (restoreSession env c))"
  using load_keeps [of c] restore_related [of c]
  by (auto simp: keeps_def related_def restoreSession_def restore_state_def Let_def split: prod.splits sum.split option.split)

lemma loadWBS_keeps: "ho_env host = env \<Longrightarrow> keeps R c (fst (loadWBSFromSession host c))"
  using load_keeps [of c] by (auto simp: loadWBSFromSession_def keeps_refl split: prod.splits sum.splits option.splits)

lemma Run_keeps:
  assumes "ho_env host = env" "sub_keeps R (pa_sub parts)" "node_keeps R workDir (pa_node parts)"
    and "cf_WorkDir (ac_config c) = workDir"
  shows "keeps R c (fst (Run host parts prompt c))"
proof -
  let ?p = "ac_sessionID c \<noteq> [] \<and> ac_store c \<noteq> None"
  define c1 where "c1 = (if ?p then fst (restoreSession env c) else c)"
  obtain c2 saved where c2: "(if ?p then loadWBSFromSession host c1 else (c1, None)) = (c2, saved)" by fastforce
  have "keeps R c c1" by (simp add: c1_def restore_keeps keeps_refl)
  moreover have "keeps R c1 c2" using loadWBS_keeps [OF assms(1), of c1] c2 by (auto simp: keeps_refl split: if_splits)
  ultimately have k: "keeps R c c2" by (rule keeps_trans)
  note w = keeps_workDir [OF k assms(4)]
  have "keeps R c2 (fst (run_simple host parts prompt c2))"
    using runSimple_keeps [OF assms(2) w, of prompt] assms(1) by (simp add: run_simple_def case_prod_unfold)
  moreover note runWithWBSTree_keeps [OF assms(1,3) w]
  ultimately have "keeps R c2 (fst (run_fresh host parts prompt c2))" "keeps R c2 (fst (runWithWBSTree host parts tree c2))" for tree
    by (simp_all add: run_fresh_def runWithPlanning_def split: sum.split)
  with keeps_trans [OF k] c2 show ?thesis
    by (auto simp: Run_def Let_def c1_def assms(1) split: option.split if_splits)
qed

end

section \<open>Child sessions stay in the family\<close>

lemma child_env_os [simp]: "en_os (child_env env) = en_os env"
  by (simp add: child_env_def)

lemma child_config:
  assumes "IsAbs (cf_WorkDir cfg)" "filepath_Clean (cf_WorkDir cfg) = cf_WorkDir cfg" "InitConfig getwd cfg = Inr cfg'"
  shows "cf_WorkDir cfg' = cf_WorkDir cfg"
proof -
  have "cf_WorkDir cfg \<noteq> []" using assms(1) by (auto simp: IsAbs_def)
  with assms show ?thesis by (auto simp: InitConfig_def abs_path_def bind_res_Inr_iff)
qed

context shared_relation
begin

lemma child_relation: "shared_relation R (child_env env) workDir"
  by unfold_locales (simp_all add: refl events calls saves loads tools, erule (1) trans)

lemma simple_node_keeps:
  assumes "ho_env host = env" "sub_keeps R sub"
  shows "node_keeps R workDir (agentNodeExecutorSimple host sub)"
  unfolding node_keeps_def
proof (intro allI impI)
  fix node and c :: "'w agent_core"
  assume "cf_WorkDir (ac_config c) = workDir"
  from runSimple_keeps [OF assms(2) this, of "node_prompt node"] assms(1)
  show "keeps R c (fst (agentNodeExecutorSimple host sub node c))"
    by (auto simp: agentNodeExecutorSimple_def split: prod.splits option.split)
qed

lemma RunChild_keeps:
  assumes "ho_env host = env" "IsAbs workDir" "filepath_Clean workDir = workDir" "cf_WorkDir cfg = workDir"
  shows "R sh (fst (RunChild host cfg sub i em p sh))"
proof (cases "InitConfig (ho_getwd host) (cfg\<lparr>cf_SystemPrompt := [], cf_EnableSubagent := False, cf_StructuredOutput := False, cf_CompactionRatio := 0\<rparr>)")
  case (Inl e)
  then show ?thesis by (simp add: RunChild_def refl)
next
  case (Inr cfg')
  let ?h = "child_host host" and ?c = "child_core cfg' sub i em sh"
  have e: "ho_env ?h = child_env env" using assms(1) by (simp add: child_host_def)
  have "cf_WorkDir cfg' = workDir" using child_config [OF _ _ Inr] assms(2-4) by simp
  then have "cf_WorkDir (ac_config ?c) = workDir" "ac_shared ?c = sh"
    by (simp_all add: child_core_def NewAgentCore_def Let_def)
  moreover have "node_keeps R workDir (pa_node (child_parts ?h))"
    using shared_relation.simple_node_keeps [OF child_relation e sub_keeps_None] by (simp add: child_parts_def)
  ultimately have "keeps R ?c (fst (Run ?h (child_parts ?h) p ?c))"
    by (intro shared_relation.Run_keeps [OF child_relation e]) (simp_all add: child_parts_def)
  with \<open>ac_shared ?c = sh\<close> have "R sh (ac_shared (fst (Run ?h (child_parts ?h) p ?c)))"
    by (simp add: keeps_def related_def)
  with Inr show ?thesis by (auto simp: RunChild_def split: prod.splits option.splits)
qed

lemma subagent_keeps:
  assumes "ho_env host = env" "IsAbs workDir" "filepath_Clean workDir = workDir" "cf_WorkDir cfg = workDir"
  shows "sub_keeps R (Some (Subagent_Execute host cfg))"
proof -
  have "fst (Subagent_Execute host cfg n ms t i sh) = fst (RunChild host cfg (hex7 n) (ho_uuid host (sh_saves sh)) False p sh)"
    if "p = ''[SUBAGENT TASK]'' @ nl @ ''Objective: '' @ hi_Objective h @ nl @ ''Context: '' @ hi_Context h @ nl @ nl @
            ''Execute the following tool and provide a summary of the results:'' @ nl @ ''Tool: '' @ t @ nl @
            ''Input: '' @ ho_show host i"
      "h = (case GenerateHints (ho_parse host) (en_ask (ho_env host) (sh_calls sh)) ms t i of
                     Inl e \<Rightarrow> no_hints\<lparr>hi_Objective := ''Execute the requested tool and report results.''\<rparr>
                   | Inr h \<Rightarrow> h)" for n ms t i sh p h
    unfolding Subagent_Execute_def Let_def that(2) [symmetric] that(1) [symmetric] by (simp add: case_prod_unfold split: sum.split)
  with RunChild_keeps [OF assms] show ?thesis unfolding sub_keeps_def by simp
qed

lemma child_node_keeps:
  assumes "ho_env host = env" "IsAbs workDir" "filepath_Clean workDir = workDir"
  shows "node_keeps R workDir (agentNodeExecutor host)"
  unfolding node_keeps_def
proof (intro allI impI)
  fix node and c :: "'w agent_core"
  assume "cf_WorkDir (ac_config c) = workDir"
  from RunChild_keeps [OF assms this, of "ac_shared c" "hex7 (ac_nextSeq c)" "ac_sessionID c @ ''-wbs-'' @ wn_ID node" "ac_emitter c" "node_prompt node"]
  show "keeps R c (fst (agentNodeExecutor host node c))"
    by (auto simp: agentNodeExecutor_def keeps_def related_def split: prod.splits sum.splits)
qed

lemma agent_keeps:
  assumes "ho_env host = env" "IsAbs workDir" "filepath_Clean workDir = workDir" "cf_WorkDir (ac_config c) = workDir"
  shows "keeps R c (fst (Run host (agent_parts host (ac_config c)) p c))"
proof -
  note sub = subagent_keeps [OF assms]
  have "node_keeps R workDir (pa_node (agent_parts host (ac_config c)))"
    using simple_node_keeps [OF assms(1) sub] child_node_keeps [OF assms(1-3)] by (simp add: agent_parts_def Let_def)
  with sub assms(4) show ?thesis by (intro Run_keeps assms) (simp_all add: agent_parts_def Let_def)
qed

end

section \<open>Confinement of a session\<close>

lemma InitConfig_clean:
  assumes "InitConfig (Inr wd) cfg = Inr cfg'" "IsAbs wd"
  shows "IsAbs (cf_WorkDir cfg') \<and> filepath_Clean (cf_WorkDir cfg') = cf_WorkDir cfg'"
proof -
  have "IsAbs p \<and> filepath_Clean p = p" if "abs_path (Inr wd) q = Inr p" for p q
    using that assms(2) IsAbs_Clean Clean_Clean Clean_Join by (auto simp: abs_path_def split: if_splits)
  with assms(1) show ?thesis by (auto simp: InitConfig_def bind_res_Inr_iff)
qed

lemma CreateSession_clean:
  assumes "CreateSession host g cfg i sh = Inr c" "ho_getwd host = Inr wd" "IsAbs wd"
  shows "IsAbs (cf_WorkDir (ac_config c))" "filepath_Clean (cf_WorkDir (ac_config c)) = cf_WorkDir (ac_config c)" "ac_shared c = sh"
  using assms InitConfig_clean [of wd _ "ac_config c"]
  by (auto simp: CreateSession_def bind_res_Inr_iff NewAgentCore_def)

text \<open>What a turn does to the agent: the run between the opening and the closing event.\<close>

definition turn_start :: "'w agent_core \<Rightarrow> 'w agent_core" where
  "turn_start c = Emit [(stream_event EventSystem)\<lparr>se_SessionID := ac_sessionID c\<rparr>] (c\<lparr>ac_emitter := True\<rparr>)"

lemma Send_run:
  assumes "Run host (agent_parts host (ac_config c)) (if msg = [] then sp else msg) (turn_start c) = (c', r, err)"
  shows "ac_config (Send host sp msg c) = ac_config c' \<and> sh_trace (ac_shared (Send host sp msg c)) = sh_trace (ac_shared c') \<and>
    sh_events (ac_shared (Send host sp msg c)) = sh_events (ac_shared c') @
      [case err of Some e \<Rightarrow> (stream_event EventError)\<lparr>se_Error := Some (ho_text host e)\<rparr> | None \<Rightarrow> stream_event EventResult]"
proof -
  have "ac_config (turn_start c) = ac_config c" by (simp add: turn_start_def core_simps)
  with assms show ?thesis
    unfolding Send_def Let_def turn_start_def [symmetric] by (simp add: Emit_def)
qed

lemma Send_confined:
  assumes "walks_inside (en_os (ho_env host))" "IsAbs (cf_WorkDir (ac_config c))"
    "filepath_Clean (cf_WorkDir (ac_config c)) = cf_WorkDir (ac_config c)"
  shows "ac_config (Send host sp msg c) = ac_config c \<and> (\<exists>cs. sh_trace (ac_shared (Send host sp msg c)) = sh_trace (ac_shared c) @ cs \<and>
    list_all (confined (cf_WorkDir (ac_config c))) cs)"
proof -
  let ?c = "turn_start c" and ?p = "if msg = [] then sp else msg"
  obtain c' r err where run: "Run host (agent_parts host (ac_config c)) ?p ?c = (c', r, err)" by (metis prod_cases3)
  have start: "ac_config ?c = ac_config c" "sh_trace (ac_shared ?c) = sh_trace (ac_shared c)"
    by (simp_all add: turn_start_def core_simps)
  have "keeps (trace_kept (en_os (ho_env host)) (cf_WorkDir (ac_config c))) ?c (fst (Run host (agent_parts host (ac_config ?c)) ?p ?c))"
    by (rule trace.agent_keeps) (use assms start in simp_all)
  with start run Send_run [OF run] assms(1,2) show ?thesis by (auto simp: keeps_def related_def trace_kept_def)
qed

text \<open>
  C2. A session never leaves its working directory: for a session the adapter has created, in every
  sequence of turns, whatever the models answer in the agent, its subagents, its plans and their child
  sessions, every path handed to the operating system is inside the working directory (a written file's
  parent may be the directory above) and every command is run there and is not blocked. Walking a
  directory is assumed to visit only what is below it.
\<close>

theorem session_confined:
  assumes "CreateSession host g cfg i sh = Inr c" "ho_getwd host = Inr wd" "IsAbs wd" "walks_inside (en_os (ho_env host))"
  shows "\<exists>cs. sh_trace (ac_shared (foldl (\<lambda>c msg. Send host sp msg c) c msgs)) = sh_trace sh @ cs \<and>
    list_all (confined (cf_WorkDir (ac_config c))) cs"
proof -
  note c = CreateSession_clean [OF assms(1-3)]
  have "\<exists>cs. sh_trace (ac_shared (foldl (\<lambda>c msg. Send host sp msg c) d msgs)) = sh_trace (ac_shared d) @ cs \<and>
      list_all (confined (cf_WorkDir (ac_config c))) cs" if "ac_config d = ac_config c" for d
    using that
  proof (induction msgs arbitrary: d)
    case (Cons m msgs)
    note s = Send_confined [OF assms(4), of d sp m]
    from s c Cons.prems Cons.IH [of "Send host sp m d"] obtain xs ys where
      "sh_trace (ac_shared (foldl (\<lambda>c msg. Send host sp msg c) (Send host sp m d) msgs)) = (sh_trace (ac_shared d) @ xs) @ ys"
      "list_all (confined (cf_WorkDir (ac_config c))) xs" "list_all (confined (cf_WorkDir (ac_config c))) ys" by auto
    then show ?case by (intro exI [of _ "xs @ ys"]) simp
  qed simp
  with c(3) show ?thesis by blast
qed

section \<open>The stream of a turn\<close>

definition events_kept :: "'w shared \<Rightarrow> 'w shared \<Rightarrow> bool" where
  "events_kept a b \<longleftrightarrow> (\<exists>evs. sh_events b = sh_events a @ evs \<and> list_all inner_event evs)"

interpretation stream: shared_relation events_kept env workDir for env workDir
proof
  fix a b c :: "'b shared"
  assume "events_kept a b" "events_kept b c"
  then show "events_kept a c" unfolding events_kept_def by (metis append.assoc list_all_append)
qed (auto simp: events_kept_def)

text \<open>
  C31. The stream of a turn has one beginning and one end: it opens with the system event of the session,
  ends with exactly one result event when the run succeeded and one error event when it did not, and
  what lies between are events of the work, from the agent or from the sessions of a plan's nodes.
\<close>

theorem Send_stream:
  assumes "IsAbs (cf_WorkDir (ac_config c))" "filepath_Clean (cf_WorkDir (ac_config c)) = cf_WorkDir (ac_config c)"
  shows "\<exists>evs err. sh_events (ac_shared (Send host sp msg c)) = sh_events (ac_shared c) @
      [(stream_event EventSystem)\<lparr>se_SessionID := ac_sessionID c\<rparr>] @ evs @
      [case err of Some e \<Rightarrow> (stream_event EventError)\<lparr>se_Error := Some (ho_text host e)\<rparr> | None \<Rightarrow> stream_event EventResult] \<and>
    list_all (\<lambda>ev. se_Type ev \<notin> {EventSystem, EventResult, EventError}) evs \<and>
    err = snd (snd (Run host (agent_parts host (ac_config c)) (if msg = [] then sp else msg) (turn_start c)))"
proof -
  let ?c = "turn_start c" and ?p = "if msg = [] then sp else msg"
  obtain c' r err where run: "Run host (agent_parts host (ac_config c)) ?p ?c = (c', r, err)" by (metis prod_cases3)
  have start: "ac_config ?c = ac_config c"
    "sh_events (ac_shared ?c) = sh_events (ac_shared c) @ [(stream_event EventSystem)\<lparr>se_SessionID := ac_sessionID c\<rparr>]"
    by (simp_all add: turn_start_def Emit_def)
  have "keeps events_kept ?c (fst (Run host (agent_parts host (ac_config ?c)) ?p ?c))"
    by (rule stream.agent_keeps [OF HOL.refl, where workDir = "cf_WorkDir (ac_config c)"]) (use assms start in simp_all)
  then obtain evs where "sh_events (ac_shared c') = sh_events (ac_shared ?c) @ evs" "list_all inner_event evs"
    using run start(1) by (auto simp: keeps_def related_def events_kept_def)
  with Send_run [OF run] start run show ?thesis
    by (intro exI [of _ evs] exI [of _ err]) (simp add: inner_event_def list_all_iff)
qed

section \<open>Plans and sessions\<close>

text \<open>
  A plan in progress is on disk: what the orchestrator persists at a status change, a session that is
  restarted right then finds and goes on with, as far as the encoding of a plan can be decoded.
\<close>

theorem persisted_plan_found:
  assumes "good_store (ho_env host)" "ac_store c = Some d" "ac_sessionID c \<noteq> []"
    and "folder_ok (sh_root (ac_shared c) (ac_sessionID c))" "ho_marshal host tree \<noteq> []" "ho_unmarshal host (ho_marshal host tree) = Some tree"
  shows "snd (loadWBSFromSession host (PersistWBS host tree c)) = Some tree"
proof -
  let ?sh = "ac_shared c"
  let ?n = "sh_saves ?sh"
  let ?now = "en_now (ho_env host) ?n"
  let ?st = "(core_state ?now ''active'' c)\<lparr>st_WBSTreeJSON := ho_marshal host tree, st_CreatedAt := None, st_LastActivityAt := ?now\<rparr>"
  obtain g t where "Save (en_io (ho_env host) ?n) ?now d (sh_root ?sh (ac_sessionID c)) ?st = (g, None)"
    and g: "map_of (sf_context g) ''context.json'' = Some (Holds (st_Messages ?st))"
    "map_of (sf_meta g) ''metadata.json'' = Some (Holds (state_metadata ?st t ?now))"
    using Save_files [of "en_io (ho_env host) ?n" "sh_root ?sh (ac_sessionID c)" ?now d ?st] assms(1,4)
    by (auto simp: good_store_def folder_ok_def)
  then have "sh_root (ac_shared (PersistWBS host tree c)) (ac_sessionID c) = g"
    using assms(2,3) by (simp add: PersistWBS_def store_state_def)
  with g assms(2,3,5,6) show ?thesis
    by (simp add: loadWBSFromSession_def load_state_def Let_def Store_Load_def loadFromFolder_def metadata_state_def
        state_metadata_def PersistWBS_def core_simps)
qed

text \<open>
  But a plan never survives the end of its run: when the orchestrator returns, also when a node waits
  for the user, the agent saves the session without the plan, and the next run on the session finds none
  to resume. The answer of the user is taken for a new request.
\<close>

theorem plan_lost_on_return:
  assumes "good_store (ho_env host)" "ac_store c = Some d" "ac_sessionID c \<noteq> []" "\<And>i. folder_ok (sh_root (ac_shared c) i)"
    and "IsAbs (cf_WorkDir (ac_config c))" "filepath_Clean (cf_WorkDir (ac_config c)) = cf_WorkDir (ac_config c)"
    and "runWithWBSTree host (agent_parts host (ac_config c)) tree c = (c', r, err)"
  shows "snd (loadWBSFromSession host c') = None"
proof -
  let ?w = "cf_WorkDir (ac_config c)" and ?ps = "agent_parts host (ac_config c)"
  obtain s c1 e where x: "Execute_core host (pa_node ?ps) (start_state tree, c) = ((s, c1), e)" by (metis surj_pair)
  have sub: "sub_keeps folders_kept (Some (Subagent_Execute host (ac_config c)))"
    by (rule folders.subagent_keeps [OF HOL.refl assms(5,6) HOL.refl])
  have "node_keeps folders_kept ?w (agentNodeExecutorSimple host (Some (Subagent_Execute host (ac_config c))))"
    "node_keeps folders_kept ?w (agentNodeExecutor host)"
    by (rule folders.simple_node_keeps [OF HOL.refl sub], rule folders.child_node_keeps [OF HOL.refl assms(5,6)])
  then have "node_keeps folders_kept ?w (pa_node ?ps)" by (simp add: agent_parts_def Let_def)
  then have k: "keeps folders_kept c c1"
    using folders.Execute_core_keeps [OF HOL.refl, of ?w "pa_node ?ps" "(start_state tree, c)" host] x by simp
  obtain status where c': "c' = saveSession (ho_env host) status c1"
    using assms(7) x by (auto simp: runWithWBSTree_def split: option.splits wbs_error.splits)
  have "folder_ok (sh_root (ac_shared c1) (ac_sessionID c1))" "ac_store c1 = Some d" "ac_sessionID c1 \<noteq> []"
    using k assms(2-4) by (auto simp: keeps_def related_def folders_kept_def)
  then obtain now f' where "load_state (ho_env host) c' = (f', Inr (Some ((core_state now status c1)\<lparr>st_LastActivityAt := now\<rparr>)))"
    using saveSession_loads [OF assms(1), of c1 d c' status] c' by (auto simp: core_simps)
  then show ?thesis by (simp add: loadWBSFromSession_def core_state_def)
qed

lemma run_nodes_core_no_suspend:
  assumes "\<And>node c r. snd (exec node c) \<noteq> Suspend r"
  shows "snd (run_nodes_core host exec nodes sc) \<noteq> Some ErrSuspended"
proof (induction nodes arbitrary: sc)
  case (Cons node nodes)
  show ?case
  proof (cases "ho_ctxErr host (length (ws_calls (fst sc)))")
    case None
    let ?c = "snd (report ''node_start'' (node_title node) (mark host (wn_ID node) StatusRunning [] sc))"
    show ?thesis
      using None Cons.IH assms [of node ?c]
      by (cases "snd (exec node ?c)") (auto simp: Let_def case_prod_unfold handleFailure_def)
  qed simp
qed simp

lemma Execute_core_no_suspend:
  assumes "\<And>node c r. snd (exec node c) \<noteq> Suspend r"
  shows "snd (Execute_core host exec sc) \<noteq> Some ErrSuspended"
  using assms
proof (induction host exec sc rule: Execute_core.induct)
  case (1 host exec sc)
  with run_nodes_core_no_suspend [of exec host "NextExecutableNodes (ws_tree (fst sc))" sc] show ?case
    by (subst Execute_core.simps) (auto simp: Let_def handleFailure_def split: prod.split option.split)
qed

text \<open>
  With child sessions a plan is never suspended: a question that a child asks the user comes back as
  an error, its node is marked as failed and the plan with it, where the executor without child
  sessions suspends the plan for the answer.
\<close>

theorem child_plan_never_suspends:
  assumes "cf_EnableSubagent cfg" "runWithWBSTree host (agent_parts host cfg) tree c = (c', r, err)"
  shows "err \<noteq> Some (CoreFailed ErrFeedbackRequired)"
proof -
  have "pa_node (agent_parts host cfg) = agentNodeExecutor host" using assms(1) by (simp add: agent_parts_def Let_def)
  moreover have "snd (agentNodeExecutor host node c) \<noteq> Suspend r" for node c r
    by (simp add: agentNodeExecutor_def split: prod.split sum.split)
  ultimately have "snd (Execute_core host (pa_node (agent_parts host cfg)) (start_state tree, c)) \<noteq> Some ErrSuspended"
    using Execute_core_no_suspend by metis
  with assms(2) show ?thesis
    by (auto simp: runWithWBSTree_def split: prod.splits option.splits wbs_error.splits)
qed

section \<open>Routing\<close>

text \<open>
  Planning is opt-in: the agent plans only when the router's answer is a JSON object whose route is
  exactly the word planning; an unreachable model, an unreadable answer or any other route runs the
  request directly.
\<close>

theorem Route_planning_iff:
  "fst (Route parse structured ask prompt) = RoutePlanning \<longleftrightarrow>
   (\<exists>resp j. ask [chat ''system'' routerSystemPrompt, chat ''user'' prompt] = Inr resp \<and>
      parse (if structured then lr_Content resp else extractRouterJSON (lr_Content resp)) = Some j \<and>
      dec_field ''route'' dec_str [] j = (''planning'', True) \<and> snd (dec_field ''reason'' dec_str [] j))"
  by (auto simp: Route_def Let_def case_prod_unfold prod_eq_iff split: sum.splits option.splits if_splits)

section \<open>A concrete session\<close>

definition sample_host :: "unit host" where
  "sample_host = \<lparr>ho_env = sample_env, ho_parse = (\<lambda>s. None), ho_marshal = (\<lambda>t. ''plan''),
     ho_unmarshal = (\<lambda>s. Some [WBSNode ''1'' ''a'' ''b'' StatusPending [] [] []]), ho_show = (\<lambda>i. []), ho_text = (\<lambda>e. ''error''),
     ho_getwd = Inr ''/w'', ho_uuid = (\<lambda>n. ''child''), ho_ctxErr = (\<lambda>n. None)\<rparr>"

abbreviation sample_plan :: WBSTree where
  "sample_plan \<equiv> [WBSNode ''1'' ''a'' ''b'' StatusPending [] [] []]"

lemma sample_work_dir: "IsAbs (cf_WorkDir (ac_config sample_core))"
  "filepath_Clean (cf_WorkDir (ac_config sample_core)) = cf_WorkDir (ac_config sample_core)"
  by (simp_all add: sample_defs IsAbs_def filepath_Clean_def clean_path_def show_path_def)


theorem session_confined_witness:
  "\<exists>cs. sh_trace (ac_shared (foldl (\<lambda>c msg. Send sample_host [] msg c)
      ((NewAgentCore True sample_config sample_shared)\<lparr>ac_sessionID := ''s1''\<rparr>) [''a'', ''b''])) = cs \<and> list_all (confined ''/w'') cs"
proof -
  have "CreateSession sample_host ''s1'' sample_config [] sample_shared
      = Inr ((NewAgentCore True sample_config sample_shared)\<lparr>ac_sessionID := ''s1''\<rparr>)"
    by (simp add: CreateSession_def InitConfig_def abs_path_def sample_config_def IsAbs_def filepath_Clean_def clean_path_def show_path_def)
  moreover have "ho_getwd sample_host = Inr ''/w''" "IsAbs ''/w''" "walks_inside (en_os (ho_env sample_host))"
    by (simp_all add: sample_host_def sample_env_def IsAbs_def walks_inside_def sample_os_def)
  ultimately show ?thesis
    using session_confined [of sample_host "''s1''" sample_config "[]" sample_shared _ "''/w''" "[]" "[''a'', ''b'']"]
    by (simp add: sample_shared_def sample_config_def NewAgentCore_def)
qed

theorem Send_stream_witness:
  "\<exists>evs ev. sh_events (ac_shared (Send sample_host [] ''hi'' sample_core)) =
     (stream_event EventSystem)\<lparr>se_SessionID := ''s1''\<rparr> # evs @ [ev] \<and>
     list_all (\<lambda>ev. se_Type ev \<notin> {EventSystem, EventResult, EventError}) evs"
proof -
  have "sh_events (ac_shared sample_core) = []" "ac_sessionID sample_core = ''s1''" by (simp_all add: sample_defs)
  with Send_stream [OF sample_work_dir, of sample_host "[]" "''hi''"] show ?thesis by auto
qed

theorem persisted_plan_found_witness:
  "snd (loadWBSFromSession sample_host (PersistWBS sample_host sample_plan sample_core)) = Some sample_plan"
  by (rule persisted_plan_found [OF _ sample_ok(5,6)])
    (use sample_ok in \<open>simp_all add: sample_host_def\<close>)

theorem plan_lost_on_return_witness:
  "snd (loadWBSFromSession sample_host (fst (runWithWBSTree sample_host (agent_parts sample_host sample_config) sample_plan sample_core))) = None"
proof -
  let ?x = "runWithWBSTree sample_host (agent_parts sample_host (ac_config sample_core)) sample_plan sample_core"
  have "?x = (fst ?x, fst (snd ?x), snd (snd ?x))" by simp
  moreover have "good_store (ho_env sample_host)" using sample_ok(3) by (simp add: sample_host_def)
  ultimately have "snd (loadWBSFromSession sample_host (fst ?x)) = None"
    using plan_lost_on_return [OF _ sample_ok(5,6,4) sample_work_dir] by blast
  moreover have "ac_config sample_core = sample_config" by (simp add: sample_core_def NewAgentCore_def)
  ultimately show ?thesis by simp
qed

theorem child_plan_never_suspends_witness:
  "snd (snd (runWithWBSTree sample_host (agent_parts sample_host (sample_config\<lparr>cf_EnableSubagent := True\<rparr>)) sample_plan sample_core))
     \<noteq> Some (CoreFailed ErrFeedbackRequired)"
  using child_plan_never_suspends [of "sample_config\<lparr>cf_EnableSubagent := True\<rparr>" sample_host sample_plan sample_core]
  by (simp add: sample_config_def) (metis prod.collapse)

end
