(* ===== verification/Session_Service.thy ===== *)
theory Session_Service
  imports Context_Transfer Exec_Registry Artifact_Analyzer App_Config Agent_Process
begin

text \<open>
  Sessions of the agent service: their records (\<open>codingagent/session_store.go\<close>, \<open>session_store.go\<close>,
  \<open>workspace_session_store.go\<close>, \<open>storage_paths.go\<close>), the model list (\<open>service.go\<close>), and the handlers that
  create, list, show, patch, cancel, terminate and delete them (\<open>handler.go\<close>, \<open>handler_session.go\<close>).

  \<open>Get\<close> returns the pointer that the store holds, and handlers write through it before they call
  \<open>Update\<close>; so records live in a heap and the store maps ids to addresses. Each handler is one step, at
  one moment of time: the interleaving of handlers is not modelled here. Log messages are left out.
\<close>

section \<open>Records\<close>

abbreviation StatusActive :: string where "StatusActive \<equiv> ''active''"
abbreviation StatusSuspended :: string where "StatusSuspended \<equiv> ''suspended''"
abbreviation StatusCompleted :: string where "StatusCompleted \<equiv> ''completed''"
abbreviation StatusError :: string where "StatusError \<equiv> ''error''"
abbreviation StatusClosed :: string where "StatusClosed \<equiv> ''closed''"

record SessionRecord =
  rec_ID :: string
  rec_AgentName :: string
  rec_Model :: string
  rec_Status :: string
  rec_Error :: string
  rec_WorkDir :: string
  rec_StorageRoot :: string
  rec_AgentSessionID :: string
  rec_SessionDir :: string
  rec_ConfigDir :: string
  rec_SandboxMode :: string
  rec_FileChangeCollectors :: "FileChangeCollectors option"
  rec_Usage :: "TokenUsage option"
  rec_CreatedAt :: "go_time option"
  rec_UpdatedAt :: "go_time option"

datatype store_error = ErrNotFound | ErrInvalidTransition | PersistFailed | CanonicalFailed io_error

definition ResolveStorageRoot :: "string \<Rightarrow> string \<Rightarrow> string" where
  "ResolveStorageRoot storageRoot workDir = (if storageRoot \<noteq> [] then storageRoot else workDir)"

definition WayfinderDir :: "string \<Rightarrow> string" where
  "WayfinderDir storageRoot = filepath_Join storageRoot ''.tern''"

definition CanonicalSessionDir :: "string \<Rightarrow> string \<Rightarrow> string" where
  "CanonicalSessionDir storageRoot sessionID = filepath_Join (WayfinderDir storageRoot) sessionID"

definition EffectiveStorageRoot :: "SessionRecord \<Rightarrow> string" where
  "EffectiveStorageRoot rec = (if rec_StorageRoot rec \<noteq> [] then rec_StorageRoot rec else rec_WorkDir rec)"

definition VendorHomeDir :: "string \<Rightarrow> string \<Rightarrow> string \<Rightarrow> string" where
  "VendorHomeDir storageRoot agentName sessionDir =
     (if agentName = ''wayfinder'' then sessionDir
      else if agentName = [] \<or> storageRoot = [] then []
      else if agentName = ''codex'' then filepath_Join storageRoot ''.codex''
      else if agentName = ''claudecode'' then filepath_Join storageRoot ''.claude''
      else filepath_Join storageRoot (''.'' @ agentName))"

section \<open>The server\<close>

text \<open>
  An execution with what the handlers keep beside it: the model, the agent's session, whether it takes input,
  and the relay, of which the handlers see the events and whether the source has ended.
\<close>

record relay_view =
  rv_events :: "StreamEvent list"
  rv_sourceDone :: bool

record liveExecution = activeExecution +
  le_execID :: nat
  le_sessionModel :: string
  le_correlationID :: string
  le_agentSess :: "nat option"
  le_stdin :: bool
  le_relay :: "relay_view option"

text \<open>
  How saving a record ends: done, failed before the old file was touched, or failed after it was removed for
  a second attempt to rename.
\<close>

datatype persist_end = PersistDone | PersistEarly | PersistLost

text \<open>
  The heap of records, the store, the files \<open>record.json\<close> by the directory they are in, the session
  directories, the outcomes of the next saves, the registries (agent sessions and contexts are numbered, those
  closed and cancelled are listed), the executions taken from the registry in their last state, the temporary
  files, and the artifacts.
\<close>

record agent_server =
  ag_cells :: "SessionRecord list"
  ag_sessions :: "(string \<times> nat) list"
  ag_disk :: "(string \<times> SessionRecord) list"
  ag_canon :: "string \<Rightarrow> canonical"
  ag_faults :: "persist_end list"
  ag_registry :: "(string \<times> liveExecution) list"
  ag_active :: "(string \<times> nat) list"
  ag_cancels :: "(string \<times> nat) list"
  ag_cancelled :: "nat list"
  ag_closed :: "nat list"
  ag_ended :: "liveExecution list"
  ag_temp :: "string list"
  ag_artifacts :: turn_server

definition cell :: "agent_server \<Rightarrow> nat \<Rightarrow> SessionRecord" where
  "cell s a = ag_cells s ! a"

definition write_cell :: "nat \<Rightarrow> SessionRecord \<Rightarrow> agent_server \<Rightarrow> agent_server" where
  "write_cell a r s = s\<lparr>ag_cells := (ag_cells s)[a := r]\<rparr>"

definition alloc :: "SessionRecord \<Rightarrow> agent_server \<Rightarrow> agent_server \<times> nat" where
  "alloc r s = (s\<lparr>ag_cells := ag_cells s @ [r]\<rparr>, length (ag_cells s))"

subsection \<open>The store in memory\<close>

definition Mem_Create :: "go_time \<Rightarrow> agent_server \<Rightarrow> nat \<Rightarrow> agent_server" where
  "Mem_Create now s p =
     (let r = (cell s p)\<lparr>rec_CreatedAt := Some now, rec_UpdatedAt := Some now\<rparr>;
          (s, q) = alloc r (write_cell p r s)
      in s\<lparr>ag_sessions := massign (rec_ID r) q (ag_sessions s)\<rparr>)"

definition Mem_Get :: "agent_server \<Rightarrow> string \<Rightarrow> nat option" where
  "Mem_Get s i = map_of (ag_sessions s) i"

definition Mem_Update :: "go_time \<Rightarrow> agent_server \<Rightarrow> nat \<Rightarrow> agent_server \<times> store_error option" where
  "Mem_Update now s p =
     (case Mem_Get s (rec_ID (cell s p)) of
        None \<Rightarrow> (s, Some ErrNotFound)
      | Some existing \<Rightarrow>
          if rec_Status (cell s existing) = StatusClosed \<and> rec_Status (cell s p) = StatusActive then (s, Some ErrInvalidTransition)
          else (let r = (cell s p)\<lparr>rec_UpdatedAt := Some now\<rparr>; (s, q) = alloc r (write_cell p r s)
                in (s\<lparr>ag_sessions := massign (rec_ID r) q (ag_sessions s)\<rparr>, None)))"

definition Mem_List :: "agent_server \<Rightarrow> nat list" where
  "Mem_List s = map snd (ag_sessions s)"

definition Mem_Delete :: "agent_server \<Rightarrow> string \<Rightarrow> agent_server \<times> store_error option" where
  "Mem_Delete s i =
     (if Mem_Get s i = None then (s, Some ErrNotFound) else (s\<lparr>ag_sessions := mdelete i (ag_sessions s)\<rparr>, None))"

definition Mem_upsert :: "agent_server \<Rightarrow> SessionRecord \<Rightarrow> agent_server" where
  "Mem_upsert s r = (let (s, q) = alloc r s in s\<lparr>ag_sessions := massign (rec_ID r) q (ag_sessions s)\<rparr>)"

subsection \<open>The store of a workspace\<close>

definition persistSessionRecord :: "agent_server \<Rightarrow> SessionRecord \<Rightarrow> agent_server \<times> bool" where
  "persistSessionRecord s r =
     (let s' = s\<lparr>ag_faults := tl (ag_faults s)\<rparr>
      in case (case ag_faults s of [] \<Rightarrow> PersistDone | f # _ \<Rightarrow> f) of
           PersistDone \<Rightarrow> (s'\<lparr>ag_disk := massign (rec_SessionDir r) r (ag_disk s)\<rparr>, True)
         | PersistEarly \<Rightarrow> (s', False)
         | PersistLost \<Rightarrow> (s'\<lparr>ag_disk := mdelete (rec_SessionDir r) (ag_disk s)\<rparr>, False))"

definition open_canonical :: "agent_server \<Rightarrow> string \<Rightarrow> canonical" where
  "open_canonical s dir = (ag_canon s dir)\<lparr>cn_Dir := dir\<rparr>"

definition WS_Create :: "io \<Rightarrow> go_time \<Rightarrow> agent_server \<Rightarrow> nat \<Rightarrow> agent_server \<times> store_error option" where
  "WS_Create io now s p =
     (let r = cell s p; root = EffectiveStorageRoot r;
          r = (if rec_SessionDir r = [] \<and> root \<noteq> [] \<and> rec_ID r \<noteq> [] then r\<lparr>rec_SessionDir := CanonicalSessionDir root (rec_ID r)\<rparr> else r);
          s = write_cell p r s; dir = rec_SessionDir r
      in if dir = [] then (Mem_Create now s p, None)
         else case persistSessionRecord s r of
           (s, False) \<Rightarrow> (s, Some PersistFailed)
         | (s, True) \<Rightarrow>
             (case Init io now (open_canonical s dir) (rec_ID r) (rec_AgentName r) of
                (c, err) \<Rightarrow>
                  (let s = s\<lparr>ag_canon := (ag_canon s)(dir := c)\<rparr>
                   in case err of Some e \<Rightarrow> (s, Some (CanonicalFailed e)) | None \<Rightarrow> (Mem_Create now s p, None))))"

definition WS_Update :: "go_time \<Rightarrow> agent_server \<Rightarrow> nat \<Rightarrow> agent_server \<times> store_error option" where
  "WS_Update now s p =
     (if rec_SessionDir (cell s p) = [] then Mem_Update now s p
      else case persistSessionRecord s (cell s p) of
        (s, False) \<Rightarrow> (s, Some PersistFailed)
      | (s, True) \<Rightarrow> Mem_Update now s p)"

text \<open>\<open>entries\<close> are the names in the directory \<open>.tern\<close> that are directories, \<open>None\<close> when it cannot be read.\<close>

fun scan_records :: "agent_server \<Rightarrow> string \<Rightarrow> string list \<Rightarrow> agent_server \<times> nat list" where
  "scan_records s ternDir [] = (s, [])"
| "scan_records s ternDir (e # es) =
     (case map_of (ag_disk s) (filepath_Join ternDir e) of
        None \<Rightarrow> scan_records s ternDir es
      | Some r \<Rightarrow>
          (let s = Mem_upsert s r; (s', found) = scan_records s ternDir es
           in (s', (case Mem_Get s (rec_ID r) of Some a \<Rightarrow> [a] | None \<Rightarrow> []) @ found)))"

datatype dir_listing = NoSuchDir | UnreadableDir | DirEntries "string list"

definition listUnderStorageRoot ::
  "string option \<Rightarrow> (string \<Rightarrow> dir_listing) \<Rightarrow> agent_server \<Rightarrow> string \<Rightarrow> agent_server \<times> nat list option" where
  "listUnderStorageRoot getwd ls s root =
     (if root = [] then (s, None)
      else case filepath_Abs getwd root of
        None \<Rightarrow> (s, None)
      | Some p \<Rightarrow>
          (let ternDir = filepath_Join p ''.tern''
           in case ls ternDir of
                NoSuchDir \<Rightarrow> (s, Some [])
              | UnreadableDir \<Rightarrow> (s, None)
              | DirEntries es \<Rightarrow> (case scan_records s ternDir es of (s, found) \<Rightarrow> (s, Some found))))"

section \<open>Configuration of the service\<close>

datatype stat_result = StatMissing | StatFails string | StatDir | StatFile

text \<open>What the server was started with, and what one request sees of the world.\<close>

record service_config =
  cfg_agents :: "string list"
  cfg_gatewayModels :: "string list"
  cfg_gatewayDefault :: "string option"
  cfg_profiles :: "ModelProfilesConfig option"
  cfg_disableSandbox :: bool
  cfg_supplement :: SupplementStrategy
  cfg_artifacts :: bool
  cfg_artifactWorkDir :: string

record request_env =
  rq_now :: go_time
  rq_id :: string
  rq_getwd :: "string option"
  rq_stat :: "string \<Rightarrow> stat_result"
  rq_ls :: "string \<Rightarrow> dir_listing"
  rq_io :: io
  rq_engine :: engine
  rq_analyzer :: analyzer_env
  rq_clock :: "nat \<Rightarrow> go_time"
  rq_trees :: "string \<Rightarrow> work_tree"

definition service_ResolveModel :: "service_config \<Rightarrow> string \<Rightarrow> string option" where
  "service_ResolveModel cfg input =
     (case cfg_profiles cfg of
        None \<Rightarrow> None
      | Some profiles \<Rightarrow>
          (case find (\<lambda>(_, _, m). (LogicalName m \<noteq> [] \<and> LogicalName m = input) \<or> mc_Name m = input) (all_models profiles) of
             Some (_, _, m) \<Rightarrow> Some (mc_Name m)
           | None \<Rightarrow> None))"

definition IsValidModel :: "service_config \<Rightarrow> string \<Rightarrow> bool" where
  "IsValidModel cfg model \<longleftrightarrow> model \<in> set (cfg_gatewayModels cfg)"

definition effectiveSessionModel :: "service_config \<Rightarrow> string \<Rightarrow> string" where
  "effectiveSessionModel cfg recordModel =
     (if recordModel \<noteq> [] then recordModel else case cfg_gatewayDefault cfg of Some m \<Rightarrow> m | None \<Rightarrow> [])"

text \<open>The check of a requested model in both handlers: the resolved name, or a refusal.\<close>

definition checked_model :: "service_config \<Rightarrow> string \<Rightarrow> string option" where
  "checked_model cfg model =
     (if model \<noteq> [] \<and> cfg_gatewayModels cfg \<noteq> [] then
        (case service_ResolveModel cfg model of
           Some m \<Rightarrow> Some m
         | None \<Rightarrow> if IsValidModel cfg model then Some model else None)
      else Some model)"

definition applySessionModelDefault :: "service_config \<Rightarrow> go_time \<Rightarrow> agent_server \<Rightarrow> nat \<Rightarrow> agent_server" where
  "applySessionModelDefault cfg now s p =
     (let m = effectiveSessionModel cfg []
      in if rec_Model (cell s p) \<noteq> [] \<or> m = [] then s
         else fst (WS_Update now (write_cell p ((cell s p)\<lparr>rec_Model := m\<rparr>) s) p))"

definition validateAndResolveConfigDir :: "request_env \<Rightarrow> string \<Rightarrow> (string, string) result" where
  "validateAndResolveConfigDir rq configDir =
     (if configDir = [] then Inr []
      else let resolved = abs_or_same (rq_getwd rq) configDir
           in case rq_stat rq resolved of
                StatMissing \<Rightarrow> Inl (''config_dir does not exist: '' @ resolved)
              | StatFails e \<Rightarrow> Inl (''config_dir stat failed: '' @ e)
              | StatFile \<Rightarrow> Inl (''config_dir is not a directory: '' @ resolved)
              | StatDir \<Rightarrow> Inr resolved)"

section \<open>Requests and replies\<close>

text \<open>Why a request is refused; what a handler answers is a status with a refusal or with a value.\<close>

datatype refusal =
    PlainText string
  | UnsupportedModel string "string list"
  | SessionBusy string
  | BadSandbox sandbox_error
  | BadCollectors
  | StoreFailed store_error
  | BadSupplement io_error
  | ListingFailed

datatype 'a reply = Refused nat refusal | Replied nat 'a

fun reply_code :: "'a reply \<Rightarrow> nat" where
  "reply_code (Refused c _) = c"
| "reply_code (Replied c _) = c"

definition writeSessionBusy :: "string \<Rightarrow> 'a reply" where
  "writeSessionBusy status = Refused 409 (SessionBusy status)"

definition extractPathParam :: "string \<Rightarrow> string \<Rightarrow> string" where
  "extractPathParam path pre =
     (let trimmed = TrimPrefix path pre
      in case strIndex trimmed ''/'' of Some i \<Rightarrow> take i trimmed | None \<Rightarrow> trimmed)"

text \<open>The handler that a method and a path select (\<open>None\<close>: the method is not allowed).\<close>

datatype session_route =
    CreateSession | ListSessions | SendMessage | Respond | Terminate | Cancel | LogStream | Follow
  | GetUsage | GetSession | PatchSession | DeleteSession

definition routeSessions :: "string \<Rightarrow> session_route option" where
  "routeSessions meth =
     (if meth = ''POST'' then Some CreateSession else if meth = ''GET'' then Some ListSessions else None)"

definition routeSessionByID :: "string \<Rightarrow> string \<Rightarrow> session_route option" where
  "routeSessionByID meth path =
     (if HasSuffix path ''/messages'' then Some SendMessage
      else if HasSuffix path ''/respond'' then Some Respond
      else if HasSuffix path ''/terminate'' then Some Terminate
      else if HasSuffix path ''/cancel'' then Some Cancel
      else if HasSuffix path ''/logs'' then Some LogStream
      else if HasSuffix path ''/events'' then Some Follow
      else if HasSuffix path ''/usage'' then (if meth \<noteq> ''GET'' then None else Some GetUsage)
      else if meth = ''GET'' then Some GetSession
      else if meth = ''PATCH'' then Some PatchSession
      else if meth = ''DELETE'' then Some DeleteSession
      else None)"

section \<open>Creating and showing a session\<close>

record create_request =
  cr_agent :: string
  cr_model :: string
  cr_work_dir :: string
  cr_session_dir :: string
  cr_config_dir :: string
  cr_storage_root :: string
  cr_sandbox_mode :: string
  cr_collectors :: "json option"

text \<open>The record of a new session with its paths resolved, except the configuration directory.\<close>

definition new_session_record ::
  "request_env \<Rightarrow> create_request \<Rightarrow> string \<Rightarrow> string \<Rightarrow> FileChangeCollectors \<Rightarrow> SessionRecord" where
  "new_session_record rq req model sandbox collectors =
     (let abs_path = abs_or_same (rq_getwd rq);
          workDir = abs_path (cr_work_dir req);
          storageRoot = abs_path (ResolveStorageRoot (cr_storage_root req) workDir);
          sessionDir = abs_path (if cr_session_dir req = [] \<and> storageRoot \<noteq> [] then CanonicalSessionDir storageRoot (rq_id rq)
                                 else cr_session_dir req)
      in \<lparr>rec_ID = rq_id rq, rec_AgentName = cr_agent req, rec_Model = model, rec_Status = StatusActive, rec_Error = [],
          rec_WorkDir = workDir, rec_StorageRoot = storageRoot, rec_AgentSessionID = [], rec_SessionDir = sessionDir,
          rec_ConfigDir = cr_config_dir req, rec_SandboxMode = sandbox, rec_FileChangeCollectors = Some collectors,
          rec_Usage = None, rec_CreatedAt = None, rec_UpdatedAt = None\<rparr>)"

text \<open>The result is the identifier of the session and its model. \<open>Inl\<close> is a body that cannot be decoded.\<close>

definition handleCreateSession ::
  "service_config \<Rightarrow> request_env \<Rightarrow> (string, create_request) result \<Rightarrow> agent_server \<Rightarrow> agent_server \<times> (string \<times> string) reply" where
  "handleCreateSession cfg rq body s =
     (case body of
        Inl e \<Rightarrow> (s, Refused 400 (PlainText e))
      | Inr req \<Rightarrow>
          if cr_agent req \<notin> set (cfg_agents cfg) then (s, Refused 400 (PlainText (''unknown agent: '' @ cr_agent req)))
          else case checked_model cfg (cr_model req) of
            None \<Rightarrow> (s, Refused 400 (UnsupportedModel (cr_model req) (cfg_gatewayModels cfg)))
          | Some m \<Rightarrow>
              (let model = effectiveSessionModel cfg m
               in case ResolveSandboxMode (cr_sandbox_mode req) (cfg_disableSandbox cfg) of
                    Inl e \<Rightarrow> (s, Refused 400 (BadSandbox e))
                  | Inr sandbox \<Rightarrow>
                      (case ResolveFileChangeCollectors (cr_collectors req) of
                         None \<Rightarrow> (s, Refused 400 BadCollectors)
                       | Some collectors \<Rightarrow>
                           (let r = new_session_record rq req model sandbox collectors
                            in case validateAndResolveConfigDir rq (rec_ConfigDir r) of
                                 Inl e \<Rightarrow> (s, Refused 400 (PlainText e))
                               | Inr dir \<Rightarrow>
                                   (let (s, p) = alloc (r\<lparr>rec_ConfigDir := dir\<rparr>) s;
                                        (s, err) = WS_Create (rq_io rq) (rq_now rq) s p;
                                        row = \<lparr>as_ID = rq_id rq, as_AgentID = cr_agent req, as_AgentName = cr_agent req,
                                          as_StartedAt = rq_now rq, as_EndedAt = None\<rparr>;
                                        s = (if cfg_artifacts cfg then
                                               s\<lparr>ag_artifacts := (ag_artifacts s)\<lparr>sv_db := fst (UpsertSession (sv_db (ag_artifacts s)) row)\<rparr>\<rparr>
                                             else s)
                                    in (s, Replied 201 (rq_id rq, model)))))))"

record session_response =
  sr_record :: SessionRecord
  sr_bindings :: "(string \<times> AgentBinding) list"
  sr_activeAgent :: string
  sr_supplement :: SupplementStrategy
  sr_followable :: bool
  sr_turnID :: string

definition sessionResponse :: "service_config \<Rightarrow> agent_server \<Rightarrow> SessionRecord \<Rightarrow> session_response" where
  "sessionResponse cfg s r =
     (let server = cfg_supplement cfg;
          shown = r\<lparr>rec_SandboxMode := EffectiveSandboxMode (rec_SandboxMode r),
                    rec_FileChangeCollectors := Some (EffectiveFileChangeCollectors (rec_FileChangeCollectors r))\<rparr>;
          (followable, turnID) = (case Registry_Get (ag_registry s) (rec_ID r) of
             Some e \<Rightarrow> (True, ex_turnID e) | None \<Rightarrow> (False, []));
          resp = \<lparr>sr_record = shown, sr_bindings = [], sr_activeAgent = [], sr_supplement = WithDefaults server,
                  sr_followable = followable, sr_turnID = turnID\<rparr>
      in if rec_SessionDir r = [] then resp
         else case LoadMetadata (open_canonical s (rec_SessionDir r)) of
           Inl _ \<Rightarrow> resp
         | Inr meta \<Rightarrow>
             (let resp = resp\<lparr>sr_activeAgent := md_ActiveAgent meta, sr_bindings := md_AgentBindings meta\<rparr>
              in case MergeStrategy server (md_Supplement meta) no_supplement of
                   Inl _ \<Rightarrow> resp
                 | Inr merged \<Rightarrow> resp\<lparr>sr_supplement := WithDefaults merged\<rparr>))"

definition handleGetSession :: "service_config \<Rightarrow> agent_server \<Rightarrow> string \<Rightarrow> session_response reply" where
  "handleGetSession cfg s i =
     (case Mem_Get s i of
        None \<Rightarrow> Refused 404 (PlainText ''session not found'')
      | Some p \<Rightarrow> Replied 200 (sessionResponse cfg s (cell s p)))"

definition handleListSessions ::
  "service_config \<Rightarrow> request_env \<Rightarrow> string \<Rightarrow> string \<Rightarrow> agent_server \<Rightarrow> agent_server \<times> session_response list reply" where
  "handleListSessions cfg rq workDir storageRoot s =
     (if workDir = [] then (s, Refused 400 (PlainText ''work_dir is required''))
      else case listUnderStorageRoot (rq_getwd rq) (rq_ls rq) s (ResolveStorageRoot storageRoot workDir) of
        (s, None) \<Rightarrow> (s, Refused 500 ListingFailed)
      | (s, Some ps) \<Rightarrow> (s, Replied 200 (map (\<lambda>p. sessionResponse cfg s (cell s p)) ps)))"

definition handleDeleteSession :: "agent_server \<Rightarrow> string \<Rightarrow> agent_server \<times> unit reply" where
  "handleDeleteSession s i =
     (case Mem_Delete s i of
        (s, Some _) \<Rightarrow> (s, Refused 404 (PlainText ''session not found''))
      | (s, None) \<Rightarrow> (s, Replied 204 ()))"
section \<open>Changing a session\<close>

record patch_request =
  pr_ConfigDir :: "string option"
  pr_Agent :: "string option"
  pr_Model :: "string option"
  pr_Supplement :: "SupplementStrategy option"

text \<open>The blocks of the handler, one per field; each ends with a refusal or goes on.\<close>

type_synonym patch_state = "agent_server \<times> (nat \<times> refusal) option"

definition patch_field :: "('a \<Rightarrow> agent_server \<Rightarrow> patch_state) \<Rightarrow> 'a option \<Rightarrow> patch_state \<Rightarrow> patch_state" where
  "patch_field block field st =
     (case (field, st) of (Some x, s, None) \<Rightarrow> block x s | _ \<Rightarrow> st)"

definition patch_agent :: "service_config \<Rightarrow> request_env \<Rightarrow> nat \<Rightarrow> string \<Rightarrow> agent_server \<Rightarrow> patch_state" where
  "patch_agent cfg rq p name s =
     (if name \<notin> set (cfg_agents cfg) then (s, Some (400, PlainText (''unknown agent: '' @ name)))
      else if name = rec_AgentName (cell s p) then (s, None)
      else (let s = write_cell p ((cell s p)\<lparr>rec_AgentName := name, rec_AgentSessionID := []\<rparr>) s; dir = rec_SessionDir (cell s p)
            in (if dir = [] then s
                else s\<lparr>ag_canon := (ag_canon s)(dir := fst (SetActiveAgent (rq_io rq) (rq_now rq) (open_canonical s dir) name))\<rparr>, None)))"

definition patch_model :: "service_config \<Rightarrow> nat \<Rightarrow> string \<Rightarrow> agent_server \<Rightarrow> patch_state" where
  "patch_model cfg p model s =
     (case checked_model cfg model of
        None \<Rightarrow> (s, Some (400, UnsupportedModel model (cfg_gatewayModels cfg)))
      | Some m \<Rightarrow> (write_cell p ((cell s p)\<lparr>rec_Model := m\<rparr>) s, None))"

definition patch_supplement :: "request_env \<Rightarrow> nat \<Rightarrow> SupplementStrategy \<Rightarrow> agent_server \<Rightarrow> patch_state" where
  "patch_supplement rq p strat s =
     (let dir = rec_SessionDir (cell s p)
      in if \<not> KnownAlgorithm (ss_Algorithm strat) then
           (s, Some (400, PlainText (''unknown supplement algorithm: '' @ ss_Algorithm strat)))
         else if dir = [] then (s, None)
         else case SetSupplement (rq_io rq) (rq_now rq) (open_canonical s dir) strat of
           (c, err) \<Rightarrow> (s\<lparr>ag_canon := (ag_canon s)(dir := c)\<rparr>, map_option (\<lambda>e. (500, BadSupplement e)) err))"

definition patch_config_dir :: "request_env \<Rightarrow> nat \<Rightarrow> string \<Rightarrow> agent_server \<Rightarrow> patch_state" where
  "patch_config_dir rq p dir s =
     (case validateAndResolveConfigDir rq dir of
        Inl e \<Rightarrow> (s, Some (400, PlainText e))
      | Inr d \<Rightarrow> (write_cell p ((cell s p)\<lparr>rec_ConfigDir := d\<rparr>) s, None))"

definition apply_patch ::
  "service_config \<Rightarrow> request_env \<Rightarrow> nat \<Rightarrow> patch_request \<Rightarrow> agent_server \<Rightarrow> agent_server \<times> session_response reply" where
  "apply_patch cfg rq p req s =
     (case patch_field (patch_config_dir rq p) (pr_ConfigDir req)
         (patch_field (patch_supplement rq p) (pr_Supplement req)
           (patch_field (patch_model cfg p) (pr_Model req)
             (patch_field (patch_agent cfg rq p) (pr_Agent req) (s, None)))) of
        (s, Some (code, why)) \<Rightarrow> (s, Refused code why)
      | (s, None) \<Rightarrow>
          (case WS_Update (rq_now rq) (write_cell p ((cell s p)\<lparr>rec_UpdatedAt := Some (rq_now rq)\<rparr>) s) p of
             (s, Some e) \<Rightarrow> (s, Refused 500 (StoreFailed e))
           | (s, None) \<Rightarrow> (s, Replied 200 (sessionResponse cfg s (cell s p)))))"

definition handlePatchSession ::
  "service_config \<Rightarrow> request_env \<Rightarrow> string \<Rightarrow> (string, patch_request) result \<Rightarrow> agent_server \<Rightarrow> agent_server \<times> session_response reply" where
  "handlePatchSession cfg rq i body s =
     (case Mem_Get s i of
        None \<Rightarrow> (s, Refused 404 (PlainText ''session not found''))
      | Some p \<Rightarrow>
          (case Registry_Get (ag_registry s) i of
             Some exec \<Rightarrow> (s, writeSessionBusy (ex_status exec))
           | None \<Rightarrow>
               if rec_Status (cell s p) = StatusSuspended then (s, writeSessionBusy (rec_Status (cell s p)))
               else case body of
                 Inl e \<Rightarrow> (s, Refused 400 (PlainText e))
               | Inr req \<Rightarrow>
                   if pr_ConfigDir req = None \<and> pr_Agent req = None \<and> pr_Supplement req = None \<and> pr_Model req = None then
                     (s, Refused 400 (PlainText ''agent, config_dir, supplement, or model is required''))
                   else apply_patch cfg rq p req s))"

section \<open>Ending a turn\<close>

definition CancelExecution :: "agent_server \<Rightarrow> string \<Rightarrow> agent_server" where
  "CancelExecution s i =
     (case map_of (ag_cancels s) i of Some ctx \<Rightarrow> s\<lparr>ag_cancelled := ag_cancelled s @ [ctx]\<rparr> | None \<Rightarrow> s)"

definition RegisterExecCancel :: "string \<Rightarrow> nat \<Rightarrow> agent_server \<Rightarrow> agent_server" where
  "RegisterExecCancel i ctx s = s\<lparr>ag_cancels := massign i ctx (ag_cancels s)\<rparr>"

definition UnregisterExecCancel :: "string \<Rightarrow> agent_server \<Rightarrow> agent_server" where
  "UnregisterExecCancel i s = s\<lparr>ag_cancels := mdelete i (ag_cancels s)\<rparr>"

definition RegisterActiveSession :: "string \<Rightarrow> nat \<Rightarrow> agent_server \<Rightarrow> agent_server" where
  "RegisterActiveSession i sess s = s\<lparr>ag_active := massign i sess (ag_active s)\<rparr>"

definition UnregisterActiveSession :: "string \<Rightarrow> agent_server \<Rightarrow> agent_server" where
  "UnregisterActiveSession i s = s\<lparr>ag_active := mdelete i (ag_active s)\<rparr>"

definition close_session :: "nat option \<Rightarrow> agent_server \<Rightarrow> agent_server" where
  "close_session sess s = (case sess of Some a \<Rightarrow> s\<lparr>ag_closed := ag_closed s @ [a]\<rparr> | None \<Rightarrow> s)"

definition unregister_exec :: "string \<Rightarrow> agent_server \<Rightarrow> agent_server" where
  "unregister_exec i s =
     s\<lparr>ag_ended := ag_ended s @ (case Registry_Get (ag_registry s) i of Some e \<Rightarrow> [e] | None \<Rightarrow> []),
       ag_registry := Unregister (ag_registry s) i\<rparr>"

definition update_exec :: "string \<Rightarrow> (liveExecution \<Rightarrow> liveExecution) \<Rightarrow> agent_server \<Rightarrow> agent_server" where
  "update_exec i f s =
     (case Registry_Get (ag_registry s) i of None \<Rightarrow> s | Some e \<Rightarrow> s\<lparr>ag_registry := massign i (f e) (ag_registry s)\<rparr>)"

definition mark_relay_done :: "liveExecution \<Rightarrow> liveExecution" where
  "mark_relay_done e = e\<lparr>le_relay := map_option (\<lambda>r. r\<lparr>rv_sourceDone := True\<rparr>) (le_relay e)\<rparr>"

text \<open>The execution of a session as the handlers read it: its turn, its correlation, its events.\<close>

definition turn_of :: "agent_server \<Rightarrow> string \<Rightarrow> string \<times> string" where
  "turn_of s i = (case Registry_Get (ag_registry s) i of Some e \<Rightarrow> (ex_turnID e, le_correlationID e) | None \<Rightarrow> ([], []))"

definition session_files_of :: "agent_server \<Rightarrow> string \<Rightarrow> session_files option" where
  "session_files_of s i =
     map_option (\<lambda>p. \<lparr>ss_WorkDir = rec_WorkDir (cell s p), ss_Collectors = rec_FileChangeCollectors (cell s p)\<rparr>) (Mem_Get s i)"

definition relayed_events :: "agent_server \<Rightarrow> string \<Rightarrow> StreamEvent list option" where
  "relayed_events s i = Option.bind (Registry_Get (ag_registry s) i) (\<lambda>e. map_option rv_events (le_relay e))"

definition reconcile_artifacts :: "service_config \<Rightarrow> request_env \<Rightarrow> agent_server \<Rightarrow> string \<Rightarrow> string \<Rightarrow> string \<Rightarrow> agent_server" where
  "reconcile_artifacts cfg rq s i turnID correlationID =
     (if \<not> cfg_artifacts cfg then s
      else s\<lparr>ag_artifacts := reconcileSessionArtifacts (rq_engine rq) (rq_analyzer rq) (rq_clock rq) (session_files_of s)
               (rq_trees rq) (cfg_artifactWorkDir cfg) (relayed_events s i) (ag_artifacts s) i turnID correlationID\<rparr>)"

definition turnCancelledError :: string where "turnCancelledError = ''turn cancelled''"

text \<open>
  How both handlers that stop a turn do it: the context is cancelled, artifacts are reconciled, the agent's
  session is closed, the relay is ended (\<open>force\<close>, by \<open>cancel\<close> only), and the registries forget the session.
\<close>

definition end_turn :: "service_config \<Rightarrow> request_env \<Rightarrow> bool \<Rightarrow> string \<Rightarrow> agent_server \<Rightarrow> agent_server" where
  "end_turn cfg rq force i s =
     (let (turnID, correlationID) = turn_of s i;
          s = CancelExecution s i;
          s = reconcile_artifacts cfg rq s i turnID correlationID;
          s = (case Registry_Get (ag_registry s) i of
                 Some exec \<Rightarrow>
                   (let s = close_session (le_agentSess exec) s; s = (if force then update_exec i mark_relay_done s else s)
                    in unregister_exec i s)
               | None \<Rightarrow> s)
      in UnregisterExecCancel i (UnregisterActiveSession i s))"

definition handleTerminate :: "service_config \<Rightarrow> request_env \<Rightarrow> string \<Rightarrow> agent_server \<Rightarrow> agent_server \<times> string reply" where
  "handleTerminate cfg rq i s =
     (case Mem_Get s i of
        None \<Rightarrow> (s, Refused 404 (PlainText ''session not found''))
      | Some p \<Rightarrow>
          (let s = end_turn cfg rq False i s;
               s = write_cell p ((cell s p)\<lparr>rec_Status := StatusClosed\<rparr>) s;
               s = fst (WS_Update (rq_now rq) s p);
               s = (if cfg_artifacts cfg then
                      s\<lparr>ag_artifacts := (ag_artifacts s)\<lparr>sv_db := fst (CloseSession (rq_now rq) (sv_db (ag_artifacts s)) i)\<rparr>\<rparr> else s)
           in (s, Replied 200 ''terminated'')))"

definition handleCancel :: "service_config \<Rightarrow> request_env \<Rightarrow> string \<Rightarrow> agent_server \<Rightarrow> agent_server \<times> string reply" where
  "handleCancel cfg rq i s =
     (if i = [] then (s, Refused 400 (PlainText ''invalid path''))
      else case Mem_Get s i of
        None \<Rightarrow> (s, Refused 404 (PlainText ''session not found''))
      | Some p \<Rightarrow>
          if rec_Status (cell s p) = StatusClosed then (s, Refused 409 (PlainText ''session closed''))
          else
          (let s = end_turn cfg rq True i s;
               s = write_cell p ((cell s p)\<lparr>rec_Status := StatusError, rec_Error := turnCancelledError\<rparr>) s;
               s = fst (WS_Update (rq_now rq) s p)
           in (s, Replied 200 ''cancelled'')))"

text \<open>What a turn does to the record of its session, \<open>handler.go\<close> and \<open>handler_retry.go\<close>.\<close>

definition markSessionActive :: "go_time \<Rightarrow> string \<Rightarrow> agent_server \<Rightarrow> agent_server" where
  "markSessionActive now i s =
     (case Mem_Get s i of
        None \<Rightarrow> s
      | Some p \<Rightarrow> fst (WS_Update now (write_cell p ((cell s p)\<lparr>rec_Status := StatusActive\<rparr>) s) p))"

definition clearPersistedAgentSessionID :: "go_time \<Rightarrow> string \<Rightarrow> agent_server \<Rightarrow> agent_server" where
  "clearPersistedAgentSessionID now i s =
     (case Mem_Get s i of
        None \<Rightarrow> s
      | Some p \<Rightarrow>
          if rec_AgentSessionID (cell s p) = [] then s
          else fst (WS_Update now (write_cell p ((cell s p)\<lparr>rec_AgentSessionID := []\<rparr>) s) p))"

definition unknown_error :: string where "unknown_error = ''unknown error occurred during execution''"

definition updateSessionStatusOnTerminal :: "go_time \<Rightarrow> string \<Rightarrow> StreamEvent \<Rightarrow> bool \<Rightarrow> string \<Rightarrow> agent_server \<Rightarrow> agent_server" where
  "updateSessionStatusOnTerminal now i ev hasError errorMsg s =
     (if se_Type ev \<noteq> EventResult \<and> se_Type ev \<noteq> EventError then s
      else if se_Type ev = EventError \<and> se_Retryable ev then s
      else case Mem_Get s i of
        None \<Rightarrow> s
      | Some p \<Rightarrow>
          (let r = cell s p
           in if rec_Error r = turnCancelledError then s
              else fst (WS_Update now (write_cell p
                (if hasError \<or> se_Type ev = EventError
                 then r\<lparr>rec_Status := StatusError, rec_Error := (if errorMsg \<noteq> [] then errorMsg
                        else if se_Content ev \<noteq> [] then se_Content ev else unknown_error)\<rparr>
                 else r\<lparr>rec_Status := StatusCompleted, rec_Error := []\<rparr>) s) p)))"

definition finalizeSessionStatusOnDisconnect :: "go_time \<Rightarrow> string \<Rightarrow> liveExecution option \<Rightarrow> agent_server \<Rightarrow> agent_server" where
  "finalizeSessionStatusOnDisconnect now i exec s =
     (case (Option.bind exec le_relay, Mem_Get s i) of
        (Some relay, Some p) \<Rightarrow>
          if rec_Status (cell s p) = StatusCompleted \<or> rec_Status (cell s p) = StatusError then s
          else (case find (\<lambda>ev. se_Type ev = EventResult \<or> se_Type ev = EventError) (rv_events relay) of
                  Some ev \<Rightarrow>
                    if se_Type ev = EventResult then updateSessionStatusOnTerminal now i ev False [] s
                    else updateSessionStatusOnTerminal now i ev True (se_Content ev) s
                | None \<Rightarrow>
                    fst (WS_Update now (write_cell p
                      ((cell s p)\<lparr>rec_Status := StatusError, rec_Error := ''client disconnected before completion''\<rparr>) s) p))
      | _ \<Rightarrow> s)"

definition ingestActiveTurn :: "io \<Rightarrow> go_time \<Rightarrow> string \<Rightarrow> agent_server \<Rightarrow> agent_server" where
  "ingestActiveTurn io now i s =
     (case (relayed_events s i, Mem_Get s i) of
        (Some events, Some p) \<Rightarrow>
          (let r = cell s p; dir = rec_SessionDir r
           in if dir = [] then s
              else case IngestTurn io now (open_canonical s dir) (rec_AgentName r) (rec_AgentSessionID r) events of
                (c, err) \<Rightarrow>
                  (let s = s\<lparr>ag_canon := (ag_canon s)(dir := c)\<rparr>
                   in if err \<noteq> None then s
                      else case LoadMetadata (open_canonical s dir) of
                        Inl _ \<Rightarrow> s
                      | Inr meta \<Rightarrow>
                          (case map_of (md_AgentBindings meta) (rec_AgentName r) of
                             None \<Rightarrow> s
                           | Some b \<Rightarrow>
                               if ab_AgentSessionID b = [] then s
                               else fst (WS_Update now (write_cell p (r\<lparr>rec_AgentSessionID := ab_AgentSessionID b\<rparr>) s) p))))
      | _ \<Rightarrow> s)"

definition CleanupMultimodalFiles :: "string list \<Rightarrow> agent_server \<Rightarrow> agent_server" where
  "CleanupMultimodalFiles paths s = s\<lparr>ag_temp := filter (\<lambda>f. f \<notin> set paths) (ag_temp s)\<rparr>"

definition finishActiveExecution ::
  "io \<Rightarrow> go_time \<Rightarrow> string \<Rightarrow> nat option \<Rightarrow> string list \<Rightarrow> agent_server \<Rightarrow> agent_server" where
  "finishActiveExecution io now i agentSess savedFiles s =
     (let s = ingestActiveTurn io now i (update_exec i stopReattachTimer s);
          s = UnregisterExecCancel i (UnregisterActiveSession i (close_session agentSess s))
      in CleanupMultimodalFiles savedFiles (unregister_exec i s))"

text \<open>The drain timeout fired for \<open>exec\<close>: it is ignored when another execution has taken its place.\<close>

datatype stream_terminal = NoTerminal | TermResult | TermError bool string

definition stopExecOnDrainTimeout :: "string \<Rightarrow> nat \<Rightarrow> agent_server \<Rightarrow> agent_server \<times> stream_terminal" where
  "stopExecOnDrainTimeout i execID s =
     (case Registry_Get (ag_registry s) i of
        None \<Rightarrow> (s, NoTerminal)
      | Some e \<Rightarrow>
          if le_execID e \<noteq> execID then (s, NoTerminal)
          else (let s = close_session (le_agentSess e) (update_exec i stopReattachTimer s);
                    s = UnregisterExecCancel i (UnregisterActiveSession i (unregister_exec i s))
                in (s, TermError False ''client drain timeout'')))"
section \<open>The store\<close>

definition sessions_map :: "agent_server \<Rightarrow> string \<Rightarrow> SessionRecord option" where
  "sessions_map s i = map_option (cell s) (Mem_Get s i)"

text \<open>Distinct ids have distinct records in the heap, each under its own id.\<close>

definition store_ok :: "agent_server \<Rightarrow> bool" where
  "store_ok s \<longleftrightarrow> is_go_map (ag_sessions s) \<and> is_go_map (ag_disk s) \<and> is_go_map (ag_registry s) \<and> is_go_map (ag_active s) \<and> is_go_map (ag_cancels s) \<and>
     (\<forall>i p. Mem_Get s i = Some p \<longrightarrow> p < length (ag_cells s) \<and> rec_ID (cell s p) = i) \<and>
     (\<forall>i j p. Mem_Get s i = Some p \<and> Mem_Get s j = Some p \<longrightarrow> i = j)"

lemma store_okD:
  "store_ok s \<Longrightarrow> Mem_Get s i = Some p \<Longrightarrow> p < length (ag_cells s)"
  "store_ok s \<Longrightarrow> Mem_Get s i = Some p \<Longrightarrow> rec_ID (cell s p) = i"
  "store_ok s \<Longrightarrow> Mem_Get s i = Some p \<Longrightarrow> Mem_Get s j = Some p \<Longrightarrow> i = j"
  unfolding store_ok_def by blast+

lemma store_ok_maps:
  "store_ok s \<Longrightarrow> is_go_map (ag_sessions s)" "store_ok s \<Longrightarrow> is_go_map (ag_disk s)" "store_ok s \<Longrightarrow> is_go_map (ag_registry s)"
  "store_ok s \<Longrightarrow> is_go_map (ag_active s)" "store_ok s \<Longrightarrow> is_go_map (ag_cancels s)"
  by (simp_all add: store_ok_def)

text \<open>Everything but the records, the store, the disk and its faults.\<close>

definition runtime where
  "runtime s = (ag_canon s, ag_registry s, ag_active s, ag_cancels s, ag_cancelled s, ag_closed s, ag_ended s, ag_temp s, ag_artifacts s)"

lemma runtime_write_cell [simp]: "runtime (write_cell p r s) = runtime s"
  by (simp add: write_cell_def runtime_def)

lemma runtime_persist: "persistSessionRecord s r = (s', b) \<Longrightarrow> runtime s' = runtime s \<and> ag_cells s' = ag_cells s \<and> ag_sessions s' = ag_sessions s"
  by (auto simp: persistSessionRecord_def Let_def runtime_def split: persist_end.splits)

lemma runtime_Mem_Create [simp]: "runtime (Mem_Create now s p) = runtime s"
  by (simp add: Mem_Create_def alloc_def Let_def write_cell_def runtime_def)

lemma runtime_Mem_Update: "Mem_Update now s p = (s', e) \<Longrightarrow> runtime s' = runtime s"
  by (auto simp: Mem_Update_def alloc_def Let_def write_cell_def runtime_def split: option.splits if_splits)

lemma runtime_WS_Update [simp]: "runtime (fst (WS_Update now s p)) = runtime s"
proof (cases "WS_Update now s p")
  case (Pair s' e)
  then show ?thesis
    by (auto simp: WS_Update_def runtime_Mem_Update split: if_splits prod.splits bool.splits
          dest: runtime_persist runtime_Mem_Update)
qed

lemma Mem_Get_persist: "persistSessionRecord s r = (s', b) \<Longrightarrow> Mem_Get s' = Mem_Get s \<and> cell s' = cell s \<and> length (ag_cells s') = length (ag_cells s)"
  using runtime_persist by (fastforce simp: Mem_Get_def cell_def fun_eq_iff)

lemma store_ok_runtime:
  assumes "runtime s' = runtime s"
  shows "store_ok s' \<longleftrightarrow> is_go_map (ag_sessions s') \<and> is_go_map (ag_disk s') \<and> is_go_map (ag_registry s) \<and> is_go_map (ag_active s) \<and> is_go_map (ag_cancels s) \<and>
     (\<forall>i p. Mem_Get s' i = Some p \<longrightarrow> p < length (ag_cells s') \<and> rec_ID (cell s' p) = i) \<and>
     (\<forall>i j p. Mem_Get s' i = Some p \<and> Mem_Get s' j = Some p \<longrightarrow> i = j)"
  using assms by (simp add: store_ok_def runtime_def)

text \<open>Writing a record through the pointer that the store holds.\<close>

lemma write_stored:
  assumes "store_ok s" "Mem_Get s i = Some p" "rec_ID r = i"
  shows "store_ok (write_cell p r s)" "sessions_map (write_cell p r s) = (sessions_map s)(i \<mapsto> r)"
    "Mem_Get (write_cell p r s) = Mem_Get s" "cell (write_cell p r s) p = r"
proof -
  have p: "p < length (ag_cells s)" "\<And>j. Mem_Get s j = Some p \<Longrightarrow> j = i"
    using store_okD assms(1,2) by auto
  have c: "cell (write_cell p r s) q = (if q = p then r else cell s q)" for q
    using p(1) by (simp add: cell_def write_cell_def)
  show m: "Mem_Get (write_cell p r s) = Mem_Get s" by (simp add: Mem_Get_def write_cell_def fun_eq_iff)
  show "cell (write_cell p r s) p = r" by (simp add: c)
  have q: "q \<noteq> p" if "Mem_Get s j = Some q" "j \<noteq> i" for j q using that p(2) by blast
  show "sessions_map (write_cell p r s) = (sessions_map s)(i \<mapsto> r)"
  proof
    fix j
    show "sessions_map (write_cell p r s) j = ((sessions_map s)(i \<mapsto> r)) j"
    proof (cases "j = i")
      case False
      then show ?thesis using q [of j] by (cases "Mem_Get s j") (simp_all add: sessions_map_def m c)
    qed (simp add: sessions_map_def m c assms(2))
  qed
  have l: "length (ag_cells (write_cell p r s)) = length (ag_cells s)" "ag_sessions (write_cell p r s) = ag_sessions s" "ag_disk (write_cell p r s) = ag_disk s"
    by (simp_all add: write_cell_def)
  show "store_ok (write_cell p r s)"
    unfolding store_ok_runtime [OF runtime_write_cell] m l
  proof (intro conjI allI impI)
    fix j q assume j: "Mem_Get s j = Some q"
    then show "q < length (ag_cells s)" by (rule store_okD(1) [OF assms(1)])
    show "rec_ID (cell (write_cell p r s) q) = j"
      using p(2) j store_okD(2) [OF assms(1) j] assms(3) by (auto simp: c)
  next
    fix j k q assume "Mem_Get s j = Some q \<and> Mem_Get s k = Some q"
    then show "j = k" using store_okD(3) [OF assms(1)] by blast
  qed (use store_ok_maps [OF assms(1)] in simp_all)
qed

text \<open>The store holds a new copy.\<close>

lemma put_copy:
  assumes "store_ok s" "rec_ID r = i"
  defines "s' \<equiv> (fst (alloc r s))\<lparr>ag_sessions := massign i (snd (alloc r s)) (ag_sessions s)\<rparr>"
  shows "store_ok s'" "sessions_map s' = (sessions_map s)(i \<mapsto> r)" "runtime s' = runtime s"
proof -
  let ?n = "length (ag_cells s)"
  have p: "q < ?n" if "Mem_Get s j = Some q" for j q using store_okD(1) [OF assms(1)] that by blast
  have g: "Mem_Get s' = (Mem_Get s)(i \<mapsto> ?n)" by (simp add: s'_def Mem_Get_def alloc_def fun_eq_iff)
  have c: "cell s' q = (if q = ?n then r else cell s q)" if "q \<le> ?n" for q
    using that by (simp add: s'_def cell_def alloc_def nth_append)
  show r: "runtime s' = runtime s" by (simp add: s'_def runtime_def alloc_def)
  show "sessions_map s' = (sessions_map s)(i \<mapsto> r)"
  proof
    fix j
    show "sessions_map s' j = ((sessions_map s)(i \<mapsto> r)) j"
      using p [of j] c [of ?n] c by (cases "Mem_Get s j") (auto simp: sessions_map_def g)
  qed
  have l: "length (ag_cells s') = Suc ?n" "is_go_map (ag_sessions s')" "ag_disk s' = ag_disk s"
    using assms(1) by (simp_all add: s'_def alloc_def store_ok_def)
  show "store_ok s'"
    unfolding store_ok_runtime [OF r]
  proof (intro conjI allI impI)
    fix j q assume "Mem_Get s' j = Some q"
    then have "j = i \<and> q = ?n \<or> j \<noteq> i \<and> Mem_Get s j = Some q" by (auto simp: g split: if_splits)
    then show "q < length (ag_cells s')" "rec_ID (cell s' q) = j"
      using store_okD(1,2) [OF assms(1), of j q] c [of q] assms(2) l(1) by auto
  next
    fix j k q assume "Mem_Get s' j = Some q \<and> Mem_Get s' k = Some q"
    then have "(j = i \<and> q = ?n \<or> Mem_Get s j = Some q) \<and> (k = i \<and> q = ?n \<or> Mem_Get s k = Some q)"
      by (auto simp: g split: if_splits)
    then show "j = k" using p [of j q] p [of k q] store_okD(3) [OF assms(1)] by blast
  qed (use store_ok_maps [OF assms(1)] l(2,3) in simp_all)
qed
lemma persist_stored:
  assumes "store_ok s" "persistSessionRecord s r = (s', b)"
  shows "store_ok s'" "sessions_map s' = sessions_map s"
    "d \<noteq> rec_SessionDir r \<Longrightarrow> map_of (ag_disk s') d = map_of (ag_disk s) d"
    "b \<Longrightarrow> map_of (ag_disk s') (rec_SessionDir r) = Some r"
    "ag_faults s = [] \<Longrightarrow> b \<and> ag_faults s' = []"
proof -
  note rt = runtime_persist [OF assms(2)] and m = Mem_Get_persist [OF assms(2)]
  show "sessions_map s' = sessions_map s" using m by (metis (no_types, lifting) ext sessions_map_def)
  have d: "is_go_map (ag_disk s')" using store_ok_maps(2) [OF assms(1)] assms(2)
    by (auto simp: persistSessionRecord_def Let_def split: persist_end.splits)
  show "store_ok s'"
    unfolding store_ok_runtime [OF conjunct1 [OF rt]]
    using assms(1) rt m d by (simp add: store_ok_def)
  show "d \<noteq> rec_SessionDir r \<Longrightarrow> map_of (ag_disk s') d = map_of (ag_disk s) d"
    "b \<Longrightarrow> map_of (ag_disk s') (rec_SessionDir r) = Some r"
    "ag_faults s = [] \<Longrightarrow> b \<and> ag_faults s' = []"
    using assms(2) store_ok_maps(2) [OF assms(1)]
    by (auto simp: persistSessionRecord_def Let_def split: persist_end.splits list.splits)
qed

lemma mem_update_stored:
  assumes "store_ok s" "Mem_Get s i = Some p" "Mem_Update now s p = (s', err)"
  shows "err = None" "store_ok s'" "sessions_map s' = (sessions_map s)(i \<mapsto> (cell s p)\<lparr>rec_UpdatedAt := Some now\<rparr>)"
    "ag_disk s' = ag_disk s" "ag_faults s' = ag_faults s"
proof -
  let ?r = "(cell s p)\<lparr>rec_UpdatedAt := Some now\<rparr>"
  have i: "rec_ID (cell s p) = i" by (rule store_okD(2) [OF assms(1,2)])
  then have u: "Mem_Update now s p = (let (t, q) = alloc ?r (write_cell p ?r s) in (t\<lparr>ag_sessions := massign i q (ag_sessions t)\<rparr>, None))"
    using assms(2) by (auto simp: Mem_Update_def Let_def)
  have ri: "rec_ID ?r = i" by (simp add: i)
  note w = write_stored [OF assms(1,2) ri]
  note c = put_copy [OF w(1) ri]
  show "err = None" "ag_disk s' = ag_disk s" "ag_faults s' = ag_faults s"
    using u assms(3) by (auto simp: alloc_def write_cell_def)
  have s': "s' = (fst (alloc ?r (write_cell p ?r s)))\<lparr>ag_sessions := massign i (snd (alloc ?r (write_cell p ?r s))) (ag_sessions (write_cell p ?r s))\<rparr>"
    using u assms(3) by (auto simp: alloc_def)
  show "store_ok s'" unfolding s' by (rule c(1))
  show "sessions_map s' = (sessions_map s)(i \<mapsto> ?r)" unfolding s' c(2) w(2) by simp
qed

text \<open>
  A handler's update: it writes through the pointer it got from the store and calls \<open>Update\<close>. The guard of
  \<open>Update\<close> sees the change already made; an update that fails leaves the change in memory.
\<close>

lemma update_stored:
  assumes "store_ok s" "Mem_Get s i = Some p" "rec_ID r = i" "WS_Update now (write_cell p r s) p = (s', err)"
  shows "store_ok s'" "runtime s' = runtime s" "\<exists>t. sessions_map s' = (sessions_map s)(i \<mapsto> r\<lparr>rec_UpdatedAt := t\<rparr>)"
    "err = None \<or> err = Some PersistFailed"
    "err = None \<Longrightarrow> sessions_map s' = (sessions_map s)(i \<mapsto> r\<lparr>rec_UpdatedAt := Some now\<rparr>)"
    "err = None \<Longrightarrow> rec_SessionDir r \<noteq> [] \<Longrightarrow> map_of (ag_disk s') (rec_SessionDir r) = Some r"
    "d \<noteq> rec_SessionDir r \<Longrightarrow> map_of (ag_disk s') d = map_of (ag_disk s) d"
    "ag_faults s = [] \<Longrightarrow> err = None \<and> ag_faults s' = []"
proof -
  let ?w = "write_cell p r s"
  note w = write_stored [OF assms(1-3)]
  have disk: "ag_disk ?w = ag_disk s" "ag_faults ?w = ag_faults s" by (simp_all add: write_cell_def)
  have g: "Mem_Get ?w i = Some p" using w(3) assms(2) by simp
  show "runtime s' = runtime s" using runtime_WS_Update [of now ?w p] assms(4) by simp
  have "store_ok s' \<and> (\<exists>t. sessions_map s' = (sessions_map s)(i \<mapsto> r\<lparr>rec_UpdatedAt := t\<rparr>)) \<and> (err = None \<or> err = Some PersistFailed) \<and>
     (err = None \<longrightarrow> sessions_map s' = (sessions_map s)(i \<mapsto> r\<lparr>rec_UpdatedAt := Some now\<rparr>)) \<and>
     (err = None \<longrightarrow> rec_SessionDir r \<noteq> [] \<longrightarrow> map_of (ag_disk s') (rec_SessionDir r) = Some r) \<and>
     (d \<noteq> rec_SessionDir r \<longrightarrow> map_of (ag_disk s') d = map_of (ag_disk s) d) \<and>
     (ag_faults s = [] \<longrightarrow> err = None \<and> ag_faults s' = [])"
  proof (cases "rec_SessionDir r = []")
    case True
    then have "Mem_Update now ?w p = (s', err)" using assms(4) w(4) by (simp add: WS_Update_def)
    note m = mem_update_stored [OF w(1) g this]
    then show ?thesis using True disk w(2,4) by auto
  next
    case False
    obtain t b where b: "persistSessionRecord ?w r = (t, b)" by (cases "persistSessionRecord ?w r")
    note f = persist_stored [OF w(1) b] and q = Mem_Get_persist [OF b]
    show ?thesis
    proof (cases b)
      case True
      then have "Mem_Update now t p = (s', err)" using assms(4) w(4) False b by (simp add: WS_Update_def)
      note m = mem_update_stored [OF f(1) _ this]
      have "Mem_Get t i = Some p" using q g by simp
      note m = m [OF this]
      have "cell t p = r" using q w(4) by simp
      then show ?thesis using m f(2,3,5) f(4) True disk w(2) by auto
    next
      case False': False
      then have e: "s' = t" "err = Some PersistFailed" using assms(4) w(4) False b by (simp_all add: WS_Update_def)
      have "(sessions_map s)(i \<mapsto> r) = (sessions_map s)(i \<mapsto> r\<lparr>rec_UpdatedAt := rec_UpdatedAt r\<rparr>)" by simp
      then show ?thesis using e f(1,2,3,5) disk w(2) False' by (metis option.distinct(1))
    qed
  qed
  then show "store_ok s'" "\<exists>t. sessions_map s' = (sessions_map s)(i \<mapsto> r\<lparr>rec_UpdatedAt := t\<rparr>)"
    "err = None \<or> err = Some PersistFailed"
    "err = None \<Longrightarrow> sessions_map s' = (sessions_map s)(i \<mapsto> r\<lparr>rec_UpdatedAt := Some now\<rparr>)"
    "err = None \<Longrightarrow> rec_SessionDir r \<noteq> [] \<Longrightarrow> map_of (ag_disk s') (rec_SessionDir r) = Some r"
    "d \<noteq> rec_SessionDir r \<Longrightarrow> map_of (ag_disk s') d = map_of (ag_disk s) d"
    "ag_faults s = [] \<Longrightarrow> err = None \<and> ag_faults s' = []" by simp_all
qed

text \<open>The same for the handlers that ignore whether the update succeeded.\<close>

lemma saved_stored:
  fixes now :: go_time
  assumes "store_ok s" "Mem_Get s i = Some p" "rec_ID r = i"
  defines "s' \<equiv> fst (WS_Update now (write_cell p r s) p)"
  shows "store_ok s'" "runtime s' = runtime s" "\<exists>t. sessions_map s' = (sessions_map s)(i \<mapsto> r\<lparr>rec_UpdatedAt := t\<rparr>)"
    "d \<noteq> rec_SessionDir r \<Longrightarrow> map_of (ag_disk s') d = map_of (ag_disk s) d"
    "ag_faults s = [] \<Longrightarrow> ag_faults s' = [] \<and> (rec_SessionDir r \<noteq> [] \<longrightarrow> map_of (ag_disk s') (rec_SessionDir r) = Some r)"
proof -
  obtain err where "WS_Update now (write_cell p r s) p = (s', err)" by (metis prod.collapse s'_def)
  note u = update_stored [OF assms(1-3) this]
  show "store_ok s'" "runtime s' = runtime s" "\<exists>t. sessions_map s' = (sessions_map s)(i \<mapsto> r\<lparr>rec_UpdatedAt := t\<rparr>)"
    "d \<noteq> rec_SessionDir r \<Longrightarrow> map_of (ag_disk s') d = map_of (ag_disk s) d"
    "ag_faults s = [] \<Longrightarrow> ag_faults s' = [] \<and> (rec_SessionDir r \<noteq> [] \<longrightarrow> map_of (ag_disk s') (rec_SessionDir r) = Some r)"
    using u(1-3,6-8) by simp_all
qed
section \<open>Sessions do not affect each other\<close>

definition records where "records s = (ag_cells s, ag_sessions s, ag_disk s, ag_faults s)"

text \<open>What the service holds for one session; and what an operation on session \<open>i\<close> leaves alone.\<close>

definition holdings where
  "holdings s i = (sessions_map s i, Registry_Get (ag_registry s) i, map_of (ag_active s) i, map_of (ag_cancels s) i)"

definition only_affects :: "string \<Rightarrow> agent_server \<Rightarrow> agent_server \<Rightarrow> bool" where
  "only_affects i s s' \<longleftrightarrow> store_ok s' \<and> (\<forall>j. j \<noteq> i \<longrightarrow> holdings s' j = holdings s j)"

lemma only_affects_refl: "store_ok s \<Longrightarrow> only_affects i s s"
  by (simp add: only_affects_def)

lemma only_affects_trans [trans]: "only_affects i s t \<Longrightarrow> only_affects i t u \<Longrightarrow> only_affects i s u"
  by (simp add: only_affects_def)

lemma only_affects_ok: "only_affects i s t \<Longrightarrow> store_ok t"
  by (simp add: only_affects_def)

lemma records_same:
  assumes "records s' = records s"
  shows "Mem_Get s' = Mem_Get s" "cell s' = cell s" "sessions_map s' = sessions_map s"
proof -
  show g: "Mem_Get s' = Mem_Get s" "cell s' = cell s" using assms by (simp_all add: records_def Mem_Get_def cell_def fun_eq_iff)
  show "sessions_map s' = sessions_map s" by (rule ext) (simp only: sessions_map_def g)
qed

lemma store_ok_records:
  assumes "records s' = records s" "store_ok s" "is_go_map (ag_registry s')" "is_go_map (ag_active s')" "is_go_map (ag_cancels s')"
  shows "store_ok s'"
  using assms(2-5) unfolding store_ok_def records_same [OF assms(1)] using assms(1) by (simp add: records_def)

lemma only_affects_runtime:
  assumes "store_ok s" "records s' = records s" "is_go_map (ag_registry s')" "is_go_map (ag_active s')" "is_go_map (ag_cancels s')"
    and "\<And>j. j \<noteq> i \<Longrightarrow> map_of (ag_registry s') j = map_of (ag_registry s) j \<and> map_of (ag_active s') j = map_of (ag_active s) j \<and>
      map_of (ag_cancels s') j = map_of (ag_cancels s) j"
  shows "only_affects i s s'"
  using assms(6) store_ok_records [OF assms(2,1,3-5)]
  by (simp add: only_affects_def holdings_def records_same [OF assms(2)] Registry_Get_def)

lemma only_affects_saved:
  assumes "store_ok s" "Mem_Get s i = Some p" "rec_ID r = i"
  shows "only_affects i s (fst (WS_Update now (write_cell p r s) p))"
  using saved_stored [OF assms, where now = now] by (auto simp: only_affects_def holdings_def runtime_def)

lemma only_affects_written:
  assumes "store_ok s" "Mem_Get s i = Some p" "rec_ID r = i"
  shows "only_affects i s (write_cell p r s)"
  using write_stored [OF assms] by (simp add: only_affects_def holdings_def write_cell_def)

lemma only_affects_same:
  "store_ok s \<Longrightarrow> records s' = records s \<Longrightarrow> ag_registry s' = ag_registry s \<Longrightarrow> ag_active s' = ag_active s \<Longrightarrow>
   ag_cancels s' = ag_cancels s \<Longrightarrow> only_affects i s s'"
  using store_ok_maps by (intro only_affects_runtime) simp_all

lemma affects_bookkeeping:
  assumes "store_ok s"
  shows "only_affects i s (CancelExecution s i)" "only_affects i s (RegisterExecCancel i ctx s)"
    "only_affects i s (UnregisterExecCancel i s)" "only_affects i s (RegisterActiveSession i sess s)"
    "only_affects i s (UnregisterActiveSession i s)" "only_affects i s (close_session a s)" "only_affects i s (unregister_exec i s)"
    "only_affects i s (update_exec i f s)" "only_affects i s (reconcile_artifacts cfg rq s k t c)" "only_affects i s (CleanupMultimodalFiles fs s)"
    "only_affects i s (s\<lparr>ag_canon := cn\<rparr>)" "only_affects i s (s\<lparr>ag_artifacts := ar\<rparr>)"
  using store_ok_maps [OF assms]
  by (auto intro!: only_affects_runtime [OF assms] simp: records_def CancelExecution_def RegisterExecCancel_def
      UnregisterExecCancel_def RegisterActiveSession_def UnregisterActiveSession_def close_session_def unregister_exec_def
      update_exec_def Unregister_def Registry_Get_def reconcile_artifacts_def CleanupMultimodalFiles_def split: option.split)

text \<open>Several of them in a row.\<close>

lemma affects_then: "only_affects i s t \<Longrightarrow> (store_ok t \<Longrightarrow> only_affects i t u) \<Longrightarrow> only_affects i s u"
  using only_affects_ok only_affects_trans by blast

text \<open>The bookkeeping of a session leaves the records alone.\<close>

lemma records_bookkeeping [simp]:
  "records (CancelExecution s i) = records s" "records (RegisterExecCancel i ctx s) = records s"
  "records (UnregisterExecCancel i s) = records s" "records (RegisterActiveSession i sess s) = records s"
  "records (UnregisterActiveSession i s) = records s" "records (close_session a s) = records s" "records (unregister_exec i s) = records s"
  "records (update_exec i f s) = records s" "records (reconcile_artifacts cfg rq s k t c) = records s"
  "records (CleanupMultimodalFiles fs s) = records s" "records (s\<lparr>ag_canon := cn\<rparr>) = records s" "records (s\<lparr>ag_artifacts := ar\<rparr>) = records s"
  by (simp_all add: records_def CancelExecution_def RegisterExecCancel_def
      UnregisterExecCancel_def RegisterActiveSession_def UnregisterActiveSession_def close_session_def unregister_exec_def
      update_exec_def reconcile_artifacts_def CleanupMultimodalFiles_def split: option.split)
lemma affects_status:
  assumes "store_ok s"
  shows "only_affects i s (markSessionActive now i s)" "only_affects i s (clearPersistedAgentSessionID now i s)"
    "only_affects i s (updateSessionStatusOnTerminal now i ev h m s)" "only_affects i s (finalizeSessionStatusOnDisconnect now i e s)"
proof -
  have save: "only_affects i s (fst (WS_Update now (write_cell p r s) p))" if "Mem_Get s i = Some p" "rec_ID r = rec_ID (cell s p)" for p r
    using that store_okD(2) [OF assms that(1)] by (intro only_affects_saved [OF assms]) simp_all
  show "only_affects i s (markSessionActive now i s)" "only_affects i s (clearPersistedAgentSessionID now i s)"
    by (simp_all add: markSessionActive_def clearPersistedAgentSessionID_def only_affects_refl assms save split: option.split)
  show terminal: "only_affects i s (updateSessionStatusOnTerminal now i ev h m s)" for ev h m
    by (simp add: updateSessionStatusOnTerminal_def Let_def only_affects_refl assms save split: option.split)
  show "only_affects i s (finalizeSessionStatusOnDisconnect now i e s)"
    by (simp add: finalizeSessionStatusOnDisconnect_def only_affects_refl assms save terminal split: option.split)
qed

lemma ingest_cases:
  obtains "ingestActiveTurn io now i s = s"
    | dir c where "ingestActiveTurn io now i s = s\<lparr>ag_canon := (ag_canon s)(dir := c)\<rparr>"
    | p dir c n where "Mem_Get s i = Some p"
        "ingestActiveTurn io now i s =
           fst (WS_Update now (write_cell p ((cell s p)\<lparr>rec_AgentSessionID := n\<rparr>) (s\<lparr>ag_canon := (ag_canon s)(dir := c)\<rparr>)) p)"
proof (cases "relayed_events s i = None \<or> Mem_Get s i = None \<or> rec_SessionDir (cell s (the (Mem_Get s i))) = []")
  case True
  then have "ingestActiveTurn io now i s = s" by (auto simp: ingestActiveTurn_def Let_def split: option.split)
  then show ?thesis by (rule that(1))
next
  case False
  then obtain events p where e: "relayed_events s i = Some events" and p: "Mem_Get s i = Some p" and d: "rec_SessionDir (cell s p) \<noteq> []"
    by auto
  let ?dir = "rec_SessionDir (cell s p)"
  obtain c err where c: "IngestTurn io now (open_canonical s ?dir) (rec_AgentName (cell s p)) (rec_AgentSessionID (cell s p)) events = (c, err)"
    by force
  let ?t = "s\<lparr>ag_canon := (ag_canon s)(?dir := c)\<rparr>"
  have "ingestActiveTurn io now i s = ?t \<or>
      (\<exists>n. ingestActiveTurn io now i s = fst (WS_Update now (write_cell p ((cell s p)\<lparr>rec_AgentSessionID := n\<rparr>) ?t) p))"
  proof (cases "err \<noteq> None")
    case True
    then show ?thesis using e p d c by (simp add: ingestActiveTurn_def Let_def)
  next
    case ok: False
    note start = e p d c ok
    show ?thesis
    proof (cases "LoadMetadata (open_canonical ?t ?dir)")
      case (Inl x)
      then show ?thesis using start by (simp add: ingestActiveTurn_def Let_def)
    next
      case (Inr meta)
      show ?thesis
      proof (cases "map_of (md_AgentBindings meta) (rec_AgentName (cell s p))")
        case None
        with Inr start show ?thesis by (simp add: ingestActiveTurn_def Let_def)
      next
        case (Some b)
        with Inr start have "ingestActiveTurn io now i s = (if ab_AgentSessionID b = [] then ?t
            else fst (WS_Update now (write_cell p ((cell s p)\<lparr>rec_AgentSessionID := ab_AgentSessionID b\<rparr>) ?t) p))"
          by (simp add: ingestActiveTurn_def Let_def)
        then show ?thesis by (cases "ab_AgentSessionID b = []") (metis, metis)
      qed
    qed
  qed
  then show ?thesis using that(2,3) p by blast
qed

lemma affects_ingest: "store_ok s \<Longrightarrow> only_affects i s (ingestActiveTurn io now i s)"
proof (cases rule: ingest_cases [of io now i s])
  case (3 p dir c n)
  assume ok: "store_ok s"
  let ?t = "s\<lparr>ag_canon := (ag_canon s)(dir := c)\<rparr>"
  have t: "only_affects i s ?t" by (rule affects_bookkeeping [OF ok])
  have "cell ?t = cell s" "Mem_Get ?t = Mem_Get s" by (rule records_same, simp)+
  then have "only_affects i ?t (fst (WS_Update now (write_cell p ((cell s p)\<lparr>rec_AgentSessionID := n\<rparr>) ?t) p))"
    using only_affects_ok [OF t] 3(1) store_okD(2) [OF ok 3(1)] by (intro only_affects_saved) simp_all
  then show ?thesis unfolding 3(2) using t only_affects_trans by blast
qed (simp_all add: only_affects_refl affects_bookkeeping)

lemma affects_finish: "store_ok s \<Longrightarrow> only_affects i s (finishActiveExecution io now i a fs s)"
  unfolding finishActiveExecution_def Let_def
  by (rule affects_then, rule affects_bookkeeping(8), assumption, rule affects_then, erule affects_ingest,
      rule affects_then, erule affects_bookkeeping(6), rule affects_then, erule affects_bookkeeping(5), rule affects_then, erule affects_bookkeeping(3),
      rule affects_then, erule affects_bookkeeping(7), erule affects_bookkeeping(10))

lemma affects_drain: "store_ok s \<Longrightarrow> only_affects i s (fst (stopExecOnDrainTimeout i x s))"
proof -
  assume ok: "store_ok s"
  have "only_affects i s (UnregisterExecCancel i (UnregisterActiveSession i (unregister_exec i (close_session a (update_exec i stopReattachTimer s)))))" for a
    by (rule affects_then, rule affects_bookkeeping(8) [OF ok], rule affects_then, erule affects_bookkeeping(6),
        rule affects_then, erule affects_bookkeeping(7), rule affects_then, erule affects_bookkeeping(5), erule affects_bookkeeping(3))
  then show ?thesis using ok by (simp add: stopExecOnDrainTimeout_def Let_def only_affects_refl split: option.split)
qed

lemma affects_end_turn: "store_ok s \<Longrightarrow> only_affects i s (end_turn cfg rq force i s)"
proof -
  assume ok: "store_ok s"
  obtain t c where tc: "turn_of s i = (t, c)" by force
  let ?r = "reconcile_artifacts cfg rq (CancelExecution s i) i t c"
  have r: "only_affects i s ?r" by (rule affects_then, rule affects_bookkeeping(1) [OF ok], erule affects_bookkeeping(9))
  have e: "only_affects i s (unregister_exec i (if force then update_exec i mark_relay_done (close_session a ?r) else close_session a ?r))" for a
    by (rule affects_then [OF r], rule affects_then, erule affects_bookkeeping(6), cases force; simp only: if_True if_False)
      (rule affects_then, erule affects_bookkeeping(8), erule affects_bookkeeping(7), erule affects_bookkeeping(7))
  have d: "only_affects i s (UnregisterExecCancel i (UnregisterActiveSession i u))" if "only_affects i s u" for u
    by (rule affects_then [OF that], rule affects_then, erule affects_bookkeeping(5), erule affects_bookkeeping(3))
  show ?thesis using d [OF r] d [OF e] by (simp add: end_turn_def Let_def tc split: option.split)
qed

lemma records_end_turn [simp]: "records (end_turn cfg rq force i s) = records s"
  by (simp add: end_turn_def Let_def split: option.split prod.split)
subsection \<open>Creating\<close>

definition unstored :: "nat \<Rightarrow> agent_server \<Rightarrow> bool" where
  "unstored p s \<longleftrightarrow> store_ok s \<and> p < length (ag_cells s) \<and> (\<forall>j. Mem_Get s j \<noteq> Some p)"

lemma unstored_alloc:
  assumes "store_ok s" "alloc r s = (s', p)"
  shows "unstored p s'" "cell s' p = r" "sessions_map s' = sessions_map s" "runtime s' = runtime s" "ag_disk s' = ag_disk s"
    "ag_faults s' = ag_faults s"
proof -
  have s': "s' = s\<lparr>ag_cells := ag_cells s @ [r]\<rparr>" and p: "p = length (ag_cells s)" using assms(2) by (auto simp: alloc_def)
  have g: "Mem_Get s' = Mem_Get s" by (simp add: s' Mem_Get_def fun_eq_iff)
  have c: "cell s' q = cell s q" if "q < p" for q using that by (simp add: s' p cell_def nth_append)
  note lt = store_okD(1) [OF assms(1)]
  show "cell s' p = r" "ag_disk s' = ag_disk s" "ag_faults s' = ag_faults s" by (simp_all add: s' p cell_def)
  show rt: "runtime s' = runtime s" by (simp add: s' runtime_def)
  show "sessions_map s' = sessions_map s"
  proof
    fix j show "sessions_map s' j = sessions_map s j"
      using lt [of j] c p by (cases "Mem_Get s j") (simp_all add: sessions_map_def g)
  qed
  have "store_ok s'"
    unfolding store_ok_runtime [OF rt]
  proof (intro conjI allI impI)
    fix j q assume "Mem_Get s' j = Some q"
    then have j: "Mem_Get s j = Some q" by (simp only: g)
    show "q < length (ag_cells s')" using lt [OF j] by (simp add: s')
    show "rec_ID (cell s' q) = j" using lt [OF j] store_okD(2) [OF assms(1) j] c p by simp
  next
    fix j k q assume "Mem_Get s' j = Some q \<and> Mem_Get s' k = Some q"
    then show "j = k" using store_okD(3) [OF assms(1)] by (simp add: g)
  qed (use store_ok_maps [OF assms(1)] in \<open>simp_all add: s'\<close>)
  moreover have "Mem_Get s' j \<noteq> Some p" for j using lt [of j p] p by (auto simp: g)
  moreover have "p < length (ag_cells s')" by (simp add: s' p)
  ultimately show "unstored p s'" by (simp add: unstored_def)
qed

lemma unstored_write:
  assumes "unstored p s"
  shows "unstored p (write_cell p r s)" "sessions_map (write_cell p r s) = sessions_map s" "cell (write_cell p r s) p = r"
proof -
  have g: "Mem_Get (write_cell p r s) = Mem_Get s" by (simp add: write_cell_def Mem_Get_def fun_eq_iff)
  have c: "cell (write_cell p r s) q = (if q = p then r else cell s q)" for q
    using assms by (simp add: cell_def write_cell_def unstored_def)
  have ok: "store_ok s" and np: "Mem_Get s j \<noteq> Some p" for j using assms by (simp_all add: unstored_def)
  show "cell (write_cell p r s) p = r" by (simp add: c)
  show "sessions_map (write_cell p r s) = sessions_map s"
  proof
    fix j show "sessions_map (write_cell p r s) j = sessions_map s j"
      using np [of j] by (cases "Mem_Get s j") (auto simp: sessions_map_def g c)
  qed
  have l: "length (ag_cells (write_cell p r s)) = length (ag_cells s)" by (simp add: write_cell_def)
  have "store_ok (write_cell p r s)"
    unfolding store_ok_runtime [OF runtime_write_cell] g l
  proof (intro conjI allI impI)
    fix j q assume j: "Mem_Get s j = Some q"
    show "q < length (ag_cells s)" by (rule store_okD(1) [OF ok j])
    show "rec_ID (cell (write_cell p r s) q) = j" using np [of j] j store_okD(2) [OF ok j] by (auto simp: c)
  next
    fix j k q assume "Mem_Get s j = Some q \<and> Mem_Get s k = Some q"
    then show "j = k" using store_okD(3) [OF ok] by blast
  qed (use store_ok_maps [OF ok] in \<open>simp_all add: write_cell_def\<close>)
  then show "unstored p (write_cell p r s)" using assms by (simp add: unstored_def l g)
qed

lemma mem_create_new:
  fixes now :: go_time
  assumes "unstored p s"
  defines "r \<equiv> (cell s p)\<lparr>rec_CreatedAt := Some now, rec_UpdatedAt := Some now\<rparr>"
  shows "store_ok (Mem_Create now s p)" "sessions_map (Mem_Create now s p) = (sessions_map s)(rec_ID (cell s p) \<mapsto> r)"
    "ag_disk (Mem_Create now s p) = ag_disk s" "ag_faults (Mem_Create now s p) = ag_faults s"
proof -
  note w = unstored_write [OF assms(1), of r]
  have ok: "store_ok (write_cell p r s)" using w(1) by (simp add: unstored_def)
  have i: "rec_ID r = rec_ID (cell s p)" by (simp add: r_def)
  have e: "Mem_Create now s p = (fst (alloc r (write_cell p r s)))
     \<lparr>ag_sessions := massign (rec_ID (cell s p)) (snd (alloc r (write_cell p r s))) (ag_sessions (write_cell p r s))\<rparr>"
    unfolding Mem_Create_def r_def [symmetric] by (simp add: alloc_def i)
  note c = put_copy [OF ok i]
  show "store_ok (Mem_Create now s p)" "sessions_map (Mem_Create now s p) = (sessions_map s)(rec_ID (cell s p) \<mapsto> r)"
    unfolding e c(2) w(2) [symmetric] by (rule c(1)) (rule refl)
  show "ag_disk (Mem_Create now s p) = ag_disk s" "ag_faults (Mem_Create now s p) = ag_faults s"
    by (simp_all add: e alloc_def write_cell_def)
qed

definition with_session_dir :: "SessionRecord \<Rightarrow> SessionRecord" where
  "with_session_dir r =
     (if rec_SessionDir r = [] \<and> EffectiveStorageRoot r \<noteq> [] \<and> rec_ID r \<noteq> []
      then r\<lparr>rec_SessionDir := CanonicalSessionDir (EffectiveStorageRoot r) (rec_ID r)\<rparr> else r)"

lemma unstored_records:
  assumes "unstored p s" "records s' = records s" "runtime s' = (cn, snd (runtime s))"
  shows "unstored p s'" "sessions_map s' = sessions_map s" "cell s' = cell s"
proof -
  have m: "is_go_map (ag_registry s')" "is_go_map (ag_active s')" "is_go_map (ag_cancels s')"
    using assms(1,3) store_ok_maps by (auto simp: runtime_def unstored_def)
  show "sessions_map s' = sessions_map s" "cell s' = cell s" by (rule records_same [OF assms(2)])+
  have "Mem_Get s' = Mem_Get s" "store_ok s'" using records_same(1) [OF assms(2)] store_ok_records [OF assms(2) _ m] assms(1) by (simp_all add: unstored_def)
  moreover have "length (ag_cells s') = length (ag_cells s)" using assms(2) by (simp add: records_def)
  ultimately show "unstored p s'" using assms(1) by (simp add: unstored_def)
qed

lemma create_stored:
  assumes "unstored p s" "WS_Create io now s p = (s', err)"
  defines "r \<equiv> with_session_dir (cell s p)"
  shows "store_ok s'" "snd (runtime s') = snd (runtime s)"
    "err \<noteq> None \<Longrightarrow> sessions_map s' = sessions_map s"
    "err = None \<Longrightarrow> sessions_map s' = (sessions_map s)(rec_ID r \<mapsto> r\<lparr>rec_CreatedAt := Some now, rec_UpdatedAt := Some now\<rparr>)"
    "err = None \<Longrightarrow> rec_SessionDir r \<noteq> [] \<Longrightarrow> map_of (ag_disk s') (rec_SessionDir r) = Some r"
    "d \<noteq> rec_SessionDir r \<Longrightarrow> map_of (ag_disk s') d = map_of (ag_disk s) d"
proof -
  let ?w = "write_cell p r s" and ?dir = "rec_SessionDir r"
  note w = unstored_write [OF assms(1), of r]
  have wd: "ag_disk ?w = ag_disk s" "ag_faults ?w = ag_faults s" by (simp_all add: write_cell_def)
  have i: "rec_ID (cell ?w p) = rec_ID r" by (simp add: w(3))
  have e: "WS_Create io now s p =
    (if ?dir = [] then (Mem_Create now ?w p, None)
     else case persistSessionRecord ?w r of
       (s, False) \<Rightarrow> (s, Some PersistFailed)
     | (s, True) \<Rightarrow> (case Init io now (open_canonical s ?dir) (rec_ID r) (rec_AgentName r) of
          (c, err) \<Rightarrow> (let s = s\<lparr>ag_canon := (ag_canon s)(?dir := c)\<rparr>
             in case err of Some e \<Rightarrow> (s, Some (CanonicalFailed e)) | None \<Rightarrow> (Mem_Create now s p, None))))"
    unfolding WS_Create_def with_session_dir_def r_def by (simp only: Let_def)
  have "store_ok s' \<and> snd (runtime s') = snd (runtime s) \<and> (err \<noteq> None \<longrightarrow> sessions_map s' = sessions_map s) \<and>
    (err = None \<longrightarrow> sessions_map s' = (sessions_map s)(rec_ID r \<mapsto> r\<lparr>rec_CreatedAt := Some now, rec_UpdatedAt := Some now\<rparr>)) \<and>
    (err = None \<longrightarrow> ?dir \<noteq> [] \<longrightarrow> map_of (ag_disk s') ?dir = Some r) \<and>
    (d \<noteq> ?dir \<longrightarrow> map_of (ag_disk s') d = map_of (ag_disk s) d)"
  proof (cases "?dir = []")
    case True
    then have s': "s' = Mem_Create now ?w p" "err = None" using e assms(2) by simp_all
    then show ?thesis using mem_create_new [OF w(1), of now] w(2,3) wd True by simp
  next
    case False
    obtain t b where b: "persistSessionRecord ?w r = (t, b)" by force
    have wok: "store_ok ?w" using w(1) by (simp add: unstored_def)
    note f = persist_stored [OF wok b] and q = Mem_Get_persist [OF b] and rt = runtime_persist [OF b]
    have t: "unstored p t" using w(1) f(1) q by (simp add: unstored_def)
    show ?thesis
    proof (cases b)
      case False': False
      then have "s' = t" "err = Some PersistFailed" using e assms(2) False b by simp_all
      then show ?thesis using f(1,2,3) rt w(2) wd by simp
    next
      case True
      obtain c er where c: "Init io now (open_canonical t ?dir) (rec_ID r) (rec_AgentName r) = (c, er)" by force
      let ?u = "t\<lparr>ag_canon := (ag_canon t)(?dir := c)\<rparr>"
      have u: "unstored p ?u" "sessions_map ?u = sessions_map t" "cell ?u = cell t"
        by (rule unstored_records [OF t, where cn = "(ag_canon t)(?dir := c)"]; simp add: runtime_def)+
      have ru: "snd (runtime ?u) = snd (runtime s)" using rt by (simp add: runtime_def write_cell_def)
      have up: "cell ?u p = r" using u(3) q w(3) by simp
      show ?thesis
      proof (cases er)
        case None
        then have s': "s' = Mem_Create now ?u p" "err = None" using e assms(2) False b c True by simp_all
        show ?thesis unfolding s' using mem_create_new [OF u(1), of now] u(2) up f(2,3,4) w(2) wd True ru by simp
      next
        case (Some x)
        then have s': "s' = ?u" "err = Some (CanonicalFailed x)" using e assms(2) False b c True by simp_all
        show ?thesis unfolding s' using u(1,2) f(2,3) w(2) wd ru by (simp add: unstored_def)
      qed
    qed
  qed
  then show "store_ok s'" "snd (runtime s') = snd (runtime s)"
    "err \<noteq> None \<Longrightarrow> sessions_map s' = sessions_map s"
    "err = None \<Longrightarrow> sessions_map s' = (sessions_map s)(rec_ID r \<mapsto> r\<lparr>rec_CreatedAt := Some now, rec_UpdatedAt := Some now\<rparr>)"
    "err = None \<Longrightarrow> ?dir \<noteq> [] \<Longrightarrow> map_of (ag_disk s') ?dir = Some r"
    "d \<noteq> ?dir \<Longrightarrow> map_of (ag_disk s') d = map_of (ag_disk s) d" by simp_all
qed
section \<open>The handlers\<close>

lemma affects_terminate: "store_ok s \<Longrightarrow> only_affects i s (fst (handleTerminate cfg rq i s))"
proof -
  assume ok: "store_ok s"
  show ?thesis
  proof (cases "Mem_Get s i")
    case None
    then show ?thesis using ok by (simp add: handleTerminate_def only_affects_refl)
  next
    case (Some p)
    let ?t = "end_turn cfg rq False i s"
    let ?u = "fst (WS_Update (rq_now rq) (write_cell p ((cell ?t p)\<lparr>rec_Status := StatusClosed\<rparr>) ?t) p)"
    have t: "only_affects i s ?t" by (rule affects_end_turn [OF ok])
    have g: "Mem_Get ?t i = Some p" using records_same(1) [OF records_end_turn, of cfg rq False i s] Some by simp
    have u: "only_affects i s ?u"
      by (rule affects_then [OF t], rule only_affects_saved [OF _ g], assumption) (simp add: store_okD(2) [OF only_affects_ok [OF t] g])
    have v: "only_affects i s (?u\<lparr>ag_artifacts := ar\<rparr>)" for ar by (rule affects_then [OF u], erule affects_bookkeeping)
    show ?thesis using Some u v by (simp add: handleTerminate_def Let_def)
  qed
qed

lemma affects_cancel: "store_ok s \<Longrightarrow> only_affects i s (fst (handleCancel cfg rq i s))"
proof -
  assume ok: "store_ok s"
  show ?thesis
  proof (cases "i = [] \<or> Mem_Get s i = None")
    case True
    then show ?thesis using ok by (auto simp: handleCancel_def only_affects_refl)
  next
    case False
    then obtain p where p: "Mem_Get s i = Some p" "i \<noteq> []" by auto
    let ?t = "end_turn cfg rq True i s"
    let ?r = "(cell ?t p)\<lparr>rec_Status := StatusError, rec_Error := turnCancelledError\<rparr>"
    have t: "only_affects i s ?t" by (rule affects_end_turn [OF ok])
    have g: "Mem_Get ?t i = Some p" using records_same(1) [OF records_end_turn, of cfg rq True i s] p by simp
    have u: "only_affects i s (fst (WS_Update (rq_now rq) (write_cell p ?r ?t) p))"
      by (rule affects_then [OF t], rule only_affects_saved [OF _ g], assumption) (simp add: store_okD(2) [OF only_affects_ok [OF t] g])
    then show ?thesis using p ok by (simp add: handleCancel_def Let_def only_affects_refl)
  qed
qed

lemma affects_delete: "store_ok s \<Longrightarrow> only_affects i s (fst (handleDeleteSession s i))"
proof (cases "Mem_Get s i")
  case None
  assume "store_ok s"
  then show ?thesis using None by (simp add: handleDeleteSession_def Mem_Delete_def only_affects_refl)
next
  case (Some p)
  assume ok: "store_ok s"
  let ?t = "s\<lparr>ag_sessions := mdelete i (ag_sessions s)\<rparr>"
  have g: "Mem_Get ?t j = (if j = i then None else Mem_Get s j)" for j using store_ok_maps(1) [OF ok] by (simp add: Mem_Get_def)
  have c: "cell ?t = cell s" by (simp add: cell_def fun_eq_iff)
  have "store_ok ?t" using ok unfolding store_ok_def g c by (auto simp: is_go_map_mdelete split: if_splits)
  then have "only_affects i s ?t" by (simp add: only_affects_def holdings_def sessions_map_def g c)
  then show ?thesis using Some by (simp add: handleDeleteSession_def Mem_Delete_def)
qed

lemma affects_create: "store_ok s \<Longrightarrow> only_affects (rq_id rq) s (fst (handleCreateSession cfg rq body s))"
proof -
  assume ok: "store_ok s"
  have created: "only_affects (rq_id rq) s t" if "rec_ID r = rq_id rq" "alloc r s = (t0, p)" "WS_Create io now t0 p = (t, err)" for r t0 p io now t err
  proof -
    note a = unstored_alloc [OF ok that(2)]
    note c = create_stored [OF a(1) that(3)]
    have "rec_ID (with_session_dir r) = rq_id rq" using that(1) by (simp add: with_session_dir_def)
    then have m: "\<forall>j. j \<noteq> rq_id rq \<longrightarrow> sessions_map t j = sessions_map s j" using c(3,4) a(2,3) by (cases err) simp_all
    have "snd (runtime t) = snd (runtime s)" using c(2) a(4) by simp
    then have "ag_registry t = ag_registry s \<and> ag_active t = ag_active s \<and> ag_cancels t = ag_cancels s" by (simp add: runtime_def)
    then show ?thesis using c(1) m by (simp add: only_affects_def holdings_def)
  qed
  have rows: "only_affects (rq_id rq) s (t\<lparr>ag_artifacts := ar\<rparr>)" if "only_affects (rq_id rq) s t" for t ar
    by (rule affects_then [OF that], erule affects_bookkeeping)
  have id: "rec_ID ((new_session_record rq req m sb co)\<lparr>rec_ConfigDir := d\<rparr>) = rq_id rq" for req m sb co d
    by (simp add: new_session_record_def Let_def)
  have run: "only_affects (rq_id rq) s (fst (let (s, p) = alloc ((new_session_record rq req m sb co)\<lparr>rec_ConfigDir := d\<rparr>) s;
      (s, err) = WS_Create (rq_io rq) (rq_now rq) s p;
      s = (if cfg_artifacts cfg then s\<lparr>ag_artifacts := F s\<rparr> else s) in (s, rep)))" for req m sb co d F rep
    using created [OF id] rows [OF created [OF id]] by (auto simp: Let_def split: prod.split)
  show ?thesis
    unfolding handleCreateSession_def
    using ok run by (auto simp: Let_def only_affects_refl split: sum.split option.split)
qed
subsection \<open>Patching\<close>

text \<open>The record that a request asks for.\<close>

definition patched_agent :: "string option \<Rightarrow> SessionRecord \<Rightarrow> SessionRecord" where
  "patched_agent name r =
     (case name of None \<Rightarrow> r | Some n \<Rightarrow> if n = rec_AgentName r then r else r\<lparr>rec_AgentName := n, rec_AgentSessionID := []\<rparr>)"

definition patched :: "string option \<Rightarrow> string option \<Rightarrow> string option \<Rightarrow> SessionRecord \<Rightarrow> SessionRecord" where
  "patched name model dir r =
     (let r = patched_agent name r;
          r = (case model of None \<Rightarrow> r | Some m \<Rightarrow> r\<lparr>rec_Model := m\<rparr>)
      in case dir of None \<Rightarrow> r | Some d \<Rightarrow> r\<lparr>rec_ConfigDir := d\<rparr>)"

text \<open>The state while the record \<open>p\<close> of session \<open>i\<close> is being patched.\<close>

definition patching :: "string \<Rightarrow> nat \<Rightarrow> agent_server \<Rightarrow> agent_server \<Rightarrow> bool" where
  "patching i p s t \<longleftrightarrow> only_affects i s t \<and> Mem_Get t i = Some p \<and> ag_registry t = ag_registry s \<and>
     ag_disk t = ag_disk s \<and> ag_faults t = ag_faults s"

lemma patching_refl: "store_ok s \<Longrightarrow> Mem_Get s i = Some p \<Longrightarrow> patching i p s s"
  by (simp add: patching_def only_affects_refl)

lemma patching_trans: "patching i p s t \<Longrightarrow> patching i p t u \<Longrightarrow> patching i p s u"
  unfolding patching_def using only_affects_trans by metis

lemma patching_ok: "patching i p s t \<Longrightarrow> store_ok t \<and> Mem_Get t i = Some p"
  by (auto simp: patching_def only_affects_def)

lemma patching_write:
  assumes "store_ok s" "Mem_Get s i = Some p" "rec_ID r = i"
  shows "patching i p s (write_cell p r s)" "cell (write_cell p r s) p = r"
  using only_affects_written [OF assms] write_stored [OF assms] assms(2) by (simp_all add: patching_def) (simp_all add: write_cell_def)

lemma patching_canon:
  assumes "store_ok s" "Mem_Get s i = Some p"
  shows "patching i p s (s\<lparr>ag_canon := cn\<rparr>)" "cell (s\<lparr>ag_canon := cn\<rparr>) p = cell s p"
proof -
  have m: "Mem_Get (s\<lparr>ag_canon := cn\<rparr>) = Mem_Get s" "cell (s\<lparr>ag_canon := cn\<rparr>) = cell s" by (rule records_same, simp)+
  show "cell (s\<lparr>ag_canon := cn\<rparr>) p = cell s p" by (simp add: m)
  show "patching i p s (s\<lparr>ag_canon := cn\<rparr>)"
    using affects_bookkeeping(11) [OF assms(1), of i cn] assms(2) by (simp add: patching_def m)
qed

lemma patch_agent_block:
  assumes "store_ok s" "Mem_Get s i = Some p" "patch_agent cfg rq p n s = (t, e)"
  shows "patching i p s t" "e = None \<Longrightarrow> n \<in> set (cfg_agents cfg) \<and> cell t p = patched_agent (Some n) (cell s p)"
proof -
  let ?r = "(cell s p)\<lparr>rec_AgentName := n, rec_AgentSessionID := []\<rparr>"
  have "rec_ID ?r = i" using store_okD(2) [OF assms(1,2)] by simp
  note w = patching_write [OF assms(1,2) this]
  note c = patching_canon [OF conjunct1 [OF patching_ok [OF w(1)]] conjunct2 [OF patching_ok [OF w(1)]]]
  show "patching i p s t" "e = None \<Longrightarrow> n \<in> set (cfg_agents cfg) \<and> cell t p = patched_agent (Some n) (cell s p)"
    using assms w c patching_trans [OF w(1) c(1)]
    by (auto simp: patch_agent_def Let_def patched_agent_def patching_refl split: if_splits)
qed

lemma patch_model_block:
  assumes "store_ok s" "Mem_Get s i = Some p" "patch_model cfg p m s = (t, e)"
  shows "patching i p s t" "e = None \<Longrightarrow> \<exists>m'. checked_model cfg m = Some m' \<and> cell t p = (cell s p)\<lparr>rec_Model := m'\<rparr>"
proof -
  have "rec_ID ((cell s p)\<lparr>rec_Model := m'\<rparr>) = i" for m' using store_okD(2) [OF assms(1,2)] by simp
  note w = patching_write [OF assms(1,2) this]
  show "patching i p s t" "e = None \<Longrightarrow> \<exists>m'. checked_model cfg m = Some m' \<and> cell t p = (cell s p)\<lparr>rec_Model := m'\<rparr>"
    using assms w by (auto simp: patch_model_def patching_refl split: option.splits)
qed

lemma patch_supplement_block:
  assumes "store_ok s" "Mem_Get s i = Some p" "patch_supplement rq p st s = (t, e)"
  shows "patching i p s t" "e = None \<Longrightarrow> KnownAlgorithm (ss_Algorithm st) \<and> cell t p = cell s p"
  using assms patching_canon [OF assms(1,2)]
  by (auto simp: patch_supplement_def Let_def patching_refl split: if_splits prod.splits)

lemma patch_config_block:
  assumes "store_ok s" "Mem_Get s i = Some p" "patch_config_dir rq p d s = (t, e)"
  shows "patching i p s t" "e = None \<Longrightarrow> \<exists>d'. validateAndResolveConfigDir rq d = Inr d' \<and> cell t p = (cell s p)\<lparr>rec_ConfigDir := d'\<rparr>"
proof -
  have "rec_ID ((cell s p)\<lparr>rec_ConfigDir := d'\<rparr>) = i" for d' using store_okD(2) [OF assms(1,2)] by simp
  note w = patching_write [OF assms(1,2) this]
  show "patching i p s t" "e = None \<Longrightarrow> \<exists>d'. validateAndResolveConfigDir rq d = Inr d' \<and> cell t p = (cell s p)\<lparr>rec_ConfigDir := d'\<rparr>"
    using assms w by (auto simp: patch_config_dir_def patching_refl split: sum.splits)
qed

text \<open>One field after what came before it.\<close>

lemma patch_field_next:
  assumes st: "patch_field block field (t, e) = (u, f)" and before: "patching i p s t"
    and block: "\<And>x v g. store_ok t \<Longrightarrow> Mem_Get t i = Some p \<Longrightarrow> block x t = (v, g) \<Longrightarrow> patching i p t v \<and> (g = None \<longrightarrow> Q x (cell t p) (cell v p))"
  shows "patching i p s u"
    and "f = None \<Longrightarrow> e = None \<and> (case field of None \<Rightarrow> u = t | Some x \<Rightarrow> Q x (cell t p) (cell u p))"
proof -
  note ok = conjunct1 [OF patching_ok [OF before]] conjunct2 [OF patching_ok [OF before]]
  show "patching i p s u" "f = None \<Longrightarrow> e = None \<and> (case field of None \<Rightarrow> u = t | Some x \<Rightarrow> Q x (cell t p) (cell u p))"
    using st before block [OF ok] patching_trans [OF before]
    by (auto simp: patch_field_def split: option.splits)
qed

lemma patch_fields:
  assumes "store_ok s" "Mem_Get s i = Some p"
    and "patch_field (patch_config_dir rq p) cd (patch_field (patch_supplement rq p) su
       (patch_field (patch_model cfg p) mo (patch_field (patch_agent cfg rq p) ag (s, None)))) = (t, e)"
  shows "patching i p s t"
    and "e = None \<Longrightarrow> \<exists>mo' cd'. cell t p = patched ag mo' cd' (cell s p) \<and>
       (\<forall>n. ag = Some n \<longrightarrow> n \<in> set (cfg_agents cfg)) \<and> mo' = Option.bind mo (checked_model cfg) \<and> (mo \<noteq> None \<longrightarrow> mo' \<noteq> None) \<and>
       (\<forall>x. su = Some x \<longrightarrow> KnownAlgorithm (ss_Algorithm x)) \<and>
       (\<forall>d. cd = Some d \<longrightarrow> (\<exists>d'. validateAndResolveConfigDir rq d = Inr d' \<and> cd' = Some d')) \<and> (cd = None \<longrightarrow> cd' = None)"
proof -
  obtain t1 e1 where s1: "patch_field (patch_agent cfg rq p) ag (s, None) = (t1, e1)" by force
  obtain t2 e2 where s2: "patch_field (patch_model cfg p) mo (t1, e1) = (t2, e2)" by force
  obtain t3 e3 where s3: "patch_field (patch_supplement rq p) su (t2, e2) = (t3, e3)" by force
  have s4: "patch_field (patch_config_dir rq p) cd (t3, e3) = (t, e)" using assms(3) s1 s2 s3 by simp
  note p1 = patch_field_next [OF s1 patching_refl [OF assms(1,2)],
      where Q = "\<lambda>n r r'. n \<in> set (cfg_agents cfg) \<and> r' = patched_agent (Some n) r"]
  have a1: "patching i p s t1" "e1 = None \<Longrightarrow> (case ag of None \<Rightarrow> t1 = s | Some n \<Rightarrow> n \<in> set (cfg_agents cfg) \<and> cell t1 p = patched_agent (Some n) (cell s p))"
    using p1 patch_agent_block by blast+
  note p2 = patch_field_next [OF s2 a1(1), where Q = "\<lambda>m r r'. \<exists>m'. checked_model cfg m = Some m' \<and> r' = r\<lparr>rec_Model := m'\<rparr>"]
  have a2: "patching i p s t2" "e2 = None \<Longrightarrow> e1 = None \<and> (case mo of None \<Rightarrow> t2 = t1 | Some m \<Rightarrow> \<exists>m'. checked_model cfg m = Some m' \<and> cell t2 p = (cell t1 p)\<lparr>rec_Model := m'\<rparr>)"
    using p2 patch_model_block by blast+
  note p3 = patch_field_next [OF s3 a2(1), where Q = "\<lambda>x r r'. KnownAlgorithm (ss_Algorithm x) \<and> r' = r"]
  have a3: "patching i p s t3" "e3 = None \<Longrightarrow> e2 = None \<and> (case su of None \<Rightarrow> t3 = t2 | Some x \<Rightarrow> KnownAlgorithm (ss_Algorithm x) \<and> cell t3 p = cell t2 p)"
    using p3 patch_supplement_block by blast+
  note p4 = patch_field_next [OF s4 a3(1), where Q = "\<lambda>d r r'. \<exists>d'. validateAndResolveConfigDir rq d = Inr d' \<and> r' = r\<lparr>rec_ConfigDir := d'\<rparr>"]
  have a4: "patching i p s t" "e = None \<Longrightarrow> e3 = None \<and> (case cd of None \<Rightarrow> t = t3 | Some d \<Rightarrow> \<exists>d'. validateAndResolveConfigDir rq d = Inr d' \<and> cell t p = (cell t3 p)\<lparr>rec_ConfigDir := d'\<rparr>)"
    using p4 patch_config_block by blast+
  show "patching i p s t" by (rule a4(1))
  assume e: "e = None"
  then have es: "e3 = None" "e2 = None" "e1 = None" using a4(2) a3(2) a2(2) by auto
  have c3: "cell t3 p = cell t2 p" "\<forall>x. su = Some x \<longrightarrow> KnownAlgorithm (ss_Algorithm x)" using a3(2) es by (auto split: option.splits)
  have c1: "cell t1 p = patched_agent ag (cell s p)" "\<forall>n. ag = Some n \<longrightarrow> n \<in> set (cfg_agents cfg)"
    using a1(2) es by (auto simp: patched_agent_def split: option.splits)
  have c2: "(mo \<noteq> None \<longrightarrow> Option.bind mo (checked_model cfg) \<noteq> None) \<and>
     cell t2 p = (case Option.bind mo (checked_model cfg) of None \<Rightarrow> cell t1 p | Some m \<Rightarrow> (cell t1 p)\<lparr>rec_Model := m\<rparr>)"
    using a2(2) es by (auto split: option.splits)
  obtain cd' where cd': "cell t p = (case cd' of None \<Rightarrow> cell t3 p | Some d \<Rightarrow> (cell t3 p)\<lparr>rec_ConfigDir := d\<rparr>)"
      "\<forall>d. cd = Some d \<longrightarrow> (\<exists>d'. validateAndResolveConfigDir rq d = Inr d' \<and> cd' = Some d')" "cd = None \<longrightarrow> cd' = None"
  proof (cases cd)
    case None
    then show thesis using a4(2) e by (intro that [of None]) simp_all
  next
    case (Some d)
    then obtain d' where "validateAndResolveConfigDir rq d = Inr d'" "cell t p = (cell t3 p)\<lparr>rec_ConfigDir := d'\<rparr>" using a4(2) e by auto
    then show thesis using Some by (intro that [of "Some d'"]) simp_all
  qed
  show "\<exists>mo' cd'. cell t p = patched ag mo' cd' (cell s p) \<and>
       (\<forall>n. ag = Some n \<longrightarrow> n \<in> set (cfg_agents cfg)) \<and> mo' = Option.bind mo (checked_model cfg) \<and> (mo \<noteq> None \<longrightarrow> mo' \<noteq> None) \<and>
       (\<forall>x. su = Some x \<longrightarrow> KnownAlgorithm (ss_Algorithm x)) \<and>
       (\<forall>d. cd = Some d \<longrightarrow> (\<exists>d'. validateAndResolveConfigDir rq d = Inr d' \<and> cd' = Some d')) \<and> (cd = None \<longrightarrow> cd' = None)"
    using c1 c2 c3 cd' by (rule_tac x = "Option.bind mo (checked_model cfg)" in exI, rule_tac x = cd' in exI) (cases cd'; cases "Option.bind mo (checked_model cfg)"; simp add: patched_def Let_def)
qed

lemma affects_patch: "store_ok s \<Longrightarrow> only_affects i s (fst (handlePatchSession cfg rq i body s))"
proof -
  assume ok: "store_ok s"
  have run: "only_affects i s (fst (apply_patch cfg rq p req s))"
    if p: "Mem_Get s i = Some p" for p req
  proof -
    obtain t e where t: "patch_field (patch_config_dir rq p) (pr_ConfigDir req)
                       (patch_field (patch_supplement rq p) (pr_Supplement req)
                         (patch_field (patch_model cfg p) (pr_Model req)
                           (patch_field (patch_agent cfg rq p) (pr_Agent req) (s, None)))) = (t, e)" by force
    note a = patch_fields(1) [OF ok p t]
    note k = conjunct1 [OF patching_ok [OF a]] conjunct2 [OF patching_ok [OF a]]
    have st: "only_affects i s t" using a by (simp add: patching_def)
    have "only_affects i t (fst (WS_Update (rq_now rq) (write_cell p ((cell t p)\<lparr>rec_UpdatedAt := Some (rq_now rq)\<rparr>) t) p))"
      using store_okD(2) [OF k] by (intro only_affects_saved [OF k]) simp
    then have "only_affects i s (fst (WS_Update (rq_now rq) (write_cell p ((cell t p)\<lparr>rec_UpdatedAt := Some (rq_now rq)\<rparr>) t) p))"
      using st only_affects_trans by blast
    then show ?thesis using st unfolding apply_patch_def t
      by (cases "WS_Update (rq_now rq) (write_cell p ((cell t p)\<lparr>rec_UpdatedAt := Some (rq_now rq)\<rparr>) t) p") (simp split: option.split)
  qed
  show ?thesis
  proof (cases "Mem_Get s i")
    case None
    then show ?thesis using ok by (simp add: handlePatchSession_def only_affects_refl)
  next
    case (Some p)
    then show ?thesis using ok run [OF Some]
      by (simp add: handlePatchSession_def only_affects_refl split: option.split sum.split)
  qed
qed
subsection \<open>Listing\<close>

lemma upsert_ok:
  assumes "store_ok s"
  shows "store_ok (Mem_upsert s r)" "sessions_map (Mem_upsert s r) = (sessions_map s)(rec_ID r \<mapsto> r)" "runtime (Mem_upsert s r) = runtime s"
    "ag_disk (Mem_upsert s r) = ag_disk s"
proof -
  have e: "Mem_upsert s r = (fst (alloc r s))\<lparr>ag_sessions := massign (rec_ID r) (snd (alloc r s)) (ag_sessions s)\<rparr>"
    by (simp add: Mem_upsert_def alloc_def)
  note c = put_copy [OF assms, of r "rec_ID r", OF refl]
  show "store_ok (Mem_upsert s r)" "sessions_map (Mem_upsert s r) = (sessions_map s)(rec_ID r \<mapsto> r)" "runtime (Mem_upsert s r) = runtime s"
    unfolding e by (rule c)+
  show "ag_disk (Mem_upsert s r) = ag_disk s" by (simp add: e alloc_def)
qed

text \<open>The store after a scan has, of each id, the record found last.\<close>

lemma scan_ok:
  assumes "store_ok s" "scan_records s d es = (t, found)"
  shows "store_ok t \<and> runtime t = runtime s \<and> ag_disk t = ag_disk s \<and>
    sessions_map t = foldl (\<lambda>m e. case map_of (ag_disk s) (filepath_Join d e) of None \<Rightarrow> m | Some r \<Rightarrow> m(rec_ID r \<mapsto> r)) (sessions_map s) es"
  using assms
proof (induction es arbitrary: s t found)
  case (Cons e es)
  show ?case
  proof (cases "map_of (ag_disk s) (filepath_Join d e)")
    case None
    then have "scan_records s d es = (t, found)" using Cons.prems(2) by simp
    from Cons.IH [OF Cons.prems(1) this] show ?thesis using None by simp
  next
    case (Some r)
    obtain t' f where f: "scan_records (Mem_upsert s r) d es = (t', f)" by force
    then have t: "t' = t" using Cons.prems(2) Some by (simp add: Let_def)
    note ih = Cons.IH [OF upsert_ok(1) [OF Cons.prems(1)] f] and u = upsert_ok [OF Cons.prems(1), of r]
    show ?thesis using ih by (simp only: t u foldl.simps Some option.case simp_thms)
  qed
qed simp

lemma list_sessions_ok:
  assumes "store_ok s" "handleListSessions cfg rq w root s = (t, rep)"
  shows "store_ok t" "runtime t = runtime s"
proof -
  obtain u ps where l: "listUnderStorageRoot (rq_getwd rq) (rq_ls rq) s (ResolveStorageRoot root w) = (u, ps)" by force
  have "store_ok u \<and> runtime u = runtime s"
  proof (cases "\<exists>p es. filepath_Abs (rq_getwd rq) (ResolveStorageRoot root w) = Some p \<and> ResolveStorageRoot root w \<noteq> [] \<and>
      rq_ls rq (filepath_Join p ''.tern'') = DirEntries es")
    case True
    then obtain p es where p: "filepath_Abs (rq_getwd rq) (ResolveStorageRoot root w) = Some p" "ResolveStorageRoot root w \<noteq> []"
      "rq_ls rq (filepath_Join p ''.tern'') = DirEntries es" by blast
    obtain v f where "scan_records s (filepath_Join p ''.tern'') es = (v, f)" by force
    with scan_ok [OF assms(1) this] l p show ?thesis by (simp add: listUnderStorageRoot_def)
  next
    case False
    then have "u = s" using l by (auto simp: listUnderStorageRoot_def Let_def split: option.splits if_splits dir_listing.splits)
    then show ?thesis using assms(1) by simp
  qed
  then show "store_ok t" "runtime t = runtime s"
    using assms l by (auto simp: handleListSessions_def split: if_splits option.splits)
qed

section \<open>Any sequence of requests\<close>

definition register_exec :: "string \<Rightarrow> liveExecution \<Rightarrow> agent_server \<Rightarrow> agent_server" where
  "register_exec i e s = s\<lparr>ag_registry := fst (Register (ag_registry s) i e)\<rparr>"

text \<open>One operation on one session.\<close>

inductive session_step :: "service_config \<Rightarrow> string \<Rightarrow> agent_server \<Rightarrow> agent_server \<Rightarrow> bool" for cfg where
  step_create: "session_step cfg (rq_id rq) s (fst (handleCreateSession cfg rq creq s))"
| step_patch: "session_step cfg i s (fst (handlePatchSession cfg rq i preq s))"
| step_delete: "session_step cfg i s (fst (handleDeleteSession s i))"
| step_cancel: "session_step cfg i s (fst (handleCancel cfg rq i s))"
| step_terminate: "session_step cfg i s (fst (handleTerminate cfg rq i s))"
| step_register: "session_step cfg i s (register_exec i e s)"
| step_context: "session_step cfg i s (RegisterExecCancel i ctx s)"
| step_agent: "session_step cfg i s (RegisterActiveSession i a s)"
| step_active: "session_step cfg i s (markSessionActive now i s)"
| step_clear: "session_step cfg i s (clearPersistedAgentSessionID now i s)"
| step_terminal: "session_step cfg i s (updateSessionStatusOnTerminal now i ev h m s)"
| step_gone: "session_step cfg i s (finalizeSessionStatusOnDisconnect now i ex s)"
| step_drain: "session_step cfg i s (fst (stopExecOnDrainTimeout i x s))"
| step_finish: "session_step cfg i s (finishActiveExecution io now i ag fs s)"

lemma affects_register: "store_ok s \<Longrightarrow> only_affects i s (register_exec i e s)"
  using store_ok_maps by (intro only_affects_runtime) (auto simp: register_exec_def records_def Register_def)

lemma session_step_affects: "session_step cfg i s t \<Longrightarrow> store_ok s \<Longrightarrow> only_affects i s t"
  by (induction rule: session_step.induct)
    (simp_all add: affects_create affects_patch affects_delete affects_cancel affects_terminate affects_register affects_bookkeeping
      affects_status affects_drain affects_finish)

inductive service_step :: "service_config \<Rightarrow> agent_server \<Rightarrow> agent_server \<Rightarrow> bool" for cfg where
  on_session: "session_step cfg i s t \<Longrightarrow> service_step cfg s t"
| on_list: "service_step cfg s (fst (handleListSessions cfg rq w root s))"

text \<open>A server that has just started: nothing in memory, whatever is on the disk.\<close>

definition started :: "agent_server \<Rightarrow> bool" where
  "started s \<longleftrightarrow> ag_sessions s = [] \<and> ag_registry s = [] \<and> ag_active s = [] \<and> ag_cancels s = [] \<and> is_go_map (ag_disk s)"

interpretation service: state_machine started "service_step cfg" store_ok for cfg
proof
  fix s assume "started s"
  then show "store_ok s" by (simp add: started_def store_ok_def Mem_Get_def)
next
  fix s t assume "store_ok s" "service_step cfg s t"
  from this(2,1) show "store_ok t"
  proof (induction rule: service_step.induct)
    case (on_session i s t)
    then show ?case using session_step_affects only_affects_ok by blast
  next
    case (on_list s rq w root)
    then show ?case using list_sessions_ok(1) by (metis surjective_pairing)
  qed
qed

text \<open>
  C3. In a server that has handled any requests since it started, an operation on one session (creating,
  patching, deleting, cancelling or terminating it, or a step of its turn) leaves every other session as it
  was: its record, its running execution, its agent session and its cancel function. Distinct sessions have
  distinct records in memory, though handlers write through pointers into the store.
\<close>

theorem sessions_isolated:
  assumes "started s0" "(service_step cfg)\<^sup>*\<^sup>* s0 s" "session_step cfg i s t" "j \<noteq> i"
  shows "sessions_map t j = sessions_map s j \<and> Registry_Get (ag_registry t) j = Registry_Get (ag_registry s) j \<and>
    map_of (ag_active t) j = map_of (ag_active s) j \<and> map_of (ag_cancels t) j = map_of (ag_cancels s) j"
  using session_step_affects [OF assms(3) service.reachable_inv [OF assms(1,2)]] assms(4)
  by (simp add: only_affects_def holdings_def)
section \<open>Stopping a turn\<close>

text \<open>Nothing of the turn of session \<open>i\<close> in \<open>s\<close> is left in \<open>t\<close>, and what ran was told to stop.\<close>

definition turn_released :: "bool \<Rightarrow> string \<Rightarrow> agent_server \<Rightarrow> agent_server \<Rightarrow> bool" where
  "turn_released force i s t \<longleftrightarrow>
     Registry_Get (ag_registry t) i = None \<and> map_of (ag_active t) i = None \<and> map_of (ag_cancels t) i = None \<and>
     (\<forall>ctx. map_of (ag_cancels s) i = Some ctx \<longrightarrow> ctx \<in> set (ag_cancelled t)) \<and>
     (\<forall>e. Registry_Get (ag_registry s) i = Some e \<longrightarrow>
        (\<forall>a. le_agentSess e = Some a \<longrightarrow> a \<in> set (ag_closed t)) \<and> (if force then mark_relay_done e else e) \<in> set (ag_ended t))"

lemma turn_released_runtime: "turn_released force i s t \<Longrightarrow> runtime u = runtime t \<Longrightarrow> turn_released force i s u"
  by (simp add: turn_released_def runtime_def)

lemma turn_released_artifacts: "turn_released force i s t \<Longrightarrow> turn_released force i s (t\<lparr>ag_artifacts := ar\<rparr>)"
  by (simp add: turn_released_def)

lemma registry_fields [simp]:
  "ag_registry (CancelExecution s i) = ag_registry s" "ag_registry (reconcile_artifacts cfg rq s k t c) = ag_registry s"
  "ag_registry (close_session a s) = ag_registry s" "ag_active (CancelExecution s i) = ag_active s"
  "ag_active (reconcile_artifacts cfg rq s k t c) = ag_active s" "ag_active (close_session a s) = ag_active s"
  "ag_cancels (CancelExecution s i) = ag_cancels s" "ag_cancels (reconcile_artifacts cfg rq s k t c) = ag_cancels s"
  "ag_cancels (close_session a s) = ag_cancels s" "ag_cancelled (reconcile_artifacts cfg rq s k t c) = ag_cancelled s"
  "ag_cancelled (close_session a s) = ag_cancelled s"
  by (simp_all add: CancelExecution_def reconcile_artifacts_def close_session_def split: option.split)

lemma end_turn_released:
  assumes ok: "store_ok s"
  shows "turn_released force i s (end_turn cfg rq force i s)"
proof -
  obtain t c where tc: "turn_of s i = (t, c)" by force
  have ctx: "map_of (ag_cancels s) i = Some ctx \<Longrightarrow> ctx \<in> set (ag_cancelled (CancelExecution s i))" for ctx
    by (simp add: CancelExecution_def)
  note g = store_ok_maps(3-5) [OF ok]
  show ?thesis
  proof (cases "Registry_Get (ag_registry s) i")
    case None
    then show ?thesis using ctx g
      by (simp add: turn_released_def end_turn_def Let_def tc UnregisterExecCancel_def UnregisterActiveSession_def)
  next
    case (Some e)
    have r: "map_of (ag_registry s) i = Some e" using Some by (simp add: Registry_Get_def)
    show ?thesis using Some ctx g r
      by (simp add: turn_released_def end_turn_def Let_def tc UnregisterExecCancel_def UnregisterActiveSession_def
          unregister_exec_def update_exec_def Unregister_def Registry_Get_def is_go_map_massign)
        (simp add: close_session_def split: option.split)
  qed
qed

lemma stopped_turn:
  assumes "store_ok s" "sessions_map s i = Some r"
  shows "i \<noteq> [] \<and> rec_Status r \<noteq> StatusClosed \<longrightarrow>
      (\<exists>t now. handleCancel cfg rq i s = (t, Replied 200 ''cancelled'') \<and> turn_released True i s t \<and>
        sessions_map t i = Some (r\<lparr>rec_Status := StatusError, rec_Error := turnCancelledError, rec_UpdatedAt := now\<rparr>))"
    and "\<exists>t now. handleTerminate cfg rq i s = (t, Replied 200 ''terminated'') \<and> turn_released False i s t \<and>
        sessions_map t i = Some (r\<lparr>rec_Status := StatusClosed, rec_UpdatedAt := now\<rparr>)"
proof -
  obtain p where p: "Mem_Get s i = Some p" "cell s p = r" using assms(2) by (auto simp: sessions_map_def)
  have e: "store_ok (end_turn cfg rq f i s)" "Mem_Get (end_turn cfg rq f i s) i = Some p" "cell (end_turn cfg rq f i s) p = r" for f
    using only_affects_ok [OF affects_end_turn [OF assms(1)]] records_same(1,2) [OF records_end_turn, of cfg rq f i s] p by simp_all
  have i: "rec_ID r = i" using store_okD(2) [OF assms(1) p(1)] p(2) by simp
  have saved: "turn_released f i s (fst (WS_Update (rq_now rq) (write_cell p r' (end_turn cfg rq f i s)) p)) \<and>
      (\<exists>now. sessions_map (fst (WS_Update (rq_now rq) (write_cell p r' (end_turn cfg rq f i s)) p)) i = Some (r'\<lparr>rec_UpdatedAt := now\<rparr>))"
    if "rec_ID r' = i" for f r'
  proof -
    note w = saved_stored(2,3) [OF e(1,2) that, of "rq_now rq" f]
    obtain n where "sessions_map (fst (WS_Update (rq_now rq) (write_cell p r' (end_turn cfg rq f i s)) p))
        = (sessions_map (end_turn cfg rq f i s))(i \<mapsto> r'\<lparr>rec_UpdatedAt := n\<rparr>)" using w(2) by blast
    then show ?thesis using turn_released_runtime [OF end_turn_released [OF assms(1)] w(1)] by (intro conjI exI [of _ n]) simp_all
  qed
  show "i \<noteq> [] \<and> rec_Status r \<noteq> StatusClosed \<longrightarrow>
      (\<exists>t now. handleCancel cfg rq i s = (t, Replied 200 ''cancelled'') \<and> turn_released True i s t \<and>
        sessions_map t i = Some (r\<lparr>rec_Status := StatusError, rec_Error := turnCancelledError, rec_UpdatedAt := now\<rparr>))"
    using saved [of "r\<lparr>rec_Status := StatusError, rec_Error := turnCancelledError\<rparr>" True] p e(3) i
    by (auto simp: handleCancel_def Let_def)
  obtain now where n: "turn_released False i s (fst (WS_Update (rq_now rq) (write_cell p (r\<lparr>rec_Status := StatusClosed\<rparr>) (end_turn cfg rq False i s)) p))"
      "sessions_map (fst (WS_Update (rq_now rq) (write_cell p (r\<lparr>rec_Status := StatusClosed\<rparr>) (end_turn cfg rq False i s)) p)) i
        = Some (r\<lparr>rec_Status := StatusClosed, rec_UpdatedAt := now\<rparr>)"
    using saved [of "r\<lparr>rec_Status := StatusClosed\<rparr>" False] i by auto
  have art: "sessions_map (u\<lparr>ag_artifacts := ar\<rparr>) = sessions_map u" for u ar by (rule records_same) simp
  show "\<exists>t now. handleTerminate cfg rq i s = (t, Replied 200 ''terminated'') \<and> turn_released False i s t \<and>
        sessions_map t i = Some (r\<lparr>rec_Status := StatusClosed, rec_UpdatedAt := now\<rparr>)"
    using n p e(3) turn_released_artifacts [OF n(1)]
    by (auto simp: handleTerminate_def Let_def art)
qed

text \<open>
  C8. Cancelling a session that is not closed, and terminating any session, end its turn for good: the
  execution, the agent session and the cancel function are unregistered, so the session is no longer busy;
  the context of the turn was cancelled and the agent's session closed; a cancelled turn's relay is marked as
  ended, so that its readers finish. The record keeps everything but its status: ''error'' with the reason
  ''turn cancelled'', or ''closed''.
\<close>

theorem stop_releases_turn:
  assumes "store_ok s" "sessions_map s i = Some r"
  shows "(i \<noteq> [] \<and> rec_Status r \<noteq> StatusClosed \<longrightarrow>
      (\<exists>t now. handleCancel cfg rq i s = (t, Replied 200 ''cancelled'') \<and> turn_released True i s t \<and>
        sessions_map t i = Some (r\<lparr>rec_Status := StatusError, rec_Error := turnCancelledError, rec_UpdatedAt := now\<rparr>))) \<and>
    (\<exists>t now. handleTerminate cfg rq i s = (t, Replied 200 ''terminated'') \<and> turn_released False i s t \<and>
        sessions_map t i = Some (r\<lparr>rec_Status := StatusClosed, rec_UpdatedAt := now\<rparr>))"
  by (rule conjI; rule stopped_turn [OF assms])

text \<open>Events of the stopped turn that still arrive do not replace the reason.\<close>

lemma late_events_ignored:
  assumes "sessions_map s i = Some r" "rec_Error r = turnCancelledError"
  shows "foldl (\<lambda>s (ev, failed, msg). updateSessionStatusOnTerminal now i ev failed msg s) s evs = s"
proof (induction evs rule: rev_induct)
  case (snoc x xs)
  obtain p where "Mem_Get s i = Some p" "cell s p = r" using assms(1) by (auto simp: sessions_map_def)
  then show ?case using snoc assms(2) by (cases x) (simp add: updateSessionStatusOnTerminal_def)
qed simp

text \<open>
  But nothing clears the reason: the next turn marks the session active, and neither its result nor its
  error is recorded, so the session stays ''active'' with the error of the cancelled turn.
\<close>

theorem turn_after_cancel_never_ends:
  assumes "store_ok s" "sessions_map s i = Some r" "rec_Error r = turnCancelledError"
  shows "\<exists>upd. sessions_map (foldl (\<lambda>s (ev, failed, msg). updateSessionStatusOnTerminal now i ev failed msg s) (markSessionActive now i s) evs) i
    = Some (r\<lparr>rec_Status := StatusActive, rec_UpdatedAt := upd\<rparr>)"
proof -
  obtain p where p: "Mem_Get s i = Some p" "cell s p = r" using assms(2) by (auto simp: sessions_map_def)
  have i: "rec_ID (r\<lparr>rec_Status := StatusActive\<rparr>) = i" using store_okD(2) [OF assms(1) p(1)] p(2) by simp
  obtain upd where u: "sessions_map (markSessionActive now i s) i = Some (r\<lparr>rec_Status := StatusActive, rec_UpdatedAt := upd\<rparr>)"
    using saved_stored(3) [OF assms(1) p(1) i, of now] p by (auto simp: markSessionActive_def)
  have "foldl (\<lambda>s (ev, failed, msg). updateSessionStatusOnTerminal now i ev failed msg s) (markSessionActive now i s) evs
      = markSessionActive now i s"
    by (rule late_events_ignored [OF u]) (simp add: assms(3))
  with u show ?thesis by (intro exI [of _ upd]) simp
qed

text \<open>\<open>Update\<close> refuses to reopen a closed session, but not when the handler holds the stored pointer.\<close>

theorem closed_session_reopened:
  assumes "store_ok s" "sessions_map s i = Some r" "rec_Status r = StatusClosed"
  shows "\<exists>upd. sessions_map (markSessionActive now i s) i = Some (r\<lparr>rec_Status := StatusActive, rec_UpdatedAt := upd\<rparr>)"
proof -
  obtain p where p: "Mem_Get s i = Some p" "cell s p = r" using assms(2) by (auto simp: sessions_map_def)
  have i: "rec_ID (r\<lparr>rec_Status := StatusActive\<rparr>) = i" using store_okD(2) [OF assms(1) p(1)] p(2) by simp
  show ?thesis using saved_stored(3) [OF assms(1) p(1) i, of now] p by (auto simp: markSessionActive_def)
qed

lemma update_of_a_copy_refused:
  "Mem_Get s i = Some q \<Longrightarrow> rec_Status (cell s q) = StatusClosed \<Longrightarrow> rec_ID (cell s p) = i \<Longrightarrow> rec_Status (cell s p) = StatusActive \<Longrightarrow>
   Mem_Update now s p = (s, Some ErrInvalidTransition)"
  by (simp add: Mem_Update_def)

text \<open>
  Two messages sent at once: the one refused by the registry ends with \<open>finishActiveExecution\<close>, which
  unregisters the execution of the other; its agent keeps running, and nothing can cancel it.
\<close>

theorem loser_unregisters_winner:
  assumes "store_ok s" "Registry_Get (ag_registry s) i = Some winner" "ag_temp s = []"
  shows "snd (Register (ag_registry s) i loser) = Some ErrSessionBusy"
    and "let t = finishActiveExecution io now i (Some a) [] s
         in Registry_Get (ag_registry t) i = None \<and> ag_closed t = ag_closed s @ [a] \<and> CancelExecution t i = t"
proof -
  show "snd (Register (ag_registry s) i loser) = Some ErrSessionBusy"
    using assms(2) by (simp add: Register_def Registry_Get_def)
  let ?u = "update_exec i stopReattachTimer s"
  let ?v = "ingestActiveTurn io now i ?u"
  have u: "only_affects i s ?u" by (rule affects_bookkeeping(8) [OF assms(1)])
  have v: "store_ok ?v" by (rule only_affects_ok [OF affects_ingest [OF only_affects_ok [OF u]]])
  have r: "ag_closed ?v = ag_closed s \<and> ag_cancels ?v = ag_cancels s"
  proof (cases rule: ingest_cases [of io now i ?u])
    case (3 p dir c n)
    have "snd (runtime ?v) = snd (runtime ?u)" unfolding 3(2) runtime_WS_Update by (simp add: runtime_def write_cell_def)
    then show ?thesis by (simp add: runtime_def update_exec_def split: option.splits)
  qed (simp_all add: update_exec_def split: option.split)
  show "let t = finishActiveExecution io now i (Some a) [] s
         in Registry_Get (ag_registry t) i = None \<and> ag_closed t = ag_closed s @ [a] \<and> CancelExecution t i = t"
    using r store_ok_maps [OF v]
    by (simp add: finishActiveExecution_def Let_def CleanupMultimodalFiles_def unregister_exec_def UnregisterExecCancel_def
        UnregisterActiveSession_def close_session_def CancelExecution_def Unregister_def Registry_Get_def)
qed
lemma cell_Mem_Update:
  assumes "store_ok s" "Mem_Get s i = Some p" "Mem_Update now s p = (s', err)"
  shows "cell s' p = (cell s p)\<lparr>rec_UpdatedAt := Some now\<rparr>"
proof -
  let ?r = "(cell s p)\<lparr>rec_UpdatedAt := Some now\<rparr>"
  have i: "rec_ID (cell s p) = i" by (rule store_okD(2) [OF assms(1,2)])
  have l: "p < length (ag_cells s)" by (rule store_okD(1) [OF assms(1,2)])
  have "Mem_Update now s p = (let (t, q) = alloc ?r (write_cell p ?r s) in (t\<lparr>ag_sessions := massign i q (ag_sessions t)\<rparr>, None))"
    using assms(2) i by (auto simp: Mem_Update_def Let_def)
  then have "ag_cells s' = (ag_cells s)[p := ?r] @ [?r]" using assms(3) by (auto simp: alloc_def write_cell_def)
  then show ?thesis using l by (simp add: cell_def nth_append)
qed

text \<open>The pointer the handler keeps shows what was saved.\<close>

lemma WS_Update_writes:
  assumes "store_ok s" "Mem_Get s i = Some p" "rec_ID r = i" "WS_Update now (write_cell p r s) p = (s', None)"
  shows "cell s' p = r\<lparr>rec_UpdatedAt := Some now\<rparr>"
proof -
  note w = write_stored [OF assms(1-3)]
  have g: "Mem_Get (write_cell p r s) i = Some p" using w(3) assms(2) by simp
  show ?thesis
  proof (cases "rec_SessionDir r = []")
    case True
    then have "Mem_Update now (write_cell p r s) p = (s', None)" using assms(4) w(4) by (simp add: WS_Update_def)
    from cell_Mem_Update [OF w(1) g this] show ?thesis by (simp add: w(4))
  next
    case False
    obtain t b where b: "persistSessionRecord (write_cell p r s) r = (t, b)" by force
    then have "b" "Mem_Update now t p = (s', None)" using assms(4) w(4) False by (auto simp: WS_Update_def split: bool.splits)
    moreover have "Mem_Get t i = Some p" "cell t p = r" using Mem_Get_persist [OF b] g w(4) by simp_all
    ultimately show ?thesis using cell_Mem_Update [OF persist_stored(1) [OF w(1) b]] by simp
  qed
qed

section \<open>Changing a session's settings\<close>

definition busy :: "agent_server \<Rightarrow> string \<Rightarrow> SessionRecord \<Rightarrow> bool" where
  "busy s i r \<longleftrightarrow> Registry_Get (ag_registry s) i \<noteq> None \<or> rec_Status r = StatusSuspended"

text \<open>What is asked for exists; \<open>model\<close> and \<open>dir\<close> are what it resolves to.\<close>

definition patch_valid :: "service_config \<Rightarrow> request_env \<Rightarrow> patch_request \<Rightarrow> string option \<Rightarrow> string option \<Rightarrow> bool" where
  "patch_valid cfg rq req model dir \<longleftrightarrow>
     (\<forall>n. pr_Agent req = Some n \<longrightarrow> n \<in> set (cfg_agents cfg)) \<and>
     model = Option.bind (pr_Model req) (checked_model cfg) \<and> (pr_Model req \<noteq> None \<longrightarrow> model \<noteq> None) \<and>
     (\<forall>x. pr_Supplement req = Some x \<longrightarrow> KnownAlgorithm (ss_Algorithm x)) \<and>
     (\<forall>d. pr_ConfigDir req = Some d \<longrightarrow> (\<exists>d'. validateAndResolveConfigDir rq d = Inr d' \<and> dir = Some d')) \<and>
     (pr_ConfigDir req = None \<longrightarrow> dir = None)"

lemma patch_outcomes:
  assumes "store_ok s" "sessions_map s i = Some r"
  shows "busy s i r \<longrightarrow> (\<exists>why. handlePatchSession cfg rq i body s = (s, Refused 409 why))"
    and "\<forall>t resp. handlePatchSession cfg rq i body s = (t, Replied 200 resp) \<longrightarrow> \<not> busy s i r \<and>
      (\<exists>req model dir r'. body = Inr req \<and> r' = (patched (pr_Agent req) model dir r)\<lparr>rec_UpdatedAt := Some (rq_now rq)\<rparr> \<and>
        patch_valid cfg rq req model dir \<and>
        sessions_map t i = Some r' \<and> resp = sessionResponse cfg t r' \<and>
        (rec_SessionDir r' \<noteq> [] \<longrightarrow> map_of (ag_disk t) (rec_SessionDir r') = Some r'))"
proof -
  obtain p where p: "Mem_Get s i = Some p" "cell s p = r" using assms(2) by (auto simp: sessions_map_def)
  show "busy s i r \<longrightarrow> (\<exists>why. handlePatchSession cfg rq i body s = (s, Refused 409 why))"
    using p by (auto simp: busy_def handlePatchSession_def writeSessionBusy_def split: option.split)
  show "\<forall>t resp. handlePatchSession cfg rq i body s = (t, Replied 200 resp) \<longrightarrow> \<not> busy s i r \<and>
      (\<exists>req model dir r'. body = Inr req \<and> r' = (patched (pr_Agent req) model dir r)\<lparr>rec_UpdatedAt := Some (rq_now rq)\<rparr> \<and>
        patch_valid cfg rq req model dir \<and>
        sessions_map t i = Some r' \<and> resp = sessionResponse cfg t r' \<and>
        (rec_SessionDir r' \<noteq> [] \<longrightarrow> map_of (ag_disk t) (rec_SessionDir r') = Some r'))"
  proof (intro allI impI)
    fix t resp
    assume h: "handlePatchSession cfg rq i body s = (t, Replied 200 resp)"
    then have nb: "\<not> busy s i r" using p by (auto simp: busy_def handlePatchSession_def writeSessionBusy_def split: option.splits if_splits)
    obtain req where req: "body = Inr req" "apply_patch cfg rq p req s = (t, Replied 200 resp)"
      using h p nb by (auto simp: busy_def handlePatchSession_def split: sum.splits if_splits)
    obtain u e where u: "patch_field (patch_config_dir rq p) (pr_ConfigDir req)
         (patch_field (patch_supplement rq p) (pr_Supplement req)
           (patch_field (patch_model cfg p) (pr_Model req)
             (patch_field (patch_agent cfg rq p) (pr_Agent req) (s, None)))) = (u, e)" by force
    let ?r = "(cell u p)\<lparr>rec_UpdatedAt := Some (rq_now rq)\<rparr>"
    obtain t' e' where w: "WS_Update (rq_now rq) (write_cell p ?r u) p = (t', e')" by force
    have none: "e = None" "e' = None" "t' = t" "resp = sessionResponse cfg t (cell t p)"
      using req(2) unfolding apply_patch_def u using w by (auto split: option.splits)
    note f = patch_fields [OF assms(1) p(1) u]
    note k = conjunct1 [OF patching_ok [OF f(1)]] conjunct2 [OF patching_ok [OF f(1)]]
    have id: "rec_ID ?r = i" using store_okD(2) [OF k] by simp
    note w' = w [unfolded none(2,3)]
    note saved = update_stored [OF k id w']
    have m: "sessions_map t i = Some ?r" using saved(5) by simp
    have c: "cell t p = ?r" using WS_Update_writes [OF k id w'] by simp
    have "\<exists>mo cd. cell u p = patched (pr_Agent req) mo cd r \<and> patch_valid cfg rq req mo cd"
      unfolding patch_valid_def by (rule f(2) [OF none(1), unfolded p(2)])
    then obtain mo cd where fields: "cell u p = patched (pr_Agent req) mo cd r" "patch_valid cfg rq req mo cd" by (elim exE conjE)
    have d: "rec_SessionDir ?r \<noteq> [] \<longrightarrow> map_of (ag_disk t) (rec_SessionDir ?r) = Some ?r" using saved(6) by simp
    show "\<not> busy s i r \<and> (\<exists>req model dir r'. body = Inr req \<and> r' = (patched (pr_Agent req) model dir r)\<lparr>rec_UpdatedAt := Some (rq_now rq)\<rparr> \<and>
        patch_valid cfg rq req model dir \<and>
        sessions_map t i = Some r' \<and> resp = sessionResponse cfg t r' \<and>
        (rec_SessionDir r' \<noteq> [] \<longrightarrow> map_of (ag_disk t) (rec_SessionDir r') = Some r'))"
      by (rule conjI [OF nb], rule exI [of _ req], rule exI [of _ mo], rule exI [of _ cd], rule exI [of _ ?r])
        (intro conjI req(1) fields(2) m d, simp_all add: fields(1) none(4) c)
  qed
qed

text \<open>
  C11. A patch of a busy session is refused with 409 and changes nothing. One that is answered 200 names a known
  agent, a model that resolves, a known algorithm and a directory that exists; it changes exactly the requested
  fields (a change of agent also forgets the native session of the old one), and the record in memory, the one
  answered and the one in \<open>record.json\<close> agree.
\<close>

theorem patch_applies:
  assumes "store_ok s" "sessions_map s i = Some r"
  shows "(busy s i r \<longrightarrow> (\<exists>why. handlePatchSession cfg rq i body s = (s, Refused 409 why))) \<and>
    (\<forall>t resp. handlePatchSession cfg rq i body s = (t, Replied 200 resp) \<longrightarrow> \<not> busy s i r \<and>
      (\<exists>req model dir r'. body = Inr req \<and> r' = (patched (pr_Agent req) model dir r)\<lparr>rec_UpdatedAt := Some (rq_now rq)\<rparr> \<and>
        patch_valid cfg rq req model dir \<and>
        sessions_map t i = Some r' \<and> resp = sessionResponse cfg t r' \<and>
        (rec_SessionDir r' \<noteq> [] \<longrightarrow> map_of (ag_disk t) (rec_SessionDir r') = Some r')))"
  by (rule conjI; rule patch_outcomes [OF assms])

section \<open>Sessions on disk\<close>

lemma create_cases:
  assumes "handleCreateSession cfg rq (Inr req) s = (t, rep)"
  obtains "t = s"
    | model sandbox co dir u p v err ar where "checked_model cfg (cr_model req) = Some model"
        "alloc ((new_session_record rq req (effectiveSessionModel cfg model) sandbox co)\<lparr>rec_ConfigDir := dir\<rparr>) s = (u, p)"
        "WS_Create (rq_io rq) (rq_now rq) u p = (v, err)" "t = v\<lparr>ag_artifacts := ar\<rparr>"
        "rep = Replied 201 (rq_id rq, effectiveSessionModel cfg model)"
proof -
  have same: "v = v\<lparr>ag_artifacts := ag_artifacts v\<rparr>" for v :: agent_server by simp
  show thesis
  proof (cases "cr_agent req \<in> set (cfg_agents cfg)")
    case False
    then show thesis using assms that(1) by (simp add: handleCreateSession_def)
  next
    case agent: True
    show thesis
    proof (cases "checked_model cfg (cr_model req)")
      case None
      then show thesis using assms agent that(1) by (simp add: handleCreateSession_def)
    next
      case model: (Some m)
      show thesis
      proof (cases "ResolveSandboxMode (cr_sandbox_mode req) (cfg_disableSandbox cfg)")
        case (Inl e)
        then show thesis using assms agent model that(1) by (simp add: handleCreateSession_def)
      next
        case sandbox: (Inr sb)
        show thesis
        proof (cases "ResolveFileChangeCollectors (cr_collectors req)")
          case None
          then show thesis using assms agent model sandbox that(1) by (simp add: handleCreateSession_def)
        next
          case co: (Some co)
          let ?r = "new_session_record rq req (effectiveSessionModel cfg m) sb co"
          show thesis
          proof (cases "validateAndResolveConfigDir rq (rec_ConfigDir ?r)")
            case (Inl e)
            then show thesis using assms agent model sandbox co that(1) by (simp add: handleCreateSession_def Let_def)
          next
            case (Inr dir)
            obtain u p where a: "alloc (?r\<lparr>rec_ConfigDir := dir\<rparr>) s = (u, p)" by force
            obtain v err where w: "WS_Create (rq_io rq) (rq_now rq) u p = (v, err)" by force
            have "t = v \<or> (\<exists>ar. t = v\<lparr>ag_artifacts := ar\<rparr>)" "rep = Replied 201 (rq_id rq, effectiveSessionModel cfg m)"
              using assms agent model sandbox co Inr a w
              by (auto simp: handleCreateSession_def Let_def split: if_splits)
            then show thesis using that(2) [OF model a w] same [of v] by metis
          qed
        qed
      qed
    qed
  qed
qed

lemma scan_fold:
  assumes "e \<in> set es" "look e = Some r" "rec_ID r = i" "\<forall>e' \<in> set es. \<forall>r'. look e' = Some r' \<and> rec_ID r' = i \<longrightarrow> r' = r"
  shows "foldl (\<lambda>m e. case look e of None \<Rightarrow> m | Some r \<Rightarrow> m(rec_ID r \<mapsto> r)) m es i = Some r"
  using assms
proof (induction es rule: rev_induct)
  case (snoc x xs)
  have sub: "\<forall>e' \<in> set xs. \<forall>r'. look e' = Some r' \<and> rec_ID r' = i \<longrightarrow> r' = r"
  proof
    fix e' assume "e' \<in> set xs"
    then have "e' \<in> set (xs @ [x])" by simp
    then show "\<forall>r'. look e' = Some r' \<and> rec_ID r' = i \<longrightarrow> r' = r" by (rule bspec [OF snoc.prems(4)])
  qed
  have ih: "e \<in> set xs \<Longrightarrow> foldl (\<lambda>m e. case look e of None \<Rightarrow> m | Some r \<Rightarrow> m(rec_ID r \<mapsto> r)) m xs i = Some r"
    by (rule snoc.IH [OF _ snoc.prems(2,3) sub])
  show ?case
  proof (cases "look x")
    case None
    then have "e \<in> set xs" using snoc.prems(1,2) by auto
    with ih None show ?thesis by simp
  next
    case (Some r')
    show ?thesis
    proof (cases "rec_ID r' = i")
      case True
      then have "r' = r" using bspec [OF snoc.prems(4), of x] Some by simp
      with Some True show ?thesis by simp
    next
      case False
      then have "e \<in> set xs" using snoc.prems(1-3) Some by auto
      with ih Some False show ?thesis by simp
    qed
  qed
qed simp

definition restarted :: "agent_server \<Rightarrow> agent_server" where
  "restarted s = s\<lparr>ag_cells := [], ag_sessions := [], ag_registry := [], ag_active := [], ag_cancels := [], ag_cancelled := [],
     ag_closed := [], ag_ended := []\<rparr>"

lemma list_finds:
  assumes "store_ok s" "filepath_Abs (rq_getwd rq) (ResolveStorageRoot root w) = Some p" "w \<noteq> []"
    and "rq_ls rq (filepath_Join p ''.tern'') = DirEntries es" "e \<in> set es"
    and "map_of (ag_disk s) (filepath_Join (filepath_Join p ''.tern'') e) = Some r" "rec_ID r = i"
    and "\<forall>e' \<in> set es. \<forall>r'. map_of (ag_disk s) (filepath_Join (filepath_Join p ''.tern'') e') = Some r' \<and> rec_ID r' = i \<longrightarrow> r' = r"
  shows "sessions_map (fst (handleListSessions cfg rq w root s)) i = Some r"
proof -
  have ne: "ResolveStorageRoot root w \<noteq> []" using assms(3) by (simp add: ResolveStorageRoot_def)
  obtain v f where v: "scan_records s (filepath_Join p ''.tern'') es = (v, f)" by force
  have l: "listUnderStorageRoot (rq_getwd rq) (rq_ls rq) s (ResolveStorageRoot root w) = (v, Some f)"
    using ne assms(2,4) v by (simp add: listUnderStorageRoot_def)
  have "sessions_map v i = Some r"
    using scan_ok [OF assms(1) v] scan_fold [of e es "\<lambda>e. map_of (ag_disk s) (filepath_Join (filepath_Join p ''.tern'') e)", OF assms(5-8)]
    by simp
  then show ?thesis using l assms(3) by (simp add: handleListSessions_def)
qed

text \<open>
  C12. A session that was created, and is in the store, is found again after a restart of the server, by a
  listing of the directory it was saved under, as long as no other directory there claims its identifier: with
  its agent, model, paths, sandbox and collectors. Only its times are lost, for the record is written
  before they are set.
\<close>

theorem created_survives_restart:
  assumes "store_ok s" "Mem_Get s (rq_id rq) = None" "handleCreateSession cfg rq (Inr req) s = (t, rep)"
    and "sessions_map t (rq_id rq) = Some r"
    and "filepath_Abs (rq_getwd rq') (ResolveStorageRoot root w) = Some p" "w \<noteq> []"
    and "rq_ls rq' (filepath_Join p ''.tern'') = DirEntries es" "e \<in> set es"
    and "rec_SessionDir r = filepath_Join (filepath_Join p ''.tern'') e" "rec_SessionDir r \<noteq> []"
    and "\<forall>e' \<in> set es. \<forall>r'. map_of (ag_disk t) (filepath_Join (filepath_Join p ''.tern'') e') = Some r' \<and> rec_ID r' = rq_id rq \<longrightarrow>
      e' = e"
  shows "sessions_map (fst (handleListSessions cfg rq' w root (restarted t))) (rq_id rq) =
    Some (r\<lparr>rec_CreatedAt := None, rec_UpdatedAt := None\<rparr>)"
  using assms(3)
proof (cases rule: create_cases)
  case 1
  then show ?thesis using assms(2,4) by (simp add: sessions_map_def)
next
  case (2 model sandbox co dir u q v err ar)
  let ?c = "(new_session_record rq req (effectiveSessionModel cfg model) sandbox co)\<lparr>rec_ConfigDir := dir\<rparr>"
  let ?r = "with_session_dir ?c"
  note a = unstored_alloc [OF assms(1) 2(2)]
  note c = create_stored [OF a(1) 2(3)]
  have id: "rec_ID ?r = rq_id rq" "?r\<lparr>rec_CreatedAt := None, rec_UpdatedAt := None\<rparr> = ?r"
    by (simp_all add: with_session_dir_def new_session_record_def Let_def)
  have m: "sessions_map t = sessions_map v" "ag_disk t = ag_disk v" unfolding 2(4) by (rule records_same, simp) simp
  have none: "err = None"
  proof (rule ccontr)
    assume "err \<noteq> None"
    then have "sessions_map v = sessions_map s" using c(3) a(3) by simp
    then show False using assms(2,4) m(1) by (simp add: sessions_map_def)
  qed
  have r: "r = ?r\<lparr>rec_CreatedAt := Some (rq_now rq), rec_UpdatedAt := Some (rq_now rq)\<rparr>"
    using c(4) [OF none] assms(4) m(1) a(2) id(1) by simp
  then have dir: "rec_SessionDir r = rec_SessionDir ?r" by simp
  have disk: "map_of (ag_disk t) (rec_SessionDir r) = Some ?r" using c(5) [OF none] assms(10) m(2) a(2) dir by simp
  have shown: "r\<lparr>rec_CreatedAt := None, rec_UpdatedAt := None\<rparr> = ?r" using id(2) r by simp
  have ok: "store_ok (restarted t)"
  proof -
    have "is_go_map (ag_disk v)" using store_ok_maps(2) [OF c(1)] .
    then have "started (restarted t)" by (simp add: started_def restarted_def m(2))
    then show ?thesis by (rule service.init_inv)
  qed
  have d: "ag_disk (restarted t) = ag_disk t" by (simp add: restarted_def)
  show ?thesis
    unfolding shown
  proof (rule list_finds [OF ok assms(5,6,7,8)])
    show at: "map_of (ag_disk (restarted t)) (filepath_Join (filepath_Join p ''.tern'') e) = Some ?r" using disk assms(9) by (simp add: d)
    show "rec_ID ?r = rq_id rq" by (rule id)
    show "\<forall>e' \<in> set es. \<forall>r'. map_of (ag_disk (restarted t)) (filepath_Join (filepath_Join p ''.tern'') e') = Some r' \<and>
        rec_ID r' = rq_id rq \<longrightarrow> r' = ?r"
      using assms(11) at by (metis d option.inject)
  qed
qed
section \<open>Samples\<close>

definition sample_service :: service_config where
  "sample_service = \<lparr>cfg_agents = [''codex'', ''claudecode''], cfg_gatewayModels = [], cfg_gatewayDefault = Some ''m'', cfg_profiles = None,
     cfg_disableSandbox = False, cfg_supplement = no_supplement, cfg_artifacts = False, cfg_artifactWorkDir = []\<rparr>"

definition sample_request :: "string \<Rightarrow> request_env" where
  "sample_request i = \<lparr>rq_now = 5, rq_id = i, rq_getwd = Some ''/w'', rq_stat = (\<lambda>_. StatMissing), rq_ls = (\<lambda>_. DirEntries [''s'']),
     rq_io = sample_io, rq_engine = sample_engine, rq_analyzer = sample_analyzer_env, rq_clock = (\<lambda>_. 1),
     rq_trees = (\<lambda>_. \<lparr>wt_gitDir = False, wt_head = False, wt_diff = None, wt_untracked = None, wt_walk = None\<rparr>)\<rparr>"

definition sample_server :: agent_server where
  "sample_server = \<lparr>ag_cells = [], ag_sessions = [], ag_disk = [], ag_canon = (\<lambda>d. \<lparr>cn_Dir = d, cn_meta = [], cn_hist = []\<rparr>), ag_faults = [],
     ag_registry = [], ag_active = [], ag_cancels = [], ag_cancelled = [], ag_closed = [], ag_ended = [], ag_temp = [],
     ag_artifacts = \<lparr>sv_analyzer = NewAnalyzer,
       sv_db = \<lparr>ad_sessions = [], ad_events = [], ad_user = [], ad_nextID = 1, ad_faults = []\<rparr>, sv_snapshots = []\<rparr>\<rparr>"

definition sample_create :: create_request where
  "sample_create = \<lparr>cr_agent = ''codex'', cr_model = [], cr_work_dir = ''/w'', cr_session_dir = [], cr_config_dir = [],
     cr_storage_root = [], cr_sandbox_mode = [], cr_collectors = None\<rparr>"

definition sample_created :: agent_server where
  "sample_created = fst (handleCreateSession sample_service (sample_request ''s'') (Inr sample_create) sample_server)"

definition sample_execution :: liveExecution where
  "sample_execution = \<lparr>ex_sessionID = ''s'', ex_turnID = ''t'', ex_status = StatusActive, ex_subCancel = None, ex_subscriberGen = 0,
     ex_reattachTimer = False, ex_cancelled = {}, le_execID = 1, le_sessionModel = ''m'', le_correlationID = [], le_agentSess = Some 7,
     le_stdin = False, le_relay = Some \<lparr>rv_events = [], rv_sourceDone = False\<rparr>\<rparr>"

definition sample_record :: SessionRecord where
  "sample_record = \<lparr>rec_ID = ''s'', rec_AgentName = ''codex'', rec_Model = ''m'', rec_Status = StatusActive, rec_Error = [], rec_WorkDir = ''/w'',
     rec_StorageRoot = ''/w'', rec_AgentSessionID = [], rec_SessionDir = ''/w/.tern/s'', rec_ConfigDir = [], rec_SandboxMode = SandboxModeReadOnly,
     rec_FileChangeCollectors = Some DefaultFileChangeCollectors, rec_Usage = None, rec_CreatedAt = Some 5, rec_UpdatedAt = Some 5\<rparr>"

lemma sample_server_started: "started sample_server"
  by (simp add: started_def sample_server_def)

lemma sample_server_ok: "store_ok sample_server"
  using service.init_inv [OF sample_server_started] .

lemma sample_created_ok: "store_ok sample_created"
  unfolding sample_created_def by (rule only_affects_ok [OF affects_create [OF sample_server_ok]])

lemma sample_created_record: "sessions_map sample_created ''s'' = Some sample_record" 
  by code_simp

lemma sample_created_reply:
  "handleCreateSession sample_service (sample_request ''s'') (Inr sample_create) sample_server = (sample_created, Replied 201 (''s'', ''m''))"
proof -
  have "snd (handleCreateSession sample_service (sample_request ''s'') (Inr sample_create) sample_server) = Replied 201 (''s'', ''m'')"
    by code_simp
  then show ?thesis unfolding sample_created_def by (metis prod.collapse)
qed

lemma sample_created_disk:
  "map_of (ag_disk sample_created) ''/w/.tern/s'' = Some (sample_record\<lparr>rec_CreatedAt := None, rec_UpdatedAt := None\<rparr>)"
  by code_simp
theorem sessions_isolated_witness:
  "sessions_map (fst (handleTerminate sample_service (sample_request ''x'') ''z'' sample_created)) ''s'' = Some sample_record"
proof -
  have "session_step sample_service ''s'' sample_server sample_created"
    using step_create [of sample_service "sample_request ''s''" sample_server "Inr sample_create"]
    by (simp add: sample_created_def sample_request_def)
  then have "(service_step sample_service)\<^sup>*\<^sup>* sample_server sample_created" by (intro r_into_rtranclp on_session)
  from sessions_isolated [OF sample_server_started this step_terminate, of "''s''" "''z''" "sample_request ''x''"] sample_created_record
  show ?thesis by simp
qed

theorem stop_releases_turn_witness:
  "let s = register_exec ''s'' sample_execution sample_created
   in Registry_Get (ag_registry s) ''s'' \<noteq> None \<and> (\<exists>t. fst (handleCancel sample_service (sample_request ''s'') ''s'' s) = t \<and>
      Registry_Get (ag_registry t) ''s'' = None \<and> 7 \<in> set (ag_closed t))"
proof -
  let ?s = "register_exec ''s'' sample_execution sample_created"
  have r: "sessions_map ?s = sessions_map sample_created" by (rule records_same) (simp add: records_def register_exec_def)
  have ok: "store_ok ?s" by (rule only_affects_ok [OF affects_register [OF sample_created_ok]])
  have g: "Registry_Get (ag_registry ?s) ''s'' = Some sample_execution" by code_simp
  have "sessions_map ?s ''s'' = Some sample_record" using r sample_created_record by simp
  from stop_releases_turn [OF ok this, of sample_service "sample_request ''s''"] g
  show ?thesis by (auto simp: turn_released_def sample_record_def sample_execution_def Let_def)
qed

theorem patch_applies_witness:
  "\<exists>why. handlePatchSession sample_service (sample_request ''s'') ''s'' (Inl ''EOF'') (register_exec ''s'' sample_execution sample_created)
     = (register_exec ''s'' sample_execution sample_created, Refused 409 why)"
proof -
  let ?s = "register_exec ''s'' sample_execution sample_created"
  have r: "sessions_map ?s = sessions_map sample_created" by (rule records_same) (simp add: records_def register_exec_def)
  have ok: "store_ok ?s" by (rule only_affects_ok [OF affects_register [OF sample_created_ok]])
  have "busy ?s ''s'' sample_record" by code_simp
  then show ?thesis using patch_applies [OF ok, of "''s''"] r sample_created_record by simp
qed

theorem created_survives_restart_witness:
  "sessions_map (fst (handleListSessions sample_service (sample_request ''z'') ''/w'' [] (restarted sample_created))) ''s''
     = Some (sample_record\<lparr>rec_CreatedAt := None, rec_UpdatedAt := None\<rparr>)"
proof -
  have id: "rq_id (sample_request ''s'') = ''s''" by (simp add: sample_request_def)
  have dirs: "filepath_Abs (Some ''/w'') (ResolveStorageRoot [] ''/w'') = Some ''/w''"
    "rec_SessionDir sample_record = filepath_Join (filepath_Join ''/w'' ''.tern'') ''s''" by code_simp+
  have rq: "rq_getwd (sample_request ''z'') = Some ''/w''" "rq_ls (sample_request ''z'') d = DirEntries [''s'']" for d
    by (simp_all add: sample_request_def)
  show ?thesis
  proof (rule created_survives_restart [OF sample_server_ok _ sample_created_reply, unfolded id, OF _ sample_created_record])
    show "filepath_Abs (rq_getwd (sample_request ''z'')) (ResolveStorageRoot [] ''/w'') = Some ''/w''" unfolding rq by (rule dirs)
    show "rq_ls (sample_request ''z'') (filepath_Join ''/w'' ''.tern'') = DirEntries [''s'']" by (rule rq)
    show "rec_SessionDir sample_record = filepath_Join (filepath_Join ''/w'' ''.tern'') ''s''" by (rule dirs)
  qed (simp_all add: Mem_Get_def sample_server_def sample_record_def)
qed

section \<open>What goes wrong\<close>

definition failing :: "persist_end \<Rightarrow> agent_server" where
  "failing f = sample_server\<lparr>ag_faults := [f]\<rparr>"

text \<open>The error of \<open>Create\<close> is ignored: a session that could not be saved is answered 201 and is not there.\<close>

theorem unsaved_session_answered_created:
  "case handleCreateSession sample_service (sample_request ''s'') (Inr sample_create) (failing PersistEarly) of
     (t, rep) \<Rightarrow> rep = Replied 201 (''s'', ''m'') \<and> handleGetSession sample_service t ''s'' = Refused 404 (PlainText ''session not found'')"
  by code_simp

text \<open>A refused patch has changed the session: the fields before the bad one stay as requested.\<close>

theorem refused_patch_changes_session:
  "case handlePatchSession sample_service (sample_request ''s'') ''s''
      (Inr \<lparr>pr_ConfigDir = Some ''/none'', pr_Agent = Some ''claudecode'', pr_Model = None, pr_Supplement = None\<rparr>) sample_created of
     (t, rep) \<Rightarrow> reply_code rep = 400 \<and> map_option rec_AgentName (sessions_map t ''s'') = Some ''claudecode'' \<and>
       map_option rec_AgentName (map_of (ag_disk t) ''/w/.tern/s'') = Some ''codex''"
  by code_simp

text \<open>A deleted session comes back with the next listing, for its files are kept.\<close>

theorem deleted_session_returns:
  "case handleDeleteSession sample_created ''s'' of (t, rep) \<Rightarrow> rep = Replied 204 () \<and> sessions_map t ''s'' = None \<and>
     sessions_map (fst (handleListSessions sample_service (sample_request ''z'') ''/w'' [] t)) ''s'' \<noteq> None"
  by code_simp

text \<open>Cancelling a session with no turn marks it as failed.\<close>

theorem idle_session_cancelled:
  "map_option rec_Status (sessions_map (fst (handleCancel sample_service (sample_request ''s'') ''s'' sample_created)) ''s'') = Some StatusError"
  by code_simp

end
