(* ===== verification/Turn_Service.thy ===== *)
theory Turn_Service
  imports Session_Service SSE_Chunk Retry_Policy Task_Log
begin

text \<open>
  A turn of a session, from the message to the answer: the content of messages (\<open>codingagent/content.go\<close>,
  \<open>agentservice/multimodal.go\<close>), \<open>handleSendMessage\<close> and \<open>handleRespond\<close> (\<open>handler.go\<close>), \<open>handleFollow\<close>
  (\<open>handler_follow.go\<close>), and the attempts of a turn, the JSON answer, the stream that a client is attached
  to and the effects of each relayed event (\<open>handler_retry.go\<close>, \<open>handler_usage.go\<close>).

  What a turn waits for is a list of inputs: an event of the relay, its end, a client that leaves, a timer, or
  the step of something else that runs meanwhile (another handler, the side effect pump). A turn that is still
  waiting when the list ends has no result (\<open>None\<close>); the attempts left are the fuel of the retry loop, so
  that loop always ends. The order in which the goroutines take turns is the order of the inputs. The inputs
  of an attempt hold \<open>ClientGone\<close> when the client left before or during it. Log messages, keepalive comments
  and HTTP headers are left out; \<open>streamSSE\<close> and \<open>respondJSON\<close> of \<open>handler.go\<close> have no caller.
\<close>

section \<open>The content of a message\<close>

record ImageSource =
  is_Type :: string
  is_MediaType :: string
  is_Data :: string

record InputPart =
  ip_Type :: string
  ip_Text :: string
  ip_Source :: "ImageSource option"

definition ExtractText :: "InputPart list \<Rightarrow> string" where
  "ExtractText parts = concat (map ip_Text (filter (\<lambda>p. ip_Type p = ''text'' \<and> ip_Text p \<noteq> []) parts))"

definition HasNonTextContent :: "InputPart list \<Rightarrow> bool" where
  "HasNonTextContent parts \<longleftrightarrow> list_ex (\<lambda>p. ip_Type p \<noteq> ''text'') parts"

definition TextOnlyContent :: "string \<Rightarrow> InputPart list" where
  "TextOnlyContent txt = [\<lparr>ip_Type = ''text'', ip_Text = txt, ip_Source = None\<rparr>]"

text \<open>Each error but the first carries the place of the part it is about.\<close>

datatype content_error =
    EmptyContent | EmptyPartType nat | MissingSource nat | MissingMediaType nat | MissingData nat | UnsupportedType nat string

fun check_parts :: "nat \<Rightarrow> InputPart list \<Rightarrow> content_error option" where
  "check_parts i [] = None"
| "check_parts i (p # ps) =
     (if ip_Type p = [] then Some (EmptyPartType i)
      else if ip_Type p = ''text'' then check_parts (i + 1) ps
      else if ip_Type p = ''image'' then
        (case ip_Source p of
           None \<Rightarrow> Some (MissingSource i)
         | Some src \<Rightarrow>
             if is_MediaType src = [] then Some (MissingMediaType i)
             else if is_Data src = [] then Some (MissingData i)
             else check_parts (i + 1) ps)
      else Some (UnsupportedType i (ip_Type p)))"

definition ValidateContentParts :: "InputPart list \<Rightarrow> content_error option" where
  "ValidateContentParts parts = (if parts = [] then Some EmptyContent else check_parts 0 parts)"

subsection \<open>Images in temporary files\<close>

text \<open>
  What saving an image depends on: base64 decoding, the hexadecimal digits of the first eight bytes of the
  hash, the directory for temporary files, and how creating it and writing a file end (a failed write may
  leave a file).
\<close>

record image_env =
  ie_tempDir :: string
  ie_decode :: "string \<Rightarrow> (string, string) result"
  ie_hash :: "string \<Rightarrow> string"
  ie_mkdir :: "string option"
  ie_write :: "string \<Rightarrow> (bool \<times> string) option"

datatype image_error = NoSource | NoData | BadBase64 string | MkdirFails string | WriteFails string

definition mediaTypeToExt :: "string \<Rightarrow> string" where
  "mediaTypeToExt mediaType =
     (let m = ToLower mediaType
      in if m = ''image/png'' then ''.png''
         else if m \<in> {''image/jpeg'', ''image/jpg''} then ''.jpg''
         else if m = ''image/gif'' then ''.gif''
         else if m = ''image/webp'' then ''.webp''
         else ''.bin'')"

definition saveImage :: "image_env \<Rightarrow> string \<Rightarrow> string \<Rightarrow> ImageSource \<Rightarrow> string list \<Rightarrow> string list \<times> (image_error, string) result" where
  "saveImage ie dir pre source files =
     (if is_Data source = [] then (files, Inl NoData)
      else case ie_decode ie (is_Data source) of
        Inl e \<Rightarrow> (files, Inl (BadBase64 e))
      | Inr decoded \<Rightarrow>
          (case ie_mkdir ie of
             Some e \<Rightarrow> (files, Inl (MkdirFails e))
           | None \<Rightarrow>
               (let path = filepath_Join dir (pre @ ie_hash ie decoded @ mediaTypeToExt (is_MediaType source))
                in if path \<in> set files then (files, Inr path)
                   else case ie_write ie path of
                     None \<Rightarrow> (files @ [path], Inr path)
                   | Some (left, e) \<Rightarrow> (if left then files @ [path] else files, Inl (WriteFails e)))))"

definition SaveImageToTempFile :: "image_env \<Rightarrow> string \<Rightarrow> ImageSource \<Rightarrow> string list \<Rightarrow> string list \<times> (image_error, string) result" where
  "SaveImageToTempFile ie i = saveImage ie (filepath_Join (ie_tempDir ie) ''arctic-tern-multimodal'') (i @ ''_'')"

definition attached :: "string \<Rightarrow> string" where
  "attached path = [CHR 0x0A] @ ''[Attached image: '' @ path @ '']'' @ [CHR 0x0A]"

text \<open>The prompt and the files saved so far; on an error the list of files is lost, the files are not.\<close>

fun build_prompt :: "image_env \<Rightarrow> string \<Rightarrow> InputPart list \<Rightarrow> string \<Rightarrow> string list \<Rightarrow> string list
    \<Rightarrow> string list \<times> (image_error, string \<times> string list) result" where
  "build_prompt ie i [] prompt saved files = (files, Inr (prompt, saved))"
| "build_prompt ie i (p # ps) prompt saved files =
     (if ip_Type p = ''text'' then build_prompt ie i ps (prompt @ ip_Text p) saved files
      else if ip_Type p = ''image'' then
        (case ip_Source p of
           None \<Rightarrow> (files, Inl NoSource)
         | Some src \<Rightarrow>
             (case SaveImageToTempFile ie i src files of
                (files, Inl e) \<Rightarrow> (files, Inl e)
              | (files, Inr path) \<Rightarrow> build_prompt ie i ps (prompt @ attached path) (saved @ [path]) files))
      else build_prompt ie i ps prompt saved files)"

definition BuildMultimodalPrompt ::
  "image_env \<Rightarrow> string \<Rightarrow> InputPart list \<Rightarrow> string list \<Rightarrow> string list \<times> (image_error, string \<times> string list) result" where
  "BuildMultimodalPrompt ie i parts files = build_prompt ie i parts [] [] files"

definition valid_part :: "InputPart \<Rightarrow> bool" where
  "valid_part p \<longleftrightarrow> ip_Type p = ''text'' \<or> ip_Type p = ''image'' \<and>
     (case ip_Source p of None \<Rightarrow> False | Some src \<Rightarrow> is_MediaType src \<noteq> [] \<and> is_Data src \<noteq> [])"

lemma check_parts_None: "check_parts i ps = None \<longleftrightarrow> list_all valid_part ps"
  by (induction ps arbitrary: i) (auto simp: valid_part_def split: option.split)

lemma ValidateContentParts_iff: "ValidateContentParts parts = None \<longleftrightarrow> parts \<noteq> [] \<and> list_all valid_part parts"
  by (simp add: ValidateContentParts_def check_parts_None)

text \<open>For a valid message only decoding and the file system can fail; what was saved is there.\<close>

lemma build_prompt_valid:
  assumes "list_all valid_part parts" "set saved \<subseteq> set files" "build_prompt ie i parts prompt saved files = (files', res)"
  shows "set files \<subseteq> set files' \<and> (case res of Inl e \<Rightarrow> e \<noteq> NoSource \<and> e \<noteq> NoData | Inr (_, saved') \<Rightarrow> set saved' \<subseteq> set files')"
  using assms
proof (induction parts arbitrary: prompt saved files)
  case (Cons p ps)
  show ?case
  proof (cases "ip_Type p = ''image''")
    case True
    then obtain src where src: "ip_Source p = Some src" "is_Data src \<noteq> []" using Cons.prems(1) by (auto simp: valid_part_def split: option.splits)
    obtain fs r where r: "SaveImageToTempFile ie i src files = (fs, r)" by force
    have f: "set files \<subseteq> set fs" "\<And>e. r = Inl e \<Longrightarrow> e \<noteq> NoSource \<and> e \<noteq> NoData" "\<And>path. r = Inr path \<Longrightarrow> path \<in> set fs"
      using r src(2) by (auto simp: SaveImageToTempFile_def saveImage_def Let_def split: if_splits sum.splits option.splits)
    show ?thesis
    proof (cases r)
      case (Inl e)
      then show ?thesis using Cons.prems(3) True src r f by auto
    next
      case (Inr path)
      have "build_prompt ie i ps (prompt @ attached path) (saved @ [path]) fs = (files', res)" using Cons.prems(3) True src r Inr by simp
      from Cons.IH [OF _ _ this] show ?thesis using Cons.prems(1,2) f Inr by auto
    qed
  next
    case False
    then have "ip_Type p = ''text''" using Cons.prems(1) by (simp add: valid_part_def)
    then show ?thesis using Cons.IH [of saved files "prompt @ ip_Text p"] Cons.prems by auto
  qed
qed auto

section \<open>The end of a stream\<close>

text \<open>The terminal event that a relay's events amount to: a result wins, then the last final error.\<close>

definition resolveTerminalFromRelayEvents :: "StreamEvent list \<Rightarrow> stream_terminal" where
  "resolveTerminalFromRelayEvents events =
     (if list_ex (\<lambda>ev. se_Type ev = EventResult) events then TermResult
      else case find (\<lambda>ev. se_Type ev = EventError \<and> \<not> se_Retryable ev) (rev events) of
        Some ev \<Rightarrow> TermError False (se_Content ev)
      | None \<Rightarrow>
          (case find (\<lambda>ev. se_Type ev = EventError \<and> se_Retryable ev) (rev events) of
             Some ev \<Rightarrow> TermError True (se_Content ev)
           | None \<Rightarrow> TermError False ''stream ended without terminal event''))"

text \<open>A terminal that settles the turn: every one but none and a retryable error.\<close>

fun settles :: "stream_terminal \<Rightarrow> bool" where
  "settles NoTerminal = False"
| "settles TermResult = True"
| "settles (TermError retryable _) = (\<not> retryable)"

definition ensureRelayTerminal :: "stream_terminal \<Rightarrow> StreamEvent list option \<Rightarrow> stream_terminal" where
  "ensureRelayTerminal term relay =
     (if settles term then term
      else let resolved = resolveTerminalFromRelayEvents (case relay of Some events \<Rightarrow> events | None \<Rightarrow> [])
           in if settles resolved then resolved
              else case term of TermError _ _ \<Rightarrow> term | _ \<Rightarrow> resolved)"

definition processRetryLimits :: "int \<Rightarrow> int \<Rightarrow> string \<Rightarrow> int \<times> int" where
  "processRetryLimits maxAttempts intervalSeconds agentName =
     (if agentName \<noteq> ''codex'' then (1, 0)
      else (if maxAttempts \<le> 0 then 3 else maxAttempts, if 0 < intervalSeconds then intervalSeconds else 0))"

section \<open>The state of a turn\<close>

text \<open>
  The server, the execution of the turn (the pointer that \<open>runTurn\<close> holds, which the registry may have
  too), its place in the stream and its usage, the usage files and the meter, the task log, what was written
  to the client, and how the agent was started each time.
\<close>

record turn_state =
  tn_server :: agent_server
  tn_exec :: liveExecution
  tn_offset :: nat
  tn_agg :: "turnUsageAggregator option"
  tn_dirs :: "string \<Rightarrow> usage_dir"
  tn_meter :: "UsageMeter option"
  tn_log :: "log_entry list"
  tn_wire :: "string list"
  tn_launches :: "agent_options list"

record turn_env =
  te_cfg :: service_config
  te_rq :: request_env
  te_fadd :: fadd
  te_ff :: "go_float \<Rightarrow> json"
  te_uuid :: "nat \<Rightarrow> string"
  te_fault :: save_fault
  te_taskLog :: bool
  te_retry :: "int \<times> int"
  te_summarizer :: "Summarizer option"
  te_multimodal :: "string \<Rightarrow> bool option"

datatype turn_input =
    Relayed StreamEvent
  | SourceClosed
  | ClientGone
  | DrainElapsed
  | Stolen
  | Meanwhile "turn_state \<Rightarrow> turn_state"

definition on_server :: "(agent_server \<Rightarrow> agent_server) \<Rightarrow> turn_state \<Rightarrow> turn_state" where
  "on_server f t = t\<lparr>tn_server := f (tn_server t)\<rparr>"

abbreviation turn_session :: "turn_state \<Rightarrow> string" where "turn_session t \<equiv> ex_sessionID (tn_exec t)"

text \<open>An update of the record through the stored pointer, ignoring whether it was saved.\<close>

definition update_record :: "go_time \<Rightarrow> string \<Rightarrow> (SessionRecord \<Rightarrow> SessionRecord) \<Rightarrow> agent_server \<Rightarrow> agent_server" where
  "update_record now i f s =
     (case Mem_Get s i of None \<Rightarrow> s | Some p \<Rightarrow> fst (WS_Update now (write_cell p (f (cell s p)) s) p))"

definition stamped_event :: "turn_state \<Rightarrow> StreamEvent \<Rightarrow> StreamEvent" where
  "stamped_event t ev = ev\<lparr>se_TurnID := ex_turnID (tn_exec t), se_CorrelationID := le_correlationID (tn_exec t)\<rparr>"

subsection \<open>Effects of an event\<close>

definition persist_usage :: "turn_env \<Rightarrow> TurnUsageRecord \<Rightarrow> turn_state \<Rightarrow> turn_state" where
  "persist_usage te rec t =
     (let i = turn_session t; now = rq_now (te_rq te)
      in case Mem_Get (tn_server t) i of
           None \<Rightarrow> t
         | Some p \<Rightarrow>
             (let rec = (if tr_EndedAt rec = None then rec\<lparr>tr_EndedAt := Some now\<rparr> else rec);
                  dir = rec_SessionDir (cell (tn_server t) p)
              in case appendTurnUsage (te_fadd te) now (te_fault te) dir (tn_dirs t dir) i rec of
                   (d, Inl _) \<Rightarrow> t\<lparr>tn_dirs := (tn_dirs t)(dir := d)\<rparr>
                 | (d, Inr usage) \<Rightarrow>
                     on_server (update_record now i (\<lambda>r. r\<lparr>rec_Usage := Some usage\<rparr>)) (t\<lparr>tn_dirs := (tn_dirs t)(dir := d)\<rparr>)))"

definition apply_usage :: "turn_env \<Rightarrow> StreamEvent \<Rightarrow> turn_state \<Rightarrow> turn_state \<times> StreamEvent" where
  "apply_usage te ev t =
     (let x = tn_exec t;
          agg = Observe (case tn_agg t of None \<Rightarrow> newTurnUsageAggregator (ex_turnID x) | Some a \<Rightarrow> a) ev
      in if \<not> terminal_event ev then (t\<lparr>tn_agg := Some agg\<rparr>, ev)
         else
           let (t, agg) = (case tn_meter t of
                 None \<Rightarrow> (t, agg)
               | Some m \<Rightarrow> (let (m', us) = Take m (ex_sessionID x) (ex_turnID x) in (t\<lparr>tn_meter := Some m'\<rparr>, MergeCalls agg us)));
               (agg, fin) = Finalize (te_fadd te) agg; t = t\<lparr>tn_agg := Some agg\<rparr>
           in case fin of
                None \<Rightarrow> (t, ev)
              | Some rec \<Rightarrow>
                  (let rec = rec\<lparr>tr_Usage := ApplyModelAttribution (tr_Usage rec) (le_sessionModel x),
                                 tr_Calls := map (\<lambda>c. ApplyModelAttribution c (le_sessionModel x)) (tr_Calls rec)\<rparr>;
                       ev = (if se_Type ev = EventResult then ev\<lparr>se_Usage := Some (tr_Usage rec)\<rparr> else ev)
                   in (persist_usage te rec t, ev)))"

definition toAgentLogEntry :: "turn_env \<Rightarrow> StreamEvent \<Rightarrow> turn_state \<Rightarrow> log_entry" where
  "toAgentLogEntry te ev t =
     NewAgentLogSendEntry (rq_now (te_rq te)) (te_uuid te (length (tn_log t))) (turn_session t)
       (case marshal_event (te_ff te) (stamped_event t ev) of Some body \<Rightarrow> body | None \<Rightarrow> [])"

text \<open>An event is logged; the tool call analyzer is called with each new entry.\<close>

definition log_event :: "turn_env \<Rightarrow> StreamEvent \<Rightarrow> turn_state \<Rightarrow> turn_state" where
  "log_event te ev t =
     (if \<not> te_taskLog te then t
      else let e = toAgentLogEntry te ev t; ar = ag_artifacts (tn_server t);
               (a, db) = onEntry (rq_analyzer (te_rq te)) e (sv_analyzer ar, sv_db ar);
               t = t\<lparr>tn_log := tn_log t @ [e]\<rparr>
           in if cfg_artifacts (te_cfg te) then on_server (\<lambda>s. s\<lparr>ag_artifacts := ar\<lparr>sv_analyzer := a, sv_db := db\<rparr>\<rparr>) t else t)"

text \<open>The agent asks the user: the session and its execution are suspended.\<close>

definition suspend :: "turn_env \<Rightarrow> turn_state \<Rightarrow> turn_state" where
  "suspend te t =
     (let i = turn_session t;
          t = on_server (update_record (rq_now (te_rq te)) i (\<lambda>r. r\<lparr>rec_Status := StatusSuspended\<rparr>)) t;
          t = on_server (\<lambda>s. s\<lparr>ag_registry := SetStatus (ag_registry s) i StatusSuspended\<rparr>) t
      in t\<lparr>tn_exec := (tn_exec t)\<lparr>ex_status := StatusSuspended\<rparr>\<rparr>)"

definition keep_native_id :: "turn_env \<Rightarrow> StreamEvent \<Rightarrow> turn_state \<Rightarrow> turn_state" where
  "keep_native_id te ev t =
     (if se_Type ev = EventSystem \<and> se_SessionID ev \<noteq> []
      then on_server (update_record (rq_now (te_rq te)) (turn_session t) (\<lambda>r. r\<lparr>rec_AgentSessionID := se_SessionID ev\<rparr>)) t else t)"

definition status_of_event :: "turn_env \<Rightarrow> StreamEvent \<Rightarrow> turn_state \<Rightarrow> turn_state" where
  "status_of_event te ev t =
     on_server (updateSessionStatusOnTerminal (rq_now (te_rq te)) (turn_session t) ev (se_Type ev = EventError) (se_Content ev)) t"

text \<open>What the side effect pump does with an event (\<open>handleRelaySideEffects\<close> without a writer).\<close>

definition handleRelaySideEffects :: "turn_env \<Rightarrow> StreamEvent \<Rightarrow> turn_state \<Rightarrow> turn_state" where
  "handleRelaySideEffects te ev t =
     (let (t, ev) = apply_usage te (stamped_event t ev) t;
          t = (if se_Type ev = EventUserInputRequired then suspend te t else t);
          t = (if hasSubscriber (tn_exec t) then t else log_event te ev t);
          t = keep_native_id te ev t
      in if se_Type ev = EventError \<and> se_Retryable ev then t else status_of_event te ev t)"

definition reconcile_turn :: "turn_env \<Rightarrow> turn_state \<Rightarrow> turn_state" where
  "reconcile_turn te t =
     on_server (\<lambda>s. reconcile_artifacts (te_cfg te) (te_rq te) s (turn_session t) (ex_turnID (tn_exec t)) (le_correlationID (tn_exec t))) t"

definition has_record :: "turn_state \<Rightarrow> bool" where
  "has_record t \<longleftrightarrow> Mem_Get (tn_server t) (turn_session t) \<noteq> None"

text \<open>
  The execution is one pointer, held by the turn and by the registry as long as it is registered. A reader
  that is at the end of the relay's buffer receives an event when it has just been appended.
\<close>

definition set_exec :: "(liveExecution \<Rightarrow> liveExecution) \<Rightarrow> turn_state \<Rightarrow> turn_state" where
  "set_exec f t =
     (let x = tn_exec t
      in on_server (update_exec (ex_sessionID x) (\<lambda>e. if le_execID e = le_execID x then f e else e)) (t\<lparr>tn_exec := f x\<rparr>))"

definition append_relayed :: "StreamEvent \<Rightarrow> liveExecution \<Rightarrow> liveExecution" where
  "append_relayed ev e = e\<lparr>le_relay := map_option (\<lambda>r. r\<lparr>rv_events := rv_events r @ [ev]\<rparr>) (le_relay e)\<rparr>"

definition receive :: "nat \<Rightarrow> StreamEvent \<Rightarrow> turn_state \<Rightarrow> turn_state \<times> StreamEvent" where
  "receive pos ev t =
     (case le_relay (tn_exec t) of
        Some r \<Rightarrow> if pos < length (rv_events r) then (t, rv_events r ! pos) else (set_exec (append_relayed ev) t, ev)
      | None \<Rightarrow> (t, ev))"

section \<open>The JSON answer\<close>

text \<open>What an event says about the end of the turn.\<close>

definition note_terminal :: "StreamEvent \<Rightarrow> stream_terminal \<Rightarrow> stream_terminal" where
  "note_terminal ev term =
     (if se_Type ev = EventResult then TermResult
      else if se_Type ev = EventError then TermError (se_Retryable ev) (se_Content ev) else term)"

definition drain_timeout :: "turn_state \<Rightarrow> turn_state \<times> stream_terminal" where
  "drain_timeout t =
     (case stopExecOnDrainTimeout (turn_session t) (le_execID (tn_exec t)) (tn_server t) of
        (_, NoTerminal) \<Rightarrow> (t, NoTerminal)
      | (s, term) \<Rightarrow> (t\<lparr>tn_server := s, tn_exec := stopReattachTimer (tn_exec t)\<rparr>, term))"

text \<open>
  \<open>gone\<close>: the client has left, and the turn is read to its end or until the drain timer fires; \<open>pos\<close>: the
  place of the reader. The result is the terminal, the events, and whether the turn is suspended.
\<close>

fun json_loop :: "turn_env \<Rightarrow> bool \<Rightarrow> nat \<Rightarrow> stream_terminal \<Rightarrow> StreamEvent list \<Rightarrow> turn_state \<Rightarrow> turn_input list
    \<Rightarrow> (turn_state \<times> stream_terminal \<times> StreamEvent list \<times> bool) option" where
  "json_loop te gone pos term events t [] = None"
| "json_loop te gone pos term events t (Meanwhile f # is) = json_loop te gone pos term events (f t) is"
| "json_loop te gone pos term events t (Stolen # is) = json_loop te gone pos term events t is"
| "json_loop te gone pos term events t (SourceClosed # is) = Some (t, term, events, False)"
| "json_loop te gone pos term events t (ClientGone # is) = json_loop te True pos term events t is"
| "json_loop te gone pos term events t (DrainElapsed # is) =
     (if gone then Some (fst (drain_timeout t), snd (drain_timeout t), events, False)
      else json_loop te gone pos term events t is)"
| "json_loop te gone pos term events t (Relayed ev # is) =
     (let (t, ev) = receive pos ev t; ev = stamped_event t ev; t = t\<lparr>tn_offset := tn_offset t + 1\<rparr>
      in if se_Type ev = EventError \<and> se_Retryable ev
         then json_loop te gone (pos + 1) (TermError True (se_Content ev)) events t is
         else let (t, ev) = apply_usage te ev t; events = events @ [ev]; term = note_terminal ev term
              in if gone then json_loop te gone (pos + 1) term events (status_of_event te ev t) is
                 else if se_Type ev = EventUserInputRequired then Some (suspend te t, term, events, True)
                 else json_loop te gone (pos + 1) term events (keep_native_id te ev (log_event te ev (status_of_event te ev t))) is)"

definition json_end :: "turn_env \<Rightarrow> stream_terminal \<Rightarrow> turn_state \<Rightarrow> turn_state" where
  "json_end te term t =
     (let now = rq_now (te_rq te); i = turn_session t
      in if \<not> has_record t then t
         else let t = (case term of
                  TermError False c \<Rightarrow> on_server (update_record now i (\<lambda>r. r\<lparr>rec_Status := StatusError, rec_Error := c\<rparr>)) t
                | TermResult \<Rightarrow> on_server (update_record now i (\<lambda>r. r\<lparr>rec_Status := StatusCompleted, rec_Error := []\<rparr>)) t
                | _ \<Rightarrow> t)
              in case term of TermError True _ \<Rightarrow> t | _ \<Rightarrow> reconcile_turn te t)"

definition respondJSONRelay :: "turn_env \<Rightarrow> turn_state \<Rightarrow> turn_input list \<Rightarrow> (turn_state \<times> stream_terminal \<times> StreamEvent list \<times> bool) option" where
  "respondJSONRelay te t inputs =
     (case json_loop te False (tn_offset t) NoTerminal [] t inputs of
        None \<Rightarrow> None
      | Some (t, term, events, suspended) \<Rightarrow>
          Some (if suspended then t else json_end te term t, term, events, suspended))"

section \<open>The stream\<close>

definition write_event :: "turn_env \<Rightarrow> int option \<Rightarrow> StreamEvent \<Rightarrow> turn_state \<Rightarrow> turn_state \<times> bool" where
  "write_event te logicalID ev t =
     (case writeSSEWireEventsID (te_ff te) (te_uuid te) ev logicalID of
        Inl _ \<Rightarrow> (t, False) | Inr wire \<Rightarrow> (t\<lparr>tn_wire := tn_wire t @ wire\<rparr>, True))"

definition writeSSEDone :: "turn_state \<Rightarrow> turn_state" where
  "writeSSEDone t = t\<lparr>tn_wire := tn_wire t @ [''data: [DONE]'', []]\<rparr>"

fun terminal_of :: "stream_terminal \<Rightarrow> StreamEvent" where
  "terminal_of (TermError retryable c) = (stream_event EventError)\<lparr>se_Content := c, se_Retryable := retryable\<rparr>"
| "terminal_of _ = stream_event EventResult"

text \<open>The terminal event is written when the agent did not send one.\<close>

definition writeSyntheticTerminal :: "turn_env \<Rightarrow> nat \<Rightarrow> bool \<Rightarrow> stream_terminal \<Rightarrow> turn_state \<Rightarrow> turn_state" where
  "writeSyntheticTerminal te pos written term t =
     (if written \<or> \<not> settles term then t
      else let ev = stamped_event t (terminal_of term);
               (t, ok) = write_event te (Some (int pos)) ev (t\<lparr>tn_offset := pos + 1\<rparr>)
           in if ok then status_of_event te ev t else t)"

text \<open>
  \<open>stop\<close>: the stream ends when the agent asks the user; \<open>pos\<close>: the place of the reader; \<open>written\<close>: a terminal
  event was written; \<open>armed\<close>: the timer after a result is running. The result is the terminal, whether the
  turn is suspended, whether the client was detached, and the inputs left.
\<close>

fun attach_loop :: "turn_env \<Rightarrow> bool \<Rightarrow> nat \<Rightarrow> bool \<Rightarrow> bool \<Rightarrow> bool \<Rightarrow> stream_terminal \<Rightarrow> turn_state \<Rightarrow> turn_input list
    \<Rightarrow> (turn_state \<times> stream_terminal \<times> bool \<times> bool \<times> turn_input list) option" where
  "attach_loop te stop pos written armed susp term t [] = None"
| "attach_loop te stop pos written armed susp term t (Meanwhile f # is) = attach_loop te stop pos written armed susp term (f t) is"
| "attach_loop te stop pos written armed susp term t (ClientGone # is) = Some (t, term, susp, True, is)"
| "attach_loop te stop pos written armed susp term t (Stolen # is) = Some (t, term, susp, True, is)"
| "attach_loop te stop pos written armed susp term t (DrainElapsed # is) =
     (if armed \<and> term = TermResult then Some (t, term, susp, False, is)
      else attach_loop te stop pos written False susp term t is)"
| "attach_loop te stop pos written armed susp term t (SourceClosed # is) =
     (let term = ensureRelayTerminal term (map_option rv_events (le_relay (tn_exec t)))
      in Some (writeSyntheticTerminal te pos written term t, term, susp, False, is))"
| "attach_loop te stop pos written armed susp term t (Relayed ev # is) =
     (let (t, ev) = receive pos ev t; (t, ev) = apply_usage te (stamped_event t ev) t; t = t\<lparr>tn_offset := pos + 1\<rparr>
      in if se_Type ev = EventError \<and> se_Retryable ev
         then attach_loop te stop (pos + 1) written armed susp (TermError True (se_Content ev)) t is
         else let term = note_terminal ev term; susp = (susp \<or> se_Type ev = EventUserInputRequired);
                  (t, ok) = write_event te (Some (int pos)) ev t
              in if \<not> ok then Some (t, term, susp, True, is)
                 else let t = log_event te ev t
                      in if susp \<and> stop then Some (writeSSEDone t, term, True, False, is)
                         else attach_loop te stop (pos + 1) (written \<or> terminal_event ev) (armed \<or> se_Type ev = EventResult) susp term t is)"

text \<open>The subscription is given up at the end, and the timer armed, unless another client has taken over.\<close>

definition leave :: "nat \<Rightarrow> turn_state \<Rightarrow> turn_state" where
  "leave gen t =
     (if snd (clearSubscriber (tn_exec t) gen)
      then set_exec (\<lambda>e. Exec_Registry.armReattachTimer (fst (clearSubscriber e gen))) t else t)"

definition turn_context :: StreamEvent where
  "turn_context = (stream_event EventSystem)\<lparr>se_Content := ''turn context''\<rparr>"

definition attachSSE :: "turn_env \<Rightarrow> nat \<Rightarrow> bool \<Rightarrow> turn_state \<Rightarrow> turn_input list
    \<Rightarrow> (turn_state \<times> stream_terminal \<times> bool \<times> bool \<times> turn_input list) option" where
  "attachSSE te from_pos stop t inputs =
     (let gen = snd (stealSubscriber (tn_exec t)); t = set_exec (\<lambda>e. fst (stealSubscriber e)) t;
          (t, ok) = write_event te None (stamped_event t turn_context) t
      in if \<not> ok then Some (leave gen t, NoTerminal, False, True, inputs)
         else map_option (\<lambda>(t, r). (leave gen t, r)) (attach_loop te stop from_pos False False False NoTerminal t inputs))"

text \<open>A detached turn is watched until it ends or is suspended; the turn's timer is armed while nobody is attached.\<close>

definition detached_end :: "turn_state \<Rightarrow> (stream_terminal \<times> bool) option" where
  "detached_end t =
     (if Registry_Get (ag_registry (tn_server t)) (turn_session t) = None
      then Some (TermError False ''client drain timeout'', False)
      else case Mem_Get (tn_server t) (turn_session t) of
        None \<Rightarrow> None
      | Some p \<Rightarrow>
          (let r = cell (tn_server t) p
           in if rec_Status r = StatusCompleted then Some (TermResult, False)
              else if rec_Status r = StatusError then Some (TermError False (rec_Error r), False)
              else if rec_Status r = StatusSuspended then Some (NoTerminal, True)
              else None))"

fun waitDetached :: "turn_state \<Rightarrow> turn_input list \<Rightarrow> (turn_state \<times> stream_terminal \<times> bool) option" where
  "waitDetached t inputs =
     (let t = (if hasSubscriber (tn_exec t) then t else set_exec Exec_Registry.armReattachTimer t)
      in case detached_end t of
           Some (term, suspended) \<Rightarrow> Some (t, term, suspended)
         | None \<Rightarrow>
             (case inputs of
                [] \<Rightarrow> None
              | Meanwhile f # is \<Rightarrow> waitDetached (f t) is
              | Relayed ev # is \<Rightarrow> waitDetached (set_exec (append_relayed ev) t) is
              | DrainElapsed # is \<Rightarrow> waitDetached (if ex_reattachTimer (tn_exec t) then fst (drain_timeout t) else t) is
              | _ # is \<Rightarrow> waitDetached t is))"

text \<open>The record at the end of a stream; a turn that was cancelled keeps what \<open>cancel\<close> wrote.\<close>

definition stream_end :: "turn_env \<Rightarrow> stream_terminal \<Rightarrow> turn_state \<Rightarrow> turn_state" where
  "stream_end te term t =
     (let now = rq_now (te_rq te); i = turn_session t
      in case Mem_Get (tn_server t) i of
           None \<Rightarrow> t
         | Some p \<Rightarrow>
             (let t = (if rec_Error (cell (tn_server t) p) = turnCancelledError then t
                    else case term of
                      TermError False c \<Rightarrow>
                        on_server (update_record now i (\<lambda>r. r\<lparr>rec_Status := StatusError, rec_Error := (if c \<noteq> [] then c else unknown_error)\<rparr>)) t
                    | TermResult \<Rightarrow> on_server (update_record now i (\<lambda>r. r\<lparr>rec_Status := StatusCompleted, rec_Error := []\<rparr>)) t
                    | _ \<Rightarrow> t)
              in if settles term then reconcile_turn te t else t))"

definition streamSSERelay :: "turn_env \<Rightarrow> bool \<Rightarrow> turn_state \<Rightarrow> turn_input list \<Rightarrow> (turn_state \<times> stream_terminal \<times> bool) option" where
  "streamSSERelay te stop t inputs =
     (case attachSSE te (tn_offset t) stop t inputs of
        None \<Rightarrow> None
      | Some (t, term, suspended, detached, is) \<Rightarrow>
          if detached \<and> \<not> suspended then waitDetached t is else Some (stream_end te term t, term, suspended))"

definition emitClassifiedSSE :: "turn_env \<Rightarrow> string \<Rightarrow> bool \<Rightarrow> turn_state \<Rightarrow> turn_state" where
  "emitClassifiedSSE te content retryable t =
     (let ev = stamped_event t (terminal_of (TermError retryable content)); (t, _) = write_event te None ev t
      in on_server (updateSessionStatusOnTerminal (rq_now (te_rq te)) (turn_session t) ev True content) t)"

section \<open>The attempts of a turn\<close>

text \<open>
  How one attempt goes: whether the agent's session can be created and takes the prompt, what arrives, and
  whether the turn is cancelled while it waits for the next attempt.
\<close>

record attempt =
  at_create :: "(string, nat) result"
  at_stdin :: bool
  at_send :: "string option"
  at_inputs :: "turn_input list"
  at_cancelled :: bool

record turn_request =
  tq_wantSSE :: bool
  tq_record :: nat
  tq_session :: string
  tq_turnID :: string
  tq_correlationID :: string
  tq_prompt :: string
  tq_rawPrompt :: string
  tq_resume :: string
  tq_opts :: agent_options
  tq_saved :: "string list"
  tq_context :: nat
  tq_execID :: nat

text \<open>What the client gets: an error, the events as JSON, or a stream, ended by \<open>[DONE]\<close> or left as it is.\<close>

datatype turn_refusal =
    Refusal refusal | BadContent content_error | BadImage image_error | PromptTooLarge nat int | BadWrap supplement_error

datatype turn_reply = HttpError nat turn_refusal | JsonEvents "StreamEvent list" | StreamDone | LeftOpen

definition sessionOptsWithResume :: "agent_server \<Rightarrow> agent_options \<Rightarrow> string \<Rightarrow> string \<Rightarrow> agent_options" where
  "sessionOptsWithResume s base i older =
     (let resume = (case Mem_Get s i of
            Some p \<Rightarrow> if rec_AgentSessionID (cell s p) \<noteq> [] then rec_AgentSessionID (cell s p) else older
          | None \<Rightarrow> older)
      in if resume \<noteq> [] then base\<lparr>ao_AgentSessionID := resume\<rparr> else base)"

definition closeAttempt :: "string \<Rightarrow> nat option \<Rightarrow> agent_server \<Rightarrow> agent_server" where
  "closeAttempt i sess s = UnregisterActiveSession i (close_session sess s)"

definition finish_turn :: "turn_env \<Rightarrow> turn_request \<Rightarrow> nat option \<Rightarrow> turn_state \<Rightarrow> turn_state" where
  "finish_turn te q sess = on_server (finishActiveExecution (rq_io (te_rq te)) (rq_now (te_rq te)) (tq_session q) sess (tq_saved q))"

definition self_heal_prompt :: "turn_env \<Rightarrow> turn_request \<Rightarrow> agent_server \<Rightarrow> string" where
  "self_heal_prompt te q s =
     (let r = cell s (case Mem_Get s (tq_session q) of Some p \<Rightarrow> p | None \<Rightarrow> tq_record q)
      in case (if rec_SessionDir r = [] then Inr (tq_rawPrompt q)
               else wrapPromptForSelfHeal (open_canonical s (rec_SessionDir r)) (rec_AgentName r) (rec_Model r)
                 (cfg_supplement (te_cfg te)) (tq_rawPrompt q) (te_summarizer te)) of
           Inl _ \<Rightarrow> tq_rawPrompt q | Inr wrapped \<Rightarrow> wrapped)"

definition launch_options :: "turn_env \<Rightarrow> turn_request \<Rightarrow> bool \<Rightarrow> agent_server \<Rightarrow> agent_options" where
  "launch_options te q healFresh s =
     (let opts = sessionOptsWithResume s (tq_opts q) (tq_session q) (if healFresh then [] else tq_resume q)
      in if healFresh then opts\<lparr>ao_Prompt := self_heal_prompt te q s\<rparr> else opts)"

definition new_execution :: "turn_request \<Rightarrow> string \<Rightarrow> nat \<Rightarrow> bool \<Rightarrow> liveExecution" where
  "new_execution q model sess stdin =
     \<lparr>ex_sessionID = tq_session q, ex_turnID = tq_turnID q, ex_status = StatusActive, ex_subCancel = None, ex_subscriberGen = 0,
      ex_reattachTimer = False, ex_cancelled = {}, le_execID = tq_execID q, le_sessionModel = model,
      le_correlationID = tq_correlationID q, le_agentSess = Some sess, le_stdin = stdin,
      le_relay = Some \<lparr>rv_events = [], rv_sourceDone = False\<rparr>\<rparr>"

text \<open>The first attempt registers the execution, a later one gives it the new session, input and relay.\<close>

definition register_turn :: "turn_env \<Rightarrow> turn_request \<Rightarrow> nat \<Rightarrow> bool \<Rightarrow> turn_state \<Rightarrow> turn_state option" where
  "register_turn te q sess stdin t =
     (let i = tq_session q; x = new_execution q (rec_Model (cell (tn_server t) (tq_record q))) sess stdin
      in case Register (ag_registry (tn_server t)) i x of
           (_, Some _) \<Rightarrow> None
         | (reg, None) \<Rightarrow>
             Some (on_server (\<lambda>s. markSessionActive (rq_now (te_rq te)) i (s\<lparr>ag_registry := reg\<rparr>))
               (t\<lparr>tn_exec := x, tn_offset := 0, tn_agg := Some (newTurnUsageAggregator (tq_turnID q))\<rparr>)))"

definition renew_turn :: "nat \<Rightarrow> bool \<Rightarrow> turn_state \<Rightarrow> turn_state" where
  "renew_turn sess stdin t =
     (set_exec (\<lambda>e. e\<lparr>le_agentSess := Some sess, le_stdin := stdin, le_relay := Some \<lparr>rv_events = [], rv_sourceDone = False\<rparr>\<rparr>) t)\<lparr>tn_offset := 0\<rparr>"

definition client_left :: "turn_input list \<Rightarrow> bool" where
  "client_left is \<longleftrightarrow> list_ex (\<lambda>i. case i of ClientGone \<Rightarrow> True | _ \<Rightarrow> False) is"

text \<open>
  How an attempt ends: with the reply, with the reply while the turn waits for the user, or with another
  attempt and the session that \<open>finish\<close> would close.
\<close>

datatype attempt_end = Finished turn_reply | Waiting turn_reply | Again "nat option"

text \<open>What follows a relay that has ended with a terminal.\<close>

definition after_relay :: "turn_env \<Rightarrow> turn_request \<Rightarrow> bool \<Rightarrow> attempt \<Rightarrow> nat \<Rightarrow> stream_terminal \<Rightarrow> StreamEvent list \<Rightarrow> turn_state
    \<Rightarrow> turn_state \<times> attempt_end" where
  "after_relay te q lastAttempt a sess term events t =
     (let now = rq_now (te_rq te); i = tq_session q; sse = tq_wantSSE q
      in case term of
           TermResult \<Rightarrow>
             (let t = finish_turn te q (Some sess) t in if sse then (writeSSEDone t, Finished StreamDone) else (t, Finished (JsonEvents events)))
         | TermError True c \<Rightarrow>
             if \<not> lastAttempt then
               (let t = on_server (\<lambda>s. clearPersistedAgentSessionID now i (closeAttempt i (Some sess) s)) t
                in if at_cancelled a
                   then (let t = finish_turn te q None t
                         in if sse then (writeSSEDone t, Finished StreamDone) else (t, Finished LeftOpen))
                   else (t, Again None))
             else (let overloaded = IsRetryableUpstream c; content = ClassifiedErrorContent c overloaded;
                       ev = terminal_of (TermError False content)
                   in if sse then
                        (let t = finish_turn te q (Some sess) (emitClassifiedSSE te content overloaded t)
                         in if client_left (at_inputs a) then (t, Finished LeftOpen) else (writeSSEDone t, Finished StreamDone))
                      else (finish_turn te q (Some sess) (on_server (updateSessionStatusOnTerminal now i ev True content) t),
                            Finished (JsonEvents (events @ [ev]))))
         | _ \<Rightarrow>
             (let t = finish_turn te q (Some sess) t
              in if \<not> sse then (t, Finished (JsonEvents events))
                 else if client_left (at_inputs a) then (t, Finished LeftOpen) else (writeSSEDone t, Finished StreamDone)))"

text \<open>One attempt; \<open>old\<close> is the session of the attempt before, if it was not given up.\<close>

definition run_attempt :: "turn_env \<Rightarrow> turn_request \<Rightarrow> bool \<Rightarrow> bool \<Rightarrow> bool \<Rightarrow> nat option \<Rightarrow> attempt \<Rightarrow> turn_state
    \<Rightarrow> (turn_state \<times> attempt_end) option" where
  "run_attempt te q lastAttempt healFresh registered old a t =
     (let i = tq_session q; now = rq_now (te_rq te);
          opts = launch_options te q healFresh (tn_server t); t = t\<lparr>tn_launches := tn_launches t @ [opts]\<rparr>
      in case at_create a of
           Inl e \<Rightarrow>
             if \<not> registered then
               Some (on_server (\<lambda>s. UnregisterExecCancel i (s\<lparr>ag_cancelled := ag_cancelled s @ [tq_context q]\<rparr>)) t,
                     Finished (HttpError 500 (Refusal (PlainText e))))
             else if tq_wantSSE q then
               Some (writeSSEDone (finish_turn te q old (emitClassifiedSSE te (ClassifiedErrorContent e False) False t)), Finished StreamDone)
             else Some (finish_turn te q old t, Finished (JsonEvents [terminal_of (TermError False e)]))
         | Inr sess \<Rightarrow>
             (let t = on_server (RegisterActiveSession i sess) t
              in case at_send a of
                   Some e \<Rightarrow>
                     if \<not> registered then Some (finish_turn te q (Some sess) t, Finished (HttpError 500 (Refusal (PlainText e))))
                     else (let t = on_server (closeAttempt i (Some sess)) t
                           in if \<not> lastAttempt then Some (on_server (clearPersistedAgentSessionID now i) t, Again (Some sess))
                              else Some (finish_turn te q (Some sess) t, Finished (HttpError 500 (Refusal (PlainText e)))))
                 | None \<Rightarrow>
                     (case (if registered then Some (renew_turn sess (at_stdin a) t) else register_turn te q sess (at_stdin a) t) of
                        None \<Rightarrow> Some (finish_turn te q (Some sess) t, Finished (HttpError 409 (Refusal (SessionBusy StatusActive))))
                      | Some t \<Rightarrow>
                          if tq_wantSSE q then
                            (case streamSSERelay te True t (at_inputs a) of
                               None \<Rightarrow> None
                             | Some (t, _, True) \<Rightarrow> Some (t, Waiting LeftOpen)
                             | Some (t, term, False) \<Rightarrow> Some (after_relay te q lastAttempt a sess term [] t))
                          else
                            (case respondJSONRelay te t (at_inputs a) of
                               None \<Rightarrow> None
                             | Some (t, _, events, True) \<Rightarrow> Some (t, Waiting (JsonEvents events))
                             | Some (t, term, events, False) \<Rightarrow> Some (after_relay te q lastAttempt a sess term events t)))))"

text \<open>The loop; the attempts left are the fuel, so it ends by itself. The flag: the turn waits for the user.\<close>

fun run_attempts :: "turn_env \<Rightarrow> turn_request \<Rightarrow> nat \<Rightarrow> bool \<Rightarrow> bool \<Rightarrow> nat option \<Rightarrow> turn_state \<Rightarrow> attempt list
    \<Rightarrow> (turn_state \<times> bool \<times> turn_reply) option" where
  "run_attempts te q 0 healFresh registered old t as = None"
| "run_attempts te q (Suc n) healFresh registered old t [] = None"
| "run_attempts te q (Suc n) healFresh registered old t (a # as) =
     (case run_attempt te q (n = 0) healFresh registered old a t of
        None \<Rightarrow> None
      | Some (t, Finished reply) \<Rightarrow> Some (t, False, reply)
      | Some (t, Waiting reply) \<Rightarrow> Some (t, True, reply)
      | Some (t, Again sess) \<Rightarrow> run_attempts te q n True True sess t as)"

definition max_attempts :: "turn_env \<Rightarrow> turn_request \<Rightarrow> turn_state \<Rightarrow> nat" where
  "max_attempts te q t =
     nat (fst (processRetryLimits (fst (te_retry te)) (snd (te_retry te)) (rec_AgentName (cell (tn_server t) (tq_record q)))))"

definition runTurn :: "turn_env \<Rightarrow> turn_request \<Rightarrow> turn_state \<Rightarrow> attempt list \<Rightarrow> (turn_state \<times> bool \<times> turn_reply) option" where
  "runTurn te q t attempts = run_attempts te q (max_attempts te q t) False False None t attempts"

section \<open>Handlers\<close>

record message_request =
  mr_Content :: "InputPart list"
  mr_CorrelationID :: string
  mr_Supplement :: "SupplementStrategy option"

text \<open>What the session's history keeps of a message: the text, and that there was an image.\<close>

definition session_parts :: "InputPart list \<Rightarrow> ContentPart list" where
  "session_parts parts = concat (map (\<lambda>p.
     if ip_Type p = ''text'' then [\<lparr>cp_Type = ''text'', cp_Text = ip_Text p, cp_Image = None\<rparr>]
     else if ip_Type p = ''image'' then
       [\<lparr>cp_Type = ''image'', cp_Text = [], cp_Image =
          Some \<lparr>im_Path = [], im_MediaType = (case ip_Source p of Some src \<Rightarrow> is_MediaType src | None \<Rightarrow> [])\<rparr>\<rparr>]
     else []) parts)"

definition user_message :: "go_time \<Rightarrow> string \<Rightarrow> string \<Rightarrow> InputPart list \<Rightarrow> Message" where
  "user_message now origin content parts =
     (message ''user'' content)\<lparr>m_ContentParts := session_parts parts, m_Timestamp := Some now, m_Origin := origin\<rparr>"

definition append_history :: "io \<Rightarrow> go_time \<Rightarrow> string \<Rightarrow> Message \<Rightarrow> agent_server \<Rightarrow> agent_server" where
  "append_history io now dir msg s =
     (if dir = [] then s
      else s\<lparr>ag_canon := (ag_canon s)(dir := fst (AppendSessionMessage io now (open_canonical s dir) msg))\<rparr>)"

text \<open>The text of a message, with its images saved; the store of temporary files is the server's.\<close>

definition message_prompt :: "image_env \<Rightarrow> string \<Rightarrow> InputPart list \<Rightarrow> agent_server
    \<Rightarrow> agent_server \<times> (image_error, string \<times> string list) result" where
  "message_prompt ie i parts s =
     (if HasNonTextContent parts
      then (let (files, res) = BuildMultimodalPrompt ie i parts (ag_temp s) in (s\<lparr>ag_temp := files\<rparr>, res))
      else (s, Inr (ExtractText parts, [])))"

definition agent_start :: agent_options where
  "agent_start = \<lparr>ao_Model = [], ao_Prompt = [], ao_AllowedTools = [], ao_WorkDir = [], ao_EnvVars = None, ao_AgentSessionID = [],
     ao_SessionDir = [], ao_ConfigDir = [], ao_MaxTurns = 0, ao_ExecutionMode = [], ao_IdleTimeoutSeconds = 0, ao_MaxExecutionSeconds = 0,
     ao_ScannerMaxTokenBytes = 0, ao_MaxToolResultBytes = 0, ao_SandboxMode = [], ao_TernSessionID = [], ao_TurnID = []\<rparr>"

definition message_options :: "AgentConfig \<Rightarrow> SessionRecord \<Rightarrow> string \<Rightarrow> string \<Rightarrow> string \<Rightarrow> agent_options" where
  "message_options ac r i turnID prompt =
     agent_start\<lparr>ao_Model := rec_Model r, ao_Prompt := prompt, ao_WorkDir := rec_WorkDir r,
       ao_ExecutionMode := ExecutionMode ac, ao_IdleTimeoutSeconds := AgentConfig.ac_IdleTimeoutSeconds ac,
       ao_MaxExecutionSeconds := MaxExecutionSeconds ac, ao_SandboxMode := EffectiveSandboxMode (rec_SandboxMode r),
       ao_TernSessionID := i, ao_TurnID := turnID,
       ao_SessionDir := VendorHomeDir (EffectiveStorageRoot r) (rec_AgentName r) (rec_SessionDir r),
       ao_ConfigDir := rec_ConfigDir r,
       ao_ScannerMaxTokenBytes := max 0 (ScannerMaxTokenBytes ac),
       ao_MaxToolResultBytes := max 0 (MaxToolResultBytes ac)\<rparr>"

abbreviation plain :: "nat \<Rightarrow> string \<Rightarrow> turn_reply" where
  "plain code msg \<equiv> HttpError code (Refusal (PlainText msg))"

text \<open>
  A message up to the start of its turn: refused, or a turn is requested. \<open>exec\<close> and \<open>ctx\<close> are the numbers of
  the new execution and of its context, \<open>wantSSE\<close> tells whether the client accepts a stream.
\<close>

definition accept_message ::
  "turn_env \<Rightarrow> image_env \<Rightarrow> bool \<Rightarrow> message_request \<Rightarrow> string \<Rightarrow> nat \<Rightarrow> nat \<Rightarrow> nat \<Rightarrow> agent_server
    \<Rightarrow> agent_server \<times> (turn_reply, turn_request) result" where
  "accept_message te ie wantSSE req i p exec ctx s =
     (case ValidateContentParts (mr_Content req) of
        Some e \<Rightarrow> (s, Inl (HttpError 400 (BadContent e)))
      | None \<Rightarrow>
          (let cfg = te_cfg te; rq = te_rq te; now = rq_now rq; r = cell s p; name = rec_AgentName r; ac = ResolveAgentConfig (cfg_profiles cfg) name;
               s = (if cfg_artifacts cfg
                    then s\<lparr>ag_artifacts := captureTurnSnapshot (session_files_of s) (rq_trees rq) (ag_artifacts s) i (rq_id rq) (rec_WorkDir r)\<rparr>
                    else s)
           in if name \<notin> set (cfg_agents cfg) then (s, Inl (plain 500 ''agent not available''))
              else if HasNonTextContent (mr_Content req) \<and> te_multimodal te name = Some False
              then (s, Inl (plain 501 ''multimodal inputs are not supported by this agent''))
              else case message_prompt ie i (mr_Content req) s of
                (s, Inl e) \<Rightarrow> (s, Inl (HttpError 400 (BadImage e)))
              | (s, Inr (prompt, saved)) \<Rightarrow>
                  if MaxPromptBytes ac < int (length prompt)
                  then (s, Inl (HttpError 413 (PromptTooLarge (length prompt) (MaxPromptBytes ac))))
                  else
                    (let s = append_history (rq_io rq) now (rec_SessionDir r) (user_message now name prompt (mr_Content req)) s
                     in case (if rec_SessionDir r = [] then Inr \<lparr>wr_prompt = prompt, wr_resumeID = rec_AgentSessionID r, wr_injected = False\<rparr>
                              else wrapPromptWithSupplement (open_canonical s (rec_SessionDir r)) name (rec_AgentSessionID r) (rec_Model r)
                                (cfg_supplement cfg) prompt (mr_Supplement req) (te_summarizer te)) of
                          Inl e \<Rightarrow> (s, Inl (HttpError (wrapHTTPStatus (Some e)) (BadWrap e)))
                        | Inr w \<Rightarrow>
                            (RegisterExecCancel i ctx s,
                             Inr \<lparr>tq_wantSSE = wantSSE, tq_record = p, tq_session = i, tq_turnID = rq_id rq,
                               tq_correlationID = mr_CorrelationID req, tq_prompt = wr_prompt w, tq_rawPrompt = prompt,
                               tq_resume = (if rec_AgentSessionID r \<noteq> [] then rec_AgentSessionID r else wr_resumeID w),
                               tq_opts = message_options ac r i (rq_id rq) (wr_prompt w), tq_saved = saved,
                               tq_context = ctx, tq_execID = exec\<rparr>))))"

definition prepare_message ::
  "turn_env \<Rightarrow> image_env \<Rightarrow> string \<Rightarrow> bool \<Rightarrow> (string, message_request) result \<Rightarrow> nat \<Rightarrow> nat \<Rightarrow> agent_server
    \<Rightarrow> agent_server \<times> (turn_reply, turn_request) result" where
  "prepare_message te ie path wantSSE body exec ctx s =
     (let parts = SplitByte (CHR ''/'') (TrimPrefix path ''/api/v1/sessions/''); i = parts ! 0; cfg = te_cfg te; now = rq_now (te_rq te)
      in if length parts < 2 then (s, Inl (plain 400 ''invalid path''))
         else case Mem_Get s i of
           None \<Rightarrow> (s, Inl (plain 404 ''session not found''))
         | Some p \<Rightarrow>
             (let s = applySessionModelDefault cfg now s p
              in case Registry_Get (ag_registry s) i of
                   Some e \<Rightarrow> (s, Inl (HttpError 409 (Refusal (SessionBusy (ex_status e)))))
                 | None \<Rightarrow>
                 (case body of
                    Inl e \<Rightarrow> (s, Inl (plain 400 e))
                  | Inr req \<Rightarrow>
                  (case mr_Supplement req of
                     Some strat \<Rightarrow>
                       if KnownAlgorithm (ss_Algorithm strat) then accept_message te ie wantSSE req i p exec ctx s
                       else (s, Inl (plain 400 (''unknown supplement algorithm: '' @ ss_Algorithm strat)))
                   | None \<Rightarrow> accept_message te ie wantSSE req i p exec ctx s))))"

definition handleSendMessage ::
  "turn_env \<Rightarrow> image_env \<Rightarrow> string \<Rightarrow> bool \<Rightarrow> (string, message_request) result \<Rightarrow> nat \<Rightarrow> nat \<Rightarrow> turn_state \<Rightarrow> attempt list
    \<Rightarrow> (turn_state \<times> bool \<times> turn_reply) option" where
  "handleSendMessage te ie path wantSSE body exec ctx t attempts =
     (case prepare_message te ie path wantSSE body exec ctx (tn_server t) of
        (s, Inl reply) \<Rightarrow> Some (t\<lparr>tn_server := s\<rparr>, False, reply)
      | (s, Inr q) \<Rightarrow> runTurn te q (t\<lparr>tn_server := s\<rparr>) attempts)"

text \<open>
  The answer to a question of the agent. \<open>t\<close> is the state of the session's turn, with the registered
  execution; \<open>stdin\<close>: the error of writing to the agent's input.
\<close>

definition handleRespond ::
  "turn_env \<Rightarrow> string \<Rightarrow> string \<Rightarrow> bool \<Rightarrow> (string, string) result \<Rightarrow> string option \<Rightarrow> turn_state \<Rightarrow> turn_input list
    \<Rightarrow> (turn_state \<times> turn_reply) option" where
  "handleRespond te meth path wantSSE body stdin t inputs =
     (let parts = SplitByte (CHR ''/'') (TrimPrefix path ''/api/v1/sessions/''); i = parts ! 0; now = rq_now (te_rq te); s = tn_server t
      in if meth \<noteq> ''POST'' then Some (t, plain 405 ''method not allowed'')
         else if length parts < 2 \<or> parts ! 1 \<noteq> ''respond'' then Some (t, plain 400 ''invalid path'')
         else case Registry_Get (ag_registry s) i of
           None \<Rightarrow> Some (t, plain 409 ''no active execution'')
         | Some exec \<Rightarrow>
         (case Mem_Get s i of
            None \<Rightarrow> Some (t, plain 404 ''session not found'')
          | Some p \<Rightarrow>
              if rec_Status (cell s p) \<noteq> StatusSuspended \<and> ex_status exec \<noteq> StatusSuspended
              then Some (t, plain 409 ''session is not suspended'')
              else case body of
                Inl e \<Rightarrow> Some (t, plain 400 e)
              | Inr content \<Rightarrow>
                  if content = [] then Some (t, plain 400 ''content is required'')
                  else if \<not> le_stdin exec then Some (t, plain 500 ''stdin not available for this agent'')
                  else case stdin of
                    Some e \<Rightarrow> Some (t, plain 500 e)
                  | None \<Rightarrow>
                      (let s = fst (WS_Update now (write_cell p ((cell s p)\<lparr>rec_Status := StatusActive\<rparr>) s) p);
                           s = s\<lparr>ag_registry := SetStatus (ag_registry s) i StatusActive\<rparr>;
                           t = t\<lparr>tn_server := s, tn_exec := exec\<lparr>ex_status := StatusActive\<rparr>\<rparr>
                       in if \<not> wantSSE then Some (t, plain 406 ''Accept: text/event-stream required'')
                          else case streamSSERelay te False t inputs of
                            None \<Rightarrow> None
                          | Some (t, _, _) \<Rightarrow>
                              Some (writeSSEDone (on_server (finishActiveExecution (rq_io (te_rq te)) now i (le_agentSess (tn_exec t)) []) t),
                                    StreamDone))))"

text \<open>A client that follows a running turn, from the event after the one it names.\<close>

definition handleFollow ::
  "turn_env \<Rightarrow> (string \<Rightarrow> int option) \<Rightarrow> string \<Rightarrow> string \<Rightarrow> bool \<Rightarrow> string \<Rightarrow> string \<Rightarrow> turn_state \<Rightarrow> turn_input list
    \<Rightarrow> (turn_state \<times> turn_reply) option" where
  "handleFollow te atoi meth path wantSSE from_query last_event t inputs =
     (let i = extractPathParam path ''/api/v1/sessions/''; s = tn_server t
      in if meth \<noteq> ''GET'' then Some (t, plain 405 ''method not allowed'')
         else if Mem_Get s i = None then Some (t, plain 404 ''session not found'')
         else if \<not> wantSSE then Some (t, plain 406 ''Accept: text/event-stream required'')
         else case Registry_Get (ag_registry s) i of
           None \<Rightarrow> Some (t, plain 409 ''no active turn'')
         | Some exec \<Rightarrow>
             (let bufLen = (case le_relay exec of Some r \<Rightarrow> length (rv_events r) | None \<Rightarrow> 0)
              in case parseFollowFrom atoi from_query last_event bufLen of
                   Inl e \<Rightarrow> Some (t, plain 400 e)
                 | Inr start \<Rightarrow>
                     (case attachSSE te start True (t\<lparr>tn_exec := exec\<rparr>) inputs of
                        None \<Rightarrow> None
                      | Some (t, term, _, _, _) \<Rightarrow>
                          if term = NoTerminal then Some (t, LeftOpen) else Some (writeSSEDone t, StreamDone))))"

section \<open>What a turn keeps\<close>

text \<open>
  Every effect of a turn keeps the order of the store, the session of the execution and the launches so far;
  so do the steps that run meanwhile, by hypothesis (\<open>sound_inputs\<close>), which the side effect pump satisfies.
\<close>

definition turn_keeps :: "string \<Rightarrow> turn_state \<Rightarrow> turn_state \<Rightarrow> bool" where
  "turn_keeps i t u \<longleftrightarrow> (store_ok (tn_server t) \<and> turn_session t = i \<longrightarrow>
     store_ok (tn_server u) \<and> turn_session u = i \<and> tn_launches u = tn_launches t)"

definition sound_inputs :: "string \<Rightarrow> turn_input list \<Rightarrow> bool" where
  "sound_inputs i is \<longleftrightarrow> (\<forall>f. Meanwhile f \<in> set is \<longrightarrow> (\<forall>t. turn_keeps i t (f t)))"

lemma turn_keeps_refl [intro, simp]: "turn_keeps i t t"
  by (simp add: turn_keeps_def)

lemma turn_keeps_trans: "turn_keeps i t u \<Longrightarrow> turn_keeps i u v \<Longrightarrow> turn_keeps i t v"
  unfolding turn_keeps_def by metis

lemma sound_Cons: "sound_inputs i (x # is) \<longleftrightarrow> (\<forall>f. x = Meanwhile f \<longrightarrow> (\<forall>t. turn_keeps i t (f t))) \<and> sound_inputs i is"
  unfolding sound_inputs_def by auto

lemma keeps_fields:
  "tn_server u = tn_server t \<Longrightarrow> tn_exec u = tn_exec t \<Longrightarrow> tn_launches u = tn_launches t \<Longrightarrow> turn_keeps i t u"
  by (simp add: turn_keeps_def)

lemma keeps_fields_then:
  "turn_keeps i t u \<Longrightarrow> tn_server v = tn_server u \<Longrightarrow> tn_exec v = tn_exec u \<Longrightarrow> tn_launches v = tn_launches u \<Longrightarrow> turn_keeps i t v"
  by (simp add: turn_keeps_def)

lemma keeps_on_server:
  "(\<And>s. store_ok s \<Longrightarrow> turn_session t = i \<Longrightarrow> s = tn_server t \<Longrightarrow> store_ok (f s)) \<Longrightarrow> turn_keeps i t (on_server f t)"
  by (simp add: turn_keeps_def on_server_def)

lemma update_record_ok:
  assumes "store_ok s" "\<And>r. rec_ID (f r) = rec_ID r"
  shows "only_affects i s (update_record now i f s)"
proof (cases "Mem_Get s i")
  case (Some p)
  then have "rec_ID (f (cell s p)) = i" using assms(2) store_okD(2) [OF assms(1)] by simp
  from only_affects_saved [OF assms(1) Some this] show ?thesis by (simp add: update_record_def Some)
qed (simp add: update_record_def only_affects_refl assms(1))

lemma update_record_store: "store_ok s \<Longrightarrow> (\<And>r. rec_ID (f r) = rec_ID r) \<Longrightarrow> store_ok (update_record now i f s)"
  using only_affects_ok update_record_ok by blast

lemma keeps_update: "(\<And>r. rec_ID (f r) = rec_ID r) \<Longrightarrow> turn_keeps i t (on_server (update_record now j f) t)"
  by (rule keeps_on_server) (simp add: update_record_store)

lemma keeps_set_exec: "(\<And>e. ex_sessionID (f e) = ex_sessionID e) \<Longrightarrow> turn_keeps i t (set_exec f t)"
  using only_affects_ok [OF affects_bookkeeping(8)] by (simp add: turn_keeps_def set_exec_def Let_def on_server_def)

lemma is_go_map_SetStatus: "is_go_map r \<Longrightarrow> is_go_map (SetStatus r i st)"
  by (simp add: SetStatus_def split: option.split)

lemma SetStatus_ok: "store_ok s \<Longrightarrow> store_ok (s\<lparr>ag_registry := SetStatus (ag_registry s) i st\<rparr>)"
  by (rule store_ok_records [of _ s]) (simp_all add: records_def store_ok_maps is_go_map_SetStatus)

lemma keeps_persist: "turn_keeps i t (persist_usage te rec t)"
  by (auto simp: persist_usage_def Let_def split: option.splits prod.splits sum.splits
      intro!: keeps_fields turn_keeps_trans [OF _ keeps_update])

lemma keeps_usage: "turn_keeps i t (fst (apply_usage te ev t))"
  by (auto simp: apply_usage_def Let_def split: option.splits prod.splits
      intro!: keeps_fields turn_keeps_trans [OF _ keeps_persist])

lemma keeps_usage_eq: "apply_usage te ev t = (u, ev') \<Longrightarrow> turn_keeps i t u"
  using keeps_usage [of i t te ev] by simp

lemma keeps_artifacts: "turn_keeps i t (on_server (\<lambda>s. s\<lparr>ag_artifacts := ar\<rparr>) t)"
  by (rule keeps_on_server) (blast intro: only_affects_ok affects_bookkeeping(12))

lemma keeps_log: "turn_keeps i t (log_event te ev t)"
proof -
  have "turn_keeps i t (t\<lparr>tn_log := l\<rparr>)" for l by (rule keeps_fields) simp_all
  then show ?thesis
    using turn_keeps_trans [OF _ keeps_artifacts] by (simp add: log_event_def Let_def split: prod.split)
qed

lemma keeps_suspend: "turn_keeps i t (suspend te t)"
  by (simp add: suspend_def Let_def turn_keeps_def on_server_def SetStatus_ok update_record_store)

lemma keeps_native: "turn_keeps i t (keep_native_id te ev t)"
  by (auto simp: keep_native_id_def intro!: keeps_update)

lemma keeps_status: "turn_keeps i t (status_of_event te ev t)"
  unfolding status_of_event_def by (rule keeps_on_server) (blast intro: only_affects_ok affects_status)

lemma keeps_reconcile: "turn_keeps i t (reconcile_turn te t)"
  unfolding reconcile_turn_def by (rule keeps_on_server) (blast intro: only_affects_ok affects_bookkeeping)

lemma keeps_receive: "receive pos ev t = (u, ev') \<Longrightarrow> turn_keeps i t u"
  by (auto simp: receive_def append_relayed_def intro!: keeps_set_exec split: option.splits if_splits)

lemma keeps_if: "turn_keeps i t u \<Longrightarrow> turn_keeps i u v \<Longrightarrow> turn_keeps i t (if b then v else u)" "turn_keeps i t u \<Longrightarrow> turn_keeps i u v \<Longrightarrow> turn_keeps i t (if b then u else v)"
  using turn_keeps_trans by simp_all

lemma keeps_pump: "turn_keeps i t (handleRelaySideEffects te ev t)"
proof -
  obtain u ev' where u: "apply_usage te (stamped_event t ev) t = (u, ev')" by force
  show ?thesis unfolding handleRelaySideEffects_def u Let_def prod.case
    by (rule keeps_if(2), rule turn_keeps_trans [OF _ keeps_native], rule keeps_if(2), rule keeps_if(1), rule keeps_usage_eq [OF u],
        rule keeps_suspend, rule keeps_log, rule keeps_status)
qed

lemma drain_ok: "store_ok s \<Longrightarrow> stopExecOnDrainTimeout j x s = (s', term) \<Longrightarrow> store_ok s'"
  using only_affects_ok [OF affects_drain, of s j x] by simp

lemma keeps_drain: "turn_keeps i t (fst (drain_timeout t))"
proof -
  obtain s tm where d: "stopExecOnDrainTimeout (turn_session t) (le_execID (tn_exec t)) (tn_server t) = (s, tm)" by force
  show ?thesis using drain_ok [OF _ d]
    by (cases tm) (simp_all add: drain_timeout_def d turn_keeps_def stopReattachTimer_def)
qed

lemma keeps_write: "write_event te n ev t = (u, ok) \<Longrightarrow> turn_keeps i t u"
  by (auto simp: write_event_def intro: keeps_fields split: sum.splits)

lemma keeps_done: "turn_keeps i t (writeSSEDone t)"
  by (rule keeps_fields) (simp_all add: writeSSEDone_def)

lemma keeps_synthetic: "turn_keeps i t (writeSyntheticTerminal te pos written term t)"
proof -
  obtain u ok where u: "write_event te (Some (int pos)) (stamped_event t (terminal_of term)) (t\<lparr>tn_offset := Suc pos\<rparr>) = (u, ok)" by force
  have "turn_keeps i t (t\<lparr>tn_offset := Suc pos\<rparr>)" by (rule keeps_fields) simp_all
  from turn_keeps_trans [OF this keeps_write [OF u]] have "turn_keeps i t u" .
  from keeps_if(1) [OF this keeps_status] show ?thesis by (simp add: writeSyntheticTerminal_def u Let_def)
qed

section \<open>The loops\<close>

definition retryable_error :: "StreamEvent \<Rightarrow> bool" where
  "retryable_error ev \<longleftrightarrow> se_Type ev = EventError \<and> se_Retryable ev"

lemma stamped_fields [simp]:
  "se_Type (stamped_event t ev) = se_Type ev" "se_Retryable (stamped_event t ev) = se_Retryable ev" "se_Content (stamped_event t ev) = se_Content ev"
  by (simp_all add: stamped_event_def)

text \<open>What one relayed event does: \<open>read_event\<close> is the state, and the event, once its usage is applied.\<close>

definition passed :: "nat \<Rightarrow> turn_state \<Rightarrow> turn_state" where
  "passed n t = t\<lparr>tn_offset := n\<rparr>"

lemma json_retry:
  assumes "receive pos ev t = (t1, e1)" "retryable_error e1"
  shows "json_loop te gone pos term events t (Relayed ev # is)
    = json_loop te gone (Suc pos) (TermError True (se_Content e1)) events (passed (Suc (tn_offset t1)) t1) is"
  using assms by (simp add: retryable_error_def Let_def passed_def)

lemma json_event:
  assumes "receive pos ev t = (t1, e1)" "\<not> retryable_error e1"
    and "apply_usage te (stamped_event t1 e1) (passed (Suc (tn_offset t1)) t1) = (t2, e2)"
  shows "json_loop te gone pos term events t (Relayed ev # is)
    = (if gone then json_loop te gone (Suc pos) (note_terminal e2 term) (events @ [e2]) (status_of_event te e2 t2) is
       else if se_Type e2 = EventUserInputRequired then Some (suspend te t2, note_terminal e2 term, events @ [e2], True)
       else json_loop te gone (Suc pos) (note_terminal e2 term) (events @ [e2])
         (keep_native_id te e2 (log_event te e2 (status_of_event te e2 t2))) is)"
proof -
  have n: "(se_Type e1 = EventError \<and> se_Retryable e1) = False" using assms(2) by (simp add: retryable_error_def)
  show ?thesis
    by (simp only: json_loop.simps assms(1) Let_def prod.case n if_False stamped_fields assms(3) [unfolded passed_def] passed_def Suc_eq_plus1 [symmetric])
qed

lemma attach_retry:
  assumes "receive pos ev t = (t1, e1)" "apply_usage te (stamped_event t1 e1) t1 = (t2, e2)" "retryable_error e2"
  shows "attach_loop te stop pos written armed susp term t (Relayed ev # is)
    = attach_loop te stop (Suc pos) written armed susp (TermError True (se_Content e2)) (passed (Suc pos) t2) is"
  using assms by (simp add: retryable_error_def Let_def passed_def)

lemma attach_event:
  assumes "receive pos ev t = (t1, e1)" "apply_usage te (stamped_event t1 e1) t1 = (t2, e2)" "\<not> retryable_error e2"
    and "write_event te (Some (int pos)) e2 (passed (Suc pos) t2) = (t3, ok)"
  shows "attach_loop te stop pos written armed susp term t (Relayed ev # is)
    = (if \<not> ok then Some (t3, note_terminal e2 term, susp \<or> se_Type e2 = EventUserInputRequired, True, is)
       else if (susp \<or> se_Type e2 = EventUserInputRequired) \<and> stop
       then Some (writeSSEDone (log_event te e2 t3), note_terminal e2 term, True, False, is)
       else attach_loop te stop (Suc pos) (written \<or> terminal_event e2) (armed \<or> se_Type e2 = EventResult)
         (susp \<or> se_Type e2 = EventUserInputRequired) (note_terminal e2 term) (log_event te e2 t3) is)"
proof -
  have n: "(se_Type e2 = EventError \<and> se_Retryable e2) = False" using assms(3) by (simp add: retryable_error_def)
  show ?thesis
    by (simp only: attach_loop.simps assms(1,2) Let_def prod.case n if_False assms(4) [unfolded passed_def] passed_def Suc_eq_plus1 [symmetric])
qed

lemma keeps_passed: "turn_keeps i t u \<Longrightarrow> turn_keeps i t (passed n u)"
  by (erule keeps_fields_then) (simp_all add: passed_def)

lemma keeps_json_loop:
  "json_loop te gone pos term events t is = Some (u, r) \<Longrightarrow> sound_inputs i is \<Longrightarrow> turn_keeps i t u"
proof (induction "is" arbitrary: gone pos "term" events t)
  case (Cons x "is")
  have snd: "sound_inputs i is" using Cons.prems(2) by (simp add: sound_Cons)
  note IH = Cons.IH [OF _ snd]
  show ?case
  proof (cases x)
    case (Relayed ev)
    obtain t1 e1 where t1: "receive pos ev t = (t1, e1)" by force
    have k1: "turn_keeps i t (passed (Suc (tn_offset t1)) t1)" by (rule keeps_passed [OF keeps_receive [OF t1]])
    show ?thesis
    proof (cases "retryable_error e1")
      case True
      show ?thesis by (rule turn_keeps_trans [OF k1 IH]) (use Cons.prems(1) in \<open>simp add: Relayed json_retry [OF t1 True] del: json_loop.simps\<close>)
    next
      case False
      obtain t2 e2 where t2: "apply_usage te (stamped_event t1 e1) (passed (Suc (tn_offset t1)) t1) = (t2, e2)" by force
      have k2: "turn_keeps i t t2" by (rule turn_keeps_trans [OF k1 keeps_usage_eq [OF t2]])
      note k3 = turn_keeps_trans [OF turn_keeps_trans [OF turn_keeps_trans [OF k2 keeps_status] keeps_log] keeps_native]
      from Cons.prems(1) have "json_loop te gone (Suc pos) (note_terminal e2 term) (events @ [e2]) (status_of_event te e2 t2) is = Some (u, r) \<or>
          u = suspend te t2 \<or> json_loop te gone (Suc pos) (note_terminal e2 term) (events @ [e2])
            (keep_native_id te e2 (log_event te e2 (status_of_event te e2 t2))) is = Some (u, r)"
        unfolding Relayed json_event [OF t1 False t2] by (auto split: if_splits)
      then show ?thesis using turn_keeps_trans [OF turn_keeps_trans [OF k2 keeps_status] IH] turn_keeps_trans [OF k2 keeps_suspend]
          turn_keeps_trans [OF k3 IH] by metis
    qed
  next
    case (Meanwhile f)
    then have "turn_keeps i t (f t)" using Cons.prems(2) by (simp add: sound_Cons)
    then show ?thesis using IH Cons.prems(1) turn_keeps_trans unfolding Meanwhile json_loop.simps by blast
  qed (use Cons.prems(1) IH keeps_drain [of i t] in \<open>auto split: if_splits\<close>)
qed simp

lemma keeps_attach_loop:
  "attach_loop te stop pos written armed susp term t is = Some (u, tm, sus, det, rest) \<Longrightarrow> sound_inputs i is \<Longrightarrow>
   turn_keeps i t u \<and> sound_inputs i rest"
proof (induction "is" arbitrary: pos written armed susp "term" t)
  case (Cons x "is")
  have snd: "sound_inputs i is" using Cons.prems(2) by (simp add: sound_Cons)
  note IH = Cons.IH [OF _ snd]
  show ?case
  proof (cases x)
    case (Relayed ev)
    obtain t1 e1 where t1: "receive pos ev t = (t1, e1)" by force
    obtain t2 e2 where t2: "apply_usage te (stamped_event t1 e1) t1 = (t2, e2)" by force
    have k2: "turn_keeps i t (passed (Suc pos) t2)" by (rule keeps_passed [OF turn_keeps_trans [OF keeps_receive [OF t1] keeps_usage_eq [OF t2]]])
    show ?thesis
    proof (cases "retryable_error e2")
      case True
      from Cons.prems(1) IH show ?thesis
        unfolding Relayed attach_retry [OF t1 t2 True] using turn_keeps_trans [OF k2] by blast
    next
      case False
      obtain t3 ok where t3: "write_event te (Some (int pos)) e2 (passed (Suc pos) t2) = (t3, ok)" by force
      have k3: "turn_keeps i t t3" by (rule turn_keeps_trans [OF k2 keeps_write [OF t3]])
      note k4 = turn_keeps_trans [OF k3 keeps_log]
      have "turn_keeps i t u \<and> sound_inputs i rest"
        if "attach_loop te stop p w a s m (log_event te e2 t3) is = Some (u, tm, sus, det, rest)" for p w a s m
        using IH [OF that] turn_keeps_trans [OF k4] by blast
      then show ?thesis using Cons.prems(1) snd turn_keeps_trans [OF k4 keeps_done] k3
        unfolding Relayed attach_event [OF t1 t2 False t3] by (auto split: if_splits)
    qed
  next
    case (Meanwhile f)
    then have "turn_keeps i t (f t)" using Cons.prems(2) by (simp add: sound_Cons)
    then show ?thesis using IH Cons.prems(1) turn_keeps_trans unfolding Meanwhile attach_loop.simps by blast
  qed (use Cons.prems(1) IH snd keeps_synthetic [of i t] in \<open>auto simp: Let_def split: if_splits\<close>)
qed simp

lemma keeps_leave: "turn_keeps i t (leave gen t)"
  by (auto simp: leave_def clearSubscriber_def Exec_Registry.armReattachTimer_def Let_def intro!: keeps_set_exec)

lemma keeps_attach:
  assumes "attachSSE te pos stop t is = Some (u, tm, sus, det, rest)" "sound_inputs i is"
  shows "turn_keeps i t u \<and> sound_inputs i rest"
proof -
  let ?t = "set_exec (\<lambda>e. fst (stealSubscriber e)) t"
  have k1: "turn_keeps i t ?t" by (rule keeps_set_exec) (simp add: stealSubscriber_def Let_def stopReattachTimer_def split: option.split)
  obtain v ok where v: "write_event te None (stamped_event ?t turn_context) ?t = (v, ok)" by force
  have k2: "turn_keeps i t v" by (rule turn_keeps_trans [OF k1 keeps_write [OF v]])
  show ?thesis
  proof (cases ok)
    case False
    then show ?thesis using assms v turn_keeps_trans [OF k2 keeps_leave] by (auto simp: attachSSE_def Let_def)
  next
    case True
    then obtain w where w: "attach_loop te stop pos False False False NoTerminal v is = Some (w, tm, sus, det, rest)"
        "u = leave (snd (stealSubscriber (tn_exec t))) w"
      using assms(1) v by (auto simp: attachSSE_def Let_def)
    from keeps_attach_loop [OF w(1) assms(2)] show ?thesis
      using turn_keeps_trans [OF turn_keeps_trans [OF k2] keeps_leave] by (auto simp: w(2))
  qed
qed

lemma keeps_detached: "waitDetached t is = Some (u, r) \<Longrightarrow> sound_inputs i is \<Longrightarrow> turn_keeps i t u"
proof (induction "is" arbitrary: t)
  case Nil
  have "turn_keeps i t (if hasSubscriber (tn_exec t) then t else set_exec Exec_Registry.armReattachTimer t)" for t
    by (auto intro!: keeps_set_exec simp: Exec_Registry.armReattachTimer_def)
  then show ?case using Nil by (auto simp: Let_def split: option.splits)
next
  case (Cons x "is")
  let ?t = "if hasSubscriber (tn_exec t) then t else set_exec Exec_Registry.armReattachTimer t"
  have k: "turn_keeps i t ?t" by (auto intro!: keeps_set_exec simp: Exec_Registry.armReattachTimer_def)
  have snd: "sound_inputs i is" using Cons.prems(2) by (simp add: sound_Cons)
  have go: "turn_keeps i t u" if "waitDetached v is = Some (u, r)" "turn_keeps i ?t v" for v
    by (rule turn_keeps_trans [OF turn_keeps_trans [OF k that(2)] Cons.IH [OF that(1) snd]])
  have a: "turn_keeps i ?t (set_exec (append_relayed ev) ?t)" for ev by (rule keeps_set_exec) (simp add: append_relayed_def)
  show ?case
  proof (cases "detached_end ?t")
    case None
    have m: "x = Meanwhile f \<Longrightarrow> turn_keeps i ?t (f ?t)" for f using Cons.prems(2) by (simp add: sound_Cons)
    have d: "turn_keeps i ?t (if b then fst (drain_timeout ?t) else ?t)" for b using keeps_drain by simp
    show ?thesis using Cons.prems(1) go [OF _ turn_keeps_refl] go [OF _ a] go [OF _ m] go [OF _ d]
      unfolding waitDetached.simps [of t] Let_def None option.case by (cases x) (simp_all only: list.case turn_input.case)
  next
    case (Some e)
    then show ?thesis using Cons.prems(1) k unfolding waitDetached.simps [of t] Let_def by (cases e) simp
  qed
qed

lemma keeps_stream_end: "turn_keeps i t (stream_end te term t)"
  by (auto simp: stream_end_def Let_def keeps_reconcile
      intro!: keeps_update turn_keeps_trans [OF _ keeps_reconcile] split: option.split stream_terminal.split bool.split)

lemma keeps_json_end: "turn_keeps i t (json_end te term t)"
  by (auto simp: json_end_def Let_def keeps_reconcile
      intro!: keeps_update turn_keeps_trans [OF _ keeps_reconcile] split: stream_terminal.split bool.split)

lemma keeps_stream:
  assumes "streamSSERelay te stop t is = Some (u, tm, sus)" "sound_inputs i is"
  shows "turn_keeps i t u"
proof -
  obtain v tv s d rest where v: "attachSSE te (tn_offset t) stop t is = Some (v, tv, s, d, rest)"
    using assms(1) by (auto simp: streamSSERelay_def split: option.splits)
  note k = keeps_attach [OF v assms(2)]
  have k1: "turn_keeps i t v" and r: "sound_inputs i rest" using k by simp_all
  show ?thesis
  proof (cases "d \<and> \<not> s")
    case True
    then have "waitDetached v rest = Some (u, tm, sus)" using assms(1) by (simp add: streamSSERelay_def v)
    from turn_keeps_trans [OF k1 keeps_detached [OF this r]] show ?thesis .
  next
    case False
    then have "Some (stream_end te tv v, tv, s) = Some (u, tm, sus)" using assms(1)
      by (simp only: streamSSERelay_def v option.case prod.case if_False)
    then show ?thesis using turn_keeps_trans [OF k1 keeps_stream_end] by auto
  qed
qed

lemma keeps_json:
  assumes "respondJSONRelay te t is = Some (u, tm, evs, sus)" "sound_inputs i is"
  shows "turn_keeps i t u"
proof -
  obtain v where v: "json_loop te False (tn_offset t) NoTerminal [] t is = Some (v, tm, evs, sus)" "u = (if sus then v else json_end te tm v)"
    using assms(1) by (auto simp: respondJSONRelay_def split: option.splits)
  from keeps_json_loop [OF v(1) assms(2)] show ?thesis using turn_keeps_trans [OF _ keeps_json_end] by (simp add: v(2))
qed

section \<open>A turn gives its session back\<close>

definition released :: "string \<Rightarrow> agent_server \<Rightarrow> bool" where
  "released i s \<longleftrightarrow> Registry_Get (ag_registry s) i = None \<and> map_of (ag_active s) i = None \<and> map_of (ag_cancels s) i = None"

text \<open>The next launch finds no native session to resume in the record.\<close>

definition no_native :: "string \<Rightarrow> agent_server \<Rightarrow> bool" where
  "no_native i s \<longleftrightarrow> (case Mem_Get s i of None \<Rightarrow> True | Some p \<Rightarrow> rec_AgentSessionID (cell s p) = [])"

lemma released_finish:
  assumes "store_ok s"
  shows "released i (finishActiveExecution io now i sess saved s)"
proof -
  let ?a = "ingestActiveTurn io now i (update_exec i stopReattachTimer s)"
  have "store_ok ?a" using only_affects_ok affects_then [OF affects_bookkeeping(8) [OF assms] affects_ingest] by blast
  then show ?thesis using store_ok_maps
    by (simp add: released_def finishActiveExecution_def Let_def CleanupMultimodalFiles_def unregister_exec_def UnregisterExecCancel_def
      UnregisterActiveSession_def Registry_Get_def Unregister_def)
qed

lemma tn_fields [simp]:
  "tn_server (on_server f t) = f (tn_server t)" "tn_exec (on_server f t) = tn_exec t" "tn_launches (on_server f t) = tn_launches t"
  "tn_server (writeSSEDone t) = tn_server t" "tn_exec (writeSSEDone t) = tn_exec t" "tn_launches (writeSSEDone t) = tn_launches t"
  by (simp_all add: on_server_def writeSSEDone_def)

lemma finish_released: "store_ok (tn_server t) \<Longrightarrow> released (tq_session q) (tn_server (finish_turn te q sess t))"
  by (simp add: finish_turn_def released_finish)

lemma finish_launches [simp]: "tn_launches (finish_turn te q sess t) = tn_launches t"
  by (simp add: finish_turn_def)

lemma keeps_emit: "turn_keeps i t (emitClassifiedSSE te c b t)"
proof -
  obtain u ok where u: "write_event te None (stamped_event t (terminal_of (TermError b c))) t = (u, ok)" by force
  have "turn_keeps i u (on_server (updateSessionStatusOnTerminal (rq_now (te_rq te)) (turn_session u) (stamped_event t (terminal_of (TermError b c))) True c) u)"
    by (rule keeps_on_server) (blast intro: only_affects_ok affects_status)
  from turn_keeps_trans [OF keeps_write [OF u] this] show ?thesis
    by (simp only: emitClassifiedSSE_def Let_def u prod.case)
qed

lemma emit_kept:
  "store_ok (tn_server t) \<Longrightarrow> store_ok (tn_server (emitClassifiedSSE te c b t)) \<and> tn_launches (emitClassifiedSSE te c b t) = tn_launches t"
  using keeps_emit [of "turn_session t" t] by (simp add: turn_keeps_def)

lemma cleared_no_native:
  assumes "store_ok s"
  shows "no_native i (clearPersistedAgentSessionID now i s) \<and> store_ok (clearPersistedAgentSessionID now i s)"
proof (intro conjI only_affects_ok [OF affects_status(2) [OF assms]])
  show "no_native i (clearPersistedAgentSessionID now i s)"
  proof (cases "Mem_Get s i")
    case (Some p)
    show ?thesis
    proof (cases "rec_AgentSessionID (cell s p) = []")
      case False
      let ?r = "(cell s p)\<lparr>rec_AgentSessionID := []\<rparr>"
      have "rec_ID ?r = i" using store_okD(2) [OF assms Some] by simp
      from saved_stored(3) [OF assms Some this, of now] obtain n where
        "sessions_map (fst (WS_Update now (write_cell p ?r s) p)) i = Some (?r\<lparr>rec_UpdatedAt := n\<rparr>)" by auto
      then show ?thesis using False Some
        by (auto simp: clearPersistedAgentSessionID_def no_native_def sessions_map_def split: option.splits)
    qed (simp add: clearPersistedAgentSessionID_def no_native_def Some)
  qed (simp add: clearPersistedAgentSessionID_def no_native_def)
qed

lemma closed_ok: "store_ok s \<Longrightarrow> store_ok (closeAttempt i sess s)"
  unfolding closeAttempt_def using only_affects_ok affects_bookkeeping(5,6) by blast

text \<open>How an attempt must end: with the session released, waiting, or ready for a fresh attempt.\<close>

definition ends_well :: "turn_request \<Rightarrow> bool \<Rightarrow> turn_state \<Rightarrow> attempt_end \<Rightarrow> bool" where
  "ends_well q lastAttempt t e \<longleftrightarrow> (case e of
     Finished _ \<Rightarrow> released (tq_session q) (tn_server t)
   | Waiting _ \<Rightarrow> True
   | Again _ \<Rightarrow> \<not> lastAttempt \<and> store_ok (tn_server t) \<and> turn_session t = tq_session q \<and> no_native (tq_session q) (tn_server t))"

lemma after_relay_ends:
  assumes "after_relay te q lastAttempt a sess term events t = (t', e)" "store_ok (tn_server t)" "turn_session t = tq_session q"
  shows "tn_launches t' = tn_launches t \<and> ends_well q lastAttempt t' e"
proof -
  let ?s = "clearPersistedAgentSessionID (rq_now (te_rq te)) (tq_session q) (closeAttempt (tq_session q) (Some sess) (tn_server t))"
  have c: "no_native (tq_session q) ?s" "store_ok ?s" using cleared_no_native [OF closed_ok [OF assms(2)]] by simp_all
  have u: "store_ok (updateSessionStatusOnTerminal now i ev b m (tn_server t))" for now i ev b m
    using only_affects_ok affects_status(3) [OF assms(2)] by blast
  note k = finish_released emit_kept [OF assms(2)] assms(2,3) c u
  show ?thesis using assms(1)
    by (cases "term") (auto simp: after_relay_def Let_def ends_well_def k split: bool.splits if_splits)
qed

lemma registering_ok:
  assumes "register_turn te q sess stdin t = Some u" "store_ok (tn_server t)"
  shows "store_ok (tn_server u)" "turn_session u = tq_session q" "tn_launches u = tn_launches t"
proof -
  have "store_ok (s\<lparr>ag_registry := fst (Register (ag_registry s) i x)\<rparr>)" if "store_ok s" for s i x
    using only_affects_ok [OF affects_register [OF that, of i x]] by (simp add: register_exec_def)
  then show "store_ok (tn_server u)" "turn_session u = tq_session q" "tn_launches u = tn_launches t"
    using assms by (auto simp: register_turn_def new_execution_def Let_def split: prod.splits option.splits
      intro!: only_affects_ok [OF affects_status(1)] dest: spec)
      (metis fst_conv)
qed

lemma renewing_ok:
  assumes "store_ok (tn_server t)"
  shows "store_ok (tn_server (renew_turn sess stdin t))" "turn_session (renew_turn sess stdin t) = turn_session t"
    "tn_launches (renew_turn sess stdin t) = tn_launches t"
  using assms only_affects_ok [OF affects_bookkeeping(8)]
  by (simp_all add: renew_turn_def set_exec_def Let_def on_server_def)

text \<open>One attempt launches the agent once, and ends well.\<close>

lemma run_attempt_ends:
  assumes run: "run_attempt te q lastAttempt heal registered old a t = Some (t', e)"
    and ok: "store_ok (tn_server t)" "sound_inputs (tq_session q) (at_inputs a)"
    and reg: "registered \<Longrightarrow> turn_session t = tq_session q"
    and unreg: "\<not> registered \<Longrightarrow> Registry_Get (ag_registry (tn_server t)) (tq_session q) = None \<and> map_of (ag_active (tn_server t)) (tq_session q) = None"
  shows "tn_launches t' = tn_launches t @ [launch_options te q heal (tn_server t)] \<and> ends_well q lastAttempt t' e"
proof -
  let ?i = "tq_session q" and ?L = "tn_launches t @ [launch_options te q heal (tn_server t)]"
  let ?t = "t\<lparr>tn_launches := ?L\<rparr>"
  show ?thesis
  proof (cases "at_create a")
    case (Inl err)
    then show ?thesis using run ok unreg store_ok_maps [OF ok(1)] emit_kept [of ?t] finish_released
      by (auto simp: run_attempt_def Let_def ends_well_def released_def UnregisterExecCancel_def split: if_splits)
  next
    case (Inr sess)
    let ?u = "on_server (RegisterActiveSession ?i sess) ?t"
    have u: "store_ok (tn_server ?u)" using only_affects_ok [OF affects_bookkeeping(4) [OF ok(1)]] by simp
    have cl: "store_ok (closeAttempt ?i (Some sess) (tn_server ?u))" by (rule closed_ok [OF u])
    show ?thesis
    proof (cases "at_send a")
      case (Some err)
      then show ?thesis using run Inr reg u cl cleared_no_native [OF cl] finish_released
        by (auto simp: run_attempt_def Let_def ends_well_def split: if_splits)
    next
      case None
      let ?v = "if registered then Some (renew_turn sess (at_stdin a) ?u) else register_turn te q sess (at_stdin a) ?u"
      show ?thesis
      proof (cases ?v)
        case vN: None
        then show ?thesis using run Inr None u finish_released by (auto simp: run_attempt_def Let_def ends_well_def)
      next
        case (Some v)
        have v: "store_ok (tn_server v)" "turn_session v = ?i" "tn_launches v = ?L"
          using Some registering_ok [OF _ u, of te q sess "at_stdin a" v] renewing_ok [OF u, of sess "at_stdin a"] reg by (auto split: if_splits)
        have after: "tn_launches x = ?L \<and> ends_well q lastAttempt x e"
          if "turn_keeps ?i v w" "after_relay te q lastAttempt a sess tm evs w = (x, e)" for w tm evs x e
          using after_relay_ends [OF that(2)] that(1) v by (simp add: turn_keeps_def)
        have wait: "tn_launches w = ?L \<and> ends_well q lastAttempt w (Waiting r)" if "turn_keeps ?i v w" for w r
          using that v by (simp add: turn_keeps_def ends_well_def)
        note r = run [unfolded run_attempt_def Let_def Inr sum.case None option.case Some]
        show ?thesis
        proof (cases "tq_wantSSE q")
          case True
          obtain w tm sus where w: "streamSSERelay te True v (at_inputs a) = Some (w, tm, sus)"
            using r True by (auto split: option.splits)
          note k = keeps_stream [OF w ok(2)]
          show ?thesis using r True w wait [OF k] after [OF k] by (cases sus) auto
        next
          case False
          obtain w tm evs sus where w: "respondJSONRelay te v (at_inputs a) = Some (w, tm, evs, sus)"
            using r False by (auto split: option.splits)
          note k = keeps_json [OF w ok(2)]
          show ?thesis using r False w wait [OF k] after [OF k] by (cases sus) auto
        qed
      qed
    qed
  qed
qed

lemma fresh_launch:
  "no_native (tq_session q) s \<Longrightarrow> ao_AgentSessionID (launch_options te q True s) = ao_AgentSessionID (tq_opts q)"
  by (auto simp: launch_options_def sessionOptsWithResume_def no_native_def Let_def split: option.splits)

definition starts_clean :: "turn_request \<Rightarrow> turn_state \<Rightarrow> bool" where
  "starts_clean q t \<longleftrightarrow> store_ok (tn_server t) \<and> Registry_Get (ag_registry (tn_server t)) (tq_session q) = None \<and>
     map_of (ag_active (tn_server t)) (tq_session q) = None"

lemma run_attempts_ends:
  assumes "run_attempts te q n heal registered old t as = Some (t', w, reply)" "store_ok (tn_server t)"
    and "\<forall>a \<in> set as. sound_inputs (tq_session q) (at_inputs a)"
    and "registered \<Longrightarrow> turn_session t = tq_session q" "\<not> registered \<Longrightarrow> starts_clean q t"
    and "heal \<Longrightarrow> no_native (tq_session q) (tn_server t)"
  shows "\<exists>L. tn_launches t' = tn_launches t @ L \<and> L \<noteq> [] \<and> length L \<le> n \<and>
    (\<forall>l \<in> set (if heal then L else tl L). ao_AgentSessionID l = ao_AgentSessionID (tq_opts q)) \<and>
    (\<not> w \<longrightarrow> released (tq_session q) (tn_server t'))"
  using assms
proof (induction te q n heal registered old t as rule: run_attempts.induct)
  case (3 te q n heal registered old t a as)
  obtain u e where u: "run_attempt te q (n = 0) heal registered old a t = Some (u, e)" using 3(2) by (auto split: option.splits)
  let ?l = "launch_options te q heal (tn_server t)"
  have k: "tn_launches u = tn_launches t @ [?l]" "ends_well q (n = 0) u e"
    using run_attempt_ends [OF u 3(3)] 3(4-6) by (auto simp: starts_clean_def)
  have l: "heal \<Longrightarrow> ao_AgentSessionID ?l = ao_AgentSessionID (tq_opts q)" using fresh_launch 3(7) by simp
  show ?case
  proof (cases e)
    case (Again sess)
    then have r: "run_attempts te q n True True sess u as = Some (t', w, reply)" using 3(2) u by simp
    have c: "store_ok (tn_server u)" "turn_session u = tq_session q" "no_native (tq_session q) (tn_server u)"
      using k(2) by (simp_all add: Again ends_well_def)
    have "\<exists>L. tn_launches t' = tn_launches u @ L \<and> L \<noteq> [] \<and> length L \<le> n \<and>
        (\<forall>l \<in> set (if True then L else tl L). ao_AgentSessionID l = ao_AgentSessionID (tq_opts q)) \<and>
        (\<not> w \<longrightarrow> released (tq_session q) (tn_server t'))"
      using 3(4) by (intro 3(1) [OF u refl Again r c(1) _ c(2) _ c(3)]) simp_all
    then obtain L where "tn_launches t' = tn_launches u @ L" "length L \<le> n"
        "\<forall>l \<in> set L. ao_AgentSessionID l = ao_AgentSessionID (tq_opts q)" "\<not> w \<longrightarrow> released (tq_session q) (tn_server t')" by auto
    then show ?thesis using l by (intro exI [of _ "?l # L"]) (simp add: k(1))
  qed (use 3(2) u k l in \<open>auto simp: ends_well_def\<close>)
qed auto

text \<open>
  C4. However a turn goes, whatever the handlers of other sessions and the side effect pump do meanwhile, and
  whether it ends with a result, an error, exhausted retries or a client that has left: unless it waits for an
  answer of the user, it leaves no execution, no agent session and no cancel function of its session behind,
  so that the next message is not refused as busy.
\<close>

theorem turn_releases_session:
  assumes "runTurn te q t attempts = Some (t', False, reply)" "starts_clean q t"
    and "\<forall>a \<in> set attempts. sound_inputs (tq_session q) (at_inputs a)"
  shows "Registry_Get (ag_registry (tn_server t')) (tq_session q) = None \<and> map_of (ag_active (tn_server t')) (tq_session q) = None \<and>
    map_of (ag_cancels (tn_server t')) (tq_session q) = None"
  using run_attempts_ends [OF assms(1) [unfolded runTurn_def] _ assms(3)] assms(2) by (auto simp: starts_clean_def released_def)


section \<open>Admission of a message\<close>

lemma runtime_model_default: "runtime (applySessionModelDefault cfg now s p) = runtime s"
  by (simp add: applySessionModelDefault_def Let_def)

lemma wrapped_suffix: "wrapPromptWithSupplement c agent sid model server p turn llm = Inr w \<Longrightarrow> \<exists>pre. wr_prompt w = pre @ p"
  by (auto simp: wrapPromptWithSupplement_def Let_def bind_res_Inr_iff WrapPrompt_suffix split: if_splits sum.splits prod.splits)

definition registries where "registries s = (ag_registry s, ag_active s)"

lemma message_prompt_frame:
  "message_prompt ie i parts s = (u, r) \<Longrightarrow> registries u = registries s \<and> ag_cancels u = ag_cancels s"
  by (auto simp: message_prompt_def registries_def split: if_splits prod.splits)

lemma accept_message_frame:
  assumes "accept_message te ie wantSSE req i p exec ctx s = (u, res)"
  shows "registries u = registries s \<and> (case res of Inl _ \<Rightarrow> ag_cancels u = ag_cancels s
    | Inr q \<Rightarrow> ag_cancels u = massign i ctx (ag_cancels s) \<and> ValidateContentParts (mr_Content req) = None \<and> tq_session q = i \<and>
        int (length (tq_rawPrompt q)) \<le> MaxPromptBytes (ResolveAgentConfig (cfg_profiles (te_cfg te)) (rec_AgentName (cell s p))) \<and>
        (\<exists>pre. tq_prompt q = pre @ tq_rawPrompt q))"
proof (cases "ValidateContentParts (mr_Content req)")
  case (Some e)
  then show ?thesis using assms by (auto simp: accept_message_def)
next
  case None
  let ?r = "cell s p" and ?ac = "ResolveAgentConfig (cfg_profiles (te_cfg te)) (rec_AgentName (cell s p))"
  let ?s = "if cfg_artifacts (te_cfg te)
     then s\<lparr>ag_artifacts := captureTurnSnapshot (session_files_of s) (rq_trees (te_rq te)) (ag_artifacts s) i (rq_id (te_rq te)) (rec_WorkDir ?r)\<rparr> else s"
  have f: "registries ?s = registries s" "ag_cancels ?s = ag_cancels s" by (simp_all add: registries_def)
  obtain v m where v: "message_prompt ie i (mr_Content req) ?s = (v, m)" by force
  note fv = message_prompt_frame [OF v]
  show ?thesis
  proof (cases m)
    case (Inl e)
    then show ?thesis using assms None v fv f by (auto simp: accept_message_def Let_def split: if_splits)
  next
    case (Inr pr)
    obtain prompt saved where pr: "pr = (prompt, saved)" by force
    let ?h = "append_history (rq_io (te_rq te)) (rq_now (te_rq te)) (rec_SessionDir ?r) (user_message (rq_now (te_rq te)) (rec_AgentName ?r) prompt (mr_Content req)) v"
    have h: "registries ?h = registries v" "ag_cancels ?h = ag_cancels v" by (simp_all add: append_history_def registries_def)
    let ?w = "if rec_SessionDir ?r = [] then Inr \<lparr>wr_prompt = prompt, wr_resumeID = rec_AgentSessionID ?r, wr_injected = False\<rparr>
      else wrapPromptWithSupplement (open_canonical ?h (rec_SessionDir ?r)) (rec_AgentName ?r) (rec_AgentSessionID ?r) (rec_Model ?r)
        (cfg_supplement (te_cfg te)) prompt (mr_Supplement req) (te_summarizer te)"
    have w: "\<exists>pre. wr_prompt x = pre @ prompt" if "?w = Inr x" for x
      using that wrapped_suffix by (auto split: if_splits)
    obtain W where W: "?w = W" by blast
    note run = assms [unfolded accept_message_def None option.case Let_def v prod.case Inr pr sum.case W]
    have fu: "registries ?h = registries s" "ag_cancels ?h = ag_cancels s" "registries v = registries s" "ag_cancels v = ag_cancels s"
      using fv f h by simp_all
    have "(\<exists>e. res = Inl e) \<and> (u = ?s \<or> u = v \<or> u = ?h) \<or> (\<exists>x. W = Inr x \<and> u = RegisterExecCancel i ctx ?h \<and>
        \<not> MaxPromptBytes ?ac < int (length prompt) \<and>
        (\<exists>q. res = Inr q \<and> tq_session q = i \<and> tq_prompt q = wr_prompt x \<and> tq_rawPrompt q = prompt))"
      using run by (cases W) (auto split: if_split_asm)
    then consider "(\<exists>e. res = Inl e) \<and> (u = ?s \<or> u = v \<or> u = ?h)" | x where "W = Inr x" "u = RegisterExecCancel i ctx ?h"
        "\<not> MaxPromptBytes ?ac < int (length prompt)" "\<exists>q. res = Inr q \<and> tq_session q = i \<and> tq_prompt q = wr_prompt x \<and> tq_rawPrompt q = prompt"
      by blast
    then show ?thesis
    proof cases
      case 1
      then show ?thesis using f fu by (elim conjE exE disjE) simp_all
    next
      case (2 x)
      then obtain q where "res = Inr q" "tq_session q = i" "tq_prompt q = wr_prompt x" "tq_rawPrompt q = prompt" by auto
      then show ?thesis using fu w [of x] W 2(1,3) None
        by (simp add: 2(2) RegisterExecCancel_def registries_def)
    qed
  qed
qed


section \<open>What the client receives\<close>

text \<open>An event but for its usage, which the last event of a turn gains on the way.\<close>

definition core :: "StreamEvent \<Rightarrow> StreamEvent" where
  "core ev = ev\<lparr>se_Usage := None\<rparr>"

definition stamp :: "liveExecution \<Rightarrow> StreamEvent \<Rightarrow> StreamEvent" where
  "stamp x ev = ev\<lparr>se_TurnID := ex_turnID x, se_CorrelationID := le_correlationID x\<rparr>"

lemma stamped_stamp: "stamped_event t ev = stamp (tn_exec t) ev"
  by (simp add: stamped_event_def stamp_def)

lemma core_types: "core a = core b \<Longrightarrow> se_Type a = se_Type b \<and> se_Content a = se_Content b \<and> se_Retryable a = se_Retryable b"
  unfolding core_def by (cases a; cases b) simp

lemma core_same:
  assumes "core a = core b"
  shows "note_terminal a tm = note_terminal b tm" "retryable_error a = retryable_error b" "terminal_event a = terminal_event b"
  using core_types [OF assms] by (simp_all add: note_terminal_def retryable_error_def terminal_event_def)

lemma stamp_fields [simp]:
  "se_Type (stamp x ev) = se_Type ev" "se_Content (stamp x ev) = se_Content ev" "se_Retryable (stamp x ev) = se_Retryable ev"
  by (simp_all add: stamp_def)

lemma note_stamp [simp]: "note_terminal (stamp x ev) tm = note_terminal ev tm" "retryable_error (stamp x ev) = retryable_error ev"
    "terminal_event (stamp x ev) = terminal_event ev"
  by (simp_all add: note_terminal_def retryable_error_def terminal_event_def)

definition same_stream :: "turn_state \<Rightarrow> turn_state \<Rightarrow> bool" where
  "same_stream t u \<longleftrightarrow> tn_exec u = tn_exec t \<and> tn_wire u = tn_wire t"

lemma same_stream_update: "same_stream t u \<Longrightarrow> same_stream t (on_server f u)"
  by (simp add: same_stream_def on_server_def)

lemma same_stream_persist: "same_stream t u \<Longrightarrow> same_stream t (persist_usage te rec u)"
  by (simp add: persist_usage_def same_stream_def on_server_def Let_def split: option.split prod.split sum.split)

lemma usage_stream:
  assumes "apply_usage te ev t = (u, e)"
  shows "same_stream t u" "core e = core ev" "se_Type ev = EventToolResult \<Longrightarrow> e = ev"
proof -
  have p: "same_stream t (persist_usage te rec v)" if "same_stream t v" for v rec by (rule same_stream_persist [OF that])
  show "same_stream t u" "core e = core ev" using assms
    by (auto simp: apply_usage_def Let_def core_def split: if_splits option.splits prod.splits intro!: p)
      (simp_all add: same_stream_def)
  show "e = ev" if "se_Type ev = EventToolResult" using assms that by (simp add: apply_usage_def Let_def terminal_event_def)
qed

lemma log_stream: "same_stream t u \<Longrightarrow> same_stream t (log_event te ev u)"
  by (simp add: log_event_def Let_def same_stream_def on_server_def split: prod.split)

lemma status_stream: "same_stream t u \<Longrightarrow> same_stream t (status_of_event te ev u)"
  by (simp add: status_of_event_def same_stream_def on_server_def)

lemma native_stream: "same_stream t u \<Longrightarrow> same_stream t (keep_native_id te ev u)"
  by (simp add: keep_native_id_def same_stream_def on_server_def)

lemma passed_stream: "same_stream t u \<Longrightarrow> same_stream t (passed n u)"
  by (simp add: passed_def same_stream_def)

text \<open>A reader at the end of the buffer receives what is appended to it.\<close>

definition buffered :: "turn_state \<Rightarrow> StreamEvent list option" where
  "buffered t = map_option rv_events (le_relay (tn_exec t))"

definition ids :: "turn_state \<Rightarrow> string \<times> string \<times> string" where
  "ids t = (ex_sessionID (tn_exec t), ex_turnID (tn_exec t), le_correlationID (tn_exec t))"

lemma receive_appends:
  assumes "buffered t = Some es" "pos = length es" "receive pos ev t = (u, e)"
  shows "e = ev" "buffered u = Some (es @ [ev])" "ids u = ids t" "tn_wire u = tn_wire t"
  using assms by (auto simp: receive_def buffered_def ids_def set_exec_def append_relayed_def Let_def on_server_def split: option.splits if_splits)

lemma stamp_ids: "ids u = ids t \<Longrightarrow> stamp (tn_exec u) ev = stamp (tn_exec t) ev"
  by (simp add: ids_def stamp_def)

lemma stream_kept: "same_stream t u \<Longrightarrow> buffered u = buffered t \<and> ids u = ids t \<and> tn_wire u = tn_wire t"
  by (simp add: same_stream_def buffered_def ids_def)

text \<open>What a list of events says about the end.\<close>

definition verdict :: "stream_terminal \<Rightarrow> StreamEvent list \<Rightarrow> stream_terminal" where
  "verdict tm es = foldl (\<lambda>tm ev. note_terminal ev tm) tm es"

lemma verdict_simps [simp]: "verdict tm [] = tm" "verdict tm (e # es) = verdict (note_terminal e tm) es"
  by (simp_all add: verdict_def)

lemma retry_noted: "retryable_error ev \<Longrightarrow> note_terminal ev tm = TermError True (se_Content ev)"
  by (simp add: retryable_error_def note_terminal_def)

lemma json_reads:
  assumes "buffered t = Some buf" "pos = length buf" "\<forall>ev \<in> set es. se_Type ev \<noteq> EventUserInputRequired"
  shows "\<exists>u out. json_loop te False pos tm evs t (map Relayed es @ SourceClosed # rest) = Some (u, verdict tm es, evs @ out, False) \<and>
    map core out = map (core \<circ> stamp (tn_exec t)) (filter (\<lambda>ev. \<not> retryable_error ev) es) \<and> ids u = ids t"
  using assms
proof (induction es arbitrary: t pos tm evs buf)
  case (Cons ev es)
  obtain t1 e1 where r: "receive pos ev t = (t1, e1)" by force
  note a = receive_appends [OF Cons.prems(1,2) r]
  have es: "\<forall>ev \<in> set es. se_Type ev \<noteq> EventUserInputRequired" using Cons.prems(3) by simp
  note IH = Cons.IH [OF _ _ es, where buf = "buf @ [ev]" and pos = "Suc pos"]
  have len: "Suc pos = length (buf @ [ev])" using Cons.prems(2) by simp
  have p: "same_stream t1 (passed (Suc (tn_offset t1)) t1)" by (rule passed_stream) (simp add: same_stream_def)
  show ?case
  proof (cases "retryable_error e1")
    case True
    let ?u = "passed (Suc (tn_offset t1)) t1"
    have k: "buffered ?u = Some (buf @ [ev])" "ids ?u = ids t" using stream_kept [OF p] a by simp_all
    from IH [OF k(1) len, of "TermError True (se_Content e1)" evs] show ?thesis
      using True a(1) stamp_ids [OF k(2)] k(2) by (simp add: json_retry [OF r True] retry_noted del: json_loop.simps)
  next
    case False
    obtain t2 e2 where t2: "apply_usage te (stamped_event t1 e1) (passed (Suc (tn_offset t1)) t1) = (t2, e2)" by force
    let ?u = "keep_native_id te e2 (log_event te e2 (status_of_event te e2 t2))"
    have c: "core e2 = core (stamp (tn_exec t) ev)" using usage_stream(2) [OF t2] a(1) stamp_ids [OF a(3)] by (simp add: stamped_stamp)
    have k: "buffered t2 = Some (buf @ [ev])" "ids t2 = ids t" using stream_kept [OF usage_stream(1) [OF t2]] stream_kept [OF p] a by simp_all
    have "same_stream t2 ?u" by (intro native_stream log_stream status_stream) (simp add: same_stream_def)
    then have u: "buffered ?u = Some (buf @ [ev])" "ids ?u = ids t" using stream_kept k by simp_all
    have n: "se_Type e2 \<noteq> EventUserInputRequired" using core_types [OF c] Cons.prems(3) by simp
    obtain v out where v: "json_loop te False (Suc pos) (note_terminal e2 tm) (evs @ [e2]) ?u (map Relayed es @ SourceClosed # rest)
        = Some (v, verdict (note_terminal e2 tm) es, (evs @ [e2]) @ out, False)"
      "map core out = map (core \<circ> stamp (tn_exec ?u)) (filter (\<lambda>ev. \<not> retryable_error ev) es)" "ids v = ids ?u"
      using IH [OF u(1) len, of "note_terminal e2 tm" "evs @ [e2]"] by blast
    have s: "stamp (tn_exec ?u) = stamp (tn_exec t)" using stamp_ids [OF u(2)] by (simp add: fun_eq_iff)
    have "json_loop te False pos tm evs t (map Relayed (ev # es) @ SourceClosed # rest)
        = json_loop te False (Suc pos) (note_terminal e2 tm) (evs @ [e2]) ?u (map Relayed es @ SourceClosed # rest)"
      using n by (simp only: list.map append.simps json_event [OF r False t2] if_False)
    then show ?thesis using v False a(1) c core_same(1) [OF c] u(2) unfolding s
      by (intro exI [of _ v] exI [of _ "e2 # out"]) simp
  qed
qed (simp add: exI)

lemma sound_relayed: "sound_inputs i (map Relayed es @ SourceClosed # rest) \<longleftrightarrow> sound_inputs i rest"
  by (auto simp: sound_inputs_def)

definition ended_as :: "stream_terminal \<Rightarrow> SessionRecord \<Rightarrow> bool" where
  "ended_as term r \<longleftrightarrow> (case term of
     TermResult \<Rightarrow> rec_Status r = StatusCompleted \<and> rec_Error r = []
   | TermError False c \<Rightarrow> rec_Status r = StatusError \<and> rec_Error r = c
   | _ \<Rightarrow> True)"

lemma updated_record:
  assumes "store_ok s" "\<And>r. rec_ID (f r) = rec_ID r" "sessions_map (update_record now i f s) i = Some r"
  shows "\<exists>r0 n. r = (f r0)\<lparr>rec_UpdatedAt := n\<rparr>"
proof (cases "Mem_Get s i")
  case (Some p)
  have "rec_ID (f (cell s p)) = i" using assms(2) store_okD(2) [OF assms(1) Some] by simp
  from saved_stored(3) [OF assms(1) Some this, of now] obtain n where
    "sessions_map (update_record now i f s) i = Some ((f (cell s p))\<lparr>rec_UpdatedAt := n\<rparr>)" by (auto simp: update_record_def Some)
  then show ?thesis using assms(3) by auto
qed (use assms(3) in \<open>simp add: update_record_def sessions_map_def\<close>)

lemma reconciled_map: "sessions_map (reconcile_artifacts cfg rq s i a b) = sessions_map s"
  by (rule records_same) simp

lemma json_end_record:
  assumes "store_ok (tn_server t)" "sessions_map (tn_server (json_end te term t)) (turn_session t) = Some r"
  shows "ended_as term r"
proof -
  let ?i = "turn_session t"
  have g: "\<exists>r0 n. r = (f r0)\<lparr>rec_UpdatedAt := n\<rparr>"
    if "sessions_map (tn_server (reconcile_turn te (on_server (update_record now ?i f) t))) ?i = Some r" "\<And>r. rec_ID (f r) = rec_ID r" for f now
    using that by (intro updated_record [OF assms(1), of f now ?i]) (simp_all add: reconcile_turn_def reconciled_map)
  have h: "has_record t" if "term = TermResult \<or> (\<exists>c. term = TermError False c)"
    using assms(2) that by (auto simp: json_end_def Let_def has_record_def sessions_map_def split: if_splits)
  show ?thesis
  proof (cases "term")
    case TermResult
    then show ?thesis using g [where now = "rq_now (te_rq te)" and f = "\<lambda>r. r\<lparr>rec_Status := StatusCompleted, rec_Error := []\<rparr>"] assms(2) h
      by (auto simp: json_end_def Let_def ended_as_def)
  next
    case (TermError b c)
    then show ?thesis using g [where now = "rq_now (te_rq te)" and f = "\<lambda>r. r\<lparr>rec_Status := StatusError, rec_Error := c\<rparr>"] assms(2) h
      by (cases b) (auto simp: json_end_def Let_def ended_as_def)
  qed (simp add: ended_as_def)
qed


section \<open>The stream on the wire\<close>

definition frame :: "turn_env \<Rightarrow> int option \<Rightarrow> StreamEvent \<Rightarrow> string list" where
  "frame te n ev = (case writeSSEWireEventsID (te_ff te) (te_uuid te) ev n of Inl _ \<Rightarrow> [] | Inr wire \<Rightarrow> wire)"

text \<open>The frames of a list of events, numbered from \<open>n\<close>; a retryable error takes a number but no frame.\<close>

fun frames :: "turn_env \<Rightarrow> nat \<Rightarrow> StreamEvent list \<Rightarrow> string list" where
  "frames te n [] = []"
| "frames te n (ev # evs) = (if retryable_error ev then [] else frame te (Some (int n)) ev) @ frames te (Suc n) evs"

definition writable :: "turn_env \<Rightarrow> StreamEvent \<Rightarrow> bool" where
  "writable te ev \<longleftrightarrow> se_Type ev = EventToolResult \<longrightarrow>
     (case SplitStreamEventForSSE (te_ff te) (te_uuid te) ev DefaultMaxSSEDataLineBytes of Inl _ \<Rightarrow> False | Inr _ \<Rightarrow> True)"

lemma written:
  assumes "writable te ev"
  shows "write_event te n ev t = (t\<lparr>tn_wire := tn_wire t @ frame te n ev\<rparr>, True)"
proof -
  have "\<exists>es. SplitStreamEventForSSE (te_ff te) (te_uuid te) ev DefaultMaxSSEDataLineBytes = Inr es"
    using assms by (auto simp: writable_def SplitStreamEventForSSE_def split: sum.splits)
  then show ?thesis by (auto simp: write_event_def frame_def writeSSEWireEventsID_def)
qed

text \<open>The end of a stream whose source has ended: the terminal event is written if none was.\<close>

definition closing :: "turn_env \<Rightarrow> liveExecution \<Rightarrow> nat \<Rightarrow> bool \<Rightarrow> stream_terminal \<Rightarrow> string list" where
  "closing te x n written term = (if written \<or> \<not> settles term then [] else frame te (Some (int n)) (stamp x (terminal_of term)))"

lemma terminal_writable: "writable te (stamp x (terminal_of term))"
proof -
  have "se_Type (terminal_of term) \<in> {EventError, EventResult}" by (cases "term" rule: terminal_of.cases) (simp_all add: stream_event_def)
  then show ?thesis by (auto simp: writable_def)
qed

lemma synthetic_wire:
  "tn_wire (writeSyntheticTerminal te n written term t) = tn_wire t @ closing te (tn_exec t) n written term"
  using written [OF terminal_writable]
  by (simp add: writeSyntheticTerminal_def closing_def Let_def stamped_stamp status_of_event_def on_server_def del: terminal_of.simps)

lemma stream_reads:
  assumes "buffered t = Some buf" "pos = length buf" "\<forall>ev \<in> set es. se_Type ev \<noteq> EventUserInputRequired \<and> writable te (stamp (tn_exec t) ev)"
  shows "\<exists>u out. let term = ensureRelayTerminal (verdict tm es) (Some (buf @ es))
    in attach_loop te stop pos w armed False tm t (map Relayed es @ SourceClosed # rest) = Some (u, term, False, False, rest) \<and>
       map core out = map (core \<circ> stamp (tn_exec t)) es \<and>
       tn_wire u = tn_wire t @ frames te pos out @ closing te (tn_exec t) (pos + length es) (w \<or> list_ex terminal_event es) term"
  using assms
proof (induction es arbitrary: t pos tm buf w armed)
  case Nil
  have b: "map_option rv_events (le_relay (tn_exec t)) = Some buf" using Nil(1) by (simp add: buffered_def)
  show ?case by (simp add: Let_def b synthetic_wire)
next
  case (Cons ev es)
  obtain t1 e1 where r: "receive pos ev t = (t1, e1)" by force
  note a = receive_appends [OF Cons.prems(1,2) r]
  have len: "Suc pos = length (buf @ [ev])" using Cons.prems(2) by simp
  obtain t2 e2 where t2: "apply_usage te (stamped_event t1 e1) t1 = (t2, e2)" by force
  note us = usage_stream [OF t2]
  have c: "core e2 = core (stamp (tn_exec t) ev)" using us(2) a(1) stamp_ids [OF a(3)] by (simp add: stamped_stamp)
  have k: "buffered t2 = Some (buf @ [ev])" "ids t2 = ids t" "tn_wire t2 = tn_wire t" using stream_kept [OF us(1)] a by simp_all
  let ?p = "passed (Suc pos) t2"
  have p: "same_stream t2 ?p" by (rule passed_stream) (simp add: same_stream_def)
  note IH = Cons.IH [unfolded Let_def, where buf = "buf @ [ev]" and pos = "Suc pos", OF _ len]
  show ?case
  proof (cases "retryable_error e2")
    case True
    have e: "retryable_error ev" "note_terminal ev tm = TermError True (se_Content e2)"
      using True core_same [OF c] core_types [OF c] retry_noted by simp_all
    have kp: "buffered ?p = Some (buf @ [ev])" "ids ?p = ids t" "tn_wire ?p = tn_wire t" using stream_kept [OF p] k by simp_all
    have s: "stamp (tn_exec ?p) = stamp (tn_exec t)" using stamp_ids [OF kp(2)] by (simp add: fun_eq_iff)
    have nt: "\<not> terminal_event ev" using e(1) by (simp add: retryable_error_def terminal_event_def)
    from IH [OF kp(1), where tm = "TermError True (se_Content e2)" and w = w and armed = armed] Cons.prems(3) obtain u out where
      u: "attach_loop te stop (Suc pos) w armed False (TermError True (se_Content e2)) ?p (map Relayed es @ SourceClosed # rest)
          = Some (u, ensureRelayTerminal (verdict tm (ev # es)) (Some (buf @ ev # es)), False, False, rest)"
        "map core out = map (core \<circ> stamp (tn_exec t)) es"
        "tn_wire u = tn_wire t @ frames te (Suc pos) out @ closing te (tn_exec ?p) (Suc pos + length es) (w \<or> list_ex terminal_event es)
          (ensureRelayTerminal (verdict tm (ev # es)) (Some (buf @ ev # es)))"
      unfolding s by (auto simp: e(2) kp(3))
    have cl: "closing te (tn_exec ?p) n b x = closing te (tn_exec t) n b x" for n b x by (simp add: closing_def s)
    show ?thesis unfolding Let_def using u c True nt
      by (intro exI [of _ u] exI [of _ "e2 # out"])
        (simp add: attach_retry [OF r t2 True] cl del: attach_loop.simps verdict_simps(2))
  next
    case False
    have wr: "writable te e2"
    proof (cases "se_Type e2 = EventToolResult")
      case True
      then have "e2 = stamp (tn_exec t) ev" using us(3) core_types [OF c] a(1) stamp_ids [OF a(3)] us(2) core_types [OF us(2)] by (simp add: stamped_stamp)
      then show ?thesis using Cons.prems(3) by simp
    qed (simp add: writable_def)
    note t3 = written [OF wr, of "Some (int pos)" ?p]
    let ?q = "?p\<lparr>tn_wire := tn_wire ?p @ frame te (Some (int pos)) e2\<rparr>"
    let ?u = "log_event te e2 ?q"
    have lu: "same_stream ?q ?u" by (rule log_stream) (simp add: same_stream_def)
    have kq: "buffered ?q = Some (buf @ [ev])" "ids ?q = ids t" "tn_wire ?q = tn_wire t @ frame te (Some (int pos)) e2"
      using stream_kept [OF p] k by (simp_all add: buffered_def ids_def)
    have ku: "buffered ?u = Some (buf @ [ev])" "ids ?u = ids t" "tn_wire ?u = tn_wire t @ frame te (Some (int pos)) e2"
      using stream_kept [OF lu] kq by simp_all
    have s: "stamp (tn_exec ?u) = stamp (tn_exec t)" using stamp_ids [OF ku(2)] by (simp add: fun_eq_iff)
    have ty: "se_Type e2 = se_Type ev" "se_Type ev \<noteq> EventUserInputRequired" "\<not> retryable_error ev" "terminal_event e2 = terminal_event ev"
        "note_terminal e2 tm = note_terminal ev tm"
      using core_types [OF c] core_same [OF c] Cons.prems(3) False by simp_all
    from IH [OF ku(1), where tm = "note_terminal ev tm" and w = "w \<or> terminal_event ev" and armed = "armed \<or> se_Type ev = EventResult"] Cons.prems(3) obtain u out where
      u: "attach_loop te stop (Suc pos) (w \<or> terminal_event ev) (armed \<or> se_Type ev = EventResult) False (note_terminal ev tm) ?u (map Relayed es @ SourceClosed # rest)
          = Some (u, ensureRelayTerminal (verdict tm (ev # es)) (Some (buf @ ev # es)), False, False, rest)"
        "map core out = map (core \<circ> stamp (tn_exec t)) es"
        "tn_wire u = tn_wire t @ frame te (Some (int pos)) e2 @ frames te (Suc pos) out @ closing te (tn_exec ?u) (Suc pos + length es) ((w \<or> terminal_event ev) \<or> list_ex terminal_event es)
          (ensureRelayTerminal (verdict tm (ev # es)) (Some (buf @ ev # es)))"
      unfolding s by (auto simp: ku(3))
    have cl: "closing te (tn_exec ?u) n b x = closing te (tn_exec t) n b x" for n b x by (simp add: closing_def s)
    show ?thesis unfolding Let_def using u c False ty
      by (intro exI [of _ u] exI [of _ "e2 # out"])
        (simp add: attach_event [OF r t2 False t3] cl disj_assoc del: attach_loop.simps verdict_simps(2))
  qed
qed

declare waitDetached.simps [simp del]

lemma settled_by: "settles (verdict tm es) \<Longrightarrow> settles tm \<or> list_ex terminal_event es"
proof (induction es arbitrary: tm)
  case (Cons e es)
  from Cons.IH [of "note_terminal e tm"] Cons.prems show ?case
    by (auto simp: note_terminal_def terminal_event_def split: if_splits)
qed simp

text \<open>A stream that has ended is settled, except when all it says of its end are retryable errors.\<close>

lemma ended_settles:
  "settles (ensureRelayTerminal (verdict NoTerminal es) (Some es)) \<longleftrightarrow> list_ex terminal_event es \<or> \<not> list_ex retryable_error es"
proof (cases "settles (verdict NoTerminal es)")
  case True
  then show ?thesis using settled_by [OF True] by (simp add: ensureRelayTerminal_def)
next
  case False
  let ?r = "resolveTerminalFromRelayEvents es"
  have r: "settles ?r \<longleftrightarrow> list_ex terminal_event es \<or> \<not> list_ex retryable_error es"
  proof (cases "list_ex (\<lambda>ev. se_Type ev = EventResult) es")
    case True
    then show ?thesis by (auto simp: resolveTerminalFromRelayEvents_def terminal_event_def list_ex_iff)
  next
    case nores: False
    show ?thesis
    proof (cases "find (\<lambda>ev. se_Type ev = EventError \<and> \<not> se_Retryable ev) (rev es)")
      case (Some ev)
      then have "list_ex terminal_event es" by (auto simp: find_Some_iff terminal_event_def list_ex_iff) (metis nth_mem set_rev length_rev)
      then show ?thesis using nores Some by (simp add: resolveTerminalFromRelayEvents_def)
    next
      case None
      then have t: "\<not> list_ex terminal_event es" using nores by (auto simp: find_None_iff terminal_event_def list_ex_iff)
      show ?thesis
      proof (cases "find retryable_error (rev es)")
        case n: None
        then have "\<not> list_ex retryable_error es" by (auto simp: find_None_iff list_ex_iff)
        then show ?thesis using nores None n t unfolding retryable_error_def by (simp add: resolveTerminalFromRelayEvents_def)
      next
        case (Some ev)
        then have "list_ex retryable_error es" by (auto simp: find_Some_iff list_ex_iff) (metis nth_mem set_rev length_rev)
        then show ?thesis using nores None Some t unfolding retryable_error_def by (simp add: resolveTerminalFromRelayEvents_def)
      qed
    qed
  qed
  have "ensureRelayTerminal (verdict NoTerminal es) (Some es) = (if settles ?r then ?r
      else case verdict NoTerminal es of TermError b c \<Rightarrow> TermError b c | _ \<Rightarrow> ?r)"
    using False by (simp add: ensureRelayTerminal_def Let_def split: stream_terminal.split)
  moreover have "\<not> settles (case verdict NoTerminal es of TermError b c \<Rightarrow> TermError b c | _ \<Rightarrow> ?r)" if "\<not> settles ?r"
    using that False by (cases "verdict NoTerminal es") simp_all
  ultimately show ?thesis using r by (cases "settles ?r") simp_all
qed

lemma leave_wire: "tn_wire (leave gen t) = tn_wire t"
  by (simp add: leave_def set_exec_def Let_def on_server_def)

text \<open>
  C5. A turn answered as a stream, when the agent's stream ends: the wire carries the turn's ids, then one frame
  for every event of the turn but the retryable errors, in order and numbered by the place of the event, and
  at the end a terminal event if the agent sent none; so the client always learns how the turn ended, unless
  every error was retryable, and then the turn is to be retried.
\<close>

theorem stream_complete:
  assumes "le_relay (tn_exec t) = Some \<lparr>rv_events = [], rv_sourceDone = b\<rparr>"
    and "\<forall>ev \<in> set es. se_Type ev \<noteq> EventUserInputRequired \<and> writable te (stamp (tn_exec t) ev)"
  shows "\<exists>u term out. attachSSE te 0 stop t (map Relayed es @ [SourceClosed]) = Some (u, term, False, False, []) \<and>
    map core out = map (core \<circ> stamp (tn_exec t)) es \<and>
    tn_wire u = tn_wire t @ frame te None (stamp (tn_exec t) turn_context) @ frames te 0 out @
      closing te (tn_exec t) (length es) (list_ex terminal_event es) term \<and>
    (settles term \<longleftrightarrow> list_ex terminal_event es \<or> \<not> list_ex retryable_error es)"
proof -
  let ?g = "snd (stealSubscriber (tn_exec t))" and ?t = "set_exec (\<lambda>e. fst (stealSubscriber e)) t"
  have x: "le_relay (tn_exec ?t) = le_relay (tn_exec t)" "ids ?t = ids t" "tn_wire ?t = tn_wire t"
    by (simp_all add: set_exec_def Let_def on_server_def stealSubscriber_def stopReattachTimer_def ids_def split: option.split)
  have s: "stamp (tn_exec ?t) = stamp (tn_exec t)" using stamp_ids [OF x(2)] by (simp add: fun_eq_iff)
  have wr: "writable te (stamped_event ?t turn_context)"
    by (simp add: writable_def stamped_stamp turn_context_def stream_event_def)
  let ?u = "?t\<lparr>tn_wire := tn_wire ?t @ frame te None (stamped_event ?t turn_context)\<rparr>"
  note w = written [OF wr, of None ?t]
  have b: "buffered ?u = Some []" using x(1) assms(1) by (simp add: buffered_def)
  have su: "stamp (tn_exec ?u) = stamp (tn_exec t)" using s by simp
  let ?tm = "ensureRelayTerminal (verdict NoTerminal es) (Some es)"
  have "\<forall>ev \<in> set es. se_Type ev \<noteq> EventUserInputRequired \<and> writable te (stamp (tn_exec ?u) ev)" using assms(2) unfolding su .
  from stream_reads [OF b _ this, of 0 NoTerminal stop False False "[]"] obtain v out where
    v: "attach_loop te stop 0 False False False NoTerminal ?u (map Relayed es @ [SourceClosed]) = Some (v, ?tm, False, False, [])"
      "map core out = map (core \<circ> stamp (tn_exec t)) es"
      "tn_wire v = tn_wire ?u @ frames te 0 out @ closing te (tn_exec ?u) (length es) (list_ex terminal_event es) ?tm"
    unfolding Let_def su by auto
  have cl: "closing te (tn_exec ?t) n c y = closing te (tn_exec t) n c y" for n c y by (simp add: closing_def s)
  have "tn_wire (leave ?g v) = tn_wire t @ frame te None (stamp (tn_exec t) turn_context) @ frames te 0 out @
      closing te (tn_exec t) (length es) (list_ex terminal_event es) ?tm"
    by (simp add: leave_wire v(3) cl x(3) stamped_stamp s)
  then show ?thesis using v(2) ended_settles [of es]
    by (intro exI [of _ "leave ?g v"] exI [of _ ?tm] exI [of _ out]) (simp add: attachSSE_def Let_def w v(1))
qed

section \<open>A turn that nobody watches\<close>

text \<open>The execution of the turn is registered, nobody is attached, and the turn is not over.\<close>

definition unwatched :: "nat option \<Rightarrow> turn_state \<Rightarrow> bool" where
  "unwatched sess t \<longleftrightarrow> detached_end t = None \<and> \<not> hasSubscriber (tn_exec t) \<and> ex_status (tn_exec t) \<noteq> StatusSuspended \<and>
     store_ok (tn_server t) \<and>
     (\<exists>e. Registry_Get (ag_registry (tn_server t)) (turn_session t) = Some e \<and> le_execID e = le_execID (tn_exec t) \<and> le_agentSess e = sess)"

lemma unwatched_set:
  assumes "unwatched sess t"
    and "\<And>e. ex_sessionID (f e) = ex_sessionID e \<and> le_execID (f e) = le_execID e \<and> le_agentSess (f e) = le_agentSess e \<and>
      ex_subCancel (f e) = ex_subCancel e \<and> ex_status (f e) = ex_status e"
  shows "unwatched sess (set_exec f t)"
proof -
  obtain e where e: "Registry_Get (ag_registry (tn_server t)) (turn_session t) = Some e" "le_execID e = le_execID (tn_exec t)" "le_agentSess e = sess"
    using assms(1) unfolding unwatched_def by blast
  let ?s = "update_exec (turn_session t) (\<lambda>x. if le_execID x = le_execID (tn_exec t) then f x else x) (tn_server t)"
  have r: "records ?s = records (tn_server t)" by simp
  have ok: "store_ok ?s" by (rule only_affects_ok [OF affects_bookkeeping(8)]) (use assms(1) in \<open>simp add: unwatched_def\<close>)
  have g: "Registry_Get (ag_registry ?s) (turn_session t) = Some (f e)"
    using e store_ok_maps(3) assms(1) by (simp add: update_exec_def Registry_Get_def unwatched_def)
  have x: "tn_server (set_exec f t) = ?s" "tn_exec (set_exec f t) = f (tn_exec t)" by (simp_all add: set_exec_def Let_def)
  show ?thesis using assms e g ok
    unfolding unwatched_def detached_end_def x records_same [OF r] hasSubscriber_def
    by (auto split: option.splits if_splits)
qed

lemma waiting_step:
  assumes "unwatched sess t"
  defines "u \<equiv> set_exec Exec_Registry.armReattachTimer t"
  shows "unwatched sess u" "ex_reattachTimer (tn_exec u)"
    "waitDetached t (Relayed ev # is) = waitDetached (set_exec (append_relayed ev) u) is"
    "waitDetached t (DrainElapsed # is) = waitDetached (fst (drain_timeout u)) is"
proof -
  show u: "unwatched sess u" unfolding u_def by (rule unwatched_set [OF assms(1)]) (simp add: Exec_Registry.armReattachTimer_def)
  show timer: "ex_reattachTimer (tn_exec u)" using assms(1)
    by (simp add: u_def set_exec_def Let_def Exec_Registry.armReattachTimer_def unwatched_def hasSubscriber_def)
  have n: "\<not> hasSubscriber (tn_exec t)" "detached_end u = None" using assms(1) u by (simp_all add: unwatched_def)
  show "waitDetached t (Relayed ev # is) = waitDetached (set_exec (append_relayed ev) u) is"
    "waitDetached t (DrainElapsed # is) = waitDetached (fst (drain_timeout u)) is"
    using timer by (simp_all add: waitDetached.simps [of t] n [folded u_def] u_def [symmetric] Let_def)
qed


section \<open>Sample turns\<close>

definition sample_env :: turn_env where
  "sample_env = \<lparr>te_cfg = sample_service, te_rq = sample_request ''s'', te_fadd = (\<lambda>a b. a), te_ff = no_float, te_uuid = some_uuid,
     te_fault = NoFault, te_taskLog = False, te_retry = (2, 0), te_summarizer = None, te_multimodal = (\<lambda>_. None)\<rparr>"

definition sample_turn :: turn_state where
  "sample_turn = \<lparr>tn_server = sample_created, tn_exec = sample_execution, tn_offset = 0, tn_agg = None,
     tn_dirs = (\<lambda>_. \<lparr>ud_file = Absent, ud_tmp = Absent\<rparr>), tn_meter = None, tn_log = [], tn_wire = [], tn_launches = []\<rparr>"

definition sample_turn_request :: "bool \<Rightarrow> turn_request" where
  "sample_turn_request sse = \<lparr>tq_wantSSE = sse, tq_record = 0, tq_session = ''s'', tq_turnID = ''t'', tq_correlationID = [], tq_prompt = ''hi'',
     tq_rawPrompt = ''hi'', tq_resume = [], tq_opts = agent_start, tq_saved = [], tq_context = 3, tq_execID = 1\<rparr>"

definition an_attempt :: "turn_input list \<Rightarrow> attempt" where
  "an_attempt is = \<lparr>at_create = Inr 7, at_stdin = True, at_send = None, at_inputs = is, at_cancelled = False\<rparr>"

definition busy_upstream :: StreamEvent where
  "busy_upstream = (stream_event EventError)\<lparr>se_Retryable := True, se_Content := ''503 overloaded''\<rparr>"

definition question :: StreamEvent where
  "question = (stream_event EventUserInputRequired)\<lparr>se_Content := ''Proceed?''\<rparr>"

definition sample_record_of :: "turn_state \<Rightarrow> SessionRecord" where
  "sample_record_of t = cell (tn_server t) (the (Mem_Get (tn_server t) ''s''))"

lemma sample_starts_clean: "starts_clean (sample_turn_request b) sample_turn"
proof -
  have "Registry_Get (ag_registry sample_created) ''s'' = None" "map_of (ag_active sample_created) ''s'' = None" by code_simp+
  then show ?thesis by (simp add: starts_clean_def sample_turn_def sample_turn_request_def sample_created_ok)
qed

text \<open>Two attempts: the first fails with an error that is retried, the second ends with a result.\<close>

definition two_attempts :: "attempt list" where
  "two_attempts = [an_attempt [Relayed busy_upstream, SourceClosed], an_attempt [Relayed (stream_event EventResult), SourceClosed]]"

lemma two_attempts_sound: "\<forall>a \<in> set two_attempts. sound_inputs i (at_inputs a)"
  by (simp add: two_attempts_def an_attempt_def sound_inputs_def)

lemma two_attempts_run:
  "\<exists>u ev. runTurn sample_env (sample_turn_request False) sample_turn two_attempts = Some (u, False, JsonEvents [ev]) \<and> length (tn_launches u) = 2"
proof -
  have "case runTurn sample_env (sample_turn_request False) sample_turn two_attempts of
      Some (u, False, JsonEvents [ev]) \<Rightarrow> length (tn_launches u) = 2 | _ \<Rightarrow> False" by code_simp
  then show ?thesis by (auto split: option.splits prod.splits bool.splits turn_reply.splits list.splits)
qed

theorem turn_releases_session_witness:
  "\<exists>u reply. runTurn sample_env (sample_turn_request False) sample_turn two_attempts = Some (u, False, reply) \<and>
    Registry_Get (ag_registry (tn_server u)) ''s'' = None"
proof -
  obtain u ev where u: "runTurn sample_env (sample_turn_request False) sample_turn two_attempts = Some (u, False, JsonEvents [ev])"
    using two_attempts_run by blast
  have "tq_session (sample_turn_request False) = ''s''" by (simp add: sample_turn_request_def)
  with turn_releases_session [OF u sample_starts_clean two_attempts_sound] u show ?thesis by auto
qed



theorem stream_complete_witness:
  "\<exists>u c. attachSSE sample_env 0 True sample_turn (map Relayed [stream_event EventText] @ [SourceClosed])
    = Some (u, TermError False c, False, False, [])"
proof -
  let ?es = "[stream_event EventText]"
  have r: "le_relay (tn_exec sample_turn) = Some \<lparr>rv_events = [], rv_sourceDone = False\<rparr>" by (simp add: sample_turn_def sample_execution_def)
  have e: "\<forall>ev \<in> set ?es. se_Type ev \<noteq> EventUserInputRequired \<and> writable sample_env (stamp (tn_exec sample_turn) ev)"
    by (simp add: stream_event_def writable_def)
  obtain u tm out where u: "attachSSE sample_env 0 True sample_turn (map Relayed ?es @ [SourceClosed]) = Some (u, tm, False, False, [])"
      "settles tm \<longleftrightarrow> list_ex terminal_event ?es \<or> \<not> list_ex retryable_error ?es"
    using stream_complete [OF r e, of True] by blast
  have "case attachSSE sample_env 0 True sample_turn (map Relayed ?es @ [SourceClosed]) of
      Some (_, TermError False _, _) \<Rightarrow> True | _ \<Rightarrow> False" by code_simp
  then show ?thesis using u(1) by (auto split: stream_terminal.splits bool.splits)
qed

definition watched_by_none :: turn_state where
  "watched_by_none = sample_turn\<lparr>tn_server := markSessionActive 5 ''s'' (register_exec ''s'' sample_execution sample_created)\<rparr>"


section \<open>What goes wrong\<close>

text \<open>The registered execution of a turn that has asked the user, and the turn that answers.\<close>

definition asking_turn :: turn_state where
  "asking_turn = (let x = sample_execution\<lparr>ex_status := StatusSuspended, le_stdin := True\<rparr>
     in sample_turn\<lparr>tn_server := register_exec ''s'' x sample_created, tn_exec := x\<rparr>)"

text \<open>
  The agent asks a second question while the client that answered the first still reads. Answering it takes the
  stream over, and the handler of the first answer, whose stream is then gone, ends the turn and closes the
  agent that was just told the answer.
\<close>

lemma second_answer_kills_turn:
  "case handleRespond sample_env ''POST'' ''/api/v1/sessions/s/respond'' True (Inr ''yes'') None asking_turn [Relayed question, Stolen] of
     Some (t, StreamDone) \<Rightarrow> Registry_Get (ag_registry (tn_server t)) ''s'' = None \<and> 7 \<in> set (ag_closed (tn_server t))
   | _ \<Rightarrow> False"
  by code_simp

text \<open>An answer without the right Accept header is given to the agent and then refused; the turn runs on.\<close>

lemma refused_answer_is_given:
  "case handleRespond sample_env ''POST'' ''/api/v1/sessions/s/respond'' False (Inr ''yes'') None asking_turn [] of
     Some (t, HttpError c _) \<Rightarrow> c = 406 \<and> rec_Status (sample_record_of t) = StatusActive \<and>
       Registry_Get (ag_registry (tn_server t)) ''s'' \<noteq> None
   | _ \<Rightarrow> False"
  by code_simp

text \<open>
  A stream that ends with a question arms the timer of unwatched turns, when the side effect pump has not yet
  suspended the execution; it then ends the turn although the session waits for the user.
\<close>

lemma suspended_turn_reaped:
  "case attachSSE sample_env 0 True watched_by_none [Relayed question] of
     Some (t, _, suspended, _, _) \<Rightarrow> suspended \<and> ex_reattachTimer (tn_exec t) \<and>
       (let u = fst (drain_timeout (handleRelaySideEffects sample_env question t))
        in rec_Status (sample_record_of u) = StatusSuspended \<and> Registry_Get (ag_registry (tn_server u)) ''s'' = None)
   | None \<Rightarrow> False"
  by code_simp

text \<open>
  The last retry of a stream fails because the model is overloaded: the client is told, but the record keeps the
  status it had, ''active''; the turn is only finished.
\<close>

lemma overloaded_session_stays_active:
  assumes "IsRetryableUpstream c" "tq_wantSSE q" "\<not> client_left (at_inputs a)"
  shows "\<exists>w. tn_server w = tn_server t \<and>
    after_relay te q True a sess (TermError True c) evs t = (writeSSEDone (finish_turn te q (Some sess) w), Finished StreamDone)"
proof -
  let ?w = "emitClassifiedSSE te (ClassifiedErrorContent c True) True t"
  have "tn_server ?w = tn_server t"
    by (auto simp: emitClassifiedSSE_def Let_def updateSessionStatusOnTerminal_def write_event_def stream_event_def split: sum.split)
  then show ?thesis using assms by (intro exI [of _ ?w]) (simp add: after_relay_def Let_def)
qed

text \<open>A JSON turn whose agent ends without a terminal event leaves the session ''active''.\<close>

lemma silent_end_stays_active:
  "case runTurn sample_env (sample_turn_request False) sample_turn [an_attempt [SourceClosed]] of
     Some (t, False, JsonEvents evs) \<Rightarrow> evs = [] \<and> rec_Status (sample_record_of t) = StatusActive \<and>
       Registry_Get (ag_registry (tn_server t)) ''s'' = None
   | _ \<Rightarrow> False"
  by code_simp

text \<open>A JSON turn that is cancelled while a result arrives is recorded as completed; a stream keeps the cancellation.\<close>

definition cancelling :: "turn_input list" where
  "cancelling = [Meanwhile (on_server (\<lambda>s. fst (handleCancel sample_service (sample_request ''s'') ''s'' s))), Relayed (stream_event EventResult), SourceClosed]"

lemma json_hides_cancel:
  "case respondJSONRelay sample_env watched_by_none cancelling of
     Some (t, _) \<Rightarrow> rec_Status (sample_record_of t) = StatusCompleted | None \<Rightarrow> False"
  "case streamSSERelay sample_env True watched_by_none cancelling of
     Some (t, _) \<Rightarrow> rec_Error (sample_record_of t) = turnCancelledError | None \<Rightarrow> False"
  by code_simp+

text \<open>A question that arrives after the JSON client has left does not suspend the turn: it ends, and the session stays ''active''.\<close>

lemma unheard_question_ends_turn:
  "case runTurn sample_env (sample_turn_request False) sample_turn [an_attempt [ClientGone, Relayed question, SourceClosed]] of
     Some (t, waits, _) \<Rightarrow> \<not> waits \<and> rec_Status (sample_record_of t) = StatusActive \<and> Registry_Get (ag_registry (tn_server t)) ''s'' = None
   | None \<Rightarrow> False"
  by code_simp

text \<open>When the agent cannot be started, the images saved for it stay behind.\<close>

lemma failed_start_leaves_images:
  "case runTurn sample_env ((sample_turn_request False)\<lparr>tq_saved := [''/tmp/i.png'']\<rparr>)
       (sample_turn\<lparr>tn_server := sample_created\<lparr>ag_temp := [''/tmp/i.png'']\<rparr>\<rparr>) [(an_attempt [])\<lparr>at_create := Inl ''no agent''\<rparr>] of
     Some (t, _, HttpError c _) \<Rightarrow> c = 500 \<and> ag_temp (tn_server t) = [''/tmp/i.png'']
   | _ \<Rightarrow> False"
  by code_simp

text \<open>When a later image of a message cannot be read, the ones saved before it stay behind.\<close>

definition two_images :: "InputPart list" where
  "two_images = map (\<lambda>d. \<lparr>ip_Type = ''image'', ip_Text = [], ip_Source = Some \<lparr>is_Type = ''base64'', is_MediaType = ''image/png'', is_Data = d\<rparr>\<rparr>)
     [''good'', ''bad'']"

definition sample_images :: image_env where
  "sample_images = \<lparr>ie_tempDir = ''/tmp'', ie_decode = (\<lambda>d. if d = ''bad'' then Inl ''illegal'' else Inr d), ie_hash = (\<lambda>d. d), ie_mkdir = None,
     ie_write = (\<lambda>_. None)\<rparr>"

lemma bad_image_leaves_images:
  "ValidateContentParts two_images = None \<and>
   BuildMultimodalPrompt sample_images ''s'' two_images [] = ([''/tmp/arctic-tern-multimodal/s_good.png''], Inl (BadBase64 ''illegal''))"
  by code_simp

end
