(* ===== verification/Spec2Isabelle.thy ===== *)
theory Spec2Isabelle
  imports SSE_Chunk Token_Usage Retry_Policy Model_Routing WBS_Planning Exec_Registry Session_History Context_Transfer Vault_Store Artifact_Analyzer Agent_Process Agent_Planning Turn_Service
begin

text \<open>
  A verification of Arctic Tern, a service that runs coding agents. A client asks the agent service
  (\<open>agentservice\<close>) to run a turn of a session; the service drives an agent, either a command line
  program (\<open>codingagent/codex\<close>, \<open>codingagent/claudecode\<close>) or the built-in one (\<open>wayfinder\<close>), and
  streams its events back over SSE. The agents reach their models through the gateway
  (\<open>llmgateway\<close>), which routes requests, retries them and meters their tokens; the service joins
  that usage with what the agents report. All paths below are under \<open>src/shared/libs/go\<close>, unless they
  start with \<open>src\<close>.

  \<^bold>\<open>Theories and sources.\<close>

  \<^item> \<open>Tern_Prelude\<close>: results, Go maps as association lists, byte strings with the functions of
    \<open>strings\<close> and \<open>strconv\<close>, UTF-8, 64-bit integers that wrap, the locales \<open>state_machine\<close> for
    invariants and \<open>map_refinement\<close> for keyed stores; \<open>Go_Json\<close>: JSON values and \<open>json.Marshal\<close>; \<open>Stream_Events\<close>: \<open>StreamEvent\<close> and
    \<open>TokenUsage\<close> with their JSON text.
  \<^item> \<open>SSE_Chunk\<close>: \<open>codingagent/sse_chunk.go\<close>, \<open>stream_io.go\<close>, the event writer of
    \<open>agentservice/handler.go\<close>, and on the client \<open>src/client/internal/ssechunk\<close> and
    \<open>src/client/v1/stream.go\<close>. Splitting of large tool results, the wire, the assembler.
  \<^item> \<open>Token_Usage\<close>: \<open>codingagent/usage.go\<close>, \<open>metering_meta.go\<close>, \<open>agentservice/usage_aggregator.go\<close>,
    \<open>usage_store.go\<close>, \<open>handler_usage.go\<close>, \<open>llmgateway/usage_meter.go\<close>.
  \<^item> \<open>App_Config\<close>: \<open>config/\<close>; \<open>Retry_Policy\<close>: \<open>codingagent/retry.go\<close>, \<open>llmgateway/stream_retry.go\<close>;
    \<open>Model_Routing\<close>: \<open>llmgateway/routing.go\<close> with keys, masking, tool filter and provider registry.
  \<^item> \<open>Exec_Registry\<close>: \<open>agentservice/exec_registry.go\<close> and the reattach logic of \<open>handler_retry.go\<close> and
    \<open>handler_follow.go\<close>: who runs what, the relay between the agent and its readers.
  \<^item> \<open>Session_Compaction\<close> and \<open>Session_History\<close>: \<open>wayfinder/session\<close>: messages, compaction, history
    files, the canonical log and the session store; \<open>Context_Transfer\<close>: \<open>wayfinder/portable\<close>,
    \<open>agentservice/ingest.go\<close> and the prompt wrapping of \<open>handler_session.go\<close>: what an agent that joins
    a session is told.
  \<^item> \<open>Vault_Store\<close>: \<open>vault/\<close>, \<open>resolveVault\<close> of \<open>src/server/server.go\<close>, \<open>src/vault\<close>: secrets, their
    backends and chain, and the command line over them.
  \<^item> \<open>Task_Log\<close>: \<open>tasklog/\<close>; \<open>Artifact_Store\<close>: \<open>artifact/store\<close>, \<open>artifact/storage\<close> and \<open>artifact/api\<close>;
    \<open>Artifact_Analyzer\<close>: \<open>artifact/analyzer\<close>, \<open>agentservice/artifact_reconcile.go\<close> and
    \<open>codingagent/file_change_collectors.go\<close>: which files a turn touched.
  \<^item> \<open>Session_Service\<close>: the sessions of the agent service: \<open>agentservice/session_store.go\<close>,
    \<open>workspace_session_store.go\<close>, \<open>storage_paths.go\<close>, and the handlers of \<open>handler.go\<close> and
    \<open>handler_session.go\<close> that create, list, show, patch, delete, cancel and terminate them. Handlers write
    through pointers into the store, so records live in a heap. \<open>Turn_Service\<close>: the handlers that send a
    message, answer a question and follow a turn, with the attempts and streams of \<open>handler_retry.go\<close> and the
    content of \<open>codingagent/content.go\<close>; what a turn waits for is a list of inputs.
  \<^item> \<open>Guardrail\<close>: \<open>wayfinder/guardrail.go\<close>, \<open>file_tracker.go\<close>; \<open>Agent_Tools\<close>: \<open>wayfinder/tools\<close>;
    \<open>Agent_Core\<close>: \<open>wayfinder/agent_core.go\<close>, the tool loop with its sessions; \<open>WBS_Planning\<close>:
    \<open>wayfinder/planning\<close>; \<open>Agent_Planning\<close>: \<open>execution_router.go\<close>, \<open>subagent\<close>, \<open>agent_runner.go\<close>,
    \<open>adapter.go\<close> and the planning half of \<open>agent_core.go\<close>.
  \<^item> \<open>Agent_Protocol\<close>: the output protocols of Codex and Claude Code (\<open>protocol.go\<close> of each adapter);
    \<open>Agent_Process\<close>: their command lines, environments, sandbox modes and event streams (\<open>process.go\<close>,
    \<open>options.go\<close>, \<open>sandbox_mode.go\<close>, \<open>rejection.go\<close>).

  \<^bold>\<open>State and operations.\<close> A struct is a record, an operation a function on it that returns the new
  state with its result; errors are values of sum and option types. Go maps are association lists with
  distinct keys, so that iteration order, which Go leaves open, is the order of the list and theorems
  hold for every order. Code that takes a lock several times in one operation is also modelled with its
  locked sections as separate steps that interleave (\<open>Model_Routing\<close>, \<open>Exec_Registry\<close>, the sandbox
  tracker of \<open>Agent_Process\<close>). The built-in agent and the child sessions it starts share a record of the
  world, the session folders and the event channel.

  \<^bold>\<open>What is shown.\<close>

  \<^item> Transport: every tool result reaches the client as the agent produced it, within the line limit,
    and splitting ends; readers of the relay see the events in order and without loss.
  \<^item> Accounting: a finished turn is stored once with the usage of the right source, errors leave the
    report alone, calls are neither lost nor counted twice, and the key the agents send to the gateway
    carries session and turn.
  \<^item> Routing and retries: the session table refines an LRU list, also under interleaving as far as the
    code allows; retries succeed exactly when an attempt within the budget does.
  \<^item> Sessions: history is append-only, the log is numbered consecutively, a run of the agent can be
    restored from disk in every outcome.
  \<^item> The built-in agent: whatever the models answer, in the agent and in all its child sessions, it
    stays within its working directory and within its request budget, every tool call is answered in
    order, messages are numbered once, a turn has one beginning and one end. These rest on the locale
    \<open>shared_relation\<close>: what the tools, the store and the emitter keep, a run keeps; it is interpreted
    for the calls on the operating system, for the session folders and for the events, and each
    interpretation discharges the obligation of the subagent by the same locale for the child session.
  \<^item> Plans: nodes start after their dependencies, success means completion, and the orchestrator wired
    to the agent refines the abstract one for some answers of its executor.
  \<^item> Adapters: the sandbox policy reaches the command line, the stream of a process is complete, and
    exactly the parsed lines for Claude Code.
  \<^item> Context and secrets: a turn enters the shared log once and a joining agent is told exactly what it has
    not seen; the vault backends satisfy one contract (the locale \<open>vault_backend\<close>), and a secret set on the
    command line is what the server resolves.
  \<^item> Artifacts: the user artifacts refine a map from keys to contents; pages partition a listing; a deleted
    artifact stays deleted and a default path stays in the work directory; a file tool call that is logged
    reaches the store, once per file and turn; the shell parser and the reconciliation are characterised
    independently of the order in which they look.
  \<^item> The service: an operation on one session leaves all others alone, whatever requests came before; stopping
    a turn releases everything it held; a patch changes what it was asked to, in memory and on disk; a created
    session is found again after a restart. The invariant of the store (distinct sessions have distinct records
    in the heap) comes from the locale \<open>state_machine\<close>.
  \<^item> Turns: whatever runs meanwhile, a turn that does not wait for the user leaves nothing of its session
    registered; retries are bounded and start afresh; the JSON answer and the stream carry every event in order
    and the end of the turn; a turn that nobody watches ends with the drain timer.
  \<^item> Where the code does not do what it means to, a theorem shows that instead: a lost wake-up with two
    readers, a session table beyond its capacity, the system prompt lost in compaction, a suspended
    plan that cannot be resumed, tool calls left unanswered by a question to the user, two results for
    one sandboxed command, and others that stand beside the component they concern.

  \<^bold>\<open>Bounds and fuel.\<close> All functions are total. The tool loop recurses on the iterations left (25, as in
  the code); splitting, orchestration, counting and rune decoding have termination proofs by measures;
  retry loops recurse on the attempts left; the loops of a turn recurse on its inputs and give no result while it waits. Trimming and decoding helpers that take a number of steps
  are given the length of their input, which is enough because every step consumes a byte.

  \<^bold>\<open>Parameters.\<close> Models, processes, the operating system, file system faults, clocks, contexts, regular
  expressions of the configuration, SQL sorting, glob patterns, git, encryption, floating point arithmetic, YAML and JSON parsing are arguments of the definitions that
  use them; fixed prompt texts are named. What a theorem needs of a parameter is a hypothesis of it (for
  example that a directory walk stays below its root, or that writes succeed).

  \<^bold>\<open>Not modelled.\<close> The conversion between provider formats in the gateway and its proxy handlers, which are
  mostly calls of a third-party library; the HTTP client of the built-in agent and the client library, which
  send requests and decode replies; start-up and glue of the server, the WebSocket transport, process start and
  stop, the logger, and the command line programs other than the vault's, which have no state of their own that
  the other parts rely on; listing of agents and models, health and version handlers; \<open>streamSSE\<close> and
  \<open>respondJSON\<close> of \<open>agentservice/handler.go\<close>, which nothing calls.
\<close>

end
